(* ===== verification/Prelude.thy ===== *)
theory Prelude
  imports Main "HOL-Library.Word"
begin

text \<open>
  Shared vocabulary of the development: machine integers at their Rust widths with the
  saturating operations of the standard library, the \<open>Result\<close> type as a sum, the
  \<open>for\<close>-loop-with-early-return idiom of the sources (\<open>for_check\<close>), strictly sorted lists
  (what sorting followed by \<open>dedup\<close> produces, and the order in which a \<open>BTreeMap\<close>
  is iterated), and the little-endian byte encodings.

  Unchecked \<open>+\<close> on \<open>u32\<close> and \<open>u64\<close> is word addition: the release profile of the workspace
  (\<open>src/Cargo.toml\<close>) leaves \<open>overflow-checks\<close> off, so it wraps around.
\<close>

section \<open>Machine integers\<close>

type_synonym u8 = "8 word"
type_synonym u32 = "32 word"
type_synonym u64 = "64 word"
type_synonym bytes = "u8 list"

named_theorems exo_defs \<open>definitions unfolded together by the component proofs\<close>

text \<open>\<open>saturating_add\<close> of the Rust integer types.\<close>

definition saturating_add :: "'a::len word \<Rightarrow> 'a word \<Rightarrow> 'a word" where
  "saturating_add x y =
     (if unat x + unat y < 2 ^ LENGTH('a) then x + y else - 1)"

lemma unat_minus_one_word_exp: "unat (- 1 :: 'a::len word) = 2 ^ LENGTH('a) - 1"
  by (simp add: unsigned_minus_1_eq_mask mask_eq_exp_minus_1)

lemma unat_saturating_add:
  "unat (saturating_add x y) = min (unat x + unat y) (2 ^ LENGTH('a) - 1)"
  for x y :: "'a::len word"
  by (auto simp: saturating_add_def unat_minus_one_word_exp min_def unat_add_lem
      simp flip: unat_add_lem)

lemma unat_less_max_word: "x \<noteq> - 1 \<Longrightarrow> unat x < 2 ^ LENGTH('a) - 1" for x :: "'a::len word"
proof -
  assume "x \<noteq> - 1"
  then have "unat x \<noteq> 2 ^ LENGTH('a) - 1"
    by (metis unat_minus_one_word_exp word_unat_eq_iff)
  moreover have "unat x < 2 ^ LENGTH('a)" by simp
  ultimately show ?thesis by linarith
qed

lemma saturating_add_1_less:
  "x < saturating_add x 1 \<longleftrightarrow> x \<noteq> - 1" for x :: "'a::len word"
proof
  assume "x \<noteq> - 1"
  then have "unat x < 2 ^ LENGTH('a) - 1"
    by (rule unat_less_max_word)
  moreover from this have "1 < (2 ^ LENGTH('a) :: nat)" by linarith
  ultimately show "x < saturating_add x 1"
    by (simp add: word_less_nat_alt unat_saturating_add)
next
  assume "x < saturating_add x 1"
  then show "x \<noteq> - 1"
    by (auto simp: word_less_nat_alt unat_saturating_add unat_minus_one_word_exp)
qed

lemma le_saturating_add_1: "x \<le> saturating_add x 1" for x :: "'a::len word"
proof -
  have "unat x < 2 ^ LENGTH('a)" by simp
  then have "unat x \<le> 2 ^ LENGTH('a) - Suc 0" by linarith
  then show ?thesis
    by (simp add: word_le_nat_alt unat_saturating_add)
qed


lemma saturating_add_1_max [simp]: "saturating_add (- 1) 1 = (- 1 :: 'a::len word)"
  by (simp add: saturating_add_def unat_minus_one_word_exp)

text \<open>\<open>saturating_sub\<close>: a negative difference is zero.\<close>

definition saturating_sub :: "'a::len word \<Rightarrow> 'a word \<Rightarrow> 'a word" where
  "saturating_sub x y = (if y \<le> x then x - y else 0)"

lemma unat_saturating_sub: "unat (saturating_sub x y) = unat x - unat y" for x y :: "'a::len word"
  by (simp add: saturating_sub_def unat_sub word_le_nat_alt)

text \<open>\<open>saturating_mul\<close>.\<close>

definition saturating_mul :: "'a::len word \<Rightarrow> 'a word \<Rightarrow> 'a word" where
  "saturating_mul x y = (if unat x * unat y < 2 ^ LENGTH('a) then x * y else - 1)"

lemma unat_saturating_mul:
  "unat (saturating_mul x y) = min (unat x * unat y) (2 ^ LENGTH('a) - 1)" for x y :: "'a::len word"
proof (cases "unat x * unat y < 2 ^ LENGTH('a)")
  case True
  then have "unat (x * y) = unat x * unat y" by (simp add: unat_mult_lem)
  with True show ?thesis by (simp add: saturating_mul_def)
next
  case False
  then have "min (unat x * unat y) (2 ^ LENGTH('a) - 1) = 2 ^ LENGTH('a) - 1" by linarith
  with False show ?thesis by (simp add: saturating_mul_def unat_minus_one_word_exp)
qed

text \<open>\<open>u64::abs_diff\<close>.\<close>

definition abs_diff :: "u64 \<Rightarrow> u64 \<Rightarrow> u64" where
  "abs_diff a b = (if a < b then b - a else a - b)"

lemma uint_abs_diff: "uint (abs_diff a b) = \<bar>uint a - uint b\<bar>"
  by (auto simp: abs_diff_def word_less_def uint_sub_if')

text \<open>\<open>u64::try_from(count).unwrap_or(u64::MAX)\<close>.\<close>

definition u64_of_count :: "nat \<Rightarrow> u64" where
  "u64_of_count n = (if n < 2 ^ 64 then of_nat n else - 1)"

lemma unat_u64_of_count: "unat (u64_of_count n) = min n (2 ^ 64 - 1)"
  by (auto simp: u64_of_count_def min_def unat_of_nat unat_minus_one_word_exp)

section \<open>Results and loops with early return\<close>

text \<open>Rust's \<open>Result\<close>: \<open>Inl\<close> is \<open>Err\<close>, \<open>Inr\<close> is \<open>Ok\<close>.\<close>

type_synonym ('a, 'e) result = "'e + 'a"

abbreviation Ok :: "'a \<Rightarrow> ('a, 'e) result" where
  "Ok \<equiv> Inr"

abbreviation Err :: "'e \<Rightarrow> ('a, 'e) result" where
  "Err \<equiv> Inl"

text \<open>The question-mark operator: an error is returned at once.\<close>

definition and_then :: "('a, 'e) result \<Rightarrow> ('a \<Rightarrow> ('b, 'e) result) \<Rightarrow> ('b, 'e) result" where
  "and_then r f = (case r of Inl e \<Rightarrow> Inl e | Inr a \<Rightarrow> f a)"

lemma and_then_simps [simp]:
  "and_then (Inl e) f = Inl e"
  "and_then (Inr a) f = f a"
  by (simp_all add: and_then_def)

lemma and_then_eq_Ok:
  "and_then r f = Inr b \<longleftrightarrow> (\<exists>a. r = Inr a \<and> f a = Inr b)"
  by (cases r) auto

text \<open>\<open>Option::ok_or\<close>.\<close>

definition ok_or :: "'a option \<Rightarrow> 'e \<Rightarrow> ('a, 'e) result" where
  "ok_or x e = (case x of None \<Rightarrow> Inl e | Some a \<Rightarrow> Inr a)"

lemma ok_or_simps [simp]:
  "ok_or None e = Inl e"
  "ok_or (Some a) e = Inr a"
  by (simp_all add: ok_or_def)

lemma ok_or_eq_Ok [simp]: "ok_or x e = Inr a \<longleftrightarrow> x = Some a"
  by (cases x) auto

text \<open>
  A loop over \<open>xs\<close> whose body may return an error: the checks run from left to right and
  the first error ends the loop.
\<close>

primrec for_check :: "('a \<Rightarrow> (unit, 'e) result) \<Rightarrow> 'a list \<Rightarrow> (unit, 'e) result" where
  "for_check f [] = Inr ()"
| "for_check f (x # xs) = and_then (f x) (\<lambda>_. for_check f xs)"

lemma for_check_Ok: "for_check f xs = Inr () \<longleftrightarrow> (\<forall>x \<in> set xs. f x = Inr ())"
  by (induction xs) (auto simp: and_then_eq_Ok)

lemma for_check_append:
  "for_check f (xs @ ys) = and_then (for_check f xs) (\<lambda>_. for_check f ys)"
  by (induction xs) (auto simp: and_then_def split: sum.splits)

lemma for_check_ErrD:
  "for_check f xs = Inl e \<Longrightarrow>
     \<exists>ys x zs. xs = ys @ x # zs \<and> (\<forall>y \<in> set ys. f y = Inr ()) \<and> f x = Inl e"
proof (induction xs)
  case (Cons a xs)
  show ?case
  proof (cases "f a")
    case (Inl b)
    with Cons.prems show ?thesis
      by (intro exI [of _ "[]"] exI [of _ a] exI [of _ xs]) simp
  next
    case (Inr u)
    with Cons obtain ys x zs where
      "xs = ys @ x # zs" "\<forall>y \<in> set ys. f y = Inr ()" "f x = Inl e" by auto
    with Inr show ?thesis
      by (intro exI [of _ "a # ys"] exI [of _ x] exI [of _ zs]) simp
  qed
qed simp

lemma for_check_Err:
  "for_check f xs = Inl e \<longleftrightarrow>
     (\<exists>ys x zs. xs = ys @ x # zs \<and> (\<forall>y \<in> set ys. f y = Inr ()) \<and> f x = Inl e)"
proof
  assume "\<exists>ys x zs. xs = ys @ x # zs \<and> (\<forall>y \<in> set ys. f y = Inr ()) \<and> f x = Inl e"
  then show "for_check f xs = Inl e"
    by (auto simp: for_check_append for_check_Ok [THEN iffD2])
qed (rule for_check_ErrD)

lemma for_check_cases: "for_check f xs = Inr () \<or> (\<exists>e. for_check f xs = Inl e)"
  by (cases "for_check f xs") auto

text \<open>\<open>iter().enumerate()\<close>.\<close>

abbreviation enumerate0 :: "'a list \<Rightarrow> (nat \<times> 'a) list" where
  "enumerate0 xs \<equiv> List.enumerate 0 xs"

lemma in_set_enumerate0: "(i, x) \<in> set (enumerate0 xs) \<longleftrightarrow> i < length xs \<and> xs ! i = x"
  by (auto simp: in_set_enumerate_eq)

lemma Ball_enumerate0: "(\<forall>x \<in> set (enumerate0 xs). P x) \<longleftrightarrow> (\<forall>i < length xs. P (i, xs ! i))"
  by (metis in_set_enumerate0 surj_pair)

section \<open>Sorting and removing duplicates\<close>

text \<open>\<open>v.sort(); v.dedup()\<close>: a sorted list without adjacent duplicates.\<close>

definition sort_dedup :: "'a::linorder list \<Rightarrow> 'a list" where
  "sort_dedup xs = remdups_adj (sort xs)"

abbreviation ssorted :: "'a::linorder list \<Rightarrow> bool" where
  "ssorted \<equiv> sorted_wrt (<)"

lemma ssorted_imp_distinct: "ssorted xs \<Longrightarrow> distinct xs" for xs :: "'a::linorder list"
  by (simp add: strict_sorted_iff)

lemma set_sort_dedup [simp]: "set (sort_dedup xs) = set xs"
  by (simp add: sort_dedup_def)

lemma ssorted_remdups_adj: "sorted xs \<Longrightarrow> ssorted (remdups_adj xs)" for xs :: "'a::linorder list"
  by (induction xs rule: remdups_adj.induct) (fastforce simp: order_le_less)+

lemma ssorted_sort_dedup [simp]: "ssorted (sort_dedup xs)"
  by (simp add: sort_dedup_def ssorted_remdups_adj)

lemma ssorted_unique: "ssorted xs \<Longrightarrow> ssorted ys \<Longrightarrow> set xs = set ys \<Longrightarrow> xs = ys"
  for xs ys :: "'a::linorder list"
  by (simp add: strict_sorted_equal)

lemma sort_dedup_id: "sort_dedup xs = xs \<longleftrightarrow> ssorted xs"
proof
  assume "ssorted xs"
  then show "sort_dedup xs = xs"
    using ssorted_unique [OF ssorted_sort_dedup, of xs xs] by simp
qed (metis ssorted_sort_dedup)

section \<open>Byte encodings\<close>

text \<open>\<open>to_le_bytes\<close> of an integer of \<open>n\<close> bytes.\<close>

definition to_le_bytes :: "nat \<Rightarrow> 'a::len word \<Rightarrow> bytes" where
  "to_le_bytes n w = map (\<lambda>i. ucast (drop_bit (8 * i) w)) [0..<n]"

lemma length_to_le_bytes [simp]: "length (to_le_bytes n w) = n"
  by (simp add: to_le_bytes_def)

lemma to_le_bytes_inject:
  fixes v w :: "'a::len word"
  assumes "to_le_bytes n v = to_le_bytes n w" and "LENGTH('a) = 8 * n"
  shows "v = w"
proof (rule bit_word_eqI)
  fix k
  assume k: "k < LENGTH('a)"
  let ?i = "k div 8" and ?j = "k mod 8"
  from k assms(2) have i: "?i < n" by linarith
  have "(ucast (drop_bit (8 * ?i) v) :: u8) = ucast (drop_bit (8 * ?i) w)"
    using arg_cong [OF assms(1), of "\<lambda>xs. xs ! ?i"] i by (simp add: to_le_bytes_def)
  then have "bit (ucast (drop_bit (8 * ?i) v) :: u8) ?j = bit (ucast (drop_bit (8 * ?i) w) :: u8) ?j"
    by simp
  then show "bit v k = bit w k"
    by (simp add: bit_ucast_iff bit_drop_bit_eq)
qed

text \<open>\<open>u64::from\<close> of a \<open>u32\<close> loses nothing.\<close>

lemma ucast_u32_u64_inject: "(ucast x :: u64) = ucast y \<longleftrightarrow> x = y" for x y :: u32
proof -
  have "unat (ucast z :: u64) = unat z" for z :: u32
  proof -
    have "unat z < 2 ^ 32" using unsigned_less [of z] by simp
    then have "unat z < 2 ^ 64" by simp
    then show ?thesis by (simp add: unsigned_ucast_eq take_bit_nat_eq_self)
  qed
  then show ?thesis by (metis word_unat_eq_iff)
qed

text \<open>
  A Rust \<open>String\<close> is modelled by its UTF-8 bytes, one \<open>char\<close> for each (so the order of strings,
  which Rust takes bytewise, is the lexicographic one). \<open>as_bytes\<close> reads them as \<open>u8\<close>.
\<close>

definition str_bytes :: "string \<Rightarrow> bytes" where
  "str_bytes s = map (\<lambda>c. of_nat (of_char c)) s"

lemma length_str_bytes [simp]: "length (str_bytes s) = length s"
  by (simp add: str_bytes_def)

lemma str_bytes_inject [simp]: "str_bytes s = str_bytes t \<longleftrightarrow> s = t"
proof -
  have "inj (\<lambda>c :: char. of_nat (of_char c) :: u8)"
  proof (rule injI)
    fix c d :: char
    assume "(of_nat (of_char c) :: u8) = of_nat (of_char d)"
    then have "unat (of_nat (of_char c) :: u8) = unat (of_nat (of_char d) :: u8)"
      by simp
    then have "of_char c mod 256 = (of_char d mod 256 :: nat)"
      by (simp add: unat_of_nat)
    then show "c = d" by simp
  qed
  then show ?thesis
    by (simp add: str_bytes_def inj_map_eq_map)
qed


text \<open>The decimal digits of a number, as \<open>to_string\<close> and \<open>format!\<close> print them.\<close>

fun show_nat :: "nat \<Rightarrow> string" where
  "show_nat n =
     (if n < 10 then [char_of (48 + n)] else show_nat (n div 10) @ [char_of (48 + n mod 10)])"

declare show_nat.simps [simp del]

text \<open>A lower-case hexadecimal digit.\<close>

definition hex_digit :: "nat \<Rightarrow> char" where
  "hex_digit n = (if n < 10 then char_of (48 + n) else char_of (87 + n))"

text \<open>
  \<open>Debug\<close> of a string: quotes, backslashes and control characters are escaped. Bytes above 127 (parts of
  UTF-8 characters) are kept, which is what the standard library does for printable characters.
\<close>

definition debug_char :: "char \<Rightarrow> string" where
  "debug_char c =
     (let n = (of_char c :: nat) in
      if n = 34 then [char_of (92 :: nat), c]
      else if n = 92 then [c, c]
      else if n = 9 then [char_of (92 :: nat), CHR ''t'']
      else if n = 10 then [char_of (92 :: nat), CHR ''n'']
      else if n = 13 then [char_of (92 :: nat), CHR ''r'']
      else if n = 0 then [char_of (92 :: nat), CHR ''0'']
      else if n < 16 then [char_of (92 :: nat), CHR ''u'', CHR ''{'', hex_digit n, CHR ''}'']
      else if n < 32 \<or> n = 127
      then [char_of (92 :: nat), CHR ''u'', CHR ''{'', hex_digit (n div 16), hex_digit (n mod 16), CHR ''}'']
      else [c])"

definition debug_string :: "string \<Rightarrow> string" where
  "debug_string s = [char_of (34 :: nat)] @ concat (map debug_char s) @ [char_of (34 :: nat)]"

text \<open>Pieces of messages: the em dash in UTF-8, a name in single quotes, and \<open>str::starts_with\<close>.\<close>

definition em_dash :: string where
  "em_dash = [CHR 0xE2, CHR 0x80, CHR 0x94]"

definition quoted :: "string \<Rightarrow> string" where
  "quoted s = [CHR 0x27] @ s @ [CHR 0x27]"

definition starts_with :: "string \<Rightarrow> string \<Rightarrow> bool" where
  "starts_with s p = (take (length p) s = p)"

text \<open>\<open>str::contains\<close>.\<close>

definition str_contains :: "string \<Rightarrow> string \<Rightarrow> bool" where
  "str_contains s sub \<longleftrightarrow> list_ex (\<lambda>i. take (length sub) (drop i s) = sub) [0..<Suc (length s)]"

lemma str_contains_iff: "str_contains s sub \<longleftrightarrow> (\<exists>a b. s = a @ sub @ b)"
proof
  assume "str_contains s sub"
  then obtain i where "take (length sub) (drop i s) = sub" by (auto simp: str_contains_def list_ex_iff)
  then show "\<exists>a b. s = a @ sub @ b" by (metis append_take_drop_id)
next
  assume "\<exists>a b. s = a @ sub @ b"
  then obtain a b where "s = a @ sub @ b" by blast
  then show "str_contains s sub" by (auto simp: str_contains_def list_ex_iff intro!: bexI [of _ "length a"])
qed

end
