(* ===== verification/Btree.thy ===== *)
theory Btree
  imports Prelude
begin

text \<open>
  \<open>BTreeMap\<close> and \<open>BTreeSet\<close>, the only containers the sources iterate over, and the
  \<open>DeterministicMap\<close> of \<open>src/crates/exo-core/src/types.rs\<close> that wraps one. A map is a list of
  entries with strictly increasing keys, so that two maps with the same bindings are equal and
  are iterated in the same order, whatever the insertions that built them: this is the
  determinism contract the crate documents. The interface is the locale \<open>ordered_map\<close>.
\<close>

section \<open>The type\<close>

typedef (overloaded) ('k::linorder, 'v) btree_map = "{es :: ('k \<times> 'v) list. ssorted (map fst es)}"
  morphisms entries BtreeMap
  by (rule exI [of _ "[]"]) simp

setup_lifting type_definition_btree_map

lemma ssorted_entries [simp]: "ssorted (map fst (entries m))"
  using entries [of m] by simp

lemma distinct_entries [simp]: "distinct (map fst (entries m))"
  by (rule ssorted_imp_distinct) simp

text \<open>Insertion into a list of entries sorted by key; an equal key is replaced.\<close>

fun es_insert :: "'k::linorder \<Rightarrow> 'v \<Rightarrow> ('k \<times> 'v) list \<Rightarrow> ('k \<times> 'v) list" where
  "es_insert k v [] = [(k, v)]"
| "es_insert k v ((k', v') # es) =
     (if k < k' then (k, v) # (k', v') # es
      else if k = k' then (k, v) # es
      else (k', v') # es_insert k v es)"

lemma fst_set_es_insert [simp]: "fst ` set (es_insert k v es) = insert k (fst ` set es)"
  by (induction k v es rule: es_insert.induct) auto

lemma map_of_es_insert: "map_of (es_insert k v es) = (map_of es)(k \<mapsto> v)"
  by (induction k v es rule: es_insert.induct) auto

lemma ssorted_es_insert: "ssorted (map fst es) \<Longrightarrow> ssorted (map fst (es_insert k v es))"
proof (induction k v es rule: es_insert.induct)
  case (2 k v k' v' es)
  then show ?case
    by (auto simp: image_iff Ball_def dest: order.strict_trans)
qed simp

lemma map_of_filter_entries:
  "distinct (map fst es) \<Longrightarrow>
     map_of (filter (\<lambda>(k, v). P k v) es) k =
       (case map_of es k of Some v \<Rightarrow> if P k v then Some v else None | None \<Rightarrow> None)"
proof (induction es)
  case (Cons e es)
  then show ?case
    by (cases e) (auto split: option.splits simp: map_of_eq_None_iff dest: map_of_SomeD)
qed simp

lemma ssorted_filter_entries: "ssorted (map fst es) \<Longrightarrow> ssorted (map fst (filter P es))"
  by (simp add: sorted_wrt_map sorted_wrt_filter)

section \<open>Operations\<close>

lift_definition bm_empty :: "('k::linorder, 'v) btree_map" is "[]"
  by simp

lift_definition bm_get :: "('k::linorder, 'v) btree_map \<Rightarrow> 'k \<Rightarrow> 'v option" is map_of .

lift_definition bm_insert :: "'k::linorder \<Rightarrow> 'v \<Rightarrow> ('k, 'v) btree_map \<Rightarrow> ('k, 'v) btree_map"
  is es_insert
  by (rule ssorted_es_insert)

lift_definition bm_retain :: "('k::linorder \<Rightarrow> 'v \<Rightarrow> bool) \<Rightarrow> ('k, 'v) btree_map \<Rightarrow> ('k, 'v) btree_map"
  is "\<lambda>P. filter (\<lambda>(k, v). P k v)"
  by (rule ssorted_filter_entries)

lift_definition bm_map :: "('v \<Rightarrow> 'w) \<Rightarrow> ('k::linorder, 'v) btree_map \<Rightarrow> ('k, 'w) btree_map"
  is "\<lambda>f. map (\<lambda>(k, v). (k, f v))"
  by (simp add: comp_def case_prod_unfold)

definition bm_remove :: "'k::linorder \<Rightarrow> ('k, 'v) btree_map \<Rightarrow> ('k, 'v) btree_map" where
  "bm_remove k m = bm_retain (\<lambda>k' _. k' \<noteq> k) m"

definition bm_contains :: "('k::linorder, 'v) btree_map \<Rightarrow> 'k \<Rightarrow> bool" where
  "bm_contains m k = (bm_get m k \<noteq> None)"

definition bm_keys :: "('k::linorder, 'v) btree_map \<Rightarrow> 'k list" where
  "bm_keys m = map fst (entries m)"

definition bm_values :: "('k::linorder, 'v) btree_map \<Rightarrow> 'v list" where
  "bm_values m = map snd (entries m)"

definition bm_len :: "('k::linorder, 'v) btree_map \<Rightarrow> nat" where
  "bm_len m = length (entries m)"

definition bm_is_empty :: "('k::linorder, 'v) btree_map \<Rightarrow> bool" where
  "bm_is_empty m = (entries m = [])"

text \<open>\<open>entry(k).or_default()\<close> followed by an update of the entry.\<close>

definition bm_upd_default ::
  "'v \<Rightarrow> ('v \<Rightarrow> 'v) \<Rightarrow> 'k::linorder \<Rightarrow> ('k, 'v) btree_map \<Rightarrow> ('k, 'v) btree_map" where
  "bm_upd_default d f k m =
     bm_insert k (f (case bm_get m k of None \<Rightarrow> d | Some v \<Rightarrow> v)) m"

section \<open>Laws\<close>

lemma bm_get_empty [simp]: "bm_get bm_empty k = None"
  by transfer simp

lemma bm_get_insert [simp]: "bm_get (bm_insert k v m) k' = (if k' = k then Some v else bm_get m k')"
  by transfer (simp add: map_of_es_insert)

lemma bm_get_retain [simp]:
  "bm_get (bm_retain P m) k =
     (case bm_get m k of Some v \<Rightarrow> if P k v then Some v else None | None \<Rightarrow> None)"
  by transfer (simp add: map_of_filter_entries ssorted_imp_distinct)

lemma bm_get_map [simp]: "bm_get (bm_map f m) k = map_option f (bm_get m k)"
  by transfer (simp add: map_of_map comp_def)

lemma bm_get_remove [simp]: "bm_get (bm_remove k m) k' = (if k' = k then None else bm_get m k')"
  by (auto simp: bm_remove_def split: option.splits)

lemma bm_get_upd_default [simp]:
  "bm_get (bm_upd_default d f k m) k' =
     (if k' = k then Some (f (case bm_get m k of None \<Rightarrow> d | Some v \<Rightarrow> v)) else bm_get m k')"
  by (simp add: bm_upd_default_def)

lemma bm_contains_simps [simp]:
  "bm_contains bm_empty k \<longleftrightarrow> False"
  "bm_contains (bm_insert k v m) k' \<longleftrightarrow> k' = k \<or> bm_contains m k'"
  "bm_contains (bm_upd_default d f k m) k' \<longleftrightarrow> k' = k \<or> bm_contains m k'"
  by (auto simp: bm_contains_def)

lemma set_bm_keys: "set (bm_keys m) = {k. bm_contains m k}"
  unfolding bm_keys_def bm_contains_def
  by transfer (auto simp: map_of_eq_None_iff)

lemma set_entries: "(k, v) \<in> set (entries m) \<longleftrightarrow> bm_get m k = Some v"
  by transfer (simp add: ssorted_imp_distinct)

lemma set_bm_values: "set (bm_values m) = {v. \<exists>k. bm_get m k = Some v}"
  by (force simp: bm_values_def simp flip: set_entries)

lemma ssorted_bm_keys [simp]: "ssorted (bm_keys m)"
  by (simp add: bm_keys_def)

lemma length_bm_keys [simp]: "length (bm_keys m) = bm_len m"
  by (simp add: bm_keys_def bm_len_def)

lemma bm_len_card: "bm_len m = card {k. bm_contains m k}"
  by (metis distinct_card length_bm_keys set_bm_keys ssorted_bm_keys ssorted_imp_distinct)

lemma finite_bm_contains [simp]: "finite {k. bm_contains m k}"
  by (metis List.finite_set set_bm_keys)

lemma bm_is_empty_iff: "bm_is_empty m \<longleftrightarrow> (\<forall>k. bm_get m k = None)"
  by (metis bm_is_empty_def set_entries list.set_intros(1) not_None_eq list.exhaust
      old.prod.exhaust all_not_in_conv empty_set)

text \<open>Extensionality: the bindings determine the map, and so its iteration order.\<close>

lemma bm_eqI:
  assumes "\<And>k. bm_get m k = bm_get m' k"
  shows "m = m'"
proof -
  have "set (entries m) = set (entries m')"
    using assms by (auto simp: set_entries)
  moreover have "map fst (entries m) = map fst (entries m')"
    using assms set_bm_keys [of m] set_bm_keys [of m']
    by (intro ssorted_unique) (auto simp: bm_keys_def bm_contains_def)
  ultimately have "entries m = entries m'"
    by (intro map_sorted_distinct_set_unique [where f = fst])
       (auto simp: inj_on_def set_entries strict_sorted_iff [THEN iffD1, THEN conjunct1])
  then show ?thesis by (simp add: entries_inject)
qed


section \<open>Sets\<close>

text \<open>A \<open>BTreeSet\<close> is a \<open>BTreeMap\<close> to the unit type, as in the standard library.\<close>

type_synonym 'k btree_set = "('k, unit) btree_map"

abbreviation bs_empty :: "'k::linorder btree_set" where
  "bs_empty \<equiv> bm_empty"

abbreviation bs_contains :: "'k::linorder btree_set \<Rightarrow> 'k \<Rightarrow> bool" where
  "bs_contains \<equiv> bm_contains"

abbreviation bs_insert :: "'k::linorder \<Rightarrow> 'k btree_set \<Rightarrow> 'k btree_set" where
  "bs_insert k \<equiv> bm_insert k ()"

abbreviation bs_elems :: "'k::linorder btree_set \<Rightarrow> 'k list" where
  "bs_elems \<equiv> bm_keys"

definition bs_from_list :: "'k::linorder list \<Rightarrow> 'k btree_set" where
  "bs_from_list ks = fold bs_insert ks bs_empty"

lemma bs_contains_fold_insert: "bs_contains (fold bs_insert ks s) k \<longleftrightarrow> k \<in> set ks \<or> bs_contains s k"
  by (induction ks arbitrary: s) auto

lemma bs_contains_from_list [simp]: "bs_contains (bs_from_list ks) k \<longleftrightarrow> k \<in> set ks"
  by (simp add: bs_from_list_def bs_contains_fold_insert)

lemma bs_eqI: "(\<And>k. bs_contains s k \<longleftrightarrow> bs_contains t k) \<Longrightarrow> s = t"
  by (rule bm_eqI) (metis bm_contains_def not_None_eq unit.exhaust)

lemma bs_elems_from_list: "bs_elems (bs_from_list ks) = sort_dedup ks"
  by (rule ssorted_unique) (auto simp: set_bm_keys)

section \<open>The ordered-map interface\<close>

text \<open>
  What the clients of \<open>BTreeMap\<close> rely on: a lookup returns the last value inserted for the key,
  and iteration yields exactly the bindings, in increasing key order. The client lemmas say that
  the iteration depends on the bindings only, never on the insertion history.
\<close>

locale ordered_map =
  fixes empty :: "'m"
    and get :: "'m \<Rightarrow> 'k::linorder \<Rightarrow> 'v option"
    and ins :: "'k \<Rightarrow> 'v \<Rightarrow> 'm \<Rightarrow> 'm"
    and del :: "'k \<Rightarrow> 'm \<Rightarrow> 'm"
    and iter :: "'m \<Rightarrow> ('k \<times> 'v) list"
  assumes get_empty: "get empty = Map.empty"
    and get_ins: "get (ins k v m) = (get m)(k \<mapsto> v)"
    and get_del: "get (del k m) = (get m)(k := None)"
    and iter_sorted: "ssorted (map fst (iter m))"
    and iter_get: "map_of (iter m) = get m"
begin

lemma get_ins_all: "get (fold (\<lambda>(k, v). ins k v) kvs m) = get m ++ map_of (rev kvs)"
proof (induction kvs arbitrary: m)
  case (Cons kv kvs)
  then show ?case by (cases kv) (simp add: get_ins fun_eq_iff map_add_def split: option.splits)
qed simp

lemma iter_determined:
  assumes "get m = get m'"
  shows "iter m = iter m'"
proof (rule map_sorted_distinct_set_unique [where f = fst])
  have d: "distinct (map fst (iter n))" for n
    by (rule ssorted_imp_distinct) (rule iter_sorted)
  from assms have "map_of (iter m) = map_of (iter m')" by (simp add: iter_get)
  then show eq: "set (iter m) = set (iter m')" by (simp add: map_of_inject_set d)
  show "inj_on fst (set (iter m) \<union> set (iter m'))"
    using d [of m'] by (simp add: eq distinct_map)
qed (use iter_sorted in \<open>auto simp: strict_sorted_iff\<close>)

lemma iter_ins_all:
  assumes "map_of (rev kvs) = map_of (rev kvs')"
  shows "iter (fold (\<lambda>(k, v). ins k v) kvs empty) = iter (fold (\<lambda>(k, v). ins k v) kvs' empty)"
  by (rule iter_determined) (simp add: get_ins_all assms)

lemma del_ins_absent: "get m k = None \<Longrightarrow> iter (del k (ins k v m)) = iter m"
  by (rule iter_determined) (simp add: get_ins get_del fun_upd_idem)

end

section \<open>DeterministicMap\<close>

text \<open>
  The wrapper of \<open>types.rs\<close>, whose one field is the \<open>BTreeMap\<close>. \<open>insert\<close> and \<open>remove\<close> mutate the map and return the previous value,
  so they return both here.
\<close>

type_synonym ('k, 'v) deterministic_map = "('k, 'v) btree_map"

definition det_new :: "('k::linorder, 'v) deterministic_map" where
  "det_new = bm_empty"

definition det_insert ::
  "('k::linorder, 'v) deterministic_map \<Rightarrow> 'k \<Rightarrow> 'v \<Rightarrow> ('k, 'v) deterministic_map \<times> 'v option" where
  "det_insert m k v = (bm_insert k v m, bm_get m k)"

definition det_get :: "('k::linorder, 'v) deterministic_map \<Rightarrow> 'k \<Rightarrow> 'v option" where
  "det_get m k = bm_get m k"

definition det_remove ::
  "('k::linorder, 'v) deterministic_map \<Rightarrow> 'k \<Rightarrow> ('k, 'v) deterministic_map \<times> 'v option" where
  "det_remove m k = (bm_remove k m, bm_get m k)"

definition det_contains_key :: "('k::linorder, 'v) deterministic_map \<Rightarrow> 'k \<Rightarrow> bool" where
  "det_contains_key m k = bm_contains m k"

definition det_len :: "('k::linorder, 'v) deterministic_map \<Rightarrow> nat" where
  "det_len m = bm_len m"

definition det_is_empty :: "('k::linorder, 'v) deterministic_map \<Rightarrow> bool" where
  "det_is_empty m = bm_is_empty m"

definition det_iter :: "('k::linorder, 'v) deterministic_map \<Rightarrow> ('k \<times> 'v) list" where
  "det_iter m = entries m"

definition det_keys :: "('k::linorder, 'v) deterministic_map \<Rightarrow> 'k list" where
  "det_keys m = bm_keys m"

definition det_values :: "('k::linorder, 'v) deterministic_map \<Rightarrow> 'v list" where
  "det_values m = bm_values m"

interpretation det: ordered_map det_new det_get "\<lambda>k v m. fst (det_insert m k v)"
  "\<lambda>k m. fst (det_remove m k)" det_iter
proof unfold_locales
  show "map_of (det_iter m) = det_get m" for m :: "('a, 'b) deterministic_map"
    unfolding det_iter_def det_get_def by (simp add: fun_eq_iff bm_get.rep_eq)
qed (simp_all add: det_new_def det_get_def det_insert_def det_remove_def det_iter_def fun_eq_iff)

text \<open>
  A \<open>DeterministicMap\<close> is iterated in strictly increasing key order, and the iteration is
  determined by the final bindings alone: two histories of insertions that leave every key with
  the same last value give the same iterator, whatever their order, repetitions and overwritten
  values.
\<close>

theorem deterministic_map_iteration:
  assumes "map_of (rev kvs) = map_of (rev kvs')"
  shows "det_iter (fold (\<lambda>(k, v) m. fst (det_insert m k v)) kvs det_new) =
           det_iter (fold (\<lambda>(k, v) m. fst (det_insert m k v)) kvs' det_new) \<and>
         ssorted (map fst (det_iter (fold (\<lambda>(k, v) m. fst (det_insert m k v)) kvs det_new))) \<and>
         map_of (det_iter (fold (\<lambda>(k, v) m. fst (det_insert m k v)) kvs det_new)) = map_of (rev kvs)"
  by (intro conjI det.iter_ins_all [OF assms] det.iter_sorted)
     (simp add: det.iter_get det.get_ins_all det.get_empty)

theorem deterministic_map_iteration_witness:
  "det_iter (fold (\<lambda>(k, v) m. fst (det_insert m k v)) [(2 :: nat, ''b''), (1, ''x''), (1, ''a'')] det_new) =
   det_iter (fold (\<lambda>(k, v) m. fst (det_insert m k v)) [(1, ''a''), (2, ''b'')] det_new)"
  using deterministic_map_iteration
    [of "[(2 :: nat, ''b''), (1, ''x''), (1, ''a'')]" "[(1, ''a''), (2, ''b'')]"]
  by (auto simp: fun_eq_iff)

end
