(* ===== verification/Core_Types.thy ===== *)
theory Core_Types
  imports Btree "HOL-Library.List_Lexorder" "HOL-Library.Char_ord"
begin

text \<open>
  The value types of \<open>src/crates/exo-core/src/types.rs\<close> and the error type of
  \<open>src/crates/exo-core/src/error.rs\<close>: fixed-size byte arrays, \<open>Hash256\<close> with its lexicographic
  order, the signature sum type with its serde proxy, \<open>Did\<close> validation, the \<open>Timestamp\<close> order,
  the signer-type payload prefix and the version counter.
\<close>

section \<open>Fixed-size arrays\<close>

text \<open>\<open>[u8; 32]\<close> and \<open>[u8; 64]\<close>.\<close>

typedef arr32 = "{bs :: bytes. length bs = 32}"
  morphisms bytes32 Arr32
  by (rule exI [of _ "replicate 32 0"]) simp

typedef arr64 = "{bs :: bytes. length bs = 64}"
  morphisms bytes64 Arr64
  by (rule exI [of _ "replicate 64 0"]) simp

declare bytes32_inverse [code abstype]
declare bytes64_inverse [code abstype]

lemma length_bytes32 [simp]: "length (bytes32 a) = 32"
  using bytes32 [of a] by simp

lemma length_bytes64 [simp]: "length (bytes64 a) = 64"
  using bytes64 [of a] by simp

text \<open>The array that starts with the given bytes and continues with zeros.\<close>

definition arr32_of :: "bytes \<Rightarrow> arr32" where
  "arr32_of bs = Arr32 (take 32 (bs @ replicate 32 0))"

definition arr64_of :: "bytes \<Rightarrow> arr64" where
  "arr64_of bs = Arr64 (take 64 (bs @ replicate 64 0))"

lemma bytes32_of [code abstract]: "bytes32 (arr32_of bs) = take 32 (bs @ replicate 32 0)"
  by (simp add: arr32_of_def Arr32_inverse)

lemma bytes64_of [code abstract]: "bytes64 (arr64_of bs) = take 64 (bs @ replicate 64 0)"
  by (simp add: arr64_of_def Arr64_inverse)

lemma arr32_of_eq_iff:
  "arr32_of bs = arr32_of cs \<longleftrightarrow> take 32 (bs @ replicate 32 0) = take 32 (cs @ replicate 32 0)"
  by (simp add: bytes32_of flip: bytes32_inject)

lemma arr32_of_Cons_neq: "x \<noteq> y \<Longrightarrow> arr32_of (x # xs) \<noteq> arr32_of (y # ys)"
  by (simp add: arr32_of_eq_iff take_Cons')

lemma arr32_of_Nil: "arr32_of [] = arr32_of [0]"
  by (simp add: arr32_of_eq_iff numeral_eq_Suc)

lemma bytes32_arr32_of: "length bs = 32 \<Longrightarrow> bytes32 (arr32_of bs) = bs"
  by (simp add: bytes32_of)

lemma bytes64_arr64_of: "length bs = 64 \<Longrightarrow> bytes64 (arr64_of bs) = bs"
  by (simp add: bytes64_of)

lemma arr64_of_bytes64 [simp]: "arr64_of (bytes64 a) = a"
  by (metis bytes64_arr64_of bytes64_inject length_bytes64)

lemma arr32_of_bytes32 [simp]: "arr32_of (bytes32 a) = a"
  by (metis bytes32_arr32_of bytes32_inject length_bytes32)

text \<open>\<open>try_into::<[u8; 32]>\<close> and \<open>try_into::<[u8; 64]>\<close> on a slice.\<close>

definition try_arr32 :: "bytes \<Rightarrow> arr32 option" where
  "try_arr32 bs = (if length bs = 32 then Some (arr32_of bs) else None)"

definition try_arr64 :: "bytes \<Rightarrow> arr64 option" where
  "try_arr64 bs = (if length bs = 64 then Some (arr64_of bs) else None)"

lemma try_arr32_bytes32 [simp]: "try_arr32 (bytes32 a) = Some a"
  by (simp add: try_arr32_def)

lemma try_arr64_bytes64 [simp]: "try_arr64 (bytes64 a) = Some a"
  by (simp add: try_arr64_def)

instantiation arr32 :: equal
begin

definition equal_arr32 :: "arr32 \<Rightarrow> arr32 \<Rightarrow> bool" where
  "equal_arr32 a b \<longleftrightarrow> bytes32 a = bytes32 b"

instance
  by standard (simp add: equal_arr32_def bytes32_inject)

end

instantiation arr64 :: equal
begin

definition equal_arr64 :: "arr64 \<Rightarrow> arr64 \<Rightarrow> bool" where
  "equal_arr64 a b \<longleftrightarrow> bytes64 a = bytes64 b"

instance
  by standard (simp add: equal_arr64_def bytes64_inject)

end

section \<open>Hash256\<close>

datatype hash256 = Hash256 (hash_arr: arr32)

definition hash_bytes :: "hash256 \<Rightarrow> bytes" where
  "hash_bytes h = bytes32 (hash_arr h)"

definition hash_from_bytes :: "bytes \<Rightarrow> hash256" where
  "hash_from_bytes bs = Hash256 (arr32_of bs)"

definition HASH_ZERO :: hash256 where
  "HASH_ZERO = Hash256 (arr32_of [])"

lemma length_hash_bytes [simp]: "length (hash_bytes h) = 32"
  by (simp add: hash_bytes_def)

lemma hash_bytes_inject [simp]: "hash_bytes g = hash_bytes h \<longleftrightarrow> g = h"
  by (auto simp: hash_bytes_def bytes32_inject intro: hash256.expand)

lemma hash_bytes_from_bytes: "length bs = 32 \<Longrightarrow> hash_bytes (hash_from_bytes bs) = bs"
  by (simp add: hash_bytes_def hash_from_bytes_def bytes32_arr32_of)

lemma hash_from_bytes_bytes [simp]: "hash_from_bytes (hash_bytes h) = h"
  by (simp add: hash_bytes_def hash_from_bytes_def)

lemma concat_hash_bytes_inject: "concat (map hash_bytes xs) = concat (map hash_bytes ys) \<longleftrightarrow> xs = ys"
proof (induction xs arbitrary: ys)
  case Nil
  then show ?case by (cases ys) (auto dest: arg_cong [of _ _ length])
next
  case (Cons x xs)
  then show ?case by (cases ys) (auto dest: arg_cong [of _ _ length])
qed

text \<open>\<open>Display\<close> prints two hexadecimal digits for each byte, \<open>Debug\<close> wraps them.\<close>

definition hash_display :: "hash256 \<Rightarrow> string" where
  "hash_display h = concat (map (\<lambda>b. [hex_digit (unat b div 16), hex_digit (unat b mod 16)]) (hash_bytes h))"

definition hash_debug :: "hash256 \<Rightarrow> string" where
  "hash_debug h = ''Hash256('' @ hash_display h @ '')''"

text \<open>The derived order compares the arrays lexicographically.\<close>

instantiation hash256 :: linorder
begin

definition less_eq_hash256 :: "hash256 \<Rightarrow> hash256 \<Rightarrow> bool" where
  "g \<le> h \<longleftrightarrow> hash_bytes g \<le> hash_bytes h"

definition less_hash256 :: "hash256 \<Rightarrow> hash256 \<Rightarrow> bool" where
  "g < h \<longleftrightarrow> hash_bytes g < hash_bytes h"

instance
  by standard (auto simp: less_eq_hash256_def less_hash256_def less_le_not_le
      dest: antisym order_trans)

end

text \<open>
  \<open>Hash256::digest\<close>: BLAKE3 is the third-party crate \<open>blake3\<close>, so it is a parameter of every
  definition that hashes, a function from byte strings to 32-byte arrays.
\<close>

type_synonym blake3 = "bytes \<Rightarrow> arr32"

definition digest :: "blake3 \<Rightarrow> bytes \<Rightarrow> hash256" where
  "digest blake3 data = Hash256 (blake3 data)"


section \<open>Signatures\<close>

datatype signature =
    Ed25519 arr64
  | PostQuantum bytes
  | Hybrid arr64 bytes
  | SigEmpty

definition zeros64 :: arr64 where
  "zeros64 = arr64_of []"

definition sig_from_bytes :: "arr64 \<Rightarrow> signature" where
  "sig_from_bytes b = Ed25519 b"

definition sig_as_bytes :: "signature \<Rightarrow> arr64" where
  "sig_as_bytes s = (case s of
     Ed25519 b \<Rightarrow> b
   | Hybrid c _ \<Rightarrow> c
   | PostQuantum _ \<Rightarrow> zeros64
   | SigEmpty \<Rightarrow> zeros64)"

definition ed25519_bytes :: "signature \<Rightarrow> arr64 option" where
  "ed25519_bytes s = (case s of
     Ed25519 b \<Rightarrow> Some b
   | Hybrid c _ \<Rightarrow> Some c
   | PostQuantum _ \<Rightarrow> None
   | SigEmpty \<Rightarrow> None)"

definition sig_to_bytes :: "signature \<Rightarrow> bytes" where
  "sig_to_bytes s = (case s of
     Ed25519 b \<Rightarrow> bytes64 b
   | PostQuantum b \<Rightarrow> b
   | Hybrid c q \<Rightarrow> bytes64 c @ q
   | SigEmpty \<Rightarrow> [])"

definition sig_is_empty :: "signature \<Rightarrow> bool" where
  "sig_is_empty s = (case s of
     SigEmpty \<Rightarrow> True
   | Ed25519 b \<Rightarrow> b = zeros64
   | PostQuantum b \<Rightarrow> b = []
   | Hybrid c q \<Rightarrow> c = zeros64 \<and> q = [])"

definition sig_algorithm :: "signature \<Rightarrow> string" where
  "sig_algorithm s = (case s of
     Ed25519 _ \<Rightarrow> ''Ed25519''
   | PostQuantum _ \<Rightarrow> ''PostQuantum''
   | Hybrid _ _ \<Rightarrow> ''Hybrid''
   | SigEmpty \<Rightarrow> ''Empty'')"

text \<open>
  The serde proxy: what \<open>serialize\<close> hands to the encoder and \<open>deserialize\<close> receives from the
  decoder. The encoders themselves are third-party code; the two conversions are not.
  The error carries the length found, as \<open>invalid_length\<close> does.
\<close>

datatype signature_proxy =
    PEd25519 bytes
  | PPostQuantum bytes
  | PHybrid bytes bytes
  | PEmpty

datatype invalid_length = InvalidLength nat string

definition sig_serialize :: "signature \<Rightarrow> signature_proxy" where
  "sig_serialize s = (case s of
     Ed25519 b \<Rightarrow> PEd25519 (bytes64 b)
   | PostQuantum b \<Rightarrow> PPostQuantum b
   | Hybrid c q \<Rightarrow> PHybrid (bytes64 c) q
   | SigEmpty \<Rightarrow> PEmpty)"

definition sig_deserialize :: "signature_proxy \<Rightarrow> (signature, invalid_length) result" where
  "sig_deserialize p = (case p of
     PEd25519 b \<Rightarrow>
       if length b \<noteq> 64 then Err (InvalidLength (length b) ''64 bytes for Ed25519'')
       else Ok (Ed25519 (arr64_of b))
   | PPostQuantum b \<Rightarrow> Ok (PostQuantum b)
   | PHybrid c q \<Rightarrow>
       if length c \<noteq> 64 then Err (InvalidLength (length c) ''64 bytes for classical'')
       else Ok (Hybrid (arr64_of c) q)
   | PEmpty \<Rightarrow> Ok SigEmpty)"

text \<open>
  Serialising a signature and reading it back gives the same signature, and a proxy that is
  accepted is exactly the serialisation of the signature it is read as (no proxy is
  accepted twice, and a classical part of any other length than 64 is refused).
\<close>

theorem signature_serde_roundtrip:
  "sig_deserialize (sig_serialize s) = Ok s \<and>
   (sig_deserialize p = Ok s \<longleftrightarrow> p = sig_serialize s)"
  by (cases s; cases p)
     (auto simp: sig_serialize_def sig_deserialize_def bytes64_arr64_of split: if_splits)

section \<open>Keys\<close>

datatype public_key = PublicKey (pk_arr: arr32)
datatype secret_key = SecretKey (sk_arr: arr32)
datatype pq_public_key = PqPublicKey (pq_pk_bytes: bytes)
datatype pq_secret_key = PqSecretKey (pq_sk_bytes: bytes)

section \<open>Errors of exo-core\<close>

datatype exo_error =
    InvalidTransition string string
  | InvalidSignature string
  | InvalidDid string
  | ClockDrift u64 u64
  | HashMismatch string string
  | Unauthorized string
  | ConsentRequired string
  | InvariantViolationErr string
  | SybilDetected string
  | SerializationError string
  | CryptoError string
  | InvalidMerkleProof
  | ReceiptChainBroken nat
  | NotFound string

definition is_security_relevant :: "exo_error \<Rightarrow> bool" where
  "is_security_relevant e = (case e of
     InvalidSignature _ \<Rightarrow> True
   | Unauthorized _ \<Rightarrow> True
   | SybilDetected _ \<Rightarrow> True
   | HashMismatch _ _ \<Rightarrow> True
   | _ \<Rightarrow> False)"

text \<open>The messages of the errors, as \<open>to_string\<close> prints them.\<close>

fun exo_error_display :: "exo_error \<Rightarrow> string" where
  "exo_error_display (InvalidTransition from to) = ''invalid transition from '' @ from @ '' to '' @ to"
| "exo_error_display (InvalidSignature reason) = ''invalid signature: '' @ reason"
| "exo_error_display (InvalidDid x) = ''invalid DID: '' @ x"
| "exo_error_display (ClockDrift physical tolerance) =
     ''clock drift detected: physical='' @ show_nat (unat physical) @ ''ms, tolerance='' @
     show_nat (unat tolerance) @ ''ms''"
| "exo_error_display (HashMismatch expected actual) =
     ''hash mismatch: expected '' @ expected @ '', got '' @ actual"
| "exo_error_display (Unauthorized reason) = ''unauthorized: '' @ reason"
| "exo_error_display (ConsentRequired scope) = ''consent required: '' @ scope"
| "exo_error_display (InvariantViolationErr description) = ''invariant violation: '' @ description"
| "exo_error_display (SybilDetected evidence) = ''sybil detected: '' @ evidence"
| "exo_error_display (SerializationError reason) = ''serialization error: '' @ reason"
| "exo_error_display (CryptoError reason) = ''crypto error: '' @ reason"
| "exo_error_display InvalidMerkleProof = ''invalid merkle proof''"
| "exo_error_display (ReceiptChainBroken i) = ''receipt chain integrity failure at index '' @ show_nat i"
| "exo_error_display (NotFound entity) = ''not found: '' @ entity"


section \<open>Decentralised identifiers\<close>

datatype did = Did (did_str: string)

definition strip_prefix :: "string \<Rightarrow> string \<Rightarrow> string option" where
  "strip_prefix p s = (if take (length p) s = p then Some (drop (length p) s) else None)"

lemma strip_prefix_eq_Some: "strip_prefix p s = Some r \<longleftrightarrow> s = p @ r"
  by (auto simp: strip_prefix_def) (metis append_take_drop_id)

text \<open>\<open>is_ascii_alphanumeric\<close> on the byte of a character.\<close>

definition is_ascii_alphanumeric :: "char \<Rightarrow> bool" where
  "is_ascii_alphanumeric c =
     (let n = (of_char c :: nat)
      in (48 \<le> n \<and> n \<le> 57) \<or> (65 \<le> n \<and> n \<le> 90) \<or> (97 \<le> n \<and> n \<le> 122))"

definition did_char :: "char \<Rightarrow> bool" where
  "did_char c = (is_ascii_alphanumeric c \<or> c = CHR ''-'' \<or> c = CHR ''_'' \<or> c = CHR '':'')"

definition did_validate :: "string \<Rightarrow> (unit, exo_error) result" where
  "did_validate s = (case strip_prefix ''did:exo:'' s of
     None \<Rightarrow> Err (InvalidDid s)
   | Some rest \<Rightarrow>
       if rest = [] then Err (InvalidDid s)
       else if \<not> list_all did_char rest then Err (InvalidDid s)
       else Ok ())"

definition did_new :: "string \<Rightarrow> (did, exo_error) result" where
  "did_new s = and_then (did_validate s) (\<lambda>_. Ok (Did s))"

definition debug_did :: "did \<Rightarrow> string" where
  "debug_did d = ''Did('' @ did_str d @ '')''"

instantiation did :: linorder
begin

definition less_eq_did :: "did \<Rightarrow> did \<Rightarrow> bool" where
  "d \<le> e \<longleftrightarrow> did_str d \<le> did_str e"

definition less_did :: "did \<Rightarrow> did \<Rightarrow> bool" where
  "d < e \<longleftrightarrow> did_str d < did_str e"

instance
  by standard (auto simp: less_eq_did_def less_did_def less_le_not_le did.expand
      dest: antisym order_trans)

end

section \<open>Correlation identifiers\<close>

text \<open>A UUID is 128 bits; \<open>Uuid::new_v4\<close> is third-party code, so a fresh one is an argument.\<close>

datatype correlation_id = CorrelationId "128 word"

section \<open>Timestamps\<close>

datatype timestamp = Timestamp (physical_ms: u64) (logical: u32)

definition TS_ZERO :: timestamp where
  "TS_ZERO = Timestamp 0 0"

text \<open>\<open>Timestamp::now_utc\<close>, with the reading of the system clock as its argument.\<close>

definition now_utc :: "u64 \<Rightarrow> timestamp" where
  "now_utc millis = Timestamp millis 0"

text \<open>\<open>cmp\<close>: physical time first, then the logical counter.\<close>

definition timestamp_le :: "timestamp \<Rightarrow> timestamp \<Rightarrow> bool" where
  [simp]: "timestamp_le s t \<longleftrightarrow> physical_ms s < physical_ms t \<or>
     (physical_ms s = physical_ms t \<and> logical s \<le> logical t)"

instantiation timestamp :: linorder
begin

definition less_eq_timestamp :: "timestamp \<Rightarrow> timestamp \<Rightarrow> bool" where
  "s \<le> t \<longleftrightarrow> timestamp_le s t"

definition less_timestamp :: "timestamp \<Rightarrow> timestamp \<Rightarrow> bool" where
  "s < t \<longleftrightarrow> physical_ms s < physical_ms t \<or>
     (physical_ms s = physical_ms t \<and> logical s < logical t)"

instance
  by standard (auto simp: less_eq_timestamp_def less_timestamp_def timestamp.expand)

end

definition is_expired :: "timestamp \<Rightarrow> timestamp \<Rightarrow> bool" where
  "is_expired t now = (t \<le> now)"

lemma is_expired_mono: "is_expired t now \<Longrightarrow> now \<le> later \<Longrightarrow> is_expired t later"
  by (auto simp: is_expired_def)

section \<open>Signer types\<close>

definition SIGNER_PREFIX_HUMAN :: u8 where "SIGNER_PREFIX_HUMAN = 0x01"
definition SIGNER_PREFIX_AI :: u8 where "SIGNER_PREFIX_AI = 0x02"

datatype signer_type = Human | Ai (delegation_id: hash256)

definition prefix_byte :: "signer_type \<Rightarrow> u8" where
  "prefix_byte s = (case s of Human \<Rightarrow> SIGNER_PREFIX_HUMAN | Ai _ \<Rightarrow> SIGNER_PREFIX_AI)"

definition to_payload_prefix :: "signer_type \<Rightarrow> bytes" where
  "to_payload_prefix s = (case s of
     Human \<Rightarrow> [SIGNER_PREFIX_HUMAN]
   | Ai d \<Rightarrow> SIGNER_PREFIX_AI # hash_bytes d)"

definition is_human :: "signer_type \<Rightarrow> bool" where
  "is_human s = (case s of Human \<Rightarrow> True | Ai _ \<Rightarrow> False)"

definition is_ai :: "signer_type \<Rightarrow> bool" where
  "is_ai s = (case s of Human \<Rightarrow> False | Ai _ \<Rightarrow> True)"

text \<open>
  The signer type is bound into the signed payload. The encoding of signer type and message
  is uniquely decodable: two prefixed payloads are equal only when both the signer type
  (with its delegation id) and the message are, so no message signed under an AI prefix is also
  a message signed under the human prefix.
\<close>

theorem signer_prefix_binding:
  "to_payload_prefix s @ m = to_payload_prefix t @ n \<longleftrightarrow> s = t \<and> m = n"
  by (cases s; cases t)
     (auto simp: to_payload_prefix_def SIGNER_PREFIX_HUMAN_def SIGNER_PREFIX_AI_def)

section \<open>Versions\<close>

datatype version = Version (version_value: u64)

definition VERSION_ZERO :: version where
  "VERSION_ZERO = Version 0"

definition version_next :: "version \<Rightarrow> version" where
  "version_next v = Version (version_value v + 1)"

end
