(* ===== verification/Hlc.thy ===== *)
theory Hlc
  imports Core_Types
begin

text \<open>
  The hybrid logical clock of \<open>src/crates/exo-core/src/hlc.rs\<close>. The wall-clock source is a
  boxed closure in the code; here each operation takes the reading it returned. The interface the
  transaction and DAG components rely on is the locale \<open>monotonic_clock\<close>.
\<close>

section \<open>The clock interface\<close>

text \<open>
  A clock whose every tick increases the logical counter by at most one, and whose tick exceeds the
  current timestamp as long as the counter is not at its maximum. The client lemma: a run of ticks
  for which the 32-bit counter has room yields strictly increasing timestamps.
\<close>

primrec run_ticks :: "('i \<Rightarrow> 's \<Rightarrow> 's \<times> timestamp) \<Rightarrow> 'i list \<Rightarrow> 's \<Rightarrow> 's \<times> timestamp list" where
  "run_ticks tick [] s = (s, [])"
| "run_ticks tick (i # is) s =
     (let (s', t) = tick i s; (s'', ts) = run_ticks tick is s' in (s'', t # ts))"

locale monotonic_clock =
  fixes tick :: "'i \<Rightarrow> 's \<Rightarrow> 's \<times> timestamp"
    and cur :: "'s \<Rightarrow> timestamp"
  assumes tick_cur: "snd (tick i s) = cur (fst (tick i s))"
    and tick_logical: "logical (cur s) \<noteq> - 1 \<Longrightarrow>
          unat (logical (cur (fst (tick i s)))) \<le> unat (logical (cur s)) + 1"
    and tick_less: "logical (cur s) \<noteq> - 1 \<Longrightarrow> cur s < cur (fst (tick i s))"
begin

lemma run_ticks_increasing:
  "unat (logical (cur s)) + length is < 2 ^ 32 \<Longrightarrow>
     ssorted (cur s # snd (run_ticks tick is s)) \<and>
     cur (fst (run_ticks tick is s)) = last (cur s # snd (run_ticks tick is s))"
proof (induction "is" arbitrary: s)
  case (Cons i "is")
  obtain s' t where t: "tick i s = (s', t)" by (cases "tick i s")
  obtain s'' ts where ts: "run_ticks tick is s' = (s'', ts)" by (cases "run_ticks tick is s'")
  from Cons.prems have room: "logical (cur s) \<noteq> - 1"
    by (auto simp: unat_minus_one_word_exp)
  from tick_less [OF room, of i] tick_cur [of i s] have less: "cur s < cur s'" "t = cur s'"
    by (simp_all add: t)
  have "unat (logical (cur s')) + length is < 2 ^ 32"
    using tick_logical [OF room, of i] Cons.prems by (simp add: t)
  from Cons.IH [OF this] less show ?case
    by (auto simp: t ts dest: order.strict_trans)
qed simp

end

section \<open>The hybrid clock\<close>

definition MAX_DRIFT_MS :: u64 where
  "MAX_DRIFT_MS = 60000"

record hybrid_clock =
  hc_physical :: u64
  hc_logical :: u32

definition hc_new :: hybrid_clock where
  "hc_new = \<lparr>hc_physical = 0, hc_logical = 0\<rparr>"

definition hc_current :: "hybrid_clock \<Rightarrow> timestamp" where
  "hc_current c = Timestamp (hc_physical c) (hc_logical c)"

text \<open>\<open>now\<close>: the wall reading is the first argument.\<close>

definition hc_now :: "u64 \<Rightarrow> hybrid_clock \<Rightarrow> hybrid_clock \<times> timestamp" where
  "hc_now wall c =
     (let c' = (if wall > hc_physical c then c\<lparr>hc_physical := wall, hc_logical := 0\<rparr>
                else c\<lparr>hc_logical := saturating_add (hc_logical c) 1\<rparr>)
      in (c', Timestamp (hc_physical c') (hc_logical c')))"

text \<open>\<open>update\<close>: an error leaves the clock as it was.\<close>

definition hc_update ::
  "u64 \<Rightarrow> hybrid_clock \<Rightarrow> timestamp \<Rightarrow> hybrid_clock \<times> (timestamp, exo_error) result" where
  "hc_update wall c remote =
     (if physical_ms remote > saturating_add wall MAX_DRIFT_MS
      then (c, Err (ClockDrift (physical_ms remote) MAX_DRIFT_MS))
      else
        let c' = (if wall > hc_physical c \<and> wall > physical_ms remote
                  then c\<lparr>hc_physical := wall, hc_logical := 0\<rparr>
                  else if hc_physical c = physical_ms remote
                  then c\<lparr>hc_logical := saturating_add (max (hc_logical c) (logical remote)) 1\<rparr>
                  else if physical_ms remote > hc_physical c
                  then c\<lparr>hc_physical := physical_ms remote,
                         hc_logical := saturating_add (logical remote) 1\<rparr>
                  else c\<lparr>hc_logical := saturating_add (hc_logical c) 1\<rparr>)
        in (c', Ok (Timestamp (hc_physical c') (hc_logical c'))))"

definition is_before :: "timestamp \<Rightarrow> timestamp \<Rightarrow> bool" where
  "is_before a b = (a < b)"

lemma unat_saturating_add_1_le: "unat (saturating_add x 1) \<le> unat x + 1" for x :: u32
  by (simp add: unat_saturating_add)

interpretation hlc: monotonic_clock hc_now hc_current
proof unfold_locales
  fix c :: hybrid_clock and wall
  show "snd (hc_now wall c) = hc_current (fst (hc_now wall c))"
    by (simp add: hc_now_def hc_current_def Let_def)
  show "unat (logical (hc_current (fst (hc_now wall c)))) \<le> unat (logical (hc_current c)) + 1"
    using unat_saturating_add_1_le [of "hc_logical c"]
    by (simp add: hc_now_def hc_current_def Let_def)
  assume "logical (hc_current c) \<noteq> - 1"
  then show "hc_current c < hc_current (fst (hc_now wall c))"
    by (simp add: hc_now_def hc_current_def less_timestamp_def saturating_add_1_less)
qed

text \<open>
  Whatever the wall clock returns (stale, repeated or going backward), consecutive calls of
  \<open>now\<close> return strictly increasing timestamps, all later than the state before, as long as the
  32-bit logical counter has room for them; the clock's state is the last one.
\<close>

theorem hlc_now_strictly_increasing:
  assumes "unat (hc_logical c) + length walls < 2 ^ 32"
  shows "ssorted (hc_current c # snd (run_ticks hc_now walls c)) \<and>
         hc_current (fst (run_ticks hc_now walls c)) =
           last (hc_current c # snd (run_ticks hc_now walls c))"
  using hlc.run_ticks_increasing [of c walls] assms by (simp add: hc_current_def)

theorem hlc_now_strictly_increasing_witness:
  "ssorted (hc_current hc_new # snd (run_ticks hc_now [5, 3, 5, 9] hc_new)) \<and>
   snd (run_ticks hc_now [5, 3, 5, 9] hc_new) =
     [Timestamp 5 0, Timestamp 5 1, Timestamp 5 2, Timestamp 9 0]"
  using hlc_now_strictly_increasing [of hc_new "[5, 3, 5, 9]"]
  by (simp add: hc_new_def hc_now_def saturating_add_def)

text \<open>
  At the maximum of the counter, with a wall clock that has not moved, \<open>now\<close> returns the
  timestamp it returned before: the counter saturates, and the documented strict increase is lost
  until the wall clock passes the physical component.
\<close>

theorem hlc_now_stalls_at_counter_max:
  "hc_now wall c = (c, hc_current c) \<longleftrightarrow> wall \<le> hc_physical c \<and> hc_logical c = - 1"
proof -
  have "saturating_add (hc_logical c) 1 = hc_logical c \<longleftrightarrow> hc_logical c = - 1"
    using saturating_add_1_less [of "hc_logical c"] by auto
  then show ?thesis
    by (cases c) (auto simp: hc_now_def hc_current_def Let_def)
qed

lemma max_saturating_add_1:
  fixes a b :: "'a::len word"
  shows "a \<le> saturating_add (max a b) 1" "b \<le> saturating_add (max a b) 1"
    and "a \<noteq> - 1 \<Longrightarrow> b \<noteq> - 1 \<Longrightarrow> a < saturating_add (max a b) 1"
    and "a \<noteq> - 1 \<Longrightarrow> b \<noteq> - 1 \<Longrightarrow> b < saturating_add (max a b) 1"
  using le_saturating_add_1 [of "max a b"] saturating_add_1_less [of "max a b"]
  by (auto simp: max_def split: if_splits)

text \<open>
  \<open>update\<close> refuses a remote timestamp exactly when its physical part is more than the tolerance
  ahead of the wall clock, and then changes nothing. Otherwise it succeeds, the result is the new
  state of the clock, it is at least the local state and the remote timestamp, and strictly greater
  than both unless a logical counter is at its maximum; its physical part is one of the local, remote
  and wall readings.
\<close>

theorem hlc_update_merges:
  "(if physical_ms remote > saturating_add wall MAX_DRIFT_MS
    then hc_update wall c remote = (c, Err (ClockDrift (physical_ms remote) MAX_DRIFT_MS))
    else \<exists>c'. hc_update wall c remote = (c', Ok (hc_current c')) \<and>
           hc_current c \<le> hc_current c' \<and> remote \<le> hc_current c' \<and>
           (hc_logical c = - 1 \<or> logical remote = - 1 \<or>
              hc_current c < hc_current c' \<and> remote < hc_current c') \<and>
           hc_physical c' \<in> {hc_physical c, physical_ms remote, wall})"
proof (cases "physical_ms remote > saturating_add wall MAX_DRIFT_MS")
  case False
  define c' where "c' = fst (hc_update wall c remote)"
  have upd: "hc_update wall c remote = (c', Ok (hc_current c'))"
    using False by (simp add: c'_def hc_update_def hc_current_def Let_def)
  consider "wall > hc_physical c" "wall > physical_ms remote"
    | "\<not> (wall > hc_physical c \<and> wall > physical_ms remote)" "hc_physical c = physical_ms remote"
    | "\<not> (wall > hc_physical c \<and> wall > physical_ms remote)" "physical_ms remote > hc_physical c"
    | "\<not> (wall > hc_physical c \<and> wall > physical_ms remote)" "physical_ms remote < hc_physical c"
    by (metis linorder_less_linear)
  then have "hc_current c \<le> hc_current c' \<and> remote \<le> hc_current c' \<and>
      (hc_logical c = - 1 \<or> logical remote = - 1 \<or>
         hc_current c < hc_current c' \<and> remote < hc_current c') \<and>
      hc_physical c' \<in> {hc_physical c, physical_ms remote, wall}"
    by cases (use False max_saturating_add_1 [where a = "hc_logical c" and b = "logical remote"] in
      \<open>auto simp: c'_def hc_update_def hc_current_def Let_def less_eq_timestamp_def less_timestamp_def
        le_saturating_add_1 saturating_add_1_less\<close>)
  with upd False show ?thesis by auto
qed (simp add: hc_update_def)

text \<open>
  What survives saturation: timestamps never decrease, and one is repeated only at the maximum of
  the logical counter.
\<close>

definition ts_advance :: "timestamp \<Rightarrow> timestamp \<Rightarrow> bool" where
  "ts_advance s t \<longleftrightarrow> s < t \<or> (s = t \<and> logical s = - 1)"

lemma ts_advance_le: "ts_advance s t \<Longrightarrow> s \<le> t"
  by (auto simp: ts_advance_def)

lemma le_ts_advance_trans: "s \<le> t \<Longrightarrow> ts_advance t u \<Longrightarrow> ts_advance s u"
  by (auto simp: ts_advance_def)

lemma hc_now_advance: "ts_advance (hc_current c) (snd (hc_now wall c))"
proof (cases "hc_logical c = - 1")
  case True
  then show ?thesis
    by (auto simp: ts_advance_def hc_now_def hc_current_def Let_def less_timestamp_def)
next
  case False
  with hlc.tick_less [of c wall] show ?thesis
    by (simp add: ts_advance_def hlc.tick_cur hc_current_def)
qed

lemma hc_now_snd: "snd (hc_now wall c) = hc_current (fst (hc_now wall c))"
  by (rule hlc.tick_cur)

lemma hc_update_ge: "hc_current c \<le> hc_current (fst (hc_update wall c remote))"
  using le_saturating_add_1 [of "hc_logical c"] le_saturating_add_1 [of "logical remote"]
    max_saturating_add_1(1) [of "hc_logical c" "logical remote"]
  by (auto simp: hc_update_def hc_current_def less_eq_timestamp_def Let_def)

section \<open>Bounded drift\<close>

text \<open>
  The states reachable by \<open>now\<close> and \<open>update\<close>, with the wall-clock readings those calls made, latest
  first. The readings are arbitrary: the wall clock may jump in both directions.
\<close>

inductive hc_run :: "u64 list \<Rightarrow> hybrid_clock \<Rightarrow> bool" where
  hc_start: "hc_run [] hc_new"
| hc_step_now: "hc_run ws c \<Longrightarrow> hc_run (wall # ws) (fst (hc_now wall c))"
| hc_step_update: "hc_run ws c \<Longrightarrow> hc_run (wall # ws) (fst (hc_update wall c remote))"

text \<open>The highest of the readings, 0 before the first.\<close>

definition max_reading :: "u64 list \<Rightarrow> u64" where
  "max_reading ws = foldr max ws 0"

lemma max_reading_simps [simp]:
  "max_reading [] = 0" "max_reading (w # ws) = max w (max_reading ws)"
  by (simp_all add: max_reading_def)

text \<open>The readings, latest first, of a wall clock that never goes back.\<close>

definition wall_monotone :: "u64 list \<Rightarrow> bool" where
  "wall_monotone ws \<longleftrightarrow> sorted_wrt (\<ge>) ws"

lemma max_reading_monotone: "wall_monotone (w # ws) \<Longrightarrow> max_reading (w # ws) = w"
proof -
  assume "wall_monotone (w # ws)"
  then have "\<forall>v \<in> set ws. v \<le> w" by (simp add: wall_monotone_def)
  then have "max_reading ws \<le> w" by (induction ws) auto
  then show ?thesis by (simp add: max_absorb1)
qed

lemma saturating_add_mono: "a \<le> b \<Longrightarrow> saturating_add a k \<le> saturating_add b k" for a b k :: "'a::len word"
  by (simp add: word_le_nat_alt unat_saturating_add)

lemma le_saturating_add: "a \<le> saturating_add a k" for a k :: "'a::len word"
proof -
  have "unat a < 2 ^ LENGTH('a)" by simp
  then have "unat a \<le> 2 ^ LENGTH('a) - Suc 0" by linarith
  then show ?thesis by (simp add: word_le_nat_alt unat_saturating_add)
qed

lemma hc_now_bounded:
  assumes "hc_physical c \<le> saturating_add m MAX_DRIFT_MS"
  shows "hc_physical (fst (hc_now wall c)) \<le> saturating_add (max wall m) MAX_DRIFT_MS"
proof -
  have "wall \<le> saturating_add (max wall m) MAX_DRIFT_MS"
    using le_saturating_add [of "max wall m" MAX_DRIFT_MS] by (rule order_trans [rotated]) simp
  moreover have "hc_physical c \<le> saturating_add (max wall m) MAX_DRIFT_MS"
    using assms saturating_add_mono [of m "max wall m"] by (rule order_trans) simp
  ultimately show ?thesis by (auto simp: hc_now_def Let_def)
qed

lemma hc_update_bounded:
  assumes "hc_physical c \<le> saturating_add m MAX_DRIFT_MS"
  shows "hc_physical (fst (hc_update wall c remote)) \<le> saturating_add (max wall m) MAX_DRIFT_MS"
proof -
  have bounds: "wall \<le> saturating_add (max wall m) MAX_DRIFT_MS"
    "hc_physical c \<le> saturating_add (max wall m) MAX_DRIFT_MS"
    using le_saturating_add [of "max wall m" MAX_DRIFT_MS] assms
      saturating_add_mono [of m "max wall m" MAX_DRIFT_MS]
    by (meson max.cobounded1 max.cobounded2 order_trans)+
  show ?thesis
  proof (cases "physical_ms remote > saturating_add wall MAX_DRIFT_MS")
    case False
    then have "physical_ms remote \<le> saturating_add (max wall m) MAX_DRIFT_MS"
      using saturating_add_mono [of wall "max wall m" MAX_DRIFT_MS]
      by (meson max.cobounded1 not_le order_trans)
    with bounds False show ?thesis by (simp add: hc_update_def Let_def)
  qed (use bounds in \<open>simp add: hc_update_def\<close>)
qed

lemma hc_run_bounded:
  "hc_run ws c \<Longrightarrow> hc_physical c \<le> saturating_add (max_reading ws) MAX_DRIFT_MS"
proof (induction rule: hc_run.induct)
  case hc_start
  show ?case by (simp add: hc_new_def)
qed (simp_all add: hc_now_bounded hc_update_bounded)

text \<open>
  C26: whatever timestamps the peers send, a clock never holds a physical time beyond the highest
  wall-clock reading it has made so far plus the 60-second tolerance; hence, as long as the wall
  clock has not gone back, never beyond its latest reading plus the tolerance. And a clock that
  already is within the tolerance of the wall clock stays within it through every update.
\<close>

theorem hlc_drift_bounded:
  assumes "hc_run ws c"
  shows "hc_physical c \<le> saturating_add (max_reading ws) MAX_DRIFT_MS \<and>
         (ws \<noteq> [] \<and> wall_monotone ws \<longrightarrow> hc_physical c \<le> saturating_add (hd ws) MAX_DRIFT_MS) \<and>
         (hc_physical c \<le> saturating_add wall MAX_DRIFT_MS \<longrightarrow>
            hc_physical (fst (hc_update wall c remote)) \<le> saturating_add wall MAX_DRIFT_MS)"
proof (intro conjI impI)
  show bound: "hc_physical c \<le> saturating_add (max_reading ws) MAX_DRIFT_MS"
    by (rule hc_run_bounded [OF assms])
  show "hc_physical c \<le> saturating_add (hd ws) MAX_DRIFT_MS" if "ws \<noteq> [] \<and> wall_monotone ws"
    using bound max_reading_monotone [of "hd ws" "tl ws"] that by simp
  show "hc_physical (fst (hc_update wall c remote)) \<le> saturating_add wall MAX_DRIFT_MS"
    if "hc_physical c \<le> saturating_add wall MAX_DRIFT_MS"
    using hc_update_bounded [OF that, of wall remote] by simp
qed

theorem hlc_drift_bounded_witness:
  "hc_physical (fst (hc_update 2000 (fst (hc_update 1000 hc_new (Timestamp 61000 0))) (Timestamp 62000 0)))
     \<le> saturating_add 2000 MAX_DRIFT_MS"
proof -
  have "hc_run [2000, 1000]
      (fst (hc_update 2000 (fst (hc_update 1000 hc_new (Timestamp 61000 0))) (Timestamp 62000 0)))"
    by (rule hc_step_update [OF hc_step_update [OF hc_start]])
  moreover have "wall_monotone [2000, 1000]" by (simp add: wall_monotone_def)
  ultimately show ?thesis using hlc_drift_bounded by fastforce
qed

end
