(* ===== verification/Merkle.thy ===== *)
theory Merkle
  imports Core_Types
begin

text \<open>
  The Merkle trees of \<open>src/crates/exo-core/src/hash.rs\<close>. \<open>merkle_level\<close> is one round of the
  pairing loop, \<open>merkle_loop\<close> the outer loop of \<open>merkle_root\<close>, \<open>proof_loop\<close> that of
  \<open>merkle_proof\<close>. The hash function is the parameter \<open>blake3\<close>. A fixed-length hash has collisions,
  so the soundness theorem assumes that it has none among the 64-byte strings hashed by this tree
  and this proof (\<open>merkle_inputs\<close>, \<open>path_inputs\<close>), which is what collision resistance gives.
\<close>

section \<open>Hashing\<close>

definition canonical_hash :: "blake3 \<Rightarrow> bytes \<Rightarrow> hash256" where
  "canonical_hash blake3 data = digest blake3 data"

text \<open>
  \<open>hash_structured\<close>: the CBOR encoder is the crate \<open>ciborium\<close>; \<open>cbor\<close> is its result on the value,
  and an encoding failure becomes a \<open>SerializationError\<close>.
\<close>

definition hash_structured ::
  "blake3 \<Rightarrow> ('a \<Rightarrow> (bytes, string) result) \<Rightarrow> 'a \<Rightarrow> (hash256, exo_error) result" where
  "hash_structured blake3 cbor v = (case cbor v of
     Inl reason \<Rightarrow> Err (SerializationError reason)
   | Inr buf \<Rightarrow> Ok (canonical_hash blake3 buf))"

definition hash_pair :: "blake3 \<Rightarrow> hash256 \<Rightarrow> hash256 \<Rightarrow> hash256" where
  "hash_pair blake3 left right = canonical_hash blake3 (hash_bytes left @ hash_bytes right)"

section \<open>The root\<close>

fun merkle_level :: "blake3 \<Rightarrow> hash256 list \<Rightarrow> hash256 list" where
  "merkle_level blake3 [] = []"
| "merkle_level blake3 [left] = [hash_pair blake3 left left]"
| "merkle_level blake3 (left # right # rest) =
     hash_pair blake3 left right # merkle_level blake3 rest"

lemma length_merkle_level [simp]: "length (merkle_level blake3 xs) = (length xs + 1) div 2"
  by (induction blake3 xs rule: merkle_level.induct) auto

function merkle_loop :: "blake3 \<Rightarrow> hash256 list \<Rightarrow> hash256 list" where
  "merkle_loop blake3 current =
     (if length current > 1 then merkle_loop blake3 (merkle_level blake3 current) else current)"
  by pat_completeness auto
termination
  by (relation "measure (\<lambda>(blake3, current). length current)") auto

declare merkle_loop.simps [simp del]

definition merkle_root :: "blake3 \<Rightarrow> hash256 list \<Rightarrow> hash256" where
  "merkle_root blake3 leaves =
     (if leaves = [] then HASH_ZERO
      else if length leaves = 1 then leaves ! 0
      else merkle_loop blake3 leaves ! 0)"

section \<open>Proofs\<close>

text \<open>An odd level is padded with its last element, so that every node has a sibling.\<close>

definition pad_odd :: "hash256 list \<Rightarrow> hash256 list" where
  "pad_odd current = (if length current mod 2 \<noteq> 0 then current @ [last current] else current)"

definition sibling_index :: "nat \<Rightarrow> nat" where
  "sibling_index idx = (if idx mod 2 = 0 then idx + 1 else idx - 1)"

lemma length_pad_odd: "length (pad_odd xs) = length xs + length xs mod 2"
  by (auto simp: pad_odd_def mod_2_eq_odd)

function proof_loop :: "blake3 \<Rightarrow> hash256 list \<Rightarrow> nat \<Rightarrow> hash256 list \<Rightarrow> hash256 list" where
  "proof_loop blake3 current idx acc =
     (if length current > 1 then
        let padded = pad_odd current
        in proof_loop blake3 (merkle_level blake3 padded) (idx div 2)
             (acc @ [padded ! sibling_index idx])
      else acc)"
  by pat_completeness auto
termination
  by (relation "measure (\<lambda>(blake3, current, idx, acc). length current)")
     (auto simp: length_pad_odd)

declare proof_loop.simps [simp del]

definition merkle_proof :: "blake3 \<Rightarrow> hash256 list \<Rightarrow> nat \<Rightarrow> (hash256 list, exo_error) result" where
  "merkle_proof blake3 leaves index =
     (if index \<ge> length leaves \<or> leaves = [] then Err InvalidMerkleProof
      else if length leaves = 1 then Ok []
      else Ok (proof_loop blake3 leaves index []))"

text \<open>The loop of \<open>verify_merkle_proof\<close>: the hash reached from a leaf by a path of siblings.\<close>

fun climb :: "blake3 \<Rightarrow> hash256 \<Rightarrow> hash256 list \<Rightarrow> nat \<Rightarrow> hash256" where
  "climb blake3 current [] idx = current"
| "climb blake3 current (sibling # rest) idx =
     climb blake3
       (if idx mod 2 = 0 then hash_pair blake3 current sibling else hash_pair blake3 sibling current)
       rest (idx div 2)"

definition verify_merkle_proof :: "blake3 \<Rightarrow> hash256 \<Rightarrow> hash256 \<Rightarrow> hash256 list \<Rightarrow> nat \<Rightarrow> bool" where
  "verify_merkle_proof blake3 root leaf path index = (climb blake3 leaf path index = root)"

section \<open>Levels and paths\<close>

lemma merkle_level_pad_odd [simp]: "merkle_level blake3 (pad_odd xs) = merkle_level blake3 xs"
proof (induction blake3 xs rule: merkle_level.induct)
  case (3 blake3 left right rest)
  have "pad_odd (left # right # rest) = left # right # pad_odd rest"
    by (cases rest) (auto simp: pad_odd_def mod_2_eq_odd)
  with 3 show ?case by simp
qed (auto simp: pad_odd_def)

lemma merkle_level_nth:
  "idx < length xs \<Longrightarrow>
   merkle_level blake3 xs ! (idx div 2) =
     (if idx mod 2 = 0 then hash_pair blake3 (xs ! idx) (pad_odd xs ! sibling_index idx)
      else hash_pair blake3 (pad_odd xs ! sibling_index idx) (xs ! idx))"
proof (induction blake3 xs arbitrary: idx rule: merkle_level.induct)
  case (2 blake3 left)
  then show ?case by (simp add: pad_odd_def sibling_index_def)
next
  case (3 blake3 left right rest)
  have pad: "pad_odd (left # right # rest) = left # right # pad_odd rest"
    by (cases rest) (auto simp: pad_odd_def mod_2_eq_odd)
  consider "idx = 0" | "idx = 1" | j where "idx = j + 2"
    by (metis One_nat_def add_2_eq_Suc' not0_implies_Suc)
  then show ?case
  proof cases
    case 3
    then have "sibling_index idx = sibling_index j + 2"
      by (auto simp: sibling_index_def)
    with 3 "3.IH" [of j] "3.prems" show ?thesis by (simp add: pad)
  qed (simp_all add: pad sibling_index_def)
qed simp

text \<open>The accumulator of the proof loop: the siblings of the levels above come after it.\<close>

definition proof_path :: "blake3 \<Rightarrow> hash256 list \<Rightarrow> nat \<Rightarrow> hash256 list" where
  "proof_path blake3 current idx = proof_loop blake3 current idx []"

lemma proof_loop_acc: "proof_loop blake3 current idx acc = acc @ proof_path blake3 current idx"
proof (induction "length current" arbitrary: current idx acc rule: less_induct)
  case less
  show ?case
  proof (cases "length current > 1")
    case True
    then have "length (merkle_level blake3 current) < length current" by simp
    note up = less.hyps [OF this]
    show ?thesis
      using True up [of "idx div 2" "acc @ [pad_odd current ! sibling_index idx]"]
        up [of "idx div 2" "[pad_odd current ! sibling_index idx]"]
      by (simp add: proof_path_def proof_loop.simps [of blake3 current] Let_def)
  qed (simp add: proof_path_def proof_loop.simps [of blake3 current])
qed

lemma proof_path_simps:
  "length current \<le> 1 \<Longrightarrow> proof_path blake3 current idx = []"
  "length current > 1 \<Longrightarrow> proof_path blake3 current idx =
     (pad_odd current ! sibling_index idx) # proof_path blake3 (merkle_level blake3 current) (idx div 2)"
proof -
  assume "length current > 1"
  then have "proof_loop blake3 current idx [] =
      proof_loop blake3 (merkle_level blake3 current) (idx div 2) [pad_odd current ! sibling_index idx]"
    by (simp add: proof_loop.simps [of blake3 current] Let_def)
  then show "proof_path blake3 current idx =
     (pad_odd current ! sibling_index idx) # proof_path blake3 (merkle_level blake3 current) (idx div 2)"
    by (simp only: proof_loop_acc append_Cons append_Nil)
qed (simp add: proof_path_def proof_loop.simps [of blake3 current])

text \<open>Climbing the path of a leaf from any level reaches the node the loop ends with.\<close>

lemma climb_proof_path:
  "idx < length current \<Longrightarrow>
   climb blake3 (current ! idx) (proof_path blake3 current idx) idx = merkle_loop blake3 current ! 0"
proof (induction blake3 current arbitrary: idx rule: merkle_loop.induct)
  case (1 blake3 current)
  show ?case
  proof (cases "length current > 1")
    case True
    have "idx div 2 < length (merkle_level blake3 current)"
      using "1.prems" by simp
    from "1.IH" [OF True this] True "1.prems" show ?thesis
      by (simp add: proof_path_simps merkle_loop.simps [of blake3 current] merkle_level_nth)
  next
    case False
    with "1.prems" have "idx = 0" by simp
    with False show ?thesis
      by (simp add: proof_path_simps merkle_loop.simps [of blake3 current])
  qed
qed

lemma merkle_root_loop: "leaves \<noteq> [] \<Longrightarrow> merkle_root blake3 leaves = merkle_loop blake3 leaves ! 0"
  by (auto simp: merkle_root_def merkle_loop.simps)

lemma merkle_proof_path:
  "merkle_proof blake3 leaves index =
     (if index < length leaves then Ok (proof_path blake3 leaves index) else Err InvalidMerkleProof)"
  by (auto simp: merkle_proof_def proof_path_def proof_loop.simps)

text \<open>
  Completeness: \<open>merkle_proof\<close> fails exactly when the index is out of bounds, and otherwise returns a proof
  that \<open>verify_merkle_proof\<close> accepts for the leaf at that index against \<open>merkle_root\<close>.
\<close>

theorem merkle_proof_complete:
  "(if index < length leaves
    then \<exists>p. merkle_proof blake3 leaves index = Ok p \<and>
           verify_merkle_proof blake3 (merkle_root blake3 leaves) (leaves ! index) p index
    else merkle_proof blake3 leaves index = Err InvalidMerkleProof)"
proof (cases "index < length leaves")
  case True
  then have "leaves \<noteq> []" by auto
  with True show ?thesis
    by (simp add: merkle_proof_path verify_merkle_proof_def climb_proof_path merkle_root_loop)
qed (simp add: merkle_proof_path)

section \<open>Soundness\<close>

text \<open>The strings hashed to build the tree, and those hashed to climb a path.\<close>

fun level_inputs :: "hash256 list \<Rightarrow> bytes list" where
  "level_inputs [] = []"
| "level_inputs [left] = [hash_bytes left @ hash_bytes left]"
| "level_inputs (left # right # rest) = (hash_bytes left @ hash_bytes right) # level_inputs rest"

function merkle_inputs :: "blake3 \<Rightarrow> hash256 list \<Rightarrow> bytes list" where
  "merkle_inputs blake3 current =
     (if length current > 1
      then level_inputs current @ merkle_inputs blake3 (merkle_level blake3 current) else [])"
  by pat_completeness auto
termination
  by (relation "measure (\<lambda>(blake3, current). length current)") auto

declare merkle_inputs.simps [simp del]

fun path_inputs :: "blake3 \<Rightarrow> hash256 \<Rightarrow> hash256 list \<Rightarrow> nat \<Rightarrow> bytes list" where
  "path_inputs blake3 current [] idx = []"
| "path_inputs blake3 current (sibling # rest) idx =
     (let inp = (if idx mod 2 = 0 then hash_bytes current @ hash_bytes sibling
                 else hash_bytes sibling @ hash_bytes current)
      in inp # path_inputs blake3 (canonical_hash blake3 inp) rest (idx div 2))"

lemma level_inputs_nth:
  "idx < length xs \<Longrightarrow>
   (if idx mod 2 = 0 then hash_bytes (xs ! idx) @ hash_bytes (pad_odd xs ! sibling_index idx)
    else hash_bytes (pad_odd xs ! sibling_index idx) @ hash_bytes (xs ! idx)) \<in> set (level_inputs xs)"
proof (induction xs arbitrary: idx rule: level_inputs.induct)
  case (2 left)
  then show ?case by (simp add: pad_odd_def sibling_index_def)
next
  case (3 left right rest)
  have pad: "pad_odd (left # right # rest) = left # right # pad_odd rest"
    by (cases rest) (auto simp: pad_odd_def mod_2_eq_odd)
  consider "idx = 0" | "idx = 1" | j where "idx = j + 2"
    by (metis One_nat_def add_2_eq_Suc' not0_implies_Suc)
  then show ?case
  proof cases
    case 3
    then have "sibling_index idx = sibling_index j + 2"
      by (auto simp: sibling_index_def)
    with 3 "3.IH" [of j] "3.prems" show ?thesis by (auto simp: pad split: if_splits)
  qed (simp_all add: pad sibling_index_def)
qed simp

lemma digest_inj_on:
  "inj_on blake3 S \<Longrightarrow> x \<in> S \<Longrightarrow> y \<in> S \<Longrightarrow> canonical_hash blake3 x = canonical_hash blake3 y \<longleftrightarrow> x = y"
  by (auto simp: canonical_hash_def digest_def inj_on_def)

lemma hash_bytes_append_eq:
  "hash_bytes a @ hash_bytes b = hash_bytes c @ hash_bytes d \<longleftrightarrow> a = c \<and> b = d"
  by simp

lemma climb_unique:
  assumes "inj_on blake3 (set (merkle_inputs blake3 current) \<union> set (path_inputs blake3 leaf path idx))"
    and "idx < length current" and "length path = length (proof_path blake3 current idx)"
    and "climb blake3 leaf path idx = merkle_loop blake3 current ! 0"
  shows "leaf = current ! idx \<and> path = proof_path blake3 current idx"
  using assms
proof (induction blake3 current arbitrary: leaf path idx rule: merkle_loop.induct)
  case (1 blake3 current)
  show ?case
  proof (cases "length current > 1")
    case True
    let ?up = "merkle_level blake3 current" and ?sib = "pad_odd current ! sibling_index idx"
    have up: "idx div 2 < length ?up" using "1.prems"(2) by simp
    from True "1.prems"(3) obtain s rest where path: "path = s # rest"
      by (cases path) (auto simp: proof_path_simps)
    define inp where "inp = (if idx mod 2 = 0 then hash_bytes leaf @ hash_bytes s
                             else hash_bytes s @ hash_bytes leaf)"
    define inp' where "inp' = (if idx mod 2 = 0 then hash_bytes (current ! idx) @ hash_bytes ?sib
                               else hash_bytes ?sib @ hash_bytes (current ! idx))"
    have node: "?up ! (idx div 2) = canonical_hash blake3 inp'"
      using "1.prems"(2) by (simp add: merkle_level_nth hash_pair_def inp'_def)
    have climb: "climb blake3 leaf path idx = climb blake3 (canonical_hash blake3 inp) rest (idx div 2)"
      by (auto simp: path inp_def hash_pair_def)
    have in_tree: "inp' \<in> set (merkle_inputs blake3 current)"
      using level_inputs_nth [OF "1.prems"(2)] True
      by (simp add: merkle_inputs.simps [of blake3 current] inp'_def)
    have in_path: "set (path_inputs blake3 leaf path idx) =
        insert inp (set (path_inputs blake3 (canonical_hash blake3 inp) rest (idx div 2)))"
      by (simp add: path inp_def Let_def)
    have "canonical_hash blake3 inp = ?up ! (idx div 2) \<and> rest = proof_path blake3 ?up (idx div 2)"
    proof (rule "1.IH" [OF True _ up])
      show "inj_on blake3 (set (merkle_inputs blake3 ?up) \<union>
              set (path_inputs blake3 (canonical_hash blake3 inp) rest (idx div 2)))"
        using "1.prems"(1) True
        by (rule_tac inj_on_subset) (auto simp: merkle_inputs.simps [of blake3 current] in_path)
    qed (use "1.prems" True climb path in
        \<open>simp_all add: proof_path_simps merkle_loop.simps [of blake3 current]\<close>)
    then have "inp = inp'" and rest: "rest = proof_path blake3 ?up (idx div 2)"
      using digest_inj_on [OF "1.prems"(1), of inp inp'] in_tree in_path node by auto
    then have "leaf = current ! idx \<and> s = ?sib"
      by (auto simp: inp_def inp'_def split: if_splits)
    with rest path True show ?thesis by (simp add: proof_path_simps)
  next
    case False
    with "1.prems"(2) have "idx = 0" by simp
    with False "1.prems" show ?thesis
      by (simp add: proof_path_simps merkle_loop.simps [of blake3 current])
  qed
qed


text \<open>
  C16: proofs are unforgeable and unique. For a tree over \<open>leaves\<close> and any candidate leaf and path
  of the right length, if the hash has no collision among the strings hashed by the tree and by the
  candidate, then the candidate verifies at an in-range index exactly when it is the leaf at that
  index with the path \<open>merkle_proof\<close> returns.
\<close>

theorem merkle_proof_sound:
  assumes "inj_on blake3 (set (merkle_inputs blake3 leaves) \<union> set (path_inputs blake3 leaf path index))"
    and "merkle_proof blake3 leaves index = Ok p" and "length path = length p"
  shows "verify_merkle_proof blake3 (merkle_root blake3 leaves) leaf path index \<longleftrightarrow>
           leaf = leaves ! index \<and> path = p"
proof -
  from assms(2) have idx: "index < length leaves" and p: "p = proof_path blake3 leaves index"
    by (auto simp: merkle_proof_path split: if_splits)
  from idx have "leaves \<noteq> []" by auto
  then have "verify_merkle_proof blake3 (merkle_root blake3 leaves) leaf path index \<longleftrightarrow>
      climb blake3 leaf path index = merkle_loop blake3 leaves ! 0"
    by (simp add: verify_merkle_proof_def merkle_root_loop)
  with climb_unique [OF assms(1) idx] climb_proof_path [OF idx, of blake3] assms(3) p
  show ?thesis by auto
qed

text \<open>A hash that keeps the first byte separates the inputs of a two-leaf tree and a forged leaf.\<close>

theorem merkle_proof_sound_witness:
  "\<not> verify_merkle_proof (\<lambda>bs. arr32_of (take 1 bs))
      (merkle_root (\<lambda>bs. arr32_of (take 1 bs)) [hash_from_bytes [1], hash_from_bytes [2]])
      (hash_from_bytes [3]) [hash_from_bytes [2]] 0"
proof -
  let ?b = "\<lambda>bs. arr32_of (take 1 bs)"
  let ?leaves = "[hash_from_bytes [1], hash_from_bytes [2]]"
  have h: "hash_bytes (hash_from_bytes bs) = take 32 (bs @ replicate 32 0)" for bs
    by (simp add: hash_bytes_def hash_from_bytes_def bytes32_of)
  have neq: "arr32_of [1] \<noteq> arr32_of [3]"
    by (rule arr32_of_Cons_neq) simp
  have "inj_on ?b (set (merkle_inputs ?b ?leaves) \<union>
          set (path_inputs ?b (hash_from_bytes [3]) [hash_from_bytes [2]] 0))"
    using neq by (auto simp: merkle_inputs.simps inj_on_def h)
  moreover have "merkle_proof ?b ?leaves 0 = Ok [hash_from_bytes [2]]"
    by (simp add: merkle_proof_path proof_path_simps pad_odd_def sibling_index_def)
  moreover have "hash_from_bytes [3] \<noteq> hash_from_bytes [1]"
    using neq by (simp add: hash_from_bytes_def)
  ultimately show ?thesis
    using merkle_proof_sound [of ?b ?leaves "hash_from_bytes [3]" "[hash_from_bytes [2]]" 0] by simp
qed

text \<open>
  The number of siblings is the height of the tree. Padding an odd level by its last element does
  not change the root, so lists that differ by such a repetition share their root: the
  index has to be checked against the number of leaves, as \<open>merkle_proof_sound\<close> assumes.
\<close>

lemma length_proof_path: "length current \<le> 2 ^ k \<Longrightarrow> length (proof_path blake3 current idx) \<le> k"
proof (induction k arbitrary: current idx)
  case (Suc k)
  show ?case
  proof (cases "length current > 1")
    case True
    have "length (merkle_level blake3 current) \<le> 2 ^ k" using Suc.prems by simp
    with Suc.IH True show ?thesis by (simp add: proof_path_simps)
  qed (simp add: proof_path_simps)
qed (simp add: proof_path_simps)

lemma merkle_root_pad_odd: "length leaves > 1 \<Longrightarrow> merkle_root blake3 (pad_odd leaves) = merkle_root blake3 leaves"
proof -
  assume "length leaves > 1"
  moreover from this have "length (pad_odd leaves) > 1" by (simp add: length_pad_odd)
  ultimately have "merkle_loop blake3 (pad_odd leaves) = merkle_loop blake3 leaves"
    by (simp add: merkle_loop.simps [of blake3 leaves] merkle_loop.simps [of blake3 "pad_odd leaves"])
  with \<open>length leaves > 1\<close> \<open>length (pad_odd leaves) > 1\<close> show ?thesis
    by (auto simp: merkle_root_def)
qed

end
