(* ===== verification/Bcts.thy ===== *)
theory Bcts
  imports Hlc Merkle
begin

text \<open>
  The bailment-conditioned transaction lifecycle of \<open>src/crates/exo-core/src/bcts.rs\<close>: the state
  graph, the transaction with its hash-chained receipts, the transition handler and the chain
  verifier. The hash and the CBOR encoder of the receipt structure are parameters
  (\<open>blake3\<close>, \<open>cbor\<close>); the clock is the one of \<open>Hlc\<close>.
\<close>

section \<open>The state graph\<close>

datatype bcts_state =
    Draft
  | Submitted
  | IdentityResolved
  | ConsentValidated
  | Deliberated
  | Verified
  | Governed
  | Approved
  | Executed
  | Recorded
  | Closed
  | Denied
  | Escalated
  | Remediated

fun valid_transitions :: "bcts_state \<Rightarrow> bcts_state list" where
  "valid_transitions Draft = [Submitted]"
| "valid_transitions Submitted = [IdentityResolved, Denied]"
| "valid_transitions IdentityResolved = [ConsentValidated, Denied]"
| "valid_transitions ConsentValidated = [Deliberated, Denied]"
| "valid_transitions Deliberated = [Verified, Denied, Escalated]"
| "valid_transitions Verified = [Governed, Denied, Escalated]"
| "valid_transitions Governed = [Approved, Denied, Escalated]"
| "valid_transitions Approved = [Executed, Denied]"
| "valid_transitions Executed = [Recorded, Escalated]"
| "valid_transitions Recorded = [Closed, Escalated]"
| "valid_transitions Closed = []"
| "valid_transitions Denied = [Remediated]"
| "valid_transitions Escalated = [Deliberated, Denied, Remediated]"
| "valid_transitions Remediated = [Submitted]"

definition can_transition_to :: "bcts_state \<Rightarrow> bcts_state \<Rightarrow> bool" where
  "can_transition_to s target = List.member (valid_transitions s) target"

text \<open>\<open>to_string\<close>: the derived debug name.\<close>

fun bcts_state_name :: "bcts_state \<Rightarrow> string" where
  "bcts_state_name Draft = ''Draft''"
| "bcts_state_name Submitted = ''Submitted''"
| "bcts_state_name IdentityResolved = ''IdentityResolved''"
| "bcts_state_name ConsentValidated = ''ConsentValidated''"
| "bcts_state_name Deliberated = ''Deliberated''"
| "bcts_state_name Verified = ''Verified''"
| "bcts_state_name Governed = ''Governed''"
| "bcts_state_name Approved = ''Approved''"
| "bcts_state_name Executed = ''Executed''"
| "bcts_state_name Recorded = ''Recorded''"
| "bcts_state_name Closed = ''Closed''"
| "bcts_state_name Denied = ''Denied''"
| "bcts_state_name Escalated = ''Escalated''"
| "bcts_state_name Remediated = ''Remediated''"

section \<open>Transactions\<close>

record bcts_transition =
  from_state :: bcts_state
  to_state :: bcts_state
  tr_timestamp :: timestamp
  receipt_hash :: hash256
  actor_did :: did

record transaction =
  tx_correlation_id :: correlation_id
  current_state :: bcts_state
  receipt_chain :: "hash256 list"
  tx_transitions :: "bcts_transition list"

record receipt_input =
  ri_from :: bcts_state
  ri_to :: bcts_state
  ri_timestamp :: timestamp
  ri_actor :: string
  ri_prev_hash :: hash256

type_synonym receipt_cbor = "receipt_input \<Rightarrow> (bytes, string) result"

definition tx_new :: "correlation_id \<Rightarrow> transaction" where
  "tx_new cid = \<lparr>tx_correlation_id = cid, current_state = Draft,
                  receipt_chain = [], tx_transitions = []\<rparr>"

definition last_receipt :: "hash256 list \<Rightarrow> hash256" where
  "last_receipt rs = (if rs = [] then HASH_ZERO else last rs)"

definition compute_receipt ::
  "blake3 \<Rightarrow> receipt_cbor \<Rightarrow> transaction \<Rightarrow> bcts_state \<Rightarrow> bcts_state \<Rightarrow> timestamp \<Rightarrow> did
   \<Rightarrow> (hash256, exo_error) result" where
  "compute_receipt blake3 cbor tx from to ts actor =
     hash_structured blake3 cbor
       \<lparr>ri_from = from, ri_to = to, ri_timestamp = ts, ri_actor = did_str actor,
        ri_prev_hash = last_receipt (receipt_chain tx)\<rparr>"

text \<open>
  \<open>transition\<close> of \<open>impl BailmentTransaction for Transaction\<close>. The clock ticks once the guard has
  passed, also when the receipt cannot be encoded; the transaction changes on success only.
\<close>

definition tx_transition ::
  "blake3 \<Rightarrow> receipt_cbor \<Rightarrow> u64 \<Rightarrow> bcts_state \<Rightarrow> did \<Rightarrow> transaction \<Rightarrow> hybrid_clock
   \<Rightarrow> transaction \<times> hybrid_clock \<times> (bcts_transition, exo_error) result" where
  "tx_transition blake3 cbor wall to actor tx clock =
     (let from = current_state tx
      in if \<not> can_transition_to from to
         then (tx, clock, Err (InvalidTransition (bcts_state_name from) (bcts_state_name to)))
         else
           let (clock', ts) = hc_now wall clock
           in case compute_receipt blake3 cbor tx from to ts actor of
                Inl e \<Rightarrow> (tx, clock', Err e)
              | Inr h \<Rightarrow>
                  let tr = \<lparr>from_state = from, to_state = to, tr_timestamp = ts,
                            receipt_hash = h, actor_did = actor\<rparr>
                  in (tx\<lparr>current_state := to,
                         receipt_chain := receipt_chain tx @ [h],
                         tx_transitions := tx_transitions tx @ [tr]\<rparr>, clock', Ok tr))"

text \<open>
  \<open>verify_receipt_chain\<close>: the loop over the transitions, with the index \<open>i\<close> and the hash \<open>prev\<close>
  of the previous receipt.
\<close>

fun verify_receipts ::
  "blake3 \<Rightarrow> receipt_cbor \<Rightarrow> hash256 list \<Rightarrow> nat \<Rightarrow> hash256 \<Rightarrow> bcts_transition list
   \<Rightarrow> (unit, exo_error) result" where
  "verify_receipts blake3 cbor chain i prev [] = Ok ()"
| "verify_receipts blake3 cbor chain i prev (tr # trs) =
     and_then
       (hash_structured blake3 cbor
          \<lparr>ri_from = from_state tr, ri_to = to_state tr, ri_timestamp = tr_timestamp tr,
           ri_actor = did_str (actor_did tr), ri_prev_hash = prev\<rparr>)
       (\<lambda>computed.
          if computed \<noteq> receipt_hash tr then Err (ReceiptChainBroken i)
          else if i < length chain \<and> chain ! i \<noteq> computed then Err (ReceiptChainBroken i)
          else verify_receipts blake3 cbor chain (i + 1) computed trs)"

definition verify_receipt_chain ::
  "blake3 \<Rightarrow> receipt_cbor \<Rightarrow> transaction \<Rightarrow> (unit, exo_error) result" where
  "verify_receipt_chain blake3 cbor tx =
     verify_receipts blake3 cbor (receipt_chain tx) 0 HASH_ZERO (tx_transitions tx)"


section \<open>The transaction interface\<close>

text \<open>
  A sequence of transitions is a path of the state graph from \<open>s\<close> to \<open>t\<close>.
\<close>

fun path_ok :: "bcts_state \<Rightarrow> bcts_transition list \<Rightarrow> bcts_state \<Rightarrow> bool" where
  "path_ok s [] t = (s = t)"
| "path_ok s (tr # trs) t =
     (from_state tr = s \<and> can_transition_to s (to_state tr) \<and> path_ok (to_state tr) trs t)"

lemma path_ok_append:
  "path_ok s (trs @ trs') t \<longleftrightarrow> (\<exists>u. path_ok s trs u \<and> path_ok u trs' t)"
  by (induction trs arbitrary: s) auto

lemma path_ok_snoc:
  "path_ok s (trs @ [tr]) t \<longleftrightarrow>
     path_ok s trs (from_state tr) \<and> can_transition_to (from_state tr) (to_state tr) \<and> t = to_state tr"
  by (auto simp: path_ok_append)

text \<open>
  Requests issued one after the other; a refused one leaves the transaction as it was. The
  result is the final transaction with the transitions that succeeded.
\<close>

primrec run_requests ::
  "('q \<Rightarrow> 't \<Rightarrow> 't \<times> (bcts_transition, exo_error) result) \<Rightarrow> 'q list \<Rightarrow> 't
   \<Rightarrow> 't \<times> bcts_transition list" where
  "run_requests step [] t = (t, [])"
| "run_requests step (q # qs) t =
     (case step q t of
        (t', Inl _) \<Rightarrow> run_requests step qs t'
      | (t', Inr tr) \<Rightarrow> (let (t'', trs) = run_requests step qs t' in (t'', tr # trs)))"

text \<open>The contract of the trait \<open>BailmentTransaction\<close>.\<close>

locale bailment_transaction =
  fixes state :: "'t \<Rightarrow> bcts_state"
    and receipts :: "'t \<Rightarrow> hash256 list"
    and corr :: "'t \<Rightarrow> correlation_id"
    and goal :: "'q \<Rightarrow> bcts_state"
    and step :: "'q \<Rightarrow> 't \<Rightarrow> 't \<times> (bcts_transition, exo_error) result"
  assumes step_Ok: "step q t = (t', Inr tr) \<Longrightarrow>
        from_state tr = state t \<and> to_state tr = goal q \<and> can_transition_to (state t) (goal q) \<and>
        state t' = goal q \<and> receipts t' = receipts t @ [receipt_hash tr] \<and> corr t' = corr t"
    and step_Err: "step q t = (t', Inl e) \<Longrightarrow> t' = t"
    and step_guard: "\<not> can_transition_to (state t) (goal q) \<Longrightarrow>
        snd (step q t) =
          Inl (InvalidTransition (bcts_state_name (state t)) (bcts_state_name (goal q)))"
begin

lemma run_requests_path:
  "run_requests step qs t = (t', trs) \<Longrightarrow>
     path_ok (state t) trs (state t') \<and>
     receipts t' = receipts t @ map receipt_hash trs \<and> corr t' = corr t"
proof (induction qs arbitrary: t trs)
  case (Cons q qs)
  obtain u r where u: "step q t = (u, r)" by (cases "step q t")
  show ?case
  proof (cases r)
    case (Inl e)
    with u step_Err [of q t u e] Cons show ?thesis by simp
  next
    case (Inr tr)
    obtain v trs' where v: "run_requests step qs u = (v, trs')" by (cases "run_requests step qs u")
    from Cons.prems u Inr v have "t' = v" "trs = tr # trs'" by simp_all
    with step_Ok [of q t u tr] Cons.IH [of u trs'] u Inr v show ?thesis by auto
  qed
qed simp

lemma closed_stuck: "state t = Closed \<Longrightarrow> \<exists>e. step q t = (t, Inl e)"
  using step_guard [of t q] step_Err [of q t "fst (step q t)"]
  by (cases "step q t") (auto simp: can_transition_to_def)

end

text \<open>A request to a \<open>Transaction\<close>: the wall reading, the clock, the target state and the actor.\<close>

type_synonym tx_request = "u64 \<times> hybrid_clock \<times> bcts_state \<times> did"

definition tx_step ::
  "blake3 \<Rightarrow> receipt_cbor \<Rightarrow> tx_request \<Rightarrow> transaction
   \<Rightarrow> transaction \<times> (bcts_transition, exo_error) result" where
  "tx_step blake3 cbor q tx =
     (case q of (wall, clock, to, actor) \<Rightarrow>
        let (tx', clock', r) = tx_transition blake3 cbor wall to actor tx clock in (tx', r))"

lemma tx_transition_Ok:
  "tx_transition blake3 cbor wall to actor tx clock = (tx', clock', Inr tr) \<longleftrightarrow>
     can_transition_to (current_state tx) to \<and>
     clock' = fst (hc_now wall clock) \<and>
     from_state tr = current_state tx \<and> to_state tr = to \<and>
     tr_timestamp tr = snd (hc_now wall clock) \<and> actor_did tr = actor \<and>
     bcts_transition.more tr = () \<and>
     compute_receipt blake3 cbor tx (current_state tx) to (tr_timestamp tr) actor = Inr (receipt_hash tr) \<and>
     tx' = tx\<lparr>current_state := to, receipt_chain := receipt_chain tx @ [receipt_hash tr],
              tx_transitions := tx_transitions tx @ [tr]\<rparr>"
  by (cases tr) (auto simp: tx_transition_def Let_def split: prod.splits sum.splits if_splits)

lemma tx_transition_Err:
  "tx_transition blake3 cbor wall to actor tx clock = (tx', clock', Inl e) \<Longrightarrow>
     tx' = tx \<and>
     (if can_transition_to (current_state tx) to then \<exists>reason. e = SerializationError reason
      else e = InvalidTransition (bcts_state_name (current_state tx)) (bcts_state_name to) \<and> clock' = clock)"
  by (auto simp: tx_transition_def compute_receipt_def hash_structured_def Let_def
      split: prod.splits sum.splits if_splits)

interpretation tx: bailment_transaction current_state receipt_chain tx_correlation_id
  "\<lambda>(wall, clock, to, actor). to" "tx_step blake3 cbor" for blake3 cbor
proof unfold_locales
  fix q :: tx_request and t t' tr e
  obtain wall clock to actor where q: "q = (wall, clock, to, actor)" by (cases q)
  obtain u c r where u: "tx_transition blake3 cbor wall to actor t clock = (u, c, r)"
    by (cases "tx_transition blake3 cbor wall to actor t clock")
  let ?goal = "(\<lambda>(wall, clock, to, actor). to) q"
  show "from_state tr = current_state t \<and> to_state tr = ?goal \<and>
      can_transition_to (current_state t) ?goal \<and> current_state t' = ?goal \<and>
      receipt_chain t' = receipt_chain t @ [receipt_hash tr] \<and> tx_correlation_id t' = tx_correlation_id t"
    if "tx_step blake3 cbor q t = (t', Inr tr)"
    using that u by (auto simp: tx_step_def q tx_transition_Ok)
  show "t' = t" if "tx_step blake3 cbor q t = (t', Inl e)"
    using that u by (auto simp: tx_step_def q dest: tx_transition_Err)
  show "snd (tx_step blake3 cbor q t) =
      Inl (InvalidTransition (bcts_state_name (current_state t)) (bcts_state_name ?goal))"
    if "\<not> can_transition_to (current_state t) ?goal"
    using that by (simp add: tx_step_def q tx_transition_def Let_def)
qed


section \<open>Receipt chains\<close>

text \<open>The structure hashed for a transition, given the receipt before it.\<close>

definition tr_input :: "hash256 \<Rightarrow> bcts_transition \<Rightarrow> receipt_input" where
  "tr_input prev tr =
     \<lparr>ri_from = from_state tr, ri_to = to_state tr, ri_timestamp = tr_timestamp tr,
      ri_actor = did_str (actor_did tr), ri_prev_hash = prev\<rparr>"

primrec receipts_valid :: "blake3 \<Rightarrow> receipt_cbor \<Rightarrow> hash256 \<Rightarrow> bcts_transition list \<Rightarrow> bool" where
  "receipts_valid blake3 cbor prev [] = True"
| "receipts_valid blake3 cbor prev (tr # trs) =
     (hash_structured blake3 cbor (tr_input prev tr) = Inr (receipt_hash tr) \<and>
      receipts_valid blake3 cbor (receipt_hash tr) trs)"

lemma receipts_valid_snoc:
  "receipts_valid blake3 cbor prev (trs @ [tr]) \<longleftrightarrow>
     receipts_valid blake3 cbor prev trs \<and>
     hash_structured blake3 cbor
       (tr_input (if trs = [] then prev else receipt_hash (last trs)) tr) = Inr (receipt_hash tr)"
  by (induction trs arbitrary: prev) auto

lemma verify_receipts_Ok:
  "verify_receipts blake3 cbor chain i prev trs = Inr () \<longleftrightarrow>
     receipts_valid blake3 cbor prev trs \<and>
     (\<forall>j < length trs. i + j < length chain \<longrightarrow> chain ! (i + j) = receipt_hash (trs ! j))"
proof (induction trs arbitrary: i prev)
  case (Cons tr trs)
  have "(\<forall>j < length (tr # trs). i + j < length chain \<longrightarrow> chain ! (i + j) = receipt_hash ((tr # trs) ! j)) \<longleftrightarrow>
      (i < length chain \<longrightarrow> chain ! i = receipt_hash tr) \<and>
      (\<forall>j < length trs. Suc i + j < length chain \<longrightarrow> chain ! (Suc i + j) = receipt_hash (trs ! j))"
    by (auto simp: less_Suc_eq_0_disj)
  with Cons show ?case
    by (auto simp: and_then_eq_Ok tr_input_def)
qed simp

text \<open>
  What \<open>verify_receipt_chain\<close> establishes. It succeeds exactly when every recorded transition
  carries the hash of its own fields and of the receipt before it, starting from the zero hash, and
  the stored receipts agree with them wherever both lists have an entry. Stored receipts without a
  transition, the current state and the state graph are not examined.
\<close>

theorem verify_receipt_chain_iff:
  "verify_receipt_chain blake3 cbor tx = Ok () \<longleftrightarrow>
     receipts_valid blake3 cbor HASH_ZERO (tx_transitions tx) \<and>
     take (length (tx_transitions tx)) (receipt_chain tx) =
       take (length (receipt_chain tx)) (map receipt_hash (tx_transitions tx))"
  unfolding verify_receipt_chain_def verify_receipts_Ok
  by (auto simp: list_eq_iff_nth_eq)

lemma last_receipt_map: "last_receipt (map receipt_hash trs) = (if trs = [] then HASH_ZERO else receipt_hash (last trs))"
  by (simp add: last_receipt_def last_map)

text \<open>The structures hashed for the receipts of a list of transitions, and their encodings.\<close>

primrec receipt_inputs :: "hash256 \<Rightarrow> bcts_transition list \<Rightarrow> receipt_input set" where
  "receipt_inputs prev [] = {}"
| "receipt_inputs prev (tr # trs) = insert (tr_input prev tr) (receipt_inputs (receipt_hash tr) trs)"

definition encodings :: "receipt_cbor \<Rightarrow> receipt_input set \<Rightarrow> bytes set" where
  "encodings cbor S = {b. \<exists>x \<in> S. cbor x = Inr b}"

lemma encodings_mono: "S \<subseteq> T \<Longrightarrow> encodings cbor S \<subseteq> encodings cbor T"
  by (auto simp: encodings_def)

lemma receipt_inputs_snoc:
  "receipt_inputs prev (trs @ [tr]) =
     insert (tr_input (if trs = [] then prev else receipt_hash (last trs)) tr) (receipt_inputs prev trs)"
  by (induction trs arbitrary: prev) auto

lemma tr_input_inject:
  "tr_input p tr = tr_input p' tr' \<Longrightarrow> receipt_hash tr = receipt_hash tr' \<Longrightarrow> p = p' \<and> tr = tr'"
  by (cases tr; cases tr') (auto simp: tr_input_def did.expand)

lemma receipts_determine_history:
  assumes "inj_on cbor (receipt_inputs HASH_ZERO trs \<union> receipt_inputs HASH_ZERO trs')"
    and "inj_on blake3 (encodings cbor (receipt_inputs HASH_ZERO trs \<union> receipt_inputs HASH_ZERO trs'))"
    and "\<forall>b \<in> encodings cbor (receipt_inputs HASH_ZERO trs \<union> receipt_inputs HASH_ZERO trs').
           canonical_hash blake3 b \<noteq> HASH_ZERO"
    and "receipts_valid blake3 cbor HASH_ZERO trs" and "receipts_valid blake3 cbor HASH_ZERO trs'"
    and "last_receipt (map receipt_hash trs) = last_receipt (map receipt_hash trs')"
  shows "trs = trs'"
  using assms
proof (induction trs arbitrary: trs' rule: rev_induct)
  case Nil
  then show ?case
    by (cases trs' rule: rev_cases)
       (auto simp: last_receipt_def receipts_valid_snoc hash_structured_def receipt_inputs_snoc
        encodings_def split: sum.splits)
next
  case (snoc tr trs)
  let ?I = "receipt_inputs HASH_ZERO (trs @ [tr]) \<union> receipt_inputs HASH_ZERO trs'"
  let ?p = "last_receipt (map receipt_hash trs)"
  obtain b where b: "cbor (tr_input ?p tr) = Inr b" "canonical_hash blake3 b = receipt_hash tr"
    using snoc.prems(4)
    by (auto simp: receipts_valid_snoc last_receipt_map hash_structured_def split: sum.splits if_splits)
  have p_in: "tr_input ?p tr \<in> ?I" by (simp add: receipt_inputs_snoc last_receipt_map)
  with b have b_in: "b \<in> encodings cbor ?I" by (auto simp: encodings_def)
  with snoc.prems(3,6) b(2) obtain us u where trs': "trs' = us @ [u]"
    by (cases trs' rule: rev_cases) (auto simp: last_receipt_def)
  let ?q = "last_receipt (map receipt_hash us)"
  obtain c where c: "cbor (tr_input ?q u) = Inr c" "canonical_hash blake3 c = receipt_hash u"
    using snoc.prems(5) trs'
    by (auto simp: receipts_valid_snoc last_receipt_map hash_structured_def split: sum.splits if_splits)
  have q_in: "tr_input ?q u \<in> ?I" by (simp add: trs' receipt_inputs_snoc last_receipt_map)
  with c have c_in: "c \<in> encodings cbor ?I" by (auto simp: encodings_def)
  have same: "receipt_hash tr = receipt_hash u"
    using snoc.prems(6) by (simp add: trs' last_receipt_def)
  with b c b_in c_in have "b = c"
    using digest_inj_on [OF snoc.prems(2), of b c] by simp
  with snoc.prems(1) b(1) c(1) p_in q_in have "tr_input ?p tr = tr_input ?q u"
    by (metis inj_onD)
  with same have eq: "?p = ?q" "tr = u" by (auto dest: tr_input_inject)
  have sub: "receipt_inputs HASH_ZERO trs \<union> receipt_inputs HASH_ZERO us \<subseteq> ?I"
    by (auto simp: trs' receipt_inputs_snoc)
  have "trs = us"
  proof (rule snoc.IH)
    show "inj_on cbor (receipt_inputs HASH_ZERO trs \<union> receipt_inputs HASH_ZERO us)"
      using snoc.prems(1) sub by (rule inj_on_subset)
    show "inj_on blake3 (encodings cbor (receipt_inputs HASH_ZERO trs \<union> receipt_inputs HASH_ZERO us))"
      using snoc.prems(2) encodings_mono [OF sub] by (rule inj_on_subset)
    show "\<forall>b \<in> encodings cbor (receipt_inputs HASH_ZERO trs \<union> receipt_inputs HASH_ZERO us).
        canonical_hash blake3 b \<noteq> HASH_ZERO"
      using snoc.prems(3) encodings_mono [OF sub] by blast
  qed (use snoc.prems(4,5) eq in \<open>auto simp: trs' receipts_valid_snoc\<close>)
  with eq trs' show ?case by simp
qed

text \<open>
  C10: the receipt chain is tamper-evident. For two transactions whose chains verify, and a hash and
  encoder without collisions among the receipts at hand (none of which hashes to the zero
  sentinel), the last receipts agree exactly when the whole histories agree: states, timestamps,
  actors, receipts and their number.
\<close>

theorem receipt_chain_tamper_evident:
  assumes "inj_on cbor (receipt_inputs HASH_ZERO (tx_transitions tx) \<union>
             receipt_inputs HASH_ZERO (tx_transitions tx'))"
    and "inj_on blake3 (encodings cbor (receipt_inputs HASH_ZERO (tx_transitions tx) \<union>
             receipt_inputs HASH_ZERO (tx_transitions tx')))"
    and "\<forall>b \<in> encodings cbor (receipt_inputs HASH_ZERO (tx_transitions tx) \<union>
             receipt_inputs HASH_ZERO (tx_transitions tx')). canonical_hash blake3 b \<noteq> HASH_ZERO"
    and "verify_receipt_chain blake3 cbor tx = Ok ()" and "verify_receipt_chain blake3 cbor tx' = Ok ()"
  shows "last_receipt (map receipt_hash (tx_transitions tx)) =
           last_receipt (map receipt_hash (tx_transitions tx')) \<longleftrightarrow>
         tx_transitions tx = tx_transitions tx'"
  using receipts_determine_history [OF assms(1-3)] assms(4,5)
  by (auto simp: verify_receipt_chain_def verify_receipts_Ok)


text \<open>Two one-step histories that differ in the actor only have different last receipts.\<close>

definition sample_tx :: "string \<Rightarrow> transaction" where
  "sample_tx name =
     fst (tx_transition (\<lambda>bs. arr32_of bs) (\<lambda>r. Ok (str_bytes (ri_actor r))) 7 Submitted (Did name)
            (tx_new (CorrelationId 1)) hc_new)"

lemma sample_tx_transitions:
  "tx_transitions (sample_tx name) =
     [\<lparr>from_state = Draft, to_state = Submitted, tr_timestamp = Timestamp 7 0,
       receipt_hash = Hash256 (arr32_of (str_bytes name)), actor_did = Did name\<rparr>]"
  "receipt_chain (sample_tx name) = [Hash256 (arr32_of (str_bytes name))]"
  by (simp_all add: sample_tx_def tx_transition_def can_transition_to_def tx_new_def hc_now_def hc_new_def
      compute_receipt_def hash_structured_def canonical_hash_def digest_def Let_def)

theorem receipt_chain_tamper_evident_witness:
  "last_receipt (map receipt_hash (tx_transitions (sample_tx ''a''))) \<noteq>
   last_receipt (map receipt_hash (tx_transitions (sample_tx ''b'')))"
proof -
  let ?b = "\<lambda>bs. arr32_of bs" and ?c = "\<lambda>r. Ok (str_bytes (ri_actor r))"
  have bytes: "str_bytes ''a'' = [97]" "str_bytes ''b'' = [98]"
    by (simp_all add: str_bytes_def)
  have neq: "arr32_of [97] \<noteq> arr32_of [98]" "arr32_of [97] \<noteq> arr32_of []" "arr32_of [98] \<noteq> arr32_of []"
    unfolding arr32_of_Nil by (rule arr32_of_Cons_neq, simp)+
  let ?I = "receipt_inputs HASH_ZERO (tx_transitions (sample_tx ''a'')) \<union>
      receipt_inputs HASH_ZERO (tx_transitions (sample_tx ''b''))"
  have "inj_on ?c ?I" by (auto simp: inj_on_def sample_tx_transitions tr_input_def)
  moreover have "inj_on ?b (encodings ?c ?I)"
    using neq by (auto simp: inj_on_def encodings_def sample_tx_transitions tr_input_def bytes)
  moreover have "\<forall>b \<in> encodings ?c ?I. canonical_hash ?b b \<noteq> HASH_ZERO"
    using neq by (auto simp: encodings_def sample_tx_transitions tr_input_def bytes canonical_hash_def
        digest_def HASH_ZERO_def)
  moreover have "verify_receipt_chain ?b ?c (sample_tx n) = Ok ()" for n
    by (simp add: verify_receipt_chain_def sample_tx_transitions hash_structured_def
        canonical_hash_def digest_def)
  ultimately show ?thesis
    using receipt_chain_tamper_evident [of ?c "sample_tx ''a''" "sample_tx ''b''" ?b]
    by (simp add: sample_tx_transitions)
qed

section \<open>Reachable transactions\<close>

text \<open>
  The states of a transaction together with the clock it is given. Other users of the clock may tick
  or merge it between two requests.
\<close>

inductive tx_reach :: "blake3 \<Rightarrow> receipt_cbor \<Rightarrow> transaction \<Rightarrow> hybrid_clock \<Rightarrow> bool"
  for blake3 :: blake3 and cbor :: receipt_cbor where
  tx_start: "tx_reach blake3 cbor (tx_new cid) clock"
| tx_request: "tx_reach blake3 cbor tx clock \<Longrightarrow>
     tx_transition blake3 cbor wall to actor tx clock = (tx', clock', r) \<Longrightarrow>
     tx_reach blake3 cbor tx' clock'"
| clock_now: "tx_reach blake3 cbor tx clock \<Longrightarrow> tx_reach blake3 cbor tx (fst (hc_now wall clock))"
| clock_update: "tx_reach blake3 cbor tx clock \<Longrightarrow>
     tx_reach blake3 cbor tx (fst (hc_update wall clock remote))"

text \<open>The stored receipts, the history as a path, the receipt hashes and the order of timestamps.\<close>

definition tx_inv :: "blake3 \<Rightarrow> receipt_cbor \<Rightarrow> transaction \<Rightarrow> hybrid_clock \<Rightarrow> bool" where
  "tx_inv blake3 cbor tx clock \<longleftrightarrow>
     receipt_chain tx = map receipt_hash (tx_transitions tx) \<and>
     path_ok Draft (tx_transitions tx) (current_state tx) \<and>
     receipts_valid blake3 cbor HASH_ZERO (tx_transitions tx) \<and>
     sorted_wrt ts_advance (map tr_timestamp (tx_transitions tx)) \<and>
     (\<forall>tr \<in> set (tx_transitions tx). tr_timestamp tr \<le> hc_current clock)"

text \<open>The part of the invariant that does not depend on the clocks: it holds whatever clock each transition reads.\<close>

definition tx_shape :: "blake3 \<Rightarrow> receipt_cbor \<Rightarrow> transaction \<Rightarrow> bool" where
  "tx_shape blake3 cbor tx \<longleftrightarrow>
     receipt_chain tx = map receipt_hash (tx_transitions tx) \<and>
     path_ok Draft (tx_transitions tx) (current_state tx) \<and>
     receipts_valid blake3 cbor HASH_ZERO (tx_transitions tx)"

lemma tx_shape_new: "tx_shape blake3 cbor (tx_new cid)"
  by (simp add: tx_shape_def tx_new_def)

lemma tx_shape_transition:
  assumes inv: "tx_shape blake3 cbor tx"
    and step: "tx_transition blake3 cbor wall to actor tx clock = (tx', clock', r)"
  shows "tx_shape blake3 cbor tx'"
proof (cases r)
  case (Inl e)
  with step have "tx' = tx"
    by (auto simp: tx_transition_def Let_def split: prod.splits sum.splits if_splits)
  with inv show ?thesis by simp
next
  case (Inr tr)
  note ok = step [unfolded Inr tx_transition_Ok]
  have "hash_structured blake3 cbor
      (tr_input (last_receipt (map receipt_hash (tx_transitions tx))) tr) = Inr (receipt_hash tr)"
    using ok inv by (auto simp: compute_receipt_def tr_input_def tx_shape_def)
  with inv ok show ?thesis
    by (auto simp: tx_shape_def path_ok_snoc receipts_valid_snoc last_receipt_map)
qed

lemma tx_inv_clock: "tx_inv blake3 cbor tx clock \<Longrightarrow> hc_current clock \<le> hc_current clock' \<Longrightarrow>
  tx_inv blake3 cbor tx clock'"
  by (auto simp: tx_inv_def intro: order_trans)

lemma tx_inv_transition:
  assumes inv: "tx_inv blake3 cbor tx clock"
    and step: "tx_transition blake3 cbor wall to actor tx clock = (tx', clock', r)"
  shows "tx_inv blake3 cbor tx' clock'"
proof (cases r)
  case (Inl e)
  with step have "tx' = tx" "clock' = clock \<or> clock' = fst (hc_now wall clock)"
    by (auto simp: tx_transition_def Let_def split: prod.splits sum.splits if_splits)
  moreover have "hc_current clock \<le> hc_current (fst (hc_now wall clock))"
    using ts_advance_le [OF hc_now_advance] by (simp add: hc_now_snd)
  ultimately show ?thesis using inv tx_inv_clock by blast
next
  case (Inr tr)
  note ok = step [unfolded Inr tx_transition_Ok]
  have ts: "tr_timestamp tr = hc_current clock'" "ts_advance (hc_current clock) (hc_current clock')"
    using ok hc_now_advance [of clock wall] by (simp_all add: hc_now_snd)
  have old: "tr_timestamp u \<le> hc_current clock" if "u \<in> set (tx_transitions tx)" for u
    using inv that by (simp add: tx_inv_def)
  have "ts_advance (tr_timestamp u) (tr_timestamp tr)" if "u \<in> set (tx_transitions tx)" for u
    using le_ts_advance_trans [OF old [OF that] ts(2)] ts(1) by simp
  moreover have "tr_timestamp u \<le> hc_current clock'" if "u \<in> set (tx_transitions tx)" for u
    using old [OF that] ts_advance_le [OF ts(2)] by simp
  moreover have "hash_structured blake3 cbor
      (tr_input (last_receipt (map receipt_hash (tx_transitions tx))) tr) = Inr (receipt_hash tr)"
    using ok inv by (auto simp: compute_receipt_def tr_input_def tx_inv_def)
  ultimately show ?thesis
    using inv ok ts
    by (auto simp: tx_inv_def path_ok_snoc receipts_valid_snoc last_receipt_map sorted_wrt_append)
qed

lemma tx_reach_inv: "tx_reach blake3 cbor tx clock \<Longrightarrow> tx_inv blake3 cbor tx clock"
proof (induction rule: tx_reach.induct)
  case (tx_start cid clock)
  show ?case by (simp add: tx_inv_def tx_new_def)
next
  case (clock_now tx clock wall)
  have "hc_current clock \<le> hc_current (fst (hc_now wall clock))"
    using ts_advance_le [OF hc_now_advance] by (simp add: hc_now_snd)
  with clock_now.IH show ?case by (rule tx_inv_clock)
qed (auto intro: tx_inv_transition tx_inv_clock hc_update_ge)

text \<open>
  C1: every reachable transaction has a consistent history: its transitions form a path of the
  state graph from \<open>Draft\<close> to its current state, one stored receipt per transition, the receipt
  chain verifies, and timestamps advance (they repeat only at the maximum of the clock's counter).
\<close>

theorem reachable_transaction_consistent:
  assumes "tx_reach blake3 cbor tx clock"
  shows "path_ok Draft (tx_transitions tx) (current_state tx) \<and>
         receipt_chain tx = map receipt_hash (tx_transitions tx) \<and>
         verify_receipt_chain blake3 cbor tx = Ok () \<and>
         sorted_wrt ts_advance (map tr_timestamp (tx_transitions tx))"
  using tx_reach_inv [OF assms]
  by (auto simp: tx_inv_def verify_receipt_chain_def verify_receipts_Ok)

lemma sample_tx_reach:
  "\<exists>clock. tx_reach (\<lambda>bs. arr32_of bs) (\<lambda>r. Ok (str_bytes (ri_actor r))) (sample_tx name) clock"
proof -
  obtain tx' clock' r where step: "tx_transition (\<lambda>bs. arr32_of bs) (\<lambda>r. Ok (str_bytes (ri_actor r))) 7
      Submitted (Did name) (tx_new (CorrelationId 1)) hc_new = (tx', clock', r)"
    by (metis prod_cases3)
  then have "sample_tx name = tx'" by (simp add: sample_tx_def)
  with tx_request [OF tx_start step] show ?thesis by blast
qed

theorem reachable_transaction_consistent_witness:
  "path_ok Draft (tx_transitions (sample_tx ''did:exo:a'')) (current_state (sample_tx ''did:exo:a'')) \<and>
   length (tx_transitions (sample_tx ''did:exo:a'')) = 1"
proof -
  obtain clock where "tx_reach (\<lambda>bs. arr32_of bs) (\<lambda>r. Ok (str_bytes (ri_actor r)))
      (sample_tx ''did:exo:a'') clock"
    using sample_tx_reach by blast
  from reachable_transaction_consistent [OF this] show ?thesis
    by (simp add: sample_tx_transitions)
qed


section \<open>The lifecycle\<close>

text \<open>
  The states entered since the most recent entry into \<open>Submitted\<close> (a remediated transaction is
  submitted again and starts over).
\<close>

definition stages_since :: "bcts_transition list \<Rightarrow> bcts_state set" where
  "stages_since trs =
     fold (\<lambda>tr S. if to_state tr = Submitted then {Submitted} else insert (to_state tr) S) trs {}"

text \<open>The stages a transaction in the given state must have passed in the current round.\<close>

fun required_stages :: "bcts_state \<Rightarrow> bcts_state set" where
  "required_stages Draft = {}"
| "required_stages IdentityResolved = {Submitted, IdentityResolved}"
| "required_stages ConsentValidated = {Submitted, IdentityResolved, ConsentValidated}"
| "required_stages Deliberated = {Submitted, IdentityResolved, ConsentValidated, Deliberated}"
| "required_stages Escalated = {Submitted, IdentityResolved, ConsentValidated, Deliberated}"
| "required_stages Verified = {Submitted, IdentityResolved, ConsentValidated, Deliberated, Verified}"
| "required_stages Governed =
     {Submitted, IdentityResolved, ConsentValidated, Deliberated, Verified, Governed}"
| "required_stages Approved =
     {Submitted, IdentityResolved, ConsentValidated, Deliberated, Verified, Governed, Approved}"
| "required_stages Executed =
     {Submitted, IdentityResolved, ConsentValidated, Deliberated, Verified, Governed, Approved, Executed}"
| "required_stages Recorded =
     {Submitted, IdentityResolved, ConsentValidated, Deliberated, Verified, Governed, Approved, Executed,
      Recorded}"
| "required_stages Closed =
     {Submitted, IdentityResolved, ConsentValidated, Deliberated, Verified, Governed, Approved, Executed,
      Recorded, Closed}"
| "required_stages _ = {Submitted}"

lemma required_stages_step:
  "can_transition_to s t \<Longrightarrow> t \<noteq> Submitted \<Longrightarrow> required_stages t \<subseteq> insert t (required_stages s)"
  by (cases s) (auto simp: can_transition_to_def)

lemma path_required_stages: "path_ok Draft trs s \<Longrightarrow> required_stages s \<subseteq> stages_since trs"
proof (induction trs arbitrary: s rule: rev_induct)
  case Nil
  then show ?case by auto
next
  case (snoc tr trs)
  from snoc.prems have s: "s = to_state tr" and step: "can_transition_to (from_state tr) s"
    and "path_ok Draft trs (from_state tr)"
    by (auto simp: path_ok_snoc)
  from snoc.IH [OF this(3)] have "required_stages (from_state tr) \<subseteq> stages_since trs" .
  with required_stages_step [OF step] show ?case
    by (cases "s = Submitted") (auto simp: stages_since_def s)
qed

text \<open>
  No stage can be skipped. In every reachable transaction, all the stages its current state
  requires were entered since the latest submission: an executed, recorded or closed one has had its
  identity resolved, its consent validated, and been deliberated, verified, governed and approved in
  this same round, through whatever escalations and remediations.
\<close>

theorem reachable_transaction_stages:
  assumes "tx_reach blake3 cbor tx clock"
  shows "required_stages (current_state tx) \<subseteq> stages_since (tx_transitions tx)"
  using tx_reach_inv [OF assms] by (simp add: tx_inv_def path_required_stages)

theorem reachable_transaction_stages_witness:
  "required_stages (current_state (sample_tx ''did:exo:a'')) \<subseteq>
     stages_since (tx_transitions (sample_tx ''did:exo:a''))"
proof -
  obtain clock where "tx_reach (\<lambda>bs. arr32_of bs) (\<lambda>r. Ok (str_bytes (ri_actor r)))
      (sample_tx ''did:exo:a'') clock"
    using sample_tx_reach by blast
  then show ?thesis by (rule reachable_transaction_stages)
qed

lemma closed_reachable: "can_transition_to\<^sup>*\<^sup>* s Closed"
proof -
  note step = converse_rtranclp_into_rtranclp [where r = can_transition_to]
  have Recorded: "can_transition_to\<^sup>*\<^sup>* Recorded Closed"
    by (rule step [of _ Closed]) (simp_all add: can_transition_to_def)
  have Executed: "can_transition_to\<^sup>*\<^sup>* Executed Closed"
    by (rule step [OF _ Recorded]) (simp add: can_transition_to_def)
  have Approved: "can_transition_to\<^sup>*\<^sup>* Approved Closed"
    by (rule step [OF _ Executed]) (simp add: can_transition_to_def)
  have Governed: "can_transition_to\<^sup>*\<^sup>* Governed Closed"
    by (rule step [OF _ Approved]) (simp add: can_transition_to_def)
  have Verified: "can_transition_to\<^sup>*\<^sup>* Verified Closed"
    by (rule step [OF _ Governed]) (simp add: can_transition_to_def)
  have Deliberated: "can_transition_to\<^sup>*\<^sup>* Deliberated Closed"
    by (rule step [OF _ Verified]) (simp add: can_transition_to_def)
  have ConsentValidated: "can_transition_to\<^sup>*\<^sup>* ConsentValidated Closed"
    by (rule step [OF _ Deliberated]) (simp add: can_transition_to_def)
  have IdentityResolved: "can_transition_to\<^sup>*\<^sup>* IdentityResolved Closed"
    by (rule step [OF _ ConsentValidated]) (simp add: can_transition_to_def)
  have Submitted: "can_transition_to\<^sup>*\<^sup>* Submitted Closed"
    by (rule step [OF _ IdentityResolved]) (simp add: can_transition_to_def)
  have Remediated: "can_transition_to\<^sup>*\<^sup>* Remediated Closed"
    by (rule step [OF _ Submitted]) (simp add: can_transition_to_def)
  have Denied: "can_transition_to\<^sup>*\<^sup>* Denied Closed"
    by (rule step [OF _ Remediated]) (simp add: can_transition_to_def)
  have Escalated: "can_transition_to\<^sup>*\<^sup>* Escalated Closed"
    by (rule step [OF _ Remediated]) (simp add: can_transition_to_def)
  have Draft: "can_transition_to\<^sup>*\<^sup>* Draft Closed"
    by (rule step [OF _ Submitted]) (simp add: can_transition_to_def)
  show ?thesis
    by (cases s) (use Draft Submitted IdentityResolved ConsentValidated Deliberated Verified Governed
        Approved Executed Recorded Denied Escalated Remediated in simp_all)
qed

text \<open>
  The lifecycle has no dead end: \<open>Closed\<close> is the only state without successors, it can
  be reached from every state by valid transitions, and no state is its own successor.
\<close>

theorem lifecycle_live:
  "can_transition_to\<^sup>*\<^sup>* s Closed \<and> (valid_transitions s = [] \<longleftrightarrow> s = Closed) \<and>
   \<not> can_transition_to s s"
  by (cases s) (simp_all add: closed_reachable can_transition_to_def)

end
