(* ===== verification/Core_Invariants.thy ===== *)
theory Core_Invariants
  imports Core_Types
begin

text \<open>
  \<open>src/crates/exo-core/src/invariants.rs\<close>: the invariant set and its two evaluation modes. An
  invariant is a trait object in the code; here it is its \<open>check\<close> method, a function of the
  context.
\<close>

datatype violation_severity = Warning | Error | Critical

record core_violation =
  cv_invariant_name :: string
  cv_description :: string
  cv_severity :: violation_severity
  cv_context :: "(string, string) deterministic_map"

record core_context =
  cc_actor_did :: did
  cc_timestamp :: timestamp
  cc_state_hash :: hash256
  cc_properties :: "(string, string) deterministic_map"

definition context_new :: "did \<Rightarrow> timestamp \<Rightarrow> hash256 \<Rightarrow> core_context" where
  "context_new actor ts h =
     \<lparr>cc_actor_did = actor, cc_timestamp = ts, cc_state_hash = h, cc_properties = det_new\<rparr>"

definition set_property :: "core_context \<Rightarrow> string \<Rightarrow> string \<Rightarrow> core_context" where
  "set_property ctx key v = ctx\<lparr>cc_properties := fst (det_insert (cc_properties ctx) key v)\<rparr>"

definition get_property :: "core_context \<Rightarrow> string \<Rightarrow> string option" where
  "get_property ctx key = det_get (cc_properties ctx) key"

type_synonym invariant = "core_context \<Rightarrow> (unit, core_violation) result"

type_synonym invariant_set = "invariant list"

definition iset_new :: invariant_set where
  "iset_new = []"

definition iset_add :: "invariant_set \<Rightarrow> invariant \<Rightarrow> invariant_set" where
  "iset_add s i = s @ [i]"

definition iset_len :: "invariant_set \<Rightarrow> nat" where
  "iset_len s = length s"

definition iset_is_empty :: "invariant_set \<Rightarrow> bool" where
  "iset_is_empty s = (s = [])"

fun severity_name :: "violation_severity \<Rightarrow> string" where
  "severity_name Warning = ''WARNING''"
| "severity_name Error = ''ERROR''"
| "severity_name Critical = ''CRITICAL''"

definition violation_message :: "core_violation \<Rightarrow> string" where
  "violation_message v =
     ''['' @ severity_name (cv_severity v) @ ''] '' @ cv_invariant_name v @ '': '' @ cv_description v"

definition iset_check_all :: "invariant_set \<Rightarrow> core_context \<Rightarrow> (unit, exo_error) result" where
  "iset_check_all s ctx =
     for_check (\<lambda>i. case i ctx of
                  Inl v \<Rightarrow> Err (InvariantViolationErr (violation_message v))
                | Inr _ \<Rightarrow> Ok ()) s"

fun iset_check_all_collect :: "invariant_set \<Rightarrow> core_context \<Rightarrow> core_violation list" where
  "iset_check_all_collect [] ctx = []"
| "iset_check_all_collect (i # s) ctx =
     (case i ctx of
        Inl v \<Rightarrow> v # iset_check_all_collect s ctx
      | Inr _ \<Rightarrow> iset_check_all_collect s ctx)"

text \<open>
  The two modes agree: \<open>check_all\<close> succeeds exactly when \<open>check_all_collect\<close> finds nothing, and
  otherwise reports the first violation collected. Its severity plays no role: a \<open>Warning\<close> is
  returned as an error like any other.
\<close>

theorem check_all_reports_first_violation:
  "iset_check_all s ctx =
     (case iset_check_all_collect s ctx of
        [] \<Rightarrow> Ok ()
      | v # _ \<Rightarrow> Err (InvariantViolationErr (violation_message v)))"
  by (induction s) (auto simp: iset_check_all_def split: sum.splits list.splits)

end
