(* ===== verification/Dag.thy ===== *)
theory Dag
  imports Hlc
begin

text \<open>
  The append-only graph of \<open>src/crates/exo-dag/src/dag.rs\<close> and its error type (\<open>error.rs\<close>): the
  local clock, the node hash, \<open>append\<close>, the breadth-first \<open>ancestors\<close> with the Kahn sort it calls,
  \<open>tips\<close> and \<open>verify_node\<close>. Reachable graphs are those built by \<open>append\<close>; the invariant is
  proved by rule induction and the queries are characterised on it.
\<close>

section \<open>Errors\<close>

datatype dag_error =
    ParentNotFound hash256
  | NodeAlreadyExists hash256
  | CycleDetected hash256
  | DagInvalidSignature hash256
  | DuplicateVote string u64
  | NotAValidator string
  | InvalidRound u64 u64
  | NodeNotFound hash256
  | EmptyParents
  | SmtError string
  | MmrError string
  | StoreError string

section \<open>The local clock\<close>

record dag_clock =
  latest :: timestamp

definition dclock_new :: dag_clock where
  "dclock_new = \<lparr>latest = TS_ZERO\<rparr>"

definition dclock_with_time :: "u64 \<Rightarrow> dag_clock" where
  "dclock_with_time millis = \<lparr>latest = Timestamp millis 0\<rparr>"

definition dclock_tick :: "dag_clock \<Rightarrow> dag_clock \<times> timestamp" where
  "dclock_tick c =
     (let t = Timestamp (physical_ms (latest c)) (logical (latest c) + 1) in (c\<lparr>latest := t\<rparr>, t))"

definition dclock_advance :: "u64 \<Rightarrow> dag_clock \<Rightarrow> dag_clock \<times> timestamp" where
  "dclock_advance millis c =
     dclock_tick (if millis > physical_ms (latest c) then c\<lparr>latest := Timestamp millis 0\<rparr> else c)"

lemma word_less_plus_1: "x \<noteq> - 1 \<Longrightarrow> x < x + 1" for x :: "'a::len word"
  using unat_less_max_word [of x] saturating_add_1_less [of x]
  by (simp add: saturating_add_def split: if_splits)

lemma unat_plus_1: "x \<noteq> - 1 \<Longrightarrow> unat (x + 1) = unat x + 1" for x :: "'a::len word"
proof -
  assume "x \<noteq> - 1"
  then have "unat x + 1 < 2 ^ LENGTH('a)"
    using unat_less_max_word [of x] by simp
  then show ?thesis
    using unat_saturating_add [of x 1] by (simp add: saturating_add_def)
qed

lemma dclock_tick_less: "logical (latest c) \<noteq> - 1 \<Longrightarrow> latest c < latest (fst (dclock_tick c))"
  by (simp add: dclock_tick_def Let_def less_timestamp_def word_less_plus_1)

text \<open>\<open>advance\<close>, like \<open>HybridClock::now\<close> of exo-core, implements the clock interface.\<close>

interpretation dclock: monotonic_clock dclock_advance latest
proof unfold_locales
  fix c :: dag_clock and i
  show "snd (dclock_advance i c) = latest (fst (dclock_advance i c))"
    by (simp add: dclock_advance_def dclock_tick_def Let_def)
  assume room: "logical (latest c) \<noteq> - 1"
  then show "unat (logical (latest (fst (dclock_advance i c)))) \<le> unat (logical (latest c)) + 1"
    by (simp add: dclock_advance_def dclock_tick_def Let_def unat_plus_1)
  from room show "latest c < latest (fst (dclock_advance i c))"
    by (simp add: dclock_advance_def dclock_tick_def Let_def less_timestamp_def word_less_plus_1)
qed

section \<open>Nodes and the graph\<close>

record dag_node =
  node_hash :: hash256
  node_parents :: "hash256 list"
  payload_hash :: hash256
  creator_did :: did
  node_timestamp :: timestamp
  node_signature :: signature

definition node_preimage :: "hash256 list \<Rightarrow> hash256 \<Rightarrow> did \<Rightarrow> timestamp \<Rightarrow> bytes" where
  "node_preimage ps ph creator ts =
     concat (map hash_bytes ps) @ hash_bytes ph @ str_bytes (did_str creator) @
     to_le_bytes 8 (physical_ms ts) @ to_le_bytes 4 (logical ts)"

definition compute_node_hash ::
  "blake3 \<Rightarrow> hash256 list \<Rightarrow> hash256 \<Rightarrow> did \<Rightarrow> timestamp \<Rightarrow> hash256" where
  "compute_node_hash blake3 ps ph creator ts = digest blake3 (node_preimage ps ph creator ts)"

record dag =
  dag_nodes :: "(hash256, dag_node) btree_map"
  dag_children :: "(hash256, hash256 btree_set) btree_map"

definition dag_new :: dag where
  "dag_new = \<lparr>dag_nodes = bm_empty, dag_children = bm_empty\<rparr>"

definition dag_len :: "dag \<Rightarrow> nat" where
  "dag_len d = bm_len (dag_nodes d)"

definition dag_is_empty :: "dag \<Rightarrow> bool" where
  "dag_is_empty d = bm_is_empty (dag_nodes d)"

text \<open>The node \<open>append\<close> builds, and the update of the graph and its children index with it.\<close>

definition new_node ::
  "blake3 \<Rightarrow> hash256 list \<Rightarrow> bytes \<Rightarrow> did \<Rightarrow> (bytes \<Rightarrow> signature) \<Rightarrow> timestamp \<Rightarrow> dag_node" where
  "new_node blake3 parents payload creator sign_fn ts =
     (let sorted_parents = sort_dedup parents;
          ph = digest blake3 payload;
          h = compute_node_hash blake3 sorted_parents ph creator ts
      in \<lparr>node_hash = h, node_parents = sorted_parents, payload_hash = ph, creator_did = creator,
          node_timestamp = ts, node_signature = sign_fn (hash_bytes h)\<rparr>)"

definition add_node :: "dag_node \<Rightarrow> dag \<Rightarrow> dag" where
  "add_node node d =
     \<lparr>dag_nodes = bm_insert (node_hash node) node (dag_nodes d),
      dag_children = bm_upd_default bs_empty id (node_hash node)
        (fold (bm_upd_default bs_empty (bs_insert (node_hash node))) (node_parents node) (dag_children d))\<rparr>"

text \<open>
  \<open>append\<close> mutates the graph and the clock: the result carries both. The clock ticks before the
  duplicate check, so it has advanced also when \<open>NodeAlreadyExists\<close> is returned.
\<close>

definition check_parents :: "dag \<Rightarrow> hash256 list \<Rightarrow> (unit, dag_error) result" where
  "check_parents d = for_check (\<lambda>p. if bm_contains (dag_nodes d) p then Ok () else Err (ParentNotFound p))"

definition dag_append ::
  "blake3 \<Rightarrow> dag \<Rightarrow> hash256 list \<Rightarrow> bytes \<Rightarrow> did \<Rightarrow> (bytes \<Rightarrow> signature) \<Rightarrow> dag_clock \<Rightarrow>
     (dag_node, dag_error) result \<times> dag \<times> dag_clock" where
  "dag_append blake3 d parents payload creator sign_fn clock =
     (if parents = [] \<and> \<not> dag_is_empty d then (Err EmptyParents, d, clock)
      else case check_parents d parents of
        Inl e \<Rightarrow> (Err e, d, clock)
      | Inr _ \<Rightarrow>
        let (clock', ts) = dclock_tick clock;
            node = new_node blake3 parents payload creator sign_fn ts
        in if bm_contains (dag_nodes d) (node_hash node)
           then (Err (NodeAlreadyExists (node_hash node)), d, clock')
           else (Ok node, add_node node d, clock'))"

definition dag_get :: "dag \<Rightarrow> hash256 \<Rightarrow> dag_node option" where
  "dag_get d h = bm_get (dag_nodes d) h"

definition dag_tips :: "dag \<Rightarrow> hash256 list" where
  "dag_tips d = sort (filter (\<lambda>h. case bm_get (dag_children d) h of
       None \<Rightarrow> True | Some cs \<Rightarrow> bm_is_empty cs) (bm_keys (dag_nodes d)))"

section \<open>Ancestors\<close>

text \<open>The parents recorded for a hash; none when the graph has no such node.\<close>

definition parents_of :: "dag \<Rightarrow> hash256 \<Rightarrow> hash256 list" where
  "parents_of d h = (case bm_get (dag_nodes d) h of None \<Rightarrow> [] | Some n \<Rightarrow> node_parents n)"

text \<open>\<open>if visited.insert(p) then queue.push_back(p)\<close> for each parent.\<close>

fun visit :: "hash256 list \<Rightarrow> hash256 btree_set \<Rightarrow> hash256 list \<Rightarrow> hash256 btree_set \<times> hash256 list" where
  "visit [] visited queue = (visited, queue)"
| "visit (p # ps) visited queue =
     (if bs_contains visited p then visit ps visited queue
      else visit ps (bs_insert p visited) (queue @ [p]))"

definition all_parents :: "dag \<Rightarrow> hash256 set" where
  "all_parents d = (\<Union>n \<in> set (bm_values (dag_nodes d)). set (node_parents n))"

lemma finite_all_parents [simp]: "finite (all_parents d)"
  by (simp add: all_parents_def)

lemma parents_of_subset: "set (parents_of d h) \<subseteq> all_parents d"
  by (cases "bm_get (dag_nodes d) h") (auto simp: parents_of_def all_parents_def set_bm_values)

definition visited_set :: "hash256 btree_set \<Rightarrow> hash256 set" where
  "visited_set v = {h. bs_contains v h}"

lemma visited_set_simps [simp]:
  "visited_set bs_empty = {}"
  "visited_set (bs_insert h v) = insert h (visited_set v)"
  by (auto simp: visited_set_def)

lemma bs_contains_visited_set: "bs_contains v h \<longleftrightarrow> h \<in> visited_set v"
  by (simp add: visited_set_def)

lemma visit_measure:
  assumes "visit ps v q = (v', q')" and "finite U" and "set ps \<subseteq> U"
  shows "card (U - visited_set v') + length q' = card (U - visited_set v) + length q"
  using assms
proof (induction ps v q rule: visit.induct)
  case (2 p ps v q)
  show ?case
  proof (cases "bs_contains v p")
    case False
    with 2(4,5) have "p \<in> U - visited_set v" "finite (U - visited_set v)"
      by (auto simp: visited_set_def)
    then have "card (U - visited_set v) = Suc (card (U - insert p (visited_set v)))"
      by (metis Diff_insert card_Suc_Diff1)
    with 2 False show ?thesis by simp
  qed (use 2 in simp)
qed simp

function bfs :: "dag \<Rightarrow> hash256 btree_set \<Rightarrow> hash256 list \<Rightarrow> hash256 btree_set" where
  "bfs d visited [] = visited"
| "bfs d visited (current # queue) =
     (let (visited', queue') = visit (parents_of d current) visited queue in bfs d visited' queue')"
  by pat_completeness auto
termination
proof (relation "measure (\<lambda>(d, v, q). card (all_parents d - visited_set v) + length q)")
  fix d v current queue x v' q'
  assume "x = visit (parents_of d current) v queue" and "(v', q') = x"
  then have "visit (parents_of d current) v queue = (v', q')" by simp
  from visit_measure [OF this finite_all_parents parents_of_subset]
  show "((d, v', q'), (d, v, current # queue))
      \<in> measure (\<lambda>(d, v, q). card (all_parents d - visited_set v) + length q)"
    by simp
qed simp

text \<open>
  The Kahn sort over a subset of the hashes. \<open>kahn_edges\<close> builds the adjacency lists and the
  in-degrees, \<open>relax\<close> is the loop over the neighbours of one node, and \<open>kahn_loop\<close> the queue loop.
  The loop pops each hash at most once, so fuel for as many rounds as there are hashes empties the
  queue (\<open>topological_sort_fuel\<close> below).
\<close>

definition init_degrees :: "hash256 list \<Rightarrow> (hash256, nat) btree_map" where
  "init_degrees hs = fold (bm_upd_default 0 id) hs bm_empty"

definition init_adj :: "hash256 list \<Rightarrow> (hash256, hash256 list) btree_map" where
  "init_adj hs = fold (bm_upd_default [] id) hs bm_empty"

definition kahn_edge ::
  "hash256 btree_set \<Rightarrow> hash256 \<Rightarrow> hash256 \<Rightarrow>
     (hash256, hash256 list) btree_map \<times> (hash256, nat) btree_map \<Rightarrow>
     (hash256, hash256 list) btree_map \<times> (hash256, nat) btree_map" where
  "kahn_edge hash_set h p = (\<lambda>(adj, in_degree).
     if bs_contains hash_set p
     then (bm_upd_default [] (\<lambda>cs. cs @ [h]) p adj, bm_upd_default 0 Suc h in_degree)
     else (adj, in_degree))"

definition kahn_edges ::
  "dag \<Rightarrow> hash256 btree_set \<Rightarrow>
     (hash256, hash256 list) btree_map \<times> (hash256, nat) btree_map" where
  "kahn_edges d hash_set =
     fold (\<lambda>h. fold (kahn_edge hash_set h) (parents_of d h)) (bs_elems hash_set)
       (init_adj (bs_elems hash_set), init_degrees (bs_elems hash_set))"

fun relax :: "hash256 list \<Rightarrow> (hash256, nat) btree_map \<Rightarrow> hash256 list \<Rightarrow>
    (hash256, nat) btree_map \<times> hash256 list" where
  "relax [] in_degree batch = (in_degree, batch)"
| "relax (n # ns) in_degree batch = (case bm_get in_degree n of
     None \<Rightarrow> relax ns in_degree batch
   | Some deg \<Rightarrow>
       relax ns (bm_insert n (deg - 1) in_degree) (if deg - 1 = 0 then batch @ [n] else batch))"

fun kahn_loop :: "nat \<Rightarrow> (hash256, hash256 list) btree_map \<Rightarrow> (hash256, nat) btree_map \<Rightarrow>
    hash256 list \<Rightarrow> hash256 list \<Rightarrow> hash256 list \<times> hash256 list" where
  "kahn_loop fuel adj in_degree [] res = ([], res)"
| "kahn_loop 0 adj in_degree queue res = (queue, res)"
| "kahn_loop (Suc fuel) adj in_degree (current # queue) res =
     (let neighbors = (case bm_get adj current of None \<Rightarrow> [] | Some ns \<Rightarrow> ns);
          (in_degree', next_batch) = relax neighbors in_degree []
      in kahn_loop fuel adj in_degree' (queue @ sort next_batch) (res @ [current]))"

definition kahn_roots :: "(hash256, nat) btree_map \<Rightarrow> hash256 list" where
  "kahn_roots in_degree = sort (map fst (filter (\<lambda>(h, deg). deg = 0) (entries in_degree)))"

definition topological_run :: "nat \<Rightarrow> dag \<Rightarrow> hash256 list \<Rightarrow> hash256 list \<times> hash256 list" where
  "topological_run fuel d hashes =
     (let hash_set = bs_from_list hashes;
          (adj, in_degree) = kahn_edges d hash_set
      in kahn_loop fuel adj in_degree (kahn_roots in_degree) [])"

definition topological_sort :: "dag \<Rightarrow> hash256 list \<Rightarrow> hash256 list" where
  "topological_sort d hashes = snd (topological_run (length hashes) d hashes)"

definition ancestors :: "dag \<Rightarrow> hash256 \<Rightarrow> hash256 list" where
  "ancestors d h =
     (let (visited, queue) = visit (parents_of d h) bs_empty [];
          visited' = bfs d visited queue
      in topological_sort d (bs_elems visited'))"

section \<open>Node verification\<close>

definition verify_node ::
  "blake3 \<Rightarrow> dag \<Rightarrow> dag_node \<Rightarrow> (bytes \<Rightarrow> signature \<Rightarrow> bool) \<Rightarrow> (unit, dag_error) result" where
  "verify_node blake3 d node verify_fn =
     (if sort_dedup (node_parents node) \<noteq> node_parents node
      then Err (DagInvalidSignature (node_hash node))
      else if compute_node_hash blake3 (node_parents node) (payload_hash node) (creator_did node)
                (node_timestamp node) \<noteq> node_hash node
      then Err (DagInvalidSignature (node_hash node))
      else and_then
        (check_parents d (node_parents node))
        (\<lambda>_. if \<not> verify_fn (hash_bytes (node_hash node)) (node_signature node)
             then Err (DagInvalidSignature (node_hash node))
             else if node_parents node \<noteq> [] \<and>
                     node_hash node \<in> set (ancestors d (node_hash node))
             then Err (CycleDetected (node_hash node))
             else Ok ()))"

section \<open>The search visits the strict ancestors\<close>

definition parent_rel :: "dag \<Rightarrow> (hash256 \<times> hash256) set" where
  "parent_rel d = {(h, p). p \<in> set (parents_of d h)}"

lemma visit_sets:
  "visit ps v q = (v', q') \<Longrightarrow>
     visited_set v' = visited_set v \<union> set ps \<and> set q' = set q \<union> (set ps - visited_set v)"
  by (induction ps v q rule: visit.induct)
     (auto simp: bs_contains_visited_set split: if_splits)

lemma bfs_mono: "visited_set v \<subseteq> visited_set (bfs d v q)"
proof (induction d v q rule: bfs.induct)
  case (2 d v current queue)
  obtain v' q' where "visit (parents_of d current) v queue = (v', q')"
    by (cases "visit (parents_of d current) v queue")
  with 2 visit_sets show ?case by fastforce
qed simp

lemma bfs_closed:
  "\<forall>x \<in> visited_set v - set q. set (parents_of d x) \<subseteq> visited_set v \<Longrightarrow>
     \<forall>x \<in> visited_set (bfs d v q). set (parents_of d x) \<subseteq> visited_set (bfs d v q)"
proof (induction d v q rule: bfs.induct)
  case (2 d v current queue)
  obtain v' q' where v: "visit (parents_of d current) v queue = (v', q')"
    by (cases "visit (parents_of d current) v queue")
  with 2(2) visit_sets [OF v]
  have "\<forall>x \<in> visited_set v' - set q'. set (parents_of d x) \<subseteq> visited_set v'" by auto
  from 2(1) [OF v [symmetric] refl this] v show ?case by simp
qed simp

lemma bfs_sound: "visited_set (bfs d v q) \<subseteq> visited_set v \<union> (parent_rel d)\<^sup>+ `` set q"
proof (induction d v q rule: bfs.induct)
  case (2 d v current queue)
  obtain v' q' where v: "visit (parents_of d current) v queue = (v', q')"
    by (cases "visit (parents_of d current) v queue")
  have P: "y \<in> set (parents_of d current) \<Longrightarrow> (current, y) \<in> (parent_rel d)\<^sup>+" for y
    by (auto simp: parent_rel_def)
  then have PR: "y \<in> set (parents_of d current) \<Longrightarrow> (y, x) \<in> (parent_rel d)\<^sup>+ \<Longrightarrow>
      (current, x) \<in> (parent_rel d)\<^sup>+" for x y
    by (meson trancl_trans)
  have "visited_set v' \<union> (parent_rel d)\<^sup>+ `` set q' \<subseteq>
      visited_set v \<union> (parent_rel d)\<^sup>+ `` set (current # queue)"
    using visit_sets [OF v] by (auto intro: P PR)
  from subset_trans [OF 2 [OF v [symmetric] refl] this] v show ?case by simp
qed simp

definition strict_ancestors :: "dag \<Rightarrow> hash256 \<Rightarrow> hash256 set" where
  "strict_ancestors d h = (parent_rel d)\<^sup>+ `` {h}"

lemma bfs_strict_ancestors:
  assumes "visit (parents_of d h) bs_empty [] = (v, q)"
  shows "visited_set (bfs d v q) = strict_ancestors d h"
proof
  from visit_sets [OF assms] have V: "visited_set v = set (parents_of d h)" "set q = set (parents_of d h)"
    by simp_all
  then have "visited_set v \<union> (parent_rel d)\<^sup>+ `` set q \<subseteq> strict_ancestors d h"
    unfolding strict_ancestors_def parent_rel_def by (auto intro: trancl_into_trancl2)
  with bfs_sound show "visited_set (bfs d v q) \<subseteq> strict_ancestors d h" by blast
  have closed: "\<forall>x \<in> visited_set (bfs d v q). set (parents_of d x) \<subseteq> visited_set (bfs d v q)"
    using V by (intro bfs_closed) simp
  have "(h, x) \<in> (parent_rel d)\<^sup>+ \<Longrightarrow> x \<in> visited_set (bfs d v q)" for x
  proof (induction rule: trancl_induct)
    case (base y)
    with V bfs_mono show ?case by (fastforce simp: parent_rel_def)
  next
    case (step y z)
    with closed show ?case by (fastforce simp: parent_rel_def)
  qed
  then show "strict_ancestors d h \<subseteq> visited_set (bfs d v q)"
    by (auto simp: strict_ancestors_def)
qed

section \<open>The Kahn sort\<close>

text \<open>
  What the edge loop establishes: the adjacency list of \<open>p\<close> contains \<open>n\<close> as often as \<open>p\<close> occurs
  among the parents of \<open>n\<close>, and the degree of \<open>n\<close> counts its parents in the subset.
\<close>

definition edges_ok ::
  "hash256 btree_set \<Rightarrow> (hash256 \<Rightarrow> hash256 \<Rightarrow> nat) \<Rightarrow> (hash256 \<Rightarrow> nat) \<Rightarrow>
     (hash256, hash256 list) btree_map \<times> (hash256, nat) btree_map \<Rightarrow> bool" where
  "edges_ok S f g = (\<lambda>(adj, deg).
     (\<forall>p. bs_contains S p \<longrightarrow> (\<exists>ns. bm_get adj p = Some ns \<and> (\<forall>n. count_list ns n = f p n))) \<and>
     (\<forall>n. bm_get deg n = (if bs_contains S n then Some (g n) else None)))"

lemma bm_get_fold_default:
  "bm_get (fold (bm_upd_default dflt id) ks m) k =
     (if k \<in> set ks then Some (case bm_get m k of None \<Rightarrow> dflt | Some v \<Rightarrow> v) else bm_get m k)"
  by (induction ks arbitrary: m) auto

lemma edges_ok_init:
  "edges_ok S (\<lambda>_ _. 0) (\<lambda>_. 0) (init_adj (bs_elems S), init_degrees (bs_elems S))"
  by (auto simp: edges_ok_def init_adj_def init_degrees_def bm_get_fold_default set_bm_keys)

lemma edges_ok_cong:
  "edges_ok S f g x \<Longrightarrow> (\<And>p n. f p n = f' p n) \<Longrightarrow> (\<And>n. g n = g' n) \<Longrightarrow> edges_ok S f' g' x"
  by (cases x) (simp add: edges_ok_def)

lemma edges_ok_edge:
  assumes "edges_ok S f g x" and "bs_contains S h"
  shows "edges_ok S (\<lambda>q n. f q n + (if n = h \<and> bs_contains S p \<and> q = p then 1 else 0))
           (\<lambda>n. g n + (if n = h \<and> bs_contains S p then 1 else 0)) (kahn_edge S h p x)"
proof (cases x)
  case (Pair adj deg)
  with assms show ?thesis
    by (auto simp: edges_ok_def kahn_edge_def)
qed

lemma edges_ok_inner:
  assumes "edges_ok S f g x" and "bs_contains S h"
  shows "edges_ok S (\<lambda>q n. f q n + (if n = h \<and> bs_contains S q then count_list ps q else 0))
           (\<lambda>n. g n + (if n = h then length (filter (bs_contains S) ps) else 0))
           (fold (kahn_edge S h) ps x)"
  using assms
proof (induction ps arbitrary: f g x)
  case (Cons p ps)
  from Cons.IH [OF edges_ok_edge [OF Cons.prems, of p] Cons.prems(2)]
  show ?case by (auto elim!: edges_ok_cong)
qed (auto elim: edges_ok_cong)

lemma edges_ok_outer:
  assumes "edges_ok S f g x" and "\<forall>h \<in> set hs. bs_contains S h" and "distinct hs"
  shows "edges_ok S (\<lambda>q n. f q n + (if n \<in> set hs \<and> bs_contains S q then count_list (parents_of d n) q else 0))
           (\<lambda>n. g n + (if n \<in> set hs then length (filter (bs_contains S) (parents_of d n)) else 0))
           (fold (\<lambda>h. fold (kahn_edge S h) (parents_of d h)) hs x)"
  using assms
proof (induction hs arbitrary: f g x)
  case (Cons h hs)
  from Cons.prems have "bs_contains S h" by simp
  from Cons.IH [OF edges_ok_inner [OF Cons.prems(1) this, of "parents_of d h"]] Cons.prems
  show ?case by (auto elim!: edges_ok_cong)
qed (auto elim: edges_ok_cong)

lemma kahn_edges_ok:
  "edges_ok S (\<lambda>q n. if bs_contains S n \<and> bs_contains S q then count_list (parents_of d n) q else 0)
     (\<lambda>n. length (filter (bs_contains S) (parents_of d n))) (kahn_edges d S)"
proof -
  have "edges_ok S
      (\<lambda>q n. 0 + (if n \<in> set (bs_elems S) \<and> bs_contains S q then count_list (parents_of d n) q else 0))
      (\<lambda>n. 0 + (if n \<in> set (bs_elems S) then length (filter (bs_contains S) (parents_of d n)) else 0))
      (kahn_edges d S)"
    unfolding kahn_edges_def
    by (rule edges_ok_outer [OF edges_ok_init]) (auto simp: set_bm_keys ssorted_imp_distinct)
  then show ?thesis
    by (auto simp: edges_ok_def set_bm_keys)
qed

lemma relax_degrees:
  "relax ns deg batch = (deg', batch') \<Longrightarrow>
     bm_get deg' n = map_option (\<lambda>k. k - count_list ns n) (bm_get deg n)"
proof (induction ns deg batch rule: relax.induct)
  case (2 m ns deg batch)
  then show ?case
    by (cases "bm_get deg m") (auto simp: option.map_comp comp_def split: if_splits)
qed (simp add: option.map_ident)

lemma relax_batch:
  assumes "relax ns deg batch = (deg', batch')"
    and "\<forall>n \<in> set ns. \<exists>k. bm_get deg n = Some k \<and> count_list ns n \<le> k"
    and "distinct batch" and "set batch \<inter> set ns = {}"
  shows "distinct batch' \<and> set batch' = set batch \<union> {n \<in> set ns. bm_get deg n = Some (count_list ns n)}"
  using assms
proof (induction ns deg batch rule: relax.induct)
  case (2 n ns deg batch)
  from 2(4) obtain k where k: "bm_get deg n = Some k" "count_list ns n + 1 \<le> k" by auto
  let ?deg = "bm_insert n (k - 1) deg" and ?batch = "if k - 1 = 0 then batch @ [n] else batch"
  from k have "k - 1 = 0 \<Longrightarrow> count_list ns n = 0" by simp
  then have notin: "k - 1 = 0 \<Longrightarrow> n \<notin> set ns" by (simp add: count_list_0_iff)
  have "distinct batch' \<and> set batch' = set ?batch \<union> {m \<in> set ns. bm_get ?deg m = Some (count_list ns m)}"
  proof (rule 2(2) [OF k(1)])
    show "relax ns ?deg ?batch = (deg', batch')"
      using 2(3) k(1) by simp
    show "\<forall>m \<in> set ns. \<exists>j. bm_get ?deg m = Some j \<and> count_list ns m \<le> j"
      using 2(4) k by (auto split: if_splits)
  qed (use 2(5,6) notin in auto)
  moreover have "set ?batch \<union> {m \<in> set ns. bm_get ?deg m = Some (count_list ns m)} =
      set batch \<union> {m \<in> set (n # ns). bm_get deg m = Some (count_list (n # ns) m)}"
    using k notin by (auto simp: count_list_0_iff)
  ultimately show ?case by simp
qed simp

text \<open>
  The loop invariant: degrees count the parents not yet emitted, the emitted and queued hashes are
  distinct and are exactly those with no parent left to emit, and what is emitted is in
  topological order.
\<close>

definition open_parents :: "dag \<Rightarrow> hash256 btree_set \<Rightarrow> hash256 list \<Rightarrow> hash256 \<Rightarrow> hash256 list" where
  "open_parents d S res n = filter (\<lambda>p. bs_contains S p \<and> p \<notin> set res) (parents_of d n)"

definition topo_ordered :: "dag \<Rightarrow> hash256 btree_set \<Rightarrow> hash256 list \<Rightarrow> bool" where
  "topo_ordered d S xs \<longleftrightarrow>
     (\<forall>i < length xs. \<forall>p \<in> set (parents_of d (xs ! i)). bs_contains S p \<longrightarrow> p \<in> set (take i xs))"

lemma topo_ordered_snoc:
  "topo_ordered d S (xs @ [x]) \<longleftrightarrow>
     topo_ordered d S xs \<and> (\<forall>p \<in> set (parents_of d x). bs_contains S p \<longrightarrow> p \<in> set xs)"
  unfolding topo_ordered_def by (auto simp: nth_append less_Suc_eq)

definition kahn_inv ::
  "dag \<Rightarrow> hash256 btree_set \<Rightarrow> (hash256, nat) btree_map \<Rightarrow> hash256 list \<Rightarrow> hash256 list \<Rightarrow> bool" where
  "kahn_inv d S deg queue res \<longleftrightarrow>
     (\<forall>n. bm_get deg n = (if bs_contains S n then Some (length (open_parents d S res n)) else None)) \<and>
     distinct (res @ queue) \<and>
     set (res @ queue) = {n. bs_contains S n \<and> open_parents d S res n = []} \<and>
     topo_ordered d S res"

lemma open_parents_snoc:
  assumes "bs_contains S c" and "c \<notin> set res"
  shows "length (open_parents d S (res @ [c]) n) =
           length (open_parents d S res n) - count_list (parents_of d n) c"
    and "count_list (parents_of d n) c \<le> length (open_parents d S res n)"
proof -
  have "length (filter (\<lambda>p. bs_contains S p \<and> p \<notin> set res) ps) =
      length (filter (\<lambda>p. bs_contains S p \<and> p \<notin> set (res @ [c])) ps) + count_list ps c" for ps
    using assms by (induction ps) auto
  then show "length (open_parents d S (res @ [c]) n) =
      length (open_parents d S res n) - count_list (parents_of d n) c"
    and "count_list (parents_of d n) c \<le> length (open_parents d S res n)"
    by (simp_all add: open_parents_def)
qed

lemma kahn_inv_step:
  assumes inv: "kahn_inv d S deg (c # queue) res"
    and adj: "\<forall>n. count_list ns n = (if bs_contains S n then count_list (parents_of d n) c else 0)"
    and rel: "relax ns deg [] = (deg', batch)"
  shows "kahn_inv d S deg' (queue @ sort batch) (res @ [c])"
proof -
  from inv have deg: "bm_get deg n =
        (if bs_contains S n then Some (length (open_parents d S res n)) else None)" for n
    by (simp add: kahn_inv_def)
  from inv have dist: "distinct (res @ c # queue)"
    and fin: "set (res @ c # queue) = {n. bs_contains S n \<and> open_parents d S res n = []}"
    and topo: "topo_ordered d S res"
    by (simp_all add: kahn_inv_def)
  from fin dist have c: "bs_contains S c" "c \<notin> set res" "open_parents d S res c = []" by auto
  note op = open_parents_snoc [OF c(1,2), of d]
  have ns: "n \<in> set ns \<longleftrightarrow> bs_contains S n \<and> c \<in> set (parents_of d n)" for n
    using adj [rule_format, of n] count_list_0_iff [of ns n] count_list_0_iff [of "parents_of d n" c]
    by (auto split: if_splits)
  have deg': "bm_get deg' n =
      (if bs_contains S n then Some (length (open_parents d S (res @ [c]) n)) else None)" for n
    using relax_degrees [OF rel, of n] adj by (simp add: deg op(1))
  have batch: "distinct batch \<and> set batch = {n \<in> set ns. bm_get deg n = Some (count_list ns n)}"
    using relax_batch [OF rel] op(2) adj ns deg by simp
  have new: "open_parents d S res n \<noteq> []" if "n \<in> set ns" for n
    using op(2) [of n] ns [of n] that count_list_0_iff [of "parents_of d n" c] by auto
  have batch': "n \<in> set batch \<longleftrightarrow>
      bs_contains S n \<and> open_parents d S res n \<noteq> [] \<and> open_parents d S (res @ [c]) n = []" for n
  proof -
    have "count_list (parents_of d n) c = 0 \<longleftrightarrow> c \<notin> set (parents_of d n)"
      by (rule count_list_0_iff)
    moreover have "open_parents d S (res @ [c]) n = [] \<longleftrightarrow>
        length (open_parents d S res n) \<le> count_list (parents_of d n) c"
      using op(1) [of n] by (metis diff_is_0_eq length_0_conv)
    ultimately show ?thesis
      using batch deg [of n] adj [rule_format, of n] op(2) [of n] ns [of n] new [of n] by auto
  qed
  have old: "open_parents d S (res @ [c]) n = []" if "open_parents d S res n = []" for n
    using that op(1) [of n] by simp
  have "topo_ordered d S (res @ [c])"
    using topo c(3) by (auto simp: topo_ordered_snoc open_parents_def filter_empty_conv)
  moreover have "distinct ((res @ [c]) @ queue @ sort batch)"
    using dist fin batch batch' by auto
  moreover have "set ((res @ [c]) @ queue @ sort batch) =
      {n. bs_contains S n \<and> open_parents d S (res @ [c]) n = []}"
    using fin batch' old by auto
  ultimately show ?thesis
    using deg' by (simp add: kahn_inv_def)
qed

lemma kahn_inv_card:
  assumes "kahn_inv d S deg queue res"
  shows "length res + length queue \<le> bm_len S"
proof -
  from assms have "distinct (res @ queue)" "set (res @ queue) \<subseteq> {n. bs_contains S n}"
    by (auto simp: kahn_inv_def)
  then have "length (res @ queue) \<le> card {n. bs_contains S n}"
    by (metis card_mono distinct_card finite_bm_contains)
  then show ?thesis by (simp add: bm_len_card)
qed

definition adj_ok :: "dag \<Rightarrow> hash256 btree_set \<Rightarrow> (hash256, hash256 list) btree_map \<Rightarrow> bool" where
  "adj_ok d S adj \<longleftrightarrow> (\<forall>p. bs_contains S p \<longrightarrow> (\<exists>ns. bm_get adj p = Some ns \<and>
     (\<forall>n. count_list ns n = (if bs_contains S n then count_list (parents_of d n) p else 0))))"

lemma kahn_loop_inv:
  assumes "kahn_inv d S deg queue res" and "bm_len S \<le> length res + fuel" and "adj_ok d S adj"
  shows "\<exists>deg' res'. kahn_loop fuel adj deg queue res = ([], res') \<and> kahn_inv d S deg' [] res'"
  using assms
proof (induction fuel adj deg queue res rule: kahn_loop.induct)
  case (2 adj deg c queue res)
  from kahn_inv_card [OF 2(1)] 2(2) show ?case by simp
next
  case (3 fuel adj deg c queue res)
  from 3(2) have "bs_contains S c" by (auto simp: kahn_inv_def)
  with 3(4) obtain ns where ns: "bm_get adj c = Some ns"
    "\<forall>n. count_list ns n = (if bs_contains S n then count_list (parents_of d n) c else 0)"
    by (auto simp: adj_ok_def)
  obtain deg' batch where rel: "relax ns deg [] = (deg', batch)" by (cases "relax ns deg []")
  have "\<exists>deg'' res'. kahn_loop fuel adj deg' (queue @ sort batch) (res @ [c]) = ([], res') \<and>
      kahn_inv d S deg'' [] res'"
    using 3(3,4) kahn_inv_step [OF 3(2) ns(2) rel]
    by (intro 3(1) [of ns "relax ns deg []"]) (simp_all add: ns(1) rel)
  then show ?case by (simp add: ns(1) rel)
qed auto

lemma kahn_loop_more:
  "fst (kahn_loop fuel adj deg queue res) = [] \<Longrightarrow>
     kahn_loop (fuel + k) adj deg queue res = kahn_loop fuel adj deg queue res"
proof (induction fuel adj deg queue res rule: kahn_loop.induct)
  case (1 fuel adj deg res)
  then show ?case by (cases "fuel + k") simp_all
qed (auto simp: Let_def split: prod.splits)

lemma kahn_roots_inv:
  assumes "kahn_edges d S = (adj, deg)"
  shows "kahn_inv d S deg (kahn_roots deg) []"
proof -
  from kahn_edges_ok [of S d] assms
  have deg: "bm_get deg n = (if bs_contains S n then Some (length (filter (bs_contains S) (parents_of d n))) else None)" for n
    by (simp add: edges_ok_def)
  have "set (kahn_roots deg) = {n. bm_get deg n = Some 0}"
    by (force simp: kahn_roots_def simp flip: set_entries)
  moreover have "distinct (map fst (filter (\<lambda>(h, deg). deg = 0) (entries deg)))"
    by (simp add: distinct_map_filter)
  ultimately show ?thesis
    using deg by (auto simp: kahn_inv_def open_parents_def topo_ordered_def kahn_roots_def)
qed

lemma topological_run_inv:
  assumes "length hashes \<le> fuel"
  shows "\<exists>deg res. topological_run fuel d hashes = ([], res) \<and> kahn_inv d (bs_from_list hashes) deg [] res"
proof -
  let ?S = "bs_from_list hashes"
  obtain adj deg where e: "kahn_edges d ?S = (adj, deg)" by (cases "kahn_edges d ?S")
  have "bm_len ?S = length (sort_dedup hashes)"
    by (simp flip: length_bm_keys add: bs_elems_from_list)
  also have "\<dots> \<le> length hashes"
    by (simp add: sort_dedup_def) (metis length_sort remdups_adj_length)
  finally have "bm_len ?S \<le> length [] + fuel" using assms by simp
  moreover have "adj_ok d ?S adj"
    using kahn_edges_ok [of ?S d] e by (simp add: adj_ok_def edges_ok_def cong: conj_cong)
  ultimately show ?thesis
    using kahn_loop_inv [OF kahn_roots_inv [OF e], of fuel adj] e by (simp add: topological_run_def)
qed

text \<open>The fuel of \<open>topological_sort\<close> empties the queue, on every graph, and more changes nothing.\<close>

lemma topological_sort_fuel:
  assumes "length hashes \<le> fuel"
  shows "topological_run fuel d hashes = ([], topological_sort d hashes)"
proof -
  from topological_run_inv [of hashes "length hashes" d] obtain res where
    r: "topological_run (length hashes) d hashes = ([], res)" by auto
  from assms obtain k where "fuel = length hashes + k" by (auto dest: le_Suc_ex)
  with r show ?thesis
    by (auto simp: topological_sort_def topological_run_def Let_def kahn_loop_more split: prod.splits)
qed

lemma parents_of_contains: "p \<in> set (parents_of d h) \<Longrightarrow> bm_contains (dag_nodes d) h"
  by (cases "bm_get (dag_nodes d) h") (auto simp: parents_of_def bm_contains_def)

lemma finite_parent_rel: "finite (parent_rel d)"
proof (rule finite_subset)
  show "parent_rel d \<subseteq> {h. bm_contains (dag_nodes d) h} \<times> all_parents d"
    using parents_of_subset parents_of_contains by (auto simp: parent_rel_def)
qed simp

text \<open>On an acyclic graph the sort emits every hash of the subset, parents first.\<close>

lemma topological_sort_correct:
  assumes "acyclic (parent_rel d)"
  shows "distinct (topological_sort d hashes)"
    and "set (topological_sort d hashes) = set hashes"
    and "topo_ordered d (bs_from_list hashes) (topological_sort d hashes)"
proof -
  let ?S = "bs_from_list hashes" and ?res = "topological_sort d hashes"
  from topological_run_inv [of hashes "length hashes" d] obtain deg where
    inv: "kahn_inv d ?S deg [] ?res" by (auto simp: topological_sort_def)
  then show "distinct ?res" "topo_ordered d ?S ?res" by (simp_all add: kahn_inv_def)
  from inv have fin: "set ?res = {n. n \<in> set hashes \<and> open_parents d ?S ?res n = []}"
    by (simp add: kahn_inv_def)
  have "set hashes - set ?res = {}"
  proof (rule ccontr)
    assume ne: "set hashes - set ?res \<noteq> {}"
    have "wf ((parent_rel d)\<inverse>)"
      using finite_parent_rel assms by (rule finite_acyclic_wf_converse)
    moreover have "wf (parent_rel d)"
      using finite_parent_rel assms by (rule finite_acyclic_wf)
    ultimately obtain n where n: "n \<in> set hashes - set ?res"
      "\<And>p. (n, p) \<in> parent_rel d \<Longrightarrow> p \<notin> set hashes - set ?res"
      using ne by (meson wfE_min converse_iff ex_in_conv)
    then have "open_parents d ?S ?res n = []"
      by (auto simp: open_parents_def filter_empty_conv parent_rel_def)
    with n(1) fin show False by simp
  qed
  with fin show "set ?res = set hashes" by auto
qed

section \<open>What append does\<close>

text \<open>The children index after a new node, and the parents each hash then has.\<close>

lemma bm_get_fold_children:
  "bm_get (fold (bm_upd_default bs_empty (bs_insert h)) ps m) k =
     (if k \<in> set ps then Some (bs_insert h (case bm_get m k of None \<Rightarrow> bs_empty | Some cs \<Rightarrow> cs))
      else bm_get m k)"
proof (induction ps arbitrary: m)
  case (Cons p ps)
  have "bs_insert h (bs_insert h cs) = bs_insert h cs" for cs
    by (rule bs_eqI) simp
  with Cons show ?case by simp
qed simp

lemma check_parents_Ok: "check_parents d ps = Inr u \<longleftrightarrow> (\<forall>p \<in> set ps. bm_contains (dag_nodes d) p)"
  unfolding check_parents_def by (cases u) (simp add: for_check_Ok)

lemma dag_append_Ok_iff:
  "dag_append blake3 d parents payload creator sign_fn clock = (Ok node, d', clock') \<longleftrightarrow>
     (parents = [] \<longrightarrow> dag_is_empty d) \<and> (\<forall>p \<in> set parents. bm_contains (dag_nodes d) p) \<and>
     \<not> bm_contains (dag_nodes d) (node_hash node) \<and>
     node = new_node blake3 parents payload creator sign_fn (snd (dclock_tick clock)) \<and>
     d' = add_node node d \<and> clock' = fst (dclock_tick clock)"
  unfolding check_parents_Ok [of d parents "()", symmetric] dag_append_def
  by (auto simp: Let_def split: sum.splits prod.splits if_splits)

lemma dag_append_Err:
  "dag_append blake3 d parents payload creator sign_fn clock = (Err e, d', clock') \<Longrightarrow> d' = d"
  unfolding dag_append_def by (auto simp: Let_def split: sum.splits prod.splits if_splits)

lemma parents_of_add: "parents_of (add_node node d) x =
    (if x = node_hash node then node_parents node else parents_of d x)"
  by (simp add: parents_of_def add_node_def)

section \<open>Reachable graphs\<close>

inductive dag_reach :: "blake3 \<Rightarrow> dag \<Rightarrow> bool" for blake3 where
  dag_start: "dag_reach blake3 dag_new"
| dag_step: "dag_reach blake3 d \<Longrightarrow>
    dag_append blake3 d parents payload creator sign_fn clock = (r, d', clock') \<Longrightarrow>
    dag_reach blake3 d'"

definition node_ok :: "blake3 \<Rightarrow> dag \<Rightarrow> hash256 \<Rightarrow> dag_node \<Rightarrow> bool" where
  "node_ok blake3 d h n \<longleftrightarrow>
     node_hash n = h \<and>
     compute_node_hash blake3 (node_parents n) (payload_hash n) (creator_did n) (node_timestamp n) = h \<and>
     ssorted (node_parents n) \<and> (\<forall>p \<in> set (node_parents n). bm_contains (dag_nodes d) p)"

definition dag_inv :: "blake3 \<Rightarrow> dag \<Rightarrow> bool" where
  "dag_inv blake3 d \<longleftrightarrow>
     (\<forall>h n. dag_get d h = Some n \<longrightarrow> node_ok blake3 d h n) \<and>
     acyclic (parent_rel d) \<and>
     (\<forall>h. bm_contains (dag_children d) h \<longleftrightarrow> bm_contains (dag_nodes d) h) \<and>
     (\<forall>h cs c. bm_get (dag_children d) h = Some cs \<longrightarrow> (bs_contains cs c \<longleftrightarrow> (c, h) \<in> parent_rel d)) \<and>
     (\<forall>g h. bm_contains (dag_nodes d) g \<longrightarrow> parents_of d g = [] \<longrightarrow>
        bm_contains (dag_nodes d) h \<longrightarrow> parents_of d h = [] \<longrightarrow> g = h)"

lemma acyclic_add_source:
  assumes "acyclic r" and "h \<notin> Range r" and "h \<notin> A"
  shows "acyclic (r \<union> {h} \<times> A)"
proof -
  have "(x, y) \<in> (r \<union> {h} \<times> A)\<^sup>+ \<Longrightarrow> y \<noteq> h \<and> (x \<noteq> h \<longrightarrow> (x, y) \<in> r\<^sup>+)" for x y
    by (induction rule: trancl_induct) (use assms(2,3) in \<open>auto intro: trancl_into_trancl\<close>)
  with assms(1) show ?thesis
    unfolding acyclic_def by blast
qed

lemma parent_rel_closed:
  assumes "dag_inv blake3 d" and "(h, p) \<in> parent_rel d"
  shows "bm_contains (dag_nodes d) p"
  using assms
  by (cases "bm_get (dag_nodes d) h")
     (auto simp: dag_inv_def node_ok_def dag_get_def parent_rel_def parents_of_def)

lemma dag_inv_add:
  assumes inv: "dag_inv blake3 d"
    and ok: "node_ok blake3 d (node_hash node) node"
    and fresh: "\<not> bm_contains (dag_nodes d) (node_hash node)"
    and gen: "node_parents node = [] \<longrightarrow> dag_is_empty d"
  shows "dag_inv blake3 (add_node node d)"
proof -
  let ?h = "node_hash node" and ?d = "add_node node d"
  have nodes: "bm_get (dag_nodes ?d) x = (if x = ?h then Some node else bm_get (dag_nodes d) x)" for x
    by (simp add: add_node_def)
  have none: "parents_of d ?h = []"
    using parents_of_contains [of _ d ?h] fresh by (cases "parents_of d ?h") auto
  then have rel: "parent_rel ?d = parent_rel d \<union> {?h} \<times> set (node_parents node)"
    by (auto simp: parent_rel_def parents_of_add split: if_splits)
  have range: "?h \<notin> Range (parent_rel d)"
    using parent_rel_closed [OF inv] fresh by auto
  moreover have "?h \<notin> set (node_parents node)" using ok fresh by (auto simp: node_ok_def)
  ultimately have "acyclic (parent_rel ?d)"
    unfolding rel using inv by (intro acyclic_add_source) (simp_all add: dag_inv_def)
  moreover have "node_ok blake3 ?d x n" if "dag_get ?d x = Some n" for x n
    using that inv ok by (auto simp: dag_inv_def node_ok_def dag_get_def nodes bm_contains_def split: if_splits)
  moreover have "bm_contains (dag_children ?d) x \<longleftrightarrow> bm_contains (dag_nodes ?d) x" for x
    using inv ok by (auto simp: dag_inv_def node_ok_def bm_contains_def add_node_def bm_get_fold_children)
  moreover have "bs_contains cs c \<longleftrightarrow> (c, x) \<in> parent_rel ?d"
    if "bm_get (dag_children ?d) x = Some cs" for x cs c
  proof -
    have "bm_contains (dag_children d) x" if "x \<in> set (node_parents node)"
      using that inv ok by (auto simp: dag_inv_def node_ok_def)
    moreover have "\<not> bm_contains (dag_children d) ?h"
      using inv fresh by (simp add: dag_inv_def)
    moreover have "\<forall>cs. bm_get (dag_children d) x = Some cs \<longrightarrow> (bs_contains cs c \<longleftrightarrow> (c, x) \<in> parent_rel d)"
      using inv by (simp add: dag_inv_def)
    ultimately show ?thesis
      using that range \<open>?h \<notin> set (node_parents node)\<close> unfolding rel
      by (auto simp: bm_contains_def add_node_def bm_get_fold_children split: if_splits)
  qed
  moreover have "g = x" if "bm_contains (dag_nodes ?d) g" "parents_of ?d g = []"
    "bm_contains (dag_nodes ?d) x" "parents_of ?d x = []" for g x
    using that inv gen by (auto simp: dag_inv_def parents_of_add bm_contains_def nodes dag_is_empty_def bm_is_empty_iff split: if_splits)
  ultimately show ?thesis
    unfolding dag_inv_def by blast
qed

lemma dag_reach_inv: "dag_reach blake3 d \<Longrightarrow> dag_inv blake3 d"
proof (induction rule: dag_reach.induct)
  case dag_start
  show ?case
    by (simp add: dag_inv_def dag_new_def dag_get_def parent_rel_def parents_of_def acyclic_def)
next
  case (dag_step d parents payload creator sign_fn clock r d' clock')
  show ?case
  proof (cases r)
    case (Inr node)
    with dag_step.hyps(2)
    have "dag_append blake3 d parents payload creator sign_fn clock = (Ok node, d', clock')" by simp
    note this [unfolded dag_append_Ok_iff]
    then have D: "parents = [] \<longrightarrow> dag_is_empty d"
      "\<forall>p \<in> set parents. bm_contains (dag_nodes d) p" "\<not> bm_contains (dag_nodes d) (node_hash node)"
      "d' = add_node node d"
      "node = new_node blake3 parents payload creator sign_fn (snd (dclock_tick clock))"
      by blast+
    have ps: "node_parents node = sort_dedup parents"
      using D(5) by (simp add: new_node_def Let_def)
    have "node_ok blake3 d (node_hash node) node"
      unfolding D(5) using D(2) by (simp add: node_ok_def new_node_def Let_def)
    moreover have "node_parents node = [] \<longrightarrow> dag_is_empty d"
      using D(1) ps by (metis set_empty set_sort_dedup)
    ultimately show ?thesis
      using dag_inv_add [OF dag_step.IH] D(3,4) by simp
  qed (use dag_step dag_append_Err in blast)
qed

text \<open>
  C4: every graph built by \<open>append\<close> is a well-formed DAG: each stored node sits under its own hash,
  which is the hash of its fields, its parents are strictly sorted and stored, no node is its own
  ancestor, there is a single genesis node, and the children index lists exactly the nodes that name
  a node as parent.
\<close>

theorem reachable_dag_well_formed:
  assumes "dag_reach blake3 d"
  shows "(\<forall>h n. dag_get d h = Some n \<longrightarrow> node_ok blake3 d h n) \<and>
         (\<forall>h. h \<notin> strict_ancestors d h) \<and>
         (\<forall>g h. bm_contains (dag_nodes d) g \<longrightarrow> parents_of d g = [] \<longrightarrow>
            bm_contains (dag_nodes d) h \<longrightarrow> parents_of d h = [] \<longrightarrow> g = h) \<and>
         (\<forall>h. bm_contains (dag_nodes d) h \<longrightarrow>
            (\<exists>cs. bm_get (dag_children d) h = Some cs \<and> (\<forall>c. bs_contains cs c \<longleftrightarrow> h \<in> set (parents_of d c))))"
proof -
  from dag_reach_inv [OF assms] have inv: "dag_inv blake3 d" .
  then have "h \<notin> strict_ancestors d h" for h
    by (auto simp: dag_inv_def strict_ancestors_def acyclic_def)
  moreover have "\<exists>cs. bm_get (dag_children d) h = Some cs \<and> (\<forall>c. bs_contains cs c \<longleftrightarrow> h \<in> set (parents_of d c))"
    if "bm_contains (dag_nodes d) h" for h
  proof -
    from inv that have "bm_contains (dag_children d) h" by (simp add: dag_inv_def)
    then obtain cs where "bm_get (dag_children d) h = Some cs" by (auto simp: bm_contains_def)
    with inv show ?thesis by (auto simp: dag_inv_def parent_rel_def)
  qed
  ultimately show ?thesis
    using inv by (auto simp: dag_inv_def)
qed

text \<open>A genesis node and a child of it, with a hash that looks at the length of its input only.\<close>

definition length_hash :: blake3 where
  "length_hash bs = arr32_of [of_nat (length bs)]"

definition sample_dag :: "dag \<times> hash256" where
  "sample_dag =
     (let (r, d, c) = dag_append length_hash dag_new [] [] (Did ''a'') (\<lambda>_. SigEmpty) dclock_new;
          g = (case r of Inl _ \<Rightarrow> HASH_ZERO | Inr n \<Rightarrow> node_hash n);
          (r', d', c') = dag_append length_hash d [g, g] [1] (Did ''a'') (\<lambda>_. SigEmpty) c
      in (d', g))"

lemma sample_dag_reach: "dag_reach length_hash (fst sample_dag)"
  unfolding sample_dag_def Let_def
  by (auto split: prod.splits) (blast intro: dag_reach.intros)

lemma sample_dag_len: "dag_len (fst sample_dag) = 2"
  by code_simp

theorem reachable_dag_well_formed_witness:
  "dag_len (fst sample_dag) = 2 \<and> (\<forall>h. h \<notin> strict_ancestors (fst sample_dag) h)"
  using reachable_dag_well_formed [OF sample_dag_reach] sample_dag_len by blast

text \<open>
  C19: \<open>ancestors\<close> is correct on every graph built by \<open>append\<close>: it returns exactly the nodes
  reachable through parent links, each once, every node after all of its own parents. In particular
  the queue-based sort loses nothing, and a node is never listed among its ancestors.
\<close>

theorem ancestors_complete_and_ordered:
  assumes "dag_reach blake3 d"
  shows "set (ancestors d h) = strict_ancestors d h \<and> distinct (ancestors d h) \<and>
         h \<notin> set (ancestors d h) \<and>
         (\<forall>i < length (ancestors d h). \<forall>p \<in> set (parents_of d (ancestors d h ! i)).
            p \<in> set (take i (ancestors d h)))"
proof -
  obtain v q where v: "visit (parents_of d h) bs_empty [] = (v, q)"
    by (cases "visit (parents_of d h) bs_empty []")
  let ?es = "bs_elems (bfs d v q)"
  have anc: "ancestors d h = topological_sort d ?es"
    by (simp add: ancestors_def v)
  have es: "set ?es = strict_ancestors d h"
    using bfs_strict_ancestors [OF v] by (simp add: set_bm_keys visited_set_def)
  from dag_reach_inv [OF assms] have acyc: "acyclic (parent_rel d)" by (simp add: dag_inv_def)
  note T = topological_sort_correct [OF acyc, of ?es]
  have "p \<in> set ?es" if "x \<in> set ?es" "p \<in> set (parents_of d x)" for x p
    using that unfolding es strict_ancestors_def by (auto simp: parent_rel_def intro: trancl_into_trancl)
  then have "\<forall>i < length (ancestors d h). \<forall>p \<in> set (parents_of d (ancestors d h ! i)).
      p \<in> set (take i (ancestors d h))"
    using T(2,3) unfolding anc topo_ordered_def by (metis bs_contains_from_list nth_mem)
  moreover have "h \<notin> strict_ancestors d h"
    using acyc by (auto simp: strict_ancestors_def acyclic_def)
  ultimately show ?thesis
    using T(1,2) es by (simp add: anc)
qed

theorem ancestors_complete_and_ordered_witness:
  "set (ancestors (fst sample_dag) (hd (dag_tips (fst sample_dag)))) =
     strict_ancestors (fst sample_dag) (hd (dag_tips (fst sample_dag))) \<and>
   ancestors (fst sample_dag) (hd (dag_tips (fst sample_dag))) = [snd sample_dag]"
proof
  show "ancestors (fst sample_dag) (hd (dag_tips (fst sample_dag))) = [snd sample_dag]"
    by code_simp
qed (use ancestors_complete_and_ordered [OF sample_dag_reach] in blast)

text \<open>
  \<open>append\<close> only ever adds. Whatever its arguments, every node stored before is stored after,
  unchanged; it succeeds exactly when the parents are stored (none only for the first node) and the
  new hash is not; then the new node is stored under its hash and nothing else is, and on an error
  the graph is untouched.
\<close>

theorem append_only:
  "case dag_append blake3 d parents payload creator sign_fn clock of (r, d', clock') \<Rightarrow>
     let node = new_node blake3 parents payload creator sign_fn (snd (dclock_tick clock)) in
     (case r of
        Inl e \<Rightarrow> d' = d \<and>
          e = (if parents = [] then if dag_is_empty d then NodeAlreadyExists (node_hash node) else EmptyParents
               else case filter (\<lambda>p. \<not> bm_contains (dag_nodes d) p) parents of
                 [] \<Rightarrow> NodeAlreadyExists (node_hash node) | p # _ \<Rightarrow> ParentNotFound p)
      | Inr n \<Rightarrow> n = node \<and> clock' = fst (dclock_tick clock) \<and>
          (\<forall>h. dag_get d' h = (if h = node_hash node then Some node else dag_get d h))) \<and>
     (isl r \<longleftrightarrow> parents = [] \<and> \<not> dag_is_empty d \<or>
        (\<exists>p \<in> set parents. \<not> bm_contains (dag_nodes d) p) \<or> bm_contains (dag_nodes d) (node_hash node))"
proof -
  have cp: "check_parents d ps = (case filter (\<lambda>p. \<not> bm_contains (dag_nodes d) p) ps of
      [] \<Rightarrow> Ok () | p # _ \<Rightarrow> Err (ParentNotFound p))" for ps
    unfolding check_parents_def by (induction ps) simp_all
  show ?thesis
    unfolding dag_append_def cp
    by (auto simp: Let_def dag_get_def add_node_def filter_empty_conv check_parents_def
        split: list.splits prod.splits dest: filter_eq_ConsD)
qed

lemma in_parents_of: "p \<in> set (parents_of d h) \<longleftrightarrow> (\<exists>n. dag_get d h = Some n \<and> p \<in> set (node_parents n))"
  by (cases "dag_get d h") (simp_all add: parents_of_def dag_get_def)

text \<open>On a reachable graph the cycle check of \<open>verify_node\<close> never fires.\<close>

lemma verify_node_reachable:
  assumes "dag_reach blake3 d"
  shows "verify_node blake3 d node verify_fn =
    (if \<not> ssorted (node_parents node) \<or>
        compute_node_hash blake3 (node_parents node) (payload_hash node) (creator_did node)
          (node_timestamp node) \<noteq> node_hash node
     then Err (DagInvalidSignature (node_hash node))
     else and_then (check_parents d (node_parents node))
       (\<lambda>_. if verify_fn (hash_bytes (node_hash node)) (node_signature node) then Ok ()
            else Err (DagInvalidSignature (node_hash node))))"
proof -
  obtain v q where v: "visit (parents_of d (node_hash node)) bs_empty [] = (v, q)"
    by (cases "visit (parents_of d (node_hash node)) bs_empty []")
  from dag_reach_inv [OF assms] have acyc: "acyclic (parent_rel d)" by (simp add: dag_inv_def)
  have "set (ancestors d (node_hash node)) = strict_ancestors d (node_hash node)"
    using topological_sort_correct(2) [OF acyc] bfs_strict_ancestors [OF v]
    by (simp add: ancestors_def v set_bm_keys visited_set_def)
  with acyc have "node_hash node \<notin> set (ancestors d (node_hash node))"
    by (auto simp: strict_ancestors_def acyclic_def)
  then show ?thesis
    by (auto simp: verify_node_def sort_dedup_id intro!: arg_cong2 [where f = and_then])
qed

text \<open>
  Every node stored in a graph built by \<open>append\<close> passes \<open>verify_node\<close> exactly when its signature
  does, in particular a node just appended with a signing function that matches the verifier; and
  the tips are, in increasing order, exactly the stored nodes that no stored node names as a parent.
\<close>

theorem stored_nodes_verify:
  assumes "dag_reach blake3 d" and "dag_get d h = Some n"
  shows "verify_node blake3 d n verify_fn =
           (if verify_fn (hash_bytes h) (node_signature n) then Ok () else Err (DagInvalidSignature h)) \<and>
         ssorted (dag_tips d) \<and>
         (h \<in> set (dag_tips d) \<longleftrightarrow> (\<forall>c m. dag_get d c = Some m \<longrightarrow> h \<notin> set (node_parents m)))"
proof -
  from dag_reach_inv [OF assms(1)] have inv: "dag_inv blake3 d" .
  with assms(2) have ok: "node_ok blake3 d h n" by (simp add: dag_inv_def)
  then have "check_parents d (node_parents n) = Ok ()"
    by (simp add: check_parents_Ok node_ok_def)
  with ok have v: "verify_node blake3 d n verify_fn =
      (if verify_fn (hash_bytes h) (node_signature n) then Ok () else Err (DagInvalidSignature h))"
    by (simp add: verify_node_reachable [OF assms(1)] node_ok_def)
  have sorted: "ssorted (dag_tips d)"
    using ssorted_bm_keys [of "dag_nodes d"]
    by (simp add: dag_tips_def sorted_sort_id strict_sorted_iff sorted_wrt_filter)
  from assms(2) inv have "bm_contains (dag_nodes d) h" "bm_contains (dag_children d) h"
    by (simp_all add: bm_contains_def dag_get_def dag_inv_def)
  then obtain cs where cs: "bm_get (dag_children d) h = Some cs" "h \<in> set (bm_keys (dag_nodes d))"
    by (auto simp: bm_contains_def set_bm_keys)
  then have "h \<in> set (dag_tips d) \<longleftrightarrow> bm_is_empty cs"
    by (simp add: dag_tips_def)
  also have "\<dots> \<longleftrightarrow> (\<forall>c. (c, h) \<notin> parent_rel d)"
    using inv cs(1) unfolding dag_inv_def bm_is_empty_iff bm_contains_def by (metis not_None_eq)
  also have "\<dots> \<longleftrightarrow> (\<forall>c m. dag_get d c = Some m \<longrightarrow> h \<notin> set (node_parents m))"
    by (auto simp: parent_rel_def in_parents_of)
  finally show ?thesis using v sorted by simp
qed

theorem stored_nodes_verify_witness:
  "dag_tips (fst sample_dag) \<noteq> [] \<and>
   (\<exists>n. dag_get (fst sample_dag) (snd sample_dag) = Some n \<and>
        verify_node length_hash (fst sample_dag) n (\<lambda>_ sig. sig = SigEmpty) = Ok ())"
proof
  have "dag_get (fst sample_dag) (snd sample_dag) \<noteq> None"
    by code_simp
  moreover have "map_option node_signature (dag_get (fst sample_dag) (snd sample_dag)) = Some SigEmpty"
    by code_simp
  ultimately obtain n where "dag_get (fst sample_dag) (snd sample_dag) = Some n" "node_signature n = SigEmpty"
    by auto
  with stored_nodes_verify [OF sample_dag_reach this(1), of "\<lambda>_ sig. sig = SigEmpty"]
  show "\<exists>n. dag_get (fst sample_dag) (snd sample_dag) = Some n \<and>
        verify_node length_hash (fst sample_dag) n (\<lambda>_ sig. sig = SigEmpty) = Ok ()"
    by simp
qed code_simp

end
