(* ===== verification/Dag_Store.thy ===== *)
theory Dag_Store
  imports Dag
begin

text \<open>
  \<open>src/crates/exo-dag/src/store.rs\<close> and \<open>append.rs\<close>: the storage trait \<open>DagStore\<close>, its in-memory
  implementation, and the validated append for nodes received from outside. The trait is the locale
  \<open>dag_store\<close>; the functions of \<open>append.rs\<close>, generic over the trait, take its methods as arguments,
  and the wall-clock reading they make.
\<close>

section \<open>The in-memory store\<close>

record memory_store =
  ms_nodes :: "(hash256, dag_node) btree_map"
  ms_children :: "(hash256, hash256 list) btree_map"
  ms_committed :: "(hash256, u64) btree_map"
  max_committed_height :: u64

definition ms_new :: memory_store where
  "ms_new = \<lparr>ms_nodes = bm_empty, ms_children = bm_empty, ms_committed = bm_empty,
             max_committed_height = 0\<rparr>"

definition ms_len :: "memory_store \<Rightarrow> nat" where
  "ms_len s = bm_len (ms_nodes s)"

definition ms_is_empty :: "memory_store \<Rightarrow> bool" where
  "ms_is_empty s = bm_is_empty (ms_nodes s)"

definition ms_get :: "memory_store \<Rightarrow> hash256 \<Rightarrow> (dag_node option, dag_error) result" where
  "ms_get s h = Ok (bm_get (ms_nodes s) h)"

definition ms_put :: "memory_store \<Rightarrow> dag_node \<Rightarrow> (unit, dag_error) result \<times> memory_store" where
  "ms_put s node =
     (let h = node_hash node;
          children = fold (bm_upd_default [] (\<lambda>cs. cs @ [h])) (node_parents node) (ms_children s);
          children' = bm_upd_default [] id h children
      in (Ok (), s\<lparr>ms_nodes := bm_insert h node (ms_nodes s), ms_children := children'\<rparr>))"

definition ms_contains :: "memory_store \<Rightarrow> hash256 \<Rightarrow> (bool, dag_error) result" where
  "ms_contains s h = Ok (bm_contains (ms_nodes s) h)"

definition ms_tips :: "memory_store \<Rightarrow> (hash256 list, dag_error) result" where
  "ms_tips s = Ok (sort (filter (\<lambda>h. case bm_get (ms_children s) h of
       None \<Rightarrow> True | Some cs \<Rightarrow> cs = []) (bm_keys (ms_nodes s))))"

definition ms_committed_height :: "memory_store \<Rightarrow> (u64, dag_error) result" where
  "ms_committed_height s = Ok (max_committed_height s)"

definition ms_mark_committed ::
  "memory_store \<Rightarrow> hash256 \<Rightarrow> u64 \<Rightarrow> (unit, dag_error) result \<times> memory_store" where
  "ms_mark_committed s h height =
     (if \<not> bm_contains (ms_nodes s) h then (Err (NodeNotFound h), s)
      else (Ok (), s\<lparr>ms_committed := bm_insert h height (ms_committed s),
                     max_committed_height :=
                       (if height > max_committed_height s then height else max_committed_height s)\<rparr>))"

section \<open>Validated append\<close>

definition MAX_CLOCK_SKEW_MS :: u64 where
  "MAX_CLOCK_SKEW_MS = 500"

text \<open>\<open>Debug\<close> of a timestamp, as in the causality error.\<close>

definition debug_timestamp :: "timestamp \<Rightarrow> string" where
  "debug_timestamp t =
     ''Timestamp('' @ show_nat (unat (physical_ms t)) @ '':'' @ show_nat (unat (logical t)) @ '')''"

definition skew_check :: "u64 \<Rightarrow> dag_node \<Rightarrow> (unit, dag_error) result" where
  "skew_check now_ms node =
     (if physical_ms (node_timestamp node) > 0 \<and>
         physical_ms (node_timestamp node) > saturating_add now_ms MAX_CLOCK_SKEW_MS
      then Err (StoreError (''clock skew: node timestamp '' @
             show_nat (unat (physical_ms (node_timestamp node))) @ '' exceeds wall clock '' @
             show_nat (unat now_ms) @ '' + '' @ show_nat (unat MAX_CLOCK_SKEW_MS) @ ''ms tolerance''))
      else Ok ())"

definition causality_check ::
  "('s \<Rightarrow> hash256 \<Rightarrow> (dag_node option, dag_error) result) \<Rightarrow> 's \<Rightarrow> dag_node \<Rightarrow> hash256 \<Rightarrow>
     (unit, dag_error) result" where
  "causality_check get s node p =
     and_then (get s p) (\<lambda>found.
     and_then (ok_or found (ParentNotFound p)) (\<lambda>parent.
       if node_timestamp node \<le> node_timestamp parent
       then Err (StoreError (''causality violation: node timestamp '' @
              debug_timestamp (node_timestamp node) @ '' <= parent timestamp '' @
              debug_timestamp (node_timestamp parent)))
       else Ok ()))"

definition validated_append ::
  "('s \<Rightarrow> hash256 \<Rightarrow> (dag_node option, dag_error) result) \<Rightarrow>
   ('s \<Rightarrow> dag_node \<Rightarrow> (unit, dag_error) result \<times> 's) \<Rightarrow> u64 \<Rightarrow> 's \<Rightarrow> dag_node \<Rightarrow>
     (unit, dag_error) result \<times> 's" where
  "validated_append get put now_ms s node =
     (case and_then (skew_check now_ms node)
             (\<lambda>_. for_check (causality_check get s node) (node_parents node)) of
        Inl e \<Rightarrow> (Err e, s)
      | Inr _ \<Rightarrow> put s node)"

text \<open>The parent loop of \<open>verify_stored_integrity\<close>, whose missing parent returns \<open>Ok(false)\<close>.\<close>

fun parents_stored ::
  "('s \<Rightarrow> hash256 \<Rightarrow> (bool, dag_error) result) \<Rightarrow> 's \<Rightarrow> hash256 list \<Rightarrow> (bool, dag_error) result" where
  "parents_stored contains s [] = Ok True"
| "parents_stored contains s (p # ps) =
     and_then (contains s p) (\<lambda>b. if \<not> b then Ok False else parents_stored contains s ps)"

definition verify_stored_integrity ::
  "blake3 \<Rightarrow> ('s \<Rightarrow> hash256 \<Rightarrow> (dag_node option, dag_error) result) \<Rightarrow>
   ('s \<Rightarrow> hash256 \<Rightarrow> (bool, dag_error) result) \<Rightarrow> 's \<Rightarrow> hash256 \<Rightarrow> (bool, dag_error) result" where
  "verify_stored_integrity blake3 get contains s h =
     and_then (get s h) (\<lambda>found. case found of
       None \<Rightarrow> Err (NodeNotFound h)
     | Some node \<Rightarrow>
         and_then (parents_stored contains s (node_parents node)) (\<lambda>b.
           if \<not> b then Ok False
           else Ok (compute_node_hash blake3 (node_parents node) (payload_hash node)
                      (creator_did node) (node_timestamp node) = node_hash node)))"

section \<open>The storage interface\<close>

text \<open>
  A store is seen through the partial map \<open>view\<close> of its nodes. Every method may fail; what it
  returns when it succeeds is fixed by the view, and a failed \<open>put\<close> leaves the view alone.
\<close>

definition causal :: "(hash256 \<rightharpoonup> dag_node) \<Rightarrow> bool" where
  "causal v \<longleftrightarrow> (\<forall>h n. v h = Some n \<longrightarrow>
     (\<forall>p \<in> set (node_parents n). \<exists>m. v p = Some m \<and> node_timestamp m < node_timestamp n))"

definition view_rel :: "(hash256 \<rightharpoonup> dag_node) \<Rightarrow> (hash256 \<times> hash256) set" where
  "view_rel v = {(h, p). \<exists>n. v h = Some n \<and> p \<in> set (node_parents n)}"

lemma causal_acyclic:
  assumes "causal v"
  shows "acyclic (view_rel v)"
proof -
  have "(h, p) \<in> (view_rel v)\<^sup>+ \<Longrightarrow>
      \<exists>n m. v h = Some n \<and> v p = Some m \<and> node_timestamp m < node_timestamp n" for h p
  proof (induction rule: trancl_induct)
    case (base p)
    with assms show ?case by (auto simp: causal_def view_rel_def)
  next
    case (step p q)
    with assms show ?case by (fastforce simp: causal_def view_rel_def dest: order.strict_trans)
  qed
  then show ?thesis by (fastforce simp: acyclic_def)
qed

lemma causal_upd:
  assumes "causal v" and "v (node_hash n) = None"
    and "\<forall>p \<in> set (node_parents n). \<exists>m. v p = Some m \<and> node_timestamp m < node_timestamp n"
  shows "causal (v(node_hash n \<mapsto> n))"
  unfolding causal_def
proof (intro allI impI ballI)
  fix h m p
  assume m: "(v(node_hash n \<mapsto> n)) h = Some m" and p: "p \<in> set (node_parents m)"
  have "\<exists>k. v p = Some k \<and> node_timestamp k < node_timestamp m"
  proof (cases "h = node_hash n")
    case True
    with m have "m = n" by simp
    with p assms(3) show ?thesis by simp
  next
    case False
    with m have "v h = Some m" by simp
    with p assms(1) show ?thesis by (simp add: causal_def)
  qed
  then obtain k where k: "v p = Some k" "node_timestamp k < node_timestamp m" by blast
  with assms(2) have "p \<noteq> node_hash n" by auto
  with k show "\<exists>k. (v(node_hash n \<mapsto> n)) p = Some k \<and> node_timestamp k < node_timestamp m"
    by simp
qed

locale dag_store =
  fixes view :: "'s \<Rightarrow> hash256 \<rightharpoonup> dag_node"
    and get :: "'s \<Rightarrow> hash256 \<Rightarrow> (dag_node option, dag_error) result"
    and put :: "'s \<Rightarrow> dag_node \<Rightarrow> (unit, dag_error) result \<times> 's"
    and contains :: "'s \<Rightarrow> hash256 \<Rightarrow> (bool, dag_error) result"
    and mark_committed :: "'s \<Rightarrow> hash256 \<Rightarrow> u64 \<Rightarrow> (unit, dag_error) result \<times> 's"
  assumes get_Ok: "get s h = Inr x \<Longrightarrow> view s h = x"
    and contains_Ok: "contains s h = Inr b \<Longrightarrow> b \<longleftrightarrow> view s h \<noteq> None"
    and put_Ok: "put s n = (Inr (), s') \<Longrightarrow> view s' = (view s)(node_hash n \<mapsto> n)"
    and put_Err: "put s n = (Inl e, s') \<Longrightarrow> view s' = view s"
    and mark_view: "view (snd (mark_committed s h k)) = view s"
begin

lemma validated_append_Ok:
  assumes "validated_append get put now_ms s n = (Inr (), s')"
  shows "view s' = (view s)(node_hash n \<mapsto> n)"
    and "physical_ms (node_timestamp n) = 0 \<or>
         unat (physical_ms (node_timestamp n)) \<le> unat now_ms + 500"
    and "\<forall>p \<in> set (node_parents n). \<exists>m. view s p = Some m \<and> node_timestamp m < node_timestamp n"
proof -
  let ?r = "and_then (skew_check now_ms n) (\<lambda>_. for_check (causality_check get s n) (node_parents n))"
  from assms have "put s n = (Inr (), s')" "?r = Inr ()"
    by (auto simp: validated_append_def split: sum.splits)
  then show "view s' = (view s)(node_hash n \<mapsto> n)" by (simp add: put_Ok)
  from \<open>?r = Inr ()\<close> have skew: "skew_check now_ms n = Inr ()"
    and caus: "\<forall>p \<in> set (node_parents n). causality_check get s n p = Inr ()"
    by (auto simp: and_then_eq_Ok for_check_Ok)
  from skew show "physical_ms (node_timestamp n) = 0 \<or>
      unat (physical_ms (node_timestamp n)) \<le> unat now_ms + 500"
    by (auto simp: skew_check_def MAX_CLOCK_SKEW_MS_def word_less_nat_alt unat_saturating_add
        min_def not_less word_gt_0 split: if_splits)
  from caus show "\<forall>p \<in> set (node_parents n). \<exists>m. view s p = Some m \<and> node_timestamp m < node_timestamp n"
    by (auto simp: causality_check_def and_then_eq_Ok not_le split: if_splits dest!: bspec get_Ok)
qed

lemma validated_append_Err:
  "validated_append get put now_ms s n = (Inl e, s') \<Longrightarrow> view s' = view s"
  by (auto simp: validated_append_def put_Err split: sum.splits)

lemma validated_append_causal:
  assumes "causal (view s)" and "view s (node_hash n) = None"
    and "validated_append get put now_ms s n = (r, s')"
  shows "causal (view s')"
proof (cases r)
  case (Inr u)
  with assms(3) have "validated_append get put now_ms s n = (Inr (), s')" by simp
  note D = validated_append_Ok [OF this]
  show ?thesis unfolding D(1) by (rule causal_upd [OF assms(1,2) D(3)])
qed (use assms validated_append_Err in fastforce)

lemma parents_stored_Ok:
  "parents_stored contains s ps = Inr b \<Longrightarrow> b \<longleftrightarrow> (\<forall>p \<in> set ps. view s p \<noteq> None)"
  by (induction ps) (auto simp: and_then_eq_Ok split: if_splits dest: contains_Ok)

lemma verify_stored_integrity_Ok:
  assumes "verify_stored_integrity blake3 get contains s h = Inr b"
  shows "\<exists>n. view s h = Some n \<and> (b \<longleftrightarrow> (\<forall>p \<in> set (node_parents n). view s p \<noteq> None) \<and>
           compute_node_hash blake3 (node_parents n) (payload_hash n) (creator_did n)
             (node_timestamp n) = node_hash n)"
  using assms
  by (auto simp: verify_stored_integrity_def and_then_eq_Ok split: option.splits if_splits
      dest!: get_Ok parents_stored_Ok)

end

interpretation mem: dag_store "\<lambda>s. bm_get (ms_nodes s)" ms_get ms_put ms_contains ms_mark_committed
  by unfold_locales
     (auto simp: ms_get_def ms_put_def ms_contains_def ms_mark_committed_def bm_contains_def Let_def)

section \<open>Stores fed by validated appends\<close>

text \<open>
  The stores a node can reach: appends of arbitrary nodes, at arbitrary wall-clock readings, and
  commit marks, each accepted or refused. \<open>hist\<close> is the list of the accepted nodes, oldest first.
  Nothing is assumed of the nodes' hashes: \<open>validated_append\<close> does not itself refuse a hash that is
  stored, and what goes wrong then is \<open>overwrite_breaks_causality\<close> below.
\<close>

inductive ms_built :: "dag_node list \<Rightarrow> memory_store \<Rightarrow> bool" where
  ms_start: "ms_built [] ms_new"
| ms_accept: "ms_built hist s \<Longrightarrow> validated_append ms_get ms_put now_ms s n = (Ok (), s') \<Longrightarrow>
    ms_built (hist @ [n]) s'"
| ms_refuse: "ms_built hist s \<Longrightarrow> validated_append ms_get ms_put now_ms s n = (Err e, s') \<Longrightarrow>
    ms_built hist s'"
| ms_mark: "ms_built hist s \<Longrightarrow> ms_mark_committed s h k = (r, s') \<Longrightarrow> ms_built hist s'"

text \<open>The most recent node of a history with the given hash.\<close>

definition latest :: "dag_node list \<Rightarrow> hash256 \<rightharpoonup> dag_node" where
  "latest hist = map_of (rev (map (\<lambda>n. (node_hash n, n)) hist))"

lemma latest_snoc [simp]: "latest (hist @ [n]) = (latest hist)(node_hash n \<mapsto> n)"
  by (simp add: latest_def)

lemma latest_Nil [simp]: "latest [] = Map.empty"
  by (simp add: latest_def)

lemma dom_latest: "dom (latest hist) = node_hash ` set hist"
  by (simp add: latest_def dom_map_of_conv_image_fst image_image)

text \<open>Every node of a history was accepted when its parents were there, each strictly earlier.\<close>

definition history_causal :: "dag_node list \<Rightarrow> bool" where
  "history_causal hist \<longleftrightarrow> (\<forall>i < length hist. \<forall>p \<in> set (node_parents (hist ! i)).
     \<exists>m. latest (take i hist) p = Some m \<and> node_timestamp m < node_timestamp (hist ! i))"

lemma history_causal_Nil [simp]: "history_causal []"
  by (simp add: history_causal_def)

lemma history_causal_snoc [simp]:
  "history_causal (hist @ [n]) \<longleftrightarrow> history_causal hist \<and>
     (\<forall>p \<in> set (node_parents n). \<exists>m. latest hist p = Some m \<and> node_timestamp m < node_timestamp n)"
  by (auto simp: history_causal_def nth_append less_Suc_eq)

lemma history_causal_latest:
  "history_causal hist \<Longrightarrow> distinct (map node_hash hist) \<Longrightarrow> causal (latest hist)"
proof (induction hist rule: rev_induct)
  case (snoc n hist)
  then have "latest hist (node_hash n) = None"
    using dom_latest [of hist] by (auto simp: domIff [symmetric])
  with snoc have "causal ((latest hist)(node_hash n \<mapsto> n))" by (intro causal_upd) simp_all
  then show ?case by (simp only: latest_snoc)
qed (simp add: causal_def)

definition commits_ok :: "memory_store \<Rightarrow> bool" where
  "commits_ok s \<longleftrightarrow> (\<forall>h k. bm_get (ms_committed s) h = Some k \<longrightarrow>
     bm_contains (ms_nodes s) h \<and> k \<le> max_committed_height s)"

lemma validated_append_commits:
  assumes "commits_ok s" and "validated_append ms_get ms_put now_ms s n = (r, s')"
  shows "commits_ok s'"
  using assms
  by (auto simp: commits_ok_def validated_append_def ms_put_def Let_def split: sum.splits)

lemma mark_committed_commits:
  assumes "commits_ok s" and "ms_mark_committed s h k = (r, s')"
  shows "commits_ok s'"
  using assms by (fastforce simp: commits_ok_def ms_mark_committed_def split: if_splits)

lemma ms_built_sound:
  assumes "ms_built hist s"
  shows "bm_get (ms_nodes s) = latest hist \<and> history_causal hist \<and> commits_ok s"
  using assms
proof (induction rule: ms_built.induct)
  case (ms_accept hist s now_ms n s')
  with mem.validated_append_Ok [OF ms_accept.hyps(2)] validated_append_commits [OF _ ms_accept.hyps(2)]
  show ?case by simp
next
  case (ms_refuse hist s now_ms n e s')
  with mem.validated_append_Err [OF ms_refuse.hyps(2)] validated_append_commits [OF _ ms_refuse.hyps(2)]
  show ?case by simp
next
  case (ms_mark hist s h k r s')
  with mem.mark_view [of s h k] mark_committed_commits [OF _ ms_mark.hyps(2)] show ?case by simp
qed (simp add: ms_new_def commits_ok_def fun_eq_iff)

text \<open>
  C20: Byzantine clock defence. In every store built by validated appends and commit marks, in any
  order and with arbitrary nodes, a look-up returns the most recently accepted node of that hash;
  each accepted node had all its parents stored, strictly earlier than itself, when it was accepted;
  and every committed node is stored, at a height not above the reported one. If no two accepted
  nodes share a hash, which \<open>validated_append\<close> itself does not check, then at every moment each
  stored node has all its parents stored and strictly earlier, and the stored graph has no cycle.
\<close>

theorem validated_store_causal:
  assumes "ms_built hist s"
  shows "(\<forall>h. ms_get s h = Ok (latest hist h)) \<and> history_causal hist \<and>
         (\<forall>h k. bm_get (ms_committed s) h = Some k \<longrightarrow>
            ms_contains s h = Ok True \<and> ms_committed_height s = Ok (max_committed_height s) \<and>
            k \<le> max_committed_height s) \<and>
         (distinct (map node_hash hist) \<longrightarrow>
            causal (bm_get (ms_nodes s)) \<and> acyclic (view_rel (bm_get (ms_nodes s))))"
proof -
  note B = ms_built_sound [OF assms]
  have "causal (bm_get (ms_nodes s))" if "distinct (map node_hash hist)"
    using B that history_causal_latest by simp
  with B show ?thesis
    by (simp add: causal_acyclic commits_ok_def ms_contains_def ms_committed_height_def ms_get_def)
qed

definition sample_node :: "u8 \<Rightarrow> u8 list \<Rightarrow> u64 \<Rightarrow> dag_node" where
  "sample_node h ps ms =
     \<lparr>node_hash = hash_from_bytes [h], node_parents = map (\<lambda>p. hash_from_bytes [p]) ps,
      payload_hash = HASH_ZERO, creator_did = Did ''a'', node_timestamp = Timestamp ms 0,
      node_signature = SigEmpty\<rparr>"

definition sample_store :: memory_store where
  "sample_store =
     snd (validated_append ms_get ms_put 1000
       (snd (validated_append ms_get ms_put 1000 ms_new (sample_node 1 [] 7)))
       (sample_node 2 [1] 8))"

lemma sample_node_simps [simp]:
  "node_hash (sample_node h ps ms) = hash_from_bytes [h]"
  "node_parents (sample_node h ps ms) = map (\<lambda>p. hash_from_bytes [p]) ps"
  "node_timestamp (sample_node h ps ms) = Timestamp ms 0"
  by (simp_all add: sample_node_def)

lemma sample_append_simps [simp]:
  "hash_from_bytes [1] \<noteq> hash_from_bytes [2]" "hash_from_bytes [2] \<noteq> hash_from_bytes [1]"
  "skew_check 1000 (sample_node 1 [] 7) = Ok ()" "skew_check 1000 (sample_node 2 [1] 8) = Ok ()"
  "skew_check 1000 (sample_node 1 [] 9) = Ok ()"
  by (simp_all add: hash_from_bytes_def arr32_of_Cons_neq skew_check_def sample_node_def
      saturating_add_def MAX_CLOCK_SKEW_MS_def)

lemma sample_store_nodes:
  "ms_nodes sample_store =
     bm_insert (hash_from_bytes [2]) (sample_node 2 [1] 8)
       (bm_insert (hash_from_bytes [1]) (sample_node 1 [] 7) bm_empty)"
  by (simp add: sample_store_def validated_append_def causality_check_def ms_put_def ms_get_def
      ms_new_def Let_def less_eq_timestamp_def)

lemma sample_store_built: "ms_built [sample_node 1 [] 7, sample_node 2 [1] 8] sample_store"
proof -
  let ?s = "snd (validated_append ms_get ms_put 1000 ms_new (sample_node 1 [] 7))"
  have "validated_append ms_get ms_put 1000 ms_new (sample_node 1 [] 7) = (Ok (), ?s)"
    by (simp add: validated_append_def ms_put_def Let_def)
  from ms_accept [OF ms_start this] have "ms_built [sample_node 1 [] 7] ?s" by simp
  moreover have "validated_append ms_get ms_put 1000 ?s (sample_node 2 [1] 8) = (Ok (), sample_store)"
    by (simp add: sample_store_def validated_append_def causality_check_def ms_put_def ms_get_def
      ms_new_def Let_def less_eq_timestamp_def)
  ultimately show ?thesis using ms_accept by fastforce
qed

theorem validated_store_causal_witness:
  "causal (bm_get (ms_nodes sample_store)) \<and> acyclic (view_rel (bm_get (ms_nodes sample_store))) \<and>
   ms_get sample_store (hash_from_bytes [2]) = Ok (Some (sample_node 2 [1] 8))"
  using validated_store_causal [OF sample_store_built] by (simp add: latest_def)

text \<open>
  \<open>validated_append\<close> recomputes no hash and does not look the node's own hash up: a received node that
  claims a stored hash replaces the stored node, and the children of the replaced one may end up
  before their parent.
\<close>

lemma overwrite_breaks_causality:
  "fst (validated_append ms_get ms_put 1000 sample_store (sample_node 1 [] 9)) = Ok () \<and>
   \<not> causal (bm_get (ms_nodes (snd (validated_append ms_get ms_put 1000 sample_store (sample_node 1 [] 9)))))"
proof -
  let ?r = "validated_append ms_get ms_put 1000 sample_store (sample_node 1 [] 9)"
  have ps: "node_parents (sample_node 1 [] 9) = []" "node_hash (sample_node 1 [] 9) = hash_from_bytes [1]"
    by (simp_all add: sample_node_def)
  then have r: "?r = ms_put sample_store (sample_node 1 [] 9)"
    by (simp add: validated_append_def)
  then have "bm_get (ms_nodes (snd ?r)) (hash_from_bytes [1]) = Some (sample_node 1 [] 9)"
    "bm_get (ms_nodes (snd ?r)) (hash_from_bytes [2]) = Some (sample_node 2 [1] 8)"
    by (simp_all add: ms_put_def Let_def sample_store_nodes ps)
  moreover have "\<not> node_timestamp (sample_node 1 [] 9) < node_timestamp (sample_node 2 [1] 8)"
    "node_parents (sample_node 2 [1] 8) = [hash_from_bytes [1]]"
    by (simp_all add: sample_node_def less_timestamp_def)
  ultimately have "\<not> causal (bm_get (ms_nodes (snd ?r)))"
    unfolding causal_def by force
  with r show ?thesis by (simp add: ms_put_def Let_def)
qed

text \<open>
  \<open>verify_stored_integrity\<close> on the in-memory store: it fails only for a hash that is not stored, and
  otherwise answers whether all parents are stored and the recorded hash is the hash of the fields.
\<close>

lemma stored_integrity_decided:
  "verify_stored_integrity blake3 ms_get ms_contains s h =
     (case bm_get (ms_nodes s) h of
        None \<Rightarrow> Err (NodeNotFound h)
      | Some n \<Rightarrow> Ok ((\<forall>p \<in> set (node_parents n). bm_contains (ms_nodes s) p) \<and>
          compute_node_hash blake3 (node_parents n) (payload_hash n) (creator_did n)
            (node_timestamp n) = node_hash n))"
proof -
  have "parents_stored ms_contains s ps = Ok (\<forall>p \<in> set ps. bm_contains (ms_nodes s) p)" for ps
    by (induction ps) (simp_all add: ms_contains_def)
  then show ?thesis
    by (auto simp: verify_stored_integrity_def ms_get_def split: option.splits)
qed

end
