(* ===== verification/Consensus.thy ===== *)
theory Consensus
  imports Dag
begin

text \<open>
  The vote counting of \<open>src/crates/exo-dag/src/consensus.rs\<close>: configuration and quorum size, the
  state with its pending votes, proposing, voting, certificates and commits. Reachable states are
  those produced by the operations; the safety theorem is the quorum-intersection argument on the
  certificates two replicas can form.
\<close>

section \<open>Configuration and messages\<close>

record consensus_config =
  validators :: "did btree_set"
  fault_tolerance :: nat
  round_timeout_ms :: u64

definition config_new :: "did btree_set \<Rightarrow> u64 \<Rightarrow> consensus_config" where
  "config_new vs timeout =
     (let n = bm_len vs
      in \<lparr>validators = vs, fault_tolerance = (if n = 0 then 0 else (n - 1) div 3),
          round_timeout_ms = timeout\<rparr>)"

definition quorum_size :: "consensus_config \<Rightarrow> nat" where
  "quorum_size cfg = (let n = bm_len (validators cfg) in if n = 0 then 0 else 2 * n div 3 + 1)"

record vote =
  voter :: did
  vote_round :: u64
  vote_node :: hash256
  vote_signature :: signature

record proposal =
  proposer :: did
  prop_round :: u64
  prop_node :: hash256

record commit_certificate =
  cert_node :: hash256
  cert_votes :: "vote list"
  cert_round :: u64

record consensus_state =
  config :: consensus_config
  current_round :: u64
  committed :: "hash256 list"
  pending :: "(u64, (hash256, vote list) btree_map) btree_map"
  certificates :: "(hash256, commit_certificate) btree_map"
  voted_in_round :: "(u64, did btree_set) btree_map"

section \<open>Operations\<close>

definition cs_new :: "consensus_config \<Rightarrow> consensus_state" where
  "cs_new cfg = \<lparr>config = cfg, current_round = 0, committed = [], pending = bm_empty,
                 certificates = bm_empty, voted_in_round = bm_empty\<rparr>"

definition advance_round :: "consensus_state \<Rightarrow> consensus_state" where
  "advance_round s = s\<lparr>current_round := current_round s + 1\<rparr>"

definition propose ::
  "consensus_state \<Rightarrow> dag_node \<Rightarrow> did \<Rightarrow> (proposal, dag_error) result \<times> consensus_state" where
  "propose s node p =
     (if \<not> bs_contains (validators (config s)) p then (Err (NotAValidator (did_str p)), s)
      else (Ok \<lparr>proposer = p, prop_round = current_round s, prop_node = node_hash node\<rparr>,
            s\<lparr>pending := bm_upd_default bm_empty (bm_upd_default [] id (node_hash node))
                 (current_round s) (pending s)\<rparr>))"

definition cast_vote ::
  "consensus_state \<Rightarrow> vote \<Rightarrow> (unit, dag_error) result \<times> consensus_state" where
  "cast_vote s v =
     (if \<not> bs_contains (validators (config s)) (voter v) then (Err (NotAValidator (did_str (voter v))), s)
      else if vote_round v \<noteq> current_round s
      then (Err (InvalidRound (current_round s) (vote_round v)), s)
      else
        let s1 = s\<lparr>voted_in_round := bm_upd_default bs_empty id (vote_round v) (voted_in_round s)\<rparr>;
            round_voters = (case bm_get (voted_in_round s1) (vote_round v) of
                              None \<Rightarrow> bs_empty | Some vs \<Rightarrow> vs)
        in if bs_contains round_voters (voter v)
           then (Err (DuplicateVote (did_str (voter v)) (vote_round v)), s1)
           else (Ok (), s1\<lparr>voted_in_round := bm_insert (vote_round v) (bs_insert (voter v) round_voters)
                             (voted_in_round s1),
                           pending := bm_upd_default bm_empty
                             (bm_upd_default [] (\<lambda>vs. vs @ [v]) (vote_node v))
                             (vote_round v) (pending s1)\<rparr>))"

definition check_commit :: "consensus_state \<Rightarrow> hash256 \<Rightarrow> commit_certificate option" where
  "check_commit s h =
     (let quorum = quorum_size (config s)
      in if quorum = 0 then None
         else case bm_get (pending s) (current_round s) of
           None \<Rightarrow> None
         | Some round_votes \<Rightarrow> (case bm_get round_votes h of
             None \<Rightarrow> None
           | Some votes \<Rightarrow>
               if length votes \<ge> quorum
               then Some \<lparr>cert_node = h, cert_votes = votes, cert_round = current_round s\<rparr>
               else None))"

definition commit :: "consensus_state \<Rightarrow> commit_certificate \<Rightarrow> consensus_state" where
  "commit s cert =
     s\<lparr>committed := committed s @ [cert_node cert],
       certificates := bm_insert (cert_node cert) cert (certificates s)\<rparr>"

definition is_finalized :: "consensus_state \<Rightarrow> hash256 \<Rightarrow> bool" where
  "is_finalized s h = bm_contains (certificates s) h"

section \<open>Reachable states and the vote invariant\<close>

text \<open>The votes recorded for a node in a round, and the validators recorded as having voted.\<close>

definition votes_for :: "consensus_state \<Rightarrow> u64 \<Rightarrow> hash256 \<Rightarrow> vote list" where
  "votes_for s r h = (case bm_get (pending s) r of
     None \<Rightarrow> [] | Some m \<Rightarrow> (case bm_get m h of None \<Rightarrow> [] | Some vs \<Rightarrow> vs))"

definition voters_in :: "consensus_state \<Rightarrow> u64 \<Rightarrow> did set" where
  "voters_in s r = (case bm_get (voted_in_round s) r of None \<Rightarrow> {} | Some vs \<Rightarrow> {d. bs_contains vs d})"

inductive cs_reach :: "consensus_config \<Rightarrow> consensus_state \<Rightarrow> bool" for cfg where
  cs_start: "cs_reach cfg (cs_new cfg)"
| cs_advance: "cs_reach cfg s \<Longrightarrow> cs_reach cfg (advance_round s)"
| cs_propose: "cs_reach cfg s \<Longrightarrow> cs_reach cfg (snd (propose s node p))"
| cs_vote: "cs_reach cfg s \<Longrightarrow> cs_reach cfg (snd (cast_vote s v))"
| cs_commit: "cs_reach cfg s \<Longrightarrow> cs_reach cfg (commit s cert)"

definition vote_inv :: "consensus_config \<Rightarrow> consensus_state \<Rightarrow> bool" where
  "vote_inv cfg s \<longleftrightarrow> config s = cfg \<and>
     (\<forall>r h v. v \<in> set (votes_for s r h) \<longrightarrow>
        vote_round v = r \<and> vote_node v = h \<and> voter v \<in> voters_in s r \<and>
        bs_contains (validators cfg) (voter v)) \<and>
     (\<forall>r h. distinct (map voter (votes_for s r h))) \<and>
     (\<forall>r h h' v v'. v \<in> set (votes_for s r h) \<longrightarrow> v' \<in> set (votes_for s r h') \<longrightarrow>
        voter v = voter v' \<longrightarrow> h = h')"

lemma cast_vote_cases:
  obtains (rejected) e where "fst (cast_vote s v) = Err e" "config (snd (cast_vote s v)) = config s"
      "current_round (snd (cast_vote s v)) = current_round s"
      "votes_for (snd (cast_vote s v)) = votes_for s" "voters_in (snd (cast_vote s v)) = voters_in s"
      "\<not> (bs_contains (validators (config s)) (voter v) \<and> vote_round v = current_round s \<and>
         voter v \<notin> voters_in s (vote_round v))"
  | (accepted) "fst (cast_vote s v) = Ok ()" "config (snd (cast_vote s v)) = config s"
      "current_round (snd (cast_vote s v)) = current_round s"
      "bs_contains (validators (config s)) (voter v)" "vote_round v = current_round s"
      "voter v \<notin> voters_in s (vote_round v)"
      "\<And>r h. votes_for (snd (cast_vote s v)) r h =
         (if r = vote_round v \<and> h = vote_node v then votes_for s r h @ [v] else votes_for s r h)"
      "\<And>r. voters_in (snd (cast_vote s v)) r =
         (if r = vote_round v then insert (voter v) (voters_in s r) else voters_in s r)"
proof -
  let ?ok = "bs_contains (validators (config s)) (voter v) \<and> vote_round v = current_round s \<and>
         voter v \<notin> voters_in s (vote_round v)"
  show ?thesis
  proof (cases ?ok)
    case True
    then show ?thesis
      by (intro accepted)
         (auto simp: cast_vote_def Let_def votes_for_def voters_in_def fun_eq_iff split: option.splits if_splits)
  next
    case False
    then show ?thesis
      by (intro rejected [of "projl (fst (cast_vote s v))"])
         (auto simp: cast_vote_def Let_def votes_for_def voters_in_def fun_eq_iff split: option.splits if_splits)
  qed
qed

lemma propose_votes [simp]:
  "votes_for (snd (propose s node p)) = votes_for s"
  "voters_in (snd (propose s node p)) = voters_in s"
  "config (snd (propose s node p)) = config s"
  by (auto simp: propose_def votes_for_def voters_in_def fun_eq_iff split: option.splits)

lemma round_commit_votes [simp]:
  "votes_for (advance_round s) = votes_for s" "voters_in (advance_round s) = voters_in s"
  "config (advance_round s) = config s"
  "votes_for (commit s cert) = votes_for s" "voters_in (commit s cert) = voters_in s"
  "config (commit s cert) = config s"
  by (simp_all add: advance_round_def commit_def votes_for_def voters_in_def fun_eq_iff)

lemma vote_inv_vote:
  assumes "vote_inv cfg s"
  shows "vote_inv cfg (snd (cast_vote s v))"
proof (cases rule: cast_vote_cases [of s v])
  case rejected
  with assms show ?thesis by (simp add: vote_inv_def)
next
  case accepted
  have "voter va \<noteq> voter v" if "va \<in> set (votes_for s (vote_round v) h)" for va h
    using that assms accepted(6) by (metis vote_inv_def)
  then show ?thesis
    using assms accepted by (auto simp: vote_inv_def split: if_splits)
qed

lemma cs_reach_inv: "cs_reach cfg s \<Longrightarrow> vote_inv cfg s"
proof (induction rule: cs_reach.induct)
  case cs_start
  show ?case by (simp add: vote_inv_def cs_new_def votes_for_def)
next
  case (cs_vote s v)
  then show ?case by (simp add: vote_inv_vote)
qed (simp_all add: vote_inv_def)

section \<open>Certificates\<close>

lemma check_commit_Some:
  "check_commit s h = Some c \<longleftrightarrow>
     bm_len (validators (config s)) \<noteq> 0 \<and> quorum_size (config s) \<le> length (votes_for s (current_round s) h) \<and>
     c = \<lparr>cert_node = h, cert_votes = votes_for s (current_round s) h, cert_round = current_round s\<rparr>"
  by (auto simp: check_commit_def quorum_size_def votes_for_def Let_def split: option.splits if_splits)

definition cert_voters :: "commit_certificate \<Rightarrow> did set" where
  "cert_voters c = voter ` set (cert_votes c)"

text \<open>What a certificate formed by a reachable state proves.\<close>

lemma certificate_valid:
  assumes "cs_reach cfg s" and "check_commit s h = Some c"
  shows "cert_node c = h" and "cert_round c = current_round s"
    and "cert_voters c \<subseteq> {d. bs_contains (validators cfg) d}"
    and "card (cert_voters c) \<ge> quorum_size cfg"
    and "\<forall>v \<in> set (cert_votes c). vote_node v = h \<and> vote_round v = cert_round c"
    and "bm_len (validators cfg) \<noteq> 0"
proof -
  from cs_reach_inv [OF assms(1)] have inv: "vote_inv cfg s" .
  then have cfg: "config s = cfg" by (simp add: vote_inv_def)
  from assms(2) have c: "c = \<lparr>cert_node = h, cert_votes = votes_for s (current_round s) h,
      cert_round = current_round s\<rparr>" "quorum_size cfg \<le> length (cert_votes c)"
    and n: "bm_len (validators cfg) \<noteq> 0"
    by (simp_all add: check_commit_Some cfg)
  then show "cert_node c = h" "cert_round c = current_round s" "bm_len (validators cfg) \<noteq> 0" by simp_all
  from inv c(1) show "cert_voters c \<subseteq> {d. bs_contains (validators cfg) d}"
    "\<forall>v \<in> set (cert_votes c). vote_node v = h \<and> vote_round v = cert_round c"
    by (auto simp: vote_inv_def cert_voters_def)
  from inv c(1) have "distinct (map voter (cert_votes c))" by (simp add: vote_inv_def)
  with c(2) show "card (cert_voters c) \<ge> quorum_size cfg"
    by (simp add: cert_voters_def distinct_map card_image distinct_card)
qed

lemma quorum_intersection:
  assumes "finite V" and "A \<subseteq> V" and "B \<subseteq> V" and "card V = n" and "n \<noteq> 0"
    and "2 * n div 3 + 1 \<le> card A" and "2 * n div 3 + 1 \<le> card B"
  shows "(n - 1) div 3 < card (A \<inter> B)"
proof -
  have fin: "finite A" "finite B" using assms(1-3) by (simp_all add: finite_subset)
  have "card (A \<union> B) \<le> n" using assms(1-4) by (metis Un_least card_mono)
  with card_Un_Int [OF fin] assms(5-7) show ?thesis by linarith
qed

text \<open>Four validators, a quorum of three, and the votes of three of them for one node.\<close>

definition sample_validators :: "did btree_set" where
  "sample_validators = bs_from_list [Did ''a'', Did ''b'', Did ''c'', Did ''d'']"

definition sample_vote :: "string \<Rightarrow> vote" where
  "sample_vote d = \<lparr>voter = Did d, vote_round = 0, vote_node = HASH_ZERO, vote_signature = SigEmpty\<rparr>"

definition sample_state :: "string list \<Rightarrow> consensus_state" where
  "sample_state ds = fold (\<lambda>d s. snd (cast_vote s (sample_vote d))) ds
     (cs_new (config_new sample_validators 1000))"

definition sample_cert :: "string list \<Rightarrow> commit_certificate" where
  "sample_cert ds = \<lparr>cert_node = HASH_ZERO, cert_votes = map sample_vote ds, cert_round = 0\<rparr>"

lemma sample_state_reach: "cs_reach (config_new sample_validators 1000) (sample_state ds)"
proof -
  have "cs_reach cfg s \<Longrightarrow> cs_reach cfg (fold (\<lambda>d s. snd (cast_vote s (sample_vote d))) ds s)" for cfg s
    by (induction ds arbitrary: s) (simp_all add: cs_vote)
  then show ?thesis by (simp add: sample_state_def cs_start)
qed

lemma sample_check_commit:
  "check_commit (sample_state [''a'', ''b'', ''c'']) HASH_ZERO = Some (sample_cert [''a'', ''b'', ''c''])"
  "check_commit (sample_state [''b'', ''c'', ''d'']) HASH_ZERO = Some (sample_cert [''b'', ''c'', ''d''])"
  by code_simp+

text \<open>
  C3: consensus safety across replicas. Take the states of two replicas with the same validators, each
  reached by any sequence of the operations, and a certificate each of them forms for the same round.
  If at most \<open>fault_tolerance\<close> validators are faulty, and a validator that is not faulty votes for one
  node per round only, then the two certificates are for the same node. The bound is the one
  \<open>ConsensusConfig::new\<close> computes.
\<close>

theorem certificates_agree:
  assumes "cs_reach (config_new vs timeout) s" and "cs_reach (config_new vs timeout) s'"
    and "check_commit s h = Some c" and "check_commit s' h' = Some c'"
    and "cert_round c = cert_round c'"
    and "card F \<le> fault_tolerance (config_new vs timeout)" and "finite F"
    and "\<forall>v \<in> set (cert_votes c). \<forall>v' \<in> set (cert_votes c').
           voter v = voter v' \<and> vote_round v = vote_round v' \<and> voter v \<notin> F \<longrightarrow> vote_node v = vote_node v'"
  shows "h = h'"
proof -
  let ?cfg = "config_new vs timeout" and ?V = "{d. bs_contains vs d}"
  note A = certificate_valid [OF assms(1,3)] and B = certificate_valid [OF assms(2,4)]
  have V: "validators ?cfg = vs" by (simp add: config_new_def Let_def)
  have q: "quorum_size ?cfg = 2 * bm_len vs div 3 + 1"
    using A(6) by (simp add: quorum_size_def V Let_def)
  have "(bm_len vs - 1) div 3 < card (cert_voters c \<inter> cert_voters c')"
    by (rule quorum_intersection [where V = ?V])
       (use A B q V in \<open>simp_all add: bm_len_card\<close>)
  moreover have "fault_tolerance ?cfg = (bm_len vs - 1) div 3"
    using A(6) by (simp add: config_new_def Let_def)
  ultimately have "card F < card (cert_voters c \<inter> cert_voters c')"
    using assms(6) by simp
  then have "\<not> cert_voters c \<inter> cert_voters c' \<subseteq> F"
    using assms(7) card_mono by (metis not_le)
  then obtain d where d: "d \<in> cert_voters c" "d \<in> cert_voters c'" "d \<notin> F" by blast
  then obtain v v' where v: "v \<in> set (cert_votes c)" "v' \<in> set (cert_votes c')" "voter v = d" "voter v' = d"
    by (auto simp: cert_voters_def)
  with A(5) B(5) have nodes: "vote_node v = h" "vote_node v' = h'" "vote_round v = vote_round v'"
    using assms(5) by simp_all
  from assms(8) [THEN bspec, OF v(1), THEN bspec, OF v(2)] v(3,4) nodes d(3) show ?thesis by simp
qed

theorem certificates_agree_witness:
  "cert_node (sample_cert [''a'', ''b'', ''c'']) = cert_node (sample_cert [''b'', ''c'', ''d'']) \<and>
   card {Did ''a''} \<le> fault_tolerance (config_new sample_validators 1000)"
proof
  show F: "card {Did ''a''} \<le> fault_tolerance (config_new sample_validators 1000)"
    by code_simp
  have "(HASH_ZERO :: hash256) = HASH_ZERO"
    by (rule certificates_agree [OF sample_state_reach sample_state_reach sample_check_commit _ F])
       (simp_all add: sample_cert_def sample_vote_def)
  then show "cert_node (sample_cert [''a'', ''b'', ''c'']) = cert_node (sample_cert [''b'', ''c'', ''d''])"
    by (simp add: sample_cert_def)
qed

text \<open>
  Within one state the recorded votes cannot conflict, whatever the validators send: at most one
  node can be certified in a round, and its certificate holds votes of more than two thirds of the
  validators, distinct ones, all for this node and this round.
\<close>

theorem one_certificate_per_round:
  assumes "cs_reach cfg s" and "check_commit s h = Some c"
  shows "(\<forall>h' c'. check_commit s h' = Some c' \<longrightarrow> h' = h) \<and>
         distinct (map voter (cert_votes c)) \<and>
         2 * bm_len (validators cfg) < 3 * length (cert_votes c) \<and>
         (\<forall>v \<in> set (cert_votes c). bs_contains (validators cfg) (voter v) \<and>
            vote_node v = h \<and> vote_round v = current_round s)"
proof -
  from cs_reach_inv [OF assms(1)] have inv: "vote_inv cfg s" .
  note A = certificate_valid [OF assms]
  from assms(2) have c: "cert_votes c = votes_for s (current_round s) h" by (auto simp: check_commit_Some)
  have q: "quorum_size cfg = 2 * bm_len (validators cfg) div 3 + 1"
    using A(6) by (simp add: quorum_size_def Let_def)
  have "length (cert_votes c) \<ge> quorum_size cfg"
    using A(4) by (simp add: cert_voters_def) (meson card_image_le card_length finite_set le_trans)
  then have "2 * bm_len (validators cfg) < 3 * length (cert_votes c)" using q by linarith
  moreover have "h' = h" if h': "check_commit s h' = Some c'" for h' c'
  proof -
    note B = certificate_valid [OF assms(1) h']
    have "(bm_len (validators cfg) - 1) div 3 < card (cert_voters c \<inter> cert_voters c')"
      by (rule quorum_intersection [where V = "{d. bs_contains (validators cfg) d}"])
         (use A B q in \<open>simp_all add: bm_len_card\<close>)
    then have "cert_voters c \<inter> cert_voters c' \<noteq> {}" by auto
    then obtain d where "d \<in> cert_voters c" "d \<in> cert_voters c'" by blast
    then obtain v v' where v: "v \<in> set (cert_votes c)" "v' \<in> set (cert_votes c')" "voter v = voter v'"
      by (auto simp: cert_voters_def)
    moreover have "cert_votes c' = votes_for s (current_round s) h'"
      using h' by (auto simp: check_commit_Some)
    moreover have "\<forall>r h h' v v'. v \<in> set (votes_for s r h) \<longrightarrow> v' \<in> set (votes_for s r h') \<longrightarrow>
        voter v = voter v' \<longrightarrow> h = h'"
      using inv by (simp add: vote_inv_def)
    ultimately show ?thesis using c by simp
  qed
  ultimately show ?thesis
    using inv A(2,5) c by (auto simp: vote_inv_def)
qed

theorem one_certificate_per_round_witness:
  "distinct (map voter (cert_votes (sample_cert [''a'', ''b'', ''c'']))) \<and>
   2 * bm_len sample_validators < 3 * length (cert_votes (sample_cert [''a'', ''b'', ''c'']))"
  using one_certificate_per_round [OF sample_state_reach sample_check_commit(1)]
  by (simp add: config_new_def Let_def)

section \<open>Progress\<close>

primrec cast_votes :: "consensus_state \<Rightarrow> vote list \<Rightarrow> consensus_state" where
  "cast_votes s [] = s"
| "cast_votes s (v # vs) = cast_votes (snd (cast_vote s v)) vs"

lemma cast_votes_reach: "cs_reach cfg s \<Longrightarrow> cs_reach cfg (cast_votes s vs)"
  by (induction vs arbitrary: s) (simp_all add: cs_vote)

lemma cast_votes_collect:
  assumes "distinct (map voter vs)"
    and "\<forall>v \<in> set vs. bs_contains (validators (config s)) (voter v) \<and> vote_round v = current_round s \<and>
           vote_node v = h \<and> voter v \<notin> voters_in s (current_round s)"
  shows "votes_for (cast_votes s vs) (current_round s) h = votes_for s (current_round s) h @ vs \<and>
         current_round (cast_votes s vs) = current_round s \<and> config (cast_votes s vs) = config s"
  using assms
proof (induction vs arbitrary: s)
  case (Cons v vs)
  show ?case
  proof (cases rule: cast_vote_cases [of s v])
    case rejected
    with Cons.prems show ?thesis by auto
  next
    case accepted
    have neq: "voter w \<noteq> voter v" if "w \<in> set vs" for w
      using Cons.prems(1) that by (metis distinct.simps(2) image_eqI list.set_map list.simps(9))
    from Cons.prems have "vote_node v = h" "vote_round v = current_round s" by simp_all
    with accepted have "votes_for (snd (cast_vote s v)) (current_round s) h = votes_for s (current_round s) h @ [v]"
      by simp
    moreover have "\<forall>w \<in> set vs. bs_contains (validators (config (snd (cast_vote s v)))) (voter w) \<and>
        vote_round w = current_round (snd (cast_vote s v)) \<and> vote_node w = h \<and>
        voter w \<notin> voters_in (snd (cast_vote s v)) (current_round (snd (cast_vote s v)))"
      using Cons.prems accepted neq by auto
    ultimately show ?thesis
      using Cons.prems Cons.IH [of "snd (cast_vote s v)"] accepted by simp
  qed
qed simp

text \<open>
  C25: consensus progress. In any state of a configuration with validators, when a quorum of distinct
  validators that have not voted in the current round vote for the same node, no vote is refused and
  the node can be committed; committing the certificate finalises it.
\<close>

theorem quorum_of_votes_commits:
  assumes "bm_len (validators (config s)) \<noteq> 0" and "quorum_size (config s) \<le> length vs"
    and "distinct (map voter vs)"
    and "\<forall>v \<in> set vs. bs_contains (validators (config s)) (voter v) \<and> vote_round v = current_round s \<and>
           vote_node v = h \<and> voter v \<notin> voters_in s (current_round s)"
  shows "\<exists>c. check_commit (cast_votes s vs) h = Some c \<and> cert_node c = h \<and> set vs \<subseteq> set (cert_votes c) \<and>
           is_finalized (commit (cast_votes s vs) c) h"
  using assms cast_votes_collect [OF assms(3,4)]
  by (auto simp: check_commit_Some is_finalized_def commit_def)

theorem quorum_of_votes_commits_witness:
  "\<exists>c. check_commit (cast_votes (cs_new (config_new sample_validators 1000))
          (map sample_vote [''d'', ''b'', ''c''])) HASH_ZERO = Some c \<and> length (cert_votes c) \<ge> 3"
proof -
  let ?s = "cs_new (config_new sample_validators 1000)" and ?vs = "map sample_vote [''d'', ''b'', ''c'']"
  have "bm_len (validators (config ?s)) \<noteq> 0" "quorum_size (config ?s) \<le> length ?vs"
    by code_simp+
  moreover have d: "distinct (map voter ?vs)" by (simp add: sample_vote_def)
  moreover have "\<forall>v \<in> set ?vs. bs_contains (validators (config ?s)) (voter v) \<and>
      vote_round v = current_round ?s \<and> vote_node v = HASH_ZERO \<and> voter v \<notin> voters_in ?s (current_round ?s)"
    by (simp add: sample_vote_def cs_new_def config_new_def Let_def sample_validators_def voters_in_def)
  ultimately obtain c where c: "check_commit (cast_votes ?s ?vs) HASH_ZERO = Some c" "set ?vs \<subseteq> set (cert_votes c)"
    using quorum_of_votes_commits by blast
  have "length ?vs = card (set ?vs)"
    by (simp add: sample_vote_def)
  also have "\<dots> \<le> length (cert_votes c)"
    using card_mono [OF finite_set c(2)] card_length by (rule le_trans)
  finally show ?thesis using c(1) by auto
qed

text \<open>
  The certificate given to \<open>commit\<close> is not examined: an empty one finalises its node, and no
  operation looks at the signature of a vote.
\<close>

lemma commit_is_unchecked:
  "is_finalized (commit (cs_new cfg) \<lparr>cert_node = h, cert_votes = [], cert_round = r\<rparr>) h"
  by (simp add: is_finalized_def commit_def)

end
