(* ===== verification/Hash_Tree.thy ===== *)
theory Hash_Tree
  imports Merkle
begin

text \<open>
  Paths through binary hash trees, shared by the sparse Merkle tree and the mountain range: a path is
  a list of steps, each with a sibling and the side the current hash is on. The interface a tree
  provides is an injective encoding of the two children (locale \<open>hash_tree\<close>); the client lemma is
  that two paths with the same sides and the same end have the same start and siblings, when the
  hash has no collision among the strings hashed along them.
\<close>

type_synonym path_step = "bool \<times> hash256"

text \<open>\<open>True\<close>: the current hash is the right child, the sibling goes to the left.\<close>

definition step_bytes :: "(hash256 \<Rightarrow> hash256 \<Rightarrow> bytes) \<Rightarrow> path_step \<Rightarrow> hash256 \<Rightarrow> bytes" where
  "step_bytes enc st x = (case st of (right, sib) \<Rightarrow> if right then enc sib x else enc x sib)"

primrec path_hash :: "blake3 \<Rightarrow> (hash256 \<Rightarrow> hash256 \<Rightarrow> bytes) \<Rightarrow> path_step list \<Rightarrow> hash256 \<Rightarrow> hash256" where
  "path_hash blake3 enc [] x = x"
| "path_hash blake3 enc (st # sts) x = path_hash blake3 enc sts (digest blake3 (step_bytes enc st x))"

primrec path_bytes :: "blake3 \<Rightarrow> (hash256 \<Rightarrow> hash256 \<Rightarrow> bytes) \<Rightarrow> path_step list \<Rightarrow> hash256 \<Rightarrow> bytes list" where
  "path_bytes blake3 enc [] x = []"
| "path_bytes blake3 enc (st # sts) x =
     step_bytes enc st x # path_bytes blake3 enc sts (digest blake3 (step_bytes enc st x))"

lemma path_hash_append [simp]:
  "path_hash blake3 enc (sts @ sts') x = path_hash blake3 enc sts' (path_hash blake3 enc sts x)"
  by (induction sts arbitrary: x) auto

lemma path_bytes_append [simp]:
  "path_bytes blake3 enc (sts @ sts') x =
     path_bytes blake3 enc sts x @ path_bytes blake3 enc sts' (path_hash blake3 enc sts x)"
  by (induction sts arbitrary: x) auto

lemma digest_inj_onD: "digest blake3 x = digest blake3 y \<Longrightarrow> inj_on blake3 S \<Longrightarrow> x \<in> S \<Longrightarrow> y \<in> S \<Longrightarrow> x = y"
  by (auto simp: digest_def dest: inj_onD)

locale hash_tree =
  fixes enc :: "hash256 \<Rightarrow> hash256 \<Rightarrow> bytes"
  assumes enc_inject: "enc l r = enc l' r' \<longleftrightarrow> l = l' \<and> r = r'"
begin

lemma step_bytes_inject:
  "step_bytes enc (b, s) x = step_bytes enc (b, s') x' \<longleftrightarrow> s = s' \<and> x = x'"
  by (auto simp: step_bytes_def enc_inject)

lemma path_unique:
  assumes "inj_on blake3 (set (path_bytes blake3 enc sts x) \<union> set (path_bytes blake3 enc sts' x'))"
    and "map fst sts = map fst sts'"
    and "path_hash blake3 enc sts x = path_hash blake3 enc sts' x'"
  shows "x = x' \<and> sts = sts'"
  using assms
proof (induction sts arbitrary: sts' rule: rev_induct)
  case (snoc st sts)
  from snoc.prems(2) obtain st' us where sts': "sts' = us @ [st']"
    by (metis map_is_Nil_conv rev_exhaust snoc_eq_iff_butlast)
  obtain b s where st: "st = (b, s)" by (cases st)
  from snoc.prems(2) sts' st obtain s' where st': "st' = (b, s')" by (cases st') auto
  let ?y = "path_hash blake3 enc sts x" and ?y' = "path_hash blake3 enc us x'"
  have "step_bytes enc (b, s) ?y = step_bytes enc (b, s') ?y'"
    using snoc.prems(3) by (intro digest_inj_onD [OF _ snoc.prems(1)]) (simp_all add: sts' st st')
  then have "s = s'" "?y = ?y'" by (simp_all add: step_bytes_inject)
  moreover have "x = x' \<and> sts = us"
    using snoc.prems(1,2) \<open>?y = ?y'\<close> by (intro snoc.IH) (auto simp: sts' elim: inj_on_subset)
  ultimately show ?case by (simp add: sts' st st')
qed simp

end

end
