(* ===== verification/Smt.thy ===== *)
theory Smt
  imports Hash_Tree Dag
begin

unbundle bit_operations_syntax

text \<open>
  The sparse Merkle tree of \<open>src/crates/exo-dag/src/smt.rs\<close>: 256 levels over the bits of a hash, with
  the hash of an empty subtree of each level precomputed by \<open>default_hash\<close>. \<open>compute_node\<close> cuts the
  recursion off at empty subtrees; it is proved to compute the hash of the full tree, from which
  completeness and soundness of inclusion and absence proofs follow.
\<close>

section \<open>Definitions\<close>

abbreviation TREE_DEPTH :: nat where
  "TREE_DEPTH \<equiv> 256"

definition smt_pair_bytes :: "hash256 \<Rightarrow> hash256 \<Rightarrow> bytes" where
  "smt_pair_bytes left right = hash_bytes left @ hash_bytes right"

definition smt_hash_pair :: "blake3 \<Rightarrow> hash256 \<Rightarrow> hash256 \<Rightarrow> hash256" where
  "smt_hash_pair blake3 left right = digest blake3 (smt_pair_bytes left right)"

primrec default_hash :: "blake3 \<Rightarrow> nat \<Rightarrow> hash256" where
  "default_hash blake3 0 = digest blake3 (str_bytes ''smt:empty:leaf'')"
| "default_hash blake3 (Suc level) =
     (let h = default_hash blake3 level in digest blake3 (hash_bytes h @ hash_bytes h))"

definition smt_hash_leaf :: "blake3 \<Rightarrow> bytes \<Rightarrow> hash256" where
  "smt_hash_leaf blake3 v = digest blake3 (str_bytes ''smt:leaf:'' @ v)"

definition get_bit :: "hash256 \<Rightarrow> nat \<Rightarrow> bool" where
  "get_bit key pos =
     (let byte_idx = pos div 8; bit_idx = 7 - pos mod 8
      in drop_bit bit_idx (hash_bytes key ! byte_idx) AND 1 = 1)"

definition set_key_bit :: "nat \<times> bool \<Rightarrow> bytes \<Rightarrow> bytes" where
  "set_key_bit = (\<lambda>(i, b) bs.
     if b then bs[i div 8 := bs ! (i div 8) OR push_bit (7 - i mod 8) 1] else bs)"

definition bits_to_key :: "bool list \<Rightarrow> hash256" where
  "bits_to_key bits = hash_from_bytes (fold set_key_bit (enumerate0 (take 256 bits)) (replicate 32 0))"

record smt_proof =
  smt_siblings :: "hash256 list"
  smt_key :: hash256
  smt_value :: "bytes option"

record sparse_merkle_tree =
  smt_leaves :: "(hash256, bytes) btree_map"

definition smt_new :: sparse_merkle_tree where
  "smt_new = \<lparr>smt_leaves = bm_empty\<rparr>"

definition smt_len :: "sparse_merkle_tree \<Rightarrow> nat" where
  "smt_len t = bm_len (smt_leaves t)"

definition smt_is_empty :: "sparse_merkle_tree \<Rightarrow> bool" where
  "smt_is_empty t = bm_is_empty (smt_leaves t)"

definition has_leaf_with_prefix :: "sparse_merkle_tree \<Rightarrow> bool list \<Rightarrow> bool" where
  "has_leaf_with_prefix t pre =
     list_ex (\<lambda>key. list_all (\<lambda>(i, b). get_bit key i = b) (enumerate0 pre)) (bm_keys (smt_leaves t))"

fun compute_node :: "blake3 \<Rightarrow> sparse_merkle_tree \<Rightarrow> nat \<Rightarrow> bool list \<Rightarrow> hash256" where
  "compute_node blake3 t 0 path =
     (if length path = TREE_DEPTH
      then case bm_get (smt_leaves t) (bits_to_key path) of
             Some v \<Rightarrow> smt_hash_leaf blake3 v | None \<Rightarrow> default_hash blake3 0
      else default_hash blake3 0)"
| "compute_node blake3 t (Suc level) path =
     (if \<not> has_leaf_with_prefix t path then default_hash blake3 (Suc level)
      else smt_hash_pair blake3 (compute_node blake3 t level (path @ [False]))
             (compute_node blake3 t level (path @ [True])))"

definition smt_root :: "blake3 \<Rightarrow> sparse_merkle_tree \<Rightarrow> hash256" where
  "smt_root blake3 t =
     (if bm_is_empty (smt_leaves t) then default_hash blake3 TREE_DEPTH
      else compute_node blake3 t TREE_DEPTH [])"

definition key_prefix :: "hash256 \<Rightarrow> nat \<Rightarrow> bool list" where
  "key_prefix key depth = map (get_bit key) [0..<depth]"

definition flip_last :: "bool list \<Rightarrow> bool list" where
  "flip_last bs = (if bs = [] then [] else butlast bs @ [\<not> last bs])"

definition sibling_hash :: "blake3 \<Rightarrow> sparse_merkle_tree \<Rightarrow> hash256 \<Rightarrow> nat \<Rightarrow> hash256" where
  "sibling_hash blake3 t key level =
     (let depth = TREE_DEPTH - level
      in compute_node blake3 t level (flip_last (key_prefix key depth)))"

definition smt_insert ::
  "blake3 \<Rightarrow> sparse_merkle_tree \<Rightarrow> hash256 \<Rightarrow> bytes \<Rightarrow> (hash256, dag_error) result \<times> sparse_merkle_tree" where
  "smt_insert blake3 t key v =
     (if v = [] then (Err (SmtError ''empty value''), t)
      else let t' = t\<lparr>smt_leaves := bm_insert key v (smt_leaves t)\<rparr> in (Ok (smt_root blake3 t'), t'))"

definition smt_get :: "sparse_merkle_tree \<Rightarrow> hash256 \<Rightarrow> bytes option" where
  "smt_get t key = bm_get (smt_leaves t) key"

definition smt_prove :: "blake3 \<Rightarrow> sparse_merkle_tree \<Rightarrow> hash256 \<Rightarrow> smt_proof" where
  "smt_prove blake3 t key =
     \<lparr>smt_siblings = map (\<lambda>level. sibling_hash blake3 t key (level - 1)) [1..<TREE_DEPTH + 1],
      smt_key = key, smt_value = bm_get (smt_leaves t) key\<rparr>"

fun smt_climb :: "blake3 \<Rightarrow> hash256 \<Rightarrow> (nat \<times> hash256) list \<Rightarrow> hash256 \<Rightarrow> hash256" where
  "smt_climb blake3 key [] current = current"
| "smt_climb blake3 key ((i, sibling) # sibs) current =
     (let depth = TREE_DEPTH - 1 - i
      in smt_climb blake3 key sibs
           (if get_bit key depth then smt_hash_pair blake3 sibling current
            else smt_hash_pair blake3 current sibling))"

definition smt_leaf_hash :: "blake3 \<Rightarrow> bytes option \<Rightarrow> hash256" where
  "smt_leaf_hash blake3 v = (case v of Some x \<Rightarrow> smt_hash_leaf blake3 x | None \<Rightarrow> default_hash blake3 0)"

definition smt_verify_proof ::
  "blake3 \<Rightarrow> hash256 \<Rightarrow> hash256 \<Rightarrow> bytes option \<Rightarrow> smt_proof \<Rightarrow> bool" where
  "smt_verify_proof blake3 root key v p =
     (if length (smt_siblings p) \<noteq> TREE_DEPTH then False
      else smt_climb blake3 key (enumerate0 (smt_siblings p)) (smt_leaf_hash blake3 v) = root)"

section \<open>Keys and their bits\<close>

lemma get_bit_iff: "get_bit key pos = bit (hash_bytes key ! (pos div 8)) (7 - pos mod 8)"
  by (simp add: get_bit_def Let_def bit_iff_odd_drop_bit and_one_eq odd_iff_mod_2_eq_one)

lemma length_set_key_bit [simp]: "length (set_key_bit ib bs) = length bs"
  by (simp add: set_key_bit_def split: prod.splits)

lemma length_fold_set_key_bit [simp]: "length (fold set_key_bit ibs bs) = length bs"
  by (induction ibs arbitrary: bs) simp_all

lemma div_mod_8: "m < 8 \<Longrightarrow> (m + 8 * k) div 8 = k \<and> (m + 8 * k) mod 8 = m" for m k :: nat
  by simp

lemma key_bit_index:
  assumes "j < (8 :: nat)"
  shows "(8 * k + 7 - j) div 8 = k" and "7 - (8 * k + 7 - j) mod 8 = j"
proof -
  have e: "8 * k + 7 - j = (7 - j) + 8 * k" and j: "7 - (7 - j) = j" using assms by simp_all
  have "7 - j < 8" by simp
  from div_mod_8 [OF this, of k] j
  show "(8 * k + 7 - j) div 8 = k" "7 - (8 * k + 7 - j) mod 8 = j" by (simp_all only: e)
qed

lemma key_bit_index_iff:
  assumes "j < (8 :: nat)"
  shows "i = 8 * k + (7 - j) \<longleftrightarrow> i div 8 = k \<and> 7 - i mod 8 = j"
proof
  assume "i div 8 = k \<and> 7 - i mod 8 = j"
  moreover have "i mod 8 < 8" by simp
  ultimately have "i div 8 = k" "i mod 8 = 7 - j" by auto
  then show "i = 8 * k + (7 - j)" using mult_div_mod_eq [of 8 i] by simp
qed (use key_bit_index [OF assms, of k] assms in auto)

lemma bit_set_key_bit:
  assumes "i div 8 < length bs" and "j < 8" and "k < length bs"
  shows "bit (set_key_bit (i, b) bs ! k) j \<longleftrightarrow> bit (bs ! k) j \<or> b \<and> i = 8 * k + (7 - j)"
proof -
  from key_bit_index_iff [OF assms(2)]
  have "i = 8 * k + (7 - j) \<longleftrightarrow> i div 8 = k \<and> 7 - i mod 8 = j" .
  then show ?thesis
    using assms by (auto simp: set_key_bit_def nth_list_update bit_or_iff bit_exp_iff)
qed

lemma bit_fold_set_key_bit:
  assumes "\<forall>(i, b) \<in> set ibs. i div 8 < length bs" and "j < 8" and "k < length bs"
  shows "bit (fold set_key_bit ibs bs ! k) j \<longleftrightarrow>
           bit (bs ! k) j \<or> (8 * k + (7 - j), True) \<in> set ibs"
  using assms(1,3)
proof (induction ibs arbitrary: bs)
  case (Cons ib ibs)
  obtain i b where ib: "ib = (i, b)" by (cases ib)
  with Cons.prems have "bit (set_key_bit ib bs ! k) j \<longleftrightarrow> bit (bs ! k) j \<or> b \<and> i = 8 * k + (7 - j)"
    using assms(2) by (simp add: bit_set_key_bit)
  with Cons ib show ?case by auto
qed simp

text \<open>Reading the bits of a key and packing them again gives the key.\<close>

lemma bits_to_key_prefix: "bits_to_key (key_prefix key 256) = key"
proof -
  let ?bs = "fold set_key_bit (enumerate0 (key_prefix key 256)) (replicate 32 0)"
  have "?bs = hash_bytes key"
  proof (rule nth_equalityI)
    fix k
    assume "k < length ?bs"
    then have k: "k < 32" by simp
    show "?bs ! k = hash_bytes key ! k"
    proof (rule bit_word_eqI)
      fix j
      assume j: "j < LENGTH(8)"
      have "bit (?bs ! k) j \<longleftrightarrow> (8 * k + (7 - j), True) \<in> set (enumerate0 (key_prefix key 256))"
        using j k by (subst bit_fold_set_key_bit) (auto simp: in_set_enumerate0 key_prefix_def)
      also have "\<dots> \<longleftrightarrow> get_bit key (8 * k + (7 - j))"
        using j k by (auto simp: in_set_enumerate0 key_prefix_def)
      also have "\<dots> \<longleftrightarrow> bit (hash_bytes key ! k) j"
        using j key_bit_index [of j k] by (simp add: get_bit_iff)
      finally show "bit (?bs ! k) j \<longleftrightarrow> bit (hash_bytes key ! k) j" .
    qed
  qed simp
  then show ?thesis
    by (simp add: bits_to_key_def key_prefix_def)
qed

section \<open>The full tree\<close>

lemma has_leaf_with_prefix_iff:
  "has_leaf_with_prefix t pre \<longleftrightarrow>
     (\<exists>key. bm_contains (smt_leaves t) key \<and> (\<forall>i < length pre. get_bit key i = pre ! i))"
  unfolding has_leaf_with_prefix_def list_ex_iff list_all_iff set_bm_keys
  by (simp add: Ball_def split_paired_All in_set_enumerate0)

lemma has_leaf_prefix_extend: "\<not> has_leaf_with_prefix t pre \<Longrightarrow> \<not> has_leaf_with_prefix t (pre @ [b])"
  by (auto simp: has_leaf_with_prefix_iff nth_append)

lemma set_key_bits_unique:
  "length path = 256 \<Longrightarrow> \<forall>i < 256. get_bit key i = path ! i \<Longrightarrow> path = key_prefix key 256"
  by (auto simp: key_prefix_def intro: nth_equalityI)

lemma get_bit_bits_to_key:
  assumes "length path = 256" and "i < 256"
  shows "get_bit (bits_to_key path) i = path ! i"
proof -
  let ?bs = "fold set_key_bit (enumerate0 path) (replicate 32 0)"
  have "bit (?bs ! (i div 8)) (7 - i mod 8) \<longleftrightarrow>
      (8 * (i div 8) + (7 - (7 - i mod 8)), True) \<in> set (enumerate0 path)"
    using assms by (subst bit_fold_set_key_bit) (auto simp: in_set_enumerate0)
  moreover have "7 - (7 - i mod 8) = i mod 8" by (rule diff_diff_cancel) (use mod_less_divisor [of 8 i] in simp)
  ultimately show ?thesis
    using assms by (simp add: get_bit_iff bits_to_key_def hash_bytes_from_bytes in_set_enumerate0)
qed

text \<open>A subtree without leaves has the default hash, so every inner node is the pair of its children.\<close>

lemma compute_node_empty:
  assumes "\<not> has_leaf_with_prefix t path" and "length path + level = 256"
  shows "compute_node blake3 t level path = default_hash blake3 level"
proof (cases level)
  case 0
  have "\<not> bm_contains (smt_leaves t) (bits_to_key path)"
    using assms 0 get_bit_bits_to_key by (auto simp: has_leaf_with_prefix_iff)
  with 0 show ?thesis by (simp add: bm_contains_def)
qed (use assms in simp)

lemma compute_node_Suc:
  assumes "length path + Suc level = 256"
  shows "compute_node blake3 t (Suc level) path =
           smt_hash_pair blake3 (compute_node blake3 t level (path @ [False]))
             (compute_node blake3 t level (path @ [True]))"
  using assms has_leaf_prefix_extend [of t path]
  by (simp add: compute_node_empty smt_hash_pair_def smt_pair_bytes_def Let_def)

lemma smt_root_compute: "smt_root blake3 t = compute_node blake3 t 256 []"
  by (simp add: smt_root_def compute_node_empty has_leaf_with_prefix_iff bm_is_empty_iff bm_contains_def)

lemma compute_node_leaf:
  "compute_node blake3 t 0 (key_prefix key 256) = smt_leaf_hash blake3 (smt_get t key)"
  by (simp add: bits_to_key_prefix smt_leaf_hash_def smt_get_def key_prefix_def split: option.splits)
     (simp add: bits_to_key_prefix [unfolded key_prefix_def])

section \<open>Proofs as paths\<close>

interpretation smt: hash_tree smt_pair_bytes
  by unfold_locales (simp add: smt_pair_bytes_def)

definition smt_steps :: "hash256 \<Rightarrow> hash256 list \<Rightarrow> path_step list" where
  "smt_steps key sibs = map (\<lambda>(i, s). (get_bit key (TREE_DEPTH - 1 - i), s)) (enumerate0 sibs)"

lemma smt_climb_path:
  "smt_climb blake3 key isibs x =
     path_hash blake3 smt_pair_bytes (map (\<lambda>(i, s). (get_bit key (TREE_DEPTH - 1 - i), s)) isibs) x"
  by (induction blake3 key isibs x rule: smt_climb.induct)
     (simp_all add: smt_hash_pair_def step_bytes_def Let_def)

lemma smt_steps_snoc:
  "smt_steps key (sibs @ [s]) = smt_steps key sibs @ [(get_bit key (TREE_DEPTH - 1 - length sibs), s)]"
  by (simp add: smt_steps_def enumerate_append_eq)

lemma map_fst_smt_steps: "map fst (smt_steps key sibs) = map (\<lambda>i. get_bit key (TREE_DEPTH - 1 - i)) [0..<length sibs]"
  by (rule nth_equalityI) (simp_all add: smt_steps_def nth_enumerate_eq)

lemma map_snd_smt_steps [simp]: "map snd (smt_steps key sibs) = sibs"
  by (rule nth_equalityI) (simp_all add: smt_steps_def nth_enumerate_eq)

definition smt_sibs :: "blake3 \<Rightarrow> sparse_merkle_tree \<Rightarrow> hash256 \<Rightarrow> nat \<Rightarrow> hash256 list" where
  "smt_sibs blake3 t key n = map (sibling_hash blake3 t key) [0..<n]"

lemma smt_prove_siblings: "smt_siblings (smt_prove blake3 t key) = smt_sibs blake3 t key 256"
  by (simp add: smt_prove_def smt_sibs_def) (rule nth_equalityI; simp)

lemma key_prefix_Suc: "key_prefix key (Suc n) = key_prefix key n @ [get_bit key n]"
  by (simp add: key_prefix_def)

lemma smt_path_computes:
  "n \<le> 256 \<Longrightarrow>
     path_hash blake3 smt_pair_bytes (smt_steps key (smt_sibs blake3 t key n)) (smt_leaf_hash blake3 (smt_get t key)) =
       compute_node blake3 t n (key_prefix key (256 - n))"
proof (induction n)
  case 0
  show ?case by (simp add: smt_sibs_def smt_steps_def compute_node_leaf del: compute_node.simps)
next
  case (Suc n)
  let ?pre = "key_prefix key (256 - Suc n)"
  from Suc.prems have eq: "256 - n = Suc (256 - Suc n)" by simp
  have len: "length ?pre + Suc n = 256" using Suc.prems by (simp add: key_prefix_def)
  have sib: "sibling_hash blake3 t key n = compute_node blake3 t n (?pre @ [\<not> get_bit key (256 - Suc n)])"
    by (simp add: sibling_hash_def eq key_prefix_Suc flip_last_def)
  have "smt_sibs blake3 t key (Suc n) = smt_sibs blake3 t key n @ [sibling_hash blake3 t key n]"
    "length (smt_sibs blake3 t key n) = n"
    by (simp_all add: smt_sibs_def)
  with Suc.IH Suc.prems compute_node_Suc [OF len, of blake3 t] show ?case
    by (simp add: smt_steps_snoc eq key_prefix_Suc sib step_bytes_def smt_hash_pair_def
        del: compute_node.simps)
qed

text \<open>
  Sparse-tree proofs are complete: for every tree and every key, the proof \<open>prove\<close> returns is
  accepted against the root of the tree, as an inclusion proof of the stored value or, for a key
  that is not stored, as a proof of absence.
\<close>

theorem smt_proof_complete:
  "smt_verify_proof blake3 (smt_root blake3 t) key (smt_get t key) (smt_prove blake3 t key)"
  using smt_path_computes [of 256 blake3 key t]
  by (simp add: smt_verify_proof_def smt_prove_siblings smt_climb_path smt_root_compute key_prefix_def
      smt_steps_def smt_sibs_def del: compute_node.simps)

section \<open>Soundness\<close>

definition smt_leaf_bytes :: "bytes option \<Rightarrow> bytes" where
  "smt_leaf_bytes v = (case v of Some x \<Rightarrow> str_bytes ''smt:leaf:'' @ x | None \<Rightarrow> str_bytes ''smt:empty:leaf'')"

lemma smt_leaf_hash_digest: "smt_leaf_hash blake3 v = digest blake3 (smt_leaf_bytes v)"
  by (simp add: smt_leaf_hash_def smt_leaf_bytes_def smt_hash_leaf_def split: option.splits)

lemma smt_leaf_bytes_inject [simp]: "smt_leaf_bytes v = smt_leaf_bytes w \<longleftrightarrow> v = w"
  by (cases v; cases w) (auto simp: smt_leaf_bytes_def str_bytes_def)

text \<open>The strings hashed when a value is checked against a root with given siblings.\<close>

definition smt_inputs :: "blake3 \<Rightarrow> hash256 \<Rightarrow> bytes option \<Rightarrow> hash256 list \<Rightarrow> bytes list" where
  "smt_inputs blake3 key v sibs =
     smt_leaf_bytes v # path_bytes blake3 smt_pair_bytes (smt_steps key sibs) (smt_leaf_hash blake3 v)"

lemma smt_verify_path:
  "smt_verify_proof blake3 root key v p \<longleftrightarrow>
     length (smt_siblings p) = 256 \<and>
     path_hash blake3 smt_pair_bytes (smt_steps key (smt_siblings p)) (smt_leaf_hash blake3 v) = root"
  by (auto simp: smt_verify_proof_def smt_climb_path smt_steps_def)

text \<open>
  C15: sparse-tree proofs are sound and unique. When the hash has no collision among the strings hashed
  for the stored value and for the candidate, a candidate value (or absence) with a candidate proof is
  accepted for a key exactly when it is the value stored at the key (or nothing is) and the siblings
  are the ones \<open>prove\<close> returns: no value can be proved for an absent key, nor absence for a stored one.
\<close>

theorem smt_proof_sound:
  assumes "inj_on blake3 (set (smt_inputs blake3 key (smt_get t key) (smt_siblings (smt_prove blake3 t key))) \<union>
                          set (smt_inputs blake3 key v (smt_siblings p)))"
  shows "smt_verify_proof blake3 (smt_root blake3 t) key v p \<longleftrightarrow>
           v = smt_get t key \<and> smt_siblings p = smt_siblings (smt_prove blake3 t key)"
proof
  let ?sibs = "smt_siblings (smt_prove blake3 t key)" and ?w = "smt_get t key"
  assume "smt_verify_proof blake3 (smt_root blake3 t) key v p"
  then have len: "length (smt_siblings p) = 256"
    and v: "path_hash blake3 smt_pair_bytes (smt_steps key (smt_siblings p)) (smt_leaf_hash blake3 v) = smt_root blake3 t"
    by (simp_all add: smt_verify_path)
  have w: "path_hash blake3 smt_pair_bytes (smt_steps key ?sibs) (smt_leaf_hash blake3 ?w) = smt_root blake3 t"
    using smt_path_computes [of 256 blake3 key t]
    by (simp add: smt_prove_siblings smt_root_compute key_prefix_def del: compute_node.simps)
  have "map fst (smt_steps key (smt_siblings p)) = map fst (smt_steps key ?sibs)"
    by (simp add: map_fst_smt_steps len smt_prove_siblings smt_sibs_def)
  then have "smt_leaf_hash blake3 v = smt_leaf_hash blake3 ?w \<and>
      smt_steps key (smt_siblings p) = smt_steps key ?sibs"
    using v w by (intro smt.path_unique [of blake3]) (auto simp: smt_inputs_def intro: inj_on_subset [OF assms])
  moreover from this have "smt_leaf_bytes v = smt_leaf_bytes ?w"
    by (intro digest_inj_onD [OF _ assms]) (simp_all add: smt_leaf_hash_digest smt_inputs_def)
  ultimately show "v = ?w \<and> smt_siblings p = ?sibs"
    using map_snd_smt_steps by (metis smt_leaf_bytes_inject)
next
  assume "v = smt_get t key \<and> smt_siblings p = smt_siblings (smt_prove blake3 t key)"
  then show "smt_verify_proof blake3 (smt_root blake3 t) key v p"
    using smt_path_computes [of 256 blake3 key t]
    by (simp add: smt_verify_path smt_prove_siblings smt_root_compute smt_sibs_def key_prefix_def
        del: compute_node.simps)
qed

text \<open>A hash that counts the levels below a node separates the strings on every honest path.\<close>

definition enc_count :: "nat \<Rightarrow> arr32" where
  "enc_count n = arr32_of [of_nat (n mod 256), of_nat (n div 256)]"

definition dec_count :: "bytes \<Rightarrow> nat" where
  "dec_count bs = unat (bs ! 0) + 256 * unat (bs ! 1)"

definition level_hash :: blake3 where
  "level_hash bs = enc_count (if length bs = 64 then Suc (dec_count (take 32 bs)) else 0)"

lemma dec_enc_count: "n < 65536 \<Longrightarrow> dec_count (hash_bytes (Hash256 (enc_count n))) = n"
  by (simp add: dec_count_def hash_bytes_def enc_count_def bytes32_of unat_of_nat)

lemma level_hash_pair:
  "smt_hash_pair level_hash l r = Hash256 (enc_count (Suc (dec_count (hash_bytes l))))"
  by (simp add: smt_hash_pair_def smt_pair_bytes_def digest_def level_hash_def)

definition short_values :: "sparse_merkle_tree \<Rightarrow> bool" where
  "short_values t \<longleftrightarrow> (\<forall>key v. smt_get t key = Some v \<longrightarrow> length v < 55)"

lemma level_hash_node:
  "short_values t \<Longrightarrow> length path + n = 256 \<Longrightarrow> compute_node level_hash t n path = Hash256 (enc_count n)"
proof (induction n arbitrary: path)
  case 0
  then show ?case
    by (fastforce simp: short_values_def smt_get_def smt_hash_leaf_def digest_def level_hash_def split: option.splits)
next
  case (Suc n)
  then have "compute_node level_hash t n (path @ [b]) = Hash256 (enc_count n)" for b by simp
  moreover have "n < 65536" using Suc.prems by simp
  ultimately show ?case
    using Suc.prems
    by (simp add: compute_node_Suc level_hash_pair dec_enc_count del: compute_node.simps)
qed

lemma level_hash_outputs:
  assumes "short_values t"
  shows "n \<le> 256 \<Longrightarrow>
    map (digest level_hash) (smt_inputs level_hash key (smt_get t key) (smt_sibs level_hash t key n)) =
      map (\<lambda>i. Hash256 (enc_count i)) [0..<Suc n]"
proof (induction n)
  case 0
  have "smt_leaf_hash level_hash (smt_get t key) = Hash256 (enc_count 0)"
    using level_hash_node [OF assms, of "key_prefix key 256" 0] compute_node_leaf [of level_hash t key]
    by (simp add: key_prefix_def del: compute_node.simps)
  then show ?case
    by (simp add: smt_inputs_def smt_sibs_def smt_steps_def smt_leaf_hash_digest)
next
  case (Suc n)
  have "smt_sibs level_hash t key (Suc n) = smt_sibs level_hash t key n @ [sibling_hash level_hash t key n]"
    by (simp add: smt_sibs_def)
  moreover have "length (key_prefix key (256 - Suc n)) + Suc n = 256"
    using Suc.prems by (simp add: key_prefix_def)
  ultimately show ?case
    using Suc smt_path_computes [OF Suc.prems, of level_hash key t] level_hash_node [OF assms, of _ "Suc n"]
    by (simp add: smt_inputs_def smt_steps_snoc del: compute_node.simps)
qed

lemma level_hash_inj:
  assumes "short_values t"
  shows "inj_on level_hash (set (smt_inputs level_hash key (smt_get t key) (smt_siblings (smt_prove level_hash t key))))"
proof -
  have "inj_on (\<lambda>i. Hash256 (enc_count i)) (set [0..<Suc 256])"
    by (rule inj_on_inverseI [where g = "\<lambda>h. dec_count (hash_bytes h)"]) (simp add: dec_enc_count)
  then have "distinct (map (\<lambda>i. Hash256 (enc_count i)) [0..<Suc 256])"
    by (simp only: distinct_map distinct_upt simp_thms)
  then have "distinct (map (digest level_hash) (smt_inputs level_hash key (smt_get t key) (smt_sibs level_hash t key 256)))"
    using level_hash_outputs [OF assms, of 256 key] by (simp only: le_refl simp_thms)
  then show ?thesis
    by (simp add: smt_prove_siblings distinct_map digest_def inj_on_def)
qed

theorem smt_proof_sound_witness:
  "smt_verify_proof level_hash (smt_root level_hash (snd (smt_insert level_hash smt_new HASH_ZERO [7])))
     HASH_ZERO (Some [7]) (smt_prove level_hash (snd (smt_insert level_hash smt_new HASH_ZERO [7])) HASH_ZERO)"
proof -
  let ?t = "snd (smt_insert level_hash smt_new HASH_ZERO [7])"
  have "smt_get ?t HASH_ZERO = Some [7]"
    by (simp add: smt_insert_def Let_def smt_get_def)
  moreover have short: "short_values ?t"
    by (simp add: short_values_def smt_insert_def Let_def smt_get_def smt_new_def)
  ultimately show ?thesis
    using smt_proof_sound [of level_hash HASH_ZERO ?t "Some [7]" "smt_prove level_hash ?t HASH_ZERO"]
      level_hash_inj [OF short, of HASH_ZERO] by simp
qed

end
