(* ===== verification/Mmr.thy ===== *)
theory Mmr
  imports Hash_Tree
begin

text \<open>
  The Merkle mountain range of \<open>src/crates/exo-dag/src/mmr.rs\<close>: a list of perfect binary trees, each
  stored as an array in level order, merged as leaves are appended. Heights and counts are natural
  numbers: a peak of height \<open>h\<close> holds \<open>2 ^ (h + 1) - 1\<close> hashes in memory, so no \<open>u32\<close> height
  or \<open>usize\<close> count can wrap. \<open>verify_proof\<close> takes its depth from the proof it is given, and there the
  64-bit wrap-around of the shift and of the index is written out.
\<close>

section \<open>Hashing\<close>

definition mmr_node_bytes :: "hash256 \<Rightarrow> hash256 \<Rightarrow> bytes" where
  "mmr_node_bytes left right = str_bytes ''mmr:node:'' @ hash_bytes left @ hash_bytes right"

definition mmr_hash_pair :: "blake3 \<Rightarrow> hash256 \<Rightarrow> hash256 \<Rightarrow> hash256" where
  "mmr_hash_pair blake3 left right = digest blake3 (mmr_node_bytes left right)"

definition mmr_leaf_bytes :: "hash256 \<Rightarrow> bytes" where
  "mmr_leaf_bytes d = str_bytes ''mmr:leaf:'' @ hash_bytes d"

definition mmr_hash_leaf :: "blake3 \<Rightarrow> hash256 \<Rightarrow> hash256" where
  "mmr_hash_leaf blake3 d = digest blake3 (mmr_leaf_bytes d)"

definition peaks_bytes :: "hash256 list \<Rightarrow> bytes" where
  "peaks_bytes peaks = str_bytes ''mmr:peaks:'' @ concat (map hash_bytes peaks)"

definition bag_peaks :: "blake3 \<Rightarrow> hash256 list \<Rightarrow> hash256" where
  "bag_peaks blake3 peaks =
     (if peaks = [] then digest blake3 (str_bytes ''mmr:empty'')
      else if length peaks = 1 then peaks ! 0
      else digest blake3 (peaks_bytes peaks))"

section \<open>Peaks\<close>

record mmr_proof =
  mmr_siblings :: "hash256 list"
  peak_index :: nat
  proof_peaks :: "hash256 list"

record peak =
  pk_hash :: hash256
  pk_height :: nat
  leaf_count :: nat
  pk_nodes :: "hash256 list"

definition from_leaf :: "hash256 \<Rightarrow> peak" where
  "from_leaf leaf_hash = \<lparr>pk_hash = leaf_hash, pk_height = 0, leaf_count = 1, pk_nodes = [leaf_hash]\<rparr>"

function copy_subtree :: "hash256 list \<Rightarrow> nat \<Rightarrow> hash256 list \<Rightarrow> nat \<Rightarrow> hash256 list" where
  "copy_subtree dst dst_idx src src_idx =
     (if src_idx \<ge> length src \<or> dst_idx \<ge> length dst then dst
      else let dst1 = dst[dst_idx := src ! src_idx];
               dst2 = copy_subtree dst1 (2 * dst_idx + 1) src (2 * src_idx + 1)
           in copy_subtree dst2 (2 * dst_idx + 2) src (2 * src_idx + 2))"
  by pat_completeness auto
termination by (relation "measure (\<lambda>(dst, di, src, si). length src - si)") auto

declare copy_subtree.simps [simp del]

definition peak_merge :: "blake3 \<Rightarrow> peak \<Rightarrow> peak \<Rightarrow> peak" where
  "peak_merge blake3 left right =
     (let new_hash = mmr_hash_pair blake3 (pk_hash left) (pk_hash right);
          new_leaf_count = leaf_count left + leaf_count right;
          total_nodes = 2 * new_leaf_count - 1;
          nodes = (replicate total_nodes HASH_ZERO)[0 := new_hash];
          nodes1 = copy_subtree nodes 1 (pk_nodes left) 0;
          nodes2 = copy_subtree nodes1 2 (pk_nodes right) 0
      in \<lparr>pk_hash = new_hash, pk_height = pk_height left + 1, leaf_count = new_leaf_count,
          pk_nodes = nodes2\<rparr>)"

function sib_loop :: "hash256 list \<Rightarrow> nat \<Rightarrow> hash256 list" where
  "sib_loop nodes node_idx =
     (if node_idx = 0 then []
      else let sibling = (if node_idx mod 2 = 1 then node_idx + 1 else node_idx - 1);
               rest = sib_loop nodes ((node_idx - 1) div 2)
           in if sibling < length nodes then nodes ! sibling # rest else rest)"
  by pat_completeness auto
termination by (relation "measure snd") auto

declare sib_loop.simps [simp del]

definition peak_proof_path :: "peak \<Rightarrow> nat \<Rightarrow> hash256 list" where
  "peak_proof_path p local_leaf_idx =
     (if leaf_count p \<le> 1 then []
      else sib_loop (pk_nodes p) (leaf_count p - 1 + local_leaf_idx))"

section \<open>The range\<close>

record mountain_range =
  mmr_leaves :: "hash256 list"
  mmr_peaks :: "peak list"

definition mmr_new :: mountain_range where
  "mmr_new = \<lparr>mmr_leaves = [], mmr_peaks = []\<rparr>"

definition mmr_len :: "mountain_range \<Rightarrow> nat" where
  "mmr_len m = length (mmr_leaves m)"

definition mmr_is_empty :: "mountain_range \<Rightarrow> bool" where
  "mmr_is_empty m = (mmr_leaves m = [])"

function merge_peaks :: "blake3 \<Rightarrow> peak list \<Rightarrow> peak \<Rightarrow> peak list" where
  "merge_peaks blake3 peaks new_peak =
     (if peaks \<noteq> [] \<and> pk_height (last peaks) = pk_height new_peak
      then merge_peaks blake3 (butlast peaks) (peak_merge blake3 (last peaks) new_peak)
      else peaks @ [new_peak])"
  by pat_completeness auto
termination by (relation "measure (\<lambda>(b, ps, p). length ps)") auto

declare merge_peaks.simps [simp del]

definition mmr_append :: "blake3 \<Rightarrow> mountain_range \<Rightarrow> hash256 \<Rightarrow> mountain_range \<times> nat" where
  "mmr_append blake3 m leaf =
     (m\<lparr>mmr_leaves := mmr_leaves m @ [leaf],
        mmr_peaks := merge_peaks blake3 (mmr_peaks m) (from_leaf (mmr_hash_leaf blake3 leaf))\<rparr>,
      length (mmr_leaves m))"

definition mmr_root :: "blake3 \<Rightarrow> mountain_range \<Rightarrow> hash256" where
  "mmr_root blake3 m = bag_peaks blake3 (map pk_hash (mmr_peaks m))"

text \<open>The loop over the peaks; \<open>i\<close> and \<open>leaf_offset\<close> are its variables, \<open>0\<close> is the initial \<open>peak_idx\<close>.\<close>

fun find_peak :: "peak list \<Rightarrow> nat \<Rightarrow> nat \<Rightarrow> nat \<Rightarrow> nat \<times> nat" where
  "find_peak [] position i leaf_offset = (0, leaf_offset)"
| "find_peak (p # ps) position i leaf_offset =
     (if position < leaf_offset + leaf_count p then (i, leaf_offset)
      else find_peak ps position (Suc i) (leaf_offset + leaf_count p))"

definition mmr_prove :: "mountain_range \<Rightarrow> nat \<Rightarrow> mmr_proof" where
  "mmr_prove m position =
     (let peak_hashes = map pk_hash (mmr_peaks m)
      in if position \<ge> length (mmr_leaves m)
         then \<lparr>mmr_siblings = [], peak_index = 0, proof_peaks = peak_hashes\<rparr>
         else let (peak_idx, leaf_offset) = find_peak (mmr_peaks m) position 0 0;
                  local_leaf_idx = position - leaf_offset
              in \<lparr>mmr_siblings = peak_proof_path (mmr_peaks m ! peak_idx) local_leaf_idx,
                  peak_index = peak_idx, proof_peaks = peak_hashes\<rparr>)"

text \<open>\<open>n - 1\<close> on \<open>usize\<close>.\<close>

definition usize_pred :: "nat \<Rightarrow> nat" where
  "usize_pred n = (if n = 0 then 2 ^ 64 - 1 else n - 1)"

fun mmr_climb :: "blake3 \<Rightarrow> nat \<Rightarrow> hash256 list \<Rightarrow> hash256 \<Rightarrow> hash256" where
  "mmr_climb blake3 node_idx [] current = current"
| "mmr_climb blake3 node_idx (sibling # sibs) current =
     mmr_climb blake3 (usize_pred node_idx div 2) sibs
       (if node_idx mod 2 = 1 then mmr_hash_pair blake3 current sibling
        else mmr_hash_pair blake3 sibling current)"

definition mmr_verify_proof :: "blake3 \<Rightarrow> hash256 \<Rightarrow> hash256 \<Rightarrow> nat \<Rightarrow> mmr_proof \<Rightarrow> bool" where
  "mmr_verify_proof blake3 root leaf position p =
     (if proof_peaks p = [] then False
      else if peak_index p \<ge> length (proof_peaks p) then False
      else
        let depth = length (mmr_siblings p);
            tree_leaves = 2 ^ (depth mod 64);
            local_idx = position mod tree_leaves;
            current = mmr_climb blake3 ((tree_leaves - 1) + local_idx) (mmr_siblings p) (mmr_hash_leaf blake3 leaf)
        in if current \<noteq> proof_peaks p ! peak_index p then False
           else bag_peaks blake3 (proof_peaks p) = root)"

section \<open>Array indices as paths\<close>

text \<open>The index reached from \<open>r\<close> by going left (\<open>False\<close>) and right, and the leaf number of a path.\<close>

primrec nodeix :: "nat \<Rightarrow> bool list \<Rightarrow> nat" where
  "nodeix r [] = r"
| "nodeix r (b # t) = nodeix (2 * r + 1 + of_bool b) t"

primrec path_val :: "bool list \<Rightarrow> nat" where
  "path_val [] = 0"
| "path_val (b # t) = of_bool b * 2 ^ length t + path_val t"

lemma nodeix_snoc: "nodeix r (t @ [b]) = 2 * nodeix r t + 1 + of_bool b"
  by (induction t arbitrary: r) simp_all

lemma path_val_snoc: "path_val (t @ [b]) = 2 * path_val t + of_bool b"
  by (induction t) (simp_all add: algebra_simps)

lemma path_val_less: "path_val t < 2 ^ length t"
  by (induction t) (auto simp: of_bool_def)

lemma nodeix_form: "Suc (nodeix r t) = Suc r * 2 ^ length t + path_val t"
  by (induction t arbitrary: r) (simp_all add: algebra_simps)

lemma nodeix_ge: "r \<le> nodeix r t"
proof (induction t arbitrary: r)
  case (Cons b t)
  from Cons [of "2 * r + 1 + of_bool b"] show ?case by simp
qed simp

lemma nodeix_inject: "nodeix r t = nodeix r u \<longleftrightarrow> t = u"
proof (induction t arbitrary: u rule: rev_induct)
  case Nil
  show ?case
  proof (cases u rule: rev_cases)
    case (snoc v c)
    with nodeix_ge [of r v] show ?thesis by (simp add: nodeix_snoc)
  qed simp
next
  case (snoc b t)
  show ?case
  proof (cases u rule: rev_cases)
    case Nil
    with nodeix_ge [of r t] show ?thesis by (simp add: nodeix_snoc)
  next
    case u: (snoc v c)
    have "2 * x + 1 + of_bool b = 2 * y + 1 + (of_bool c :: nat) \<longleftrightarrow> x = y \<and> b = c" for x y
      by (cases b; cases c) (simp_all, presburger+)
    with u snoc.IH [of v] show ?thesis by (simp add: nodeix_snoc)
  qed
qed

lemma nodeix_less: "nodeix 0 t < 2 ^ Suc h - 1 \<longleftrightarrow> length t \<le> h"
proof
  assume "length t \<le> h"
  then have "(2 :: nat) ^ length t \<le> 2 ^ h" by (simp add: power_increasing)
  with path_val_less [of t] nodeix_form [of 0 t] show "nodeix 0 t < 2 ^ Suc h - 1"
    by (simp del: power_increasing_iff)
next
  assume *: "nodeix 0 t < 2 ^ Suc h - 1"
  show "length t \<le> h"
  proof (rule ccontr)
    assume "\<not> length t \<le> h"
    then have "(2 :: nat) ^ Suc h \<le> 2 ^ length t" by (intro power_increasing) simp_all
    with * nodeix_form [of 0 t] show False by simp
  qed
qed

primrec bits_of_nat :: "nat \<Rightarrow> nat \<Rightarrow> bool list" where
  "bits_of_nat 0 n = []"
| "bits_of_nat (Suc k) n = bits_of_nat k (n div 2) @ [odd n]"

lemma length_bits_of_nat [simp]: "length (bits_of_nat k n) = k"
  by (induction k arbitrary: n) simp_all

lemma path_val_bits: "n < 2 ^ k \<Longrightarrow> path_val (bits_of_nat k n) = n"
proof (induction k arbitrary: n)
  case (Suc k)
  then have "n div 2 < 2 ^ k" by auto
  with Suc.IH show ?case by (simp add: path_val_snoc)
qed simp

lemma sib_loop_snoc:
  assumes "nodeix 0 (t @ [True]) < length nodes"
  shows "sib_loop nodes (nodeix 0 (t @ [b])) = nodes ! nodeix 0 (t @ [\<not> b]) # sib_loop nodes (nodeix 0 t)"
  using assms by (subst sib_loop.simps) (cases b; simp add: nodeix_snoc Let_def)

section \<open>Copying subtrees\<close>

lemma length_copy_subtree [simp]: "length (copy_subtree dst di src si) = length dst"
  by (induction dst di src si rule: copy_subtree.induct)
     (subst copy_subtree.simps, simp add: Let_def)

lemma copy_subtree_other:
  "(\<And>t. k \<noteq> nodeix di t) \<Longrightarrow> copy_subtree dst di src si ! k = dst ! k"
proof (induction dst di src si rule: copy_subtree.induct)
  case (1 dst di src si)
  have "k \<noteq> di" "k \<noteq> nodeix (2 * di + 1) t" "k \<noteq> nodeix (2 * di + 2) t" for t
    using 1(3) [of "[]"] 1(3) [of "False # t"] 1(3) [of "True # t"] by simp_all
  with 1(1,2) show ?case
    by (subst copy_subtree.simps) (simp add: Let_def)
qed

lemma copy_subtree_nodes:
  "nodeix si t < length src \<Longrightarrow> nodeix di t < length dst \<Longrightarrow>
     copy_subtree dst di src si ! nodeix di t = src ! nodeix si t"
proof (induction dst di src si arbitrary: t rule: copy_subtree.induct)
  case (1 dst di src si)
  let ?dst1 = "dst[di := src ! si]"
  let ?dst2 = "copy_subtree ?dst1 (2 * di + 1) src (2 * si + 1)"
  have bound: "si < length src" "di < length dst"
    using 1(3,4) nodeix_ge [of si t] nodeix_ge [of di t] by linarith+
  then have rec: "copy_subtree dst di src si = copy_subtree ?dst2 (2 * di + 2) src (2 * si + 2)"
    by (subst copy_subtree.simps) (simp add: Let_def)
  have left: "nodeix di (False # u) \<noteq> nodeix di (True # v)" "nodeix di [] \<noteq> nodeix di (b # u)" for u v b
    by (simp_all only: nodeix_inject) auto
  show ?case
  proof (cases t)
    case Nil
    have "copy_subtree dst di src si ! di = ?dst1 ! di"
      using left(2) [of True] left(2) [of False] by (simp add: rec copy_subtree_other)
    with Nil bound show ?thesis by simp
  next
    case (Cons b u)
    show ?thesis
    proof (cases b)
      case True
      with Cons 1(3,4) bound show ?thesis
        using 1(2) [of ?dst1 ?dst2 u] by (simp add: rec)
    next
      case False
      then have "copy_subtree dst di src si ! nodeix di t = ?dst2 ! nodeix di t"
        using left(1) [of u] Cons by (simp add: rec copy_subtree_other)
      also have "\<dots> = src ! nodeix si t"
        using False Cons 1(3,4) bound 1(1) [of ?dst1 u] by simp
      finally show ?thesis .
    qed
  qed
qed

section \<open>Well-formed peaks\<close>

definition tree_ok :: "blake3 \<Rightarrow> nat \<Rightarrow> hash256 list \<Rightarrow> hash256 list \<Rightarrow> bool" where
  "tree_ok blake3 h ls nodes \<longleftrightarrow>
     length nodes = 2 ^ Suc h - 1 \<and> length ls = 2 ^ h \<and>
     (\<forall>t. length t < h \<longrightarrow> nodes ! nodeix 0 t =
        mmr_hash_pair blake3 (nodes ! nodeix 0 (t @ [False])) (nodes ! nodeix 0 (t @ [True]))) \<and>
     (\<forall>t. length t = h \<longrightarrow> nodes ! nodeix 0 t = mmr_hash_leaf blake3 (ls ! path_val t))"

lemma tree_ok_pair:
  "tree_ok blake3 h ls nodes \<Longrightarrow> length t < h \<Longrightarrow> nodes ! nodeix 0 t =
     mmr_hash_pair blake3 (nodes ! nodeix 0 (t @ [False])) (nodes ! nodeix 0 (t @ [True]))"
  by (simp add: tree_ok_def)

lemma tree_ok_leaf:
  "tree_ok blake3 h ls nodes \<Longrightarrow> length t = h \<Longrightarrow>
     nodes ! nodeix 0 t = mmr_hash_leaf blake3 (ls ! path_val t)"
  by (simp add: tree_ok_def)

definition peak_ok :: "blake3 \<Rightarrow> peak \<Rightarrow> hash256 list \<Rightarrow> bool" where
  "peak_ok blake3 p ls \<longleftrightarrow> tree_ok blake3 (pk_height p) ls (pk_nodes p) \<and>
     pk_hash p = pk_nodes p ! 0 \<and> leaf_count p = 2 ^ pk_height p"

lemma peak_ok_from_leaf: "peak_ok blake3 (from_leaf (mmr_hash_leaf blake3 l)) [l]"
  by (simp add: peak_ok_def from_leaf_def tree_ok_def)

lemma merge_nodes:
  assumes "length (pk_nodes l) = 2 ^ Suc h - 1" and "length (pk_nodes r) = 2 ^ Suc h - 1"
    and "leaf_count l = 2 ^ h" and "leaf_count r = 2 ^ h"
  shows "length (pk_nodes (peak_merge blake3 l r)) = 2 ^ Suc (Suc h) - 1"
    and "pk_nodes (peak_merge blake3 l r) ! 0 = mmr_hash_pair blake3 (pk_hash l) (pk_hash r)"
    and "length t \<le> h \<Longrightarrow> pk_nodes (peak_merge blake3 l r) ! nodeix 0 (b # t) =
           (if b then pk_nodes r else pk_nodes l) ! nodeix 0 t"
proof -
  define n0 where "n0 = (replicate (2 * (2 ^ h + 2 ^ h) - 1) HASH_ZERO)[0 := mmr_hash_pair blake3 (pk_hash l) (pk_hash r)]"
  define n1 where "n1 = copy_subtree n0 1 (pk_nodes l) 0"
  define n2 where "n2 = copy_subtree n1 2 (pk_nodes r) 0"
  have n2: "pk_nodes (peak_merge blake3 l r) = n2"
    by (simp add: peak_merge_def Let_def assms n2_def n1_def n0_def)
  have len: "length n0 = 2 ^ Suc (Suc h) - 1" "length n1 = length n0" "length n2 = length n0"
    by (simp_all add: n2_def n1_def n0_def)
  then show "length (pk_nodes (peak_merge blake3 l r)) = 2 ^ Suc (Suc h) - 1" by (simp add: n2)
  have disj: "nodeix 1 u \<noteq> nodeix 2 v" "0 \<noteq> nodeix 1 u" "0 \<noteq> nodeix 2 u" for u v
    using nodeix_inject [of 0 "False # u" "True # v"] nodeix_ge [of 1 u] nodeix_ge [of 2 u]
    by (simp_all add: numeral_2_eq_2)
  have "n2 ! 0 = n1 ! 0" "n1 ! 0 = n0 ! 0" "n2 ! nodeix 1 t = n1 ! nodeix 1 t" for t
    unfolding n2_def n1_def by (rule copy_subtree_other, rule disj)+
  note other = this
  have "0 < 2 * (x + x) - (1 :: nat)" if "1 \<le> x" for x using that by arith
  from this [OF one_le_power] have "0 < 2 * (2 ^ h + 2 ^ h) - (1 :: nat)" by simp
  then have "n0 ! 0 = mmr_hash_pair blake3 (pk_hash l) (pk_hash r)"
    unfolding n0_def by (intro nth_list_update_eq) (simp only: length_replicate)
  with other(1,2) show "pk_nodes (peak_merge blake3 l r) ! 0 = mmr_hash_pair blake3 (pk_hash l) (pk_hash r)"
    by (simp only: n2)
  assume t: "length t \<le> h"
  then have src: "nodeix 0 t < 2 ^ Suc h - 1" and dst: "nodeix 0 (c # t) < length n0" for c
    using nodeix_less [of t h] nodeix_less [of "c # t" "Suc h"] by (simp_all add: len)
  have "n2 ! nodeix 2 t = pk_nodes r ! nodeix 0 t"
    unfolding n2_def using src dst [of True] assms(2) len
    by (intro copy_subtree_nodes) (simp_all add: numeral_2_eq_2)
  moreover have "n2 ! nodeix 1 t = pk_nodes l ! nodeix 0 t"
    unfolding other(3) n1_def using src dst [of False] assms(1) len
    by (intro copy_subtree_nodes) simp_all
  ultimately show "pk_nodes (peak_merge blake3 l r) ! nodeix 0 (b # t) =
      (if b then pk_nodes r else pk_nodes l) ! nodeix 0 t"
    by (simp add: n2 numeral_2_eq_2)
qed

lemma peak_ok_merge:
  assumes "peak_ok blake3 l ls" and "peak_ok blake3 r rs" and "pk_height l = pk_height r"
  shows "peak_ok blake3 (peak_merge blake3 l r) (ls @ rs)"
proof -
  let ?h = "pk_height r" and ?n = "pk_nodes (peak_merge blake3 l r)"
  from assms have L: "tree_ok blake3 ?h ls (pk_nodes l)" "pk_hash l = pk_nodes l ! 0" "leaf_count l = 2 ^ ?h"
    and R: "tree_ok blake3 ?h rs (pk_nodes r)" "pk_hash r = pk_nodes r ! 0" "leaf_count r = 2 ^ ?h"
    by (simp_all add: peak_ok_def)
  note M = merge_nodes [where l = l and r = r and h = ?h and ?blake3.0 = blake3, OF _ _ L(3) R(3)]
  from L(1) R(1) have lens: "length (pk_nodes l) = 2 ^ Suc ?h - 1" "length (pk_nodes r) = 2 ^ Suc ?h - 1"
    "length ls = 2 ^ ?h" "length rs = 2 ^ ?h" by (simp_all add: tree_ok_def)
  note sub = M(3) [OF lens(1,2)]
  have "?n ! nodeix 0 t = mmr_hash_pair blake3 (?n ! nodeix 0 (t @ [False])) (?n ! nodeix 0 (t @ [True]))"
    if "length t < Suc ?h" for t
  proof (cases t)
    case Nil
    then show ?thesis
      using M(2) [OF lens(1,2)] sub [of "[]" False] sub [of "[]" True] L(2) R(2)
      by (simp add: numeral_2_eq_2)
  next
    case (Cons b u)
    with that have "length u < ?h" by simp
    with tree_ok_pair [OF L(1), of u] tree_ok_pair [OF R(1), of u] Cons
      sub [of u b] sub [of "u @ [False]" b] sub [of "u @ [True]" b]
    show ?thesis by (simp del: nodeix.simps)
  qed
  moreover have "?n ! nodeix 0 t = mmr_hash_leaf blake3 ((ls @ rs) ! path_val t)" if "length t = Suc ?h" for t
  proof -
    from that obtain b u where t: "t = b # u" "length u = ?h" by (cases t) auto
    with path_val_less [of u] tree_ok_leaf [OF L(1), of u] tree_ok_leaf [OF R(1), of u] sub [of u b] lens(3)
    show ?thesis by (simp del: nodeix.simps add: nth_append)
  qed
  moreover have "pk_height (peak_merge blake3 l r) = Suc ?h" "leaf_count (peak_merge blake3 l r) = 2 ^ Suc ?h"
    "pk_hash (peak_merge blake3 l r) = ?n ! 0"
    using M(2) [OF lens(1,2)] assms(3) L(3) R(3) by (simp_all add: peak_merge_def Let_def)
  ultimately show ?thesis
    using M(1) [OF lens(1,2)] lens by (simp add: peak_ok_def tree_ok_def)
qed

section \<open>Paths in a peak\<close>

interpretation mmr: hash_tree mmr_node_bytes
  by unfold_locales (simp add: mmr_node_bytes_def)

lemma mmr_climb_path:
  "length sibs = length t \<Longrightarrow>
     mmr_climb blake3 (nodeix 0 t) sibs x = path_hash blake3 mmr_node_bytes (zip (rev t) sibs) x"
proof (induction t arbitrary: sibs x rule: rev_induct)
  case (snoc b t)
  then obtain s ss where "sibs = s # ss" "length ss = length t" by (cases sibs) auto
  with snoc.IH [of ss] show ?case
    by (cases b) (simp_all add: nodeix_snoc usize_pred_def mmr_hash_pair_def step_bytes_def)
qed simp

lemma honest_path:
  assumes ok: "tree_ok blake3 h ls nodes"
  shows "length t \<le> h \<Longrightarrow> length (sib_loop nodes (nodeix 0 t)) = length t \<and>
    path_hash blake3 mmr_node_bytes (zip (rev t) (sib_loop nodes (nodeix 0 t))) (nodes ! nodeix 0 t) = nodes ! 0"
proof (induction t rule: rev_induct)
  case Nil
  show ?case by (simp add: sib_loop.simps)
next
  case (snoc b t)
  from ok snoc.prems have "nodeix 0 (t @ [True]) < length nodes"
    using nodeix_less [of "t @ [True]" h] by (simp add: tree_ok_def)
  note sib_loop_snoc [OF this, of b]
  moreover have "digest blake3 (step_bytes mmr_node_bytes (b, nodes ! nodeix 0 (t @ [\<not> b])) (nodes ! nodeix 0 (t @ [b]))) =
      nodes ! nodeix 0 t"
    using tree_ok_pair [OF ok, of t] snoc.prems by (cases b) (simp_all add: step_bytes_def mmr_hash_pair_def)
  ultimately show ?case using snoc by simp
qed

section \<open>The peaks of a range\<close>

definition mmr_ok :: "blake3 \<Rightarrow> peak list \<Rightarrow> hash256 list list \<Rightarrow> bool" where
  "mmr_ok blake3 ps lss \<longleftrightarrow> list_all2 (peak_ok blake3) ps lss \<and> sorted_wrt (>) (map pk_height ps)"

lemma peak_ok_length: "peak_ok blake3 p ls \<Longrightarrow> length ls = 2 ^ pk_height p \<and> leaf_count p = 2 ^ pk_height p"
  by (simp add: peak_ok_def tree_ok_def)

lemma mmr_ok_merge:
  "mmr_ok blake3 ps lss \<Longrightarrow> peak_ok blake3 p ls \<Longrightarrow> \<forall>q \<in> set ps. pk_height p \<le> pk_height q \<Longrightarrow>
     \<exists>lss'. mmr_ok blake3 (merge_peaks blake3 ps p) lss' \<and> concat lss' = concat lss @ ls"
proof (induction blake3 ps p arbitrary: lss ls rule: merge_peaks.induct)
  case (1 blake3 ps p)
  show ?case
  proof (cases "ps \<noteq> [] \<and> pk_height (last ps) = pk_height p")
    case True
    then obtain qs q where ps: "ps = qs @ [q]" by (cases ps rule: rev_cases) auto
    with 1(2) obtain kss ks where lss: "lss = kss @ [ks]" "mmr_ok blake3 qs kss" "peak_ok blake3 q ks"
      by (auto simp: mmr_ok_def list_all2_append1 list_all2_Cons1 sorted_wrt_append)
    have "\<exists>lss'. mmr_ok blake3 (merge_peaks blake3 qs (peak_merge blake3 q p)) lss' \<and>
        concat lss' = concat kss @ (ks @ ls)"
      using 1(1) [OF True, of kss "ks @ ls"] ps lss True 1(2) peak_ok_merge [OF lss(3) 1(3)]
      by (fastforce simp: mmr_ok_def sorted_wrt_append peak_merge_def Let_def)
    with True ps lss(1) show ?thesis
      by (subst merge_peaks.simps) simp
  next
    case False
    have "\<forall>q \<in> set ps. pk_height p < pk_height q"
    proof
      fix q
      assume q: "q \<in> set ps"
      with False have "pk_height (last ps) \<noteq> pk_height p" by auto
      moreover have "pk_height p \<le> pk_height (last ps)" using 1(4) q by (cases ps rule: rev_cases) auto
      moreover have "pk_height (last ps) \<le> pk_height q"
        using 1(2) q by (cases ps rule: rev_cases) (auto simp: mmr_ok_def sorted_wrt_append)
      ultimately show "pk_height p < pk_height q" by linarith
    qed
    with 1(2,3) have "mmr_ok blake3 (ps @ [p]) (lss @ [ls])"
      by (auto simp: mmr_ok_def sorted_wrt_append intro: list_all2_appendI)
    then show ?thesis
      using False by (subst merge_peaks.simps) (auto intro!: exI [of _ "lss @ [ls]"])
  qed
qed

definition mmr_of :: "blake3 \<Rightarrow> hash256 list \<Rightarrow> mountain_range" where
  "mmr_of blake3 leaves = fold (\<lambda>l m. fst (mmr_append blake3 m l)) leaves mmr_new"

lemma mmr_of_snoc: "mmr_of blake3 (leaves @ [l]) = fst (mmr_append blake3 (mmr_of blake3 leaves) l)"
  by (simp add: mmr_of_def)

lemma mmr_leaves_of [simp]: "mmr_leaves (mmr_of blake3 leaves) = leaves"
  by (induction leaves rule: rev_induct) (simp_all add: mmr_of_snoc mmr_append_def, simp add: mmr_of_def mmr_new_def)

lemma mmr_of_ok: "\<exists>lss. mmr_ok blake3 (mmr_peaks (mmr_of blake3 leaves)) lss \<and> concat lss = leaves"
proof (induction leaves rule: rev_induct)
  case Nil
  show ?case by (auto simp: mmr_of_def mmr_new_def mmr_ok_def intro!: exI [of _ "[]"])
next
  case (snoc l leaves)
  then obtain lss where lss: "mmr_ok blake3 (mmr_peaks (mmr_of blake3 leaves)) lss" "concat lss = leaves" by blast
  have "\<forall>q \<in> set (mmr_peaks (mmr_of blake3 leaves)). pk_height (from_leaf (mmr_hash_leaf blake3 l)) \<le> pk_height q"
    by (simp add: from_leaf_def)
  from mmr_ok_merge [OF lss(1) peak_ok_from_leaf this] lss(2) show ?case
    by (simp add: mmr_of_snoc mmr_append_def)
qed

lemma find_peak_spec:
  assumes "list_all2 (peak_ok blake3) ps lss" and "off \<le> pos" and "pos < off + length (concat lss)"
  shows "\<exists>k < length ps. find_peak ps pos i off = (i + k, off + length (concat (take k lss))) \<and>
           off + length (concat (take k lss)) \<le> pos \<and>
           pos - (off + length (concat (take k lss))) < length (lss ! k) \<and>
           concat lss ! (pos - off) = lss ! k ! (pos - (off + length (concat (take k lss))))"
  using assms
proof (induction ps lss arbitrary: i off rule: list_all2_induct)
  case (Cons p ps ls lss)
  from peak_ok_length [OF Cons(1)] have len: "leaf_count p = length ls" by simp
  show ?case
  proof (cases "pos < off + length ls")
    case True
    with Cons.prems len show ?thesis
      by (intro exI [of _ 0]) (auto simp: nth_append)
  next
    case False
    then have "off + length ls \<le> pos" "pos < off + length ls + length (concat lss)" using Cons.prems by simp_all
    from Cons.IH [OF this, of "Suc i"] obtain k where k: "k < length ps"
      "find_peak ps pos (Suc i) (off + length ls) = (Suc i + k, off + length ls + length (concat (take k lss)))"
      "off + length ls + length (concat (take k lss)) \<le> pos"
      "pos - (off + length ls + length (concat (take k lss))) < length (lss ! k)"
      "concat lss ! (pos - (off + length ls)) = lss ! k ! (pos - (off + length ls + length (concat (take k lss))))"
      by blast
    with False len show ?thesis
      by (intro exI [of _ "Suc k"]) (auto simp: nth_append add.assoc diff_diff_add)
  qed
qed simp

lemma dvd_length_concat: "\<forall>ls \<in> set lss. d dvd length ls \<Longrightarrow> d dvd length (concat lss)"
  by (induction lss) auto

lemma peak_offset_dvd:
  assumes "mmr_ok blake3 ps lss" and "k < length ps"
  shows "2 ^ pk_height (ps ! k) dvd length (concat (take k lss))"
proof (rule dvd_length_concat, rule ballI)
  fix ls
  assume "ls \<in> set (take k lss)"
  then obtain j where j: "j < k" "ls = lss ! j" by (auto simp: in_set_conv_nth)
  with assms have "pk_height (ps ! k) < pk_height (ps ! j)" "peak_ok blake3 (ps ! j) ls"
    by (simp_all add: mmr_ok_def sorted_wrt_iff_nth_less list_all2_conv_all_nth)
  then show "2 ^ pk_height (ps ! k) dvd length ls"
    using peak_ok_length [of blake3 "ps ! j" ls] by (simp add: le_imp_power_dvd)
qed

lemma nth_concat_take:
  assumes "k < length lss" and "j < length (lss ! k)"
  shows "concat lss ! (length (concat (take k lss)) + j) = lss ! k ! j"
    and "length (concat (take k lss)) + j < length (concat lss)"
proof -
  have "concat lss = concat (take k lss) @ lss ! k @ concat (drop (Suc k) lss)"
    using id_take_nth_drop [OF assms(1)] by (metis concat.simps(2) concat_append)
  with assms(2) show "concat lss ! (length (concat (take k lss)) + j) = lss ! k ! j"
    and "length (concat (take k lss)) + j < length (concat lss)"
    by (simp_all add: nth_append)
qed

text \<open>Where \<open>prove\<close> finds a leaf: its peak, and its local index there.\<close>

lemma mmr_locate:
  assumes "mmr_ok blake3 ps lss" and "pos < length (concat lss)"
  obtains k where "k < length ps" and "find_peak ps pos 0 0 = (k, length (concat (take k lss)))"
    and "peak_ok blake3 (ps ! k) (lss ! k)" and "concat lss ! pos = lss ! k ! (pos mod 2 ^ pk_height (ps ! k))"
    and "pos - length (concat (take k lss)) = pos mod 2 ^ pk_height (ps ! k)"
proof -
  from assms(1) have ok: "list_all2 (peak_ok blake3) ps lss" and desc: "sorted_wrt (>) (map pk_height ps)"
    by (simp_all add: mmr_ok_def)
  from find_peak_spec [OF ok, of 0 pos 0] assms(2) obtain k where k: "k < length ps"
    "find_peak ps pos 0 0 = (k, length (concat (take k lss)))" "length (concat (take k lss)) \<le> pos"
    "pos - length (concat (take k lss)) < length (lss ! k)"
    "concat lss ! pos = lss ! k ! (pos - length (concat (take k lss)))"
    by auto
  let ?h = "pk_height (ps ! k)" and ?off = "length (concat (take k lss))"
  have pk: "peak_ok blake3 (ps ! j) (lss ! j)" if "j < length ps" for j
    using ok that by (simp add: list_all2_conv_all_nth)
  have "2 ^ ?h dvd ?off" by (rule peak_offset_dvd [OF assms(1) k(1)])
  then obtain c where "?off = 2 ^ ?h * c" ..
  moreover have "pos - ?off < 2 ^ ?h" using k(4) peak_ok_length [OF pk [OF k(1)]] by simp
  ultimately have "pos - ?off = pos mod 2 ^ ?h"
    using k(3) by (metis le_add_diff_inverse mod_less mod_mult_self4)
  with that [OF k(1,2) pk [OF k(1)]] k(5) show ?thesis by simp
qed

lemma peak_height_bound:
  assumes "mmr_ok blake3 ps lss" and "length (concat lss) < 2 ^ 63" and "k < length ps"
  shows "pk_height (ps ! k) < 63"
proof -
  from assms(1,3) have k: "peak_ok blake3 (ps ! k) (lss ! k)" "k < length lss"
    by (auto simp: mmr_ok_def list_all2_conv_all_nth)
  then have "length (lss ! k) \<le> length (concat lss)"
    by (simp add: length_concat member_le_sum_list)
  with assms(2) peak_ok_length [OF k(1)] have "(2 :: nat) ^ pk_height (ps ! k) < 2 ^ 63" by simp
  then show ?thesis by (rule power_less_imp_less_exp [rotated]) simp
qed

lemma nodeix_bits: "n < 2 ^ h \<Longrightarrow> nodeix 0 (bits_of_nat h n) = 2 ^ h - 1 + n"
proof -
  assume "n < 2 ^ h"
  then have "Suc (nodeix 0 (bits_of_nat h n)) = 2 ^ h + n"
    using nodeix_form [of 0 "bits_of_nat h n"] by (simp add: path_val_bits)
  moreover have "(1 :: nat) \<le> 2 ^ h" by (rule one_le_power) simp
  ultimately show ?thesis by arith
qed

lemma peak_proof_path_loop:
  assumes "peak_ok blake3 p ls" and "n < 2 ^ pk_height p"
  shows "peak_proof_path p n = sib_loop (pk_nodes p) (nodeix 0 (bits_of_nat (pk_height p) n))"
proof (cases "pk_height p")
  case 0
  with assms show ?thesis by (simp add: peak_proof_path_def peak_ok_def sib_loop.simps)
next
  case (Suc h)
  then have "\<not> leaf_count p \<le> 1"
    using peak_ok_length [OF assms(1)] one_less_power [of "2 :: nat" "Suc h"] by simp
  then show ?thesis
    using assms peak_ok_length [OF assms(1)] by (simp add: peak_proof_path_def nodeix_bits)
qed

text \<open>
  Mountain-range proofs are complete: for every sequence of appended leaves and every position,
  the proof \<open>prove\<close> returns is accepted by \<open>verify_proof\<close> for the leaf at that position against the
  root. The bound on the number of leaves is that of a \<open>Vec\<close> on a 64-bit machine.
\<close>

theorem mmr_proof_complete:
  assumes "length leaves < 2 ^ 63" and "pos < length leaves"
  shows "mmr_verify_proof blake3 (mmr_root blake3 (mmr_of blake3 leaves)) (leaves ! pos) pos
           (mmr_prove (mmr_of blake3 leaves) pos)"
proof -
  let ?ps = "mmr_peaks (mmr_of blake3 leaves)"
  from mmr_of_ok [of blake3 leaves] obtain lss where ok: "mmr_ok blake3 ?ps lss" and l: "concat lss = leaves"
    by blast
  from assms(2) l have "pos < length (concat lss)" by simp
  from mmr_locate [OF ok this] obtain k where k: "k < length ?ps"
    "find_peak ?ps pos 0 0 = (k, length (concat (take k lss)))" "peak_ok blake3 (?ps ! k) (lss ! k)"
    "leaves ! pos = lss ! k ! (pos mod 2 ^ pk_height (?ps ! k))"
    "pos - length (concat (take k lss)) = pos mod 2 ^ pk_height (?ps ! k)"
    unfolding l by blast
  let ?h = "pk_height (?ps ! k)" and ?nodes = "pk_nodes (?ps ! k)"
  let ?n = "pos mod 2 ^ ?h" and ?t = "bits_of_nat (pk_height (?ps ! k)) (pos mod 2 ^ pk_height (?ps ! k))"
  have h: "?h < 63" using peak_height_bound [OF ok _ k(1)] assms(1) l by simp
  from k(3) have tree: "tree_ok blake3 ?h (lss ! k) ?nodes" "pk_hash (?ps ! k) = ?nodes ! 0"
    by (simp_all add: peak_ok_def)
  have n: "?n < 2 ^ ?h" by simp
  have leaf: "mmr_hash_leaf blake3 (leaves ! pos) = ?nodes ! nodeix 0 ?t"
    using tree_ok_leaf [OF tree(1), of ?t] k(4) by (simp add: path_val_bits)
  have path: "peak_proof_path (?ps ! k) ?n = sib_loop ?nodes (nodeix 0 ?t)"
    using peak_proof_path_loop [OF k(3) n] .
  note H = honest_path [OF tree(1), of ?t, simplified]
  have "mmr_climb blake3 (2 ^ ?h - 1 + ?n) (sib_loop ?nodes (nodeix 0 ?t)) (mmr_hash_leaf blake3 (leaves ! pos)) = ?nodes ! 0"
    unfolding nodeix_bits [OF n, symmetric] leaf
    using H mmr_climb_path [of "sib_loop ?nodes (nodeix 0 ?t)" ?t blake3] by simp
  moreover have "mmr_prove (mmr_of blake3 leaves) pos =
      \<lparr>mmr_siblings = sib_loop ?nodes (nodeix 0 ?t), peak_index = k, proof_peaks = map pk_hash ?ps\<rparr>"
    using assms(2) k(2,5) path by (simp add: mmr_prove_def Let_def)
  ultimately show ?thesis
    using k(1) h H tree(2) by (auto simp: mmr_verify_proof_def mmr_root_def Let_def)
qed

text \<open>Three leaves make two peaks; the second leaf is in the taller one.\<close>

definition first_byte_hash :: blake3 where
  "first_byte_hash bs = arr32_of [of_nat (length bs), bs ! 9]"

abbreviation sample_leaf :: "u8 \<Rightarrow> hash256" where
  "sample_leaf b \<equiv> hash_from_bytes [b]"

theorem mmr_proof_complete_witness:
  "mmr_verify_proof first_byte_hash
     (mmr_root first_byte_hash (mmr_of first_byte_hash [sample_leaf 1, sample_leaf 2, sample_leaf 3]))
     (sample_leaf 2) 1 (mmr_prove (mmr_of first_byte_hash [sample_leaf 1, sample_leaf 2, sample_leaf 3]) 1)"
  using mmr_proof_complete [of "[sample_leaf 1, sample_leaf 2, sample_leaf 3]" 1 first_byte_hash] by simp

section \<open>Soundness\<close>

text \<open>The fifth byte of every hashed string tells what is hashed: leaf, node, peaks or nothing.\<close>

lemma mmr_domains [simp]:
  "mmr_leaf_bytes l \<noteq> mmr_node_bytes x y" "mmr_node_bytes x y \<noteq> mmr_leaf_bytes l"
  "mmr_leaf_bytes l \<noteq> peaks_bytes ps" "peaks_bytes ps \<noteq> mmr_leaf_bytes l"
  "mmr_node_bytes x y \<noteq> peaks_bytes ps" "peaks_bytes ps \<noteq> mmr_node_bytes x y"
  "mmr_leaf_bytes l \<noteq> str_bytes ''mmr:empty''" "str_bytes ''mmr:empty'' \<noteq> mmr_leaf_bytes l"
  "mmr_node_bytes x y \<noteq> str_bytes ''mmr:empty''" "str_bytes ''mmr:empty'' \<noteq> mmr_node_bytes x y"
  "peaks_bytes ps \<noteq> str_bytes ''mmr:empty''" "str_bytes ''mmr:empty'' \<noteq> peaks_bytes ps"
  by (simp_all add: mmr_leaf_bytes_def mmr_node_bytes_def peaks_bytes_def str_bytes_def)

lemma mmr_leaf_bytes_inject [simp]: "mmr_leaf_bytes l = mmr_leaf_bytes l' \<longleftrightarrow> l = l'"
  by (simp add: mmr_leaf_bytes_def)

lemma peaks_bytes_inject [simp]: "peaks_bytes ps = peaks_bytes qs \<longleftrightarrow> ps = qs"
  by (simp add: peaks_bytes_def concat_hash_bytes_inject)

definition bag_inputs :: "hash256 list \<Rightarrow> bytes set" where
  "bag_inputs peaks =
     (if peaks = [] then {str_bytes ''mmr:empty''} else if length peaks = 1 then {} else {peaks_bytes peaks})"

definition tree_inputs :: "hash256 list \<Rightarrow> bytes set" where
  "tree_inputs nodes = {mmr_node_bytes (nodes ! (2 * i + 1)) (nodes ! (2 * i + 2)) | i. 2 * i + 2 < length nodes}"

definition range_inputs :: "mountain_range \<Rightarrow> bytes set" where
  "range_inputs m = mmr_leaf_bytes ` set (mmr_leaves m) \<union> (\<Union>p \<in> set (mmr_peaks m). tree_inputs (pk_nodes p)) \<union>
     bag_inputs (map pk_hash (mmr_peaks m))"

primrec climb_steps :: "nat \<Rightarrow> hash256 list \<Rightarrow> path_step list" where
  "climb_steps node_idx [] = []"
| "climb_steps node_idx (s # ss) = (node_idx mod 2 \<noteq> 1, s) # climb_steps (usize_pred node_idx div 2) ss" 

definition proof_steps :: "nat \<Rightarrow> mmr_proof \<Rightarrow> path_step list" where
  "proof_steps position p =
     (let tree_leaves = 2 ^ (length (mmr_siblings p) mod 64)
      in climb_steps ((tree_leaves - 1) + position mod tree_leaves) (mmr_siblings p))"

definition mmr_proof_inputs :: "blake3 \<Rightarrow> hash256 \<Rightarrow> nat \<Rightarrow> mmr_proof \<Rightarrow> bytes set" where
  "mmr_proof_inputs blake3 leaf position p =
     insert (mmr_leaf_bytes leaf)
       (set (path_bytes blake3 mmr_node_bytes (proof_steps position p) (mmr_hash_leaf blake3 leaf))) \<union>
     bag_inputs (proof_peaks p)"

lemma mmr_climb_steps: "mmr_climb blake3 i sibs x = path_hash blake3 mmr_node_bytes (climb_steps i sibs) x"
  by (induction sibs arbitrary: i x) (simp_all add: step_bytes_def mmr_hash_pair_def)

lemma length_climb_steps [simp]: "length (climb_steps i sibs) = length sibs"
  by (induction sibs arbitrary: i) simp_all

lemma climb_steps_dirs: "length sibs = length t \<Longrightarrow> map fst (climb_steps (nodeix 0 t) sibs) = rev t"
proof (induction t arbitrary: sibs rule: rev_induct)
  case (snoc b t)
  then obtain s ss where "sibs = s # ss" "length ss = length t" by (cases sibs) auto
  with snoc.IH [of ss] show ?case by (cases b) (simp_all add: nodeix_snoc usize_pred_def)
qed simp

lemma mmr_verify_steps:
  "mmr_verify_proof blake3 root leaf position p \<longleftrightarrow>
     peak_index p < length (proof_peaks p) \<and>
     path_hash blake3 mmr_node_bytes (proof_steps position p) (mmr_hash_leaf blake3 leaf) =
       proof_peaks p ! peak_index p \<and>
     bag_peaks blake3 (proof_peaks p) = root"
  by (auto simp: mmr_verify_proof_def mmr_climb_steps proof_steps_def Let_def)

lemma tree_ok_input:
  assumes "tree_ok blake3 h ls nodes" and "length t < h"
  shows "mmr_node_bytes (nodes ! nodeix 0 (t @ [False])) (nodes ! nodeix 0 (t @ [True])) \<in> tree_inputs nodes"
proof -
  from assms have "nodeix 0 (t @ [True]) < length nodes"
    using nodeix_less [of "t @ [True]" h] by (simp add: tree_ok_def)
  then show ?thesis
    by (auto simp: tree_inputs_def nodeix_snoc numeral_2_eq_2 intro!: exI [of _ "nodeix 0 t"])
qed

text \<open>
  Going down from a node of a peak along the candidate path: without collisions the path has the
  height of the node, and ends at the leaf its directions name.
\<close>

lemma descend:
  assumes ok: "tree_ok blake3 h ls nodes" and "S = tree_inputs nodes \<union> mmr_leaf_bytes ` set ls"
  shows "inj_on blake3 (S \<union> insert (mmr_leaf_bytes leaf) (set (path_bytes blake3 mmr_node_bytes sts (mmr_hash_leaf blake3 leaf)))) \<Longrightarrow>
    path_hash blake3 mmr_node_bytes sts (mmr_hash_leaf blake3 leaf) = nodes ! nodeix 0 u \<Longrightarrow> length u \<le> h \<Longrightarrow>
    length u + length sts = h \<and> leaf = ls ! path_val (u @ rev (map fst sts))"
proof (induction sts arbitrary: u rule: rev_induct)
  case Nil
  note D = digest_inj_onD [OF _ Nil.prems(1)]
  show ?case
  proof (cases "length u = h")
    case True
    have "ls ! path_val u \<in> set ls"
      using path_val_less [of u] ok True by (auto simp: tree_ok_def)
    then have "mmr_leaf_bytes leaf = mmr_leaf_bytes (ls ! path_val u)"
      using Nil.prems(2) tree_ok_leaf [OF ok True] by (intro D) (simp_all add: mmr_hash_leaf_def assms(2))
    with True show ?thesis by simp
  next
    case False
    with Nil.prems(3) have u: "length u < h" by simp
    have "mmr_leaf_bytes leaf = mmr_node_bytes (nodes ! nodeix 0 (u @ [False])) (nodes ! nodeix 0 (u @ [True]))"
      using Nil.prems(2) tree_ok_pair [OF ok u] tree_ok_input [OF ok u]
      by (intro D) (simp_all add: mmr_hash_leaf_def mmr_hash_pair_def assms(2))
    then show ?thesis by simp
  qed
next
  case (snoc st sts)
  obtain b s where st: "st = (b, s)" by (cases st)
  let ?y = "path_hash blake3 mmr_node_bytes sts (mmr_hash_leaf blake3 leaf)"
  note D = digest_inj_onD [OF _ snoc.prems(1)]
  have u: "length u < h"
  proof (rule ccontr)
    assume "\<not> length u < h"
    with snoc.prems(3) have u: "length u = h" by simp
    have "ls ! path_val u \<in> set ls" using path_val_less [of u] ok u by (auto simp: tree_ok_def)
    then have "step_bytes mmr_node_bytes (b, s) ?y = mmr_leaf_bytes (ls ! path_val u)"
      using snoc.prems(2) tree_ok_leaf [OF ok u] by (intro D) (simp_all add: mmr_hash_leaf_def assms(2) st)
    then show False by (auto simp: step_bytes_def split: if_splits)
  qed
  have "step_bytes mmr_node_bytes (b, s) ?y =
      mmr_node_bytes (nodes ! nodeix 0 (u @ [False])) (nodes ! nodeix 0 (u @ [True]))"
    using snoc.prems(2) tree_ok_pair [OF ok u] tree_ok_input [OF ok u]
    by (intro D) (simp_all add: mmr_hash_pair_def assms(2) st)
  then have "?y = nodes ! nodeix 0 (u @ [b])"
    by (cases b) (simp_all add: step_bytes_def mmr.enc_inject)
  moreover have "inj_on blake3 (S \<union> insert (mmr_leaf_bytes leaf)
      (set (path_bytes blake3 mmr_node_bytes sts (mmr_hash_leaf blake3 leaf))))"
    using snoc.prems(1) by (rule inj_on_subset) auto
  ultimately have "length (u @ [b]) + length sts = h \<and> leaf = ls ! path_val ((u @ [b]) @ rev (map fst sts))"
    using u by (intro snoc.IH) simp_all
  with st show ?case by simp
qed

definition tree_hash_input :: "bytes \<Rightarrow> bool" where
  "tree_hash_input bs \<longleftrightarrow> (\<exists>l. bs = mmr_leaf_bytes l) \<or> (\<exists>x y. bs = mmr_node_bytes x y)"

lemma tree_hash_input_neq [simp]:
  "tree_hash_input bs \<Longrightarrow> bs \<noteq> peaks_bytes ps" "tree_hash_input bs \<Longrightarrow> bs \<noteq> str_bytes ''mmr:empty''"
  by (auto simp: tree_hash_input_def)

lemma path_hash_input:
  obtains bs where "path_hash blake3 mmr_node_bytes sts (mmr_hash_leaf blake3 leaf) = digest blake3 bs"
    and "tree_hash_input bs"
    and "bs \<in> insert (mmr_leaf_bytes leaf) (set (path_bytes blake3 mmr_node_bytes sts (mmr_hash_leaf blake3 leaf)))"
proof (cases sts rule: rev_cases)
  case Nil
  then show ?thesis
    by (intro that [of "mmr_leaf_bytes leaf"]) (auto simp: mmr_hash_leaf_def tree_hash_input_def)
next
  case (snoc us st)
  then show ?thesis
    by (intro that [of "step_bytes mmr_node_bytes st (path_hash blake3 mmr_node_bytes us (mmr_hash_leaf blake3 leaf))"])
       (auto simp: tree_hash_input_def step_bytes_def split: prod.splits)
qed

lemma peak_hash_input:
  assumes "peak_ok blake3 p ls"
  obtains bs where "pk_hash p = digest blake3 bs" and "tree_hash_input bs"
    and "bs \<in> tree_inputs (pk_nodes p) \<union> mmr_leaf_bytes ` set ls"
proof -
  from assms have ok: "tree_ok blake3 (pk_height p) ls (pk_nodes p)" and h: "pk_hash p = pk_nodes p ! nodeix 0 []"
    by (simp_all add: peak_ok_def)
  show ?thesis
  proof (cases "pk_height p")
    case 0
    with ok h have "pk_hash p = digest blake3 (mmr_leaf_bytes (ls ! 0))" "ls ! 0 \<in> set ls"
      by (auto simp: tree_ok_def mmr_hash_leaf_def)
    then show ?thesis by (intro that [of "mmr_leaf_bytes (ls ! 0)"]) (auto simp: tree_hash_input_def)
  next
    case (Suc n)
    then have "length [] < pk_height p" by simp
    from tree_ok_pair [OF ok this] tree_ok_input [OF ok this] h show ?thesis
      by (intro that) (auto simp: tree_hash_input_def mmr_hash_pair_def)
  qed
qed

lemma bag_peaks_unique:
  assumes inj: "inj_on blake3 S" and "bag_inputs ps \<union> bag_inputs qs \<subseteq> S"
    and eq: "bag_peaks blake3 ps = bag_peaks blake3 qs" and "qs \<noteq> []"
    and p: "\<forall>p \<in> set ps. \<exists>bs \<in> S. p = digest blake3 bs \<and> tree_hash_input bs"
    and q: "q \<in> set qs" "bs \<in> S" "q = digest blake3 bs" "tree_hash_input bs"
  shows "qs = ps"
proof (cases "length qs = 1")
  case True
  with q(1) have qs: "qs = [q]" by (cases qs) auto
  show ?thesis
  proof (cases "length ps = 1")
    case True
    with eq qs show ?thesis by (cases ps) (auto simp: bag_peaks_def)
  next
    case False
    note D = digest_inj_onD [OF _ inj q(2)]
    show ?thesis
    proof (cases "ps = []")
      case True
      with eq qs q(3) have "digest blake3 bs = digest blake3 (str_bytes ''mmr:empty'')"
        by (simp add: bag_peaks_def)
      moreover have "str_bytes ''mmr:empty'' \<in> S" using True assms(2) by (simp add: bag_inputs_def)
      ultimately show ?thesis using D q(4) tree_hash_input_neq(2) by metis
    next
      case ne: False
      with False eq qs q(3) have "digest blake3 bs = digest blake3 (peaks_bytes ps)"
        by (simp add: bag_peaks_def)
      moreover have "peaks_bytes ps \<in> S" using ne False assms(2) by (simp add: bag_inputs_def)
      ultimately show ?thesis using D q(4) tree_hash_input_neq(1) by metis
    qed
  qed
next
  case False
  with assms(2,4) have Q: "peaks_bytes qs \<in> S" "bag_peaks blake3 qs = digest blake3 (peaks_bytes qs)"
    by (auto simp: bag_peaks_def bag_inputs_def)
  note D = digest_inj_onD [OF _ inj Q(1)]
  consider "ps = []" | x where "ps = [x]" | "length ps \<noteq> 1" "ps \<noteq> []" by (metis One_nat_def length_0_conv length_Suc_conv)
  then show ?thesis
  proof cases
    case 1
    with eq Q(2) have "digest blake3 (peaks_bytes qs) = digest blake3 (str_bytes ''mmr:empty'')"
      by (simp add: bag_peaks_def)
    moreover have "str_bytes ''mmr:empty'' \<in> S" using 1 assms(2) by (simp add: bag_inputs_def)
    ultimately show ?thesis using D [of "str_bytes ''mmr:empty''"] by simp
  next
    case 2
    with p obtain cs where cs: "cs \<in> S" "x = digest blake3 cs" "tree_hash_input cs" by auto
    from eq Q(2) 2 cs(2) have "digest blake3 (peaks_bytes qs) = digest blake3 cs" by (simp add: bag_peaks_def)
    from D [OF this cs(1)] cs(3) tree_hash_input_neq(1) show ?thesis by metis
  next
    case 3
    with eq Q(2) have "digest blake3 (peaks_bytes qs) = digest blake3 (peaks_bytes ps)"
      by (simp add: bag_peaks_def)
    moreover have "peaks_bytes ps \<in> S" using 3 assms(2) by (simp add: bag_inputs_def)
    ultimately show ?thesis using D [of "peaks_bytes ps"] by simp
  qed
qed

text \<open>
  Mountain-range proofs are sound. When the hash has no collision among the strings hashed for the
  range and for the candidate, an accepted proof shows that the leaf was appended: it is the leaf at
  some position congruent to the claimed one modulo the size of the peak, which is what the number of
  siblings says. (The claimed position itself is not authenticated: see
  \<open>mmr_position_not_bound\<close>.)
\<close>

theorem mmr_proof_sound:
  assumes "length leaves < 2 ^ 63"
    and "inj_on blake3 (range_inputs (mmr_of blake3 leaves) \<union> mmr_proof_inputs blake3 leaf pos p)"
    and "mmr_verify_proof blake3 (mmr_root blake3 (mmr_of blake3 leaves)) leaf pos p"
  shows "\<exists>i < length leaves. leaves ! i = leaf \<and>
           i mod 2 ^ length (mmr_siblings p) = pos mod 2 ^ length (mmr_siblings p)"
proof -
  let ?m = "mmr_of blake3 leaves" and ?ps = "mmr_peaks (mmr_of blake3 leaves)" and ?sts = "proof_steps pos p"
  let ?S = "range_inputs ?m \<union> mmr_proof_inputs blake3 leaf pos p"
  from mmr_of_ok [of blake3 leaves] obtain lss where ok: "mmr_ok blake3 ?ps lss" and l: "concat lss = leaves"
    by blast
  note V = assms(3) [unfolded mmr_verify_steps]
  have inputs: "tree_inputs (pk_nodes (?ps ! k)) \<union> mmr_leaf_bytes ` set (lss ! k) \<subseteq> range_inputs ?m"
    "peak_ok blake3 (?ps ! k) (lss ! k)" "k < length lss" if "k < length ?ps" for k
  proof -
    show lk: "peak_ok blake3 (?ps ! k) (lss ! k)" "k < length lss"
      using that ok by (auto simp: mmr_ok_def list_all2_conv_all_nth)
    then have "set (lss ! k) \<subseteq> set leaves" using l nth_mem by fastforce
    then show "tree_inputs (pk_nodes (?ps ! k)) \<union> mmr_leaf_bytes ` set (lss ! k) \<subseteq> range_inputs ?m"
      using that by (auto simp: range_inputs_def)
  qed
  have "proof_peaks p = map pk_hash ?ps"
  proof (rule path_hash_input [of blake3 ?sts leaf], rule bag_peaks_unique [OF assms(2)])
    show "\<forall>q \<in> set (map pk_hash ?ps). \<exists>bs \<in> ?S. q = digest blake3 bs \<and> tree_hash_input bs"
    proof
      fix q
      assume "q \<in> set (map pk_hash ?ps)"
      then obtain k where k: "k < length ?ps" "q = pk_hash (?ps ! k)" by (auto simp: in_set_conv_nth)
      from peak_hash_input [OF inputs(2) [OF k(1)]] inputs(1) [OF k(1)] k(2)
      show "\<exists>bs \<in> ?S. q = digest blake3 bs \<and> tree_hash_input bs" by (metis UnI1 subsetD)
    qed
  qed (use V nth_mem [of "peak_index p" "proof_peaks p"] in
      \<open>auto simp: range_inputs_def mmr_proof_inputs_def mmr_root_def\<close>)
  with V have k: "peak_index p < length ?ps" and h: "path_hash blake3 mmr_node_bytes ?sts (mmr_hash_leaf blake3 leaf) =
      pk_hash (?ps ! peak_index p)" by auto
  let ?k = "peak_index p" let ?h = "pk_height (?ps ! ?k)" let ?n = "pos mod 2 ^ ?h"
  from inputs(2) [OF k] have tree: "tree_ok blake3 ?h (lss ! ?k) (pk_nodes (?ps ! ?k))"
    "pk_hash (?ps ! ?k) = pk_nodes (?ps ! ?k) ! nodeix 0 []" "length (lss ! ?k) = 2 ^ ?h"
    by (simp_all add: peak_ok_def tree_ok_def)
  have "length ([] :: bool list) + length ?sts = ?h \<and> leaf = lss ! ?k ! path_val ([] @ rev (map fst ?sts))"
  proof (rule descend [OF tree(1) refl, of leaf ?sts "[]"])
    show "inj_on blake3 ((tree_inputs (pk_nodes (?ps ! ?k)) \<union> mmr_leaf_bytes ` set (lss ! ?k)) \<union>
        insert (mmr_leaf_bytes leaf) (set (path_bytes blake3 mmr_node_bytes ?sts (mmr_hash_leaf blake3 leaf))))"
      by (rule inj_on_subset [OF assms(2)]) (use inputs(1) [OF k] in \<open>auto simp: mmr_proof_inputs_def\<close>)
  qed (use h tree(2) in simp_all)
  then have len: "length (mmr_siblings p) = ?h" and leaf: "leaf = lss ! ?k ! path_val (rev (map fst ?sts))"
    by (simp_all add: proof_steps_def Let_def)
  have "?h < 63" using peak_height_bound [OF ok _ k] assms(1) l by simp
  then have "?sts = climb_steps (nodeix 0 (bits_of_nat ?h ?n)) (mmr_siblings p)"
    by (simp add: proof_steps_def Let_def len nodeix_bits)
  then have "path_val (rev (map fst ?sts)) = ?n"
    using climb_steps_dirs [of "mmr_siblings p" "bits_of_nat ?h ?n"] len by (simp add: path_val_bits)
  moreover obtain c where "length (concat (take ?k lss)) = 2 ^ ?h * c"
    using peak_offset_dvd [OF ok k] by (rule dvdE)
  ultimately show ?thesis
    using nth_concat_take [OF inputs(3) [OF k], of ?n] leaf len tree(3) unfolding l
    by (intro exI [of _ "length (concat (take ?k lss)) + ?n"]) simp
qed

lemma two_leaf_range:
  "mmr_of blake3 [x, y] =
     (let hx = mmr_hash_leaf blake3 x; hy = mmr_hash_leaf blake3 y; n = mmr_hash_pair blake3 hx hy
      in \<lparr>mmr_leaves = [x, y],
          mmr_peaks = [\<lparr>pk_hash = n, pk_height = 1, leaf_count = 2, pk_nodes = [n, hx, hy]\<rparr>]\<rparr>)"
  by (simp add: mmr_of_def mmr_new_def mmr_append_def merge_peaks.simps peak_merge_def from_leaf_def
      copy_subtree.simps Let_def numeral_eq_Suc)

lemma two_leaf_inputs:
  "range_inputs (mmr_of blake3 [x, y]) =
     {mmr_leaf_bytes x, mmr_leaf_bytes y, mmr_node_bytes (mmr_hash_leaf blake3 x) (mmr_hash_leaf blake3 y)}"
proof -
  have "tree_inputs [a, b, c] = {mmr_node_bytes b c}" for a b c
    by (auto simp: tree_inputs_def numeral_eq_Suc)
  then show ?thesis
    by (auto simp: range_inputs_def two_leaf_range Let_def bag_inputs_def)
qed

theorem mmr_proof_sound_witness:
  "\<exists>i < 2. [sample_leaf 1, sample_leaf 2] ! i = sample_leaf 2 \<and> i mod 2 = (1 :: nat)"
proof -
  let ?H = first_byte_hash and ?ls = "[sample_leaf 1, sample_leaf 2]"
  let ?p = "mmr_prove (mmr_of ?H ?ls) (Suc 0)"
  have p: "?p = \<lparr>mmr_siblings = [mmr_hash_leaf ?H (sample_leaf 1)], peak_index = 0,
      proof_peaks = [mmr_hash_pair ?H (mmr_hash_leaf ?H (sample_leaf 1)) (mmr_hash_leaf ?H (sample_leaf 2))]\<rparr>"
    by (simp add: mmr_prove_def two_leaf_range Let_def peak_proof_path_def sib_loop.simps)
  have "?H (mmr_leaf_bytes (sample_leaf b)) = arr32_of [41, b]" for b
    by (simp add: first_byte_hash_def mmr_leaf_bytes_def nth_append hash_bytes_def hash_from_bytes_def bytes32_of)
  moreover have "?H (mmr_node_bytes x y) = arr32_of [73, hash_bytes x ! 0]" for x y
    by (simp add: first_byte_hash_def mmr_node_bytes_def nth_append)
  moreover have "arr32_of [41, 1] \<noteq> arr32_of [41, 2]" "arr32_of [41, b] \<noteq> arr32_of [73, c]" for b c
    by (simp add: arr32_of_eq_iff take_Cons', rule arr32_of_Cons_neq, simp)
  ultimately have "distinct (map ?H [mmr_leaf_bytes (sample_leaf 1), mmr_leaf_bytes (sample_leaf 2),
      mmr_node_bytes (mmr_hash_leaf ?H (sample_leaf 1)) (mmr_hash_leaf ?H (sample_leaf 2))])"
    by simp
  then have inj: "inj_on ?H {mmr_leaf_bytes (sample_leaf 1), mmr_leaf_bytes (sample_leaf 2),
      mmr_node_bytes (mmr_hash_leaf ?H (sample_leaf 1)) (mmr_hash_leaf ?H (sample_leaf 2))}"
    by (simp only: distinct_map list.set)
  have steps: "proof_steps (Suc 0) ?p = [(True, mmr_hash_leaf ?H (sample_leaf 1))]"
    by (simp add: proof_steps_def p)
  have "\<exists>i < length ?ls. ?ls ! i = sample_leaf 2 \<and>
      i mod 2 ^ length (mmr_siblings ?p) = Suc 0 mod 2 ^ length (mmr_siblings ?p)"
  proof (rule mmr_proof_sound [where ?blake3.0 = ?H])
    show "inj_on ?H (range_inputs (mmr_of ?H ?ls) \<union> mmr_proof_inputs ?H (sample_leaf 2) (Suc 0) ?p)"
      by (rule inj_on_subset [OF inj])
         (simp add: two_leaf_inputs mmr_proof_inputs_def steps step_bytes_def, simp add: p bag_inputs_def)
    show "mmr_verify_proof ?H (mmr_root ?H (mmr_of ?H ?ls)) (sample_leaf 2) (Suc 0) ?p"
      unfolding mmr_verify_steps steps unfolding p
      by (simp add: step_bytes_def mmr_root_def two_leaf_range bag_peaks_def mmr_hash_pair_def Let_def)
  qed simp
  then show ?thesis by (simp add: p numeral_2_eq_2)
qed

text \<open>
  The position is only used modulo the size of the peak, so a proof for one position is accepted for
  every other position with the same residue; for a peak of a single leaf, for all of them.
\<close>

lemma mmr_position_not_bound:
  assumes "length (mmr_siblings p) < 64"
  shows "mmr_verify_proof blake3 root leaf (pos + k * 2 ^ length (mmr_siblings p)) p =
         mmr_verify_proof blake3 root leaf pos p"
  using assms by (simp add: mmr_verify_proof_def Let_def)

end
