(* ===== verification/Checkpoint.thy ===== *)
theory Checkpoint
  imports Core_Types
begin

text \<open>
  \<open>src/crates/exo-dag/src/checkpoint.rs\<close>: the checkpoint payload and the preimage the validators
  sign.
\<close>

record validator_signature =
  validator_did :: did
  key_version :: u64
  validator_sig :: signature

record checkpoint_payload =
  event_root :: hash256
  state_root :: hash256
  cp_height :: u64
  finalized_events :: u64
  frontier :: "hash256 list"
  validator_sigs :: "validator_signature list"

definition CHECKPOINT_DOMAIN_SEP :: bytes where
  "CHECKPOINT_DOMAIN_SEP = str_bytes ''EXOCHAIN-CHECKPOINT-v1''"

definition checkpoint_signing_preimage :: "checkpoint_payload \<Rightarrow> bytes" where
  "checkpoint_signing_preimage cp =
     CHECKPOINT_DOMAIN_SEP @ hash_bytes (event_root cp) @ hash_bytes (state_root cp) @
     to_le_bytes 8 (cp_height cp) @ to_le_bytes 8 (finalized_events cp) @
     concat (map hash_bytes (frontier cp))"

text \<open>
  A signature over a checkpoint preimage commits to every field but the signatures: two checkpoints
  have the same preimage exactly when they agree on the event root, the state root, the height, the
  number of finalised events and the frontier, in order and number.
\<close>

theorem checkpoint_preimage_binding:
  "checkpoint_signing_preimage cp = checkpoint_signing_preimage cp' \<longleftrightarrow>
     event_root cp = event_root cp' \<and> state_root cp = state_root cp' \<and> cp_height cp = cp_height cp' \<and>
     finalized_events cp = finalized_events cp' \<and> frontier cp = frontier cp'"
  by (auto simp: checkpoint_signing_preimage_def concat_hash_bytes_inject dest: to_le_bytes_inject)

end
