(* ===== verification/Gf256.thy ===== *)
theory Gf256
  imports Prelude
begin

unbundle bit_operations_syntax

text \<open>
  The field arithmetic of \<open>src/crates/exo-identity/src/shamir.rs\<close>: the branch-free multiplication of
  bytes modulo \<open>x^8 + x^4 + x^3 + x + 1\<close> and the inverse by the fixed addition chain for the exponent
  254. The bytes with exclusive or and this multiplication are shown to be a field (an instance of
  the type class \<open>field\<close>): the multiplications are the polynomials in one linear operator, so
  they commute and associate, and the powers of 3 are all the nonzero bytes, so
  \<open>a ^ 255 = 1\<close> for each of them.
\<close>

section \<open>The routines\<close>

text \<open>One round doubles \<open>a\<close>: shift left and, when a bit falls out, reduce.\<close>

definition xtime :: "u8 \<Rightarrow> u8" where
  "xtime a = (let carry = drop_bit 7 a AND 1 in push_bit 1 a XOR (0x1b AND (0 - carry)))"

fun gf_loop :: "nat \<Rightarrow> u8 \<Rightarrow> u8 \<Rightarrow> u8 \<Rightarrow> u8" where
  "gf_loop 0 a b res = res"
| "gf_loop (Suc i) a b res =
     (let mask = 0 - (b AND 1) in gf_loop i (xtime a) (drop_bit 1 b) (res XOR (a AND mask)))"

definition gf256_mul :: "u8 \<Rightarrow> u8 \<Rightarrow> u8" where
  "gf256_mul a b = gf_loop 8 a b 0"

definition gf256_inv :: "u8 \<Rightarrow> u8" where
  "gf256_inv a =
     (if a = 0 then 0
      else
        let a2 = gf256_mul a a; a3 = gf256_mul a2 a; a6 = gf256_mul a3 a3; a7 = gf256_mul a6 a;
            a14 = gf256_mul a7 a7; a15 = gf256_mul a14 a; a30 = gf256_mul a15 a15;
            a31 = gf256_mul a30 a; a62 = gf256_mul a31 a31; a63 = gf256_mul a62 a;
            a126 = gf256_mul a63 a63; a127 = gf256_mul a126 a
        in gf256_mul a127 a127)"

section \<open>Linearity\<close>

lemma mask_and: "a AND (0 - (b AND 1)) = (if bit b 0 then a else 0)" for a b :: "'a::len word"
  by (cases "bit b 0") (simp_all add: and_one_eq odd_iff_mod_2_eq_one bit_0 mod2_eq_if)

lemma xtime_if: "xtime a = push_bit 1 a XOR (if bit a 7 then 0x1b else 0)"
  unfolding xtime_def Let_def mask_and by (simp only: bit_drop_bit_eq comp_def add_0_right)

lemma xtime_linear: "xtime (a XOR b) = xtime a XOR xtime b"
  unfolding xtime_if push_bit_xor by (simp add: bit_xor_iff ac_simps)

lemma xtime_0 [simp]: "xtime 0 = 0"
  by (simp add: xtime_def)

lemma gf_loop_acc: "gf_loop n a b r = r XOR gf_loop n a b 0"
proof (induction n arbitrary: a b r)
  case (Suc n)
  let ?a = "a AND (0 - (b AND 1))"
  have "gf_loop (Suc n) a b r = r XOR ?a XOR gf_loop n (xtime a) (drop_bit 1 b) 0"
    using Suc [of "xtime a" "drop_bit 1 b" "r XOR ?a"] by (simp add: Let_def ac_simps)
  moreover have "gf_loop (Suc n) a b 0 = ?a XOR gf_loop n (xtime a) (drop_bit 1 b) 0"
    using Suc [of "xtime a" "drop_bit 1 b" ?a] by (simp add: Let_def)
  ultimately show ?case by (simp add: xor.assoc)
qed simp

abbreviation gm :: "nat \<Rightarrow> u8 \<Rightarrow> u8 \<Rightarrow> u8" where
  "gm n a b \<equiv> gf_loop n a b 0"

lemma gm_Suc: "gm (Suc n) a b = (if bit b 0 then a else 0) XOR gm n (xtime a) (drop_bit 1 b)"
  using gf_loop_acc [of n "xtime a" "drop_bit 1 b" "a AND (0 - (b AND 1))"] mask_and [of a b] by (simp add: Let_def)

lemma gm_0 [simp]: "gm n 0 b = 0"
  by (induction n arbitrary: b) (simp_all add: gm_Suc del: gf_loop.simps(2))

lemma gm_linear: "gm n (a XOR c) b = gm n a b XOR gm n c b"
  by (induction n arbitrary: a b c) (simp_all add: gm_Suc xtime_linear ac_simps del: gf_loop.simps(2))

lemma gm_xtime: "gm n (xtime a) b = xtime (gm n a b)"
  by (induction n arbitrary: a b) (simp_all add: gm_Suc xtime_linear del: gf_loop.simps(2))

lemma gm_commute: "gm n (gm m a c) b = gm m (gm n a b) c"
proof (induction m arbitrary: a c)
  case (Suc m)
  show ?case
    unfolding gm_Suc gm_linear Suc gm_xtime by simp
qed simp

lemma gm_linear_right: "gm n a (b XOR c) = gm n a b XOR gm n a c"
  by (induction n arbitrary: a b c)
     (simp_all add: gm_Suc bit_xor_iff ac_simps del: gf_loop.simps(2))

text \<open>The multiplier applied to 1 is the byte itself.\<close>

lemma gm_unit: "k \<le> 8 \<Longrightarrow> gm k (2 ^ (8 - k)) b = push_bit (8 - k) b"
proof (induction k arbitrary: b)
  case 0
  have "push_bit 8 b = 0" by (rule bit_word_eqI) (simp add: bit_push_bit_iff)
  then show ?case by simp
next
  case (Suc k)
  then have k: "8 - k = Suc (7 - k)" "8 - Suc k = 7 - k" by simp_all
  have split: "push_bit (7 - k) b = (if bit b 0 then 2 ^ (7 - k) else 0) XOR push_bit (Suc (7 - k)) (drop_bit 1 b)"
  proof (rule bit_word_eqI)
    fix n
    assume "n < LENGTH(8)"
    then show "bit (push_bit (7 - k) b) n =
        bit ((if bit b 0 then 2 ^ (7 - k) else 0) XOR push_bit (Suc (7 - k)) (drop_bit 1 b)) n"
      by (cases "n = 7 - k"; cases "n < 7 - k")
         (auto simp: bit_push_bit_iff bit_xor_iff bit_exp_iff bit_drop_bit_eq Suc_diff_Suc Suc_le_eq
           simp del: push_bit_Suc drop_bit_Suc)
  qed
  show ?case
  proof (cases "k = 0")
    case True
    then show ?thesis using split by (simp add: gm_Suc del: gf_loop.simps(2))
  next
    case False
    then have "xtime (2 ^ (7 - k)) = 2 ^ (8 - k)"
      using Suc.prems by (simp add: xtime_if bit_exp_iff k)
    with Suc split show ?thesis
      by (simp add: gm_Suc k del: gf_loop.simps(2) push_bit_Suc)
  qed
qed

lemma gm_one: "gm 8 1 b = b"
  using gm_unit [of 8 b] by simp

section \<open>The field\<close>

lemma gf256_mul_one: "gf256_mul 1 b = b"
  by (simp add: gf256_mul_def gm_one)

lemma gf256_mul_swap: "gf256_mul (gf256_mul a b) c = gf256_mul (gf256_mul a c) b"
  by (simp add: gf256_mul_def gm_commute [of 8 8])

lemma gf256_mul_commute: "gf256_mul a b = gf256_mul b a"
  using gf256_mul_swap [of 1 a b] by (simp add: gf256_mul_one)

lemma gf256_mul_assoc: "gf256_mul (gf256_mul a b) c = gf256_mul a (gf256_mul b c)"
  by (metis gf256_mul_swap gf256_mul_commute)

lemma gf256_mul_xor: "gf256_mul (a XOR b) c = gf256_mul a c XOR gf256_mul b c"
  by (simp add: gf256_mul_def gm_linear)

typedef gf256 = "UNIV :: u8 set"
  morphisms byte_of Gf by simp

lemmas gf256_eq = byte_of_inject [symmetric] Gf_inverse [OF UNIV_I]

instantiation gf256 :: comm_ring_1
begin

definition zero_gf256 :: gf256 where "0 = Gf 0"
definition one_gf256 :: gf256 where "1 = Gf 1"
definition plus_gf256 :: "gf256 \<Rightarrow> gf256 \<Rightarrow> gf256" where "a + b = Gf (byte_of a XOR byte_of b)"
definition minus_gf256 :: "gf256 \<Rightarrow> gf256 \<Rightarrow> gf256" where "a - b = Gf (byte_of a XOR byte_of b)"
definition uminus_gf256 :: "gf256 \<Rightarrow> gf256" where "- a = a" for a :: gf256
definition times_gf256 :: "gf256 \<Rightarrow> gf256 \<Rightarrow> gf256" where "a * b = Gf (gf256_mul (byte_of a) (byte_of b))"

instance
proof
  fix a b c :: gf256
  show "a * b * c = a * (b * c)"
    by (simp add: times_gf256_def gf256_eq gf256_mul_assoc)
  show "a * b = b * a"
    by (simp add: times_gf256_def gf256_mul_commute)
  show "1 * a = a"
    by (simp add: times_gf256_def one_gf256_def gf256_eq gf256_mul_one)
  show "(a + b) * c = a * c + b * c"
    by (simp add: times_gf256_def plus_gf256_def gf256_eq gf256_mul_xor)
qed (simp_all add: zero_gf256_def one_gf256_def plus_gf256_def minus_gf256_def uminus_gf256_def gf256_eq ac_simps)

end

lemma byte_of_simps:
  "byte_of (a + b) = byte_of a XOR byte_of b" "byte_of (a - b) = byte_of a XOR byte_of b"
  "byte_of (a * b) = gf256_mul (byte_of a) (byte_of b)" "byte_of 0 = 0" "byte_of 1 = 1"
  by (simp_all add: plus_gf256_def minus_gf256_def times_gf256_def zero_gf256_def one_gf256_def gf256_eq)

lemma gf256_mul_expand:
  "gf256_mul a b = (if bit b 0 then a else 0) XOR (if bit b 1 then xtime a else 0) XOR
     (if bit b 2 then xtime (xtime a) else 0) XOR (if bit b 3 then xtime (xtime (xtime a)) else 0) XOR
     (if bit b 4 then xtime (xtime (xtime (xtime a))) else 0) XOR
     (if bit b 5 then xtime (xtime (xtime (xtime (xtime a)))) else 0) XOR
     (if bit b 6 then xtime (xtime (xtime (xtime (xtime (xtime a))))) else 0) XOR
     (if bit b 7 then xtime (xtime (xtime (xtime (xtime (xtime (xtime a)))))) else 0)"
proof -
  have *: "8 = Suc (Suc (Suc (Suc (Suc (Suc (Suc (Suc 0)))))))" by simp
  show ?thesis
    unfolding gf256_mul_def * gm_Suc drop_bit_drop_bit bit_drop_bit_eq comp_def
    by (simp only: gf_loop.simps(1) xor.assoc xor.right_neutral)
       (simp only: eval_nat_numeral add_0_left add_0_right plus_nat.add_Suc plus_nat.add_0 One_nat_def BitM.simps)
qed

text \<open>3 generates the multiplicative group: its order is 255.\<close>

abbreviation g3 :: gf256 where "g3 \<equiv> Gf 3"

lemma Gf_mul: "Gf a * Gf b = Gf (gf256_mul a b)"
  by (simp add: times_gf256_def gf256_eq)

lemma gf256_mul_values:
  "gf256_mul 3 3 = 5" "gf256_mul 5 3 = 15" "gf256_mul 15 5 = 51" "gf256_mul 51 51 = 114" "gf256_mul 114 51 = 53"
  "gf256_mul 53 5 = 225" "gf256_mul 225 225 = 92" "gf256_mul 92 225 = 12" "gf256_mul 12 92 = 189"
  "gf256_mul 189 189 = 188" "gf256_mul 188 189 = 1"
  by (simp_all add: gf256_mul_expand xtime_if)

lemma g3_powers: "g3 ^ 15 = Gf 53" "g3 ^ 51 = Gf 12" "g3 ^ 85 = Gf 189" "g3 ^ 255 = Gf 1"
proof -
  note V = Gf_mul gf256_mul_values
  have p2: "g3 ^ 2 = Gf 5" by (simp add: power2_eq_square V)
  have "g3 ^ 5 = g3 ^ 2 * g3 * g3 ^ 2" by (simp add: eval_nat_numeral ac_simps)
  then have p5: "g3 ^ 5 = Gf 51" by (simp add: p2 V)
  have "g3 ^ 15 = g3 ^ 5 * g3 ^ 5 * g3 ^ 5" by (simp flip: power_add)
  then show p15: "g3 ^ 15 = Gf 53" by (simp add: p5 V)
  have "g3 ^ 17 = g3 ^ 15 * g3 ^ 2" by (simp flip: power_add)
  then have p17: "g3 ^ 17 = Gf 225" by (simp add: p15 p2 V)
  have "g3 ^ 34 = g3 ^ 17 * g3 ^ 17" by (simp flip: power_add)
  then have p34: "g3 ^ 34 = Gf 92" by (simp add: p17 V)
  have "g3 ^ 51 = g3 ^ 34 * g3 ^ 17" by (simp flip: power_add)
  then show p51: "g3 ^ 51 = Gf 12" by (simp add: p34 p17 V)
  have "g3 ^ 85 = g3 ^ 51 * g3 ^ 34" by (simp flip: power_add)
  then show p85: "g3 ^ 85 = Gf 189" by (simp add: p51 p34 V)
  have "g3 ^ 255 = g3 ^ 85 * g3 ^ 85 * g3 ^ 85" by (simp flip: power_add)
  then show "g3 ^ 255 = Gf 1" by (simp add: p85 V)
qed

lemma power_dvd_one: "a ^ m = 1 \<Longrightarrow> m dvd n \<Longrightarrow> a ^ n = 1" for a :: gf256
  by (auto simp: power_mult elim!: dvdE)

lemma dvd_255_cases:
  fixes d :: nat
  assumes "d dvd 255" and "d \<noteq> 255"
  shows "d dvd 85 \<or> d dvd 51 \<or> d dvd 15"
proof -
  from assms(1) obtain k where k: "255 = d * k" ..
  have "d \<le> 15 \<or> k \<le> 15"
  proof (rule ccontr)
    assume "\<not> (d \<le> 15 \<or> k \<le> 15)"
    then have "16 * 16 \<le> d * k" by (intro mult_mono) auto
    with k show False by simp
  qed
  then show ?thesis
  proof
    assume "d \<le> 15"
    then have "d \<in> {0, 1, 2, 3, 4, 5, 6, 7, 8, 9, 10, 11, 12, 13, 14, 15}" by (simp, presburger)
    with assms(1) show ?thesis by auto
  next
    assume "k \<le> 15"
    then have "k \<in> {0, 1, 2, 3, 4, 5, 6, 7, 8, 9, 10, 11, 12, 13, 14, 15}" by (simp, presburger)
    moreover have "k dvd 255" using k by (metis dvd_triv_right)
    ultimately have "k = 1 \<or> k = 3 \<or> k = 5 \<or> k = 15" by auto
    then have "d = 255 \<or> d = 85 \<or> d = 51 \<or> d = 17" using k by auto
    with assms(2) show ?thesis by auto
  qed
qed

lemma g3_power_255: "g3 ^ 255 = 1"
  using g3_powers(4) by (simp add: one_gf256_def)

lemma g3_order:
  assumes "g3 ^ d = 1" and "0 < d" and "d < 255"
  shows False
proof -
  obtain x y where xy: "d * x = 255 * y + gcd d 255"
    using bezout_nat [of d 255] assms(2) by auto
  have "g3 ^ (d * x) = 1" "g3 ^ (255 * y) = 1"
    by (simp_all only: power_mult assms(1) g3_power_255 power_one)
  then have one: "g3 ^ gcd d 255 = 1" unfolding xy by (simp only: power_add mult_1_left)
  have "gcd d 255 \<le> d" using assms(2) by (simp add: gcd_le1_nat)
  then have "gcd d 255 \<noteq> 255" using assms(3) by linarith
  then consider "g3 ^ 85 = 1" | "g3 ^ 51 = 1" | "g3 ^ 15 = 1"
    using dvd_255_cases [of "gcd d 255"] power_dvd_one [OF one] by blast
  then show False
    by cases (simp_all only: g3_powers(1-3) one_gf256_def Gf_inject UNIV_I, simp_all)
qed

lemma card_gf256: "card (UNIV :: gf256 set) = 256"
proof -
  have "inj byte_of" by (simp add: inj_def byte_of_inject)
  moreover have "range byte_of = UNIV" by (metis Gf_inverse UNIV_I surj_def)
  ultimately have "card (UNIV :: gf256 set) = card (UNIV :: u8 set)" by (metis card_image)
  then show ?thesis by (simp add: card_word)
qed

lemma gf256_zero_or_power: "a = 0 \<or> (\<exists>i < 255. a = g3 ^ i)"
proof -
  have cancel: "i = j" if "g3 ^ i = g3 ^ j" "i \<le> j" "j < 255" for i j
  proof (rule ccontr)
    assume "i \<noteq> j"
    have "g3 ^ (255 - i) * g3 ^ i = g3 ^ 255" "g3 ^ (255 - i) * g3 ^ j = g3 ^ 255 * g3 ^ (j - i)"
      using that(2,3) by (simp_all flip: power_add)
    with that(1) have "g3 ^ (j - i) = 1" by (simp add: g3_power_255)
    then show False by (rule g3_order) (use that \<open>i \<noteq> j\<close> in simp_all)
  qed
  then have "inj_on (\<lambda>i. g3 ^ i) {..<255}"
    unfolding inj_on_def by (metis lessThan_iff nat_le_linear)
  then have card: "card ((\<lambda>i. g3 ^ i) ` {..<255}) = 255" by (simp add: card_image)
  have "g3 ^ i \<noteq> 0" if "i < 255" for i
  proof
    assume "g3 ^ i = 0"
    then have "g3 ^ (i + (255 - i)) = 0" by (simp only: power_add mult_zero_left)
    with that show False by (simp add: g3_power_255)
  qed
  then have "card (insert 0 ((\<lambda>i. g3 ^ i) ` {..<255})) = 256"
    by (subst card_insert_disjoint) (auto simp: card image_iff)
  moreover have "finite (UNIV :: gf256 set)"
    using card_gf256 by (metis card.infinite zero_neq_numeral)
  ultimately have "insert 0 ((\<lambda>i. g3 ^ i) ` {..<255}) = (UNIV :: gf256 set)"
    by (intro card_subset_eq) (simp_all add: card_gf256)
  then show ?thesis by blast
qed

lemma gf256_power_255: "a \<noteq> 0 \<Longrightarrow> a ^ 255 = 1" for a :: gf256
  using gf256_zero_or_power [of a] g3_power_255
  by (metis power_mult mult.commute power_one)

text \<open>The addition chain computes the 254th power, which is the inverse.\<close>

lemma gf256_inv_power:
  assumes "a \<noteq> 0"
  shows "Gf (gf256_inv (byte_of a)) = a ^ 254"
proof -
  let ?m = gf256_mul and ?a = "byte_of a"
  define a3 where "a3 = ?m (?m ?a ?a) ?a"
  define a7 where "a7 = ?m (?m a3 a3) ?a"
  define a15 where "a15 = ?m (?m a7 a7) ?a"
  define a31 where "a31 = ?m (?m a15 a15) ?a"
  define a63 where "a63 = ?m (?m a31 a31) ?a"
  define a127 where "a127 = ?m (?m a63 a63) ?a"
  have Gf_a: "Gf ?a = a" by (simp add: byte_of_inverse)
  have step: "Gf (?m (?m x x) ?a) = a ^ (n + n + 1)" if "Gf x = a ^ n" for x n
    using that by (simp add: Gf_a power_add flip: Gf_mul)
  have "Gf a3 = a ^ 3" using step [of ?a 1] by (simp add: Gf_a a3_def numeral_3_eq_3)
  then have "Gf a7 = a ^ 7" using step [of a3 3] by (simp add: a7_def)
  then have "Gf a15 = a ^ 15" using step [of a7 7] by (simp add: a15_def)
  then have "Gf a31 = a ^ 31" using step [of a15 15] by (simp add: a31_def)
  then have "Gf a63 = a ^ 63" using step [of a31 31] by (simp add: a63_def)
  then have "Gf a127 = a ^ 127" using step [of a63 63] by (simp add: a127_def)
  then have "Gf (?m a127 a127) = a ^ 127 * a ^ 127" by (simp flip: Gf_mul)
  also have "\<dots> = a ^ 254" by (simp flip: power_add)
  finally show ?thesis
    using assms byte_of_inject [of a 0]
    by (simp add: gf256_inv_def Let_def byte_of_simps a127_def a63_def a31_def a15_def a7_def a3_def)
qed

instantiation gf256 :: field
begin

definition inverse_gf256 :: "gf256 \<Rightarrow> gf256" where "inverse a = Gf (gf256_inv (byte_of a))"
definition divide_gf256 :: "gf256 \<Rightarrow> gf256 \<Rightarrow> gf256" where "a div b = a * inverse b" for a b :: gf256

instance
proof
  fix a b :: gf256
  assume "a \<noteq> 0"
  then have "inverse a * a = a ^ 254 * a" by (simp add: inverse_gf256_def gf256_inv_power)
  also have "\<dots> = a ^ 255" using power_Suc2 [of a 254] by simp
  finally show "inverse a * a = 1" using gf256_power_255 [OF \<open>a \<noteq> 0\<close>] by simp
qed (simp_all add: divide_gf256_def inverse_gf256_def gf256_inv_def zero_gf256_def gf256_eq)

end

lemma byte_of_inverse_gf: "byte_of (inverse a) = gf256_inv (byte_of a)"
  by (simp add: inverse_gf256_def gf256_eq)

lemma Gf_hom:
  "Gf (gf256_mul a b) = Gf a * Gf b" "Gf (a XOR b) = Gf a + Gf b" "Gf (gf256_inv a) = inverse (Gf a)"
  by (simp_all add: times_gf256_def plus_gf256_def inverse_gf256_def gf256_eq)

lemma gf256_minus_plus: "a - b = a + b" for a b :: gf256
  by (simp add: minus_gf256_def plus_gf256_def)

lemma Gf_inject_simp [simp]: "Gf a = Gf b \<longleftrightarrow> a = b"
  by (simp add: Gf_inject)

end
