(* ===== verification/Interpolation.thy ===== *)
theory Interpolation
  imports Main
begin

text \<open>
  Polynomial functions over a field given by coefficient lists, the bound on their roots, and
  Lagrange interpolation at 0. Used for secret sharing.
\<close>

section \<open>Polynomial functions\<close>

primrec peval :: "'a::comm_ring_1 list \<Rightarrow> 'a \<Rightarrow> 'a" where
  "peval [] x = 0"
| "peval (c # cs) x = c + x * peval cs x"

lemma peval_append: "peval (cs @ ds) x = peval cs x + x ^ length cs * peval ds x"
  by (induction cs) (simp_all add: algebra_simps)

lemma peval_replicate_0 [simp]: "peval (replicate n 0) x = 0"
  by (induction n) simp_all

lemma peval_0: "peval cs 0 = (case cs of [] \<Rightarrow> 0 | c # _ \<Rightarrow> c)"
  by (cases cs) simp_all

text \<open>The functions with a coefficient list of length \<open>n\<close>.\<close>

definition is_poly :: "nat \<Rightarrow> ('a::comm_ring_1 \<Rightarrow> 'a) \<Rightarrow> bool" where
  "is_poly n f \<longleftrightarrow> (\<exists>cs. length cs = n \<and> (\<forall>x. f x = peval cs x))"

lemma is_poly_peval [intro]: "is_poly (length cs) (peval cs)"
  by (auto simp: is_poly_def)

lemma is_poly_const: "is_poly (Suc n) (\<lambda>x. c)"
  by (auto simp: is_poly_def intro!: exI [of _ "c # replicate n 0"])

lemma is_poly_zero: "is_poly n (\<lambda>x. 0)"
  by (auto simp: is_poly_def intro!: exI [of _ "replicate n 0"])

lemma is_poly_add:
  assumes "is_poly n f" and "is_poly n g"
  shows "is_poly n (\<lambda>x. f x + g x)"
proof -
  from assms obtain cs ds where "length cs = n" "\<forall>x. f x = peval cs x" "length ds = n" "\<forall>x. g x = peval ds x"
    by (auto simp: is_poly_def)
  moreover have "length as = length bs \<Longrightarrow> peval (map2 (+) as bs) x = peval as x + peval bs x" for as bs and x :: 'a
    by (induction as bs rule: list_induct2) (simp_all add: algebra_simps)
  ultimately show ?thesis
    unfolding is_poly_def by (intro exI [of _ "map2 (+) cs ds"]) simp
qed

lemma is_poly_scale:
  assumes "is_poly n f"
  shows "is_poly n (\<lambda>x. c * f x)"
proof -
  from assms obtain cs where "length cs = n" "\<forall>x. f x = peval cs x" by (auto simp: is_poly_def)
  moreover have "peval (map ((*) c) as) x = c * peval as x" for as x
    by (induction as) (simp_all add: algebra_simps)
  ultimately show ?thesis
    unfolding is_poly_def by (intro exI [of _ "map ((*) c) cs"]) simp
qed

lemma is_poly_shift: "is_poly n f \<Longrightarrow> is_poly (Suc n) (\<lambda>x. x * f x)"
  unfolding is_poly_def by (metis add_0 length_Cons peval.simps(2))

lemma is_poly_mono:
  assumes "is_poly n f"
  shows "is_poly (n + k) f"
proof -
  from assms obtain cs where "length cs = n" "\<forall>x. f x = peval cs x" by (auto simp: is_poly_def)
  then show ?thesis
    unfolding is_poly_def by (intro exI [of _ "cs @ replicate k 0"]) (simp add: peval_append)
qed

lemma is_poly_linear:
  assumes "is_poly n f"
  shows "is_poly (Suc n) (\<lambda>x. (a - x) * f x)"
proof -
  from is_poly_mono [OF is_poly_scale [OF assms, of a], of 1]
  have "is_poly (Suc n) (\<lambda>x. a * f x)" by simp
  from is_poly_add [OF this is_poly_scale [OF is_poly_shift [OF assms], of "- 1"]]
  show ?thesis by (simp add: algebra_simps)
qed

lemma is_poly_sum: "finite I \<Longrightarrow> \<forall>i \<in> I. is_poly n (f i) \<Longrightarrow> is_poly n (\<lambda>x. \<Sum>i \<in> I. f i x)"
  by (induction rule: finite_induct) (simp_all add: is_poly_zero is_poly_add)

text \<open>A product of \<open>n\<close> linear factors has \<open>n + 1\<close> coefficients.\<close>

lemma is_poly_prod: "finite S \<Longrightarrow> is_poly (Suc (card S)) (\<lambda>x. \<Prod>b \<in> S. (b - x))"
proof (induction rule: finite_induct)
  case empty
  show ?case by (simp add: is_poly_const)
next
  case (insert a S)
  then show ?case using is_poly_linear [OF insert.IH, of a] by simp
qed

section \<open>Roots\<close>

lemma is_poly_divide:
  "is_poly (Suc n) f \<Longrightarrow> \<exists>q. is_poly n q \<and> (\<forall>x. f x = f a + (x - a) * q x)"
proof (induction n arbitrary: f)
  case 0
  then obtain c where "\<forall>x. f x = c" by (auto simp: is_poly_def length_Suc_conv)
  then show ?case by (intro exI [of _ "\<lambda>x. 0"]) (simp add: is_poly_zero)
next
  case (Suc n)
  from Suc.prems obtain ds where ds: "length ds = Suc (Suc n)" "\<forall>x. f x = peval ds x"
    by (auto simp: is_poly_def)
  then obtain c cs where cs: "length cs = Suc n" "\<forall>x. f x = c + x * peval cs x" by (cases ds) simp_all
  from Suc.IH [of "peval cs"] cs(1) obtain q where q: "is_poly n q" "\<forall>x. peval cs x = peval cs a + (x - a) * q x"
    using is_poly_peval [of cs] by auto
  have "is_poly (Suc n) (\<lambda>x. peval cs x + a * q x)"
    using is_poly_peval [of cs] cs(1) is_poly_mono [OF is_poly_scale [OF q(1), of a], of 1]
    by (intro is_poly_add) simp_all
  moreover have "f x = f a + (x - a) * (peval cs x + a * q x)" for x
  proof -
    have "f x - f a = (x - a) * peval cs x + a * (peval cs x - peval cs a)"
      using cs(2) by (simp add: algebra_simps)
    also have "peval cs x - peval cs a = (x - a) * q x" using q(2) by (metis add_diff_cancel_left')
    finally show ?thesis by (simp add: algebra_simps)
  qed
  ultimately show ?case by blast
qed

lemma is_poly_roots:
  fixes f :: "'a::field \<Rightarrow> 'a"
  assumes "is_poly n f" and "finite S" and "card S = n" and "\<forall>x \<in> S. f x = 0"
  shows "f x = 0"
  using assms
proof (induction n arbitrary: f S)
  case 0
  then show ?case by (simp add: is_poly_def)
next
  case (Suc n)
  from Suc.prems(2,3) obtain a T where T: "S = insert a T" "a \<notin> T" "finite T" "card T = n"
    by (auto simp: card_Suc_eq)
  from is_poly_divide [OF Suc.prems(1), of a] obtain q where
    q: "is_poly n q" "\<forall>x. f x = f a + (x - a) * q x" by blast
  from Suc.prems(4) T have fa: "f a = 0" and fT: "\<forall>x \<in> T. f x = 0" by auto
  have "\<forall>x \<in> T. q x = 0"
  proof
    fix y
    assume "y \<in> T"
    with fT T(2) have "f y = 0" "y - a \<noteq> 0" by auto
    with spec [OF q(2), of y] fa show "q y = 0" by simp
  qed
  from Suc.IH [OF q(1) T(3,4) this] have "q x = 0" .
  moreover have "f x = f a + (x - a) * q x" using q(2) by blast
  ultimately show ?case using fa by simp
qed

section \<open>Interpolation at zero\<close>

lemma lagrange_at_0:
  fixes f :: "'a::field \<Rightarrow> 'a"
  assumes "is_poly (card S) f" and "finite S"
  shows "f 0 = (\<Sum>a \<in> S. f a * (\<Prod>b \<in> S - {a}. b / (b - a)))"
proof -
  let ?L = "\<lambda>x. \<Sum>a \<in> S. (f a * (\<Prod>b \<in> S - {a}. inverse (b - a))) * (\<Prod>b \<in> S - {a}. (b - x))"
  have L: "?L x = (\<Sum>a \<in> S. f a * (\<Prod>b \<in> S - {a}. (b - x) / (b - a)))" for x
    by (rule sum.cong) (simp_all add: divide_inverse prod.distrib ac_simps)
  have "is_poly (card S) ?L"
  proof (rule is_poly_sum [OF assms(2)], rule ballI)
    fix a
    assume "a \<in> S"
    then have "Suc (card (S - {a})) = card S" using assms(2) by (metis card_Suc_Diff1)
    then show "is_poly (card S) (\<lambda>x. (f a * (\<Prod>b \<in> S - {a}. inverse (b - a))) * (\<Prod>b \<in> S - {a}. (b - x)))"
      using is_poly_scale [OF is_poly_prod [of "S - {a}"]] assms(2) by simp
  qed
  then have "is_poly (card S) (\<lambda>x. f x + (- 1) * ?L x)"
    by (intro is_poly_add assms(1) is_poly_scale)
  moreover have "f c + (- 1) * ?L c = 0" if "c \<in> S" for c
  proof -
    have "(\<Prod>b \<in> S - {a}. (b - c) / (b - a)) = (if a = c then 1 else 0)" if "a \<in> S" for a
    proof (cases "a = c")
      case True
      then show ?thesis by (simp add: prod.neutral)
    next
      case False
      with \<open>c \<in> S\<close> assms(2) show ?thesis by (auto simp: prod_zero_iff intro!: bexI [of _ c])
    qed
    then have "?L c = (\<Sum>a \<in> S. if a = c then f a else 0)"
      unfolding L by (intro sum.cong) auto
    then show ?thesis using that assms(2) by simp
  qed
  ultimately have "f 0 + (- 1) * ?L 0 = 0"
    using assms(2) by (intro is_poly_roots [where S = S]) auto
  then show ?thesis unfolding L by simp
qed

end
