(* ===== verification/Shamir.thy ===== *)
theory Shamir
  imports Gf256 Interpolation Core_Types
begin

unbundle bit_operations_syntax

text \<open>
  Secret sharing (\<open>src/crates/exo-identity/src/shamir.rs\<close>) and the error type of the identity crate.
  The random coefficients are the parameter \<open>rng\<close>, by byte of the secret and coefficient number; the
  hash of the commitment is \<open>blake3\<close>. \<open>reconstruct\<close> indexes the data of each share by the length of
  the first one, which panics on shorter data: its model returns an option, \<open>None\<close> for the panic.
\<close>

section \<open>Errors\<close>

datatype identity_error =
    DuplicateDid did
  | DidNotFound did
  | DidRevoked did
  | IdInvalidSignature
  | InvalidRevocationProof did
  | KeyNotFound did
  | KeyAlreadyRevoked
  | KeyAlreadyRotated
  | InvalidShamirConfig u8 u8
  | InsufficientShares u8 u8
  | InvalidShareIndex u8
  | DuplicateShareIndices
  | InvalidPaceConfig string
  | CannotEscalate
  | CannotDeescalate
  | AttestationExpired
  | DuplicatePaceDid did
  | VaultKeyDerivationFailed string
  | VaultEncryptionFailed string
  | VaultDecryptionFailed
  | VaultCiphertextTooShort

section \<open>Sharing and reconstruction\<close>

record shamir_config =
  threshold :: u8
  shares :: u8

definition shamir_validate :: "shamir_config \<Rightarrow> (unit, identity_error) result" where
  "shamir_validate cfg =
     (if threshold cfg = 0 \<or> shares cfg = 0 \<or> threshold cfg > shares cfg
      then Err (InvalidShamirConfig (threshold cfg) (shares cfg)) else Ok ())"

record share =
  sh_index :: u8
  sh_data :: bytes
  sh_commitment :: arr32

text \<open>The evaluation loop: \<open>y\<close> accumulates, \<open>x_pow\<close> is the current power.\<close>

fun gf_eval :: "bytes \<Rightarrow> u8 \<Rightarrow> u8 \<Rightarrow> u8 \<Rightarrow> u8" where
  "gf_eval [] x y x_pow = y"
| "gf_eval (c # cs) x y x_pow = gf_eval cs x (y XOR gf256_mul c x_pow) (gf256_mul x_pow x)"

definition share_coeffs :: "(nat \<Rightarrow> u8) \<Rightarrow> nat \<Rightarrow> u8 \<Rightarrow> bytes" where
  "share_coeffs rnd k secret_byte = secret_byte # map rnd [1..<k]"

definition share_byte :: "bytes \<Rightarrow> share \<Rightarrow> share" where
  "share_byte coeffs s = s\<lparr>sh_data := sh_data s @ [gf_eval coeffs (sh_index s) 0 1]\<rparr>"

definition split_secret ::
  "blake3 \<Rightarrow> (nat \<Rightarrow> nat \<Rightarrow> u8) \<Rightarrow> bytes \<Rightarrow> shamir_config \<Rightarrow> (share list, identity_error) result" where
  "split_secret blake3 rng secret cfg =
     and_then (shamir_validate cfg) (\<lambda>_.
       let commitment = blake3 secret;
           k = unat (threshold cfg);
           n = unat (shares cfg);
           init = map (\<lambda>i. \<lparr>sh_index = of_nat i, sh_data = [], sh_commitment = commitment\<rparr>) [1..<n + 1]
       in Ok (fold (\<lambda>(idx, secret_byte). map (share_byte (share_coeffs (rng idx) k secret_byte)))
                (enumerate0 secret) init))"

text \<open>The basis and value loops of \<open>reconstruct\<close>, over the shares used.\<close>

fun basis_loop :: "nat \<Rightarrow> u8 \<Rightarrow> (nat \<times> share) list \<Rightarrow> u8 \<Rightarrow> u8" where
  "basis_loop i xi [] basis = basis"
| "basis_loop i xi ((j, share_j) # rest) basis =
     (if i = j then basis_loop i xi rest basis
      else let xj = sh_index share_j; num = xj; den = xj XOR xi
           in basis_loop i xi rest (gf256_mul basis (gf256_mul num (gf256_inv den))))"

fun value_loop :: "share list \<Rightarrow> nat \<Rightarrow> (nat \<times> share) list \<Rightarrow> u8 \<Rightarrow> u8 option" where
  "value_loop used byte_idx [] v = Some v"
| "value_loop used byte_idx ((i, share_i) # rest) v =
     (if byte_idx < length (sh_data share_i)
      then value_loop used byte_idx rest
             (v XOR gf256_mul (sh_data share_i ! byte_idx) (basis_loop i (sh_index share_i) (enumerate0 used) 1))
      else None)"

fun bytes_loop :: "share list \<Rightarrow> nat list \<Rightarrow> bytes option" where
  "bytes_loop used [] = Some []"
| "bytes_loop used (b # bs) =
     (case value_loop used b (enumerate0 used) 0 of
        None \<Rightarrow> None | Some v \<Rightarrow> map_option ((#) v) (bytes_loop used bs))"

definition insert_seen :: "u8 list \<Rightarrow> (unit, identity_error) result" where
  "insert_seen idxs = (if distinct idxs then Ok () else Err DuplicateShareIndices)"

definition reconstruct :: "share list \<Rightarrow> shamir_config \<Rightarrow> (bytes, identity_error) result option" where
  "reconstruct ss cfg =
     (case and_then (shamir_validate cfg) (\<lambda>_.
             let k = unat (threshold cfg);
                 got = (if length ss < 256 then of_nat (length ss) else - 1)
             in if length ss < k then Err (InsufficientShares (threshold cfg) got)
                else and_then (for_check (\<lambda>s. if sh_index s = 0 then Err (InvalidShareIndex 0) else Ok ()) ss)
                       (\<lambda>_. insert_seen (map sh_index ss))) of
        Inl e \<Rightarrow> Some (Err e)
      | Inr _ \<Rightarrow>
          let used = take (unat (threshold cfg)) ss;
              secret_len = length (sh_data (used ! 0))
          in map_option Ok (bytes_loop used [0..<secret_len]))"

section \<open>The loops compute in the field\<close>

lemma gf_eval_peval:
  "Gf (gf_eval cs x y p) = Gf y + Gf p * peval (map Gf cs) (Gf x)"
proof (induction cs x y p rule: gf_eval.induct)
  case (2 c cs x y p)
  then show ?case
    by (simp add: Gf_hom algebra_simps)
qed simp

lemma basis_loop_prod:
  "Gf (basis_loop i xi js b) =
     Gf b * (\<Prod>(j, s) \<leftarrow> filter (\<lambda>(j, s). j \<noteq> i) js. Gf (sh_index s) / (Gf (sh_index s) - Gf xi))"
proof (induction i xi js b rule: basis_loop.induct)
  case (2 i xi j s rest b)
  let ?x = "sh_index s"
  have "Gf (gf256_mul b (gf256_mul ?x (gf256_inv (?x XOR xi)))) = Gf b * (Gf ?x / (Gf ?x - Gf xi))"
    by (simp add: Gf_hom gf256_minus_plus divide_inverse)
  with 2 show ?case by (simp add: Let_def mult.assoc)
qed simp

text \<open>With distinct indices the product over the other positions is the one over the other indices.\<close>

lemma basis_loop_distinct:
  assumes "distinct (map sh_index used)" and "i < length used"
  shows "Gf (basis_loop i (sh_index (used ! i)) (enumerate0 used) 1) =
           (\<Prod>x \<in> Gf ` sh_index ` set used - {Gf (sh_index (used ! i))}. x / (x - Gf (sh_index (used ! i))))"
proof -
  let ?xi = "Gf (sh_index (used ! i))" and ?js = "filter (\<lambda>(j, s). j \<noteq> i) (enumerate0 used)"
  let ?f = "\<lambda>(j :: nat, s). Gf (sh_index s)"
  have nth: "sh_index (used ! j) = sh_index (used ! i) \<longleftrightarrow> j = i" if "j < length used" for j
    using assms that nth_eq_iff_index_eq [of "map sh_index used" j i] by simp
  have "distinct (map ?f (enumerate0 used))"
  proof -
    have "map ?f (enumerate0 used) = map Gf (map sh_index used)"
      by (rule nth_equalityI) (simp_all add: nth_enumerate_eq)
    then show ?thesis using assms(1) by (simp add: distinct_map inj_on_def)
  qed
  then have dist: "distinct (map ?f ?js)" by (simp add: distinct_map_filter)
  have "Gf ` sh_index ` set used - {?xi} = ?f ` set ?js"
  proof
    show "?f ` set ?js \<subseteq> Gf ` sh_index ` set used - {?xi}"
      using nth by (auto simp: in_set_enumerate0)
    show "Gf ` sh_index ` set used - {?xi} \<subseteq> ?f ` set ?js"
    proof
      fix x
      assume x: "x \<in> Gf ` sh_index ` set used - {?xi}"
      then obtain j where j: "j < length used" "x = Gf (sh_index (used ! j))"
        by (auto simp: in_set_conv_nth)
      with x have "j \<noteq> i" by auto
      with j show "x \<in> ?f ` set ?js" by (intro image_eqI [of _ _ "(j, used ! j)"]) (simp_all add: in_set_enumerate0)
    qed
  qed
  moreover have "(\<Prod>x \<leftarrow> map ?f ?js. x / (x - ?xi)) = (\<Prod>x \<in> set (map ?f ?js). x / (x - ?xi))"
    using dist by (simp only: prod.distinct_set_conv_list)
  ultimately show ?thesis
    by (simp add: basis_loop_prod one_gf256_def [symmetric] comp_def case_prod_unfold)
qed

lemma value_loop_sum:
  assumes "\<forall>(i, s) \<in> set is. b < length (sh_data s)"
  shows "\<exists>v'. value_loop used b is v = Some v' \<and>
    Gf v' = Gf v + (\<Sum>(i, s) \<leftarrow> is. Gf (sh_data s ! b) * Gf (basis_loop i (sh_index s) (enumerate0 used) 1))"
  using assms
proof (induction "is" arbitrary: v)
  case (Cons p "is")
  obtain i s where p: "p = (i, s)" by (cases p)
  let ?v = "v XOR gf256_mul (sh_data s ! b) (basis_loop i (sh_index s) (enumerate0 used) 1)"
  from Cons.prems p have "b < length (sh_data s)" "\<forall>(i, s) \<in> set is. b < length (sh_data s)" by auto
  with Cons.IH [of ?v] p show ?case by (simp add: Gf_hom add.assoc)
qed simp

text \<open>
  Interpolation: from shares whose data at one byte are the values of a polynomial with as many
  coefficients as there are shares, the loop recovers its value at 0.
\<close>

lemma value_loop_recovers:
  assumes dist: "distinct (map sh_index used)"
    and data: "\<forall>s \<in> set used. b < length (sh_data s) \<and> Gf (sh_data s ! b) = peval (map Gf cs) (Gf (sh_index s))"
    and len: "length cs = length used"
  shows "value_loop used b (enumerate0 used) 0 = Some (case cs of [] \<Rightarrow> 0 | c # _ \<Rightarrow> c)"
proof -
  let ?S = "Gf ` sh_index ` set used" and ?f = "peval (map Gf cs)"
  let ?xs = "map (\<lambda>s. Gf (sh_index s)) used"
  let ?L = "\<lambda>x. ?f x * (\<Prod>y \<in> ?S - {x}. y / (y - x))"
  have xs: "distinct ?xs" "set ?xs = ?S"
    using dist by (auto simp: distinct_map inj_on_def)
  then have card: "card ?S = length cs" using distinct_card [OF xs(1)] len by simp
  have "\<forall>(i, s) \<in> set (enumerate0 used). b < length (sh_data s)"
    using data by (auto simp: in_set_enumerate0)
  from value_loop_sum [OF this, of used 0] obtain v where v: "value_loop used b (enumerate0 used) 0 = Some v"
    "Gf v = (\<Sum>(i, s) \<leftarrow> enumerate0 used. Gf (sh_data s ! b) * Gf (basis_loop i (sh_index s) (enumerate0 used) 1))"
    by (auto simp: zero_gf256_def [symmetric])
  have "(\<Sum>(i, s) \<leftarrow> enumerate0 used. Gf (sh_data s ! b) * Gf (basis_loop i (sh_index s) (enumerate0 used) 1)) =
      (\<Sum>x \<leftarrow> ?xs. ?L x)"
    by (intro arg_cong [where f = sum_list] nth_equalityI)
       (use data basis_loop_distinct [OF dist] in \<open>auto simp: nth_enumerate_eq\<close>)
  also have "\<dots> = (\<Sum>x \<in> ?S. ?L x)"
    using sum.distinct_set_conv_list [OF xs(1), of ?L] xs(2) by simp
  also have "\<dots> = ?f 0"
    using lagrange_at_0 [of ?S ?f] is_poly_peval [of "map Gf cs"] card by simp
  finally have "Gf v = ?f 0" using v(2) by simp
  then have "v = (case cs of [] \<Rightarrow> 0 | c # _ \<Rightarrow> c)"
    by (cases cs) (simp add: zero_gf256_def, simp)
  with v(1) show ?thesis by simp
qed

section \<open>What the shares contain\<close>

lemma share_byte_fields [simp]:
  "sh_index (share_byte cs s) = sh_index s" "sh_commitment (share_byte cs s) = sh_commitment s"
  "sh_data (share_byte cs s) = sh_data s @ [gf_eval cs (sh_index s) 0 1]"
  by (simp_all add: share_byte_def)

definition share_of :: "blake3 \<Rightarrow> (nat \<Rightarrow> nat \<Rightarrow> u8) \<Rightarrow> bytes \<Rightarrow> nat \<Rightarrow> u8 \<Rightarrow> share" where
  "share_of blake3 rng secret k x =
     \<lparr>sh_index = x,
      sh_data = map (\<lambda>(idx, b). gf_eval (share_coeffs (rng idx) k b) x 0 1) (enumerate0 secret),
      sh_commitment = blake3 secret\<rparr>"

lemma fold_share_byte:
  "fold (\<lambda>(idx, b). map (share_byte (cs idx b))) ibs (map s xs) =
     map (\<lambda>x. (s x)\<lparr>sh_data := sh_data (s x) @ map (\<lambda>(idx, b). gf_eval (cs idx b) (sh_index (s x)) 0 1) ibs\<rparr>) xs"
proof (induction ibs arbitrary: s)
  case (Cons ib ibs)
  obtain idx b where ib: "ib = (idx, b)" by (cases ib)
  from Cons [of "\<lambda>x. share_byte (cs idx b) (s x)"] show ?case
    by (simp add: ib share_byte_def comp_def)
qed simp

lemma shamir_validate_Ok:
  "shamir_validate cfg = Inr u \<longleftrightarrow> 0 < unat (threshold cfg) \<and> unat (threshold cfg) \<le> unat (shares cfg)"
  by (cases u) (auto simp: shamir_validate_def word_less_nat_alt unat_gt_0)

lemma split_secret_Ok:
  "split_secret blake3 rng secret cfg = Ok ss \<longleftrightarrow>
     shamir_validate cfg = Ok () \<and>
     ss = map (\<lambda>i. share_of blake3 rng secret (unat (threshold cfg)) (of_nat i)) [1..<unat (shares cfg) + 1]"
  unfolding split_secret_def Let_def
  by (auto simp: and_then_eq_Ok fold_share_byte share_of_def
      simp flip: map_map)

lemma length_share_coeffs [simp]: "0 < k \<Longrightarrow> length (share_coeffs rnd k b) = k"
  by (simp add: share_coeffs_def)

lemma share_of_nth:
  "b < length secret \<Longrightarrow>
     Gf (sh_data (share_of blake3 rng secret k x) ! b) = peval (map Gf (share_coeffs (rng b) k (secret ! b))) (Gf x)"
  by (simp add: share_of_def nth_enumerate_eq gf_eval_peval zero_gf256_def [symmetric] one_gf256_def [symmetric])

lemma share_of_fields [simp]:
  "sh_index (share_of blake3 rng secret k x) = x"
  "length (sh_data (share_of blake3 rng secret k x)) = length secret"
  by (simp_all add: share_of_def)

lemma share_index_less: "i \<le> unat (n :: u8) \<Longrightarrow> unat (of_nat i :: u8) = i"
proof -
  assume "i \<le> unat n"
  moreover have "unat n < 2 ^ LENGTH(8)" by (rule unsigned_less)
  ultimately have "i < 256" by simp
  then show ?thesis by (simp add: unat_of_nat)
qed

lemma bytes_loop_map:
  "(\<And>b. b \<in> set bs \<Longrightarrow> value_loop used b (enumerate0 used) 0 = Some (f b)) \<Longrightarrow>
     bytes_loop used bs = Some (map f bs)"
  by (induction bs) simp_all

lemma reconstruct_shares:
  assumes valid: "shamir_validate cfg = Ok ()"
    and sel: "\<forall>s \<in> set sel. s = share_of blake3 rng secret (unat (threshold cfg)) (sh_index s) \<and> sh_index s \<noteq> 0"
    and dist: "distinct (map sh_index sel)" and len: "unat (threshold cfg) \<le> length sel"
  shows "reconstruct sel cfg = Some (Ok secret)"
proof -
  let ?k = "unat (threshold cfg)" and ?used = "take (unat (threshold cfg)) sel"
  from valid have k: "0 < ?k" by (simp add: shamir_validate_Ok)
  have used: "\<forall>s \<in> set ?used. s = share_of blake3 rng secret ?k (sh_index s)"
    using sel by (auto dest: in_set_takeD)
  have d: "distinct (map sh_index ?used)" using dist by (metis distinct_take take_map)
  have data: "length (sh_data s) = length secret" if "s \<in> set ?used" for s
    using used that by (metis share_of_fields(2))
  have "value_loop ?used b (enumerate0 ?used) 0 = Some (secret ! b)" if b: "b < length secret" for b
  proof -
    let ?cs = "share_coeffs (rng b) ?k (secret ! b)"
    have "value_loop ?used b (enumerate0 ?used) 0 = Some (case ?cs of [] \<Rightarrow> 0 | c # _ \<Rightarrow> c)"
    proof (rule value_loop_recovers [OF d])
      show "\<forall>s \<in> set ?used. b < length (sh_data s) \<and> Gf (sh_data s ! b) = peval (map Gf ?cs) (Gf (sh_index s))"
        using used data b share_of_nth [OF b, of blake3 rng ?k] by (metis (no_types, lifting))
    qed (use k len in simp)
    then show ?thesis by (simp add: share_coeffs_def)
  qed
  then have "bytes_loop ?used [0..<length secret] = Some (map ((!) secret) [0..<length secret])"
    by (intro bytes_loop_map) simp
  moreover have "length (sh_data (?used ! 0)) = length secret"
    using data k len by (metis length_take min.absorb2 nth_mem)
  moreover have "for_check (\<lambda>s. if sh_index s = 0 then Err (InvalidShareIndex 0) else Ok ()) sel = Ok ()"
    using sel by (simp add: for_check_Ok)
  ultimately show ?thesis
    using valid dist len by (simp add: reconstruct_def Let_def insert_seen_def map_nth)
qed

text \<open>Every share made by \<open>split\<close> is the share of its index, which is not zero.\<close>

lemma split_secret_elem:
  assumes "split_secret blake3 rng secret cfg = Ok ss" and "s \<in> set ss"
  shows "s = share_of blake3 rng secret (unat (threshold cfg)) (sh_index s) \<and> sh_index s \<noteq> 0"
proof -
  from assms obtain i where i: "1 \<le> i" "i \<le> unat (shares cfg)"
    "s = share_of blake3 rng secret (unat (threshold cfg)) (of_nat i)" by (auto simp: split_secret_Ok)
  with share_index_less [OF i(2)] show ?thesis by (metis not_one_le_zero share_of_fields(1) unat_0)
qed

text \<open>
  C9: any \<open>threshold\<close> shares recover the secret. Whatever the random coefficients, any selection of
  distinct shares produced by \<open>split\<close>, in any order and at least as many as the threshold, is
  accepted by \<open>reconstruct\<close>, which returns the secret.
\<close>

theorem shamir_roundtrip:
  assumes "split_secret blake3 rng secret cfg = Ok ss"
    and "distinct sel" and "set sel \<subseteq> set ss" and "unat (threshold cfg) \<le> length sel"
  shows "reconstruct sel cfg = Some (Ok secret)"
proof (rule reconstruct_shares)
  from assms(1) show "shamir_validate cfg = Ok ()" by (simp add: split_secret_Ok)
  have "s = share_of blake3 rng secret (unat (threshold cfg)) (sh_index s) \<and> sh_index s \<noteq> 0" if "s \<in> set sel" for s
    using split_secret_elem [OF assms(1)] that assms(3) by blast
  then show "\<forall>s \<in> set sel. s = share_of blake3 rng secret (unat (threshold cfg)) (sh_index s) \<and> sh_index s \<noteq> 0"
    by blast
  then have "inj_on sh_index (set sel)" by (intro inj_onI) metis
  with assms(2) show "distinct (map sh_index sel)" by (simp add: distinct_map)
qed (rule assms(4))

text \<open>A secret of two bytes, two of three shares, in reverse order.\<close>

theorem shamir_roundtrip_witness:
  "\<exists>ss. split_secret (\<lambda>_. arr32_of []) (\<lambda>i j. of_nat (7 * i + j)) [42, 7] \<lparr>threshold = 2, shares = 3\<rparr> = Ok ss \<and>
     reconstruct [ss ! 2, ss ! 0] \<lparr>threshold = 2, shares = 3\<rparr> = Some (Ok [42, 7])"
proof -
  let ?cfg = "\<lparr>threshold = 2, shares = 3\<rparr>" and ?rng = "\<lambda>i j. of_nat (7 * i + j) :: u8"
  let ?s = "\<lambda>i. share_of (\<lambda>_. arr32_of []) ?rng [42, 7] 2 (of_nat i)"
  have valid: "shamir_validate ?cfg = Ok ()" by (simp add: shamir_validate_def)
  have ss: "split_secret (\<lambda>_. arr32_of []) ?rng [42, 7] ?cfg = Ok (map ?s [1..<4])"
    using valid by (simp add: split_secret_Ok)
  have upt: "[1..<4] = [1, 2, 3 :: nat]" by (simp add: upt_rec)
  have "sh_index (?s 3) \<noteq> sh_index (?s 1)" by simp
  then have "?s 3 \<noteq> ?s 1" by metis
  then have "distinct [?s 3, ?s 1]" by simp
  moreover have "set [?s 3, ?s 1] \<subseteq> set (map ?s [1..<4])" unfolding upt by simp
  ultimately have "reconstruct [?s 3, ?s 1] ?cfg = Some (Ok [42, 7])"
    by (rule shamir_roundtrip [OF ss]) simp
  with ss show ?thesis unfolding upt by auto
qed

text \<open>
  A polynomial through the same points with another value at 0: add a multiple of the product that
  vanishes at the given points.
\<close>

lemma change_value_at_0:
  fixes f :: "'a::field \<Rightarrow> 'a"
  assumes "is_poly k f" and "finite X" and "0 \<notin> X" and "card X < k"
  shows "\<exists>ds. length ds = k \<and> peval ds 0 = v \<and> (\<forall>x \<in> X. peval ds x = f x)"
proof -
  let ?c = "(v - f 0) * (\<Prod>a \<in> X. inverse a)" and ?P = "\<lambda>x. \<Prod>a \<in> X. (a - x)"
  have "is_poly (Suc (card X) + (k - Suc (card X))) ?P"
    using assms(2) by (intro is_poly_mono is_poly_prod)
  then have "is_poly k (\<lambda>x. f x + ?c * ?P x)"
    using assms(1,4) by (intro is_poly_add is_poly_scale) simp_all
  then obtain ds where ds: "length ds = k" "\<forall>x. f x + ?c * ?P x = peval ds x"
    by (auto simp: is_poly_def)
  have "(\<Prod>a \<in> X. inverse a) * (\<Prod>a \<in> X. a) = 1"
    unfolding prod.distrib [symmetric] using assms(3) by (intro prod.neutral) (metis left_inverse)
  then have "peval ds 0 = v"
    using ds(2) [THEN spec, of 0] by (simp add: mult.assoc)
  moreover have "peval ds x = f x" if "x \<in> X" for x
  proof -
    have "?P x = 0" using that assms(2) by (auto simp: prod_zero_iff)
    then show ?thesis using ds(2) [THEN spec, of x] by simp
  qed
  ultimately show ?thesis using ds(1) by blast
qed

lemma share_coeffs_of_list:
  assumes "length ds = k" and "0 < k" and "peval ds 0 = Gf b"
  shows "share_coeffs (\<lambda>m. byte_of (ds ! m)) k b = map byte_of ds"
proof -
  from assms obtain d es where ds: "ds = d # es" "d = Gf b" by (cases ds) auto
  have "map (\<lambda>m. byte_of (ds ! m)) [1..<k] = map byte_of es"
    using assms(1) ds(1) by (intro nth_equalityI) simp_all
  then show ?thesis by (simp add: share_coeffs_def ds gf256_eq)
qed

lemma same_shares_other_secret:
  assumes "0 < k" and "length secret' = length secret" and "finite X" and "0 \<notin> X" and "card X < k"
  shows "\<exists>rng'. \<forall>x \<in> X. sh_data (share_of blake3 rng' secret' k x) = sh_data (share_of blake3 rng secret k x)"
proof -
  let ?f = "\<lambda>b. peval (map Gf (share_coeffs (rng b) k (secret ! b)))"
  have "card (Gf ` X) < k" using card_image_le [OF assms(3), of Gf] assms(5) by linarith
  then have "\<exists>ds. length ds = k \<and> peval ds 0 = Gf (secret' ! b) \<and> (\<forall>y \<in> Gf ` X. peval ds y = ?f b y)" for b
    using assms(1,3,4) is_poly_peval [of "map Gf (share_coeffs (rng b) k (secret ! b))"]
    by (intro change_value_at_0) (auto simp: zero_gf256_def)
  then obtain ds where ds: "length (ds b) = k" "peval (ds b) 0 = Gf (secret' ! b)"
    "\<forall>y \<in> Gf ` X. peval (ds b) y = ?f b y" for b by metis
  let ?rng = "\<lambda>b m. byte_of (ds b ! m)"
  have "sh_data (share_of blake3 ?rng secret' k x) = sh_data (share_of blake3 rng secret k x)" if x: "x \<in> X" for x
  proof (rule nth_equalityI)
    fix b
    assume "b < length (sh_data (share_of blake3 ?rng secret' k x))"
    then have b: "b < length secret'" "b < length secret" using assms(2) by simp_all
    have "map Gf (share_coeffs (?rng b) k (secret' ! b)) = ds b"
      using share_coeffs_of_list [OF ds(1) assms(1) ds(2)] by (simp add: comp_def byte_of_inverse)
    then have "Gf (sh_data (share_of blake3 ?rng secret' k x) ! b) = Gf (sh_data (share_of blake3 rng secret k x) ! b)"
      unfolding share_of_nth [OF b(1)] share_of_nth [OF b(2)] using ds(3) [of b] x by auto
    then show "sh_data (share_of blake3 ?rng secret' k x) ! b = sh_data (share_of blake3 rng secret k x) ! b"
      by simp
  qed (use assms(2) in simp)
  then show ?thesis by blast
qed

lemma nth_shares:
  "i < n \<Longrightarrow> map (\<lambda>i. share_of blake3 rng secret k (of_nat i)) [1..<n + 1] ! i =
     share_of blake3 rng secret k (of_nat (Suc i))"
  by (simp del: upt_Suc)

lemma same_data_share:
  assumes "sh_data (share_of blake3 rng' secret' k x) = sh_data (share_of blake3 rng secret k x)"
  shows "sh_index (share_of blake3 rng' secret' k x) = sh_index (share_of blake3 rng secret k x) \<and>
         sh_data (share_of blake3 rng' secret' k x) = sh_data (share_of blake3 rng secret k x) \<and>
         sh_commitment (share_of blake3 rng secret k x) = blake3 secret \<and>
         sh_commitment (share_of blake3 rng' secret' k x) = blake3 secret' \<and>
         (share_of blake3 rng' secret' k x = share_of blake3 rng secret k x \<longleftrightarrow> blake3 secret' = blake3 secret)"
  using assms by (simp add: share_of_def)

text \<open>
  C21: the index and the data of fewer shares than the threshold reveal nothing of the secret. For the
  shares of one secret, any set of fewer than \<open>threshold\<close> positions and any other secret of the same
  length, there are random coefficients with which the other secret gives the same indices and the
  same data at those positions. The third field of a share is not covered by this: every single share
  carries the unsalted hash of the secret as its commitment, whatever the random coefficients, so the
  two sets of shares agree in all fields exactly when the two secrets hash alike.
\<close>

theorem shamir_secrecy:
  assumes "split_secret blake3 rng secret cfg = Ok ss" and "length secret' = length secret"
    and "I \<subseteq> {..<length ss}" and "card I < unat (threshold cfg)"
  shows "\<exists>rng' ss'. split_secret blake3 rng' secret' cfg = Ok ss' \<and>
           (\<forall>i \<in> I. sh_index (ss' ! i) = sh_index (ss ! i) \<and> sh_data (ss' ! i) = sh_data (ss ! i) \<and>
              sh_commitment (ss ! i) = blake3 secret \<and> sh_commitment (ss' ! i) = blake3 secret' \<and>
              (ss' ! i = ss ! i \<longleftrightarrow> blake3 secret' = blake3 secret))"
proof -
  let ?k = "unat (threshold cfg)" and ?n = "unat (shares cfg)"
  let ?shares = "\<lambda>rng secret. map (\<lambda>i. share_of blake3 rng secret ?k (of_nat i)) [1..<?n + 1]"
  from assms(1) have valid: "shamir_validate cfg = Ok ()" and ss: "ss = ?shares rng secret"
    by (simp_all add: split_secret_Ok)
  let ?X = "(\<lambda>i. of_nat (Suc i) :: u8) ` I"
  have fin: "finite I" using assms(3) by (rule finite_subset) simp
  have "length ss = ?n" by (simp only: ss length_map length_upt)
  then have n: "i < ?n" if "i \<in> I" for i using that assms(3) by auto
  have nz: "of_nat (Suc i) \<noteq> (0 :: u8)" if "i \<in> I" for i
    using share_index_less [of "Suc i" "shares cfg"] n [OF that] by (metis Suc_leI nat.distinct(2) unat_0)
  have X: "0 \<notin> ?X" "finite ?X" "card ?X < ?k"
    using nz fin le_less_trans [OF card_image_le [OF fin] assms(4)] by (auto simp del: of_nat_Suc)
  have "0 < ?k" using valid by (simp add: shamir_validate_Ok)
  from same_shares_other_secret [OF this assms(2) X(2,1,3), of blake3 rng]
  obtain rng' where rng': "\<forall>x \<in> ?X. sh_data (share_of blake3 rng' secret' ?k x) =
      sh_data (share_of blake3 rng secret ?k x)" ..
  have "split_secret blake3 rng' secret' cfg = Ok (?shares rng' secret')"
    using valid by (simp only: split_secret_Ok)
  moreover have "sh_index (?shares rng' secret' ! i) = sh_index (ss ! i) \<and>
      sh_data (?shares rng' secret' ! i) = sh_data (ss ! i) \<and>
      sh_commitment (ss ! i) = blake3 secret \<and> sh_commitment (?shares rng' secret' ! i) = blake3 secret' \<and>
      (?shares rng' secret' ! i = ss ! i \<longleftrightarrow> blake3 secret' = blake3 secret)" if "i \<in> I" for i
  proof -
    have at: "?shares r z ! i = share_of blake3 r z ?k (of_nat (Suc i))" for r z
      by (rule nth_shares) (rule n [OF that])
    have "of_nat (Suc i) \<in> ?X" using that by blast
    with rng' have "sh_data (share_of blake3 rng' secret' ?k (of_nat (Suc i))) =
        sh_data (share_of blake3 rng secret ?k (of_nat (Suc i)))" by blast
    then show ?thesis unfolding ss at by (rule same_data_share)
  qed
  ultimately show ?thesis by (intro exI conjI ballI) (assumption, blast+)
qed

theorem shamir_secrecy_witness:
  "\<exists>rng' ss'. split_secret (\<lambda>_. arr32_of []) rng' [9] \<lparr>threshold = 2, shares = 3\<rparr> = Ok ss' \<and>
     (\<forall>i \<in> {1}. sh_index (ss' ! i) = 2)"
proof -
  let ?cfg = "\<lparr>threshold = 2, shares = 3\<rparr>" and ?rng = "\<lambda>i j. of_nat (7 * i + j) :: u8"
  let ?s = "\<lambda>i. share_of (\<lambda>_. arr32_of []) ?rng [42] 2 (of_nat i)"
  have valid: "shamir_validate ?cfg = Ok ()" by (simp add: shamir_validate_def)
  have ss: "split_secret (\<lambda>_. arr32_of []) ?rng [42] ?cfg = Ok (map ?s [1..<4])"
    using valid by (simp add: split_secret_Ok)
  have "map ?s [1..<4] ! 1 = ?s 2" by (simp add: upt_rec)
  with shamir_secrecy [OF ss, of "[9]" "{1}"] show ?thesis by (auto simp: upt_rec)
qed

end
