(* ===== verification/Crypto.thy ===== *)
theory Crypto
  imports Merkle
begin

text \<open>
  \<open>src/crates/exo-core/src/crypto.rs\<close> and \<open>src/crates/exo-core/src/events.rs\<close>. The primitives are
  third-party crates (\<open>ed25519-dalek\<close>, \<open>ml-dsa\<close>): a record of functions is the parameter. What is
  modelled is the code around them: which variant each verifier accepts, the strict conjunction of
  the hybrid scheme, the checks before a key or signature is used, and the signed event.
\<close>

section \<open>The primitives\<close>

record crypto_prims =
  ed_public :: "arr32 \<Rightarrow> arr32"
    \<comment> \<open>\<open>SigningKey::from_bytes(secret).verifying_key()\<close>\<close>
  ed_sign :: "arr32 \<Rightarrow> bytes \<Rightarrow> arr64"
    \<comment> \<open>\<open>SigningKey::sign\<close>\<close>
  ed_key_ok :: "arr32 \<Rightarrow> bool"
    \<comment> \<open>\<open>VerifyingKey::from_bytes\<close> succeeds\<close>
  ed_verify :: "arr32 \<Rightarrow> bytes \<Rightarrow> arr64 \<Rightarrow> bool"
    \<comment> \<open>\<open>VerifyingKey::verify\<close> is \<open>Ok\<close>\<close>
  ml_public :: "arr32 \<Rightarrow> bytes"
    \<comment> \<open>the encoded ML-DSA-65 verifying key of a seed\<close>
  ml_sign :: "arr32 \<Rightarrow> bytes \<Rightarrow> (bytes, string) result"
    \<comment> \<open>\<open>sign_deterministic\<close> with the empty context\<close>
  ml_key_ok :: "bytes \<Rightarrow> bool"
    \<comment> \<open>\<open>EncodedVerifyingKey::try_from\<close> succeeds\<close>
  ml_sig_ok :: "bytes \<Rightarrow> bool"
    \<comment> \<open>\<open>ml_dsa::Signature::try_from\<close> succeeds\<close>
  ml_verify :: "bytes \<Rightarrow> bytes \<Rightarrow> bytes \<Rightarrow> bool"
    \<comment> \<open>\<open>verify_with_context\<close> with the empty context\<close>

text \<open>The documented correctness of the two schemes: what is signed verifies.\<close>

definition ed_correct :: "crypto_prims \<Rightarrow> bool" where
  "ed_correct P \<longleftrightarrow>
     (\<forall>sk m. ed_key_ok P (ed_public P sk) \<and> ed_verify P (ed_public P sk) m (ed_sign P sk m))"

definition ml_correct :: "crypto_prims \<Rightarrow> bool" where
  "ml_correct P \<longleftrightarrow>
     (\<forall>seed m s. ml_sign P seed m = Ok s \<longrightarrow>
        ml_key_ok P (ml_public P seed) \<and> ml_sig_ok P s \<and> ml_verify P (ml_public P seed) m s)"

section \<open>Signing and verifying\<close>

definition sign :: "crypto_prims \<Rightarrow> bytes \<Rightarrow> secret_key \<Rightarrow> signature" where
  "sign P message secret = Ed25519 (ed_sign P (sk_arr secret) message)"

text \<open>A 64-byte array always parses as an Ed25519 signature, so only the key can be refused.\<close>

definition verify :: "crypto_prims \<Rightarrow> bytes \<Rightarrow> signature \<Rightarrow> public_key \<Rightarrow> bool" where
  "verify P message signature public = (case signature of
     Ed25519 b \<Rightarrow>
       if \<not> ed_key_ok P (pk_arr public) then False else ed_verify P (pk_arr public) message b
   | Hybrid _ _ \<Rightarrow> False
   | PostQuantum _ \<Rightarrow> False
   | SigEmpty \<Rightarrow> False)"

definition sign_pq :: "crypto_prims \<Rightarrow> bytes \<Rightarrow> pq_secret_key \<Rightarrow> (signature, exo_error) result" where
  "sign_pq P message secret = (case try_arr32 (pq_sk_bytes secret) of
     None \<Rightarrow> Err (CryptoError
               (''ML-DSA seed must be 32 bytes, got '' @ show_nat (length (pq_sk_bytes secret))))
   | Some seed \<Rightarrow>
       (case ml_sign P seed message of
          Inl e \<Rightarrow> Err (CryptoError (''ML-DSA-65 sign failed: '' @ e))
        | Inr s \<Rightarrow> Ok (PostQuantum s)))"

definition verify_pq :: "crypto_prims \<Rightarrow> bytes \<Rightarrow> signature \<Rightarrow> pq_public_key \<Rightarrow> bool" where
  "verify_pq P message signature public = (case signature of
     PostQuantum sig_bytes \<Rightarrow>
       if \<not> ml_key_ok P (pq_pk_bytes public) then False
       else if \<not> ml_sig_ok P sig_bytes then False
       else ml_verify P (pq_pk_bytes public) message sig_bytes
   | _ \<Rightarrow> False)"

definition sign_hybrid ::
  "crypto_prims \<Rightarrow> bytes \<Rightarrow> secret_key \<Rightarrow> pq_secret_key \<Rightarrow> (signature, exo_error) result" where
  "sign_hybrid P message classical_secret pq_secret = (case sign P message classical_secret of
     Ed25519 c \<Rightarrow>
       and_then (sign_pq P message pq_secret)
         (\<lambda>s. case s of
            PostQuantum q \<Rightarrow> Ok (Hybrid c q)
          | _ \<Rightarrow> Err (CryptoError ''unexpected non-PostQuantum variant from sign_pq()''))
   | _ \<Rightarrow> Err (CryptoError ''unexpected non-Ed25519 variant from sign()''))"

definition verify_ed25519_bytes :: "crypto_prims \<Rightarrow> bytes \<Rightarrow> arr64 \<Rightarrow> public_key \<Rightarrow> bool" where
  "verify_ed25519_bytes P message sig_bytes public =
     (if \<not> ed_key_ok P (pk_arr public) then False else ed_verify P (pk_arr public) message sig_bytes)"

definition verify_hybrid ::
  "crypto_prims \<Rightarrow> bytes \<Rightarrow> signature \<Rightarrow> public_key \<Rightarrow> pq_public_key \<Rightarrow> bool" where
  "verify_hybrid P message signature classical_public pq_public = (case signature of
     Hybrid c q \<Rightarrow>
       (let classical_ok = verify_ed25519_bytes P message c classical_public;
            pq_ok = verify_pq P message (PostQuantum q) pq_public
        in classical_ok \<and> pq_ok)
   | _ \<Rightarrow> False)"

section \<open>Key pairs\<close>

record key_pair =
  kp_public :: public_key
  kp_secret :: secret_key

definition from_secret_bytes :: "crypto_prims \<Rightarrow> arr32 \<Rightarrow> (key_pair, exo_error) result" where
  "from_secret_bytes P b =
     Ok \<lparr>kp_public = PublicKey (ed_public P b), kp_secret = SecretKey b\<rparr>"

definition kp_sign :: "crypto_prims \<Rightarrow> key_pair \<Rightarrow> bytes \<Rightarrow> signature" where
  "kp_sign P kp message = sign P message (kp_secret kp)"

definition kp_verify :: "crypto_prims \<Rightarrow> key_pair \<Rightarrow> bytes \<Rightarrow> signature \<Rightarrow> bool" where
  "kp_verify P kp message signature = verify P message signature (kp_public kp)"

text \<open>Key generation: the bytes drawn from the operating system are the argument.\<close>

definition generate_keypair :: "crypto_prims \<Rightarrow> arr32 \<Rightarrow> public_key \<times> secret_key" where
  "generate_keypair P entropy = (PublicKey (ed_public P entropy), SecretKey entropy)"

definition kp_generate :: "crypto_prims \<Rightarrow> arr32 \<Rightarrow> key_pair" where
  "kp_generate P entropy =
     (let (public, secret) = generate_keypair P entropy in \<lparr>kp_public = public, kp_secret = secret\<rparr>)"

record pq_key_pair =
  pqkp_public :: pq_public_key
  pqkp_secret :: pq_secret_key

definition generate_pq_keypair :: "crypto_prims \<Rightarrow> arr32 \<Rightarrow> pq_public_key \<times> pq_secret_key" where
  "generate_pq_keypair P seed = (PqPublicKey (ml_public P seed), PqSecretKey (bytes32 seed))"

definition pqkp_generate :: "crypto_prims \<Rightarrow> arr32 \<Rightarrow> pq_key_pair" where
  "pqkp_generate P seed =
     (let (public, secret) = generate_pq_keypair P seed in \<lparr>pqkp_public = public, pqkp_secret = secret\<rparr>)"

definition pqkp_sign :: "crypto_prims \<Rightarrow> pq_key_pair \<Rightarrow> bytes \<Rightarrow> (signature, exo_error) result" where
  "pqkp_sign P kp message = sign_pq P message (pqkp_secret kp)"

definition pqkp_verify :: "crypto_prims \<Rightarrow> pq_key_pair \<Rightarrow> bytes \<Rightarrow> signature \<Rightarrow> bool" where
  "pqkp_verify P kp message signature = verify_pq P message signature (pqkp_public kp)"

text \<open>
  No algorithm downgrade. Each of the three verifiers accepts signatures of its own variant only,
  exactly those its primitive accepts under a well-formed key; the hybrid verifier accepts exactly
  when both components are accepted on their own.
\<close>

theorem verifiers_do_not_downgrade:
  "(verify P m s pk \<longleftrightarrow>
      (\<exists>b. s = Ed25519 b \<and> ed_key_ok P (pk_arr pk) \<and> ed_verify P (pk_arr pk) m b)) \<and>
   (verify_pq P m s pq \<longleftrightarrow>
      (\<exists>b. s = PostQuantum b \<and> ml_key_ok P (pq_pk_bytes pq) \<and> ml_sig_ok P b \<and>
           ml_verify P (pq_pk_bytes pq) m b)) \<and>
   (verify_hybrid P m s pk pq \<longleftrightarrow>
      (\<exists>c q. s = Hybrid c q \<and> verify P m (Ed25519 c) pk \<and> verify_pq P m (PostQuantum q) pq))"
  by (cases s)
     (auto simp: verify_def verify_pq_def verify_hybrid_def verify_ed25519_bytes_def)

lemma sign_verify: "ed_correct P \<Longrightarrow> verify P m (sign P m (SecretKey sk)) (PublicKey (ed_public P sk))"
  by (simp add: sign_def verify_def ed_correct_def)

text \<open>
  Generated pairs of both kinds work: a classical pair verifies what it signs, and a post-quantum pair
  has a seed of the right length, so it fails to sign only when the primitive does.
\<close>

lemma generated_pairs_work:
  assumes "ed_correct P" "ml_correct P"
  shows "kp_verify P (kp_generate P e) m (kp_sign P (kp_generate P e) m)"
    and "case pqkp_sign P (pqkp_generate P e) m of
           Inr s \<Rightarrow> pqkp_verify P (pqkp_generate P e) m s | Inl _ \<Rightarrow> \<exists>x. ml_sign P e m = Err x"
  using assms
  by (auto simp: kp_generate_def kp_verify_def kp_sign_def generate_keypair_def sign_verify pqkp_sign_def
      pqkp_generate_def generate_pq_keypair_def pqkp_verify_def sign_pq_def verify_pq_def ml_correct_def
      try_arr32_def split: sum.splits)

text \<open>
  What is signed verifies, for each scheme: an Ed25519 signature under the key pair made from
  the same secret bytes, and a hybrid signature, when it could be made, under both public keys. Hybrid
  signing fails exactly when the seed has the wrong length or ML-DSA signing fails.
\<close>

theorem signatures_verify:
  assumes "ed_correct P" and "ml_correct P" and "from_secret_bytes P sk = Ok kp"
  shows "kp_verify P kp m (kp_sign P kp m) \<and>
         (case sign_hybrid P m (kp_secret kp) (PqSecretKey seed) of
            Inr s \<Rightarrow> \<exists>a. try_arr32 seed = Some a \<and>
                    verify_hybrid P m s (kp_public kp) (PqPublicKey (ml_public P a))
          | Inl e \<Rightarrow> length seed \<noteq> 32 \<or> (\<exists>a e'. try_arr32 seed = Some a \<and> ml_sign P a m = Err e'))"
  using assms
  by (auto simp: from_secret_bytes_def kp_verify_def kp_sign_def sign_verify sign_hybrid_def sign_def
      sign_pq_def verify_hybrid_def verify_ed25519_bytes_def verify_pq_def ed_correct_def ml_correct_def
      try_arr32_def verify_def split: sum.splits option.splits)

text \<open>A toy scheme that satisfies the hypotheses: the signature repeats the head of the message.\<close>

definition toy_prims :: crypto_prims where
  "toy_prims =
     \<lparr>ed_public = (\<lambda>sk. sk), ed_sign = (\<lambda>sk m. arr64_of (bytes32 sk @ m)), ed_key_ok = (\<lambda>_. True),
      ed_verify = (\<lambda>pk m s. s = arr64_of (bytes32 pk @ m)),
      ml_public = bytes32, ml_sign = (\<lambda>seed m. Ok (bytes32 seed @ m)),
      ml_key_ok = (\<lambda>b. length b = 32), ml_sig_ok = (\<lambda>_. True),
      ml_verify = (\<lambda>pk m s. s = pk @ m)\<rparr>"

lemma toy_correct: "ed_correct toy_prims" "ml_correct toy_prims"
  by (auto simp: ed_correct_def ml_correct_def toy_prims_def)

theorem signatures_verify_witness:
  "kp_verify toy_prims \<lparr>kp_public = PublicKey (arr32_of [7]), kp_secret = SecretKey (arr32_of [7])\<rparr> [1, 2]
     (kp_sign toy_prims \<lparr>kp_public = PublicKey (arr32_of [7]), kp_secret = SecretKey (arr32_of [7])\<rparr> [1, 2])"
  using signatures_verify [OF toy_correct, of "arr32_of [7]"
      "\<lparr>kp_public = PublicKey (arr32_of [7]), kp_secret = SecretKey (arr32_of [7])\<rparr>" "[1, 2]" "[]"]
  by (simp add: from_secret_bytes_def toy_prims_def)

section \<open>Events\<close>

datatype event_type =
    TransactionStateChanged
  | EvIdentityResolved
  | ConsentGranted
  | ConsentRevoked
  | InvariantChecked
  | InvariantViolated
  | GovernanceDecision
  | EscalationTriggered
  | SybilAlert
  | KeyRotated
  | EntityRegistered
  | AuditEntry
  | Custom string

record event =
  ev_id :: correlation_id
  ev_timestamp :: timestamp
  ev_type :: event_type
  ev_payload :: bytes
  ev_source_did :: did
  ev_signature :: signature

text \<open>The structure that is signed: the event without its signature.\<close>

record signable =
  sg_id :: correlation_id
  sg_timestamp :: timestamp
  sg_type :: event_type
  sg_payload :: bytes
  sg_source_did :: did

type_synonym event_cbor = "signable \<Rightarrow> (bytes, string) result"

text \<open>An encoding failure clears the buffer, so that the empty string is signed.\<close>

definition signable_bytes :: "event_cbor \<Rightarrow> event \<Rightarrow> bytes" where
  "signable_bytes cbor ev =
     (case cbor \<lparr>sg_id = ev_id ev, sg_timestamp = ev_timestamp ev, sg_type = ev_type ev,
                 sg_payload = ev_payload ev, sg_source_did = ev_source_did ev\<rparr> of
        Inl _ \<Rightarrow> [] | Inr buf \<Rightarrow> buf)"

definition verify_event :: "crypto_prims \<Rightarrow> event_cbor \<Rightarrow> event \<Rightarrow> public_key \<Rightarrow> bool" where
  "verify_event P cbor ev pk = verify P (signable_bytes cbor ev) (ev_signature ev) pk"

definition create_signed_event ::
  "crypto_prims \<Rightarrow> event_cbor \<Rightarrow> correlation_id \<Rightarrow> timestamp \<Rightarrow> event_type \<Rightarrow> bytes \<Rightarrow> did \<Rightarrow> secret_key
   \<Rightarrow> event" where
  "create_signed_event P cbor i ts ty payload source sk =
     (let ev = \<lparr>ev_id = i, ev_timestamp = ts, ev_type = ty, ev_payload = payload,
                ev_source_did = source, ev_signature = sig_from_bytes zeros64\<rparr>;
          b = signable_bytes cbor ev
      in ev\<lparr>ev_signature := sign P b sk\<rparr>)"

definition compute_event_id ::
  "blake3 \<Rightarrow> ('a \<Rightarrow> (bytes, string) result) \<Rightarrow> 'a \<Rightarrow> (hash256, exo_error) result" where
  "compute_event_id blake3 cbor envelope = hash_structured blake3 cbor envelope"

lemma signable_bytes_signature [simp]:
  "signable_bytes cbor (ev\<lparr>ev_signature := s\<rparr>) = signable_bytes cbor ev"
  by (simp add: signable_bytes_def)

text \<open>
  An event made by \<open>create_signed_event\<close> carries the given content and verifies under the public
  key of its secret.
\<close>

theorem signed_event_verifies:
  assumes "ed_correct P"
  shows "verify_event P cbor (create_signed_event P cbor i ts ty payload source (SecretKey sk))
           (PublicKey (ed_public P sk)) \<and>
         (let ev = create_signed_event P cbor i ts ty payload source (SecretKey sk)
          in ev_id ev = i \<and> ev_timestamp ev = ts \<and> ev_type ev = ty \<and> ev_payload ev = payload \<and>
             ev_source_did ev = source)"
  using sign_verify [OF assms]
  by (simp add: verify_event_def create_signed_event_def Let_def signable_bytes_def)

theorem signed_event_verifies_witness:
  "verify_event toy_prims (\<lambda>s. Ok (sg_payload s))
     (create_signed_event toy_prims (\<lambda>s. Ok (sg_payload s)) (CorrelationId 1) (Timestamp 5 0) AuditEntry
        [4, 5] (Did ''did:exo:a'') (SecretKey (arr32_of [9])))
     (PublicKey (ed_public toy_prims (arr32_of [9])))"
  using signed_event_verifies [OF toy_correct(1)] by blast

end
