(* ===== verification/Authority.thy ===== *)
theory Authority
  imports Crypto
begin

text \<open>
  Permissions and authority chains: \<open>src/crates/exo-authority/src/permission.rs\<close>, \<open>chain.rs\<close> and the
  error type of the crate. The Ed25519 primitives are those of \<open>Crypto\<close>; the resolver from DIDs to keys is
  an argument, as in the code.
\<close>

section \<open>Permissions\<close>

datatype permission = Read | Write | Execute | Delegate | Govern | Escalate | Challenge

fun permission_rank :: "permission \<Rightarrow> nat" where
  "permission_rank Read = 0"
| "permission_rank Write = 1"
| "permission_rank Execute = 2"
| "permission_rank Delegate = 3"
| "permission_rank Govern = 4"
| "permission_rank Escalate = 5"
| "permission_rank Challenge = 6"

lemma permission_rank_inject: "permission_rank p = permission_rank q \<Longrightarrow> p = q"
  by (cases p; cases q) simp_all

instantiation permission :: linorder
begin

definition less_eq_permission :: "permission \<Rightarrow> permission \<Rightarrow> bool" where
  "p \<le> q \<longleftrightarrow> permission_rank p \<le> permission_rank q"

definition less_permission :: "permission \<Rightarrow> permission \<Rightarrow> bool" where
  "p < q \<longleftrightarrow> permission_rank p < permission_rank q"

instance
  by standard (auto simp: less_eq_permission_def less_permission_def permission_rank_inject)

end

type_synonym permission_set = "permission btree_set"

definition pset_empty :: permission_set where
  "pset_empty = bs_empty"

definition from_permissions :: "permission list \<Rightarrow> permission_set" where
  "from_permissions perms = bs_from_list perms"

definition pset_contains :: "permission_set \<Rightarrow> permission \<Rightarrow> bool" where
  "pset_contains s p = bs_contains s p"

definition pset_len :: "permission_set \<Rightarrow> nat" where
  "pset_len s = bm_len s"

definition pset_is_empty :: "permission_set \<Rightarrow> bool" where
  "pset_is_empty s = bm_is_empty s"

definition pset_insert :: "permission_set \<Rightarrow> permission \<Rightarrow> permission_set" where
  "pset_insert s p = bs_insert p s"

definition pset_iter :: "permission_set \<Rightarrow> permission list" where
  "pset_iter s = bs_elems s"

definition is_subset :: "permission_set \<Rightarrow> permission_set \<Rightarrow> bool" where
  "is_subset a b = list_all (bs_contains b) (bs_elems a)"

definition pset_intersect :: "permission_set \<Rightarrow> permission_set \<Rightarrow> permission_set" where
  "pset_intersect a b = bs_from_list (filter (bs_contains b) (bs_elems a))"

lemma is_subset_iff: "is_subset a b \<longleftrightarrow> (\<forall>p. pset_contains a p \<longrightarrow> pset_contains b p)"
  by (auto simp: is_subset_def pset_contains_def list_all_iff set_bm_keys)

lemma pset_contains_simps [simp]:
  "pset_contains (from_permissions ps) p \<longleftrightarrow> p \<in> set ps"
  "pset_contains (pset_insert s q) p \<longleftrightarrow> p = q \<or> pset_contains s p"
  "pset_contains (pset_intersect a b) p \<longleftrightarrow> pset_contains a p \<and> pset_contains b p"
  by (auto simp: from_permissions_def pset_insert_def pset_intersect_def pset_contains_def set_bm_keys)

section \<open>Links and chains\<close>

datatype authority_error =
    ChainBroken nat string
  | DepthExceeded nat nat
  | ScopeWidening nat
  | ExpiredLink nat
  | AuthInvalidSignature nat
  | CircularDelegation string
  | AuthNotFound string
  | EmptyChain
  | PermissionDenied string

definition DEFAULT_MAX_DEPTH :: nat where
  "DEFAULT_MAX_DEPTH = 5"

datatype delegatee_kind = KindHuman | AiAgent (model_id: string) | KindUnknown

record authority_link =
  delegator_did :: did
  delegate_did :: did
  link_scope :: "permission list"
  created :: timestamp
  link_expires :: "timestamp option"
  link_signature :: signature
  link_depth :: nat
  delegatee_kind :: delegatee_kind

fun permission_name :: "permission \<Rightarrow> string" where
  "permission_name Read = ''Read''"
| "permission_name Write = ''Write''"
| "permission_name Execute = ''Execute''"
| "permission_name Delegate = ''Delegate''"
| "permission_name Govern = ''Govern''"
| "permission_name Escalate = ''Escalate''"
| "permission_name Challenge = ''Challenge''"

definition delegatee_name :: "delegatee_kind \<Rightarrow> string" where
  "delegatee_name k = (case k of
     KindHuman \<Rightarrow> ''Human''
   | AiAgent m \<Rightarrow> ''AiAgent { model_id: '' @ debug_string m @ '' }''
   | KindUnknown \<Rightarrow> ''Unknown'')"

text \<open>The depth is a \<open>usize\<close>: 8 bytes on the 64-bit targets modelled here (4 on wasm32).\<close>

definition signable_payload :: "authority_link \<Rightarrow> bytes" where
  "signable_payload l =
     str_bytes (did_str (delegator_did l)) @ str_bytes (did_str (delegate_did l)) @
     concat (map (\<lambda>p. str_bytes (permission_name p)) (link_scope l)) @
     to_le_bytes 8 (physical_ms (created l)) @ to_le_bytes 4 (logical (created l)) @
     to_le_bytes 8 (of_nat (link_depth l) :: u64) @
     (case link_expires l of
        Some e \<Rightarrow> to_le_bytes 8 (physical_ms e) @ to_le_bytes 4 (logical e) | None \<Rightarrow> []) @
     str_bytes (delegatee_name (delegatee_kind l))"

definition link_id :: "blake3 \<Rightarrow> authority_link \<Rightarrow> hash256" where
  "link_id blake3 l = digest blake3 (signable_payload l)"

record authority_chain =
  chain_links :: "authority_link list"
  max_depth :: nat

definition chain_depth :: "authority_chain \<Rightarrow> nat" where
  "chain_depth c = length (chain_links c)"

definition chain_is_empty :: "authority_chain \<Rightarrow> bool" where
  "chain_is_empty c = (chain_links c = [])"

definition chain_root :: "authority_chain \<Rightarrow> did option" where
  "chain_root c = (case chain_links c of [] \<Rightarrow> None | l # _ \<Rightarrow> Some (delegator_did l))"

definition chain_leaf :: "authority_chain \<Rightarrow> did option" where
  "chain_leaf c = (if chain_links c = [] then None else Some (delegate_did (last (chain_links c))))"

definition check_link_position :: "authority_link list \<Rightarrow> nat \<times> authority_link \<Rightarrow> (unit, authority_error) result" where
  "check_link_position links = (\<lambda>(i, link).
     if link_depth link \<noteq> i
     then Err (ChainBroken i (''expected depth '' @ show_nat i @ '', got '' @ show_nat (link_depth link)))
     else if i > 0 \<and> delegate_did (links ! (i - 1)) \<noteq> delegator_did link
     then Err (ChainBroken i (''gap: '' @ did_str (delegate_did (links ! (i - 1))) @ '' -> '' @
            did_str (delegator_did link) @ '' but expected '' @ did_str (delegate_did (links ! (i - 1)))))
     else Ok ())"

definition build_chain_with_depth :: "authority_link list \<Rightarrow> nat \<Rightarrow> (authority_chain, authority_error) result" where
  "build_chain_with_depth links mx =
     (if links = [] then Err EmptyChain
      else if length links > mx then Err (DepthExceeded (length links) mx)
      else and_then (for_check (check_link_position links) (enumerate0 links))
             (\<lambda>_. Ok \<lparr>chain_links = links, max_depth = mx\<rparr>))"

definition build_chain :: "authority_link list \<Rightarrow> (authority_chain, authority_error) result" where
  "build_chain links = build_chain_with_depth links DEFAULT_MAX_DEPTH"

text \<open>One round of the verification loop; it returns the scope for the next one.\<close>

definition check_link ::
  "crypto_prims \<Rightarrow> timestamp \<Rightarrow> (did \<Rightarrow> public_key option) \<Rightarrow> nat \<Rightarrow> authority_link \<Rightarrow> permission_set option \<Rightarrow>
     (permission_set, authority_error) result" where
  "check_link prims now resolve_key i link prev_scope =
     (if sig_is_empty (link_signature link) then Err (AuthInvalidSignature i)
      else and_then (ok_or (resolve_key (delegator_did link)) (AuthInvalidSignature i)) (\<lambda>pub_key.
        if \<not> verify prims (signable_payload link) (link_signature link) pub_key
        then Err (AuthInvalidSignature i)
        else if (case link_expires link of Some e \<Rightarrow> is_expired e now | None \<Rightarrow> False)
        then Err (ExpiredLink i)
        else let current_scope = from_permissions (link_scope link)
             in if (case prev_scope of Some prev \<Rightarrow> \<not> is_subset current_scope prev | None \<Rightarrow> False)
                then Err (ScopeWidening i)
                else Ok current_scope))"

fun check_links ::
  "crypto_prims \<Rightarrow> timestamp \<Rightarrow> (did \<Rightarrow> public_key option) \<Rightarrow> (nat \<times> authority_link) list \<Rightarrow>
     permission_set option \<Rightarrow> (unit, authority_error) result" where
  "check_links prims now resolve_key [] prev_scope = Ok ()"
| "check_links prims now resolve_key ((i, link) # rest) prev_scope =
     and_then (check_link prims now resolve_key i link prev_scope)
       (\<lambda>scope. check_links prims now resolve_key rest (Some scope))"

definition verify_chain ::
  "crypto_prims \<Rightarrow> authority_chain \<Rightarrow> timestamp \<Rightarrow> (did \<Rightarrow> public_key option) \<Rightarrow> (unit, authority_error) result" where
  "verify_chain prims c now resolve_key =
     (if chain_links c = [] then Err EmptyChain
      else if length (chain_links c) > max_depth c
      then Err (DepthExceeded (length (chain_links c)) (max_depth c))
      else check_links prims now resolve_key (enumerate0 (chain_links c)) None)"

definition has_permission :: "authority_chain \<Rightarrow> permission \<Rightarrow> bool" where
  "has_permission c p = list_all (\<lambda>link. p \<in> set (link_scope link)) (chain_links c)"

section \<open>What a verified chain guarantees\<close>

text \<open>The checks a single link passes, and the nesting of the scopes from a given bound on.\<close>

definition link_valid :: "crypto_prims \<Rightarrow> timestamp \<Rightarrow> (did \<Rightarrow> public_key option) \<Rightarrow> authority_link \<Rightarrow> bool" where
  "link_valid prims now resolve_key link \<longleftrightarrow>
     \<not> sig_is_empty (link_signature link) \<and>
     (\<exists>k. resolve_key (delegator_did link) = Some k \<and>
        verify prims (signable_payload link) (link_signature link) k) \<and>
     (\<forall>e. link_expires link = Some e \<longrightarrow> \<not> is_expired e now)"

definition scopes_narrow :: "authority_link list \<Rightarrow> bool" where
  "scopes_narrow links \<longleftrightarrow> sorted_wrt (\<lambda>a b. set (link_scope b) \<subseteq> set (link_scope a)) links"

lemma check_link_Ok:
  "check_link prims now resolve_key i link prev = Inr s \<longleftrightarrow>
     link_valid prims now resolve_key link \<and> s = from_permissions (link_scope link) \<and>
     (\<forall>p. prev = Some p \<longrightarrow> is_subset s p)"
  by (auto simp: check_link_def link_valid_def and_then_eq_Ok Let_def split: if_splits option.splits)

lemma check_links_Ok:
  "check_links prims now resolve_key ils prev = Inr () \<longleftrightarrow>
     (\<forall>l \<in> set (map snd ils). link_valid prims now resolve_key l) \<and> scopes_narrow (map snd ils) \<and>
     (\<forall>p. prev = Some p \<longrightarrow> (\<forall>l \<in> set (map snd ils). \<forall>x \<in> set (link_scope l). pset_contains p x))"
proof (induction ils arbitrary: prev)
  case (Cons il ils)
  obtain i l where il: "il = (i, l)" by (cases il)
  show ?case
    unfolding il check_links.simps and_then_eq_Ok check_link_Ok Cons.IH
    by (auto simp: scopes_narrow_def is_subset_iff subset_iff)
qed (simp add: scopes_narrow_def)

lemma verify_chain_Ok:
  "verify_chain prims c now resolve_key = Inr () \<longleftrightarrow>
     chain_links c \<noteq> [] \<and> length (chain_links c) \<le> max_depth c \<and>
     list_all (link_valid prims now resolve_key) (chain_links c) \<and> scopes_narrow (chain_links c)"
  by (auto simp: verify_chain_def check_links_Ok list_all_iff)

lemma scopes_narrow_last:
  "scopes_narrow links \<Longrightarrow> l \<in> set links \<Longrightarrow> set (link_scope (last links)) \<subseteq> set (link_scope l)"
  by (induction links) (auto simp: scopes_narrow_def split: if_splits)

text \<open>
  C5: no privilege escalation. A chain verifies exactly when it is not empty, not longer than its depth
  limit, every link carries a signature of its delegator over its payload that verifies and has not
  expired, and each scope is contained in every earlier one. The chain then grants exactly
  the permissions of its last link, all of which the first delegator granted.
\<close>

theorem verified_chain_narrows:
  "(verify_chain prims c now resolve_key = Ok () \<longleftrightarrow>
      chain_links c \<noteq> [] \<and> length (chain_links c) \<le> max_depth c \<and>
      list_all (link_valid prims now resolve_key) (chain_links c) \<and> scopes_narrow (chain_links c)) \<and>
   (verify_chain prims c now resolve_key = Ok () \<longrightarrow>
      (has_permission c p \<longleftrightarrow> p \<in> set (link_scope (last (chain_links c)))))"
  using scopes_narrow_last [of "chain_links c"]
  by (auto simp: verify_chain_Ok has_permission_def list_all_iff last_in_set)

text \<open>A chain of two links signed with the toy scheme; every name resolves to the same key.\<close>

definition sample_link :: "string \<Rightarrow> string \<Rightarrow> permission list \<Rightarrow> nat \<Rightarrow> authority_link" where
  "sample_link a b ps d =
     (let l = \<lparr>delegator_did = Did a, delegate_did = Did b, link_scope = ps, created = Timestamp 1 0,
               link_expires = Some (Timestamp 9 0), link_signature = SigEmpty, link_depth = d,
               delegatee_kind = KindHuman\<rparr>
      in l\<lparr>link_signature := sign toy_prims (signable_payload l) (SecretKey (arr32_of [7]))\<rparr>)"

definition sample_chain :: authority_chain where
  "sample_chain = \<lparr>chain_links = [sample_link ''did:exo:a'' ''did:exo:b'' [Read, Write] 0,
                                  sample_link ''did:exo:b'' ''did:exo:c'' [Read] 1], max_depth = 5\<rparr>"

definition sample_keys :: "did \<Rightarrow> public_key option" where
  "sample_keys d = Some (PublicKey (arr32_of [7]))"

lemma signable_payload_signature [simp]:
  "signable_payload (l\<lparr>link_signature := s\<rparr>) = signable_payload l"
  by (simp add: signable_payload_def)

lemma arr64_toy_neq_zeros: "arr64_of (bytes32 (arr32_of [7]) @ m) \<noteq> zeros64"
proof
  assume "arr64_of (bytes32 (arr32_of [7]) @ m) = zeros64"
  then have "bytes64 (arr64_of (bytes32 (arr32_of [7]) @ m)) ! 0 = bytes64 zeros64 ! 0" by simp
  then show False by (simp add: zeros64_def bytes64_of bytes32_of nth_append)
qed

lemma sample_link_valid: "link_valid toy_prims (Timestamp 5 0) sample_keys (sample_link a b ps d)"
  by (auto simp: link_valid_def sample_link_def Let_def sample_keys_def sign_def verify_def toy_prims_def
      sig_is_empty_def arr64_toy_neq_zeros is_expired_def less_eq_timestamp_def signable_payload_def)

theorem verified_chain_narrows_witness:
  "verify_chain toy_prims sample_chain (Timestamp 5 0) sample_keys = Ok () \<and>
   has_permission sample_chain Read \<and> \<not> has_permission sample_chain Write"
proof -
  have ok: "verify_chain toy_prims sample_chain (Timestamp 5 0) sample_keys = Ok ()"
    using verified_chain_narrows [of toy_prims sample_chain "Timestamp 5 0" sample_keys Read]
    by (simp add: sample_chain_def sample_link_valid scopes_narrow_def)
      (simp add: sample_link_def Let_def)
  have "link_scope (last (chain_links sample_chain)) = [Read]"
    by (simp add: sample_chain_def sample_link_def Let_def)
  then show ?thesis
    using ok verified_chain_narrows [of toy_prims sample_chain "Timestamp 5 0" sample_keys] by simp
qed

section \<open>What verification leaves open\<close>

text \<open>
  \<open>verify_chain\<close> does not check that a link starts where the previous one ends: only
  \<open>build_chain\<close> does, and the fields of a chain are public.
\<close>

lemma verify_chain_ignores_gaps:
  "verify_chain toy_prims
     \<lparr>chain_links = [sample_link ''did:exo:a'' ''did:exo:b'' [Read] 0,
                     sample_link ''did:exo:x'' ''did:exo:y'' [Read] 1], max_depth = 5\<rparr>
     (Timestamp 5 0) sample_keys = Ok ()"
  by (simp add: verify_chain_Ok sample_link_valid scopes_narrow_def)
     (simp add: sample_link_def Let_def)

text \<open>
  The signed payload concatenates the fields without separators, so a permission name can be read as
  the end of the delegate's identifier: a grant of \<open>Read\<close> to \<open>did:exo:bob\<close> signs the same bytes as a grant
  of nothing to \<open>did:exo:bobRead\<close>.
\<close>

lemma signable_payload_ambiguous:
  "signable_payload (sample_link a ''did:exo:bob'' [Read] d) =
     signable_payload (sample_link a ''did:exo:bobRead'' [] d)"
  by (simp add: signable_payload_def sample_link_def Let_def str_bytes_def)

section \<open>Building a chain\<close>

text \<open>The links of a chain that was built: consecutive, with their positions as depths.\<close>

definition links_connected :: "authority_link list \<Rightarrow> bool" where
  "links_connected links \<longleftrightarrow>
     (\<forall>i. Suc i < length links \<longrightarrow> delegate_did (links ! i) = delegator_did (links ! Suc i))"

definition depths_in_order :: "authority_link list \<Rightarrow> bool" where
  "depths_in_order links \<longleftrightarrow> map link_depth links = [0..<length links]"

lemma all_pos_Suc: "(\<forall>i < n. 0 < i \<longrightarrow> P (i - 1) i) \<longleftrightarrow> (\<forall>i. Suc i < n \<longrightarrow> P i (Suc i))"
  by (auto simp: gr0_conv_Suc)

lemma all_nat_split: "(\<forall>i. P i) \<longleftrightarrow> P 0 \<and> (\<forall>i. P (Suc i))"
  by (metis not0_implies_Suc)

lemma check_link_position_Ok:
  "check_link_position links (i, link) = Inr () \<longleftrightarrow>
     link_depth link = i \<and> (0 < i \<longrightarrow> delegate_did (links ! (i - 1)) = delegator_did link)"
  by (auto simp: check_link_position_def)

lemma depths_in_order_iff: "depths_in_order links \<longleftrightarrow> (\<forall>i < length links. link_depth (links ! i) = i)"
  unfolding depths_in_order_def
  using list_eq_iff_nth_eq [of "map link_depth links" "[0..<length links]"] by simp

lemma links_connected_iff:
  "links_connected links \<longleftrightarrow>
     (\<forall>i < length links. 0 < i \<longrightarrow> delegate_did (links ! (i - 1)) = delegator_did (links ! i))"
  unfolding links_connected_def
  using all_pos_Suc [of "length links" "\<lambda>i j. delegate_did (links ! i) = delegator_did (links ! j)"]
  by simp

lemma links_connected_Cons [simp]:
  "links_connected []"
  "links_connected [a]"
  "links_connected (a # b # ls) \<longleftrightarrow> delegate_did a = delegator_did b \<and> links_connected (b # ls)"
proof -
  show "links_connected (a # b # ls) \<longleftrightarrow> delegate_did a = delegator_did b \<and> links_connected (b # ls)"
    unfolding links_connected_def by (subst all_nat_split) simp
qed (simp_all add: links_connected_def)

lemma for_check_link_position:
  "for_check (check_link_position links) (enumerate0 links) = Inr () \<longleftrightarrow>
     depths_in_order links \<and> links_connected links"
  unfolding for_check_Ok Ball_enumerate0 check_link_position_Ok depths_in_order_iff links_connected_iff
  by blast

lemma build_chain_with_depth_Ok:
  "build_chain_with_depth links mx = Inr c \<longleftrightarrow>
     links \<noteq> [] \<and> length links \<le> mx \<and> depths_in_order links \<and> links_connected links \<and>
     c = \<lparr>chain_links = links, max_depth = mx\<rparr>"
proof (cases "for_check (check_link_position links) (enumerate0 links)")
  case (Inl e)
  then have "\<not> (depths_in_order links \<and> links_connected links)"
    using for_check_link_position [of links] by simp
  with Inl show ?thesis by (auto simp: build_chain_with_depth_def)
next
  case (Inr u)
  then have "depths_in_order links \<and> links_connected links"
    using for_check_link_position [of links] by simp
  with Inr show ?thesis by (auto simp: build_chain_with_depth_def)
qed

end
