(* ===== verification/Delegation.thy ===== *)
theory Delegation
  imports Authority
begin

text \<open>
  The delegation registry of \<open>src/crates/exo-authority/src/delegation.rs\<close>: links stored under their
  identifiers with an index by delegator and one by delegate, the cycle check before a delegation is
  added, revocation, and the search for a chain. The search recursions are written as in the code, the
  loop over the identifiers of a delegator as a function of its own. \<open>has_path_inner\<close> takes fuel, the
  number of delegators plus one, which \<open>has_path_correct\<close> shows to be enough.
\<close>

section \<open>The registry\<close>

record delegation_registry =
  reg_links :: "(hash256, authority_link) btree_map"
  by_delegator :: "(string, hash256 list) btree_map"
  by_delegate :: "(string, hash256 list) btree_map"

definition registry_new :: delegation_registry where
  "registry_new = \<lparr>reg_links = bm_empty, by_delegator = bm_empty, by_delegate = bm_empty\<rparr>"

definition registry_len :: "delegation_registry \<Rightarrow> nat" where
  "registry_len r = bm_len (reg_links r)"

definition registry_is_empty :: "delegation_registry \<Rightarrow> bool" where
  "registry_is_empty r = bm_is_empty (reg_links r)"

text \<open>
  The depth-first search for a path: a result of true and the visited set at the return; \<open>None\<close> when the
  fuel is spent.
\<close>

function has_path_inner ::
    "nat \<Rightarrow> delegation_registry \<Rightarrow> did \<Rightarrow> did \<Rightarrow> string btree_set \<Rightarrow> (bool \<times> string btree_set) option"
  and has_path_ids ::
    "nat \<Rightarrow> delegation_registry \<Rightarrow> hash256 list \<Rightarrow> did \<Rightarrow> string btree_set \<Rightarrow> (bool \<times> string btree_set) option"
where
  "has_path_inner 0 r current target visited = None"
| "has_path_inner (Suc n) r current target visited =
     (if current = target then Some (True, visited)
      else if bs_contains visited (did_str current) then Some (False, visited)
      else let visited = bs_insert (did_str current) visited
           in case bm_get (by_delegator r) (did_str current) of
                None \<Rightarrow> Some (False, visited)
              | Some ids \<Rightarrow> has_path_ids n r ids target visited)"
| "has_path_ids n r [] target visited = Some (False, visited)"
| "has_path_ids n r (lid # ids) target visited =
     (case bm_get (reg_links r) lid of
        None \<Rightarrow> has_path_ids n r ids target visited
      | Some link \<Rightarrow>
          (case has_path_inner n r (delegate_did link) target visited of
             None \<Rightarrow> None
           | Some (True, visited') \<Rightarrow> Some (True, visited')
           | Some (False, visited') \<Rightarrow> has_path_ids n r ids target visited'))"
  by pat_completeness auto

termination
  by (relation "measures [\<lambda>x. case x of Inl (n, _) \<Rightarrow> n | Inr (n, _) \<Rightarrow> n,
                          \<lambda>x. case x of Inl _ \<Rightarrow> 0 | Inr (_, _, ids, _) \<Rightarrow> Suc (length ids)]") auto

definition has_path :: "delegation_registry \<Rightarrow> did \<Rightarrow> did \<Rightarrow> bool" where
  "has_path r a b =
     (case has_path_inner (Suc (bm_len (by_delegator r))) r a b bs_empty of
        Some (found, _) \<Rightarrow> found | None \<Rightarrow> False)"

definition compute_depth :: "delegation_registry \<Rightarrow> did \<Rightarrow> nat" where
  "compute_depth r d =
     (case bm_get (by_delegate r) (did_str d) of
        Some (lid # _) \<Rightarrow> (case bm_get (reg_links r) lid of Some link \<Rightarrow> link_depth link + 1 | None \<Rightarrow> 0)
      | _ \<Rightarrow> 0)"

text \<open>The link that \<open>delegate\<close> stores, with its placeholder signature.\<close>

definition delegate_link ::
  "delegation_registry \<Rightarrow> did \<Rightarrow> did \<Rightarrow> permission list \<Rightarrow> timestamp \<Rightarrow> timestamp \<Rightarrow> delegatee_kind \<Rightarrow> authority_link" where
  "delegate_link r a b scope expires now kind =
     \<lparr>delegator_did = a, delegate_did = b, link_scope = scope, created = now, link_expires = Some expires,
      link_signature = sig_from_bytes (arr64_of (replicate 64 1)), link_depth = compute_depth r a,
      delegatee_kind = kind\<rparr>"

definition add_link :: "blake3 \<Rightarrow> delegation_registry \<Rightarrow> authority_link \<Rightarrow> delegation_registry" where
  "add_link blake3 r link =
     (let lid = link_id blake3 link in
      \<lparr>reg_links = bm_insert lid link (reg_links r),
       by_delegator = bm_upd_default [] (\<lambda>ids. ids @ [lid]) (did_str (delegator_did link)) (by_delegator r),
       by_delegate = bm_upd_default [] (\<lambda>ids. ids @ [lid]) (did_str (delegate_did link)) (by_delegate r)\<rparr>)"

definition delegate ::
  "blake3 \<Rightarrow> delegation_registry \<Rightarrow> did \<Rightarrow> did \<Rightarrow> permission list \<Rightarrow> timestamp \<Rightarrow> timestamp \<Rightarrow> delegatee_kind \<Rightarrow>
     (delegation_registry \<times> authority_link, authority_error) result" where
  "delegate blake3 r a b scope expires now kind =
     (if has_path r b a
      then Err (CircularDelegation (did_str a @ '' -> '' @ did_str b @ '' would create a cycle''))
      else let link = delegate_link r a b scope expires now kind
           in Ok (add_link blake3 r link, link))"

text \<open>\<open>get_mut\<close> followed by \<open>retain\<close> on the list of identifiers: an absent key stays absent.\<close>

definition drop_id ::
  "hash256 \<Rightarrow> string \<Rightarrow> (string, hash256 list) btree_map \<Rightarrow> (string, hash256 list) btree_map" where
  "drop_id lid k m = (case bm_get m k of
     Some ids \<Rightarrow> bm_insert k (filter (\<lambda>i. i \<noteq> lid) ids) m | None \<Rightarrow> m)"

definition revoke_delegation ::
  "delegation_registry \<Rightarrow> hash256 \<Rightarrow> (delegation_registry, authority_error) result" where
  "revoke_delegation r lid =
     (case bm_get (reg_links r) lid of
        None \<Rightarrow> Err (AuthNotFound (hash_debug lid))
      | Some link \<Rightarrow>
          Ok \<lparr>reg_links = bm_remove lid (reg_links r),
              by_delegator = drop_id lid (did_str (delegator_did link)) (by_delegator r),
              by_delegate = drop_id lid (did_str (delegate_did link)) (by_delegate r)\<rparr>)"

text \<open>
  The search for a chain, limited in depth. The path is the accumulator; a false result leaves it as it
  was, so the result is the path when the search succeeds. The test in the loop on identifiers is the one
  the recursive call makes first: it is repeated there so that the recursion is seen to end.
\<close>

function find_path_dfs ::
    "delegation_registry \<Rightarrow> did \<Rightarrow> did \<Rightarrow> authority_link list \<Rightarrow> nat \<Rightarrow> nat \<Rightarrow> authority_link list option"
  and find_path_ids ::
    "delegation_registry \<Rightarrow> hash256 list \<Rightarrow> did \<Rightarrow> authority_link list \<Rightarrow> nat \<Rightarrow> nat \<Rightarrow> authority_link list option"
where
  "find_path_dfs r current target path depth mx =
     (if mx \<le> depth then None
      else case bm_get (by_delegator r) (did_str current) of
             None \<Rightarrow> None
           | Some ids \<Rightarrow> find_path_ids r ids target path depth mx)"
| "find_path_ids r [] target path depth mx = None"
| "find_path_ids r (lid # ids) target path depth mx =
     (case bm_get (reg_links r) lid of
        None \<Rightarrow> find_path_ids r ids target path depth mx
      | Some link \<Rightarrow>
          if delegate_did link = target then Some (path @ [link])
          else if mx \<le> depth then find_path_ids r ids target path depth mx
          else (case find_path_dfs r (delegate_did link) target (path @ [link]) (depth + 1) mx of
                  Some found \<Rightarrow> Some found
                | None \<Rightarrow> find_path_ids r ids target path depth mx))"
  by pat_completeness auto

termination
  by (relation "measures [\<lambda>x. case x of Inl (_, _, _, _, d, m) \<Rightarrow> 2 * (m - d) + 1 | Inr (_, _, _, _, d, m) \<Rightarrow> 2 * (m - d),
                          \<lambda>x. case x of Inl _ \<Rightarrow> 0 | Inr (_, ids, _) \<Rightarrow> Suc (length ids)]") auto

text \<open>\<open>iter_mut().enumerate()\<close> over the path: each link gets its position as its depth.\<close>

definition renumber :: "authority_link list \<Rightarrow> authority_link list" where
  "renumber path = map (\<lambda>(i, link). link\<lparr>link_depth := i\<rparr>) (enumerate0 path)"

definition find_chain :: "delegation_registry \<Rightarrow> did \<Rightarrow> did \<Rightarrow> authority_chain option" where
  "find_chain r a b =
     (case find_path_dfs r a b [] 0 DEFAULT_MAX_DEPTH of
        Some path \<Rightarrow> (case build_chain (renumber path) of Inr c \<Rightarrow> Some c | Inl _ \<Rightarrow> None)
      | None \<Rightarrow> None)"

section \<open>The delegation graph\<close>

text \<open>The links indexed under a delegator, and the edges they make.\<close>

definition links_of :: "delegation_registry \<Rightarrow> did \<Rightarrow> authority_link set" where
  "links_of r a = {l. \<exists>ids. bm_get (by_delegator r) (did_str a) = Some ids \<and>
                        (\<exists>lid \<in> set ids. bm_get (reg_links r) lid = Some l)}"

definition delegation_edges :: "delegation_registry \<Rightarrow> (did \<times> did) set" where
  "delegation_edges r = {(a, b). \<exists>l \<in> links_of r a. delegate_did l = b}"

definition dids_of :: "string btree_set \<Rightarrow> did set" where
  "dids_of V = {d. bs_contains V (did_str d)}"

lemma dids_of_simps [simp]:
  "dids_of bs_empty = {}"
  "dids_of (bs_insert (did_str d) V) = insert d (dids_of V)"
  by (auto simp: dids_of_def did.expand)

lemma in_dids_of: "bs_contains V (did_str d) \<longleftrightarrow> d \<in> dids_of V"
  by (simp add: dids_of_def)

text \<open>The delegates of the links that a list of identifiers stands for.\<close>

definition delegates :: "delegation_registry \<Rightarrow> hash256 list \<Rightarrow> did set" where
  "delegates r ids = {delegate_did l |l. \<exists>lid \<in> set ids. bm_get (reg_links r) lid = Some l}"

lemma delegates_simps [simp]:
  "delegates r [] = {}"
  "delegates r (lid # ids) =
     (case bm_get (reg_links r) lid of None \<Rightarrow> {} | Some l \<Rightarrow> {delegate_did l}) \<union> delegates r ids"
  by (auto simp: delegates_def split: option.splits)

lemma edges_delegates:
  "delegation_edges r `` {a} =
     (case bm_get (by_delegator r) (did_str a) of None \<Rightarrow> {} | Some ids \<Rightarrow> delegates r ids)"
  by (auto simp: delegation_edges_def links_of_def delegates_def split: option.splits)

section \<open>The cycle check\<close>

text \<open>A failed search has visited a set that is closed under the edges, the target left out.\<close>

lemma has_path_closed:
  "has_path_inner n r current target V = Some (False, V') \<Longrightarrow> target \<notin> dids_of V \<Longrightarrow>
     current \<in> dids_of V' \<and> dids_of V \<subseteq> dids_of V' \<and> target \<notin> dids_of V' \<and>
     delegation_edges r `` (dids_of V' - dids_of V) \<subseteq> dids_of V'"
  "has_path_ids n r ids target V = Some (False, V') \<Longrightarrow> target \<notin> dids_of V \<Longrightarrow>
     delegates r ids \<subseteq> dids_of V' \<and> dids_of V \<subseteq> dids_of V' \<and> target \<notin> dids_of V' \<and>
     delegation_edges r `` (dids_of V' - dids_of V) \<subseteq> dids_of V'"
proof (induction n r current target V and n r ids target V arbitrary: V' and V'
    rule: has_path_inner_has_path_ids.induct)
  case (2 n r current target V)
  let ?V = "bs_insert (did_str current) V"
  show ?case
  proof (cases "current \<in> dids_of V")
    case True
    then show ?thesis using 2 by (auto simp: in_dids_of split: if_splits)
  next
    case False
    have neq: "current \<noteq> target" using 2 by auto
    show ?thesis
    proof (cases "bm_get (by_delegator r) (did_str current)")
      case None
      then have "delegation_edges r `` {current} = {}" by (simp add: edges_delegates)
      then show ?thesis using 2 False neq None by (auto simp: in_dids_of)
    next
      case (Some ids)
      then have e: "delegation_edges r `` {current} = delegates r ids" by (simp add: edges_delegates)
      have "has_path_ids n r ids target ?V = Some (False, V')" and "target \<notin> dids_of ?V"
        using 2 False neq Some by (auto simp: in_dids_of)
      then have *: "delegates r ids \<subseteq> dids_of V'" "dids_of ?V \<subseteq> dids_of V'" "target \<notin> dids_of V'"
          "delegation_edges r `` (dids_of V' - dids_of ?V) \<subseteq> dids_of V'"
        using 2 False neq Some by (auto simp: in_dids_of)
      have "dids_of V' - dids_of V \<subseteq> insert current (dids_of V' - dids_of ?V)" by auto
      then have "delegation_edges r `` (dids_of V' - dids_of V) \<subseteq> dids_of V'"
        using *(1,4) e by blast
      then show ?thesis using * by auto
    qed
  qed
next
  case (4 n r lid ids target V)
  show ?case
  proof (cases "bm_get (reg_links r) lid")
    case None
    then show ?thesis using 4 by auto
  next
    case (Some l)
    then obtain V1 where V1: "has_path_inner n r (delegate_did l) target V = Some (False, V1)"
      and V': "has_path_ids n r ids target V1 = Some (False, V')"
      using 4 by (auto split: option.splits bool.splits)
    have 1: "delegate_did l \<in> dids_of V1 \<and> dids_of V \<subseteq> dids_of V1 \<and> target \<notin> dids_of V1 \<and>
        delegation_edges r `` (dids_of V1 - dids_of V) \<subseteq> dids_of V1"
      using 4(2) [OF Some V1] 4(5) by simp
    have 2: "delegates r ids \<subseteq> dids_of V' \<and> dids_of V1 \<subseteq> dids_of V' \<and> target \<notin> dids_of V' \<and>
        delegation_edges r `` (dids_of V' - dids_of V1) \<subseteq> dids_of V'"
      by (rule 4(3) [OF Some V1 refl _ V']) (use 1 in auto)
    from 1 2 Some show ?thesis by auto blast
  qed
qed auto

lemma has_path_reaches:
  "has_path_inner n r current target V = Some (True, V') \<Longrightarrow> (current, target) \<in> (delegation_edges r)\<^sup>*"
  "has_path_ids n r ids target V = Some (True, V') \<Longrightarrow>
     \<exists>d \<in> delegates r ids. (d, target) \<in> (delegation_edges r)\<^sup>*"
proof (induction n r current target V and n r ids target V arbitrary: V' and V'
    rule: has_path_inner_has_path_ids.induct)
  case (2 n r current target V)
  show ?case
  proof (cases "bm_get (by_delegator r) (did_str current)")
    case (Some ids)
    show ?thesis
    proof (cases "current = target")
      case False
      then obtain d where "d \<in> delegates r ids" "(d, target) \<in> (delegation_edges r)\<^sup>*"
        using 2 Some by (fastforce simp: Let_def split: if_splits)
      moreover have "delegation_edges r `` {current} = delegates r ids"
        using Some by (simp add: edges_delegates)
      ultimately show ?thesis by (auto intro: converse_rtrancl_into_rtrancl)
    qed simp
  qed (use 2 in \<open>auto split: if_splits\<close>)
qed (fastforce split: option.splits bool.splits)+

text \<open>
  The fuel: a call that goes on inserts a delegator that was not visited, so the depth is at most the
  number of delegators not visited yet.
\<close>

definition unvisited :: "delegation_registry \<Rightarrow> string btree_set \<Rightarrow> nat" where
  "unvisited r V = card {k. bm_contains (by_delegator r) k \<and> \<not> bs_contains V k}"

lemma unvisited_mono: "dids_of V \<subseteq> dids_of V' \<Longrightarrow> unvisited r V' \<le> unvisited r V"
  unfolding unvisited_def
  by (rule card_mono) (auto simp: dids_of_def intro: finite_subset [OF _ finite_bm_contains], metis did.sel subsetD mem_Collect_eq)

lemma unvisited_insert:
  "bm_get (by_delegator r) k = Some ids \<Longrightarrow> \<not> bs_contains V k \<Longrightarrow>
     unvisited r V = Suc (unvisited r (bs_insert k V))"
proof -
  assume *: "bm_get (by_delegator r) k = Some ids" "\<not> bs_contains V k"
  let ?A = "\<lambda>V. {k. bm_contains (by_delegator r) k \<and> \<not> bs_contains V k}"
  have fin: "finite (?A V)" for V
    by (rule finite_subset [OF _ finite_bm_contains [of "by_delegator r"]]) auto
  have "?A V = insert k (?A (bs_insert k V))" and "k \<notin> ?A (bs_insert k V)"
    using * by (auto simp: bm_contains_def)
  then show ?thesis using fin by (simp add: unvisited_def)
qed

lemma has_path_fuel:
  "unvisited r V < n \<Longrightarrow>
     \<exists>b V'. has_path_inner n r current target V = Some (b, V') \<and> dids_of V \<subseteq> dids_of V'"
  "unvisited r V < n \<Longrightarrow>
     \<exists>b V'. has_path_ids n r ids target V = Some (b, V') \<and> dids_of V \<subseteq> dids_of V'"
proof (induction n r current target V and n r ids target V rule: has_path_inner_has_path_ids.induct)
  case (2 n r current target V)
  show ?case
  proof (cases "bm_get (by_delegator r) (did_str current)")
    case (Some ids)
    show ?thesis
    proof (cases "current = target \<or> bs_contains V (did_str current)")
      case False
      then have "unvisited r (bs_insert (did_str current) V) < n"
        using 2(2) unvisited_insert [OF Some] by simp
      then show ?thesis using 2(1) [OF _ _ refl Some] False Some by fastforce
    qed auto
  qed (auto simp: in_dids_of)
next
  case (4 n r lid ids target V)
  show ?case
  proof (cases "bm_get (reg_links r) lid")
    case None
    then show ?thesis using 4(1,4) by simp
  next
    case (Some l)
    obtain b V1 where V1: "has_path_inner n r (delegate_did l) target V = Some (b, V1)"
      and sub: "dids_of V \<subseteq> dids_of V1" using 4(2) [OF Some 4(4)] by blast
    show ?thesis
    proof (cases b)
      case False
      have "\<exists>b V'. has_path_ids n r ids target V1 = Some (b, V') \<and> dids_of V1 \<subseteq> dids_of V'"
        by (rule 4(3) [OF Some V1 refl]) (use False unvisited_mono [OF sub, of r] 4(4) in auto)
      then show ?thesis using Some V1 False sub by auto
    qed (use Some V1 sub in auto)
  qed
qed auto

text \<open>The check decides reachability.\<close>

theorem has_path_correct: "has_path r a b \<longleftrightarrow> (a, b) \<in> (delegation_edges r)\<^sup>*"
proof -
  have "unvisited r bs_empty < Suc (bm_len (by_delegator r))"
    by (simp add: unvisited_def bm_len_card)
  then obtain found V' where run:
    "has_path_inner (Suc (bm_len (by_delegator r))) r a b bs_empty = Some (found, V')"
    using has_path_fuel(1) by blast
  show ?thesis
  proof (cases found)
    case True
    have "(a, b) \<in> (delegation_edges r)\<^sup>*"
      using run True by (metis has_path_reaches(1))
    with run True show ?thesis by (simp add: has_path_def del: has_path_inner.simps)
  next
    case False
    then have "a \<in> dids_of V'" "b \<notin> dids_of V'" "delegation_edges r `` dids_of V' \<subseteq> dids_of V'"
      using has_path_closed(1) [of _ r a b bs_empty V'] run by (auto simp del: has_path_inner.simps)
    then have "(a, b) \<notin> (delegation_edges r)\<^sup>*"
      by (metis Image_closed_trancl rev_ImageI)
    then show ?thesis using run False by (simp add: has_path_def del: has_path_inner.simps)
  qed
qed

section \<open>The invariant of the registry\<close>

definition ids_at :: "(string, hash256 list) btree_map \<Rightarrow> string \<Rightarrow> hash256 set" where
  "ids_at m k = (case bm_get m k of None \<Rightarrow> {} | Some ids \<Rightarrow> set ids)"

lemma ids_at_simps [simp]:
  "ids_at bm_empty k = {}"
  "ids_at (bm_upd_default [] (\<lambda>ids. ids @ [lid]) k m) k' = (if k' = k then insert lid (ids_at m k) else ids_at m k')"
  "ids_at (drop_id lid k m) k' = (if k' = k then ids_at m k - {lid} else ids_at m k')"
  by (auto simp: ids_at_def drop_id_def split: option.splits)

text \<open>The two indexes list exactly the stored links, under the right names, and the edges have no cycle.\<close>

definition index_ok :: "(authority_link \<Rightarrow> did) \<Rightarrow> (hash256, authority_link) btree_map \<Rightarrow> (string, hash256 list) btree_map \<Rightarrow> bool" where
  "index_ok f links m \<longleftrightarrow>
     (\<forall>k lid. lid \<in> ids_at m k \<longleftrightarrow> (\<exists>l. bm_get links lid = Some l \<and> did_str (f l) = k))"

definition registry_ok :: "delegation_registry \<Rightarrow> bool" where
  "registry_ok r \<longleftrightarrow> index_ok delegator_did (reg_links r) (by_delegator r) \<and>
     index_ok delegate_did (reg_links r) (by_delegate r) \<and> acyclic (delegation_edges r)"

lemma index_ok_add:
  assumes "index_ok f links m" and "\<And>l'. bm_get links lid = Some l' \<Longrightarrow> f l' = f l"
  shows "index_ok f (bm_insert lid l links) (bm_upd_default [] (\<lambda>ids. ids @ [lid]) (did_str (f l)) m)"
  using assms unfolding index_ok_def by auto

lemma index_ok_drop:
  assumes "index_ok f links m" and "bm_get links lid = Some l"
  shows "index_ok f (bm_remove lid links) (drop_id lid (did_str (f l)) m)"
  using assms unfolding index_ok_def by auto

lemma delegation_edges_stored:
  assumes "index_ok delegator_did (reg_links r) (by_delegator r)"
  shows "delegation_edges r = {(delegator_did l, delegate_did l) |l. \<exists>lid. bm_get (reg_links r) lid = Some l}"
proof -
  have "links_of r a = {l. \<exists>lid \<in> ids_at (by_delegator r) (did_str a). bm_get (reg_links r) lid = Some l}" for a
    by (auto simp: links_of_def ids_at_def split: option.splits)
  also have "\<dots> a = {l. delegator_did l = a \<and> (\<exists>lid. bm_get (reg_links r) lid = Some l)}" for a
    using assms by (auto simp: index_ok_def did.expand)
  finally show ?thesis by (auto simp: delegation_edges_def)
qed

lemma acyclic_insert_edge: "acyclic E \<Longrightarrow> (b, a) \<notin> E\<^sup>* \<Longrightarrow> acyclic (insert (a, b) E)"
  by (simp add: acyclic_insert)

lemma registry_ok_new: "registry_ok registry_new"
  by (simp add: registry_ok_def registry_new_def index_ok_def delegation_edges_def links_of_def acyclic_def)

lemma registry_ok_delegate:
  assumes ok: "registry_ok r" and d: "delegate blake3 r a b scope expires now kind = Ok (r', l)"
    and same: "\<And>l'. bm_get (reg_links r) (link_id blake3 l) = Some l' \<Longrightarrow> delegator_did l' = a \<and> delegate_did l' = b"
  shows "registry_ok r'"
proof -
  have l: "delegator_did l = a" "delegate_did l = b" and r': "r' = add_link blake3 r l"
    and no: "(b, a) \<notin> (delegation_edges r)\<^sup>*"
    using d by (auto simp: delegate_def delegate_link_def has_path_correct Let_def split: if_splits)
  have i1: "index_ok delegator_did (reg_links r') (by_delegator r')"
    and i2: "index_ok delegate_did (reg_links r') (by_delegate r')"
    using ok same l unfolding r' add_link_def Let_def registry_ok_def
    by (auto intro!: index_ok_add simp del: bm_get_insert)
  have "delegation_edges r' \<subseteq> insert (a, b) (delegation_edges r)"
    unfolding delegation_edges_stored [OF i1]
    using delegation_edges_stored [of r] ok l by (auto simp: r' add_link_def Let_def registry_ok_def split: if_splits)
  then have "acyclic (delegation_edges r')"
    using acyclic_insert_edge [OF _ no] ok acyclic_subset by (auto simp: registry_ok_def)
  with i1 i2 show ?thesis by (simp add: registry_ok_def)
qed

lemma registry_ok_revoke:
  assumes ok: "registry_ok r" and d: "revoke_delegation r lid = Ok r'"
  shows "registry_ok r'"
proof -
  obtain l where l: "bm_get (reg_links r) lid = Some l"
    and r': "r' = \<lparr>reg_links = bm_remove lid (reg_links r),
      by_delegator = drop_id lid (did_str (delegator_did l)) (by_delegator r),
      by_delegate = drop_id lid (did_str (delegate_did l)) (by_delegate r)\<rparr>"
    using d by (auto simp: revoke_delegation_def split: option.splits)
  have i1: "index_ok delegator_did (reg_links r') (by_delegator r')"
    and i2: "index_ok delegate_did (reg_links r') (by_delegate r')"
    using ok l index_ok_drop by (auto simp: r' registry_ok_def)
  have "delegation_edges r' \<subseteq> delegation_edges r"
    unfolding delegation_edges_stored [OF i1]
    using delegation_edges_stored [of r] ok by (auto simp: r' registry_ok_def split: if_splits)
  then show ?thesis using i1 i2 ok acyclic_subset by (auto simp: registry_ok_def)
qed

text \<open>
  The registries that the operations build, with the links that were delegated on the way, oldest first.
  Nothing is assumed of their identifiers.
\<close>

inductive registry_built :: "blake3 \<Rightarrow> authority_link list \<Rightarrow> delegation_registry \<Rightarrow> bool" for blake3 where
  new: "registry_built blake3 [] registry_new"
| delegate: "registry_built blake3 hist r \<Longrightarrow> delegate blake3 r a b scope expires now kind = Ok (r', l) \<Longrightarrow>
    registry_built blake3 (hist @ [l]) r'"
| revoke: "registry_built blake3 hist r \<Longrightarrow> revoke_delegation r lid = Ok r' \<Longrightarrow> registry_built blake3 hist r'"

text \<open>The edges of the stored links, and an index that lists at least these.\<close>

definition stored_edges :: "delegation_registry \<Rightarrow> (did \<times> did) set" where
  "stored_edges r = {(delegator_did l, delegate_did l) |l. \<exists>lid. bm_get (reg_links r) lid = Some l}"

definition index_covers :: "(authority_link \<Rightarrow> did) \<Rightarrow> (hash256, authority_link) btree_map \<Rightarrow> (string, hash256 list) btree_map \<Rightarrow> bool" where
  "index_covers f links m \<longleftrightarrow> (\<forall>lid l. bm_get links lid = Some l \<longrightarrow> lid \<in> ids_at m (did_str (f l)))"

lemma index_ok_covers: "index_ok f links m \<Longrightarrow> index_covers f links m"
  unfolding index_ok_def index_covers_def by blast

lemma index_covers_add:
  "index_covers f links m \<Longrightarrow>
     index_covers f (bm_insert lid l links) (bm_upd_default [] (\<lambda>ids. ids @ [lid]) (did_str (f l)) m)"
  unfolding index_covers_def by (auto, metis)

lemma index_covers_drop:
  "index_covers f links m \<Longrightarrow> bm_get links lid = Some l \<Longrightarrow>
     index_covers f (bm_remove lid links) (drop_id lid (did_str (f l)) m)"
  unfolding index_covers_def by (auto, metis)

text \<open>The search sees every stored link, and possibly more.\<close>

lemma stored_edges_searched:
  assumes "index_covers delegator_did (reg_links r) (by_delegator r)"
  shows "stored_edges r \<subseteq> delegation_edges r"
  using assms
  by (fastforce simp: stored_edges_def delegation_edges_def links_of_def index_covers_def ids_at_def split: option.splits)

definition registry_sound :: "blake3 \<Rightarrow> authority_link list \<Rightarrow> delegation_registry \<Rightarrow> bool" where
  "registry_sound blake3 hist r \<longleftrightarrow>
     acyclic (stored_edges r) \<and> index_covers delegator_did (reg_links r) (by_delegator r) \<and>
     index_covers delegate_did (reg_links r) (by_delegate r) \<and>
     (\<forall>lid l. bm_get (reg_links r) lid = Some l \<longrightarrow> l \<in> set hist \<and> lid = link_id blake3 l)"

lemma registry_sound_delegate:
  assumes "registry_sound blake3 hist r" and d: "delegate blake3 r a b scope expires now kind = Ok (r', l)"
  shows "registry_sound blake3 (hist @ [l]) r'"
proof -
  have l: "delegator_did l = a" "delegate_did l = b" and r': "r' = add_link blake3 r l"
    and no: "(b, a) \<notin> (delegation_edges r)\<^sup>*"
    using d by (auto simp: delegate_def delegate_link_def has_path_correct Let_def split: if_splits)
  have "(b, a) \<notin> (stored_edges r)\<^sup>*"
    using no stored_edges_searched [of r] assms(1) rtrancl_mono [of "stored_edges r" "delegation_edges r"]
    by (auto simp: registry_sound_def)
  moreover have "stored_edges r' \<subseteq> insert (a, b) (stored_edges r)"
    by (auto simp: r' l add_link_def Let_def stored_edges_def split: if_splits)
  ultimately have "acyclic (stored_edges r')"
    using assms(1) acyclic_insert_edge acyclic_subset unfolding registry_sound_def by metis
  with assms(1) show ?thesis
    by (auto simp: registry_sound_def r' add_link_def Let_def intro!: index_covers_add split: if_splits)
qed

lemma registry_sound_revoke:
  assumes "registry_sound blake3 hist r" and d: "revoke_delegation r lid = Ok r'"
  shows "registry_sound blake3 hist r'"
proof -
  obtain l where l: "bm_get (reg_links r) lid = Some l"
    and r': "r' = \<lparr>reg_links = bm_remove lid (reg_links r),
      by_delegator = drop_id lid (did_str (delegator_did l)) (by_delegator r),
      by_delegate = drop_id lid (did_str (delegate_did l)) (by_delegate r)\<rparr>"
    using d by (auto simp: revoke_delegation_def split: option.splits)
  have "stored_edges r' \<subseteq> stored_edges r" by (auto simp: r' stored_edges_def split: if_splits)
  then have "acyclic (stored_edges r')" using assms(1) acyclic_subset unfolding registry_sound_def by metis
  with assms(1) l show ?thesis
    by (auto simp: registry_sound_def r' intro: index_covers_drop split: if_splits)
qed

lemma registry_built_sound: "registry_built blake3 hist r \<Longrightarrow> registry_sound blake3 hist r"
proof (induction rule: registry_built.induct)
  case new
  then show ?case by (simp add: registry_sound_def registry_new_def stored_edges_def index_covers_def acyclic_def)
qed (auto intro: registry_sound_delegate registry_sound_revoke)

text \<open>No two delegations of the history between different parties have the same identifier.\<close>

definition distinct_ids :: "blake3 \<Rightarrow> authority_link list \<Rightarrow> bool" where
  "distinct_ids blake3 hist \<longleftrightarrow>
     (\<forall>l \<in> set hist. \<forall>l' \<in> set hist. link_id blake3 l = link_id blake3 l' \<longrightarrow>
        delegator_did l = delegator_did l' \<and> delegate_did l = delegate_did l')"

text \<open>Then the indexes are exact.\<close>

lemma registry_built_ok: "registry_built blake3 hist r \<Longrightarrow> distinct_ids blake3 hist \<Longrightarrow> registry_ok r"
proof (induction rule: registry_built.induct)
  case (delegate hist r a b scope expires now kind r' l)
  have l: "delegator_did l = a" "delegate_did l = b"
    using delegate.hyps(2) by (auto simp: delegate_def delegate_link_def Let_def split: if_splits)
  have same: "delegator_did l' = a \<and> delegate_did l' = b" if "bm_get (reg_links r) (link_id blake3 l) = Some l'" for l'
  proof -
    have h: "l' \<in> set hist" "link_id blake3 l = link_id blake3 l'"
      using registry_built_sound [OF delegate.hyps(1)] that unfolding registry_sound_def by blast+
    have "delegator_did l = delegator_did l' \<and> delegate_did l = delegate_did l'"
      by (rule delegate.prems [unfolded distinct_ids_def, rule_format]) (use h in simp_all)
    with l show ?thesis by simp
  qed
  from delegate.prems have "distinct_ids blake3 hist" unfolding distinct_ids_def set_append by blast
  from registry_ok_delegate [OF delegate.IH [OF this] delegate.hyps(2) same] show ?case .
qed (auto intro: registry_ok_new registry_ok_revoke)

lemma registry_ok_edges: "registry_ok r \<Longrightarrow> delegation_edges r = stored_edges r"
  by (simp add: registry_ok_def delegation_edges_stored stored_edges_def)

section \<open>The search for a chain\<close>

fun links_path :: "delegation_registry \<Rightarrow> did \<Rightarrow> authority_link list \<Rightarrow> did \<Rightarrow> bool" where
  "links_path r a [] b \<longleftrightarrow> a = b"
| "links_path r a (l # ls) b \<longleftrightarrow> l \<in> links_of r a \<and> links_path r (delegate_did l) ls b"

definition links_named :: "delegation_registry \<Rightarrow> hash256 list \<Rightarrow> authority_link set" where
  "links_named r ids = {l. \<exists>lid \<in> set ids. bm_get (reg_links r) lid = Some l}"

lemma links_named_simps [simp]:
  "links_named r [] = {}"
  "links_named r (lid # ids) =
     (case bm_get (reg_links r) lid of None \<Rightarrow> {} | Some l \<Rightarrow> {l}) \<union> links_named r ids"
  by (auto simp: links_named_def split: option.splits)

lemma links_of_named:
  "links_of r a = (case bm_get (by_delegator r) (did_str a) of None \<Rightarrow> {} | Some ids \<Rightarrow> links_named r ids)"
  by (auto simp: links_of_def links_named_def split: option.splits)

lemma find_path_sound:
  "find_path_dfs r current target path d mx = Some p \<Longrightarrow>
     \<exists>q. p = path @ q \<and> q \<noteq> [] \<and> length q \<le> mx - d \<and> links_path r current q target"
  "find_path_ids r ids target path d mx = Some p \<Longrightarrow> d < mx \<Longrightarrow>
     \<exists>l q. p = path @ l # q \<and> l \<in> links_named r ids \<and> length q < mx - d \<and>
       links_path r (delegate_did l) q target"
proof (induction r current target path d mx and r ids target path d mx arbitrary: p and p
    rule: find_path_dfs_find_path_ids.induct)
  case (1 r current target path d mx)
  then obtain ids where "bm_get (by_delegator r) (did_str current) = Some ids" "d < mx"
    "find_path_ids r ids target path d mx = Some p" by (auto split: if_splits option.splits)
  moreover from this obtain l q where "p = path @ l # q" "l \<in> links_named r ids" "length q < mx - d"
    "links_path r (delegate_did l) q target" using 1(1) [OF _ _ _ \<open>d < mx\<close>] by fastforce
  ultimately show ?case by (intro exI [of _ "l # q"]) (simp add: links_of_named)
next
  case (3 r lid ids target path d mx)
  show ?case
  proof (cases "bm_get (reg_links r) lid")
    case None
    then show ?thesis using 3 by simp
  next
    case (Some l)
    show ?thesis
    proof (cases "delegate_did l = target")
      case True
      then show ?thesis using 3(5,6) Some by (intro exI [of _ l] exI [of _ "[]"]) simp
    next
      case False
      show ?thesis
      proof (cases "find_path_dfs r (delegate_did l) target (path @ [l]) (d + 1) mx")
        case None
        then have "find_path_ids r ids target path d mx = Some p" using 3(5,6) Some False by simp
        then show ?thesis using 3(4) [OF Some False _ None] 3(6) Some by fastforce
      next
        case (Some f)
        then have "p = f" using 3(5,6) \<open>bm_get (reg_links r) lid = Some l\<close> False by simp
        with 3(3) [OF \<open>bm_get (reg_links r) lid = Some l\<close> False _ Some] 3(6)
        obtain q where "p = (path @ [l]) @ q" "length q \<le> mx - (d + 1)" "links_path r (delegate_did l) q target"
          by auto
        then show ?thesis using 3(6) \<open>bm_get (reg_links r) lid = Some l\<close>
          by (intro exI [of _ l] exI [of _ q]) auto
      qed
    qed
  qed
qed auto

lemma find_path_complete:
  "links_path r current q target \<Longrightarrow> q \<noteq> [] \<Longrightarrow> length q \<le> mx - d \<Longrightarrow>
     find_path_dfs r current target path d mx \<noteq> None"
  "links_path r (delegate_did l) q target \<Longrightarrow> l \<in> links_named r ids \<Longrightarrow> length q < mx - d \<Longrightarrow>
     find_path_ids r ids target path d mx \<noteq> None"
proof (induction r current target path d mx and r ids target path d mx arbitrary: q and l q
    rule: find_path_dfs_find_path_ids.induct)
  case (1 r current target path d mx)
  then obtain l q' where "q = l # q'" by (cases q) auto
  with 1 show ?case by (auto simp: links_of_named split: option.splits)
next
  case (3 r lid ids target path d mx)
  show ?case
  proof (cases "bm_get (reg_links r) lid")
    case None
    then show ?thesis using 3 by auto
  next
    case (Some l')
    have d: "\<not> mx \<le> d" using 3 by auto
    show ?thesis
    proof (rule ccontr)
      assume none: "\<not> ?thesis"
      then have ne: "delegate_did l' \<noteq> target" using Some by auto
      have n1: "find_path_dfs r (delegate_did l') target (path @ [l']) (d + 1) mx = None"
        and n2: "find_path_ids r ids target path d mx = None"
        using none Some ne d by (auto split: option.splits)
      have "length q \<le> mx - (d + 1)" using 3(7) by linarith
      then have "l \<noteq> l'" using 3(3) [OF Some ne d, of q] n1 3(5) ne by (cases "q = []") auto
      then have "l \<in> links_named r ids" using 3(6) Some by auto
      then show False using 3(4) [OF Some ne d n1 3(5)] 3(7) n2 by simp
    qed
  qed
qed auto

lemma length_renumber [simp]: "length (renumber p) = length p"
  by (simp add: renumber_def)

lemma nth_renumber: "i < length p \<Longrightarrow> renumber p ! i = (p ! i)\<lparr>link_depth := i\<rparr>"
  by (simp add: renumber_def nth_enumerate_eq)

lemma links_path_connected:
  "links_path r a q b \<Longrightarrow> index_ok delegator_did (reg_links r) (by_delegator r) \<Longrightarrow> q \<noteq> [] \<Longrightarrow>
     links_connected q \<and> delegator_did (hd q) = a \<and> delegate_did (last q) = b"
proof (induction q arbitrary: a)
  case (Cons l q)
  have l: "delegator_did l = a"
    using Cons.prems by (auto simp: links_of_def index_ok_def ids_at_def did.expand split: option.splits)
  show ?case
  proof (cases q)
    case (Cons l' q')
    then show ?thesis using Cons.IH [of "delegate_did l"] Cons.prems l by auto
  qed (use Cons.prems l in auto)
qed simp

lemma links_path_stored:
  "links_path r a q b \<Longrightarrow> l \<in> set q \<Longrightarrow> \<exists>lid. bm_get (reg_links r) lid = Some l"
  by (induction q arbitrary: a) (auto simp: links_of_def)

lemma renumber_chain:
  assumes "q \<noteq> []" "length q \<le> DEFAULT_MAX_DEPTH" and path: "links_path r a q b"
    and ix: "index_ok delegator_did (reg_links r) (by_delegator r)"
  defines "c \<equiv> \<lparr>chain_links = renumber q, max_depth = DEFAULT_MAX_DEPTH\<rparr>"
  shows "build_chain (renumber q) = Ok c \<and> chain_root c = Some a \<and> chain_leaf c = Some b \<and>
         links_connected (chain_links c) \<and> depths_in_order (chain_links c) \<and> chain_depth c \<le> DEFAULT_MAX_DEPTH \<and>
         (\<forall>l \<in> set (chain_links c). \<exists>lid l' d. bm_get (reg_links r) lid = Some l' \<and> l = l'\<lparr>link_depth := d\<rparr>)"
proof -
  have q: "links_connected q" "delegator_did (hd q) = a" "delegate_did (last q) = b"
    using links_path_connected [OF path ix assms(1)] by auto
  have conn: "links_connected (renumber q)"
    using q(1) by (auto simp: links_connected_def nth_renumber)
  have dep: "depths_in_order (renumber q)"
    by (auto simp: depths_in_order_iff nth_renumber)
  have ne: "renumber q \<noteq> []" using assms(1) by (simp add: renumber_def enumerate_eq_zip)
  have root: "delegator_did (hd (renumber q)) = a" and leaf: "delegate_did (last (renumber q)) = b"
    using q(2,3) assms(1) ne by (simp_all add: hd_conv_nth last_conv_nth nth_renumber)
  have "\<exists>lid l' d. bm_get (reg_links r) lid = Some l' \<and> l = l'\<lparr>link_depth := d\<rparr>" if l: "l \<in> set (renumber q)" for l
  proof -
    obtain i where i: "i < length q" "l = (q ! i)\<lparr>link_depth := i\<rparr>"
      using l by (metis in_set_conv_nth length_renumber nth_renumber)
    then show ?thesis using links_path_stored [OF path nth_mem [OF i(1)]] by blast
  qed
  moreover have "build_chain (renumber q) = Ok c"
    using ne assms(2) conn dep by (simp add: build_chain_def build_chain_with_depth_Ok c_def)
  moreover have "chain_root c = Some a" "chain_leaf c = Some b"
    using ne root leaf by (auto simp: chain_root_def chain_leaf_def c_def split: list.splits)
  ultimately show ?thesis
    using conn dep assms(2) by (simp add: c_def chain_depth_def)
qed

text \<open>
  C6: no delegation cycle. In every registry that delegations and revocations build, whatever the
  identifiers of their links, the graph of the stored links is acyclic, every stored link is listed in both
  indexes, and a delegation whose delegate can already reach its delegator through stored links is refused.
  When no two delegations of the history between different parties have the same identifier, the indexes
  list nothing else and only such delegations are refused.
\<close>

theorem reachable_registry_acyclic:
  assumes "registry_built blake3 hist r"
  shows "acyclic (stored_edges r) \<and>
         (\<forall>lid l. bm_get (reg_links r) lid = Some l \<longrightarrow>
            lid \<in> ids_at (by_delegator r) (did_str (delegator_did l)) \<and>
            lid \<in> ids_at (by_delegate r) (did_str (delegate_did l))) \<and>
         ((b, a) \<in> (stored_edges r)\<^sup>* \<longrightarrow> (\<exists>e. delegate blake3 r a b scope expires now kind = Err e)) \<and>
         (distinct_ids blake3 hist \<longrightarrow>
            index_ok delegator_did (reg_links r) (by_delegator r) \<and>
            index_ok delegate_did (reg_links r) (by_delegate r) \<and>
            ((\<exists>e. delegate blake3 r a b scope expires now kind = Err e) \<longleftrightarrow> (b, a) \<in> (stored_edges r)\<^sup>*))"
proof -
  have sound: "registry_sound blake3 hist r" using assms by (rule registry_built_sound)
  then have sub: "(stored_edges r)\<^sup>* \<subseteq> (delegation_edges r)\<^sup>*"
    by (intro rtrancl_mono stored_edges_searched) (simp add: registry_sound_def)
  have refused: "(\<exists>e. delegate blake3 r a b scope expires now kind = Err e) \<longleftrightarrow> (b, a) \<in> (delegation_edges r)\<^sup>*"
    by (simp add: delegate_def has_path_correct Let_def)
  have exact: "index_ok delegator_did (reg_links r) (by_delegator r) \<and>
      index_ok delegate_did (reg_links r) (by_delegate r) \<and> delegation_edges r = stored_edges r" if "distinct_ids blake3 hist"
    using registry_built_ok [OF assms that] registry_ok_edges [of r] by (auto simp: registry_ok_def)
  show ?thesis
    unfolding refused using sound sub exact by (auto simp: registry_sound_def index_covers_def)
qed

text \<open>One delegation, from \<open>a\<close> to \<open>b\<close>, with a hash that keeps the bytes from the 16th on.\<close>

definition toy_blake3 :: blake3 where
  "toy_blake3 bs = arr32_of (drop 16 bs)"

definition did_a :: did where "did_a = Did ''did:exo:a''"
definition did_b :: did where "did_b = Did ''did:exo:b''"

definition reg_ab :: delegation_registry where
  "reg_ab = add_link toy_blake3 registry_new
     (delegate_link registry_new did_a did_b [Read] (Timestamp 9 0) (Timestamp 1 0) KindHuman)"

definition link_ab :: authority_link where
  "link_ab = delegate_link registry_new did_a did_b [Read] (Timestamp 9 0) (Timestamp 1 0) KindHuman"

lemma reg_ab_built: "registry_built toy_blake3 [link_ab] reg_ab"
proof -
  have "delegate toy_blake3 registry_new did_a did_b [Read] (Timestamp 9 0) (Timestamp 1 0) KindHuman = Ok (reg_ab, link_ab)"
    by (simp add: delegate_def has_path_def registry_new_def did_a_def did_b_def reg_ab_def link_ab_def Let_def)
  from registry_built.delegate [OF registry_built.new this] show ?thesis by simp
qed

lemma reg_ab_stored: "\<exists>lid. bm_get (reg_links reg_ab) lid = Some link_ab"
  by (auto simp: reg_ab_def add_link_def link_ab_def [symmetric] Let_def)

lemma link_ab_fields [simp]: "delegator_did link_ab = did_a" "delegate_did link_ab = did_b"
  by (simp_all add: link_ab_def delegate_link_def)

text \<open>The delegation back is refused, and only delegations that close a cycle are.\<close>

theorem reachable_registry_acyclic_witness:
  "(\<exists>e. delegate toy_blake3 reg_ab did_b did_a [Read] (Timestamp 9 0) (Timestamp 2 0) KindHuman = Err e) \<and>
   index_ok delegator_did (reg_links reg_ab) (by_delegator reg_ab)"
proof -
  have "(did_a, did_b) \<in> stored_edges reg_ab"
    using reg_ab_stored unfolding stored_edges_def by force
  moreover have "distinct_ids toy_blake3 [link_ab]" by (simp add: distinct_ids_def)
  ultimately show ?thesis
    using reachable_registry_acyclic [OF reg_ab_built, of did_a did_b] by blast
qed

text \<open>Connected stored links from one name to another are a path of the search, when the index is exact.\<close>

lemma stored_links_path:
  "q \<noteq> [] \<Longrightarrow> links_connected q \<Longrightarrow> \<forall>l \<in> set q. \<exists>lid. bm_get (reg_links r) lid = Some l \<Longrightarrow>
     index_ok delegator_did (reg_links r) (by_delegator r) \<Longrightarrow>
     links_path r (delegator_did (hd q)) q (delegate_did (last q))"
proof (induction q)
  case (Cons l q)
  have l: "l \<in> links_of r (delegator_did l)"
    using Cons.prems(3,4) by (fastforce simp: links_of_def index_ok_def ids_at_def split: option.splits)
  show ?case
  proof (cases q)
    case (Cons l' q')
    have "links_connected q \<and> delegate_did l = delegator_did l'"
      using Cons.prems(2) Cons by (fastforce simp: links_connected_def)
    with Cons Cons.IH Cons.prems l show ?thesis by simp
  qed (use l in simp)
qed simp

text \<open>
  C18: \<open>find_chain\<close> is sound and complete, in every registry that delegations and revocations build in
  which no two delegations between different parties had the same identifier. It returns a chain exactly
  when connected stored links, one to five of them, lead from the first name to the second; the chain then
  starts and ends at these names, is connected, has its positions as depths, and its links are stored links
  up to their depths.
\<close>

theorem find_chain_correct:
  assumes "registry_built blake3 hist r" and "distinct_ids blake3 hist"
  shows "(case find_chain r a b of
            Some c \<Rightarrow> chain_root c = Some a \<and> chain_leaf c = Some b \<and> links_connected (chain_links c) \<and>
              depths_in_order (chain_links c) \<and> chain_depth c \<le> DEFAULT_MAX_DEPTH \<and>
              (\<forall>l \<in> set (chain_links c). \<exists>lid l' d. bm_get (reg_links r) lid = Some l' \<and> l = l'\<lparr>link_depth := d\<rparr>)
          | None \<Rightarrow> \<not> (\<exists>q. q \<noteq> [] \<and> length q \<le> DEFAULT_MAX_DEPTH \<and> links_connected q \<and>
              (\<forall>l \<in> set q. \<exists>lid. bm_get (reg_links r) lid = Some l) \<and>
              delegator_did (hd q) = a \<and> delegate_did (last q) = b))"
proof -
  have ix: "index_ok delegator_did (reg_links r) (by_delegator r)"
    using registry_built_ok [OF assms] by (simp add: registry_ok_def)
  show ?thesis
  proof (cases "find_path_dfs r a b [] 0 DEFAULT_MAX_DEPTH")
    case None
    then have "\<not> (q \<noteq> [] \<and> length q \<le> DEFAULT_MAX_DEPTH \<and> links_path r a q b)" for q
      using find_path_complete(1) [of r a _ b DEFAULT_MAX_DEPTH 0 "[]"] by auto
    then show ?thesis using None stored_links_path [OF _ _ _ ix]
      by (fastforce simp: find_chain_def simp del: find_path_dfs.simps)
  next
    case (Some p)
    have p: "p \<noteq> []" "length p \<le> DEFAULT_MAX_DEPTH" "links_path r a p b"
      using find_path_sound(1) [OF Some] by auto
    note c = renumber_chain [OF p ix]
    then show ?thesis using Some by (simp add: find_chain_def del: find_path_dfs.simps)
  qed
qed

theorem find_chain_correct_witness:
  "case find_chain reg_ab did_a did_b of
     Some c \<Rightarrow> chain_root c = Some did_a \<and> chain_leaf c = Some did_b | None \<Rightarrow> False"
proof -
  have ids: "distinct_ids toy_blake3 [link_ab]" by (simp add: distinct_ids_def)
  have "\<exists>q. q \<noteq> [] \<and> length q \<le> DEFAULT_MAX_DEPTH \<and> links_connected q \<and>
      (\<forall>l \<in> set q. \<exists>lid. bm_get (reg_links reg_ab) lid = Some l) \<and> delegator_did (hd q) = did_a \<and> delegate_did (last q) = did_b"
    using reg_ab_stored by (intro exI [of _ "[link_ab]"]) (simp add: links_connected_def DEFAULT_MAX_DEPTH_def)
  with find_chain_correct [OF reg_ab_built ids, of did_a did_b] show ?thesis
    by (cases "find_chain reg_ab did_a did_b"; simp only: option.case; blast)
qed

text \<open>
  The condition on identifiers is not idle: the names are concatenated without a separator, and a colon may
  occur inside a name, so two delegations between different parties can have the same identifier, whatever
  the hash. The later link then replaces the earlier one, which stays in the indexes.
\<close>

lemma link_id_collides:
  "did_new ''did:exo:bdid:exo:c'' = Ok (Did ''did:exo:bdid:exo:c'') \<and>
   did_new ''did:exo:adid:exo:b'' = Ok (Did ''did:exo:adid:exo:b'') \<and>
   link_id blake3 (delegate_link registry_new (Did ''did:exo:a'') (Did ''did:exo:bdid:exo:c'') sc e n k) =
     link_id blake3 (delegate_link registry_new (Did ''did:exo:adid:exo:b'') (Did ''did:exo:c'') sc e n k)"
proof (intro conjI)
  show "link_id blake3 (delegate_link registry_new (Did ''did:exo:a'') (Did ''did:exo:bdid:exo:c'') sc e n k) =
     link_id blake3 (delegate_link registry_new (Did ''did:exo:adid:exo:b'') (Did ''did:exo:c'') sc e n k)"
    by (simp add: link_id_def signable_payload_def delegate_link_def str_bytes_def compute_depth_def registry_new_def)
qed (simp_all add: did_new_def did_validate_def strip_prefix_def did_char_def is_ascii_alphanumeric_def)

end
