(* ===== verification/Chain_Cache.thy ===== *)
theory Chain_Cache
  imports Authority
begin

text \<open>
  The cache of resolved chains, \<open>src/crates/exo-authority/src/cache.rs\<close>. The eviction loop of \<open>insert\<close> ends
  only when an entry can be removed, so it is a partial function: \<open>None\<close> is a loop that runs for ever.
\<close>

section \<open>Keys and entries\<close>

datatype cache_key = CacheKey (ck_from: string) (ck_to: string)

text \<open>The derived order: the source first, then the target.\<close>

instantiation cache_key :: linorder
begin

definition less_eq_cache_key :: "cache_key \<Rightarrow> cache_key \<Rightarrow> bool" where
  "k \<le> k' \<longleftrightarrow> ck_from k < ck_from k' \<or> (ck_from k = ck_from k' \<and> ck_to k \<le> ck_to k')"

definition less_cache_key :: "cache_key \<Rightarrow> cache_key \<Rightarrow> bool" where
  "k < k' \<longleftrightarrow> ck_from k < ck_from k' \<or> (ck_from k = ck_from k' \<and> ck_to k < ck_to k')"

instance
  by standard (auto simp: less_eq_cache_key_def less_cache_key_def cache_key.expand)

end

record cache_entry =
  entry_chain :: authority_chain
  last_accessed :: timestamp

record chain_cache =
  cache_entries :: "(cache_key, cache_entry) btree_map"
  max_entries :: nat

definition DEFAULT_MAX_ENTRIES :: nat where
  "DEFAULT_MAX_ENTRIES = 10000"

section \<open>Operations\<close>

definition cache_new :: chain_cache where
  "cache_new = \<lparr>cache_entries = bm_empty, max_entries = DEFAULT_MAX_ENTRIES\<rparr>"

definition with_capacity :: "nat \<Rightarrow> chain_cache" where
  "with_capacity mx = \<lparr>cache_entries = bm_empty, max_entries = mx\<rparr>"

definition cache_key_of :: "did \<Rightarrow> did \<Rightarrow> cache_key" where
  "cache_key_of a b = CacheKey (did_str a) (did_str b)"

definition cache_get :: "chain_cache \<Rightarrow> did \<Rightarrow> did \<Rightarrow> timestamp \<Rightarrow> chain_cache \<times> authority_chain option" where
  "cache_get c a b now =
     (case bm_get (cache_entries c) (cache_key_of a b) of
        Some entry \<Rightarrow>
          (c\<lparr>cache_entries := bm_insert (cache_key_of a b) (entry\<lparr>last_accessed := now\<rparr>) (cache_entries c)\<rparr>,
           Some (entry_chain entry))
      | None \<Rightarrow> (c, None))"

text \<open>\<open>min_by_key\<close>: the first entry with the least access time.\<close>

fun min_entry :: "(cache_key \<times> cache_entry) list \<Rightarrow> (cache_key \<times> cache_entry) option" where
  "min_entry [] = None"
| "min_entry (e # es) = (case min_entry es of
     None \<Rightarrow> Some e
   | Some m \<Rightarrow> if last_accessed (snd e) \<le> last_accessed (snd m) then Some e else Some m)"

definition evict_oldest :: "chain_cache \<Rightarrow> chain_cache" where
  "evict_oldest c = (case min_entry (entries (cache_entries c)) of
     Some (k, _) \<Rightarrow> c\<lparr>cache_entries := bm_remove k (cache_entries c)\<rparr>
   | None \<Rightarrow> c)"

definition cache_len :: "chain_cache \<Rightarrow> nat" where
  "cache_len c = bm_len (cache_entries c)"

definition cache_is_empty :: "chain_cache \<Rightarrow> bool" where
  "cache_is_empty c = bm_is_empty (cache_entries c)"

partial_function (option) evict_loop :: "chain_cache \<Rightarrow> chain_cache option" where
  "evict_loop c = (if max_entries c \<le> cache_len c then evict_loop (evict_oldest c) else Some c)"

definition cache_insert :: "chain_cache \<Rightarrow> did \<Rightarrow> did \<Rightarrow> authority_chain \<Rightarrow> timestamp \<Rightarrow> chain_cache option" where
  "cache_insert c a b chain now =
     (case evict_loop c of
        None \<Rightarrow> None
      | Some c' \<Rightarrow> Some (c'\<lparr>cache_entries :=
          bm_insert (cache_key_of a b) \<lparr>entry_chain = chain, last_accessed = now\<rparr> (cache_entries c')\<rparr>))"

definition cache_invalidate :: "chain_cache \<Rightarrow> did \<Rightarrow> chain_cache" where
  "cache_invalidate c d =
     c\<lparr>cache_entries := bm_retain (\<lambda>k _. ck_from k \<noteq> did_str d \<and> ck_to k \<noteq> did_str d) (cache_entries c)\<rparr>"

definition cache_clear :: "chain_cache \<Rightarrow> chain_cache" where
  "cache_clear c = c\<lparr>cache_entries := bm_empty\<rparr>"

section \<open>Eviction\<close>

lemma min_entry_None [simp]: "min_entry es = None \<longleftrightarrow> es = []"
  by (cases es) (auto split: option.splits)

lemma min_entry_Some:
  "min_entry es = Some m \<Longrightarrow> m \<in> set es \<and> (\<forall>e \<in> set es. last_accessed (snd m) \<le> last_accessed (snd e))"
  by (induction es arbitrary: m) (auto split: option.splits if_splits dest: order_trans)

lemma bm_len_remove: "bm_contains m k \<Longrightarrow> bm_len m = Suc (bm_len (bm_remove k m))"
proof -
  assume k: "bm_contains m k"
  have "{k'. bm_contains m k'} = insert k {k'. bm_contains (bm_remove k m) k'}"
    using k by (auto simp: bm_contains_def)
  moreover have "k \<notin> {k'. bm_contains (bm_remove k m) k'}" by (simp add: bm_contains_def)
  ultimately show ?thesis by (simp add: bm_len_card)
qed

lemma bm_len_insert_le: "bm_len (bm_insert k v m) \<le> Suc (bm_len m)"
proof -
  have "{k'. bm_contains (bm_insert k v m) k'} = insert k {k'. bm_contains m k'}" by auto
  then show ?thesis by (simp add: bm_len_card card_insert_if)
qed

text \<open>One eviction removes an entry that was accessed no later than any other.\<close>

lemma evict_oldest_step:
  assumes "0 < cache_len c"
  shows "\<exists>k e. bm_get (cache_entries c) k = Some e \<and>
           evict_oldest c = c\<lparr>cache_entries := bm_remove k (cache_entries c)\<rparr> \<and>
           cache_len c = Suc (cache_len (evict_oldest c)) \<and>
           (\<forall>k' e'. bm_get (cache_entries c) k' = Some e' \<longrightarrow> last_accessed e \<le> last_accessed e')"
proof -
  have "entries (cache_entries c) \<noteq> []" using assms by (auto simp: cache_len_def bm_len_def)
  then obtain k e where m: "min_entry (entries (cache_entries c)) = Some (k, e)"
    by (metis min_entry_None option.exhaust surj_pair)
  have "(k, e) \<in> set (entries (cache_entries c))"
    and "\<forall>x \<in> set (entries (cache_entries c)). last_accessed e \<le> last_accessed (snd x)"
    using min_entry_Some [OF m] by auto
  then have "bm_get (cache_entries c) k = Some e"
    and "\<forall>k' e'. bm_get (cache_entries c) k' = Some e' \<longrightarrow> last_accessed e \<le> last_accessed e'"
    by (auto simp: set_entries simp flip: set_entries)
  then show ?thesis
    using m bm_len_remove [of "cache_entries c" k]
    by (intro exI [of _ k] exI [of _ e]) (auto simp: evict_oldest_def cache_len_def bm_contains_def)
qed

lemma evict_oldest_max [simp]: "max_entries (evict_oldest c) = max_entries c"
  by (auto simp: evict_oldest_def split: option.splits)

lemma evict_loop_result:
  assumes "evict_loop c = Some c'"
  shows "max_entries c' = max_entries c \<and> cache_len c' < max_entries c'"
  by (rule evict_loop.raw_induct [OF _ assms]) (fastforce split: if_splits)

lemma evict_loop_diverges: "max_entries c = 0 \<Longrightarrow> evict_loop c = None"
  using evict_loop_result [of c] by (cases "evict_loop c") auto

text \<open>What is left after evictions: some entries, none accessed before one that was removed.\<close>

definition evicted_to :: "chain_cache \<Rightarrow> chain_cache \<Rightarrow> bool" where
  "evicted_to c c' \<longleftrightarrow> max_entries c' = max_entries c \<and>
     (\<forall>k e. bm_get (cache_entries c') k = Some e \<longrightarrow> bm_get (cache_entries c) k = Some e) \<and>
     (\<forall>k e k' e'. bm_get (cache_entries c) k = Some e \<and> bm_get (cache_entries c') k = None \<and>
        bm_get (cache_entries c') k' = Some e' \<longrightarrow> last_accessed e \<le> last_accessed e')"

lemma evicted_to_refl [simp]: "evicted_to c c"
  by (auto simp: evicted_to_def)

lemma evicted_to_step: "0 < cache_len c \<Longrightarrow> evicted_to (evict_oldest c) c' \<Longrightarrow> evicted_to c c'"
  using evict_oldest_step [of c]
  by (auto simp: evicted_to_def split: if_splits) (metis option.distinct(1) option.inject)+

lemma evict_loop_total:
  "0 < max_entries c \<Longrightarrow>
     \<exists>c'. evict_loop c = Some c' \<and> evicted_to c c' \<and> cache_len c' = min (cache_len c) (max_entries c - 1)"
proof (induction "cache_len c" arbitrary: c)
  case 0
  then show ?case by (subst evict_loop.simps) auto
next
  case (Suc n)
  show ?case
  proof (cases "max_entries c \<le> cache_len c")
    case False
    then show ?thesis by (subst evict_loop.simps) auto
  next
    case True
    have len: "cache_len c = Suc (cache_len (evict_oldest c))"
      using evict_oldest_step [of c] Suc.hyps(2) by auto
    then obtain c' where "evict_loop (evict_oldest c) = Some c'" "evicted_to (evict_oldest c) c'"
      "cache_len c' = min (cache_len (evict_oldest c)) (max_entries c - 1)"
      using Suc.hyps(1) [of "evict_oldest c"] Suc.hyps(2) Suc.prems by auto
    then show ?thesis
      using True len evicted_to_step [of c c'] by (subst evict_loop.simps) auto
  qed
qed

section \<open>The contract of the cache\<close>

text \<open>The caches built from a given capacity by the operations, each run to its end.\<close>

inductive cache_reachable :: "nat \<Rightarrow> chain_cache \<Rightarrow> bool" for mx where
  new: "cache_reachable mx (with_capacity mx)"
| get: "cache_reachable mx c \<Longrightarrow> cache_reachable mx (fst (cache_get c a b now))"
| insert: "cache_reachable mx c \<Longrightarrow> cache_insert c a b chain now = Some c' \<Longrightarrow> cache_reachable mx c'"
| invalidate: "cache_reachable mx c \<Longrightarrow> cache_reachable mx (cache_invalidate c d)"
| clear: "cache_reachable mx c \<Longrightarrow> cache_reachable mx (cache_clear c)"

lemma bm_len_le: "(\<And>k. bm_contains m k \<Longrightarrow> bm_contains m' k) \<Longrightarrow> bm_len m \<le> bm_len m'"
  by (auto simp: bm_len_card intro: card_mono)

lemma cache_reachable_bounded: "cache_reachable mx c \<Longrightarrow> max_entries c = mx \<and> cache_len c \<le> mx"
proof (induction rule: cache_reachable.induct)
  case (get c a b now)
  have "bm_len (cache_entries (fst (cache_get c a b now))) \<le> bm_len (cache_entries c)"
    by (rule bm_len_le) (auto simp: cache_get_def bm_contains_def split: option.splits if_splits)
  with get show ?case by (auto simp: cache_len_def cache_get_def split: option.splits)
next
  case (insert c a b chain now c')
  then obtain c1 where "evict_loop c = Some c1"
    and "c' = c1\<lparr>cache_entries := bm_insert (cache_key_of a b) \<lparr>entry_chain = chain, last_accessed = now\<rparr> (cache_entries c1)\<rparr>"
    by (auto simp: cache_insert_def split: option.splits)
  with evict_loop_result [of c c1] insert.IH show ?case
    by (auto simp: cache_len_def intro: order_trans [OF bm_len_insert_le])
next
  case (invalidate c d)
  have "bm_len (cache_entries (cache_invalidate c d)) \<le> bm_len (cache_entries c)"
    by (rule bm_len_le) (auto simp: cache_invalidate_def bm_contains_def split: option.splits)
  with invalidate show ?case by (auto simp: cache_len_def cache_invalidate_def)
qed (simp_all add: with_capacity_def cache_clear_def cache_len_def bm_len_card)

text \<open>
  C22: the cache is bounded and evicts the least recently used entries. In every reachable cache of a positive
  capacity, which never holds more entries than that, an insertion ends; the inserted chain is then found,
  every other entry found was there before, and an entry that was dropped for it was accessed no later than any
  that is kept. With capacity 0 the eviction loop of an insertion never ends.
\<close>

theorem cache_insert_correct:
  assumes "cache_reachable mx c"
  shows "cache_len c \<le> mx \<and>
    (mx = 0 \<longrightarrow> cache_insert c a b chain now = None) \<and>
    (0 < mx \<longrightarrow> (\<exists>c'. cache_insert c a b chain now = Some c' \<and> cache_len c' \<le> mx \<and>
       snd (cache_get c' a b later) = Some chain \<and>
       (\<forall>k e. k \<noteq> cache_key_of a b \<and> bm_get (cache_entries c') k = Some e \<longrightarrow> bm_get (cache_entries c) k = Some e) \<and>
       (\<forall>k e k' e'. bm_get (cache_entries c) k = Some e \<and> bm_get (cache_entries c') k = None \<and>
          k' \<noteq> cache_key_of a b \<and> bm_get (cache_entries c') k' = Some e' \<longrightarrow> last_accessed e \<le> last_accessed e')))"
proof -
  have mx: "max_entries c = mx" and len: "cache_len c \<le> mx"
    using cache_reachable_bounded [OF assms] by auto
  have zero: "mx = 0 \<longrightarrow> cache_insert c a b chain now = None"
    using evict_loop_diverges [of c] mx by (simp add: cache_insert_def)
  show ?thesis
  proof (cases "mx = 0")
    case False
    then obtain c1 where c1: "evict_loop c = Some c1" "evicted_to c c1"
      using evict_loop_total [of c] mx by auto
    let ?c' = "c1\<lparr>cache_entries := bm_insert (cache_key_of a b) \<lparr>entry_chain = chain, last_accessed = now\<rparr> (cache_entries c1)\<rparr>"
    have ins: "cache_insert c a b chain now = Some ?c'" using c1 by (simp add: cache_insert_def)
    have "cache_len ?c' \<le> mx"
      using cache_reachable_bounded [OF cache_reachable.insert [OF assms ins]] by simp
    moreover have "snd (cache_get ?c' a b later) = Some chain" by (simp add: cache_get_def)
    ultimately show ?thesis
      using ins zero len False c1(2) by (intro conjI impI exI [of _ ?c']) (auto simp: evicted_to_def split: if_splits)
  qed (use zero len in simp)
qed

theorem cache_insert_correct_witness:
  "cache_insert (with_capacity 0) (Did ''did:exo:a'') (Did ''did:exo:b'') sample_chain TS_ZERO = None \<and>
   (\<exists>c'. cache_insert (with_capacity 2) (Did ''did:exo:a'') (Did ''did:exo:b'') sample_chain TS_ZERO = Some c' \<and>
      snd (cache_get c' (Did ''did:exo:a'') (Did ''did:exo:b'') TS_ZERO) = Some sample_chain)"
  using cache_insert_correct [OF cache_reachable.new [of 0], of "Did ''did:exo:a''" "Did ''did:exo:b''" sample_chain TS_ZERO TS_ZERO]
    cache_insert_correct [OF cache_reachable.new [of 2], of "Did ''did:exo:a''" "Did ''did:exo:b''" sample_chain TS_ZERO TS_ZERO]
  by auto

text \<open>After an invalidation no entry involves the name, and every other entry is as before.\<close>

lemma cache_invalidate_correct:
  "snd (cache_get (cache_invalidate c d) a b now) =
     (if a = d \<or> b = d then None else snd (cache_get c a b now))"
  by (auto simp: cache_get_def cache_invalidate_def cache_key_of_def did.expand split: option.splits)

end
