(* ===== verification/Consent.thy ===== *)
theory Consent
  imports Core_Types
begin

text \<open>
  The crate \<open>src/crates/exo-consent\<close>: bailments and their life cycle (\<open>bailment.rs\<close>), the evaluation of a
  consent policy (\<open>policy.rs\<close>) and the consent gate (\<open>gatekeeper.rs\<close>). The identifier and the time that
  \<open>propose\<close> takes from the UUID generator and the wall clock are arguments.
\<close>

section \<open>Bailments\<close>

datatype consent_error =
    InvalidState string string
  | ConsentUnauthorized string
  | ConsentExpired string
  | NoConsent string
  | ConsentInvalidSignature
  | ConsentDenied string

datatype bailment_type = Custody | Processing | Delegation | Emergency

datatype bailment_status = Proposed | Active | Suspended | Terminated | Expired

fun status_name :: "bailment_status \<Rightarrow> string" where
  "status_name Proposed = ''Proposed''"
| "status_name Active = ''Active''"
| "status_name Suspended = ''Suspended''"
| "status_name Terminated = ''Terminated''"
| "status_name Expired = ''Expired''"

record bailment =
  bailment_id :: string
  bailor_did :: did
  bailee_did :: did
  bailment_type :: bailment_type
  terms_hash :: hash256
  bl_created :: timestamp
  bl_expires :: "timestamp option"
  bl_status :: bailment_status
  bl_signature :: signature

definition bailment_propose :: "blake3 \<Rightarrow> string \<Rightarrow> timestamp \<Rightarrow> did \<Rightarrow> did \<Rightarrow> bytes \<Rightarrow> bailment_type \<Rightarrow> bailment" where
  "bailment_propose blake3 uuid now bailor bailee terms ty =
     \<lparr>bailment_id = uuid, bailor_did = bailor, bailee_did = bailee, bailment_type = ty,
      terms_hash = digest blake3 terms, bl_created = now, bl_expires = None, bl_status = Proposed,
      bl_signature = SigEmpty\<rparr>"

definition bailment_accept :: "bailment \<Rightarrow> signature \<Rightarrow> (bailment, consent_error) result" where
  "bailment_accept b s =
     (if bl_status b \<noteq> Proposed then Err (InvalidState ''Proposed'' (status_name (bl_status b)))
      else if sig_is_empty s then Err ConsentInvalidSignature
      else Ok (b\<lparr>bl_signature := s, bl_status := Active\<rparr>))"

definition bailment_terminate :: "bailment \<Rightarrow> did \<Rightarrow> (bailment, consent_error) result" where
  "bailment_terminate b actor =
     (if bl_status b = Terminated \<or> bl_status b = Expired
      then Err (InvalidState ''Active, Proposed, or Suspended'' (status_name (bl_status b)))
      else if actor \<noteq> bailor_did b \<and> actor \<noteq> bailee_did b
      then Err (ConsentUnauthorized (''DID '' @ did_str actor @ '' is neither bailor nor bailee''))
      else Ok (b\<lparr>bl_status := Terminated\<rparr>))"

definition bailment_is_active :: "bailment \<Rightarrow> timestamp \<Rightarrow> bool" where
  "bailment_is_active b now =
     (if bl_status b \<noteq> Active then False
      else case bl_expires b of Some e \<Rightarrow> \<not> is_expired e now | None \<Rightarrow> True)"

lemma bailment_is_active_iff:
  "bailment_is_active b now \<longleftrightarrow> bl_status b = Active \<and> (\<forall>e. bl_expires b = Some e \<longrightarrow> now < e)"
  by (auto simp: bailment_is_active_def is_expired_def split: option.splits)

section \<open>Policies\<close>

record consent_requirement =
  rq_action_type :: string
  required_role :: string
  min_clearance_level :: u32

record consent_policy =
  policy_id :: string
  policy_name :: string
  required_consents :: "consent_requirement list"
  deny_by_default :: bool

record active_consent =
  grantor :: did
  ac_action_type :: string
  ac_role :: string
  ac_clearance_level :: u32
  ac_bailment :: bailment

record consent_request =
  rq_actor :: did
  request_action :: string

datatype consent_decision = Granted "timestamp option" | Denied string | Escalated did

definition satisfies :: "timestamp \<Rightarrow> consent_requirement \<Rightarrow> active_consent \<Rightarrow> bool" where
  "satisfies now req c \<longleftrightarrow>
     ac_action_type c = rq_action_type req \<and> ac_role c = required_role req \<and>
     min_clearance_level req \<le> ac_clearance_level c \<and> bailment_is_active (ac_bailment c) now"

definition escalates :: "timestamp \<Rightarrow> consent_requirement \<Rightarrow> active_consent \<Rightarrow> bool" where
  "escalates now req c \<longleftrightarrow>
     ac_action_type c = rq_action_type req \<and> bailment_type (ac_bailment c) = Delegation \<and>
     bailment_is_active (ac_bailment c) now"

text \<open>The inner loop of \<open>evaluate\<close>, which keeps the earliest expiry of the matching consents.\<close>

fun track_expiry :: "timestamp \<Rightarrow> consent_requirement \<Rightarrow> active_consent list \<Rightarrow> timestamp option \<Rightarrow> timestamp option" where
  "track_expiry now req [] earliest = earliest"
| "track_expiry now req (c # cs) earliest =
     track_expiry now req cs
       (if satisfies now req c
        then (case bl_expires (ac_bailment c) of
                Some e \<Rightarrow> Some (case earliest of Some cur \<Rightarrow> if e < cur then e else cur | None \<Rightarrow> e)
              | None \<Rightarrow> earliest)
        else earliest)"

definition requirement_message :: "consent_requirement \<Rightarrow> string" where
  "requirement_message req =
     ''requirement not met: action='' @ quoted (rq_action_type req) @ '', role='' @ quoted (required_role req) @
     '', clearance>='' @ show_nat (unat (min_clearance_level req))"

fun evaluate_requirements ::
  "active_consent list \<Rightarrow> timestamp \<Rightarrow> consent_requirement list \<Rightarrow> timestamp option \<Rightarrow> consent_decision" where
  "evaluate_requirements consents now [] earliest = Granted earliest"
| "evaluate_requirements consents now (req # reqs) earliest =
     (if \<not> list_ex (satisfies now req) consents
      then (case List.find (escalates now req) consents of
              Some e \<Rightarrow> Escalated (bailor_did (ac_bailment e))
            | None \<Rightarrow> Denied (requirement_message req))
      else evaluate_requirements consents now reqs (track_expiry now req consents earliest))"

definition applicable :: "consent_policy \<Rightarrow> consent_request \<Rightarrow> consent_requirement list" where
  "applicable policy action = filter (\<lambda>r. rq_action_type r = request_action action) (required_consents policy)"

definition evaluate ::
  "consent_policy \<Rightarrow> active_consent list \<Rightarrow> consent_request \<Rightarrow> timestamp \<Rightarrow> consent_decision" where
  "evaluate policy consents action now =
     (if applicable policy action = []
      then if deny_by_default policy
           then Denied (''no policy covers action '' @ quoted (request_action action) @ '' and deny_by_default is true'')
           else Granted None
      else evaluate_requirements consents now (applicable policy action) None)"

section \<open>The gate\<close>

record consent_reg =
  cr_action_type :: string
  cr_role :: string
  cr_clearance_level :: u32
  cr_bailment :: bailment

record consent_gate =
  gate_policy :: consent_policy
  gate_bailments :: "(string, bailment list) btree_map"
  gate_consents :: "(string, consent_reg list) btree_map"

definition gate_new :: "consent_policy \<Rightarrow> consent_gate" where
  "gate_new policy = \<lparr>gate_policy = policy, gate_bailments = bm_empty, gate_consents = bm_empty\<rparr>"

definition register_bailment :: "consent_gate \<Rightarrow> bailment \<Rightarrow> consent_gate" where
  "register_bailment g b =
     g\<lparr>gate_bailments := bm_upd_default [] (\<lambda>bs. bs @ [b]) (did_str (bailee_did b)) (gate_bailments g)\<rparr>"

definition register_consent :: "consent_gate \<Rightarrow> did \<Rightarrow> string \<Rightarrow> string \<Rightarrow> u32 \<Rightarrow> bailment \<Rightarrow> consent_gate" where
  "register_consent g actor action role clearance b =
     g\<lparr>gate_consents := bm_upd_default []
         (\<lambda>rs. rs @ [\<lparr>cr_action_type = action, cr_role = role, cr_clearance_level = clearance, cr_bailment = b\<rparr>])
         (did_str actor) (gate_consents g)\<rparr>"

definition revoke_by_bailment_id :: "consent_gate \<Rightarrow> string \<Rightarrow> consent_gate" where
  "revoke_by_bailment_id g bid =
     g\<lparr>gate_consents := bm_map (filter (\<lambda>r. bailment_id (cr_bailment r) \<noteq> bid)) (gate_consents g),
       gate_bailments := bm_map (filter (\<lambda>b. bailment_id b \<noteq> bid)) (gate_bailments g)\<rparr>"

definition active_of :: "consent_reg \<Rightarrow> active_consent" where
  "active_of r = \<lparr>grantor = bailor_did (cr_bailment r), ac_action_type = cr_action_type r, ac_role = cr_role r,
     ac_clearance_level = cr_clearance_level r, ac_bailment = cr_bailment r\<rparr>"

definition active_consents :: "consent_gate \<Rightarrow> did \<Rightarrow> timestamp \<Rightarrow> active_consent list" where
  "active_consents g actor now =
     (case bm_get (gate_consents g) (did_str actor) of
        Some regs \<Rightarrow> map active_of (filter (\<lambda>r. bailment_is_active (cr_bailment r) now) regs)
      | None \<Rightarrow> [])"

definition gate_check :: "consent_gate \<Rightarrow> did \<Rightarrow> string \<Rightarrow> timestamp \<Rightarrow> consent_decision" where
  "gate_check g actor action now =
     evaluate (gate_policy g) (active_consents g actor now) \<lparr>rq_actor = actor, request_action = action\<rparr> now"

definition set_policy :: "consent_gate \<Rightarrow> consent_policy \<Rightarrow> consent_gate" where
  "set_policy g policy = g\<lparr>gate_policy := policy\<rparr>"

section \<open>The life cycle of a bailment\<close>

text \<open>The states a bailment reaches from its proposal through the operations of the module.\<close>

inductive bailment_step :: "bailment \<Rightarrow> bailment \<Rightarrow> bool" where
  accept: "bailment_accept b s = Ok b' \<Longrightarrow> bailment_step b b'"
| terminate: "bailment_terminate b actor = Ok b' \<Longrightarrow> bailment_step b b'"

inductive_simps bailment_step_iff: "bailment_step b b'"

lemma bailment_step_cases:
  "bailment_step b b' \<Longrightarrow>
     (bl_status b = Proposed \<and> (\<exists>s. \<not> sig_is_empty s \<and> b' = b\<lparr>bl_signature := s, bl_status := Active\<rparr>)) \<or>
     (bl_status b \<notin> {Terminated, Expired} \<and> b' = b\<lparr>bl_status := Terminated\<rparr>)"
  by (auto simp: bailment_step_iff bailment_accept_def bailment_terminate_def split: if_splits)

definition bailment_ok :: "bailment \<Rightarrow> bailment \<Rightarrow> bool" where
  "bailment_ok b0 b \<longleftrightarrow> bl_status b \<in> {Proposed, Active, Terminated} \<and>
     (bl_status b = Active \<longrightarrow> \<not> sig_is_empty (bl_signature b)) \<and>
     b\<lparr>bl_signature := SigEmpty, bl_status := Proposed\<rparr> = b0\<lparr>bl_signature := SigEmpty, bl_status := Proposed\<rparr>"

lemma bailment_ok_steps:
  assumes "bailment_step\<^sup>*\<^sup>* b0 b" and "bl_status b0 = Proposed"
  shows "bailment_ok b0 b"
  using assms(1)
proof (induction rule: rtranclp_induct)
  case base
  then show ?case using assms(2) by (simp add: bailment_ok_def)
next
  case (step b b')
  then show ?case using bailment_step_cases [OF step.hyps(2)] by (auto simp: bailment_ok_def)
qed

text \<open>
  C24: the life cycle of a bailment. From a proposal, whatever sequence of operations succeeds, the bailment is
  proposed, active or terminated, active only with a signature that is not the placeholder, and all but its
  status and signature are those of the proposal. A terminated bailment stays terminated, and nobody but the
  two parties terminates one.
\<close>

theorem bailment_lifecycle:
  assumes "bailment_step\<^sup>*\<^sup>* (bailment_propose blake3 uuid t bailor bailee terms ty) b"
  shows "bailment_ok (bailment_propose blake3 uuid t bailor bailee terms ty) b \<and>
         (bl_status b = Terminated \<longrightarrow> \<not> bailment_step b b') \<and>
         (bailment_terminate b actor = Ok b' \<longrightarrow>
            (actor = bailor \<or> actor = bailee) \<and> bl_status b' = Terminated \<and> \<not> bailment_is_active b' now)"
proof -
  have ok: "bailment_ok (bailment_propose blake3 uuid t bailor bailee terms ty) b"
    by (rule bailment_ok_steps [OF assms]) (simp add: bailment_propose_def)
  then have "bailor_did (b\<lparr>bl_signature := SigEmpty, bl_status := Proposed\<rparr>) = bailor"
    and "bailee_did (b\<lparr>bl_signature := SigEmpty, bl_status := Proposed\<rparr>) = bailee"
    by (simp_all only: bailment_ok_def bailment_propose_def bailment.select_convs bailment.update_convs)
  then have "bailor_did b = bailor" "bailee_did b = bailee" by simp_all
  moreover have "\<not> bailment_step b b'" if "bl_status b = Terminated"
    using that bailment_step_cases [of b b'] by auto
  ultimately show ?thesis
    using ok by (auto simp: bailment_terminate_def bailment_is_active_def split: if_splits)
qed

definition sample_bailment :: bailment where
  "sample_bailment = bailment_propose (\<lambda>_. arr32_of []) ''u'' TS_ZERO (Did ''did:exo:a'') (Did ''did:exo:b'') [1] Custody"

lemma sample_bailment_active:
  "bailment_step sample_bailment (sample_bailment\<lparr>bl_signature := PostQuantum [1], bl_status := Active\<rparr>)"
  by (rule bailment_step.accept [where s = "PostQuantum [1]"])
     (simp add: sample_bailment_def bailment_propose_def bailment_accept_def sig_is_empty_def)

theorem bailment_lifecycle_witness:
  "bailment_ok sample_bailment (sample_bailment\<lparr>bl_signature := PostQuantum [1], bl_status := Active\<rparr>)"
proof -
  have "bailment_step\<^sup>*\<^sup>* sample_bailment (sample_bailment\<lparr>bl_signature := PostQuantum [1], bl_status := Active\<rparr>)"
    by (rule r_into_rtranclp) (rule sample_bailment_active)
  from bailment_lifecycle [OF this [unfolded sample_bailment_def]] show ?thesis
    by (simp add: sample_bailment_def)
qed

section \<open>What a grant means\<close>

text \<open>The earliest expiry that is tracked, as a bound on the expiries of the matching consents.\<close>

definition expiry_lb :: "timestamp option \<Rightarrow> timestamp set \<Rightarrow> bool" where
  "expiry_lb e T \<longleftrightarrow> (case e of None \<Rightarrow> T = {} | Some t \<Rightarrow> t \<in> T \<and> (\<forall>u \<in> T. t \<le> u))"

lemma expiry_lb_insert:
  "expiry_lb e T \<Longrightarrow> expiry_lb (Some (case e of Some cur \<Rightarrow> if t < cur then t else cur | None \<Rightarrow> t)) (insert t T)"
  by (auto simp: expiry_lb_def split: option.splits)

definition matching_expiries :: "timestamp \<Rightarrow> consent_requirement \<Rightarrow> active_consent list \<Rightarrow> timestamp set" where
  "matching_expiries now req cs = {e. \<exists>c \<in> set cs. satisfies now req c \<and> bl_expires (ac_bailment c) = Some e}"

lemma track_expiry_lb:
  "expiry_lb e T \<Longrightarrow> expiry_lb (track_expiry now req cs e) (T \<union> matching_expiries now req cs)"
proof (induction cs arbitrary: e T)
  case (Cons c cs)
  show ?case
  proof (cases "satisfies now req c")
    case False
    then have "matching_expiries now req (c # cs) = matching_expiries now req cs"
      by (auto simp: matching_expiries_def)
    with False Cons show ?thesis by simp
  next
    case True
    show ?thesis
    proof (cases "bl_expires (ac_bailment c)")
      case None
      then have "matching_expiries now req (c # cs) = matching_expiries now req cs"
        by (auto simp: matching_expiries_def)
      with True None Cons show ?thesis by simp
    next
      case (Some t)
      with True have "T \<union> matching_expiries now req (c # cs) = insert t T \<union> matching_expiries now req cs"
        by (auto simp: matching_expiries_def)
      with Cons.IH [OF expiry_lb_insert [OF Cons.prems, of t]] True Some show ?thesis by simp
    qed
  qed
qed (simp add: matching_expiries_def)

lemma expiry_lb_unique: "expiry_lb e T \<Longrightarrow> expiry_lb e' T \<Longrightarrow> e = e'"
  by (auto simp: expiry_lb_def split: option.splits intro: antisym)

lemma evaluate_requirements_granted:
  "expiry_lb e T \<Longrightarrow>
   evaluate_requirements cs now reqs e = Granted x \<longleftrightarrow>
     (\<forall>req \<in> set reqs. \<exists>c \<in> set cs. satisfies now req c) \<and>
     expiry_lb x (T \<union> (\<Union>req \<in> set reqs. matching_expiries now req cs))"
proof (induction reqs arbitrary: e T)
  case Nil
  then show ?case using expiry_lb_unique by auto
next
  case (Cons req reqs)
  show ?case
  proof (cases "list_ex (satisfies now req) cs")
    case True
    then show ?thesis using Cons.IH [OF track_expiry_lb [OF Cons.prems, of now req cs]]
      by (auto simp: list_ex_iff Un_assoc)
  next
    case False
    then show ?thesis by (auto simp: list_ex_iff split: option.splits)
  qed
qed

lemma expiry_lb_None [simp]: "expiry_lb None {}"
  by (simp add: expiry_lb_def)

text \<open>
  The interface between the gate and the policy engine: when a decision is a grant, and until when. The
  gate's lemmas rest on this law alone.
\<close>

definition grant_condition ::
  "consent_policy \<Rightarrow> active_consent list \<Rightarrow> consent_request \<Rightarrow> timestamp \<Rightarrow> timestamp option \<Rightarrow> bool" where
  "grant_condition p cs a now x \<longleftrightarrow>
     (applicable p a = [] \<longrightarrow> \<not> deny_by_default p) \<and>
     (\<forall>req \<in> set (applicable p a). \<exists>c \<in> set cs. satisfies now req c) \<and>
     expiry_lb x (\<Union>req \<in> set (applicable p a). matching_expiries now req cs)"

locale consent_engine =
  fixes decide :: "consent_policy \<Rightarrow> active_consent list \<Rightarrow> consent_request \<Rightarrow> timestamp \<Rightarrow> consent_decision"
  assumes decide_granted: "decide p cs a now = Granted x \<longleftrightarrow> grant_condition p cs a now x"
begin

lemma grant_irrelevant:
  assumes "\<And>req. req \<in> set (applicable p a) \<Longrightarrow>
      {c \<in> set cs. satisfies now req c} = {c \<in> set cs'. satisfies now' req c}"
  shows "decide p cs a now = Granted x \<longleftrightarrow> decide p cs' a now' = Granted x"
proof -
  have "matching_expiries now req cs = matching_expiries now' req cs'"
    and "(\<exists>c \<in> set cs. satisfies now req c) \<longleftrightarrow> (\<exists>c \<in> set cs'. satisfies now' req c)"
    if "req \<in> set (applicable p a)" for req
    using assms [OF that] unfolding matching_expiries_def by blast+
  then show ?thesis by (simp add: decide_granted grant_condition_def)
qed

lemma grant_expiry_bounds:
  assumes "decide p cs a now = Granted x" "req \<in> set (applicable p a)" "c \<in> set cs" "satisfies now req c"
    "bl_expires (ac_bailment c) = Some e"
  shows "\<exists>t. x = Some t \<and> t \<le> e"
proof -
  have "expiry_lb x (\<Union>req \<in> set (applicable p a). matching_expiries now req cs)"
    using assms(1) by (simp add: decide_granted grant_condition_def)
  moreover have "e \<in> (\<Union>req \<in> set (applicable p a). matching_expiries now req cs)"
    using assms by (auto simp: matching_expiries_def)
  ultimately show ?thesis by (auto simp: expiry_lb_def split: option.splits)
qed

lemma grant_stable:
  assumes g: "decide p cs a now = Granted x" and le: "now \<le> now'" and ends: "\<And>t. x = Some t \<Longrightarrow> now' < t"
    and same: "\<And>c. bailment_is_active (ac_bailment c) now \<Longrightarrow> c \<in> set cs \<Longrightarrow>
      bailment_is_active (ac_bailment c) now' \<Longrightarrow> c \<in> set cs'"
    and sub: "set cs' \<subseteq> set cs"
  shows "decide p cs' a now' = Granted x"
proof -
  have "satisfies now req c \<and> c \<in> set cs \<longleftrightarrow> satisfies now' req c \<and> c \<in> set cs'"
    if req: "req \<in> set (applicable p a)" for req c
  proof
    assume c: "satisfies now req c \<and> c \<in> set cs"
    have "now' < e" if "bl_expires (ac_bailment c) = Some e" for e
      using grant_expiry_bounds [OF g req _ _ that] c ends by force
    then have "bailment_is_active (ac_bailment c) now'"
      using c by (auto simp: satisfies_def bailment_is_active_iff)
    then show "satisfies now' req c \<and> c \<in> set cs'" using c same by (auto simp: satisfies_def)
  next
    assume c: "satisfies now' req c \<and> c \<in> set cs'"
    then show "satisfies now req c \<and> c \<in> set cs"
      using sub le by (fastforce simp: satisfies_def bailment_is_active_iff)
  qed
  then have "decide p cs a now = Granted x \<longleftrightarrow> decide p cs' a now' = Granted x"
    by (intro grant_irrelevant) blast
  with g show ?thesis by simp
qed

end

interpretation engine: consent_engine evaluate
proof unfold_locales
  show "evaluate p cs a now = Granted x \<longleftrightarrow> grant_condition p cs a now x" for p cs a now x
    using evaluate_requirements_granted [OF expiry_lb_None, of cs now "applicable p a" x]
    by (auto simp: evaluate_def grant_condition_def expiry_lb_def split: option.splits)
qed

definition regs_of :: "consent_gate \<Rightarrow> did \<Rightarrow> consent_reg list" where
  "regs_of g actor = (case bm_get (gate_consents g) (did_str actor) of Some regs \<Rightarrow> regs | None \<Rightarrow> [])"

lemma set_active_consents:
  "set (active_consents g actor now) = {active_of r |r. r \<in> set (regs_of g actor) \<and> bailment_is_active (cr_bailment r) now}"
  by (auto simp: active_consents_def regs_of_def split: option.splits)

lemma ac_bailment_active_of [simp]: "ac_bailment (active_of r) = cr_bailment r"
  by (simp add: active_of_def)

lemma active_consents_satisfies:
  "(\<exists>c \<in> set (active_consents g actor now). satisfies now req c) \<longleftrightarrow>
     (\<exists>r \<in> set (regs_of g actor). satisfies now req (active_of r))"
  by (auto simp: set_active_consents satisfies_def)

lemma regs_of_revoke:
  "regs_of (revoke_by_bailment_id g bid) actor =
     filter (\<lambda>r. bailment_id (cr_bailment r) \<noteq> bid) (regs_of g actor)"
  by (auto simp: regs_of_def revoke_by_bailment_id_def split: option.splits)

text \<open>The requirements are met, or there is a first one that is not, which decides between escalation and denial.\<close>

lemma evaluate_requirements_unmet:
  assumes "\<forall>r \<in> set pre. list_ex (satisfies now r) cs" and "\<not> list_ex (satisfies now req) cs"
  shows "evaluate_requirements cs now (pre @ req # post) e =
    (case List.find (escalates now req) cs of
       Some c \<Rightarrow> Escalated (bailor_did (ac_bailment c)) | None \<Rightarrow> Denied (requirement_message req))"
  using assms by (induction pre arbitrary: e) simp_all

lemma first_unmet_or_all:
  "(\<forall>r \<in> set reqs. P r) \<or> (\<exists>pre req post. reqs = pre @ req # post \<and> (\<forall>r \<in> set pre. P r) \<and> \<not> P req)"
  using split_list_first_prop [of reqs "\<lambda>r. \<not> P r"] by blast

text \<open>The first consent of an actor, in the order of registration, through which a requirement escalates.\<close>

definition first_escalation :: "consent_gate \<Rightarrow> did \<Rightarrow> timestamp \<Rightarrow> consent_requirement \<Rightarrow> consent_reg option" where
  "first_escalation g actor now req = List.find (\<lambda>r. escalates now req (active_of r)) (regs_of g actor)"

lemma find_map_filter:
  "(\<And>x. P (f x) \<Longrightarrow> Q x) \<Longrightarrow> List.find P (map f (filter Q xs)) = map_option f (List.find (\<lambda>x. P (f x)) xs)"
  by (induction xs) auto

lemma find_escalation:
  "List.find (escalates now req) (active_consents g actor now) = map_option active_of (first_escalation g actor now req)"
proof -
  have "active_consents g actor now = map active_of (filter (\<lambda>r. bailment_is_active (cr_bailment r) now) (regs_of g actor))"
    by (simp add: active_consents_def regs_of_def split: option.splits)
  then show ?thesis
    unfolding first_escalation_def by (simp, intro find_map_filter) (auto simp: escalates_def)
qed

text \<open>The requirements of the policy for an action, those that a consent of the actor meets, and the decision.\<close>

definition requirements_for :: "consent_gate \<Rightarrow> string \<Rightarrow> consent_requirement list" where
  "requirements_for g action = filter (\<lambda>r. rq_action_type r = action) (required_consents (gate_policy g))"

definition requirement_met :: "consent_gate \<Rightarrow> did \<Rightarrow> timestamp \<Rightarrow> consent_requirement \<Rightarrow> bool" where
  "requirement_met g actor now req \<longleftrightarrow> (\<exists>r \<in> set (regs_of g actor). satisfies now req (active_of r))"

definition met_expiries :: "consent_gate \<Rightarrow> did \<Rightarrow> timestamp \<Rightarrow> string \<Rightarrow> timestamp set" where
  "met_expiries g actor now action =
     {e. \<exists>req \<in> set (requirements_for g action). \<exists>r \<in> set (regs_of g actor).
           satisfies now req (active_of r) \<and> bl_expires (cr_bailment r) = Some e}"

lemma list_ex_met: "list_ex (satisfies now req) (active_consents g actor now) \<longleftrightarrow> requirement_met g actor now req"
  by (simp add: list_ex_iff active_consents_satisfies requirement_met_def)

lemma met_expiries_matching:
  "met_expiries g actor now action =
     (\<Union>req \<in> set (requirements_for g action). matching_expiries now req (active_consents g actor now))"
proof -
  have "(\<exists>r \<in> set (regs_of g actor). satisfies now req (active_of r) \<and> bl_expires (cr_bailment r) = Some e) \<longleftrightarrow>
      (\<exists>c \<in> set (active_consents g actor now). satisfies now req c \<and> bl_expires (ac_bailment c) = Some e)" for req e
    unfolding set_active_consents by (auto simp: satisfies_def)
  then show ?thesis by (auto simp: met_expiries_def matching_expiries_def)
qed

lemma gate_check_eq:
  "gate_check g actor action now =
     (if requirements_for g action = []
      then if deny_by_default (gate_policy g)
           then Denied (''no policy covers action '' @ quoted action @ '' and deny_by_default is true'')
           else Granted None
      else evaluate_requirements (active_consents g actor now) now (requirements_for g action) None)"
  by (simp add: gate_check_def evaluate_def applicable_def requirements_for_def)

lemma gate_check_unmet:
  assumes "requirements_for g action = pre @ req # post" "\<forall>r \<in> set pre. requirement_met g actor now r"
    "\<not> requirement_met g actor now req"
  shows "gate_check g actor action now =
    (case first_escalation g actor now req of
       Some r \<Rightarrow> Escalated (bailor_did (cr_bailment r)) | None \<Rightarrow> Denied (requirement_message req))"
  using evaluate_requirements_unmet [of pre now "active_consents g actor now" req post None] assms
  by (simp add: gate_check_eq list_ex_met find_escalation split: option.splits)

lemma gate_check_met:
  assumes "requirements_for g action \<noteq> []" "\<forall>r \<in> set (requirements_for g action). requirement_met g actor now r"
  shows "\<exists>x. gate_check g actor action now = Granted x \<and> expiry_lb x (met_expiries g actor now action)"
proof -
  let ?T = "met_expiries g actor now action"
  have "?T \<subseteq> set (map (\<lambda>r. the (bl_expires (cr_bailment r))) (regs_of g actor))"
    by (force simp: met_expiries_def)
  then have "finite ?T" by (rule finite_subset) simp
  then have "expiry_lb (if ?T = {} then None else Some (Min ?T)) ?T" by (simp add: expiry_lb_def)
  then have "\<exists>x. expiry_lb x ?T" by (rule exI)
  moreover have "gate_check g actor action now = Granted x \<longleftrightarrow> expiry_lb x ?T" for x
    using assms evaluate_requirements_granted [OF expiry_lb_None, of "active_consents g actor now" now "requirements_for g action" x]
    by (simp add: gate_check_eq met_expiries_matching active_consents_satisfies requirement_met_def)
  ultimately show ?thesis by blast
qed

text \<open>
  C7: the decision of the gate, in every case. An action that no requirement of the policy covers is denied
  when the policy denies by default and granted otherwise. An action whose requirements are all met by
  consents registered for this actor, each with the role and the clearance asked for and an active bailment,
  is granted until the earliest expiry of the consents that meet them. Otherwise the first requirement that
  is not met decides: it is escalated to the bailor of the first active delegation bailment
  for this action, and denied when there is none. A revoked bailment no longer counts in any of this: the
  gate decides as if its consents had never been registered.
\<close>

theorem gate_grants_iff:
  "(case requirements_for g action of
      [] \<Rightarrow> gate_check g actor action now =
              (if deny_by_default (gate_policy g)
               then Denied (''no policy covers action '' @ quoted action @ '' and deny_by_default is true'')
               else Granted None)
    | _ # _ \<Rightarrow>
        (case List.find (\<lambda>req. \<not> requirement_met g actor now req) (requirements_for g action) of
           None \<Rightarrow> \<exists>x. gate_check g actor action now = Granted x \<and> expiry_lb x (met_expiries g actor now action)
         | Some req \<Rightarrow> gate_check g actor action now =
             (case first_escalation g actor now req of
                Some r \<Rightarrow> Escalated (bailor_did (cr_bailment r))
              | None \<Rightarrow> Denied (requirement_message req)))) \<and>
   regs_of (revoke_by_bailment_id g bid) d = filter (\<lambda>r. bailment_id (cr_bailment r) \<noteq> bid) (regs_of g d) \<and>
   gate_policy (revoke_by_bailment_id g bid) = gate_policy g"
proof -
  have "case List.find (\<lambda>req. \<not> requirement_met g actor now req) (requirements_for g action) of
      None \<Rightarrow> \<exists>x. gate_check g actor action now = Granted x \<and> expiry_lb x (met_expiries g actor now action)
    | Some req \<Rightarrow> gate_check g actor action now =
        (case first_escalation g actor now req of
           Some r \<Rightarrow> Escalated (bailor_did (cr_bailment r)) | None \<Rightarrow> Denied (requirement_message req))"
    if "requirements_for g action \<noteq> []"
  proof (cases "\<forall>r \<in> set (requirements_for g action). requirement_met g actor now r")
    case True
    then have "List.find (\<lambda>req. \<not> requirement_met g actor now req) (requirements_for g action) = None"
      by (simp add: find_None_iff)
    with gate_check_met [OF that True] show ?thesis by simp
  next
    case False
    with first_unmet_or_all [of "requirements_for g action" "requirement_met g actor now"] obtain pre req post
      where split: "requirements_for g action = pre @ req # post" "\<forall>r \<in> set pre. requirement_met g actor now r"
        "\<not> requirement_met g actor now req" by blast
    then have "List.find (\<lambda>req. \<not> requirement_met g actor now req) (requirements_for g action) = Some req"
      by (auto simp: find_Some_iff nth_append intro!: exI [of _ "length pre"])
    with gate_check_unmet [OF split] show ?thesis by simp
  qed
  moreover have "gate_check g actor action now =
      (if deny_by_default (gate_policy g)
       then Denied (''no policy covers action '' @ quoted action @ '' and deny_by_default is true'')
       else Granted None)" if "requirements_for g action = []"
    by (subst gate_check_eq, subst if_P [OF that], rule refl)
  moreover have "gate_policy (revoke_by_bailment_id g bid) = gate_policy g"
    by (simp add: revoke_by_bailment_id_def)
  ultimately show ?thesis
    by (cases "requirements_for g action") (simp_all only: regs_of_revoke list.case list.distinct simp_thms)
qed

text \<open>A gate with one requirement and one consent for the actor, backed by an active bailment.\<close>

definition sample_policy :: consent_policy where
  "sample_policy = \<lparr>policy_id = ''p'', policy_name = ''p'',
     required_consents = [\<lparr>rq_action_type = ''read'', required_role = ''owner'', min_clearance_level = 1\<rparr>],
     deny_by_default = True\<rparr>"

definition sample_gate :: consent_gate where
  "sample_gate = register_consent (gate_new sample_policy) (Did ''did:exo:b'') ''read'' ''owner'' 2
     (sample_bailment\<lparr>bl_signature := PostQuantum [1], bl_status := Active, bl_expires := Some (Timestamp 9 0)\<rparr>)"

lemma sample_gate_granted: "gate_check sample_gate (Did ''did:exo:b'') ''read'' (Timestamp 5 0) = Granted (Some (Timestamp 9 0))"
  by (simp add: sample_gate_def gate_new_def register_consent_def gate_check_def evaluate_def applicable_def
      sample_policy_def active_consents_def satisfies_def active_of_def bailment_is_active_iff less_timestamp_def
      sample_bailment_def bailment_propose_def)

text \<open>
  A grant holds until the time it names. When the gate grants an action, it keeps granting it, with the same
  expiry, at every later time before that expiry (at every later time when none is given), as long as
  the gate is not changed.
\<close>

theorem grant_holds_until_expiry:
  assumes "gate_check g actor action now = Granted x" and "now \<le> now'" and "\<forall>t. x = Some t \<longrightarrow> now' < t"
  shows "gate_check g actor action now' = Granted x"
  unfolding gate_check_def
proof (rule engine.grant_stable [OF assms(1) [unfolded gate_check_def] assms(2)])
  show "set (active_consents g actor now') \<subseteq> set (active_consents g actor now)"
    using assms(2) by (fastforce simp: set_active_consents bailment_is_active_iff)
qed (use assms(3) in \<open>auto simp: set_active_consents\<close>)

theorem grant_holds_until_expiry_witness:
  "gate_check sample_gate (Did ''did:exo:b'') ''read'' (Timestamp 8 3) = Granted (Some (Timestamp 9 0))"
  by (rule grant_holds_until_expiry [OF sample_gate_granted])
     (auto simp: less_eq_timestamp_def less_timestamp_def)

end
