(* ===== verification/Gate_Invariants.thy ===== *)
theory Gate_Invariants
  imports Crypto
begin

text \<open>
  The constitutional invariants: \<open>src/crates/exo-gatekeeper/src/types.rs\<close> and \<open>invariants.rs\<close>. Every check
  returns the violation with its description and evidence, as in the code. The branches of an actor are
  collected in a \<open>HashSet\<close>, whose iteration order (it shows in one evidence string only) is unspecified: it is
  the argument \<open>iter_order\<close>.
\<close>

section \<open>Governance types\<close>

datatype gate_permission = GatePermission string

record gate_permission_set =
  gp_permissions :: "gate_permission list"

definition gps_contains :: "gate_permission_set \<Rightarrow> gate_permission \<Rightarrow> bool" where
  "gps_contains s p \<longleftrightarrow> p \<in> set (gp_permissions s)"

definition gps_is_empty :: "gate_permission_set \<Rightarrow> bool" where
  "gps_is_empty s \<longleftrightarrow> gp_permissions s = []"

datatype government_branch = Legislative | Executive | Judicial

record role =
  role_name :: string
  role_branch :: government_branch

datatype bailment_state =
    NoBailment
  | ActiveBailment (bs_bailor: did) (bs_bailee: did) (bs_scope: string)
  | SuspendedBailment (bs_reason: string)
  | TerminatedBailment

definition bs_is_active :: "bailment_state \<Rightarrow> bool" where
  "bs_is_active s = (case s of ActiveBailment _ _ _ \<Rightarrow> True | _ \<Rightarrow> False)"

record consent_record =
  cn_subject :: did
  cn_granted_to :: did
  cn_scope :: string
  cn_active :: bool

record gate_link =
  gl_grantor :: did
  gl_grantee :: did
  gl_permissions :: gate_permission_set
  gl_signature :: bytes
  grantor_public_key :: "bytes option"

record gate_chain =
  gc_links :: "gate_link list"

definition gc_is_empty :: "gate_chain \<Rightarrow> bool" where
  "gc_is_empty c \<longleftrightarrow> gc_links c = []"

definition gc_depth :: "gate_chain \<Rightarrow> nat" where
  "gc_depth c = length (gc_links c)"

record quorum_vote =
  qv_voter :: did
  qv_approved :: bool
  qv_signature :: bytes

record quorum_evidence =
  qe_threshold :: u32
  qe_votes :: "quorum_vote list"

text \<open>\<open>u32::try_from(n).unwrap_or(u32::MAX)\<close>.\<close>

definition u32_saturate :: "nat \<Rightarrow> u32" where
  "u32_saturate n = (if n < 2 ^ 32 then of_nat n else - 1)"

definition quorum_is_met :: "quorum_evidence \<Rightarrow> bool" where
  "quorum_is_met q \<longleftrightarrow> qe_threshold q \<le> u32_saturate (length (filter qv_approved (qe_votes q)))"

record provenance =
  pv_actor :: did
  pv_timestamp :: string
  pv_action_hash :: bytes
  pv_signature :: bytes

definition pv_is_signed :: "provenance \<Rightarrow> bool" where
  "pv_is_signed p \<longleftrightarrow> pv_signature p \<noteq> []"

section \<open>Printing\<close>

text \<open>The derived \<open>Debug\<close> of the types that occur in evidence strings.\<close>

fun branch_name :: "government_branch \<Rightarrow> string" where
  "branch_name Legislative = ''Legislative''"
| "branch_name Executive = ''Executive''"
| "branch_name Judicial = ''Judicial''"

fun join_with :: "string \<Rightarrow> string list \<Rightarrow> string" where
  "join_with sep [] = []"
| "join_with sep [s] = s"
| "join_with sep (s # t # ss) = s @ sep @ join_with sep (t # ss)"

definition debug_role :: "role \<Rightarrow> string" where
  "debug_role r = ''Role { name: '' @ debug_string (role_name r) @ '', branch: '' @ branch_name (role_branch r) @ '' }''"

definition debug_bailment_state :: "bailment_state \<Rightarrow> string" where
  "debug_bailment_state s = (case s of
     NoBailment \<Rightarrow> ''None''
   | ActiveBailment a b sc \<Rightarrow>
       ''Active { bailor: '' @ debug_did a @ '', bailee: '' @ debug_did b @ '', scope: '' @ debug_string sc @ '' }''
   | SuspendedBailment r \<Rightarrow> ''Suspended { reason: '' @ debug_string r @ '' }''
   | TerminatedBailment \<Rightarrow> ''Terminated'')"

section \<open>Invariants\<close>

datatype constitutional_invariant =
    SeparationOfPowers
  | ConsentRequiredInv
  | NoSelfGrant
  | HumanOverride
  | KernelImmutability
  | AuthorityChainValid
  | QuorumLegitimate
  | ProvenanceVerifiable

definition gate_invariants_all :: "constitutional_invariant list" where
  "gate_invariants_all =
     [SeparationOfPowers, ConsentRequiredInv, NoSelfGrant, HumanOverride, KernelImmutability,
      AuthorityChainValid, QuorumLegitimate, ProvenanceVerifiable]"

record gate_context =
  gx_actor :: did
  gx_actor_roles :: "role list"
  gx_bailment_state :: bailment_state
  gx_consent_records :: "consent_record list"
  gx_authority_chain :: gate_chain
  gx_is_self_grant :: bool
  gx_human_override_preserved :: bool
  gx_kernel_modification_attempted :: bool
  gx_quorum_evidence :: "quorum_evidence option"
  gx_provenance :: "provenance option"
  gx_actor_permissions :: gate_permission_set
  gx_requested_permissions :: gate_permission_set

record gate_violation =
  gv_invariant :: constitutional_invariant
  gv_description :: string
  gv_evidence :: "string list"

abbreviation violation :: "constitutional_invariant \<Rightarrow> string \<Rightarrow> string list \<Rightarrow> (unit, gate_violation) result" where
  "violation i d ev \<equiv> Err \<lparr>gv_invariant = i, gv_description = d, gv_evidence = ev\<rparr>"

type_synonym branch_order = "government_branch list \<Rightarrow> government_branch list"

definition check_separation_of_powers :: "branch_order \<Rightarrow> gate_context \<Rightarrow> (unit, gate_violation) result" where
  "check_separation_of_powers iter_order ctx =
     (let branches = remdups (map role_branch (gx_actor_roles ctx)) in
      if Legislative \<in> set branches \<and> Executive \<in> set branches \<and> Judicial \<in> set branches
      then violation SeparationOfPowers ''Actor holds roles in all three branches of government''
             [''actor: '' @ did_str (gx_actor ctx),
              ''roles: ['' @ join_with '', '' (map debug_role (gx_actor_roles ctx)) @ '']'']
      else if length branches > 1
      then violation SeparationOfPowers ''Actor holds roles in multiple branches of government''
             [''actor: '' @ did_str (gx_actor ctx),
              ''branches: {'' @ join_with '', '' (map branch_name (iter_order branches)) @ ''}'']
      else Ok ())"

definition check_consent_required :: "gate_context \<Rightarrow> (unit, gate_violation) result" where
  "check_consent_required ctx =
     (if \<not> bs_is_active (gx_bailment_state ctx)
      then violation ConsentRequiredInv ''No active bailment for this action''
             [''bailment_state: '' @ debug_bailment_state (gx_bailment_state ctx)]
      else if \<not> list_ex (\<lambda>c. cn_granted_to c = gx_actor ctx \<and> cn_active c) (gx_consent_records ctx)
      then violation ConsentRequiredInv ''No active consent record for actor''
             [''actor: '' @ did_str (gx_actor ctx),
              ''records: '' @ show_nat (length (gx_consent_records ctx))]
      else Ok ())"

definition check_no_self_grant :: "gate_context \<Rightarrow> (unit, gate_violation) result" where
  "check_no_self_grant ctx =
     (if gx_is_self_grant ctx
      then violation NoSelfGrant ''Actor attempted to expand own permissions'' [''actor: '' @ did_str (gx_actor ctx)]
      else Ok ())"

definition check_human_override :: "gate_context \<Rightarrow> (unit, gate_violation) result" where
  "check_human_override ctx =
     (if \<not> gx_human_override_preserved ctx
      then violation HumanOverride ''Human override capability is not preserved'' [''human_override_preserved: false'']
      else Ok ())"

definition check_kernel_immutability :: "gate_context \<Rightarrow> (unit, gate_violation) result" where
  "check_kernel_immutability ctx =
     (if gx_kernel_modification_attempted ctx
      then violation KernelImmutability ''Attempted to modify immutable kernel configuration''
             [''kernel_modification_attempted: true'']
      else Ok ())"

text \<open>One round of the topology loop, on the link at an index and the next one.\<close>

definition check_link_gap :: "gate_link list \<Rightarrow> nat \<Rightarrow> (unit, gate_violation) result" where
  "check_link_gap links i =
     (if gl_grantee (links ! i) \<noteq> gl_grantor (links ! (i + 1))
      then violation AuthorityChainValid (''Authority chain is broken '' @ em_dash @ '' delegation gap'')
             [''link['' @ show_nat i @ ''].grantee: '' @ did_str (gl_grantee (links ! i)),
              ''link['' @ show_nat (i + 1) @ ''].grantor: '' @ did_str (gl_grantor (links ! (i + 1)))]
      else Ok ())"

definition link_payload :: "gate_link \<Rightarrow> bytes" where
  "link_payload l =
     str_bytes (did_str (gl_grantor l)) @ [0] @ str_bytes (did_str (gl_grantee l)) @ [0] @
     concat (map (\<lambda>p. case p of GatePermission s \<Rightarrow> str_bytes s @ [0]) (gp_permissions (gl_permissions l)))"

text \<open>One round of the signature loop.\<close>

definition check_link_signature ::
  "crypto_prims \<Rightarrow> blake3 \<Rightarrow> nat \<times> gate_link \<Rightarrow> (unit, gate_violation) result" where
  "check_link_signature prims blake3 = (\<lambda>(idx, link).
     let at = ''link['' @ show_nat idx @ '']'' in
     case grantor_public_key link of
       Some pk_bytes \<Rightarrow>
         (case try_arr32 pk_bytes of
            None \<Rightarrow> violation AuthorityChainValid (at @ '' grantor_public_key is not 32 bytes'')
                      [''key_len: '' @ show_nat (length pk_bytes)]
          | Some pk \<Rightarrow>
         (case try_arr64 (gl_signature link) of
            None \<Rightarrow> violation AuthorityChainValid (at @ '' signature is not 64 bytes (required for Ed25519)'')
                      [''sig_len: '' @ show_nat (length (gl_signature link))]
          | Some s \<Rightarrow>
              if \<not> verify prims (hash_bytes (digest blake3 (link_payload link))) (sig_from_bytes s) (PublicKey pk)
              then violation AuthorityChainValid (at @ '' Ed25519 signature is cryptographically invalid'')
                     [''grantor: '' @ did_str (gl_grantor link), ''grantee: '' @ did_str (gl_grantee link)]
              else Ok ()))
     | None \<Rightarrow>
         if gl_signature link = []
         then violation AuthorityChainValid (at @ '' has empty signature'') [''grantor: '' @ did_str (gl_grantor link)]
         else Ok ())"

definition check_authority_chain_valid ::
  "crypto_prims \<Rightarrow> blake3 \<Rightarrow> gate_context \<Rightarrow> (unit, gate_violation) result" where
  "check_authority_chain_valid prims blake3 ctx =
     (let links = gc_links (gx_authority_chain ctx) in
      if gc_is_empty (gx_authority_chain ctx)
      then violation AuthorityChainValid (''Authority chain is empty '' @ em_dash @ '' no delegation path'')
             [''authority_chain: empty'']
      else and_then (for_check (check_link_gap links) [0..<length links - 1]) (\<lambda>_.
        if gl_grantee (last links) \<noteq> gx_actor ctx
        then violation AuthorityChainValid ''Authority chain does not terminate at actor''
               [''terminal: '' @ did_str (gl_grantee (last links)), ''actor: '' @ did_str (gx_actor ctx)]
        else for_check (check_link_signature prims blake3) (enumerate0 links)))"

definition check_quorum_legitimate :: "gate_context \<Rightarrow> (unit, gate_violation) result" where
  "check_quorum_legitimate ctx = (case gx_quorum_evidence ctx of
     None \<Rightarrow> Ok ()
   | Some ev \<Rightarrow>
       if \<not> quorum_is_met ev
       then violation QuorumLegitimate ''Quorum threshold not met''
              [''threshold: '' @ show_nat (unat (qe_threshold ev)),
               ''approvals: '' @ show_nat (length (filter qv_approved (qe_votes ev)))]
       else Ok ())"

definition check_provenance_verifiable :: "gate_context \<Rightarrow> (unit, gate_violation) result" where
  "check_provenance_verifiable ctx = (case gx_provenance ctx of
     None \<Rightarrow> violation ProvenanceVerifiable ''No provenance metadata provided'' [''provenance: None'']
   | Some prov \<Rightarrow>
       if \<not> pv_is_signed prov
       then violation ProvenanceVerifiable ''Provenance metadata is not signed'' [''actor: '' @ did_str (pv_actor prov)]
       else if pv_actor prov \<noteq> gx_actor ctx
       then violation ProvenanceVerifiable ''Provenance actor does not match request actor''
              [''provenance.actor: '' @ did_str (pv_actor prov), ''context.actor: '' @ did_str (gx_actor ctx)]
       else Ok ())"

fun check_invariant ::
  "crypto_prims \<Rightarrow> blake3 \<Rightarrow> branch_order \<Rightarrow> constitutional_invariant \<Rightarrow> gate_context \<Rightarrow> (unit, gate_violation) result" where
  "check_invariant prims blake3 iter_order SeparationOfPowers ctx = check_separation_of_powers iter_order ctx"
| "check_invariant prims blake3 iter_order ConsentRequiredInv ctx = check_consent_required ctx"
| "check_invariant prims blake3 iter_order NoSelfGrant ctx = check_no_self_grant ctx"
| "check_invariant prims blake3 iter_order HumanOverride ctx = check_human_override ctx"
| "check_invariant prims blake3 iter_order KernelImmutability ctx = check_kernel_immutability ctx"
| "check_invariant prims blake3 iter_order AuthorityChainValid ctx = check_authority_chain_valid prims blake3 ctx"
| "check_invariant prims blake3 iter_order QuorumLegitimate ctx = check_quorum_legitimate ctx"
| "check_invariant prims blake3 iter_order ProvenanceVerifiable ctx = check_provenance_verifiable ctx"

definition enforce_all ::
  "crypto_prims \<Rightarrow> blake3 \<Rightarrow> branch_order \<Rightarrow> constitutional_invariant list \<Rightarrow> gate_context \<Rightarrow>
     (unit, gate_violation list) result" where
  "enforce_all prims blake3 iter_order invs ctx =
     (let violations = concat (map (\<lambda>i. case check_invariant prims blake3 iter_order i ctx of
                                          Inl v \<Rightarrow> [v] | Inr _ \<Rightarrow> []) invs)
      in if violations = [] then Ok () else Err violations)"

section \<open>What the invariants say\<close>

text \<open>The abstract reading of each invariant, without messages and loops.\<close>

definition link_authentic :: "crypto_prims \<Rightarrow> blake3 \<Rightarrow> gate_link \<Rightarrow> bool" where
  "link_authentic prims blake3 l \<longleftrightarrow> (case grantor_public_key l of
     None \<Rightarrow> gl_signature l \<noteq> []
   | Some k \<Rightarrow> length k = 32 \<and> length (gl_signature l) = 64 \<and>
       verify prims (hash_bytes (digest blake3 (link_payload l)))
         (sig_from_bytes (arr64_of (gl_signature l))) (PublicKey (arr32_of k)))"

definition chain_connected :: "gate_link list \<Rightarrow> bool" where
  "chain_connected links \<longleftrightarrow>
     (\<forall>i. Suc i < length links \<longrightarrow> gl_grantee (links ! i) = gl_grantor (links ! Suc i))"

fun invariant_holds :: "crypto_prims \<Rightarrow> blake3 \<Rightarrow> constitutional_invariant \<Rightarrow> gate_context \<Rightarrow> bool" where
  "invariant_holds prims blake3 SeparationOfPowers ctx \<longleftrightarrow>
     (\<forall>r \<in> set (gx_actor_roles ctx). \<forall>r' \<in> set (gx_actor_roles ctx). role_branch r = role_branch r')"
| "invariant_holds prims blake3 ConsentRequiredInv ctx \<longleftrightarrow>
     bs_is_active (gx_bailment_state ctx) \<and>
     (\<exists>c \<in> set (gx_consent_records ctx). cn_granted_to c = gx_actor ctx \<and> cn_active c)"
| "invariant_holds prims blake3 NoSelfGrant ctx \<longleftrightarrow> \<not> gx_is_self_grant ctx"
| "invariant_holds prims blake3 HumanOverride ctx \<longleftrightarrow> gx_human_override_preserved ctx"
| "invariant_holds prims blake3 KernelImmutability ctx \<longleftrightarrow> \<not> gx_kernel_modification_attempted ctx"
| "invariant_holds prims blake3 AuthorityChainValid ctx \<longleftrightarrow>
     (let links = gc_links (gx_authority_chain ctx)
      in links \<noteq> [] \<and> chain_connected links \<and> gl_grantee (last links) = gx_actor ctx \<and>
         (\<forall>l \<in> set links. link_authentic prims blake3 l))"
| "invariant_holds prims blake3 QuorumLegitimate ctx \<longleftrightarrow>
     (\<forall>q. gx_quorum_evidence ctx = Some q \<longrightarrow> unat (qe_threshold q) \<le> length (filter qv_approved (qe_votes q)))"
| "invariant_holds prims blake3 ProvenanceVerifiable ctx \<longleftrightarrow>
     (\<exists>p. gx_provenance ctx = Some p \<and> pv_signature p \<noteq> [] \<and> pv_actor p = gx_actor ctx)"

lemma quorum_is_met_iff: "quorum_is_met q \<longleftrightarrow> unat (qe_threshold q) \<le> length (filter qv_approved (qe_votes q))"
proof -
  have "unat (qe_threshold q) < 2 ^ 32" using unsigned_less [of "qe_threshold q"] by simp
  then show ?thesis
    by (auto simp: quorum_is_met_def u32_saturate_def word_le_nat_alt unat_of_nat unat_minus_one_word_exp)
qed

lemma length_remdups_le_1:
  "length (remdups xs) \<le> 1 \<longleftrightarrow> (\<forall>x \<in> set xs. \<forall>y \<in> set xs. x = y)"
  by (auto simp: length_remdups_card_conv card_le_Suc0_iff_eq)

lemma check_separation_of_powers_iff:
  "check_separation_of_powers iter_order ctx = Inr () \<longleftrightarrow> invariant_holds prims blake3 SeparationOfPowers ctx"
proof -
  let ?bs = "map role_branch (gx_actor_roles ctx)"
  have "check_separation_of_powers iter_order ctx = Inr () \<longleftrightarrow> length (remdups ?bs) \<le> 1"
  proof (cases "length (remdups ?bs) \<le> 1")
    case True
    then have "\<not> (Legislative \<in> set ?bs \<and> Executive \<in> set ?bs)"
      unfolding length_remdups_le_1 by (metis government_branch.distinct(1))
    with True show ?thesis by (auto simp: check_separation_of_powers_def Let_def)
  qed (auto simp: check_separation_of_powers_def Let_def)
  also have "\<dots> \<longleftrightarrow> invariant_holds prims blake3 SeparationOfPowers ctx"
    unfolding length_remdups_le_1 by auto
  finally show ?thesis .
qed

lemma check_link_signature_iff:
  "check_link_signature prims blake3 (i, l) = Inr () \<longleftrightarrow> link_authentic prims blake3 l"
  by (auto simp: check_link_signature_def link_authentic_def Let_def try_arr32_def try_arr64_def split: option.splits)

lemma check_link_gap_iff:
  "check_link_gap links i = Inr () \<longleftrightarrow> gl_grantee (links ! i) = gl_grantor (links ! Suc i)"
  by (simp add: check_link_gap_def)

lemma check_authority_chain_valid_iff:
  "check_authority_chain_valid prims blake3 ctx = Inr () \<longleftrightarrow> invariant_holds prims blake3 AuthorityChainValid ctx"
proof -
  let ?links = "gc_links (gx_authority_chain ctx)"
  have gaps: "for_check (check_link_gap ?links) [0..<length ?links - 1] = Inr () \<longleftrightarrow> chain_connected ?links"
    by (auto simp: for_check_Ok check_link_gap_iff chain_connected_def)
  have sigs: "for_check (check_link_signature prims blake3) (enumerate0 ?links) = Inr () \<longleftrightarrow>
      (\<forall>l \<in> set ?links. link_authentic prims blake3 l)"
    unfolding for_check_Ok Ball_enumerate0 check_link_signature_iff by (metis in_set_conv_nth)
  show ?thesis
    unfolding check_authority_chain_valid_def invariant_holds.simps Let_def gc_is_empty_def
    using gaps sigs by (auto simp: and_then_eq_Ok)
qed

lemma check_invariant_iff:
  "check_invariant prims blake3 iter_order i ctx = Inr () \<longleftrightarrow> invariant_holds prims blake3 i ctx"
proof (cases i)
  case SeparationOfPowers
  then show ?thesis using check_separation_of_powers_iff by (simp del: invariant_holds.simps)
next
  case AuthorityChainValid
  then show ?thesis using check_authority_chain_valid_iff by (simp del: invariant_holds.simps)
qed (auto simp: check_consent_required_def list_ex_iff check_no_self_grant_def check_human_override_def
    check_kernel_immutability_def check_quorum_legitimate_def quorum_is_met_iff
    check_provenance_verifiable_def pv_is_signed_def split: option.splits)

text \<open>A violation names the invariant that was checked.\<close>

lemma for_check_all_Err: "for_check f xs = Inl e \<Longrightarrow> (\<And>x e. f x = Inl e \<Longrightarrow> P e) \<Longrightarrow> P e"
  by (auto dest: for_check_ErrD)

lemma check_invariant_names:
  "check_invariant prims blake3 iter_order i ctx = Inl v \<Longrightarrow> gv_invariant v = i"
proof (cases i)
  case AuthorityChainValid
  assume err: "check_invariant prims blake3 iter_order i ctx = Inl v"
  have gap: "check_link_gap links n = Inl w \<Longrightarrow> gv_invariant w = AuthorityChainValid" for links n w
    by (auto simp: check_link_gap_def split: if_splits)
  have sgn: "check_link_signature prims blake3 x = Inl w \<Longrightarrow> gv_invariant w = AuthorityChainValid" for x w
    by (cases x) (auto simp: check_link_signature_def Let_def split: if_splits option.splits)
  let ?links = "gc_links (gx_authority_chain ctx)"
  show ?thesis
  proof (cases "for_check (check_link_gap ?links) [0..<length ?links - 1]")
    case (Inl w)
    then show ?thesis using err AuthorityChainValid for_check_all_Err [OF Inl gap]
      by (auto simp: check_authority_chain_valid_def Let_def split: if_splits)
  next
    case (Inr u)
    then show ?thesis
      using err AuthorityChainValid for_check_all_Err [where f = "check_link_signature prims blake3", OF _ sgn]
      by (auto simp: check_authority_chain_valid_def Let_def split: if_splits)
  qed
qed (auto simp: check_separation_of_powers_def check_consent_required_def check_no_self_grant_def
    check_human_override_def check_kernel_immutability_def check_quorum_legitimate_def
    check_provenance_verifiable_def Let_def split: option.splits if_splits)

text \<open>The report lists the violated invariants, in the order of the set.\<close>

lemma enforce_all_Ok:
  "enforce_all prims blake3 iter_order invs ctx = Inr () \<longleftrightarrow> (\<forall>i \<in> set invs. invariant_holds prims blake3 i ctx)"
  unfolding enforce_all_def Let_def
  by (auto simp: check_invariant_iff [of prims blake3 iter_order, symmetric] split: sum.splits)
     (metis old.sum.exhaust old.unit.exhaust)

lemma enforce_all_Err:
  assumes "enforce_all prims blake3 iter_order invs ctx = Inl vs"
  shows "map gv_invariant vs = filter (\<lambda>i. \<not> invariant_holds prims blake3 i ctx) invs"
proof -
  let ?f = "\<lambda>i. case check_invariant prims blake3 iter_order i ctx of Inl v \<Rightarrow> [v] | Inr _ \<Rightarrow> []"
  have one: "map gv_invariant (?f i) = (if invariant_holds prims blake3 i ctx then [] else [i])" for i
    using check_invariant_iff [of prims blake3 iter_order i ctx] check_invariant_names [of prims blake3 iter_order i ctx]
    by (auto split: sum.splits)
  have "vs = concat (map ?f invs)" using assms by (auto simp: enforce_all_def Let_def split: if_splits)
  moreover have "map gv_invariant (concat (map ?f is)) = filter (\<lambda>i. \<not> invariant_holds prims blake3 i ctx) is" for "is"
    by (induction "is") (simp_all add: one)
  ultimately show ?thesis by simp
qed

end
