(* ===== verification/Kernel.thy ===== *)
theory Kernel
  imports Gate_Invariants
begin

text \<open>
  The adjudication kernel, \<open>src/crates/exo-gatekeeper/src/kernel.rs\<close>: it checks every invariant of its set and
  turns the violations into a verdict.
\<close>

datatype verdict =
    Permitted
  | VerdictDenied "gate_violation list"
  | VerdictEscalated string

definition is_permitted :: "verdict \<Rightarrow> bool" where
  "is_permitted v = (case v of Permitted \<Rightarrow> True | _ \<Rightarrow> False)"

definition is_denied :: "verdict \<Rightarrow> bool" where
  "is_denied v = (case v of VerdictDenied _ \<Rightarrow> True | _ \<Rightarrow> False)"

record action_request =
  ar_actor :: did
  ar_action :: string
  ar_required_permissions :: gate_permission_set
  ar_is_self_grant :: bool
  ar_modifies_kernel :: bool

record adjudication_context =
  ad_actor_roles :: "role list"
  ad_authority_chain :: gate_chain
  ad_consent_records :: "consent_record list"
  ad_bailment_state :: bailment_state
  ad_human_override_preserved :: bool
  ad_actor_permissions :: gate_permission_set
  ad_provenance :: "provenance option"
  ad_quorum_evidence :: "quorum_evidence option"

record kernel =
  constitution_hash :: arr32
  kernel_invariants :: "constitutional_invariant list"

definition kernel_new :: "blake3 \<Rightarrow> bytes \<Rightarrow> constitutional_invariant list \<Rightarrow> kernel" where
  "kernel_new blake3 constitution invs = \<lparr>constitution_hash = blake3 constitution, kernel_invariants = invs\<rparr>"

definition inv_context :: "action_request \<Rightarrow> adjudication_context \<Rightarrow> gate_context" where
  "inv_context action context =
     \<lparr>gx_actor = ar_actor action,
      gx_actor_roles = ad_actor_roles context,
      gx_bailment_state = ad_bailment_state context,
      gx_consent_records = ad_consent_records context,
      gx_authority_chain = ad_authority_chain context,
      gx_is_self_grant = ar_is_self_grant action,
      gx_human_override_preserved = ad_human_override_preserved context,
      gx_kernel_modification_attempted = ar_modifies_kernel action,
      gx_quorum_evidence = ad_quorum_evidence context,
      gx_provenance = ad_provenance context,
      gx_actor_permissions = ad_actor_permissions context,
      gx_requested_permissions = ar_required_permissions action\<rparr>"

definition adjudicate ::
  "crypto_prims \<Rightarrow> blake3 \<Rightarrow> branch_order \<Rightarrow> kernel \<Rightarrow> action_request \<Rightarrow> adjudication_context \<Rightarrow> verdict" where
  "adjudicate prims blake3 iter_order k action context =
     (case enforce_all prims blake3 iter_order (kernel_invariants k) (inv_context action context) of
        Inr _ \<Rightarrow> Permitted
      | Inl violations \<Rightarrow>
          (let needs_escalation =
                 list_ex (\<lambda>v. gv_invariant v = QuorumLegitimate \<or> gv_invariant v = AuthorityChainValid) violations
           in if needs_escalation \<and> length violations = 1
              then VerdictEscalated (gv_description (violations ! 0))
              else VerdictDenied violations))"

definition verify_kernel_integrity :: "blake3 \<Rightarrow> kernel \<Rightarrow> bytes \<Rightarrow> bool" where
  "verify_kernel_integrity blake3 k constitution \<longleftrightarrow> blake3 constitution = constitution_hash k"

section \<open>The verdict\<close>

text \<open>The invariants of the kernel that a request violates, in order.\<close>

definition violated :: "crypto_prims \<Rightarrow> blake3 \<Rightarrow> kernel \<Rightarrow> action_request \<Rightarrow> adjudication_context \<Rightarrow>
    constitutional_invariant list" where
  "violated prims blake3 k action context =
     filter (\<lambda>i. \<not> invariant_holds prims blake3 i (inv_context action context)) (kernel_invariants k)"

lemma enforce_all_cases:
  "(enforce_all prims blake3 iter_order (kernel_invariants k) (inv_context a c) = Inr () \<and> violated prims blake3 k a c = []) \<or>
   (\<exists>vs. enforce_all prims blake3 iter_order (kernel_invariants k) (inv_context a c) = Inl vs \<and> vs \<noteq> [] \<and>
      map gv_invariant vs = violated prims blake3 k a c)"
proof (cases "enforce_all prims blake3 iter_order (kernel_invariants k) (inv_context a c)")
  case (Inl vs)
  moreover have "vs \<noteq> []" using Inl by (auto simp: enforce_all_def Let_def split: if_splits)
  ultimately show ?thesis
    using enforce_all_Err [OF Inl] unfolding violated_def by blast
next
  case (Inr u)
  then have "enforce_all prims blake3 iter_order (kernel_invariants k) (inv_context a c) = Inr ()" by simp
  moreover from this have "violated prims blake3 k a c = []"
    unfolding violated_def enforce_all_Ok filter_empty_conv by blast
  ultimately show ?thesis by blast
qed

text \<open>
  C2: the verdict of the kernel. An action is permitted exactly when every invariant of the kernel's set holds for
  it; it is escalated exactly when one invariant is violated and this is the quorum or the authority chain; in
  every other case it is denied, with one violation for each invariant that does not hold, in their order. The
  verdict on the invariants does not depend on the iteration order of the branch set.
\<close>

theorem adjudicate_correct:
  "case adjudicate prims blake3 iter_order k a c of
     Permitted \<Rightarrow> violated prims blake3 k a c = []
   | VerdictEscalated _ \<Rightarrow> violated prims blake3 k a c \<in> {[QuorumLegitimate], [AuthorityChainValid]}
   | VerdictDenied vs \<Rightarrow>
       map gv_invariant vs = violated prims blake3 k a c \<and>
       violated prims blake3 k a c \<notin> {[], [QuorumLegitimate], [AuthorityChainValid]}"
  using enforce_all_cases [of prims blake3 iter_order k a c]
proof
  assume "\<exists>vs. enforce_all prims blake3 iter_order (kernel_invariants k) (inv_context a c) = Inl vs \<and>
    vs \<noteq> [] \<and> map gv_invariant vs = violated prims blake3 k a c"
  then obtain vs where vs: "enforce_all prims blake3 iter_order (kernel_invariants k) (inv_context a c) = Inl vs"
    "vs \<noteq> []" and m: "violated prims blake3 k a c = map gv_invariant vs" by metis
  show ?thesis
  proof (cases "length vs = 1")
    case True
    then obtain v where "vs = [v]" by (cases vs) auto
    with vs m show ?thesis by (simp add: adjudicate_def)
  next
    case False
    then have "length (violated prims blake3 k a c) \<noteq> 1" using m by simp
    then have "violated prims blake3 k a c \<notin> {[QuorumLegitimate], [AuthorityChainValid]}" by auto
    with vs m False show ?thesis by (simp add: adjudicate_def)
  qed
qed (simp add: adjudicate_def)

lemma adjudicate_permitted_iff:
  "adjudicate prims blake3 iter_order k a c = Permitted \<longleftrightarrow> violated prims blake3 k a c = []"
  using enforce_all_cases [of prims blake3 iter_order k a c]
proof
  assume "\<exists>vs. enforce_all prims blake3 iter_order (kernel_invariants k) (inv_context a c) = Inl vs \<and>
    vs \<noteq> [] \<and> map gv_invariant vs = violated prims blake3 k a c"
  then obtain vs where "enforce_all prims blake3 iter_order (kernel_invariants k) (inv_context a c) = Inl vs"
    "vs \<noteq> []" and m: "violated prims blake3 k a c = map gv_invariant vs" by metis
  then show ?thesis by (simp add: adjudicate_def)
qed (simp add: adjudicate_def)

lemma adjudicate_denied_iff:
  "(\<exists>vs. adjudicate prims blake3 iter_order k a c = VerdictDenied vs) \<longleftrightarrow>
     violated prims blake3 k a c \<notin> {[], [QuorumLegitimate], [AuthorityChainValid]}"
  using enforce_all_cases [of prims blake3 iter_order k a c]
proof
  assume "\<exists>vs. enforce_all prims blake3 iter_order (kernel_invariants k) (inv_context a c) = Inl vs \<and>
    vs \<noteq> [] \<and> map gv_invariant vs = violated prims blake3 k a c"
  then obtain v vs where "enforce_all prims blake3 iter_order (kernel_invariants k) (inv_context a c) = Inl (v # vs)"
    and m: "violated prims blake3 k a c = map gv_invariant (v # vs)" by (metis list.exhaust)
  then show ?thesis by (cases vs) (simp_all add: adjudicate_def)
qed (simp add: adjudicate_def)

text \<open>
  The full set of invariants, spelled out: what a permitted action has shown.
\<close>

lemma permitted_all:
  assumes "adjudicate prims blake3 iter_order (kernel_new blake3 con gate_invariants_all) a c = Permitted"
  shows "(\<forall>r \<in> set (ad_actor_roles c). \<forall>r' \<in> set (ad_actor_roles c). role_branch r = role_branch r') \<and>
    bs_is_active (ad_bailment_state c) \<and>
    (\<exists>cr \<in> set (ad_consent_records c). cn_granted_to cr = ar_actor a \<and> cn_active cr) \<and>
    \<not> ar_is_self_grant a \<and> ad_human_override_preserved c \<and> \<not> ar_modifies_kernel a \<and>
    chain_connected (gc_links (ad_authority_chain c)) \<and> gc_links (ad_authority_chain c) \<noteq> [] \<and>
    gl_grantee (last (gc_links (ad_authority_chain c))) = ar_actor a"
proof -
  have "\<forall>i \<in> set gate_invariants_all. invariant_holds prims blake3 i (inv_context a c)"
    using assms unfolding adjudicate_permitted_iff violated_def kernel_new_def
    by (simp only: filter_empty_conv kernel.select_convs not_not)
  moreover have "i \<in> set gate_invariants_all" for i by (cases i) (simp_all add: gate_invariants_all_def)
  ultimately have h: "invariant_holds prims blake3 i (inv_context a c)" for i by blast
  have "\<forall>r \<in> set (ad_actor_roles c). \<forall>r' \<in> set (ad_actor_roles c). role_branch r = role_branch r'"
    using h [of SeparationOfPowers] by (simp only: invariant_holds.simps inv_context_def gate_context.select_convs)
  moreover note h [of ConsentRequiredInv] h [of NoSelfGrant] h [of HumanOverride] h [of KernelImmutability]
    h [of AuthorityChainValid]
  ultimately show ?thesis
    by (simp only: invariant_holds.simps inv_context_def gate_context.select_convs Let_def simp_thms)
qed

text \<open>
  No invariant reads the permissions: what an action requires and what its actor holds do not change the verdict.
\<close>

lemma invariant_ignores_permissions:
  "invariant_holds prims blake3 i (ctx\<lparr>gx_actor_permissions := p, gx_requested_permissions := q\<rparr>) =
     invariant_holds prims blake3 i ctx"
  by (cases i) simp_all

text \<open>Nor does the quorum distinguish the voters: the same vote counts as often as it is listed.\<close>

lemma quorum_counts_repetitions:
  "quorum_is_met \<lparr>qe_threshold = 3, qe_votes = replicate 3 \<lparr>qv_voter = d, qv_approved = True, qv_signature = []\<rparr>\<rparr>"
  by (simp add: quorum_is_met_iff)

lemma kernel_integrity:
  "verify_kernel_integrity blake3 (kernel_new blake3 con invs) con' \<longleftrightarrow> blake3 con' = blake3 con"
  by (simp add: verify_kernel_integrity_def kernel_new_def)

end
