(* ===== verification/Combinator.thy ===== *)
theory Combinator
  imports Core_Types
begin

text \<open>
  The combinator algebra, \<open>src/crates/exo-gatekeeper/src/combinator.rs\<close>, with the error type of the crate
  (\<open>error.rs\<close>). \<open>reduce\<close> is translated with its loops over sub-terms as functions of their own; a reference
  semantics on partial maps, without messages and checkpoints, specifies it.
\<close>

section \<open>Errors\<close>

datatype gatekeeper_error =
    KernelIntegrityFailure string string
  | GateInvariantViolation string
  | CombinatorError string
  | HolonError string
  | McpViolationErr string
  | TeeError string
  | CapabilityDenied string
  | TimeoutErr u64
  | CheckpointError string
  | CoreErr string
  | McpAuditChainBroken nat

fun gate_error_msg :: "gatekeeper_error \<Rightarrow> string" where
  "gate_error_msg (KernelIntegrityFailure e a) = ''kernel integrity check failed: expected '' @ e @ '', got '' @ a"
| "gate_error_msg (GateInvariantViolation s) = ''invariant violation: '' @ s"
| "gate_error_msg (CombinatorError s) = ''combinator reduction failed: '' @ s"
| "gate_error_msg (HolonError s) = ''holon error: '' @ s"
| "gate_error_msg (McpViolationErr s) = ''MCP violation: '' @ s"
| "gate_error_msg (TeeError s) = ''TEE attestation failed: '' @ s"
| "gate_error_msg (CapabilityDenied s) = ''capability denied: '' @ s"
| "gate_error_msg (TimeoutErr ms) = ''timeout after '' @ show_nat (unat ms) @ '' ms''"
| "gate_error_msg (CheckpointError s) = ''checkpoint error: '' @ s"
| "gate_error_msg (CoreErr s) = ''core error: '' @ s"
| "gate_error_msg (McpAuditChainBroken i) = ''MCP audit chain broken at index '' @ show_nat i"

section \<open>Terms\<close>

type_synonym fields = "(string, string) btree_map"

record combinator_input =
  in_fields :: fields

datatype checkpoint_id = CheckpointId string

record combinator_output =
  out_fields :: fields
  out_checkpoint :: "checkpoint_id option"

record predicate =
  pred_name :: string
  required_key :: string
  expected_value :: "string option"

record transform_fn =
  tf_name :: string
  output_key :: string
  output_value :: string

record retry_policy =
  max_retries :: u32
  current_attempt :: u32

datatype combinator =
    Identity
  | Sequence "combinator list"
  | Parallel "combinator list"
  | Choice "combinator list"
  | Guard combinator predicate
  | Transform combinator transform_fn
  | Retry combinator retry_policy
  | Timeout combinator u64
  | Checkpoint combinator checkpoint_id

definition pred_evaluate :: "predicate \<Rightarrow> combinator_input \<Rightarrow> bool" where
  "pred_evaluate p input = (case bm_get (in_fields input) (required_key p) of
     None \<Rightarrow> False
   | Some v \<Rightarrow> (case expected_value p of None \<Rightarrow> True | Some e \<Rightarrow> v = e))"

definition ci_new :: combinator_input where
  "ci_new = \<lparr>in_fields = bm_empty\<rparr>"

definition ci_set :: "combinator_input \<Rightarrow> string \<Rightarrow> string \<Rightarrow> combinator_input" where
  "ci_set i k v = i\<lparr>in_fields := bm_insert k v (in_fields i)\<rparr>"

definition ci_with :: "combinator_input \<Rightarrow> string \<Rightarrow> string \<Rightarrow> combinator_input" where
  "ci_with i k v = ci_set i k v"

definition from_input :: "combinator_input \<Rightarrow> combinator_output" where
  "from_input i = \<lparr>out_fields = in_fields i, out_checkpoint = None\<rparr>"

definition co_set :: "combinator_output \<Rightarrow> string \<Rightarrow> string \<Rightarrow> combinator_output" where
  "co_set out k v = out\<lparr>out_fields := bm_insert k v (out_fields out)\<rparr>"

definition co_merge :: "combinator_output \<Rightarrow> combinator_output \<Rightarrow> combinator_output" where
  "co_merge out other =
     \<lparr>out_fields = fold (\<lambda>(k, v) m. bm_insert k v m) (entries (out_fields other)) (out_fields out),
      out_checkpoint = (if out_checkpoint other \<noteq> None then out_checkpoint other else out_checkpoint out)\<rparr>"

section \<open>Reduction\<close>

type_synonym reduction = "(combinator_output, gatekeeper_error) result"

text \<open>
  The loop over the attempts \<open>attempt..=max\<close>: the inner reduction is pure, so that each attempt has the same result \<open>r\<close>.
\<close>

function retry_loop :: "reduction \<Rightarrow> nat \<Rightarrow> nat \<Rightarrow> gatekeeper_error option \<Rightarrow> reduction" where
  "retry_loop r attempt mx last_err =
     (if mx < attempt
      then Err (case last_err of Some e \<Rightarrow> e | None \<Rightarrow> CombinatorError ''Retry exhausted'')
      else case r of
             Inr out \<Rightarrow> Ok (co_set out ''retry_attempts'' (show_nat attempt))
           | Inl e \<Rightarrow> retry_loop r (attempt + 1) mx (Some e))"
  by pat_completeness auto

termination
  by (relation "measure (\<lambda>(r, attempt, mx, e). Suc mx - attempt)") auto

declare retry_loop.simps [simp del]

fun reduce :: "combinator \<Rightarrow> combinator_input \<Rightarrow> reduction"
  and sequence_loop :: "nat \<Rightarrow> combinator list \<Rightarrow> combinator_input \<Rightarrow> combinator_output \<Rightarrow> reduction"
  and parallel_loop :: "nat \<Rightarrow> combinator list \<Rightarrow> combinator_input \<Rightarrow> combinator_output \<Rightarrow> reduction"
  and choice_loop :: "combinator list \<Rightarrow> combinator_input \<Rightarrow> reduction"
where
  "reduce Identity input = Ok (from_input input)"
| "reduce (Sequence cs) input = sequence_loop 0 cs input (from_input input)"
| "reduce (Parallel cs) input = parallel_loop 0 cs input (from_input input)"
| "reduce (Choice cs) input = choice_loop cs input"
| "reduce (Guard c p) input =
     (if \<not> pred_evaluate p input
      then Err (CombinatorError (''Guard predicate '' @ [CHR 0x27] @ pred_name p @ [CHR 0x27] @ '' failed''))
      else reduce c input)"
| "reduce (Transform c t) input =
     and_then (reduce c input) (\<lambda>out. Ok (co_set out (output_key t) (output_value t)))"
| "reduce (Retry c pol) input = retry_loop (reduce c input) 0 (unat (max_retries pol)) None"
| "reduce (Timeout c d) input =
     and_then (reduce c input) (\<lambda>out. Ok (co_set out ''timeout_budget_ms'' (show_nat (unat d))))"
| "reduce (Checkpoint c cid) input =
     and_then (reduce c input) (\<lambda>out. Ok (out\<lparr>out_checkpoint := Some cid\<rparr>))"
| "sequence_loop i [] current_input last_output = Ok last_output"
| "sequence_loop i (c # cs) current_input last_output =
     (case reduce c current_input of
        Inr out \<Rightarrow> sequence_loop (i + 1) cs \<lparr>in_fields = out_fields out\<rparr> out
      | Inl e \<Rightarrow> Err (CombinatorError (''Sequence step '' @ show_nat i @ '' failed: '' @ gate_error_msg e)))"
| "parallel_loop i [] input merged = Ok merged"
| "parallel_loop i (c # cs) input merged =
     (case reduce c input of
        Inr out \<Rightarrow> parallel_loop (i + 1) cs input (co_merge merged out)
      | Inl e \<Rightarrow> Err (CombinatorError (''Parallel branch '' @ show_nat i @ '' failed: '' @ gate_error_msg e)))"
| "choice_loop [] input = Err (CombinatorError ''Choice: all alternatives failed'')"
| "choice_loop (c # cs) input =
     (case reduce c input of Inr out \<Rightarrow> Ok out | Inl _ \<Rightarrow> choice_loop cs input)"

section \<open>Reference semantics\<close>

text \<open>
  A term denotes a partial function on field maps: a sequence is the composition of its steps, a parallel term
  runs every branch on the same fields and overrides from left to right, a choice is its first alternative that is
  defined, a retry is its term with the count 0.
\<close>

type_synonym field_map = "string \<rightharpoonup> string"

fun denote :: "combinator \<Rightarrow> field_map \<Rightarrow> field_map option"
  and denote_seq :: "combinator list \<Rightarrow> field_map \<Rightarrow> field_map option"
  and denote_par :: "combinator list \<Rightarrow> field_map \<Rightarrow> field_map \<Rightarrow> field_map option"
  and denote_alt :: "combinator list \<Rightarrow> field_map \<Rightarrow> field_map option"
where
  "denote Identity m = Some m"
| "denote (Sequence cs) m = denote_seq cs m"
| "denote (Parallel cs) m = denote_par cs m m"
| "denote (Choice cs) m = denote_alt cs m"
| "denote (Guard c p) m =
     (if m (required_key p) \<noteq> None \<and> (expected_value p = None \<or> m (required_key p) = expected_value p)
      then denote c m else None)"
| "denote (Transform c t) m = map_option (\<lambda>n. n(output_key t \<mapsto> output_value t)) (denote c m)"
| "denote (Retry c pol) m = map_option (\<lambda>n. n(''retry_attempts'' \<mapsto> ''0'')) (denote c m)"
| "denote (Timeout c d) m = map_option (\<lambda>n. n(''timeout_budget_ms'' \<mapsto> show_nat (unat d))) (denote c m)"
| "denote (Checkpoint c cid) m = denote c m"
| "denote_seq [] m = Some m"
| "denote_seq (c # cs) m = Option.bind (denote c m) (denote_seq cs)"
| "denote_par [] m acc = Some acc"
| "denote_par (c # cs) m acc = Option.bind (denote c m) (\<lambda>n. denote_par cs m (acc ++ n))"
| "denote_alt [] m = None"
| "denote_alt (c # cs) m = (case denote c m of Some n \<Rightarrow> Some n | None \<Rightarrow> denote_alt cs m)"

definition out_map :: "reduction \<Rightarrow> field_map option" where
  "out_map r = (case r of Inr out \<Rightarrow> Some (bm_get (out_fields out)) | Inl _ \<Rightarrow> None)"

lemma out_map_simps [simp]:
  "out_map (Inl e) = None"
  "out_map (Inr out) = Some (bm_get (out_fields out))"
  by (simp_all add: out_map_def)

lemma out_map_eq_Some: "out_map r = Some m \<longleftrightarrow> (\<exists>out. r = Inr out \<and> bm_get (out_fields out) = m)"
  by (cases r) auto

lemma show_nat_0: "show_nat 0 = ''0''"
  by code_simp

lemma retry_loop_Inr: "attempt \<le> mx \<Longrightarrow> retry_loop (Inr out) attempt mx le = Ok (co_set out ''retry_attempts'' (show_nat attempt))"
  by (subst retry_loop.simps) simp

lemma retry_loop_Inl: "attempt \<le> Suc mx \<Longrightarrow> (attempt \<noteq> 0 \<longrightarrow> le = Some e) \<Longrightarrow> retry_loop (Inl e) attempt mx le = Err e"
proof (induction "Suc mx - attempt" arbitrary: attempt le)
  case 0
  then show ?case by (subst retry_loop.simps) auto
next
  case (Suc n)
  then have "retry_loop (Inl e) (attempt + 1) mx (Some e) = Err e" by (intro Suc.hyps(1)) auto
  with Suc show ?case by (subst retry_loop.simps) auto
qed

lemma bm_get_fold_insert:
  "bm_get (fold (\<lambda>(k, v) m. bm_insert k v m) es m) = bm_get m ++ map_of (rev es)"
proof (induction es arbitrary: m)
  case (Cons e es)
  then show ?case by (cases e) (auto simp: fun_eq_iff map_add_def split: option.splits)
qed simp

lemma map_of_rev_entries: "map_of (rev (entries m)) = bm_get m"
proof -
  have "map_of (rev (entries m)) = map_of (entries m)"
    by (subst map_of_inject_set) (simp_all flip: rev_map)
  then show ?thesis by (simp add: bm_get.rep_eq)
qed

lemma out_fields_merge: "bm_get (out_fields (co_merge a b)) = bm_get (out_fields a) ++ bm_get (out_fields b)"
  by (simp add: co_merge_def bm_get_fold_insert map_of_rev_entries)

lemma out_fields_set [simp]: "bm_get (out_fields (co_set out k v)) = (bm_get (out_fields out))(k \<mapsto> v)"
  by (auto simp: co_set_def)

lemma out_map_and_then:
  "out_map (and_then r (\<lambda>out. Ok (co_set out k v))) = map_option (\<lambda>n. n(k \<mapsto> v)) (out_map r)"
  by (cases r) auto

lemma reduce_denotes:
  "out_map (reduce c input) = denote c (bm_get (in_fields input))"
  "bm_get (out_fields last_output) = bm_get (in_fields input) \<Longrightarrow>
     out_map (sequence_loop i cs input last_output) = denote_seq cs (bm_get (in_fields input))"
  "out_map (parallel_loop i cs input merged) = denote_par cs (bm_get (in_fields input)) (bm_get (out_fields merged))"
  "out_map (choice_loop cs input) = denote_alt cs (bm_get (in_fields input))"
proof (induction c input and i cs input last_output and i cs input merged and cs input
    rule: reduce_sequence_loop_parallel_loop_choice_loop.induct)
  case (5 c p input)
  then show ?case by (auto simp: pred_evaluate_def split: option.splits)
next
  case (7 c pol input)
  then show ?case
    by (cases "reduce c input") (auto simp: retry_loop_Inr retry_loop_Inl show_nat_0 dest!: sym [of "None"] sym [of "Some _"])
next
  case (9 c cid input)
  then show ?case by (cases "reduce c input") auto
next
  case (11 i c cs input last_output)
  then show ?case by (cases "reduce c input") (auto dest!: sym [of "None"] sym [of "Some _"])
next
  case (13 i c cs input merged)
  then show ?case by (cases "reduce c input") (auto simp: out_fields_merge dest!: sym [of "None"] sym [of "Some _"])
next
  case (15 c cs input)
  then show ?case by (cases "reduce c input") (auto dest!: sym [of "None"] sym [of "Some _"])
qed (simp_all add: from_input_def out_map_and_then)

text \<open>A reduction that succeeds keeps every field of its input (with a value that may differ).\<close>

lemma denote_keeps:
  "denote c m = Some n \<Longrightarrow> dom m \<subseteq> dom n"
  "denote_seq cs m = Some n \<Longrightarrow> dom m \<subseteq> dom n"
  "denote_par cs m acc = Some n \<Longrightarrow> dom acc \<subseteq> dom n"
  "denote_alt cs m = Some n \<Longrightarrow> dom m \<subseteq> dom n"
proof (induction c m and cs m and cs m acc and cs m arbitrary: n and n and n and n
    rule: denote_denote_seq_denote_par_denote_alt.induct)
  case (5 c p m)
  then show ?case by (simp split: if_splits)
next
  case (11 c cs m)
  then obtain n' where "denote c m = Some n'" "denote_seq cs n' = Some n" by (auto simp: bind_eq_Some_conv)
  then show ?case using 11(1) [of n'] 11(2) [of n' n] by (meson order_trans)
next
  case (13 c cs m acc)
  then obtain n' where "denote c m = Some n'" "denote_par cs m (acc ++ n') = Some n" by (auto simp: bind_eq_Some_conv)
  then show ?case using 13(2) [of n' n] by simp
next
  case (15 c cs m)
  then show ?case by (simp split: option.splits)
qed fastforce+

text \<open>
  C17: the reduction implements the reference semantics. It succeeds exactly when the reference is defined and
  then yields its fields; a success has a value for every key of the input; and a retry of a term
  succeeds exactly where the term does, with the field \<open>retry_attempts\<close> added, and otherwise fails
  with the same error.
\<close>

theorem reduce_refines_denotation:
  "out_map (reduce c input) = denote c (bm_get (in_fields input)) \<and>
   (case reduce c input of Inr out \<Rightarrow> dom (bm_get (in_fields input)) \<subseteq> dom (bm_get (out_fields out)) | Inl _ \<Rightarrow> True) \<and>
   (case reduce c input of
      Inr out \<Rightarrow> reduce (Retry c pol) input = Ok (co_set out ''retry_attempts'' ''0'')
    | Inl e \<Rightarrow> reduce (Retry c pol) input = Err e)"
  using reduce_denotes(1) [of c input] denote_keeps(1) [of c "bm_get (in_fields input)"]
  by (cases "reduce c input") (simp_all add: retry_loop_Inr retry_loop_Inl show_nat_0)

end
