(* ===== verification/Holon.thy ===== *)
theory Holon
  imports Kernel Combinator
begin

text \<open>
  The agent runtime, \<open>src/crates/exo-gatekeeper/src/holon.rs\<close>: a holon runs its program one step at a time under
  the kernel's adjudication, and can be suspended and resumed. The operations mutate the holon also when
  they fail, so they return it together with the result.
\<close>

datatype holon_state = HIdle | HExecuting | HSuspended | HTerminated

record holon_checkpoint =
  cp_id :: checkpoint_id
  cp_holon_id :: did
  cp_state :: holon_state
  cp_last_output :: "combinator_output option"

record holon =
  holon_id :: did
  capabilities :: gate_permission_set
  holon_state :: holon_state
  combinator_chain :: combinator
  last_output :: "combinator_output option"

definition spawn :: "did \<Rightarrow> gate_permission_set \<Rightarrow> combinator \<Rightarrow> holon" where
  "spawn i caps program =
     \<lparr>holon_id = i, capabilities = caps, holon_state = HIdle, combinator_chain = program, last_output = None\<rparr>"

definition step_request :: "holon \<Rightarrow> action_request" where
  "step_request h =
     \<lparr>ar_actor = holon_id h, ar_action = ''holon_step'', ar_required_permissions = capabilities h,
      ar_is_self_grant = False, ar_modifies_kernel = False\<rparr>"

definition holon_step ::
  "crypto_prims \<Rightarrow> blake3 \<Rightarrow> branch_order \<Rightarrow> kernel \<Rightarrow> holon \<Rightarrow> combinator_input \<Rightarrow> adjudication_context \<Rightarrow>
     holon \<times> (combinator_output, gatekeeper_error) result" where
  "holon_step prims blake3 iter_order k h input ctx =
     (case holon_state h of
        HTerminated \<Rightarrow> (h, Err (HolonError ''Cannot step a terminated holon''))
      | HSuspended \<Rightarrow> (h, Err (HolonError (''Cannot step a suspended holon '' @ em_dash @ '' resume first'')))
      | _ \<Rightarrow>
         (case adjudicate prims blake3 iter_order k (step_request h) ctx of
            VerdictDenied violations \<Rightarrow>
              (h\<lparr>holon_state := HTerminated\<rparr>,
               Err (CapabilityDenied (join_with ''; '' (map gv_description violations))))
          | VerdictEscalated reason \<Rightarrow>
              (h\<lparr>holon_state := HSuspended\<rparr>, Err (HolonError (''Step escalated: '' @ reason)))
          | Permitted \<Rightarrow>
              (let h = h\<lparr>holon_state := HExecuting\<rparr>
               in case reduce (combinator_chain h) input of
                    Inl e \<Rightarrow> (h, Err e)
                  | Inr out \<Rightarrow> (h\<lparr>last_output := Some out, holon_state := HIdle\<rparr>, Ok out))))"

definition suspend :: "holon \<Rightarrow> holon \<times> (holon_checkpoint, gatekeeper_error) result" where
  "suspend h =
     (if holon_state h = HTerminated then (h, Err (HolonError ''Cannot suspend a terminated holon''))
      else let h = h\<lparr>holon_state := HSuspended\<rparr>
           in (h, Ok \<lparr>cp_id = CheckpointId (''checkpoint-'' @ did_str (holon_id h)), cp_holon_id = holon_id h,
                      cp_state = holon_state h, cp_last_output = last_output h\<rparr>))"

definition resume :: "holon \<Rightarrow> holon_checkpoint \<Rightarrow> holon \<times> (unit, gatekeeper_error) result" where
  "resume h c =
     (if holon_state h \<noteq> HSuspended then (h, Err (HolonError ''Can only resume a suspended holon''))
      else if cp_holon_id c \<noteq> holon_id h then (h, Err (CheckpointError ''Checkpoint holon ID does not match''))
      else (h\<lparr>last_output := cp_last_output c, holon_state := HIdle\<rparr>, Ok ()))"

section \<open>Runs\<close>

text \<open>What a caller can do with a holon, and the output of the step when there is one.\<close>

datatype holon_op =
    OpStep combinator_input adjudication_context
  | OpSuspend
  | OpResume holon_checkpoint

fun holon_apply ::
  "crypto_prims \<Rightarrow> blake3 \<Rightarrow> branch_order \<Rightarrow> kernel \<Rightarrow> holon_op \<Rightarrow> holon \<Rightarrow> holon \<times> combinator_output option" where
  "holon_apply prims blake3 iter_order k (OpStep input ctx) h =
     (case holon_step prims blake3 iter_order k h input ctx of (h', Inr out) \<Rightarrow> (h', Some out) | (h', Inl _) \<Rightarrow> (h', None))"
| "holon_apply prims blake3 iter_order k OpSuspend h = (fst (suspend h), None)"
| "holon_apply prims blake3 iter_order k (OpResume c) h = (fst (resume h c), None)"

fun holon_run ::
  "crypto_prims \<Rightarrow> blake3 \<Rightarrow> branch_order \<Rightarrow> kernel \<Rightarrow> holon_op list \<Rightarrow> holon \<Rightarrow> holon \<times> combinator_output list" where
  "holon_run prims blake3 iter_order k [] h = (h, [])"
| "holon_run prims blake3 iter_order k (op # ops) h =
     (let (h1, o1) = holon_apply prims blake3 iter_order k op h;
          (h2, os) = holon_run prims blake3 iter_order k ops h1
      in (h2, (case o1 of Some x \<Rightarrow> x # os | None \<Rightarrow> os)))"

lemma holon_apply_terminated:
  "holon_state h = HTerminated \<Longrightarrow> holon_apply prims blake3 iter_order k op h = (h, None)"
  by (cases op) (auto simp: holon_step_def suspend_def resume_def)

lemma holon_run_terminated:
  "holon_state h = HTerminated \<Longrightarrow> holon_run prims blake3 iter_order k ops h = (h, [])"
  by (induction ops) (auto simp: holon_apply_terminated)

text \<open>No operation changes the identity, the capabilities or the program.\<close>

lemma holon_apply_fixed:
  assumes "holon_apply prims blake3 iter_order k op h = (h', out)"
  shows "holon_id h' = holon_id h \<and> capabilities h' = capabilities h \<and> combinator_chain h' = combinator_chain h"
  using assms
  by (cases op) (auto simp: holon_step_def suspend_def resume_def Let_def
      split: holon_state.splits verdict.splits sum.splits if_splits prod.splits)

lemma holon_apply_output:
  assumes "holon_apply prims blake3 iter_order k op h = (h', Some out)"
  shows "\<exists>input ctx. op = OpStep input ctx \<and> holon_state h \<in> {HIdle, HExecuting} \<and>
           adjudicate prims blake3 iter_order k (step_request h) ctx = Permitted \<and>
           reduce (combinator_chain h) input = Ok out"
  using assms
  by (cases op) (auto simp: holon_step_def Let_def
      split: holon_state.splits verdict.splits sum.splits if_splits prod.splits)

text \<open>The outputs of a run, with the request and the program of the first state.\<close>

lemma holon_run_outputs:
  assumes "holon_run prims blake3 iter_order k ops h = (h', os)" and "out \<in> set os"
  shows "\<exists>input ctx. OpStep input ctx \<in> set ops \<and>
           violated prims blake3 k (step_request h) ctx = [] \<and> reduce (combinator_chain h) input = Ok out"
  using assms
proof (induction ops arbitrary: h h' os)
  case (Cons op ops)
  obtain h1 o1 where 1: "holon_apply prims blake3 iter_order k op h = (h1, o1)" by fastforce
  obtain h2 os2 where 2: "holon_run prims blake3 iter_order k ops h1 = (h2, os2)" by fastforce
  have same: "step_request h1 = step_request h" "combinator_chain h1 = combinator_chain h"
    using holon_apply_fixed [OF 1] by (simp_all add: step_request_def)
  have os: "os = (case o1 of Some x \<Rightarrow> x # os2 | None \<Rightarrow> os2)" using Cons.prems(1) 1 2 by simp
  show ?case
  proof (cases "o1 = Some out")
    case True
    then show ?thesis
      using holon_apply_output [of prims blake3 iter_order k op h h1 out] 1 by (auto simp: adjudicate_permitted_iff)
  next
    case False
    then have "out \<in> set os2" using Cons.prems(2) os by (auto split: option.splits)
    then show ?thesis using Cons.IH [OF 2] same by auto
  qed
qed simp

lemma holon_denied_terminates:
  assumes "holon_state h \<in> {HIdle, HExecuting}"
    and "violated prims blake3 k (step_request h) ctx \<notin> {[], [QuorumLegitimate], [AuthorityChainValid]}"
  shows "holon_state (fst (holon_apply prims blake3 iter_order k (OpStep input ctx) h)) = HTerminated"
proof -
  have "\<exists>vs. adjudicate prims blake3 iter_order k (step_request h) ctx = VerdictDenied vs"
    using adjudicate_denied_iff [of prims blake3 iter_order k "step_request h" ctx] assms(2) by blast
  then show ?thesis using assms(1) by (auto simp: holon_step_def)
qed

text \<open>
  C8: no step without the kernel. Every output that a sequence of operations on a spawned holon produces is the
  result of its program in a step whose request violates no invariant of the kernel. After a step that the
  kernel denies, the holon is terminated, and no later operation changes it or produces an output.
\<close>

theorem holon_runs_under_kernel:
  assumes "holon_run prims blake3 iter_order k ops (spawn i caps program) = (h, outs)"
  shows "(\<forall>out \<in> set outs. \<exists>input ctx. OpStep input ctx \<in> set ops \<and>
            violated prims blake3 k (step_request (spawn i caps program)) ctx = [] \<and> reduce program input = Ok out) \<and>
         (holon_state h \<in> {HIdle, HExecuting} \<and>
          violated prims blake3 k (step_request h) ctx \<notin> {[], [QuorumLegitimate], [AuthorityChainValid]} \<longrightarrow>
            (let h' = fst (holon_apply prims blake3 iter_order k (OpStep input ctx) h)
             in holon_state h' = HTerminated \<and> holon_run prims blake3 iter_order k ops' h' = (h', [])))"
proof -
  have "\<exists>input ctx. OpStep input ctx \<in> set ops \<and>
      violated prims blake3 k (step_request (spawn i caps program)) ctx = [] \<and> reduce program input = Ok out"
    if "out \<in> set outs" for out
    using holon_run_outputs [OF assms that] by (simp add: spawn_def)
  moreover have "let h' = fst (holon_apply prims blake3 iter_order k (OpStep input ctx) h)
             in holon_state h' = HTerminated \<and> holon_run prims blake3 iter_order k ops' h' = (h', [])"
    if "holon_state h \<in> {HIdle, HExecuting} \<and>
      violated prims blake3 k (step_request h) ctx \<notin> {[], [QuorumLegitimate], [AuthorityChainValid]}"
    using that holon_denied_terminates [of h prims blake3 k ctx iter_order input]
    unfolding Let_def by (simp only: holon_run_terminated simp_thms)
  ultimately show ?thesis by blast
qed

text \<open>A kernel with one invariant, a holon that fails it.\<close>

definition sample_context :: "bool \<Rightarrow> adjudication_context" where
  "sample_context override =
     \<lparr>ad_actor_roles = [], ad_authority_chain = \<lparr>gc_links = []\<rparr>, ad_consent_records = [],
      ad_bailment_state = NoBailment, ad_human_override_preserved = override,
      ad_actor_permissions = \<lparr>gp_permissions = []\<rparr>, ad_provenance = None, ad_quorum_evidence = None\<rparr>"

definition sample_kernel :: kernel where
  "sample_kernel = kernel_new (\<lambda>_. arr32_of []) [] [HumanOverride]"

theorem holon_runs_under_kernel_witness:
  "holon_run toy_prims (\<lambda>_. arr32_of []) (\<lambda>bs. bs) sample_kernel [OpSuspend]
     (fst (holon_apply toy_prims (\<lambda>_. arr32_of []) (\<lambda>bs. bs) sample_kernel
        (OpStep ci_new (sample_context False)) (spawn (Did ''did:exo:h'') \<lparr>gp_permissions = []\<rparr> Identity))) =
   (fst (holon_apply toy_prims (\<lambda>_. arr32_of []) (\<lambda>bs. bs) sample_kernel
        (OpStep ci_new (sample_context False)) (spawn (Did ''did:exo:h'') \<lparr>gp_permissions = []\<rparr> Identity)), [])"
proof -
  let ?h = "spawn (Did ''did:exo:h'') \<lparr>gp_permissions = []\<rparr> Identity"
  have r: "holon_run toy_prims (\<lambda>_. arr32_of []) (\<lambda>bs. bs) sample_kernel [] ?h = (?h, [])" by simp
  have v: "violated toy_prims (\<lambda>_. arr32_of []) sample_kernel (step_request ?h) (sample_context False) = [HumanOverride]"
    by (simp add: violated_def sample_kernel_def kernel_new_def inv_context_def sample_context_def)
  show ?thesis
    using holon_runs_under_kernel [OF r, of "sample_context False" ci_new "[OpSuspend]"] v
    by (simp add: Let_def spawn_def del: holon_run.simps holon_apply.simps)
qed

text \<open>
  A step whose program fails leaves the holon in the executing state, and a checkpoint may carry any output: \<open>resume\<close>
  compares the identity only.
\<close>

lemma failed_step_stays_executing:
  assumes "holon_state h = HIdle" "adjudicate prims blake3 iter_order k (step_request h) ctx = Permitted"
    "reduce (combinator_chain h) input = Err e"
  shows "holon_step prims blake3 iter_order k h input ctx = (h\<lparr>holon_state := HExecuting\<rparr>, Err e)"
  using assms by (simp add: holon_step_def)

lemma resume_trusts_checkpoint:
  assumes "holon_state h = HSuspended" "cp_holon_id c = holon_id h"
  shows "last_output (fst (resume h c)) = cp_last_output c"
  using assms by (simp add: resume_def)

end
