(* ===== verification/Hash_Log.thy ===== *)
theory Hash_Log
  imports Core_Types
begin

text \<open>
  Hash-chained logs: every record carries the hash of the one before it. Two crates have such a log of their own
  (\<open>exo-gatekeeper/src/mcp_audit.rs\<close> and \<open>exo-governance/src/audit.rs\<close>); the locale \<open>hash_log\<close> states what both
  provide and proves what follows from it once.
\<close>

section \<open>Linked lists of records\<close>

text \<open>The hash of the last record, zero for an empty log.\<close>

definition log_head :: "('r \<Rightarrow> arr32) \<Rightarrow> 'r list \<Rightarrow> arr32" where
  "log_head hash rs = (if rs = [] then arr32_of [] else hash (last rs))"

fun linked_from :: "('r \<Rightarrow> arr32) \<Rightarrow> ('r \<Rightarrow> arr32) \<Rightarrow> arr32 \<Rightarrow> 'r list \<Rightarrow> bool" where
  "linked_from prev hash h [] \<longleftrightarrow> True"
| "linked_from prev hash h (r # rs) \<longleftrightarrow> prev r = h \<and> linked_from prev hash (hash r) rs"

abbreviation linked :: "('r \<Rightarrow> arr32) \<Rightarrow> ('r \<Rightarrow> arr32) \<Rightarrow> 'r list \<Rightarrow> bool" where
  "linked prev hash \<equiv> linked_from prev hash (arr32_of [])"

lemma linked_from_snoc:
  "linked_from prev hash h (rs @ [r]) \<longleftrightarrow>
     linked_from prev hash h rs \<and> prev r = (if rs = [] then h else hash (last rs))"
  by (induction rs arbitrary: h) auto

lemma linked_snoc [simp]: "linked prev hash (rs @ [r]) \<longleftrightarrow> linked prev hash rs \<and> prev r = log_head hash rs"
  by (simp add: linked_from_snoc log_head_def)

lemma log_head_snoc [simp]: "log_head hash (rs @ [r]) = hash r"
  by (simp add: log_head_def)

text \<open>The verification loop of both crates: the index of the first record that does not continue the chain.\<close>

fun first_break :: "('r \<Rightarrow> arr32) \<Rightarrow> ('r \<Rightarrow> arr32) \<Rightarrow> nat \<Rightarrow> arr32 \<Rightarrow> 'r list \<Rightarrow> nat option" where
  "first_break prev hash i h [] = None"
| "first_break prev hash i h (r # rs) = (if prev r \<noteq> h then Some i else first_break prev hash (i + 1) (hash r) rs)"

lemma first_break_None: "first_break prev hash i h rs = None \<longleftrightarrow> linked_from prev hash h rs"
  by (induction rs arbitrary: i h) auto

lemma first_break_Some:
  "first_break prev hash i h rs = Some j \<Longrightarrow>
     i \<le> j \<and> j < i + length rs \<and> linked_from prev hash h (take (j - i) rs) \<and>
     \<not> linked_from prev hash h (take (Suc (j - i)) rs)"
proof (induction rs arbitrary: i h)
  case (Cons r rs)
  show ?case
  proof (cases "prev r = h")
    case True
    with Cons have IH: "i + 1 \<le> j \<and> j < i + 1 + length rs \<and> linked_from prev hash (hash r) (take (j - (i + 1)) rs) \<and>
        \<not> linked_from prev hash (hash r) (take (Suc (j - (i + 1))) rs)" by (metis first_break.simps(2))
    then have "j - i = Suc (j - (i + 1))" by linarith
    with IH True show ?thesis by simp
  qed (use Cons.prems in auto)
qed simp

section \<open>The interface\<close>

text \<open>
  \<open>pre\<close> is what a record contributes to the hash, \<open>prev\<close> the hash it carries, which its bytes determine.
  \<open>app\<close> is the checked append and \<open>check\<close> the verification of a whole log.
\<close>

locale hash_log =
  fixes blake3 :: blake3
    and pre :: "'r \<Rightarrow> bytes"
    and prev :: "'r \<Rightarrow> arr32"
    and app :: "'r list \<Rightarrow> 'r \<Rightarrow> 'r list option"
    and check :: "'r list \<Rightarrow> bool"
  assumes pre_prev: "pre r = pre r' \<Longrightarrow> prev r = prev r'"
    and app_Some: "app rs r = Some rs' \<longleftrightarrow> rs' = rs @ [r] \<and> prev r = log_head (\<lambda>r. blake3 (pre r)) rs"
    and check_iff: "check rs \<longleftrightarrow> linked prev (\<lambda>r. blake3 (pre r)) rs"
begin

lemma check_empty: "check []"
  by (simp add: check_iff)

lemma check_app: "check rs \<Longrightarrow> app rs r = Some rs' \<Longrightarrow> check rs'"
  by (simp add: check_iff app_Some)

lemma check_built: "foldr (\<lambda>r acc. Option.bind acc (\<lambda>rs. app rs r)) rs (Some []) = Some log \<Longrightarrow> check log"
  by (induction rs arbitrary: log) (auto simp: check_empty bind_eq_Some_conv intro: check_app)

text \<open>
  Tamper evidence: two logs that verify and have the same head contain the same bytes, record by record, when no two
  of the hashed strings collide and none hashes to zero.
\<close>

lemma same_head_same_log:
  assumes "check rs" "check rs'"
    and "log_head (\<lambda>r. blake3 (pre r)) rs = log_head (\<lambda>r. blake3 (pre r)) rs'"
    and "inj_on blake3 (pre ` (set rs \<union> set rs'))"
    and "arr32_of [] \<notin> blake3 ` pre ` (set rs \<union> set rs')"
  shows "map pre rs = map pre rs'"
  using assms
proof (induction rs arbitrary: rs' rule: rev_induct)
  case Nil
  then show ?case by (cases rs' rule: rev_cases) (auto simp: log_head_def)
next
  case (snoc r rs)
  note chk = snoc.prems(1,2) and inj = snoc.prems(4) and nz = snoc.prems(5)
  show ?case
  proof (cases rs' rule: rev_cases)
    case Nil
    have "blake3 (pre r) = arr32_of []" using snoc.prems(3) Nil by (simp add: log_head_def)
    then show ?thesis using nz by (metis UnCI image_eqI in_set_conv_decomp)
  next
    case (snoc rs0 r')
    have "blake3 (pre r) = blake3 (pre r')" using snoc.prems(3) \<open>rs' = rs0 @ [r']\<close> by simp
    then have pre: "pre r = pre r'"
      by (rule inj_onD [OF inj]) (simp_all add: \<open>rs' = rs0 @ [r']\<close>)
    have "log_head (\<lambda>r. blake3 (pre r)) rs = log_head (\<lambda>r. blake3 (pre r)) rs0"
      using chk pre_prev [OF pre] \<open>rs' = rs0 @ [r']\<close> by (simp add: check_iff)
    moreover have "check rs" "check rs0" using chk \<open>rs' = rs0 @ [r']\<close> by (simp_all add: check_iff)
    moreover have "inj_on blake3 (pre ` (set rs \<union> set rs0))"
      by (rule inj_on_subset [OF inj]) (auto simp: \<open>rs' = rs0 @ [r']\<close>)
    moreover have "arr32_of [] \<notin> blake3 ` pre ` (set rs \<union> set rs0)"
      using nz \<open>rs' = rs0 @ [r']\<close> by auto
    ultimately have "map pre rs = map pre rs0" by (intro snoc.IH) auto
    then show ?thesis using pre \<open>rs' = rs0 @ [r']\<close> by simp
  qed
qed

end

section \<open>Identifiers\<close>

text \<open>A UUID as its 16 bytes, most significant first.\<close>

type_synonym uuid = "128 word"

definition uuid_bytes :: "uuid \<Rightarrow> bytes" where
  "uuid_bytes u = rev (to_le_bytes 16 u)"

lemma length_uuid_bytes [simp]: "length (uuid_bytes u) = 16"
  by (simp add: uuid_bytes_def)

lemma append_same_length_inject: "length a = length b \<Longrightarrow> xs @ a = ys @ b \<longleftrightarrow> xs = ys \<and> a = b"
  by simp

end
