(* ===== verification/Mcp.thy ===== *)
theory Mcp
  imports Gate_Invariants Combinator Hash_Log
begin

text \<open>
  Enforcement of the rules for AI actors, \<open>src/crates/exo-gatekeeper/src/mcp.rs\<close>, and its audit trail,
  \<open>mcp_audit.rs\<close>. The identifier and the time of a new record are arguments.
\<close>

section \<open>Rules\<close>

datatype mcp_rule =
    Mcp001BctsScope
  | Mcp002NoSelfEscalation
  | Mcp003ProvenanceRequired
  | Mcp004NoIdentityForge
  | Mcp005Distinguishable
  | Mcp006ConsentBoundaries

definition mcp_rules_all :: "mcp_rule list" where
  "mcp_rules_all =
     [Mcp001BctsScope, Mcp002NoSelfEscalation, Mcp003ProvenanceRequired, Mcp004NoIdentityForge,
      Mcp005Distinguishable, Mcp006ConsentBoundaries]"

fun mcp_description :: "mcp_rule \<Rightarrow> string" where
  "mcp_description Mcp001BctsScope = ''AI must operate within BCTS scope''"
| "mcp_description Mcp002NoSelfEscalation = ''AI cannot self-escalate capabilities''"
| "mcp_description Mcp003ProvenanceRequired = ''AI actions require provenance metadata''"
| "mcp_description Mcp004NoIdentityForge = ''AI cannot forge identity or signatures''"
| "mcp_description Mcp005Distinguishable = ''AI outputs must be distinguishable from human''"
| "mcp_description Mcp006ConsentBoundaries = ''AI must respect consent boundaries''"

record mcp_context =
  mc_actor_did :: did
  mc_signer_type :: signer_type
  mc_bcts_scope :: "string option"
  mc_capabilities :: gate_permission_set
  mc_action :: string
  mc_has_provenance :: bool
  mc_forging_identity :: bool
  mc_output_marked_ai :: bool
  mc_consent_active :: bool
  mc_self_escalation :: bool

definition mc_is_ai :: "mcp_context \<Rightarrow> bool" where
  "mc_is_ai ctx = is_ai (mc_signer_type ctx)"

record mcp_violation =
  mv_rule :: mcp_rule
  mv_description :: string
  mv_evidence :: "string list"
  mv_severity :: u8

abbreviation mcp_err :: "mcp_rule \<Rightarrow> string \<Rightarrow> string list \<Rightarrow> u8 \<Rightarrow> (unit, mcp_violation) result" where
  "mcp_err r d ev s \<equiv> Err \<lparr>mv_rule = r, mv_description = d, mv_evidence = ev, mv_severity = s\<rparr>"

fun check_rule :: "mcp_context \<Rightarrow> mcp_rule \<Rightarrow> (unit, mcp_violation) result" where
  "check_rule ctx Mcp001BctsScope =
     (if mc_bcts_scope ctx = None
      then mcp_err Mcp001BctsScope ''AI operating outside BCTS scope'' [''actor: '' @ did_str (mc_actor_did ctx)] 5
      else Ok ())"
| "check_rule ctx Mcp002NoSelfEscalation =
     (if mc_self_escalation ctx
      then mcp_err Mcp002NoSelfEscalation ''AI attempted self-escalation''
             [''actor: '' @ did_str (mc_actor_did ctx), ''action: '' @ mc_action ctx] 5
      else Ok ())"
| "check_rule ctx Mcp003ProvenanceRequired =
     (if \<not> mc_has_provenance ctx
      then mcp_err Mcp003ProvenanceRequired ''AI action lacks provenance'' [''action: '' @ mc_action ctx] 4
      else Ok ())"
| "check_rule ctx Mcp004NoIdentityForge =
     (if mc_forging_identity ctx
      then mcp_err Mcp004NoIdentityForge ''AI attempted identity forge'' [''actor: '' @ did_str (mc_actor_did ctx)] 5
      else Ok ())"
| "check_rule ctx Mcp005Distinguishable =
     (if \<not> mc_output_marked_ai ctx
      then mcp_err Mcp005Distinguishable ''AI output not marked'' [''action: '' @ mc_action ctx] 3
      else Ok ())"
| "check_rule ctx Mcp006ConsentBoundaries =
     (if \<not> mc_consent_active ctx
      then mcp_err Mcp006ConsentBoundaries ''AI operating without consent'' [''actor: '' @ did_str (mc_actor_did ctx)] 5
      else Ok ())"

definition mcp_enforce :: "mcp_rule list \<Rightarrow> mcp_context \<Rightarrow> (unit, mcp_violation) result" where
  "mcp_enforce rules ctx = (if \<not> mc_is_ai ctx then Ok () else for_check (check_rule ctx) rules)"

section \<open>Typed signatures\<close>

definition build_signed_payload :: "signer_type \<Rightarrow> bytes \<Rightarrow> bytes" where
  "build_signed_payload st message = to_payload_prefix st @ message"

definition verify_typed_signature ::
  "crypto_prims \<Rightarrow> signer_type \<Rightarrow> bytes \<Rightarrow> signature \<Rightarrow> public_key \<Rightarrow> bool" where
  "verify_typed_signature prims st message s pk = verify prims (build_signed_payload st message) s pk"

section \<open>The audit log\<close>

datatype enforcement_outcome = McpAllowed | McpBlocked | McpEscalated

record mcp_audit_record =
  mr_id :: uuid
  mr_timestamp :: timestamp
  mr_rule :: mcp_rule
  mr_actor :: did
  mr_outcome :: enforcement_outcome
  mr_region :: "string option"
  mr_chain_hash :: arr32

type_synonym mcp_audit_log = "mcp_audit_record list"

fun mcp_rule_name :: "mcp_rule \<Rightarrow> string" where
  "mcp_rule_name Mcp001BctsScope = ''Mcp001BctsScope''"
| "mcp_rule_name Mcp002NoSelfEscalation = ''Mcp002NoSelfEscalation''"
| "mcp_rule_name Mcp003ProvenanceRequired = ''Mcp003ProvenanceRequired''"
| "mcp_rule_name Mcp004NoIdentityForge = ''Mcp004NoIdentityForge''"
| "mcp_rule_name Mcp005Distinguishable = ''Mcp005Distinguishable''"
| "mcp_rule_name Mcp006ConsentBoundaries = ''Mcp006ConsentBoundaries''"

fun outcome_name :: "enforcement_outcome \<Rightarrow> string" where
  "outcome_name McpAllowed = ''Allowed''"
| "outcome_name McpBlocked = ''Blocked''"
| "outcome_name McpEscalated = ''Escalated''"

definition record_preimage :: "mcp_audit_record \<Rightarrow> bytes" where
  "record_preimage r =
     uuid_bytes (mr_id r) @
     to_le_bytes 8 (physical_ms (mr_timestamp r)) @ to_le_bytes 4 (logical (mr_timestamp r)) @
     str_bytes (mcp_rule_name (mr_rule r)) @
     str_bytes (did_str (mr_actor r)) @
     str_bytes (outcome_name (mr_outcome r)) @
     (case mr_region r of Some region \<Rightarrow> str_bytes region | None \<Rightarrow> []) @
     bytes32 (mr_chain_hash r)"

definition hash_record :: "blake3 \<Rightarrow> mcp_audit_record \<Rightarrow> arr32" where
  "hash_record blake3 r = blake3 (record_preimage r)"

definition mcp_head_hash :: "blake3 \<Rightarrow> mcp_audit_log \<Rightarrow> arr32" where
  "mcp_head_hash blake3 log = (if log = [] then arr32_of [] else hash_record blake3 (last log))"

definition mcp_append :: "blake3 \<Rightarrow> mcp_audit_log \<Rightarrow> mcp_audit_record \<Rightarrow> (mcp_audit_log, gatekeeper_error) result" where
  "mcp_append blake3 log r =
     (if mr_chain_hash r \<noteq> mcp_head_hash blake3 log then Err (McpAuditChainBroken (length log))
      else Ok (log @ [r]))"

fun mcp_verify_loop :: "blake3 \<Rightarrow> nat \<Rightarrow> arr32 \<Rightarrow> mcp_audit_log \<Rightarrow> (unit, gatekeeper_error) result" where
  "mcp_verify_loop blake3 i prev [] = Ok ()"
| "mcp_verify_loop blake3 i prev (r # rs) =
     (if mr_chain_hash r \<noteq> prev then Err (McpAuditChainBroken i)
      else mcp_verify_loop blake3 (i + 1) (hash_record blake3 r) rs)"

definition mcp_verify_chain :: "blake3 \<Rightarrow> mcp_audit_log \<Rightarrow> (unit, gatekeeper_error) result" where
  "mcp_verify_chain blake3 log = mcp_verify_loop blake3 0 (arr32_of []) log"

definition create_record ::
  "blake3 \<Rightarrow> uuid \<Rightarrow> timestamp \<Rightarrow> mcp_audit_log \<Rightarrow> mcp_rule \<Rightarrow> did \<Rightarrow> enforcement_outcome \<Rightarrow> string option \<Rightarrow>
     mcp_audit_record" where
  "create_record blake3 u now log rule actor outcome region =
     \<lparr>mr_id = u, mr_timestamp = now, mr_rule = rule, mr_actor = actor, mr_outcome = outcome, mr_region = region,
      mr_chain_hash = mcp_head_hash blake3 log\<rparr>"

section \<open>Properties of the rules\<close>

text \<open>What a rule asks of a context.\<close>

fun rule_holds :: "mcp_context \<Rightarrow> mcp_rule \<Rightarrow> bool" where
  "rule_holds ctx Mcp001BctsScope \<longleftrightarrow> mc_bcts_scope ctx \<noteq> None"
| "rule_holds ctx Mcp002NoSelfEscalation \<longleftrightarrow> \<not> mc_self_escalation ctx"
| "rule_holds ctx Mcp003ProvenanceRequired \<longleftrightarrow> mc_has_provenance ctx"
| "rule_holds ctx Mcp004NoIdentityForge \<longleftrightarrow> \<not> mc_forging_identity ctx"
| "rule_holds ctx Mcp005Distinguishable \<longleftrightarrow> mc_output_marked_ai ctx"
| "rule_holds ctx Mcp006ConsentBoundaries \<longleftrightarrow> mc_consent_active ctx"

lemma check_rule_cases:
  "(check_rule ctx r = Inr () \<and> rule_holds ctx r) \<or>
   (\<exists>v. check_rule ctx r = Inl v \<and> \<not> rule_holds ctx r \<and> mv_rule v = r \<and> 3 \<le> mv_severity v \<and> mv_severity v \<le> 5)"
  by (cases r; cases "rule_holds ctx r") simp_all

lemma mcp_enforce_ok: "mcp_enforce rules ctx = Inr () \<longleftrightarrow> \<not> mc_is_ai ctx \<or> (\<forall>r \<in> set rules. rule_holds ctx r)"
proof -
  have "check_rule ctx r = Inr () \<longleftrightarrow> rule_holds ctx r" for r using check_rule_cases [of ctx r] by auto
  then show ?thesis by (simp add: mcp_enforce_def for_check_Ok)
qed

lemma mcp_enforce_first:
  assumes "mcp_enforce rules ctx = Inl v"
  shows "\<exists>before after. rules = before @ mv_rule v # after \<and> mc_is_ai ctx \<and>
           (\<forall>r \<in> set before. rule_holds ctx r) \<and> \<not> rule_holds ctx (mv_rule v)"
proof -
  have ai: "mc_is_ai ctx" and "for_check (check_rule ctx) rules = Inl v"
    using assms by (auto simp: mcp_enforce_def split: if_splits)
  then obtain ys x zs where split: "rules = ys @ x # zs" and pass: "\<forall>y \<in> set ys. check_rule ctx y = Inr ()"
    and fail: "check_rule ctx x = Inl v" using for_check_ErrD by metis
  have x: "mv_rule v = x" "\<not> rule_holds ctx x"
    using check_rule_cases [of ctx x] fail by auto
  have "rule_holds ctx y" if "y \<in> set ys" for y
    using check_rule_cases [of ctx y] pass that by auto
  then have "\<forall>r \<in> set ys. rule_holds ctx r" by blast
  with x split ai show ?thesis by (intro exI [of _ ys] exI [of _ zs]) simp
qed

text \<open>The signature of an AI over a message is not one of a human over the same or any other message.\<close>

lemma signed_payload_inject:
  "build_signed_payload s m = build_signed_payload t n \<longleftrightarrow> s = t \<and> m = n"
  by (cases s; cases t)
     (auto simp: build_signed_payload_def to_payload_prefix_def SIGNER_PREFIX_HUMAN_def SIGNER_PREFIX_AI_def)

section \<open>The log as a hash-chained log\<close>

lemma record_preimage_prev: "record_preimage r = record_preimage r' \<Longrightarrow> mr_chain_hash r = mr_chain_hash r'"
proof -
  assume eq: "record_preimage r = record_preimage r'"
  have tail: "\<exists>xs. record_preimage s = xs @ bytes32 (mr_chain_hash s)" for s
    unfolding record_preimage_def by (simp only: append_assoc [symmetric]) blast
  obtain xs ys where "record_preimage r = xs @ bytes32 (mr_chain_hash r)"
    "record_preimage r' = ys @ bytes32 (mr_chain_hash r')" using tail by blast
  with eq show ?thesis by (simp add: bytes32_inject)
qed

lemma mcp_verify_loop_iff: "mcp_verify_loop blake3 i prev rs =
    (case first_break mr_chain_hash (hash_record blake3) i prev rs of None \<Rightarrow> Ok () | Some j \<Rightarrow> Err (McpAuditChainBroken j))"
  by (induction rs arbitrary: i prev) auto

lemma mcp_head_hash_eq: "mcp_head_hash blake3 log = log_head (\<lambda>r. blake3 (record_preimage r)) log"
  by (simp add: mcp_head_hash_def log_head_def hash_record_def)

interpretation mcp_log: hash_log blake3 record_preimage mr_chain_hash
  "\<lambda>log r. case mcp_append blake3 log r of Inr log' \<Rightarrow> Some log' | Inl _ \<Rightarrow> None"
  "\<lambda>log. mcp_verify_chain blake3 log = Ok ()"
  for blake3
proof unfold_locales
  show "mr_chain_hash r = mr_chain_hash r'" if "record_preimage r = record_preimage r'" for r r'
    using that by (rule record_preimage_prev)
  show "(case mcp_append blake3 rs r of Inr log' \<Rightarrow> Some log' | Inl _ \<Rightarrow> None) = Some rs' \<longleftrightarrow>
      rs' = rs @ [r] \<and> mr_chain_hash r = log_head (\<lambda>r. blake3 (record_preimage r)) rs" for rs r rs'
    by (auto simp: mcp_append_def mcp_head_hash_eq split: sum.splits if_splits)
  show "mcp_verify_chain blake3 rs = Ok () \<longleftrightarrow> linked mr_chain_hash (\<lambda>r. blake3 (record_preimage r)) rs" for rs
    using first_break_None [of mr_chain_hash "hash_record blake3" 0 "arr32_of []" rs]
    by (auto simp: mcp_verify_chain_def mcp_verify_loop_iff hash_record_def [abs_def] split: option.splits)
qed

text \<open>
  The audit trail of rule enforcement. Appending a record made for the log succeeds and keeps the log verifying.
  Two logs that verify and have the same head hash contain the same bytes record by record, unless two of the hashed
  records collide or one hashes to zero; and verification reports the first record that does not continue the chain.
\<close>

theorem mcp_audit_tamper_evident:
  assumes "mcp_verify_chain blake3 log = Ok ()"
  shows "mcp_append blake3 log (create_record blake3 u now log rule actor outcome region) =
           Ok (log @ [create_record blake3 u now log rule actor outcome region]) \<and>
         mcp_verify_chain blake3 (log @ [create_record blake3 u now log rule actor outcome region]) = Ok () \<and>
         (mcp_verify_chain blake3 log' = Ok () \<and> mcp_head_hash blake3 log' = mcp_head_hash blake3 log \<and>
          inj_on blake3 (record_preimage ` (set log \<union> set log')) \<and>
          arr32_of [] \<notin> blake3 ` record_preimage ` (set log \<union> set log') \<longrightarrow>
            map record_preimage log' = map record_preimage log)"
proof -
  let ?r = "create_record blake3 u now log rule actor outcome region"
  have app: "mcp_append blake3 log ?r = Ok (log @ [?r])" by (simp add: mcp_append_def create_record_def)
  then have "mcp_verify_chain blake3 (log @ [?r]) = Ok ()"
    using mcp_log.check_app [OF assms, of ?r "log @ [?r]"] by simp
  with app show ?thesis
    using mcp_log.same_head_same_log [of blake3 log log'] assms by (auto simp: mcp_head_hash_eq)
qed

definition toy_blake3_id :: blake3 where
  "toy_blake3_id bs = arr32_of (1 # bs)"

theorem mcp_audit_tamper_evident_witness:
  "mcp_append toy_blake3_id [] (create_record toy_blake3_id 1 TS_ZERO [] Mcp001BctsScope (Did ''did:exo:ai'') McpAllowed None) =
     Ok [create_record toy_blake3_id 1 TS_ZERO [] Mcp001BctsScope (Did ''did:exo:ai'') McpAllowed None]"
  using mcp_audit_tamper_evident [of toy_blake3_id "[]" 1 TS_ZERO Mcp001BctsScope "Did ''did:exo:ai''" McpAllowed None]
  by (simp add: mcp_verify_chain_def)

end
