(* ===== verification/Gov_Audit.thy ===== *)
theory Gov_Audit
  imports Hash_Log
begin

text \<open>
  The governance errors and the audit trail: \<open>src/crates/exo-governance/src/error.rs\<close> and \<open>audit.rs\<close>. The
  identifier and the time of a new entry are arguments.
\<close>

datatype governance_error =
    QuorumNotMet string
  | InsufficientIndependence string
  | ClearanceDenied string
  | ChallengeError string
  | DeliberationError string
  | AuditChainBroken nat
  | DuplicateVote string
  | DeliberationNotOpen
  | ActionNotFound string
  | CaseNotFound string
  | InvalidStateTransition string string

record audit_entry =
  ae_id :: uuid
  ae_timestamp :: timestamp
  ae_actor :: did
  ae_action :: string
  ae_result :: string
  ae_evidence_hash :: arr32
  ae_chain_hash :: arr32

type_synonym audit_log = "audit_entry list"

definition entry_preimage :: "audit_entry \<Rightarrow> bytes" where
  "entry_preimage e =
     uuid_bytes (ae_id e) @
     to_le_bytes 8 (physical_ms (ae_timestamp e)) @ to_le_bytes 4 (logical (ae_timestamp e)) @
     str_bytes (did_str (ae_actor e)) @ str_bytes (ae_action e) @ str_bytes (ae_result e) @
     bytes32 (ae_evidence_hash e) @ bytes32 (ae_chain_hash e)"

definition hash_entry :: "blake3 \<Rightarrow> audit_entry \<Rightarrow> arr32" where
  "hash_entry blake3 e = blake3 (entry_preimage e)"

definition audit_head_hash :: "blake3 \<Rightarrow> audit_log \<Rightarrow> arr32" where
  "audit_head_hash blake3 log = (if log = [] then arr32_of [] else hash_entry blake3 (last log))"

definition audit_append :: "blake3 \<Rightarrow> audit_log \<Rightarrow> audit_entry \<Rightarrow> (audit_log, governance_error) result" where
  "audit_append blake3 log e =
     (if ae_chain_hash e \<noteq> audit_head_hash blake3 log then Err (AuditChainBroken (length log)) else Ok (log @ [e]))"

fun audit_verify_loop :: "blake3 \<Rightarrow> nat \<Rightarrow> arr32 \<Rightarrow> audit_log \<Rightarrow> (unit, governance_error) result" where
  "audit_verify_loop blake3 i prev [] = Ok ()"
| "audit_verify_loop blake3 i prev (e # es) =
     (if ae_chain_hash e \<noteq> prev then Err (AuditChainBroken i)
      else audit_verify_loop blake3 (i + 1) (hash_entry blake3 e) es)"

definition audit_verify_chain :: "blake3 \<Rightarrow> audit_log \<Rightarrow> (unit, governance_error) result" where
  "audit_verify_chain blake3 log = audit_verify_loop blake3 0 (arr32_of []) log"

definition create_entry ::
  "blake3 \<Rightarrow> uuid \<Rightarrow> timestamp \<Rightarrow> audit_log \<Rightarrow> did \<Rightarrow> string \<Rightarrow> string \<Rightarrow> arr32 \<Rightarrow> audit_entry" where
  "create_entry blake3 u now log actor action res evidence =
     \<lparr>ae_id = u, ae_timestamp = now, ae_actor = actor, ae_action = action, ae_result = res,
      ae_evidence_hash = evidence, ae_chain_hash = audit_head_hash blake3 log\<rparr>"

section \<open>The log as a hash-chained log\<close>

lemma entry_preimage_prev: "entry_preimage e = entry_preimage e' \<Longrightarrow> ae_chain_hash e = ae_chain_hash e'"
proof -
  assume eq: "entry_preimage e = entry_preimage e'"
  have tail: "\<exists>xs. entry_preimage x = xs @ bytes32 (ae_chain_hash x)" for x
    unfolding entry_preimage_def by (simp only: append_assoc [symmetric]) blast
  obtain xs ys where "entry_preimage e = xs @ bytes32 (ae_chain_hash e)"
    "entry_preimage e' = ys @ bytes32 (ae_chain_hash e')" using tail by blast
  with eq show ?thesis by (simp add: bytes32_inject)
qed

lemma audit_verify_loop_iff: "audit_verify_loop blake3 i prev es =
    (case first_break ae_chain_hash (hash_entry blake3) i prev es of None \<Rightarrow> Ok () | Some j \<Rightarrow> Err (AuditChainBroken j))"
  by (induction es arbitrary: i prev) auto

lemma audit_head_hash_eq: "audit_head_hash blake3 log = log_head (\<lambda>e. blake3 (entry_preimage e)) log"
  by (simp add: audit_head_hash_def log_head_def hash_entry_def)

interpretation gov_log: hash_log blake3 entry_preimage ae_chain_hash
  "\<lambda>log e. case audit_append blake3 log e of Inr log' \<Rightarrow> Some log' | Inl _ \<Rightarrow> None"
  "\<lambda>log. audit_verify_chain blake3 log = Ok ()"
  for blake3
proof unfold_locales
  show "ae_chain_hash e = ae_chain_hash e'" if "entry_preimage e = entry_preimage e'" for e e'
    using that by (rule entry_preimage_prev)
  show "(case audit_append blake3 es e of Inr log' \<Rightarrow> Some log' | Inl _ \<Rightarrow> None) = Some es' \<longleftrightarrow>
      es' = es @ [e] \<and> ae_chain_hash e = log_head (\<lambda>e. blake3 (entry_preimage e)) es" for es e es'
    by (auto simp: audit_append_def audit_head_hash_eq split: sum.splits if_splits)
  show "audit_verify_chain blake3 es = Ok () \<longleftrightarrow> linked ae_chain_hash (\<lambda>e. blake3 (entry_preimage e)) es" for es
    using first_break_None [of ae_chain_hash "hash_entry blake3" 0 "arr32_of []" es]
    by (auto simp: audit_verify_chain_def audit_verify_loop_iff hash_entry_def [abs_def] split: option.splits)
qed

text \<open>
  C23: the governance audit trail. A log built by appends verifies. A log that verifies and any log of the same head
  hash that verifies contain the same bytes entry by entry, unless two hashed entries collide or one hashes to
  zero. When verification fails, it names the first entry that does not continue the chain: the entries before
  it verify.
\<close>

theorem audit_log_tamper_evident:
  assumes "audit_verify_chain blake3 log = Ok ()"
  shows "(audit_append blake3 log e = Ok log1 \<longrightarrow> audit_verify_chain blake3 log1 = Ok () \<and> log1 = log @ [e]) \<and>
         (audit_verify_chain blake3 log' = Ok () \<and> audit_head_hash blake3 log' = audit_head_hash blake3 log \<and>
          inj_on blake3 (entry_preimage ` (set log \<union> set log')) \<and>
          arr32_of [] \<notin> blake3 ` entry_preimage ` (set log \<union> set log') \<longrightarrow>
            map entry_preimage log' = map entry_preimage log) \<and>
         (audit_verify_chain blake3 log' = Err (AuditChainBroken j) \<longrightarrow>
            j < length log' \<and> audit_verify_chain blake3 (take j log') = Ok () \<and>
            audit_verify_chain blake3 (take (Suc j) log') \<noteq> Ok ())"
proof (intro conjI impI)
  show "audit_verify_chain blake3 log1 = Ok ()" and "log1 = log @ [e]" if "audit_append blake3 log e = Ok log1"
    using that gov_log.check_app [OF assms, of e log1] by (auto simp: audit_append_def split: if_splits)
  show "map entry_preimage log' = map entry_preimage log"
    if "audit_verify_chain blake3 log' = Ok () \<and> audit_head_hash blake3 log' = audit_head_hash blake3 log \<and>
      inj_on blake3 (entry_preimage ` (set log \<union> set log')) \<and> arr32_of [] \<notin> blake3 ` entry_preimage ` (set log \<union> set log')"
    using gov_log.same_head_same_log [of blake3 log log'] assms that by (simp add: audit_head_hash_eq)
  assume "audit_verify_chain blake3 log' = Err (AuditChainBroken j)"
  then have "first_break ae_chain_hash (hash_entry blake3) 0 (arr32_of []) log' = Some j"
    by (auto simp: audit_verify_chain_def audit_verify_loop_iff split: option.splits)
  then show "j < length log'" "audit_verify_chain blake3 (take j log') = Ok ()"
      "audit_verify_chain blake3 (take (Suc j) log') \<noteq> Ok ()"
    using first_break_Some [of ae_chain_hash "hash_entry blake3" 0 "arr32_of []" log' j]
    by (simp_all add: gov_log.check_iff hash_entry_def [abs_def])
qed

text \<open>
  A two-entry log under a concrete hash, the same log with the action and the result of the second
  entry shifted against each other (a different log of the same bytes), and a broken one.
\<close>

definition toy_hash :: blake3 where
  "toy_hash bs = arr32_of [1 + bs ! 15]"

definition toy_entry1 :: audit_entry where
  "toy_entry1 = create_entry toy_hash 1 TS_ZERO [] (Did ''did:exo:a'') ''act'' ''ok'' (arr32_of [])"

definition toy_entry2 :: "string \<Rightarrow> string \<Rightarrow> audit_entry" where
  "toy_entry2 action res =
     create_entry toy_hash 2 TS_ZERO [toy_entry1] (Did ''did:exo:b'') action res (arr32_of [])"

lemma preimage_byte: "entry_preimage e ! 15 = ucast (ae_id e)"
proof -
  have "uuid_bytes u ! 15 = to_le_bytes 16 u ! 0" for u
    unfolding uuid_bytes_def by (subst rev_nth) simp_all
  then have "uuid_bytes u ! 15 = ucast u" for u by (simp add: to_le_bytes_def)
  then show ?thesis unfolding entry_preimage_def by (subst nth_append) simp
qed

lemma toy_hash_entries:
  "toy_hash (entry_preimage toy_entry1) = arr32_of [2]"
  "toy_hash (entry_preimage (toy_entry2 action res)) = arr32_of [3]"
  by (simp_all only: toy_hash_def preimage_byte) (simp_all add: toy_entry1_def toy_entry2_def create_entry_def)

lemma toy_chain:
  "ae_chain_hash toy_entry1 = arr32_of []" "ae_chain_hash (toy_entry2 action res) = arr32_of [2]"
  by (simp add: toy_entry1_def create_entry_def audit_head_hash_def)
     (simp add: toy_entry2_def create_entry_def audit_head_hash_def hash_entry_def toy_hash_entries)

lemma toy_bytes: "arr32_of [2] \<noteq> arr32_of []" "arr32_of [3] \<noteq> arr32_of []" "arr32_of [2] \<noteq> arr32_of [3]"
  unfolding arr32_of_Nil by (rule arr32_of_Cons_neq, simp)+

lemma toy_log_verifies: "audit_verify_chain toy_hash [toy_entry1, toy_entry2 action res] = Ok ()"
  by (simp add: audit_verify_chain_def hash_entry_def toy_hash_entries toy_chain)

lemma toy_log_hypotheses:
  fixes a r a' r' :: string
  assumes "entry_preimage (toy_entry2 a r) = entry_preimage (toy_entry2 a' r')"
  defines "log \<equiv> [toy_entry1, toy_entry2 a r]" and "log' \<equiv> [toy_entry1, toy_entry2 a' r']"
  shows "audit_verify_chain toy_hash log' = Ok () \<and> audit_head_hash toy_hash log' = audit_head_hash toy_hash log \<and>
    inj_on toy_hash (entry_preimage ` (set log \<union> set log')) \<and>
    arr32_of [] \<notin> toy_hash ` entry_preimage ` (set log \<union> set log')"
  unfolding log_def log'_def
  using assms(1) toy_bytes
  by (simp add: toy_log_verifies audit_head_hash_def hash_entry_def toy_hash_entries inj_on_def)

lemma toy_shifted: "entry_preimage (toy_entry2 (a @ b) r) = entry_preimage (toy_entry2 a (b @ r))"
  by (simp add: entry_preimage_def toy_entry2_def create_entry_def str_bytes_def)

lemma toy_broken: "audit_verify_chain toy_hash [toy_entry2 a r] = Err (AuditChainBroken 0)"
  using toy_bytes by (simp add: audit_verify_chain_def toy_chain)

theorem audit_log_tamper_evident_witness:
  "map entry_preimage [toy_entry1, toy_entry2 ''pay'' (''1'' @ ''0'')] =
     map entry_preimage [toy_entry1, toy_entry2 (''pay'' @ ''1'') ''0''] \<and>
   audit_verify_chain toy_hash [toy_entry2 ''pay'' ''1''] = Err (AuditChainBroken 0) \<and>
   audit_verify_chain toy_hash (take (Suc 0) [toy_entry2 ''pay'' ''1'']) \<noteq> Ok ()"
proof (intro conjI)
  note T = audit_log_tamper_evident [OF toy_log_verifies, THEN conjunct2]
  show "map entry_preimage [toy_entry1, toy_entry2 ''pay'' (''1'' @ ''0'')] =
      map entry_preimage [toy_entry1, toy_entry2 (''pay'' @ ''1'') ''0'']"
    by (rule T [THEN conjunct1, THEN mp]) (rule toy_log_hypotheses [OF toy_shifted])
  show "audit_verify_chain toy_hash [toy_entry2 ''pay'' ''1''] = Err (AuditChainBroken 0)"
    by (rule toy_broken)
  show "audit_verify_chain toy_hash (take (Suc 0) [toy_entry2 ''pay'' ''1'']) \<noteq> Ok ()"
    by (rule T [THEN conjunct2, THEN mp, OF toy_broken, THEN conjunct2, THEN conjunct2])
qed

text \<open>
  The bytes do not determine the entries: the action and the result are concatenated, so they can be shifted against
  each other without changing any hash.
\<close>

lemma entry_preimage_ambiguous:
  "entry_preimage (e\<lparr>ae_action := a @ b, ae_result := r\<rparr>) = entry_preimage (e\<lparr>ae_action := a, ae_result := b @ r\<rparr>)"
  by (simp add: entry_preimage_def str_bytes_def)

end
