(* ===== verification/Deliberation.thy ===== *)
theory Deliberation
  imports Gov_Audit
begin

text \<open>
  Quorum computation and deliberation: \<open>src/crates/exo-governance/src/quorum.rs\<close> and \<open>deliberation.rs\<close>.
\<close>

section \<open>Quorum\<close>

datatype gov_role = Steward | Governor | Reviewer | Contributor | Observer

fun gov_role_name :: "gov_role \<Rightarrow> string" where
  "gov_role_name Steward = ''Steward''"
| "gov_role_name Governor = ''Governor''"
| "gov_role_name Reviewer = ''Reviewer''"
| "gov_role_name Contributor = ''Contributor''"
| "gov_role_name Observer = ''Observer''"

record independence_attestation =
  attester_did :: did
  no_common_control :: bool
  no_coordination :: bool
  identity_verified :: bool
  at_signature :: signature

definition attestation_is_valid :: "independence_attestation \<Rightarrow> bool" where
  "attestation_is_valid a \<longleftrightarrow> no_common_control a \<and> no_coordination a \<and> identity_verified a"

record approval =
  approver_did :: did
  ap_role :: gov_role
  ap_timestamp :: timestamp
  ap_signature :: signature
  ap_attestation :: "independence_attestation option"

record quorum_policy =
  min_approvals :: nat
  min_independent :: nat
  required_roles :: "gov_role list"
  qp_timeout :: timestamp

datatype quorum_result =
    QuorumMet nat nat
  | QuorumUnmet string
  | QuorumContested string

definition is_independent :: "approval \<Rightarrow> bool" where
  "is_independent a = (case ap_attestation a of Some att \<Rightarrow> attestation_is_valid att | None \<Rightarrow> False)"

text \<open>The loop over the required roles: the first one that no approval has.\<close>

definition missing_role :: "approval list \<Rightarrow> gov_role list \<Rightarrow> gov_role option" where
  "missing_role approvals roles = List.find (\<lambda>r. \<not> list_ex (\<lambda>a. ap_role a = r) approvals) roles"

definition compute_quorum :: "approval list \<Rightarrow> quorum_policy \<Rightarrow> quorum_result" where
  "compute_quorum approvals policy =
     (let total_count = length approvals in
      if total_count < min_approvals policy
      then QuorumUnmet (''insufficient approvals: '' @ show_nat total_count @ '' < '' @ show_nat (min_approvals policy))
      else case missing_role approvals (required_roles policy) of
        Some r \<Rightarrow> QuorumUnmet (''missing required role: '' @ gov_role_name r)
      | None \<Rightarrow>
          let independent_count = length (filter is_independent approvals) in
          if independent_count < min_independent policy
          then QuorumUnmet (''insufficient independence: '' @ show_nat independent_count @ '' independent of '' @
                 show_nat (min_independent policy) @
                 '' required (numerical multiplicity without attributable independence is theater, not legitimacy)'')
          else QuorumMet independent_count total_count)"

definition validate_approval :: "approval \<Rightarrow> (unit, governance_error) result" where
  "validate_approval a =
     (if did_str (approver_did a) = [] then Err (QuorumNotMet ''empty approver DID'') else Ok ())"

lemma missing_role_None: "missing_role approvals roles = None \<longleftrightarrow> (\<forall>r \<in> set roles. \<exists>a \<in> set approvals. ap_role a = r)"
  by (auto simp: missing_role_def find_None_iff list_ex_iff)

lemma compute_quorum_met:
  "compute_quorum approvals policy = QuorumMet i t \<longleftrightarrow>
     min_approvals policy \<le> t \<and> t = length approvals \<and>
     (\<forall>r \<in> set (required_roles policy). \<exists>a \<in> set approvals. ap_role a = r) \<and>
     min_independent policy \<le> i \<and> i = length (filter is_independent approvals)"
  unfolding missing_role_None [symmetric]
  by (auto simp: compute_quorum_def Let_def split: option.splits)

lemma compute_quorum_not_contested [simp]: "compute_quorum approvals policy \<noteq> QuorumContested s"
  by (auto simp: compute_quorum_def Let_def split: option.splits)

section \<open>Deliberation\<close>

datatype position = For | Against | Abstain

record delib_vote =
  dv_voter :: did
  dv_position :: position
  dv_reasoning_hash :: arr32
  dv_signature :: signature

datatype deliberation_status = DelibOpen | DelibClosed | DelibCancelled

record deliberation =
  dl_id :: uuid
  dl_proposal_hash :: arr32
  dl_participants :: "did list"
  dl_votes :: "delib_vote list"
  dl_status :: deliberation_status
  dl_created :: timestamp

datatype deliberation_result =
    Approved nat nat nat
  | Rejected nat nat nat
  | NoQuorum string

definition open_deliberation :: "blake3 \<Rightarrow> uuid \<Rightarrow> timestamp \<Rightarrow> bytes \<Rightarrow> did list \<Rightarrow> deliberation" where
  "open_deliberation blake3 u now proposal participants =
     \<lparr>dl_id = u, dl_proposal_hash = blake3 proposal, dl_participants = participants, dl_votes = [],
      dl_status = DelibOpen, dl_created = now\<rparr>"

definition delib_cast_vote :: "deliberation \<Rightarrow> delib_vote \<Rightarrow> (deliberation, governance_error) result" where
  "delib_cast_vote d v =
     (if dl_status d \<noteq> DelibOpen then Err DeliberationNotOpen
      else if list_ex (\<lambda>w. dv_voter w = dv_voter v) (dl_votes d) then Err (DuplicateVote (did_str (dv_voter v)))
      else Ok (d\<lparr>dl_votes := dl_votes d @ [v]\<rparr>))"

definition votes_with :: "position \<Rightarrow> deliberation \<Rightarrow> delib_vote list" where
  "votes_with p d = filter (\<lambda>v. dv_position v = p) (dl_votes d)"

text \<open>The approval that \<open>close\<close> makes of a vote in favour, with an attestation of its own making.\<close>

definition approval_of :: "deliberation \<Rightarrow> delib_vote \<Rightarrow> approval" where
  "approval_of d v =
     \<lparr>approver_did = dv_voter v, ap_role = Contributor, ap_timestamp = dl_created d, ap_signature = dv_signature v,
      ap_attestation = Some \<lparr>attester_did = dv_voter v, no_common_control = True, no_coordination = True,
                              identity_verified = True, at_signature = dv_signature v\<rparr>\<rparr>"

definition delib_close :: "deliberation \<Rightarrow> quorum_policy \<Rightarrow> deliberation \<times> deliberation_result" where
  "delib_close d policy =
     (let d = d\<lparr>dl_status := DelibClosed\<rparr>;
          votes_for = length (votes_with For d);
          votes_against = length (votes_with Against d);
          abstentions = length (votes_with Abstain d);
          approvals = map (approval_of d) (votes_with For d)
      in (d, case compute_quorum approvals policy of
               QuorumMet _ _ \<Rightarrow>
                 if votes_for > votes_against then Approved votes_for votes_against abstentions
                 else Rejected votes_for votes_against abstentions
             | QuorumUnmet reason \<Rightarrow> NoQuorum reason
             | QuorumContested challenge \<Rightarrow> NoQuorum (''contested: '' @ challenge)))"

section \<open>One vote each\<close>

inductive delib_reachable :: "deliberation \<Rightarrow> bool" where
  opened: "delib_reachable (open_deliberation blake3 u now proposal participants)"
| voted: "delib_reachable d \<Longrightarrow> delib_cast_vote d v = Ok d' \<Longrightarrow> delib_reachable d'"
| closed: "delib_reachable d \<Longrightarrow> delib_reachable (fst (delib_close d policy))"

lemma delib_reachable_distinct: "delib_reachable d \<Longrightarrow> distinct (map dv_voter (dl_votes d))"
proof (induction rule: delib_reachable.induct)
  case (voted d v d')
  then have "dv_voter v \<notin> set (map dv_voter (dl_votes d))" "dl_votes d' = dl_votes d @ [v]"
    by (auto simp: delib_cast_vote_def list_ex_iff split: if_splits)
  with voted show ?case by simp
qed (simp_all add: open_deliberation_def delib_close_def Let_def)

lemma is_independent_approval_of [simp]: "is_independent (approval_of d v)"
  by (simp add: is_independent_def approval_of_def attestation_is_valid_def)

lemma ap_role_approval_of [simp]: "ap_role (approval_of d v) = Contributor"
  by (simp add: approval_of_def)

lemma close_met_iff:
  "(\<exists>i t. compute_quorum (map (approval_of d') (votes_with For d)) policy = QuorumMet i t) \<longleftrightarrow>
     max (min_approvals policy) (min_independent policy) \<le> length (votes_with For d) \<and>
     (set (required_roles policy) \<subseteq> {Contributor}) \<and> (required_roles policy = [] \<or> votes_with For d \<noteq> [])"
  by (auto simp: compute_quorum_met filter_map comp_def) (metis list.set_intros(1) neq_Nil_conv)+

text \<open>The numbers of distinct voters for each position.\<close>

definition voters :: "position \<Rightarrow> deliberation \<Rightarrow> nat" where
  "voters p d = card {x. \<exists>v \<in> set (dl_votes d). dv_voter v = x \<and> dv_position v = p}"

lemma votes_with_card:
  assumes "delib_reachable d"
  shows "length (votes_with p d) = voters p d"
proof -
  have "distinct (map dv_voter (votes_with p d))"
    unfolding votes_with_def by (rule distinct_map_filter [OF delib_reachable_distinct [OF assms]])
  then have "length (votes_with p d) = card (set (map dv_voter (votes_with p d)))"
    by (metis distinct_card length_map)
  also have "set (map dv_voter (votes_with p d)) = {x. \<exists>v \<in> set (dl_votes d). dv_voter v = x \<and> dv_position v = p}"
    by (auto simp: votes_with_def)
  finally show ?thesis by (simp add: voters_def)
qed

lemma delib_close_approved:
  "snd (delib_close d policy) = Approved f a b \<longleftrightarrow>
     max (min_approvals policy) (min_independent policy) \<le> f \<and> set (required_roles policy) \<subseteq> {Contributor} \<and> a < f \<and>
     f = length (votes_with For d) \<and> a = length (votes_with Against d) \<and> b = length (votes_with Abstain d)"
proof -
  let ?d = "d\<lparr>dl_status := DelibClosed\<rparr>"
  have same: "votes_with p ?d = votes_with p d" for p by (simp add: votes_with_def)
  have "snd (delib_close d policy) = Approved f a b \<longleftrightarrow>
      (\<exists>i t. compute_quorum (map (approval_of ?d) (votes_with For d)) policy = QuorumMet i t) \<and>
      a < f \<and> f = length (votes_with For d) \<and> a = length (votes_with Against d) \<and> b = length (votes_with Abstain d)"
    by (auto simp: delib_close_def Let_def same split: quorum_result.splits)
  then show ?thesis unfolding close_met_iff by auto
qed

text \<open>
  The outcome of a deliberation. In a deliberation that was opened and voted on, nobody votes twice, no vote is
  cast once it is closed, and closing approves exactly when the voters in favour reach both thresholds of the policy,
  the policy asks for no role but contributor, and they are more than the voters against.
\<close>

theorem deliberation_outcome:
  assumes "delib_reachable d"
  shows "(snd (delib_close d policy) = Approved f a b \<longleftrightarrow>
            f = voters For d \<and> a = voters Against d \<and> b = voters Abstain d \<and>
            max (min_approvals policy) (min_independent policy) \<le> f \<and> a < f \<and>
            set (required_roles policy) \<subseteq> {Contributor}) \<and>
         distinct (map dv_voter (dl_votes d)) \<and>
         delib_cast_vote (fst (delib_close d policy)) v = Err DeliberationNotOpen"
proof (intro conjI)
  show "snd (delib_close d policy) = Approved f a b \<longleftrightarrow>
      f = voters For d \<and> a = voters Against d \<and> b = voters Abstain d \<and>
      max (min_approvals policy) (min_independent policy) \<le> f \<and> a < f \<and> set (required_roles policy) \<subseteq> {Contributor}"
    unfolding delib_close_approved votes_with_card [OF assms] by blast
  show "delib_cast_vote (fst (delib_close d policy)) v = Err DeliberationNotOpen"
    by (simp add: delib_close_def Let_def delib_cast_vote_def)
qed (rule delib_reachable_distinct [OF assms])

definition sample_delib :: deliberation where
  "sample_delib = (open_deliberation (\<lambda>_. arr32_of []) 1 TS_ZERO [] [])
     \<lparr>dl_votes := [\<lparr>dv_voter = Did ''did:exo:a'', dv_position = For, dv_reasoning_hash = arr32_of [],
                     dv_signature = SigEmpty\<rparr>]\<rparr>"

lemma sample_delib_reachable: "delib_reachable sample_delib"
proof (rule delib_reachable.voted)
  show "delib_reachable (open_deliberation (\<lambda>_. arr32_of []) 1 TS_ZERO [] [])" by (rule delib_reachable.opened)
  show "delib_cast_vote (open_deliberation (\<lambda>_. arr32_of []) 1 TS_ZERO [] [])
      \<lparr>dv_voter = Did ''did:exo:a'', dv_position = For, dv_reasoning_hash = arr32_of [], dv_signature = SigEmpty\<rparr> =
      Ok sample_delib"
    by (simp add: sample_delib_def delib_cast_vote_def open_deliberation_def)
qed

theorem deliberation_outcome_witness:
  "snd (delib_close sample_delib \<lparr>min_approvals = 1, min_independent = 1, required_roles = [], qp_timeout = TS_ZERO\<rparr>) =
     Approved 1 0 0"
proof -
  have "voters For sample_delib = 1" "voters Against sample_delib = 0" "voters Abstain sample_delib = 0"
    by (simp_all add: voters_def sample_delib_def)
  then show ?thesis
    using deliberation_outcome [OF sample_delib_reachable, of
        "\<lparr>min_approvals = 1, min_independent = 1, required_roles = [], qp_timeout = TS_ZERO\<rparr>" 1 0 0] by simp
qed

text \<open>
  What is not checked. A vote is accepted from anybody, not from the listed participants only; closing attests the
  independence of every voter itself, so the threshold of independent approvals adds nothing to the threshold of
  approvals; and the quorum counts approvals, not approvers.
\<close>

lemma vote_of_outsider:
  "dl_status d = DelibOpen \<Longrightarrow> dl_votes d = [] \<Longrightarrow> dl_participants d = [] \<Longrightarrow>
     \<exists>d'. delib_cast_vote d v = Ok d' \<and> dv_voter v \<notin> set (dl_participants d') \<and> dl_votes d' = [v]"
  by (simp add: delib_cast_vote_def)

lemma close_attests_independence:
  "list_all is_independent (map (approval_of d) vs)"
  by (simp add: list_all_iff)

lemma quorum_counts_same_approver:
  assumes "is_independent a"
  shows "compute_quorum (replicate n a) \<lparr>min_approvals = n, min_independent = n, required_roles = [], qp_timeout = t\<rparr> =
           QuorumMet n n"
  using assms by (simp add: compute_quorum_met)

end
