(* ===== verification/Gov_Process.thy ===== *)
theory Gov_Process
  imports Deliberation
begin

text \<open>
  Governance procedures: clearance (\<open>clearance.rs\<close>), challenges (\<open>challenge.rs\<close>), succession (\<open>succession.rs\<close>),
  conflicts of interest (\<open>conflict.rs\<close>) and the independence check (\<open>crosscheck.rs\<close>), all under
  \<open>src/crates/exo-governance/src\<close>. A \<open>HashMap\<close> that is only looked up is a map; one that is iterated has
  its iteration order as an argument.
\<close>

section \<open>Clearance\<close>

datatype clearance_level = LevelNone | LevelReadOnly | LevelContributor | LevelReviewer | LevelSteward | LevelGovernor

fun level_rank :: "clearance_level \<Rightarrow> nat" where
  "level_rank LevelNone = 0"
| "level_rank LevelReadOnly = 1"
| "level_rank LevelContributor = 2"
| "level_rank LevelReviewer = 3"
| "level_rank LevelSteward = 4"
| "level_rank LevelGovernor = 5"

instantiation clearance_level :: linorder
begin

definition less_eq_clearance_level :: "clearance_level \<Rightarrow> clearance_level \<Rightarrow> bool" where
  "a \<le> b \<longleftrightarrow> level_rank a \<le> level_rank b"

definition less_clearance_level :: "clearance_level \<Rightarrow> clearance_level \<Rightarrow> bool" where
  "a < b \<longleftrightarrow> level_rank a < level_rank b"

instance
proof
  fix a b :: clearance_level
  show "a \<le> b \<Longrightarrow> b \<le> a \<Longrightarrow> a = b"
    by (cases a; cases b) (simp_all add: less_eq_clearance_level_def)
qed (auto simp: less_eq_clearance_level_def less_clearance_level_def)

end

fun level_name :: "clearance_level \<Rightarrow> string" where
  "level_name LevelNone = ''None''"
| "level_name LevelReadOnly = ''ReadOnly''"
| "level_name LevelContributor = ''Contributor''"
| "level_name LevelReviewer = ''Reviewer''"
| "level_name LevelSteward = ''Steward''"
| "level_name LevelGovernor = ''Governor''"

record action_policy =
  required_level :: clearance_level
  ap_quorum_policy :: "quorum_policy option"

type_synonym clearance_policy = "string \<rightharpoonup> action_policy"
type_synonym clearance_registry = "did \<rightharpoonup> clearance_level"

definition get_level :: "clearance_registry \<Rightarrow> did \<Rightarrow> clearance_level" where
  "get_level r actor = (case r actor of Some l \<Rightarrow> l | None \<Rightarrow> LevelNone)"

definition set_level :: "clearance_registry \<Rightarrow> did \<Rightarrow> clearance_level \<Rightarrow> clearance_registry" where
  "set_level r actor l = r(actor \<mapsto> l)"

datatype clearance_decision = ClGranted | ClDenied clearance_level | ClInsufficientIndependence string

definition check_clearance :: "did \<Rightarrow> string \<Rightarrow> clearance_policy \<Rightarrow> clearance_registry \<Rightarrow> clearance_decision" where
  "check_clearance actor action policy registry =
     (case policy action of
        None \<Rightarrow> ClDenied LevelGovernor
      | Some ap \<Rightarrow>
          if get_level registry actor < required_level ap then ClDenied (required_level ap) else ClGranted)"

text \<open>Granted exactly at or above the required level of a listed action; the level a denial names suffices.\<close>

lemma check_clearance_granted:
  "check_clearance actor action policy registry = ClGranted \<longleftrightarrow>
     (\<exists>ap. policy action = Some ap \<and> required_level ap \<le> get_level registry actor)"
  by (auto simp: check_clearance_def split: option.splits)

lemma check_clearance_denied_level:
  assumes "check_clearance actor action policy registry = ClDenied l" and "policy action \<noteq> None" and "l \<le> l'"
  shows "check_clearance actor action policy (set_level registry actor l') = ClGranted"
  using assms by (auto simp: check_clearance_def get_level_def set_level_def split: option.splits if_splits)

section \<open>Challenges\<close>

datatype challenge_ground =
    AuthorityChainInvalid | QuorumViolation | UndisclosedConflict | ProceduralError | SybilAllegation | ConsentViolation

datatype challenge_status = Filed | UnderReview | Sustained | Overruled | Withdrawn

datatype challenge_verdict = Sustain | Overrule

fun ground_name :: "challenge_ground \<Rightarrow> string" where
  "ground_name AuthorityChainInvalid = ''AuthorityChainInvalid''"
| "ground_name QuorumViolation = ''QuorumViolation''"
| "ground_name UndisclosedConflict = ''UndisclosedConflict''"
| "ground_name ProceduralError = ''ProceduralError''"
| "ground_name SybilAllegation = ''SybilAllegation''"
| "ground_name ConsentViolation = ''ConsentViolation''"

fun challenge_status_name :: "challenge_status \<Rightarrow> string" where
  "challenge_status_name Filed = ''Filed''"
| "challenge_status_name UnderReview = ''UnderReview''"
| "challenge_status_name Sustained = ''Sustained''"
| "challenge_status_name Overruled = ''Overruled''"
| "challenge_status_name Withdrawn = ''Withdrawn''"

fun challenge_verdict_name :: "challenge_verdict \<Rightarrow> string" where
  "challenge_verdict_name Sustain = ''Sustain''"
| "challenge_verdict_name Overrule = ''Overrule''"

record challenge =
  ch_id :: uuid
  challenger_did :: did
  target_action_id :: arr32
  ch_ground :: challenge_ground
  ch_evidence :: bytes
  ch_status :: challenge_status
  ch_created :: timestamp

record pause_order =
  po_challenge_id :: uuid
  po_target_action_id :: arr32
  po_reason :: string
  po_issued :: timestamp

definition file_challenge :: "uuid \<Rightarrow> timestamp \<Rightarrow> did \<Rightarrow> arr32 \<Rightarrow> challenge_ground \<Rightarrow> bytes \<Rightarrow> challenge" where
  "file_challenge u now challenger target ground evidence =
     \<lparr>ch_id = u, challenger_did = challenger, target_action_id = target, ch_ground = ground, ch_evidence = evidence,
      ch_status = Filed, ch_created = now\<rparr>"

definition pause_action :: "timestamp \<Rightarrow> challenge \<Rightarrow> pause_order" where
  "pause_action now c =
     \<lparr>po_challenge_id = ch_id c, po_target_action_id = target_action_id c,
      po_reason = ''challenged on ground: '' @ ground_name (ch_ground c), po_issued = now\<rparr>"

definition challenge_adjudicate :: "challenge \<Rightarrow> challenge_verdict \<Rightarrow> (challenge, governance_error) result" where
  "challenge_adjudicate c v =
     (if ch_status c \<in> {Filed, UnderReview}
      then Ok (c\<lparr>ch_status := (case v of Sustain \<Rightarrow> Sustained | Overrule \<Rightarrow> Overruled)\<rparr>)
      else Err (InvalidStateTransition (challenge_status_name (ch_status c)) (challenge_verdict_name v)))"

definition challenge_withdraw :: "challenge \<Rightarrow> (challenge, governance_error) result" where
  "challenge_withdraw c =
     (if ch_status c \<in> {Filed, UnderReview} then Ok (c\<lparr>ch_status := Withdrawn\<rparr>)
      else Err (InvalidStateTransition (challenge_status_name (ch_status c)) ''Withdrawn''))"

text \<open>A challenge is decided once: the decided states have no successor.\<close>

inductive challenge_step :: "challenge \<Rightarrow> challenge \<Rightarrow> bool" where
  adjudicated: "challenge_adjudicate c v = Ok c' \<Longrightarrow> challenge_step c c'"
| withdrawn: "challenge_withdraw c = Ok c' \<Longrightarrow> challenge_step c c'"

inductive_cases challenge_stepE: "challenge_step c c'"

lemma challenge_step_decides:
  "challenge_step c c' \<Longrightarrow> ch_status c \<in> {Filed, UnderReview} \<and> ch_status c' \<in> {Sustained, Overruled, Withdrawn}"
  by (auto elim!: challenge_stepE simp: challenge_adjudicate_def challenge_withdraw_def
      split: if_splits challenge_verdict.splits)

lemma challenge_step_final: "challenge_step c c' \<Longrightarrow> \<not> challenge_step c' c''"
  by (auto dest!: challenge_step_decides)

lemma challenge_decided_once:
  "challenge_step\<^sup>*\<^sup>* (file_challenge u now a t g ev) c \<Longrightarrow>
     c = file_challenge u now a t g ev \<or> (challenge_step (file_challenge u now a t g ev) c \<and> (\<forall>c'. \<not> challenge_step c c'))"
proof (induction rule: rtranclp_induct)
  case (step c c')
  then show ?case using challenge_step_final by blast
qed simp

section \<open>Succession\<close>

record succession_plan =
  sp_role :: string
  current_holder :: did
  successors :: "did list"
  sp_updated_at :: timestamp

datatype succession_trigger =
    Declaration
  | Unresponsiveness (duration_ms: u64) (last_active: timestamp)
  | DesignatedActivator did

record succession_result =
  sr_role :: string
  previous_holder :: did
  new_holder :: did
  sr_trigger :: succession_trigger
  activated_at :: timestamp

definition next_successor :: "succession_plan \<Rightarrow> did option" where
  "next_successor p = (case successors p of [] \<Rightarrow> None | d # _ \<Rightarrow> Some d)"

definition has_successors :: "succession_plan \<Rightarrow> bool" where
  "has_successors p \<longleftrightarrow> successors p \<noteq> []"

definition check_trigger :: "succession_plan \<Rightarrow> succession_trigger \<Rightarrow> timestamp \<Rightarrow> (unit, governance_error) result" where
  "check_trigger plan trigger now = (case trigger of
     Declaration \<Rightarrow> Ok ()
   | Unresponsiveness duration since \<Rightarrow>
       (let elapsed = saturating_sub (physical_ms now) (physical_ms since)
        in if elapsed < duration
           then Err (InvalidStateTransition ''active''
                  (''succession (need '' @ show_nat (unat duration) @ ''ms unresponsive, only '' @
                   show_nat (unat elapsed) @ ''ms elapsed)''))
           else Ok ())
   | DesignatedActivator activator \<Rightarrow>
       if activator = current_holder plan
       then Err (InvalidStateTransition ''self-activation'' ''use Declaration trigger for voluntary step-down'')
       else Ok ())"

definition activate_succession ::
  "succession_plan \<Rightarrow> succession_trigger \<Rightarrow> timestamp \<Rightarrow> (succession_result, governance_error) result" where
  "activate_succession plan trigger now =
     and_then (ok_or (next_successor plan) (ActionNotFound (''no successors defined for role '' @ sp_role plan))) (\<lambda>h.
     and_then (check_trigger plan trigger now) (\<lambda>_.
       Ok \<lparr>sr_role = sp_role plan, previous_holder = current_holder plan, new_holder = h, sr_trigger = trigger,
           activated_at = now\<rparr>))"

lemma unresponsive_iff:
  "\<not> saturating_sub x y < d \<longleftrightarrow> (d = 0 \<or> unat y + unat d \<le> unat x)" for x y d :: "'a::len word"
proof (cases "y \<le> x")
  case True
  then have "unat (x - y) = unat x - unat y" by (simp add: unat_sub)
  moreover have "unat y \<le> unat x" using True by (simp add: word_le_nat_alt)
  ultimately show ?thesis using True
    by (auto simp: saturating_sub_def word_less_nat_alt not_less unat_eq_0)
next
  case False
  then have "unat x < unat y" by (simp add: word_le_nat_alt)
  with False show ?thesis by (auto simp: saturating_sub_def word_less_nat_alt unat_eq_0)
qed

lemma activate_succession_ok:
  "activate_succession plan trigger now = Inr res \<longleftrightarrow>
     (\<exists>h hs. successors plan = h # hs \<and>
        res = \<lparr>sr_role = sp_role plan, previous_holder = current_holder plan, new_holder = h, sr_trigger = trigger,
               activated_at = now\<rparr>) \<and>
     (case trigger of
        Declaration \<Rightarrow> True
      | Unresponsiveness d l \<Rightarrow> d = 0 \<or> unat (physical_ms l) + unat d \<le> unat (physical_ms now)
      | DesignatedActivator a \<Rightarrow> a \<noteq> current_holder plan)"
  by (auto simp: activate_succession_def and_then_eq_Ok next_successor_def check_trigger_def Let_def
      unresponsive_iff [symmetric] split: list.splits succession_trigger.splits if_splits)

end
