(* ===== verification/Conflict.thy ===== *)
theory Conflict
  imports Gov_Process
begin

text \<open>
  Conflicts of interest and the independence of actors: \<open>src/crates/exo-governance/src/conflict.rs\<close> and
  \<open>crosscheck.rs\<close>. The three \<open>HashMap\<close>s that \<open>verify_independence\<close> iterates have their iteration orders as
  arguments.
\<close>

section \<open>Conflict declarations\<close>

datatype conflict_severity = Advisory | Material | Disqualifying

datatype conflict_error = RecusalRequired string conflict_severity

record conflict_declaration =
  declarant_did :: did
  nature :: string
  related_dids :: "did list"
  cd_timestamp :: timestamp

record conflict_request =
  cq_action_id :: string
  cq_actor_did :: did
  affected_dids :: "did list"
  cq_description :: string

record conflict =
  cf_declaration :: conflict_declaration
  cf_affected_did :: did
  cf_severity :: conflict_severity

record board_acknowledgment =
  acknowledger_did :: did
  declaration_timestamp :: timestamp
  acknowledged_at :: timestamp

record standing_conflict_register =
  sc_entries :: "conflict_declaration list"
  sc_acknowledgments :: "board_acknowledgment list"

definition scr_new :: standing_conflict_register where
  "scr_new = \<lparr>sc_entries = [], sc_acknowledgments = []\<rparr>"

definition same_declaration :: "conflict_declaration \<Rightarrow> conflict_declaration \<Rightarrow> bool" where
  "same_declaration e d \<longleftrightarrow>
     declarant_did e = declarant_did d \<and> nature e = nature d \<and> related_dids e = related_dids d"

definition scr_register :: "standing_conflict_register \<Rightarrow> conflict_declaration \<Rightarrow> standing_conflict_register" where
  "scr_register r d =
     (if list_ex (\<lambda>e. same_declaration e d) (sc_entries r) then r else r\<lparr>sc_entries := sc_entries r @ [d]\<rparr>)"

definition record_acknowledgment :: "standing_conflict_register \<Rightarrow> board_acknowledgment \<Rightarrow> standing_conflict_register" where
  "record_acknowledgment r a = r\<lparr>sc_acknowledgments := sc_acknowledgments r @ [a]\<rparr>"

definition declarations_for_action :: "standing_conflict_register \<Rightarrow> conflict_request \<Rightarrow> conflict_declaration list" where
  "declarations_for_action r action =
     filter (\<lambda>d. declarant_did d = cq_actor_did action \<and> list_ex (\<lambda>x. x \<in> set (affected_dids action)) (related_dids d))
       (sc_entries r)"

definition acknowledgment_count :: "standing_conflict_register \<Rightarrow> did \<Rightarrow> nat" where
  "acknowledgment_count r declarant = length (filter (\<lambda>a. acknowledger_did a \<noteq> declarant) (sc_acknowledgments r))"

definition severity_of :: "string \<Rightarrow> conflict_severity" where
  "severity_of nat_str =
     (if str_contains nat_str ''financial'' \<or> str_contains nat_str ''ownership'' then Disqualifying
      else if str_contains nat_str ''personal'' \<or> str_contains nat_str ''family'' then Material
      else Advisory)"

definition check_conflicts :: "did \<Rightarrow> conflict_request \<Rightarrow> conflict_declaration list \<Rightarrow> conflict list" where
  "check_conflicts actor action declarations =
     concat (map (\<lambda>decl. if declarant_did decl \<noteq> actor then []
        else concat (map (\<lambda>related. if related \<in> set (affected_dids action)
               then [\<lparr>cf_declaration = decl, cf_affected_did = related, cf_severity = severity_of (nature decl)\<rparr>]
               else []) (related_dids decl))) declarations)"

definition must_recuse :: "conflict list \<Rightarrow> bool" where
  "must_recuse conflicts = list_ex (\<lambda>c. cf_severity c = Disqualifying \<or> cf_severity c = Material) conflicts"

definition check_and_block :: "did \<Rightarrow> conflict list \<Rightarrow> (unit, conflict_error) result" where
  "check_and_block actor conflicts =
     for_check (\<lambda>c. if cf_severity c = Disqualifying \<or> cf_severity c = Material
                     then Err (RecusalRequired (did_str actor) (cf_severity c)) else Ok ()) conflicts"

definition adjusted_quorum_denominator :: "nat \<Rightarrow> nat \<Rightarrow> nat" where
  "adjusted_quorum_denominator members recused = max (members - recused) 1"

lemma check_and_block_ok: "check_and_block actor cs = Inr () \<longleftrightarrow> \<not> must_recuse cs"
  by (auto simp: check_and_block_def for_check_Ok must_recuse_def list_ex_iff)

lemma set_check_conflicts:
  "set (check_conflicts actor action ds) =
     {\<lparr>cf_declaration = d, cf_affected_did = x, cf_severity = severity_of (nature d)\<rparr> |d x.
        d \<in> set ds \<and> declarant_did d = actor \<and> x \<in> set (related_dids d) \<and> x \<in> set (affected_dids action)}"
  by (fastforce simp: check_conflicts_def split: if_splits)

lemma must_recuse_iff:
  "must_recuse (check_conflicts actor action ds) \<longleftrightarrow>
     (\<exists>d \<in> set ds. declarant_did d = actor \<and> set (related_dids d) \<inter> set (affected_dids action) \<noteq> {} \<and>
        severity_of (nature d) \<noteq> Advisory)"
proof -
  have "must_recuse cs \<longleftrightarrow> (\<exists>c \<in> set cs. cf_severity c \<noteq> Advisory)" for cs
    unfolding must_recuse_def list_ex_iff by (metis conflict_severity.distinct(1,3) conflict_severity.exhaust)
  then show ?thesis by (fastforce simp: set_check_conflicts)
qed

text \<open>The register holds no declaration twice, and registering again changes nothing.\<close>

lemma scr_register_idem: "scr_register (scr_register r d) d = scr_register r d"
  by (auto simp: scr_register_def list_ex_iff same_declaration_def)

text \<open>
  The conflict gate. Voting is blocked for an actor exactly when one of its standing declarations concerns a party
  that the action affects and its nature mentions a financial, ownership, personal or family interest; the gate
  and the advisory check agree.
\<close>

theorem conflict_gate_exact:
  "((\<exists>e. check_and_block actor (check_conflicts actor action (sc_entries r)) = Err e) \<longleftrightarrow>
      (\<exists>d \<in> set (sc_entries r). declarant_did d = actor \<and> set (related_dids d) \<inter> set (affected_dids action) \<noteq> {} \<and>
         (\<exists>w \<in> {''financial'', ''ownership'', ''personal'', ''family''}. \<exists>a b. nature d = a @ w @ b))) \<and>
   (check_and_block actor cs = Ok () \<longleftrightarrow> \<not> must_recuse cs)"
proof
  have sev: "severity_of n \<noteq> Advisory \<longleftrightarrow>
      (\<exists>w \<in> {''financial'', ''ownership'', ''personal'', ''family''}. \<exists>a b. n = a @ w @ b)" for n
    unfolding severity_of_def str_contains_iff by (auto split: if_splits)
  have "(\<exists>e. check_and_block actor cs = Err e) \<longleftrightarrow> must_recuse cs" for cs
    using check_and_block_ok [of actor cs] by (cases "check_and_block actor cs") auto
  then show "(\<exists>e. check_and_block actor (check_conflicts actor action (sc_entries r)) = Err e) \<longleftrightarrow>
      (\<exists>d \<in> set (sc_entries r). declarant_did d = actor \<and> set (related_dids d) \<inter> set (affected_dids action) \<noteq> {} \<and>
         (\<exists>w \<in> {''financial'', ''ownership'', ''personal'', ''family''}. \<exists>a b. nature d = a @ w @ b))"
    by (simp only: must_recuse_iff sev)
qed (rule check_and_block_ok)

text \<open>
  The count of acknowledgments for a declarant does not look at which declaration was acknowledged: an acknowledgment
  of somebody else's disclosure counts.
\<close>

lemma acknowledgment_count_any:
  "x \<noteq> d \<Longrightarrow> acknowledgment_count (record_acknowledgment scr_new
     \<lparr>acknowledger_did = x, declaration_timestamp = t, acknowledged_at = t'\<rparr>) d = 1"
  by (simp add: acknowledgment_count_def record_acknowledgment_def scr_new_def)

section \<open>Independence of actors\<close>

record identity_registry =
  signing_keys :: "did \<rightharpoonup> string"
  attestation_roots :: "did \<rightharpoonup> did"
  control_metadata :: "did \<rightharpoonup> string"

record cluster =
  cl_reason :: string
  cl_members :: "did list"

record independence_result =
  independent_count :: nat
  clusters :: "cluster list"
  suspicious_pairs :: "(did \<times> did) list"

record timestamped_action =
  ta_actor :: did
  ta_action_hash :: arr32
  ta_timestamp :: timestamp

record coordination_signal =
  cs_actors :: "did list"
  cs_reason :: string
  cs_confidence :: u8

text \<open>Grouping of the actors by an attribute: the keys that occur, and the actors with a given key, in order.\<close>

definition group_keys :: "('a \<rightharpoonup> 'k) \<Rightarrow> 'a list \<Rightarrow> 'k list" where
  "group_keys f xs = remdups (List.map_filter f xs)"

definition group_members :: "('a \<rightharpoonup> 'k) \<Rightarrow> 'a list \<Rightarrow> 'k \<Rightarrow> 'a list" where
  "group_members f xs k = filter (\<lambda>x. f x = Some k) xs"

text \<open>The state of the function: the clusters, the clustered names and the suspicious pairs so far.\<close>

type_synonym xstate = "cluster list \<times> did set \<times> (did \<times> did) list"

definition add_group :: "('k \<Rightarrow> string) \<Rightarrow> (did \<rightharpoonup> 'k) \<Rightarrow> did list \<Rightarrow> 'k \<Rightarrow> xstate \<Rightarrow> xstate" where
  "add_group reason f actors k = (\<lambda>(cls, clustered, pairs).
     let members = group_members f actors k in
     if length members > 1
     then (cls @ [\<lparr>cl_reason = reason k, cl_members = members\<rparr>], clustered \<union> set members, pairs)
     else (cls, clustered, pairs))"

definition member_pairs :: "did set \<Rightarrow> did list \<Rightarrow> (did \<times> did) list" where
  "member_pairs clustered ms =
     concat (map (\<lambda>i. concat (map (\<lambda>j.
       if ms ! i \<notin> clustered \<or> ms ! j \<notin> clustered then [(ms ! i, ms ! j)] else [])
       [Suc i..<length ms])) [0..<length ms])"

definition add_control_group :: "(did \<rightharpoonup> string) \<Rightarrow> did list \<Rightarrow> string \<Rightarrow> xstate \<Rightarrow> xstate" where
  "add_control_group f actors k = (\<lambda>(cls, clustered, pairs).
     let members = group_members f actors k in
     if length members > 1
     then (cls @ [\<lparr>cl_reason = ''shared control metadata: '' @ k, cl_members = members\<rparr>],
           clustered \<union> set members, pairs @ member_pairs clustered members)
     else (cls, clustered, pairs))"

definition verify_independence ::
  "(string list \<Rightarrow> string list) \<Rightarrow> (did list \<Rightarrow> did list) \<Rightarrow> (string list \<Rightarrow> string list) \<Rightarrow>
     did list \<Rightarrow> identity_registry \<Rightarrow> independence_result" where
  "verify_independence key_order root_order control_order actors reg =
     (let s1 = fold (add_group (\<lambda>k. ''shared signing key: '' @ k) (signing_keys reg) actors)
                 (key_order (group_keys (signing_keys reg) actors)) ([], {}, []);
          s2 = fold (add_group (\<lambda>d. ''shared attestation root: '' @ did_str d) (attestation_roots reg) actors)
                 (root_order (group_keys (attestation_roots reg) actors)) s1;
          (cls, clustered, pairs) = fold (add_control_group (control_metadata reg) actors)
                 (control_order (group_keys (control_metadata reg) actors)) s2
      in \<lparr>independent_count = card (set actors - clustered), clusters = cls, suspicious_pairs = pairs\<rparr>)"

definition detect_coordination :: "timestamped_action list \<Rightarrow> coordination_signal list" where
  "detect_coordination actions =
     concat (map (\<lambda>i. concat (map (\<lambda>j.
       let a = actions ! i; b = actions ! j;
           diff = abs_diff (physical_ms (ta_timestamp a)) (physical_ms (ta_timestamp b))
       in if ta_actor a = ta_actor b then []
          else if diff \<le> 100 \<and> ta_action_hash a = ta_action_hash b
          then [\<lparr>cs_actors = [ta_actor a, ta_actor b],
                 cs_reason = ''near-simultaneous identical actions ('' @ show_nat (unat diff) @ ''ms apart)'',
                 cs_confidence = 80\<rparr>]
          else [])
       [Suc i..<length actions])) [0..<length actions])"

section \<open>What the count means\<close>

definition shares :: "('a \<rightharpoonup> 'k) \<Rightarrow> 'a list \<Rightarrow> 'a \<Rightarrow> bool" where
  "shares f xs x \<longleftrightarrow> (\<exists>k. f x = Some k \<and> length (group_members f xs k) > 1)"

lemma set_group_keys: "set (group_keys f xs) = {k. \<exists>x \<in> set xs. f x = Some k}"
  by (force simp: group_keys_def List.map_filter_def)

lemma clustered_fold_add:
  "fst (snd (fold (add_group reason f xs) ks (cls, C, ps))) =
     C \<union> {x \<in> set xs. \<exists>k \<in> set ks. f x = Some k \<and> length (group_members f xs k) > 1}"
proof (induction ks arbitrary: cls C ps)
  case (Cons k ks)
  then show ?case by (auto simp: add_group_def Let_def group_members_def)
qed simp

lemma clustered_fold_control:
  "fst (snd (fold (add_control_group f xs) ks (cls, C, ps))) =
     C \<union> {x \<in> set xs. \<exists>k \<in> set ks. f x = Some k \<and> length (group_members f xs k) > 1}"
proof (induction ks arbitrary: cls C ps)
  case (Cons k ks)
  then show ?case by (auto simp: add_control_group_def Let_def group_members_def)
qed simp

lemma shares_keys:
  "set ks = set (group_keys f xs) \<Longrightarrow>
     {x \<in> set xs. \<exists>k \<in> set ks. f x = Some k \<and> length (group_members f xs k) > 1} = {x \<in> set xs. shares f xs x}"
  by (auto simp: shares_def set_group_keys)

lemma clustered_add_shares:
  "fold (add_group reason f xs) ks (cls, C, ps) = (cls', C', ps') \<Longrightarrow> set ks = set (group_keys f xs) \<Longrightarrow>
     C' = C \<union> {x \<in> set xs. shares f xs x}"
  using clustered_fold_add [of reason f xs ks cls C ps] shares_keys [of ks f xs] by simp

lemma clustered_control_shares:
  "fold (add_control_group f xs) ks (cls, C, ps) = (cls', C', ps') \<Longrightarrow> set ks = set (group_keys f xs) \<Longrightarrow>
     C' = C \<union> {x \<in> set xs. shares f xs x}"
  using clustered_fold_control [of f xs ks cls C ps] shares_keys [of ks f xs] by simp

text \<open>
  The independence count. Whatever the iteration orders of the three hash maps, the actors counted as independent
  are exactly those that share neither a signing key, nor an attestation root, nor control metadata with another
  entry of the list.
\<close>

theorem independent_count_exact:
  assumes "\<And>ks. set (key_order ks) = set ks" "\<And>ks. set (root_order ks) = set ks" "\<And>ks. set (control_order ks) = set ks"
  shows "independent_count (verify_independence key_order root_order control_order actors reg) =
           card {x \<in> set actors. \<not> shares (signing_keys reg) actors x \<and> \<not> shares (attestation_roots reg) actors x \<and>
                   \<not> shares (control_metadata reg) actors x}"
proof -
  obtain c1 C1 p1 where s1: "fold (add_group (\<lambda>k. ''shared signing key: '' @ k) (signing_keys reg) actors)
      (key_order (group_keys (signing_keys reg) actors)) ([], {}, []) = (c1, C1, p1)" by (metis surj_pair)
  obtain c2 C2 p2 where s2: "fold (add_group (\<lambda>d. ''shared attestation root: '' @ did_str d) (attestation_roots reg) actors)
      (root_order (group_keys (attestation_roots reg) actors)) (c1, C1, p1) = (c2, C2, p2)" by (metis surj_pair)
  obtain c3 C3 p3 where s3: "fold (add_control_group (control_metadata reg) actors)
      (control_order (group_keys (control_metadata reg) actors)) (c2, C2, p2) = (c3, C3, p3)" by (metis surj_pair)
  have "C1 = {} \<union> {x \<in> set actors. shares (signing_keys reg) actors x}"
    by (rule clustered_add_shares [OF s1 assms(1)])
  moreover have "C2 = C1 \<union> {x \<in> set actors. shares (attestation_roots reg) actors x}"
    by (rule clustered_add_shares [OF s2 assms(2)])
  moreover have "C3 = C2 \<union> {x \<in> set actors. shares (control_metadata reg) actors x}"
    by (rule clustered_control_shares [OF s3 assms(3)])
  ultimately have "set actors - C3 = {x \<in> set actors. \<not> shares (signing_keys reg) actors x \<and>
      \<not> shares (attestation_roots reg) actors x \<and> \<not> shares (control_metadata reg) actors x}" by auto
  then show ?thesis
    by (simp only: verify_independence_def Let_def s1 s2 s3 prod.case independence_result.select_convs)
qed

definition sample_identities :: identity_registry where
  "sample_identities = \<lparr>signing_keys = [Did ''a'' \<mapsto> ''k'', Did ''b'' \<mapsto> ''k'', Did ''c'' \<mapsto> ''l''],
     attestation_roots = Map.empty, control_metadata = Map.empty\<rparr>"

theorem independent_count_exact_witness:
  "independent_count (verify_independence rev rev rev [Did ''a'', Did ''b'', Did ''c''] sample_identities) = 1"
proof -
  have "{x \<in> set [Did ''a'', Did ''b'', Did ''c''].
      \<not> shares (signing_keys sample_identities) [Did ''a'', Did ''b'', Did ''c''] x \<and>
      \<not> shares (attestation_roots sample_identities) [Did ''a'', Did ''b'', Did ''c''] x \<and>
      \<not> shares (control_metadata sample_identities) [Did ''a'', Did ''b'', Did ''c''] x} = {Did ''c''}"
    by (auto simp: shares_def sample_identities_def group_members_def)
  then show ?thesis
    by (subst independent_count_exact) simp_all
qed

text \<open>An actor that is listed twice shares its key with itself, and is not counted.\<close>

lemma repeated_actor_not_independent: "f x = Some k \<Longrightarrow> shares f [x, x] x"
  by (simp add: shares_def group_members_def)

end
