(* ===== verification/Custody.thy ===== *)
theory Custody
  imports Merkle
begin

text \<open>
  Custody chains: \<open>src/crates/exo-governance/src/custody.rs\<close>, with the signature type of \<open>types.rs\<close>. The canonical
  encoding of an action (the CBOR crate) is a parameter.
\<close>

section \<open>Types\<close>

datatype decision_class = Operational | Strategic | Constitutional | Financial u64 | EmergencyClass | CustomClass string

definition requires_human_gate :: "decision_class \<Rightarrow> bool" where
  "requires_human_gate c = (case c of
     Constitutional \<Rightarrow> True | Strategic \<Rightarrow> True | EmergencyClass \<Rightarrow> True | _ \<Rightarrow> False)"

record sem_ver =
  sv_major :: u32
  sv_minor :: u32
  sv_patch :: u32

definition is_compatible_with :: "sem_ver \<Rightarrow> sem_ver \<Rightarrow> bool" where
  "is_compatible_with v w \<longleftrightarrow>
     sv_major v = sv_major w \<and>
     (sv_minor w < sv_minor v \<or> (sv_minor v = sv_minor w \<and> sv_patch w \<le> sv_patch v))"

lemma is_compatible_with_order:
  "is_compatible_with v v" "is_compatible_with u v \<Longrightarrow> is_compatible_with v w \<Longrightarrow> is_compatible_with u w"
  "is_compatible_with v w \<Longrightarrow> is_compatible_with w v \<Longrightarrow> v = (w :: sem_ver)"
  by (auto simp: is_compatible_with_def)

datatype gov_signer_type = GsHuman | GsAiAgent (gs_delegation_id: hash256) (gs_expires_at: u64)

record governance_signature =
  gs_signer :: did
  gs_signer_type :: gov_signer_type
  gs_signature :: signature
  gs_key_version :: u64
  gs_timestamp :: timestamp

datatype custody_action =
    CaCreate
  | CaEdit
  | CaAttachCrosscheck string
  | CaApprove
  | CaReject
  | CaAbstain
  | CaVeto
  | CaIssueClearance string
  | CaAnchor string
  | CaAdvanceStatus string string
  | CaSupersede string
  | CaDeprecate
  | CaEmergencyAction string
  | CaChallenge string
  | CaComment string
  | CaCustom string "string option"

datatype custody_role =
    CrProposer | CrReviewer | CrSteward | CrObserver | CrSystem | CrAiAgent hash256 | CrCustom string

record custody_event =
  ce_id :: string
  ce_sequence :: u64
  ce_record_hash :: hash256
  ce_prev_event_hash :: "hash256 option"
  ce_actor_id :: did
  ce_role :: custody_role
  ce_action :: custody_action
  ce_timestamp :: timestamp
  ce_signature :: "governance_signature option"
  ce_event_hash :: hash256

record custody_chain =
  cc_decision_id :: hash256
  cc_events :: "custody_event list"
  next_sequence :: u64

datatype custody_chain_error =
    SequenceGap u64 u64
  | InvalidGenesisLink
  | BrokenLink u64 hash256 hash256
  | MissingLink u64
  | CustodyHashMismatch u64 hash256 hash256

fun custody_error_msg :: "custody_chain_error \<Rightarrow> string" where
  "custody_error_msg (SequenceGap e a) = ''Sequence gap: expected '' @ show_nat (unat e) @ '', got '' @ show_nat (unat a)"
| "custody_error_msg InvalidGenesisLink = ''Genesis event should not have prev_event_hash''"
| "custody_error_msg (BrokenLink s e a) = ''Broken chain link at sequence '' @ show_nat (unat s)"
| "custody_error_msg (MissingLink s) = ''Missing prev_event_hash at sequence '' @ show_nat (unat s)"
| "custody_error_msg (CustodyHashMismatch s e a) = ''Event hash mismatch at sequence '' @ show_nat (unat s)"

section \<open>Operations\<close>

type_synonym action_cbor = "custody_action \<Rightarrow> (bytes, string) result"

definition custody_new :: "hash256 \<Rightarrow> custody_chain" where
  "custody_new d = \<lparr>cc_decision_id = d, cc_events = [], next_sequence = 0\<rparr>"

definition action_digest :: "blake3 \<Rightarrow> action_cbor \<Rightarrow> custody_action \<Rightarrow> hash256" where
  "action_digest blake3 cbor action =
     (case hash_structured blake3 cbor action of Inr h \<Rightarrow> h | Inl _ \<Rightarrow> HASH_ZERO)"

definition event_preimage ::
  "u64 \<Rightarrow> hash256 \<Rightarrow> hash256 option \<Rightarrow> did \<Rightarrow> hash256 \<Rightarrow> timestamp \<Rightarrow> bytes" where
  "event_preimage sq record_hash prev actor action_hash ts =
     to_le_bytes 8 sq @ hash_bytes record_hash @
     (case prev of Some p \<Rightarrow> hash_bytes p | None \<Rightarrow> []) @
     str_bytes (did_str actor) @ hash_bytes action_hash @
     to_le_bytes 8 (physical_ms ts) @ to_le_bytes 4 (logical ts)"

definition compute_event_hash ::
  "blake3 \<Rightarrow> action_cbor \<Rightarrow> u64 \<Rightarrow> hash256 \<Rightarrow> hash256 option \<Rightarrow> did \<Rightarrow> custody_action \<Rightarrow> timestamp \<Rightarrow> hash256" where
  "compute_event_hash blake3 cbor sq record_hash prev actor action ts =
     Hash256 (blake3 (event_preimage sq record_hash prev actor (action_digest blake3 cbor action) ts))"

definition custody_append ::
  "blake3 \<Rightarrow> action_cbor \<Rightarrow> custody_chain \<Rightarrow> did \<Rightarrow> custody_role \<Rightarrow> custody_action \<Rightarrow> hash256 \<Rightarrow> timestamp \<Rightarrow>
     governance_signature option \<Rightarrow> custody_chain \<times> custody_event" where
  "custody_append blake3 cbor c actor role action record_hash ts s =
     (let prev = (if cc_events c = [] then None else Some (ce_event_hash (last (cc_events c))));
          sq = next_sequence c;
          event = \<lparr>ce_id = ''ce-'' @ show_nat (unat (hash_bytes (cc_decision_id c) ! 0)) @ ''-'' @ show_nat (unat sq),
                   ce_sequence = sq, ce_record_hash = record_hash, ce_prev_event_hash = prev, ce_actor_id = actor,
                   ce_role = role, ce_action = action, ce_timestamp = ts, ce_signature = s,
                   ce_event_hash = compute_event_hash blake3 cbor sq record_hash prev actor action ts\<rparr>
      in (c\<lparr>next_sequence := sq + 1, cc_events := cc_events c @ [event]\<rparr>, event))"

text \<open>One round of the verification loop.\<close>

definition check_event ::
  "blake3 \<Rightarrow> action_cbor \<Rightarrow> custody_event list \<Rightarrow> nat \<times> custody_event \<Rightarrow> (unit, custody_chain_error) result" where
  "check_event blake3 cbor events = (\<lambda>(i, event).
     if \<not> i < 2 ^ 64 then Err (SequenceGap 0 (ce_sequence event))
     else if ce_sequence event \<noteq> of_nat i then Err (SequenceGap (of_nat i) (ce_sequence event))
     else and_then
       (if i = 0 then (if ce_prev_event_hash event \<noteq> None then Err InvalidGenesisLink else Ok ())
        else let expected_prev = ce_event_hash (events ! (i - 1)) in
          case ce_prev_event_hash event of
            Some p \<Rightarrow> if p \<noteq> expected_prev then Err (BrokenLink (ce_sequence event) expected_prev p) else Ok ()
          | None \<Rightarrow> Err (MissingLink (ce_sequence event)))
       (\<lambda>_. let recomputed = compute_event_hash blake3 cbor (ce_sequence event) (ce_record_hash event)
                  (ce_prev_event_hash event) (ce_actor_id event) (ce_action event) (ce_timestamp event)
            in if recomputed \<noteq> ce_event_hash event
               then Err (CustodyHashMismatch (ce_sequence event) recomputed (ce_event_hash event))
               else Ok ()))"

definition verify_integrity :: "blake3 \<Rightarrow> action_cbor \<Rightarrow> custody_chain \<Rightarrow> (unit, custody_chain_error) result" where
  "verify_integrity blake3 cbor c =
     for_check (check_event blake3 cbor (cc_events c)) (enumerate0 (cc_events c))"

definition custody_len :: "custody_chain \<Rightarrow> nat" where
  "custody_len c = length (cc_events c)"

definition custody_is_empty :: "custody_chain \<Rightarrow> bool" where
  "custody_is_empty c \<longleftrightarrow> cc_events c = []"

definition custody_latest :: "custody_chain \<Rightarrow> custody_event option" where
  "custody_latest c = (if cc_events c = [] then None else Some (last (cc_events c)))"

definition events_by_actor :: "custody_chain \<Rightarrow> string \<Rightarrow> custody_event list" where
  "events_by_actor c actor = filter (\<lambda>e. did_str (ce_actor_id e) = actor) (cc_events c)"

definition is_attestation :: "custody_action \<Rightarrow> bool" where
  "is_attestation a \<longleftrightarrow> a = CaApprove \<or> a = CaReject \<or> a = CaAbstain \<or> a = CaVeto"

definition attestations :: "custody_chain \<Rightarrow> custody_event list" where
  "attestations c = filter (\<lambda>e. is_attestation (ce_action e)) (cc_events c)"

section \<open>Verification\<close>

definition hash_before :: "custody_event list \<Rightarrow> nat \<Rightarrow> hash256 option" where
  "hash_before es i = (if i = 0 then None else Some (ce_event_hash (es ! (i - 1))))"

definition event_hash_of :: "blake3 \<Rightarrow> action_cbor \<Rightarrow> custody_event \<Rightarrow> hash256" where
  "event_hash_of blake3 cbor e =
     compute_event_hash blake3 cbor (ce_sequence e) (ce_record_hash e) (ce_prev_event_hash e) (ce_actor_id e)
       (ce_action e) (ce_timestamp e)"

definition event_ok :: "blake3 \<Rightarrow> action_cbor \<Rightarrow> custody_event list \<Rightarrow> nat \<Rightarrow> bool" where
  "event_ok blake3 cbor es i \<longleftrightarrow> i < 2 ^ 64 \<and> ce_sequence (es ! i) = of_nat i \<and>
     ce_prev_event_hash (es ! i) = hash_before es i \<and> ce_event_hash (es ! i) = event_hash_of blake3 cbor (es ! i)"

lemma check_event_iff: "check_event blake3 cbor es (i, es ! i) = Inr () \<longleftrightarrow> event_ok blake3 cbor es i"
  by (auto simp: check_event_def event_ok_def hash_before_def event_hash_of_def and_then_eq_Ok Let_def
      split: if_splits option.splits)

lemma verify_integrity_iff:
  "verify_integrity blake3 cbor c = Inr () \<longleftrightarrow> (\<forall>i < length (cc_events c). event_ok blake3 cbor (cc_events c) i)"
  by (simp only: verify_integrity_def for_check_Ok Ball_enumerate0 check_event_iff)

lemma event_ok_append: "i < length es \<Longrightarrow> event_ok blake3 cbor (es @ [e]) i \<longleftrightarrow> event_ok blake3 cbor es i"
  by (auto simp: event_ok_def hash_before_def nth_append)

text \<open>The chains that appends build; the counter is the length, as long as it does not wrap.\<close>

inductive custody_reachable :: "blake3 \<Rightarrow> action_cbor \<Rightarrow> custody_chain \<Rightarrow> bool" for blake3 cbor where
  new: "custody_reachable blake3 cbor (custody_new d)"
| append: "custody_reachable blake3 cbor c \<Longrightarrow> length (cc_events c) < 2 ^ 64 \<Longrightarrow>
    custody_reachable blake3 cbor (fst (custody_append blake3 cbor c actor role action rh ts s))"

lemma custody_reachable_verifies:
  "custody_reachable blake3 cbor c \<Longrightarrow>
     next_sequence c = of_nat (length (cc_events c)) \<and> verify_integrity blake3 cbor c = Inr ()"
proof (induction rule: custody_reachable.induct)
  case (new d)
  then show ?case by (simp add: custody_new_def verify_integrity_def)
next
  case (append c actor role action rh ts s)
  let ?es = "cc_events c"
  obtain e where e: "cc_events (fst (custody_append blake3 cbor c actor role action rh ts s)) = ?es @ [e]"
    and ok: "ce_sequence e = next_sequence c" "ce_event_hash e = event_hash_of blake3 cbor e"
      "ce_prev_event_hash e = (if ?es = [] then None else Some (ce_event_hash (last ?es)))"
    by (auto simp: custody_append_def Let_def event_hash_of_def)
  have "event_ok blake3 cbor (?es @ [e]) (length ?es)"
    using ok append by (auto simp: event_ok_def hash_before_def nth_append last_conv_nth)
  moreover have "event_ok blake3 cbor (?es @ [e]) i" if "i < length ?es" for i
    using that append.IH event_ok_append by (simp add: verify_integrity_iff)
  ultimately have "\<forall>i < length (?es @ [e]). event_ok blake3 cbor (?es @ [e]) i" by (auto simp: less_Suc_eq)
  moreover have "next_sequence (fst (custody_append blake3 cbor c actor role action rh ts s)) = of_nat (Suc (length ?es))"
    using append.IH by (simp add: custody_append_def Let_def)
  ultimately show ?case unfolding verify_integrity_iff e by simp
qed

section \<open>Tamper evidence\<close>

text \<open>The fields of an event that its hash covers, and the bytes they are hashed as.\<close>

definition covered :: "blake3 \<Rightarrow> action_cbor \<Rightarrow> custody_event \<Rightarrow>
    u64 \<times> hash256 \<times> hash256 option \<times> did \<times> hash256 \<times> timestamp" where
  "covered blake3 cbor e = (ce_sequence e, ce_record_hash e, ce_prev_event_hash e, ce_actor_id e,
     action_digest blake3 cbor (ce_action e), ce_timestamp e)"

definition event_bytes :: "blake3 \<Rightarrow> action_cbor \<Rightarrow> custody_event \<Rightarrow> bytes" where
  "event_bytes blake3 cbor e = (case covered blake3 cbor e of (sq, rh, prev, actor, ah, ts) \<Rightarrow>
     event_preimage sq rh prev actor ah ts)"

lemma event_hash_of_bytes: "event_hash_of blake3 cbor e = Hash256 (blake3 (event_bytes blake3 cbor e))"
  by (simp add: event_hash_of_def compute_event_hash_def event_bytes_def covered_def)

lemma event_preimage_inject:
  assumes "event_preimage sq rh p d ah ts = event_preimage sq' rh' p' d' ah' ts'" and "p = None \<longleftrightarrow> p' = None"
  shows "sq = sq' \<and> rh = rh' \<and> p = p' \<and> d = d' \<and> ah = ah' \<and> ts = ts'"
proof -
  let ?P = "\<lambda>p. case p of Some p \<Rightarrow> hash_bytes p | None \<Rightarrow> []"
  have len: "length (?P p) = length (?P p')" using assms(2) by (auto split: option.splits)
  have sq: "to_le_bytes 8 sq = to_le_bytes 8 sq'" and rh: "rh = rh'" and P: "?P p = ?P p'"
    and d: "str_bytes (did_str d) = str_bytes (did_str d')" and ah: "ah = ah'"
    and pm: "to_le_bytes 8 (physical_ms ts) = to_le_bytes 8 (physical_ms ts')"
    and lg: "to_le_bytes 4 (logical ts) = to_le_bytes 4 (logical ts')"
    using assms(1) len unfolding event_preimage_def by auto
  have "sq = sq'" "physical_ms ts = physical_ms ts'" "logical ts = logical ts'"
    using to_le_bytes_inject [OF sq] to_le_bytes_inject [OF pm] to_le_bytes_inject [OF lg] by simp_all
  moreover have "p = p'" using P assms(2) by (auto split: option.splits)
  moreover have "d = d'" using d by (simp add: did.expand)
  ultimately show ?thesis using rh ah by (auto intro: timestamp.expand)
qed

lemma same_hash_covered:
  assumes "event_ok blake3 cbor es i" "event_ok blake3 cbor es' i'" "ce_event_hash (es ! i) = ce_event_hash (es' ! i')"
    and "inj_on blake3 A" "event_bytes blake3 cbor (es ! i) \<in> A" "event_bytes blake3 cbor (es' ! i') \<in> A"
    and "i = 0 \<longleftrightarrow> i' = 0"
  shows "covered blake3 cbor (es ! i) = covered blake3 cbor (es' ! i')"
proof -
  have "blake3 (event_bytes blake3 cbor (es ! i)) = blake3 (event_bytes blake3 cbor (es' ! i'))"
    using assms(1-3) by (simp add: event_ok_def event_hash_of_bytes)
  then have "event_bytes blake3 cbor (es ! i) = event_bytes blake3 cbor (es' ! i')"
    using assms(4-6) by (meson inj_onD)
  moreover have "ce_prev_event_hash (es ! i) = None \<longleftrightarrow> ce_prev_event_hash (es' ! i') = None"
    using assms(1,2,7) by (auto simp: event_ok_def hash_before_def)
  ultimately show ?thesis
    using event_preimage_inject by (auto simp: event_bytes_def covered_def)
qed

text \<open>
  Custody chains are tamper-evident. A chain built by appends verifies. Two chains of the same length that verify
  and end in the same event hash agree, event by event, on everything the hash covers: sequence number, record
  hash, link, actor, digest of the action and time, unless two of the hashed strings collide.
\<close>

theorem custody_chain_tamper_evident:
  assumes "custody_reachable blake3 cbor c" and "verify_integrity blake3 cbor c' = Ok ()"
    and "length (cc_events c') = length (cc_events c)"
    and "map_option ce_event_hash (custody_latest c') = map_option ce_event_hash (custody_latest c)"
    and "inj_on blake3 (event_bytes blake3 cbor ` (set (cc_events c) \<union> set (cc_events c')))"
  shows "verify_integrity blake3 cbor c = Ok () \<and>
         map (covered blake3 cbor) (cc_events c') = map (covered blake3 cbor) (cc_events c)"
proof -
  let ?es = "cc_events c" and ?es' = "cc_events c'"
  have ver: "verify_integrity blake3 cbor c = Ok ()" using custody_reachable_verifies [OF assms(1)] by simp
  then have ok: "event_ok blake3 cbor ?es i" "event_ok blake3 cbor ?es' i" if "i < length ?es" for i
    using that assms(2,3) by (simp_all add: verify_integrity_iff)
  have cov: "covered blake3 cbor (?es ! i) = covered blake3 cbor (?es' ! i)"
    if "i < length ?es" "ce_event_hash (?es ! i) = ce_event_hash (?es' ! i)" for i
    by (rule same_hash_covered [OF ok(1) ok(2) that(2) assms(5)]) (use that assms(3) in auto)
  have last: "ce_event_hash (?es ! i) = ce_event_hash (?es' ! i)" if "Suc i = length ?es" for i
  proof -
    have "i = length ?es - 1" "?es \<noteq> []" "?es' \<noteq> []" using that assms(3) by auto
    then show ?thesis using assms(3,4) by (simp add: custody_latest_def last_conv_nth)
  qed
  have eq: "ce_event_hash (?es ! i) = ce_event_hash (?es' ! i)" if "i < length ?es" for i
    using that
  proof (induction i rule: strict_inc_induct)
    case (step i)
    show ?case
    proof (cases "Suc i = length ?es")
      case False
      then have i: "Suc i < length ?es" using step by simp
      have "hash_before ?es (Suc i) = hash_before ?es' (Suc i)"
        using cov [OF i step.IH] ok [OF i] by (simp add: covered_def event_ok_def)
      then show ?thesis by (simp add: hash_before_def)
    qed (rule last)
  qed (rule last, simp)
  have "map (covered blake3 cbor) ?es' = map (covered blake3 cbor) ?es"
    by (rule nth_equalityI) (use assms(3) cov eq in auto)
  with ver show ?thesis by blast
qed

definition toy_custody_hash :: blake3 where
  "toy_custody_hash bs = arr32_of (drop 16 bs)"

definition toy_action_cbor :: action_cbor where
  "toy_action_cbor a = Ok []"

definition sample_custody :: custody_chain where
  "sample_custody = fst (custody_append toy_custody_hash toy_action_cbor (custody_new HASH_ZERO)
     (Did ''did:exo:a'') CrProposer CaCreate HASH_ZERO TS_ZERO None)"

lemma sample_custody_reachable: "custody_reachable toy_custody_hash toy_action_cbor sample_custody"
  unfolding sample_custody_def
  by (rule custody_reachable.append [OF custody_reachable.new]) (simp add: custody_new_def)

lemma sample_custody_events: "\<exists>e. cc_events sample_custody = [e]"
  by (simp add: sample_custody_def custody_append_def custody_new_def Let_def)

text \<open>
  What the hash leaves out: the role, the signature and the identifier of an event can be replaced in a chain
  without any effect on its verification.
\<close>

lemma custody_role_unbound:
  assumes "verify_integrity blake3 cbor c = Ok ()"
  shows "verify_integrity blake3 cbor
    (c\<lparr>cc_events := map (\<lambda>e. e\<lparr>ce_role := r, ce_signature := s, ce_id := x\<rparr>) (cc_events c)\<rparr>) = Ok ()"
  using assms by (auto simp: verify_integrity_iff event_ok_def hash_before_def event_hash_of_def)

definition retagged_custody :: custody_chain where
  "retagged_custody = sample_custody\<lparr>cc_events :=
     map (\<lambda>e. e\<lparr>ce_role := CrSystem, ce_signature := None, ce_id := []\<rparr>) (cc_events sample_custody)\<rparr>"

theorem custody_chain_tamper_evident_witness:
  "map (covered toy_custody_hash toy_action_cbor) (cc_events retagged_custody) =
     map (covered toy_custody_hash toy_action_cbor) (cc_events sample_custody)"
proof -
  obtain e where e: "cc_events sample_custody = [e]" using sample_custody_events by blast
  have "verify_integrity toy_custody_hash toy_action_cbor retagged_custody = Ok ()"
    unfolding retagged_custody_def
    using custody_reachable_verifies [OF sample_custody_reachable] by (intro custody_role_unbound) simp
  moreover have "inj_on toy_custody_hash (event_bytes toy_custody_hash toy_action_cbor `
      (set (cc_events sample_custody) \<union> set (cc_events retagged_custody)))"
    by (simp add: retagged_custody_def e event_bytes_def covered_def)
  ultimately show ?thesis
    using custody_chain_tamper_evident [OF sample_custody_reachable, of retagged_custody]
    by (simp add: retagged_custody_def custody_latest_def e)
qed

end
