(* ===== verification/Bcts_Pipeline.thy ===== *)
theory Bcts_Pipeline
  imports Bcts
begin

text \<open>
  The pipeline of \<open>src/crates/exo-bcts\<close>: its own table of states, transactions with a ledger of events,
  the executor that takes a transaction through nine stages under a validator, and the nine invariant
  checks. SHA-256 with its hexadecimal printing, the text of a JSON value and of an instant, fresh
  identifiers and the reading of the clock are parameters; the validator is a function with a state of
  its own, as a mutable closure is.
\<close>

section \<open>States\<close>

datatype pl_state =
    PlDraft
  | PlSubmitted
  | PlIdentityResolved
  | PlConsentValidated
  | PlDeliberated
  | PlVerified
  | PlGoverned
  | PlApproved
  | PlExecuted
  | PlRecorded
  | PlClosed
  | PlDenied
  | PlEscalated
  | PlRemediated

fun pl_state_name :: "pl_state \<Rightarrow> string" where
  "pl_state_name PlDraft = ''Draft''"
| "pl_state_name PlSubmitted = ''Submitted''"
| "pl_state_name PlIdentityResolved = ''Identity Resolved''"
| "pl_state_name PlConsentValidated = ''Consent Validated''"
| "pl_state_name PlDeliberated = ''Deliberated''"
| "pl_state_name PlVerified = ''Verified''"
| "pl_state_name PlGoverned = ''Governed''"
| "pl_state_name PlApproved = ''Approved''"
| "pl_state_name PlExecuted = ''Executed''"
| "pl_state_name PlRecorded = ''Recorded''"
| "pl_state_name PlClosed = ''Closed''"
| "pl_state_name PlDenied = ''Denied''"
| "pl_state_name PlEscalated = ''Escalated''"
| "pl_state_name PlRemediated = ''Remediated''"

definition TERMINAL_STATES :: "pl_state list" where
  "TERMINAL_STATES = [PlClosed, PlDenied]"

fun pl_valid_transitions :: "pl_state \<Rightarrow> pl_state list" where
  "pl_valid_transitions PlDraft = [PlSubmitted]"
| "pl_valid_transitions PlSubmitted = [PlIdentityResolved, PlDenied]"
| "pl_valid_transitions PlIdentityResolved = [PlConsentValidated, PlDenied]"
| "pl_valid_transitions PlConsentValidated = [PlDeliberated, PlDenied, PlEscalated]"
| "pl_valid_transitions PlDeliberated = [PlVerified, PlDenied, PlEscalated]"
| "pl_valid_transitions PlVerified = [PlGoverned, PlDenied]"
| "pl_valid_transitions PlGoverned = [PlApproved, PlDenied, PlEscalated]"
| "pl_valid_transitions PlApproved = [PlExecuted, PlDenied]"
| "pl_valid_transitions PlExecuted = [PlRecorded]"
| "pl_valid_transitions PlRecorded = [PlClosed]"
| "pl_valid_transitions PlClosed = []"
| "pl_valid_transitions PlDenied = [PlRemediated]"
| "pl_valid_transitions PlEscalated = [PlDeliberated, PlDenied]"
| "pl_valid_transitions PlRemediated = [PlSubmitted]"

definition pl_can_transition :: "pl_state \<Rightarrow> pl_state \<Rightarrow> bool" where
  "pl_can_transition s t = List.member (pl_valid_transitions s) t"

definition pl_is_terminal :: "pl_state \<Rightarrow> bool" where
  "pl_is_terminal s = List.member TERMINAL_STATES s"

fun state_description :: "pl_state \<Rightarrow> string" where
  "state_description PlDraft = ''Transaction created but not yet submitted for processing''"
| "state_description PlSubmitted = ''Transaction submitted and awaiting identity verification''"
| "state_description PlIdentityResolved = ''Actor identity verified via DID/credential check''"
| "state_description PlConsentValidated = ''Active bailment confirmed '' @ em_dash @ '' consent boundaries verified''"
| "state_description PlDeliberated = ''Governance deliberation complete '' @ em_dash @ '' quorum reached''"
| "state_description PlVerified = ''Constitutional invariants verified by CGR kernel''"
| "state_description PlGoverned = ''Governance rules applied '' @ em_dash @ '' compliance confirmed''"
| "state_description PlApproved = ''Transaction approved for execution''"
| "state_description PlExecuted = ''Transaction executed '' @ em_dash @ '' state change applied''"
| "state_description PlRecorded = ''Transaction recorded in append-only audit ledger''"
| "state_description PlClosed = ''Transaction finalized '' @ em_dash @ '' immutable''"
| "state_description PlDenied = ''Transaction denied '' @ em_dash @ '' violation evidence recorded''"
| "state_description PlEscalated = ''Transaction escalated for human review''"
| "state_description PlRemediated = ''Denial remediated '' @ em_dash @ '' resubmission permitted''"

fun pipeline_stage_of :: "pl_state \<Rightarrow> string option" where
  "pipeline_stage_of PlDraft = Some ''propose''"
| "pipeline_stage_of PlSubmitted = Some ''propose''"
| "pipeline_stage_of PlIdentityResolved = Some ''authenticate''"
| "pipeline_stage_of PlConsentValidated = Some ''gate''"
| "pipeline_stage_of PlDeliberated = Some ''gate''"
| "pipeline_stage_of PlVerified = Some ''prove''"
| "pipeline_stage_of PlGoverned = Some ''prove''"
| "pipeline_stage_of PlApproved = Some ''commit''"
| "pipeline_stage_of PlExecuted = Some ''anchor''"
| "pipeline_stage_of PlRecorded = Some ''audit''"
| "pipeline_stage_of PlClosed = Some ''audit''"
| "pipeline_stage_of _ = None"

section \<open>Transactions\<close>

datatype pl_signer_type = PlHuman | PlAi

type_synonym datetime = int

record 'json event_envelope =
  env_id :: string
  env_correlation_id :: string
  env_actor_did :: string
  env_action :: string
  env_payload :: 'json
  env_timestamp :: datetime
  env_parent_ids :: "string list"
  env_signature :: "string option"
  env_signer_type :: pl_signer_type

record ledger_event =
  le_id :: string
  le_transaction_id :: string
  le_from :: pl_state
  le_to :: pl_state
  le_actor_did :: string
  le_timestamp :: datetime
  le_evidence :: "string option"
  le_proof_hash :: string

record 'json pl_transaction =
  pl_id :: string
  pl_state :: pl_state
  pl_envelope :: "'json event_envelope"
  pl_ledger :: "ledger_event list"
  pl_created_at :: datetime
  pl_updated_at :: datetime
  pl_metadata :: 'json

text \<open>
  What the operations read from outside: \<open>hex::encode(Sha256::digest(_))\<close> of a text, the text of an
  instant, the canonical JSON text of the five fields of a proposal, and the null JSON value.
\<close>

record 'json pl_env =
  sha256_hex :: "string \<Rightarrow> string"
  rfc3339 :: "datetime \<Rightarrow> string"
  canonical_json :: "string \<Rightarrow> string \<Rightarrow> 'json \<Rightarrow> string \<Rightarrow> string list \<Rightarrow> string"
  json_null :: 'json

definition create_transaction ::
  "'json pl_env \<Rightarrow> string \<Rightarrow> string \<Rightarrow> datetime \<Rightarrow> string \<Rightarrow> string \<Rightarrow> 'json \<Rightarrow> pl_signer_type \<Rightarrow> string list \<Rightarrow>
     'json pl_transaction" where
  "create_transaction env uuid uuid' now actor action payload signer parents =
     \<lparr>pl_id = uuid, pl_state = PlDraft,
      pl_envelope =
        \<lparr>env_id = uuid',
         env_correlation_id = sha256_hex env (canonical_json env actor action payload (rfc3339 env now) parents),
         env_actor_did = actor, env_action = action, env_payload = payload, env_timestamp = now,
         env_parent_ids = parents, env_signature = None, env_signer_type = signer\<rparr>,
      pl_ledger = [], pl_created_at = now, pl_updated_at = now, pl_metadata = json_null env\<rparr>"

text \<open>\<open>transition\<close>: the identifier and the instant of the event are arguments, read once both guards have passed.\<close>

definition pl_transition ::
  "'json pl_env \<Rightarrow> string \<Rightarrow> datetime \<Rightarrow> 'json pl_transaction \<Rightarrow> pl_state \<Rightarrow> string \<Rightarrow> string option \<Rightarrow>
     ('json pl_transaction, string) result" where
  "pl_transition env uuid now tx to actor evidence =
     (if pl_is_terminal (pl_state tx)
      then Err (''transaction '' @ pl_id tx @ '' is in terminal state: '' @ pl_state_name (pl_state tx))
      else if \<not> pl_can_transition (pl_state tx) to
      then Err (''invalid transition: '' @ pl_state_name (pl_state tx) @ '' -> '' @ pl_state_name to @
                '' for transaction '' @ pl_id tx)
      else
        let proof_data = pl_id tx @ ''|'' @ pl_state_name (pl_state tx) @ ''|'' @ pl_state_name to @ ''|'' @
                         actor @ ''|'' @ rfc3339 env now;
            event = \<lparr>le_id = uuid, le_transaction_id = pl_id tx, le_from = pl_state tx, le_to = to,
                     le_actor_did = actor, le_timestamp = now, le_evidence = evidence,
                     le_proof_hash = sha256_hex env proof_data\<rparr>
        in Ok (tx\<lparr>pl_state := to, pl_ledger := pl_ledger tx @ [event], pl_updated_at := now\<rparr>))"

fun verify_ledger_loop :: "pl_state \<Rightarrow> ledger_event list \<Rightarrow> pl_state option" where
  "verify_ledger_loop expected [] = Some expected"
| "verify_ledger_loop expected (event # events) =
     (if le_from event \<noteq> expected then None
      else if \<not> pl_can_transition (le_from event) (le_to event) then None
      else verify_ledger_loop (le_to event) events)"

definition verify_ledger :: "'json pl_transaction \<Rightarrow> bool" where
  "verify_ledger tx =
     (case verify_ledger_loop PlDraft (pl_ledger tx) of None \<Rightarrow> False | Some expected \<Rightarrow> expected = pl_state tx)"

section \<open>The pipeline\<close>

record pipeline_stage =
  st_name :: string
  st_from :: pl_state
  st_to :: pl_state

abbreviation stage :: "string \<Rightarrow> pl_state \<Rightarrow> pl_state \<Rightarrow> pipeline_stage" where
  "stage nm s t \<equiv> \<lparr>st_name = nm, st_from = s, st_to = t\<rparr>"

definition PIPELINE_STAGES :: "pipeline_stage list" where
  "PIPELINE_STAGES =
     [stage ''propose'' PlDraft PlSubmitted,
      stage ''authenticate'' PlSubmitted PlIdentityResolved,
      stage ''gate'' PlIdentityResolved PlConsentValidated,
      stage ''deliberate'' PlConsentValidated PlDeliberated,
      stage ''prove'' PlDeliberated PlVerified,
      stage ''govern'' PlVerified PlGoverned,
      stage ''commit'' PlGoverned PlApproved,
      stage ''anchor'' PlApproved PlExecuted,
      stage ''audit'' PlExecuted PlRecorded]"

record stage_result =
  sr_stage :: string
  sr_success :: bool
  sr_evidence :: "string option"
  sr_error :: "string option"

record 'json pipeline_result =
  pr_transaction :: "'json pl_transaction"
  pr_stages :: "stage_result list"
  pr_failed_at :: "string option"

text \<open>
  \<open>if let Ok(next) = transition(...) { current = next }\<close>: a refused transition leaves the transaction.
  The readings of the outside are a stream; the \<open>n\<close>-th transition that passes its guards takes the \<open>n\<close>-th.
\<close>

definition transition_or_keep ::
  "'json pl_env \<Rightarrow> (nat \<Rightarrow> string \<times> datetime) \<Rightarrow> nat \<Rightarrow> 'json pl_transaction \<Rightarrow> pl_state \<Rightarrow> string \<Rightarrow> string \<Rightarrow>
     'json pl_transaction" where
  "transition_or_keep env fresh n tx to actor evidence =
     (case pl_transition env (fst (fresh n)) (snd (fresh n)) tx to actor (Some evidence) of
        Inl _ \<Rightarrow> tx | Inr tx' \<Rightarrow> tx')"

type_synonym ('v, 'json) validator = "'v \<Rightarrow> string \<Rightarrow> 'json pl_transaction \<Rightarrow> 'v \<times> (string, string) result"

fun run_stages ::
  "'json pl_env \<Rightarrow> (nat \<Rightarrow> string \<times> datetime) \<Rightarrow> string \<Rightarrow> ('v, 'json) validator \<Rightarrow> 'v \<Rightarrow> nat \<Rightarrow>
     'json pl_transaction \<Rightarrow> stage_result list \<Rightarrow> pipeline_stage list \<Rightarrow> 'v \<times> 'json pipeline_result" where
  "run_stages env fresh actor validator v n current results [] =
     (v, \<lparr>pr_transaction = transition_or_keep env fresh n current PlClosed actor ''pipeline-complete'',
          pr_stages = results, pr_failed_at = None\<rparr>)"
| "run_stages env fresh actor validator v n current results (stg # rest) =
     (case validator v (st_name stg) current of
        (v', Inr evidence) \<Rightarrow>
          (case pl_transition env (fst (fresh n)) (snd (fresh n)) current (st_to stg) actor (Some evidence) of
             Inr tx' \<Rightarrow>
               run_stages env fresh actor validator v' (n + 1) tx'
                 (results @ [\<lparr>sr_stage = st_name stg, sr_success = True, sr_evidence = Some evidence, sr_error = None\<rparr>])
                 rest
           | Inl e \<Rightarrow>
               (v', \<lparr>pr_transaction = transition_or_keep env fresh n current PlDenied actor e,
                     pr_stages = results @ [\<lparr>sr_stage = st_name stg, sr_success = False,
                                            sr_evidence = Some evidence, sr_error = Some e\<rparr>],
                     pr_failed_at = Some (st_name stg)\<rparr>))
      | (v', Inl reason) \<Rightarrow>
          (v', \<lparr>pr_transaction = transition_or_keep env fresh n current PlDenied actor reason,
                pr_stages = results @ [\<lparr>sr_stage = st_name stg, sr_success = False,
                                       sr_evidence = None, sr_error = Some reason\<rparr>],
                pr_failed_at = Some (st_name stg)\<rparr>))"

definition run_pipeline ::
  "'json pl_env \<Rightarrow> (nat \<Rightarrow> string \<times> datetime) \<Rightarrow> ('v, 'json) validator \<Rightarrow> 'v \<Rightarrow> 'json pl_transaction \<Rightarrow> string \<Rightarrow>
     'v \<times> 'json pipeline_result" where
  "run_pipeline env fresh validator v tx actor = run_stages env fresh actor validator v 0 tx [] PIPELINE_STAGES"

definition stage_description :: "string \<Rightarrow> string" where
  "stage_description nm =
     (if nm = ''propose'' then ''Create and submit the transaction envelope with action and payload''
      else if nm = ''authenticate'' then ''Verify actor identity via DID credential and Ed25519 signature''
      else if nm = ''gate'' then ''Validate active bailment consent boundaries''
      else if nm = ''deliberate'' then ''Governance deliberation '' @ em_dash @ '' quorum reached, decision recorded''
      else if nm = ''prove'' then ''CGR kernel verifies all 9 constitutional invariants''
      else if nm = ''govern'' then ''Apply governance rules '' @ em_dash @ '' compliance confirmed''
      else if nm = ''commit'' then ''Approved transaction receives cryptographic proof certificate''
      else if nm = ''anchor'' then ''Execute the state change and anchor to external trust sources''
      else if nm = ''audit'' then ''Record the transaction in the append-only audit ledger with HLC timestamp''
      else ''Unknown pipeline stage'')"

section \<open>The invariant checks\<close>

datatype pl_invariant =
    Inv001NoSelfModify
  | Inv002NoSelfGrant
  | Inv003ConsentPrecedesAccess
  | Inv004TrainingConsentRequired
  | Inv005AlignmentFloor
  | Inv006AuditCompleteness
  | Inv007HumanOverridePreserved
  | Inv008KernelImmutable
  | Inv009RegistryImmutable

fun pl_invariant_name :: "pl_invariant \<Rightarrow> string" where
  "pl_invariant_name Inv001NoSelfModify = ''INV-001 No Self-Modify''"
| "pl_invariant_name Inv002NoSelfGrant = ''INV-002 No Self-Grant''"
| "pl_invariant_name Inv003ConsentPrecedesAccess = ''INV-003 Consent Precedes Access''"
| "pl_invariant_name Inv004TrainingConsentRequired = ''INV-004 Training Consent Required''"
| "pl_invariant_name Inv005AlignmentFloor = ''INV-005 Alignment Floor''"
| "pl_invariant_name Inv006AuditCompleteness = ''INV-006 Audit Completeness''"
| "pl_invariant_name Inv007HumanOverridePreserved = ''INV-007 Human Override Preserved''"
| "pl_invariant_name Inv008KernelImmutable = ''INV-008 Kernel Immutable''"
| "pl_invariant_name Inv009RegistryImmutable = ''INV-009 Registry Immutable''"

definition ALL_INVARIANTS :: "pl_invariant list" where
  "ALL_INVARIANTS =
     [Inv001NoSelfModify,
      Inv002NoSelfGrant,
      Inv003ConsentPrecedesAccess,
      Inv004TrainingConsentRequired,
      Inv005AlignmentFloor,
      Inv006AuditCompleteness,
      Inv007HumanOverridePreserved,
      Inv008KernelImmutable,
      Inv009RegistryImmutable]"

text \<open>Alignment scores are floating-point numbers: their comparison and printing are parameters.\<close>

record 'f pl_inv_context =
  ic_actor_did :: string
  ic_actor_capabilities :: "string list"
  ic_active_bailment_ids :: "string list"
  ic_human_override_available :: bool
  ic_alignment_score :: "'f option"
  ic_alignment_threshold :: "'f option"

record pl_check_result =
  cr_invariant :: pl_invariant
  cr_passed :: bool
  cr_evidence :: "string option"
  cr_violation :: "string option"

definition check_result :: "pl_invariant \<Rightarrow> bool \<Rightarrow> string \<Rightarrow> string \<Rightarrow> pl_check_result" where
  "check_result invariant passed evidence violation =
     \<lparr>cr_invariant = invariant, cr_passed = passed,
      cr_evidence = (if passed then Some evidence else None),
      cr_violation = (if \<not> passed then Some violation else None)\<rparr>"

text \<open>
  \<open>json_field_str payload key\<close> stands for \<open>payload.get(key).and_then(|v| v.as_str())\<close>.
\<close>

fun pl_check_invariant ::
  "('json \<Rightarrow> string \<Rightarrow> string option) \<Rightarrow> ('f \<Rightarrow> 'f \<Rightarrow> bool) \<Rightarrow> ('f \<Rightarrow> string) \<Rightarrow> pl_invariant \<Rightarrow>
     'json pl_transaction \<Rightarrow> 'f pl_inv_context \<Rightarrow> pl_check_result" where
  "pl_check_invariant json_field_str f_ge f_show Inv001NoSelfModify tx ctx =
     (let violates = starts_with (env_action (pl_envelope tx)) ''modify:invariant'' \<and>
                     env_actor_did (pl_envelope tx) = ic_actor_did ctx
      in check_result Inv001NoSelfModify (\<not> violates) ''no self-modification attempted''
           ''actor attempted to modify its own invariants'')"
| "pl_check_invariant json_field_str f_ge f_show Inv002NoSelfGrant tx ctx =
     (let violates = (starts_with (env_action (pl_envelope tx)) ''grant:'' \<or>
                      starts_with (env_action (pl_envelope tx)) ''escalate:'') \<and>
                     json_field_str (env_payload (pl_envelope tx)) ''target_did'' =
                       Some (env_actor_did (pl_envelope tx))
      in check_result Inv002NoSelfGrant (\<not> violates) ''no self-grant attempted''
           ''actor attempted to grant capabilities to itself'')"
| "pl_check_invariant json_field_str f_ge f_show Inv003ConsentPrecedesAccess tx ctx =
     check_result Inv003ConsentPrecedesAccess (ic_active_bailment_ids ctx \<noteq> [])
       (''active bailments: '' @ show_nat (length (ic_active_bailment_ids ctx)))
       (''no active bailment '' @ em_dash @ '' consent must precede access'')"
| "pl_check_invariant json_field_str f_ge f_show Inv004TrainingConsentRequired tx ctx =
     (if \<not> (starts_with (env_action (pl_envelope tx)) ''train:'' \<or>
             starts_with (env_action (pl_envelope tx)) ''fine-tune:'')
      then check_result Inv004TrainingConsentRequired True ''not a training action'' []
      else check_result Inv004TrainingConsentRequired (ic_active_bailment_ids ctx \<noteq> [])
             ''training consent confirmed'' ''AI training requires explicit consent via bailment'')"
| "pl_check_invariant json_field_str f_ge f_show Inv005AlignmentFloor tx ctx =
     (case (ic_alignment_score ctx, ic_alignment_threshold ctx) of
        (Some score, Some threshold) \<Rightarrow>
          check_result Inv005AlignmentFloor (f_ge score threshold)
            (''alignment '' @ f_show score @ '' >= '' @ f_show threshold)
            (''alignment '' @ f_show score @ '' below threshold '' @ f_show threshold)
      | _ \<Rightarrow> check_result Inv005AlignmentFloor True ''no alignment threshold configured'' [])"
| "pl_check_invariant json_field_str f_ge f_show Inv006AuditCompleteness tx ctx =
     check_result Inv006AuditCompleteness (pl_ledger tx \<noteq> [] \<or> pl_state tx = PlDraft)
       (show_nat (length (pl_ledger tx)) @ '' ledger events recorded'') ''state change without audit record''"
| "pl_check_invariant json_field_str f_ge f_show Inv007HumanOverridePreserved tx ctx =
     check_result Inv007HumanOverridePreserved (ic_human_override_available ctx)
       ''human override available'' ''system must preserve human override capability''"
| "pl_check_invariant json_field_str f_ge f_show Inv008KernelImmutable tx ctx =
     check_result Inv008KernelImmutable (\<not> starts_with (env_action (pl_envelope tx)) ''modify:kernel'')
       ''no kernel modification attempted'' ''kernel modification requires constitutional amendment''"
| "pl_check_invariant json_field_str f_ge f_show Inv009RegistryImmutable tx ctx =
     check_result Inv009RegistryImmutable (\<not> starts_with (env_action (pl_envelope tx)) ''modify:registry'')
       ''no registry modification attempted'' ''registry modification requires constitutional amendment''"

definition check_all_invariants ::
  "('json \<Rightarrow> string \<Rightarrow> string option) \<Rightarrow> ('f \<Rightarrow> 'f \<Rightarrow> bool) \<Rightarrow> ('f \<Rightarrow> string) \<Rightarrow>
     'json pl_transaction \<Rightarrow> 'f pl_inv_context \<Rightarrow> pl_check_result list" where
  "check_all_invariants json_field_str f_ge f_show tx ctx =
     map (\<lambda>inv. pl_check_invariant json_field_str f_ge f_show inv tx ctx) ALL_INVARIANTS"

section \<open>Transitions\<close>

lemma pl_transition_Ok_iff:
  "pl_transition env uuid now tx to actor evidence = Inr tx' \<longleftrightarrow>
     \<not> pl_is_terminal (pl_state tx) \<and> pl_can_transition (pl_state tx) to \<and>
     (\<exists>event. le_from event = pl_state tx \<and> le_to event = to \<and> le_evidence event = evidence \<and>
        event = \<lparr>le_id = uuid, le_transaction_id = pl_id tx, le_from = pl_state tx, le_to = to,
                 le_actor_did = actor, le_timestamp = now, le_evidence = evidence,
                 le_proof_hash = sha256_hex env (pl_id tx @ ''|'' @ pl_state_name (pl_state tx) @ ''|'' @
                   pl_state_name to @ ''|'' @ actor @ ''|'' @ rfc3339 env now)\<rparr> \<and>
        tx' = tx\<lparr>pl_state := to, pl_ledger := pl_ledger tx @ [event], pl_updated_at := now\<rparr>)"
  by (auto simp: pl_transition_def Let_def)

text \<open>What a list of events appended to a ledger records: a walk of the state graph with its evidence.\<close>

definition records :: "ledger_event list \<Rightarrow> (pl_state \<times> pl_state \<times> string option) list" where
  "records = map (\<lambda>e. (le_from e, le_to e, le_evidence e))"

lemma verify_ledger_loop_append:
  "verify_ledger_loop s (xs @ ys) = Option.bind (verify_ledger_loop s xs) (\<lambda>t. verify_ledger_loop t ys)"
  by (induction xs arbitrary: s) auto

lemma verify_ledger_transition:
  assumes "pl_transition env uuid now tx to actor evidence = Inr tx'" and "verify_ledger tx"
  shows "verify_ledger tx'"
  using assms by (auto simp: pl_transition_Ok_iff verify_ledger_def verify_ledger_loop_append split: option.splits)

lemma verify_ledger_transition_or_keep:
  "verify_ledger tx \<Longrightarrow> verify_ledger (transition_or_keep env fresh n tx to actor evidence)"
  by (auto simp: transition_or_keep_def verify_ledger_transition split: sum.splits)

lemma verify_ledger_run_stages:
  "verify_ledger tx \<Longrightarrow> verify_ledger (pr_transaction (snd (run_stages env fresh actor validator v n tx rs stgs)))"
  by (induction stgs arbitrary: v n tx rs)
    (auto simp: verify_ledger_transition_or_keep verify_ledger_transition split: prod.splits sum.splits)

section \<open>The executor\<close>

text \<open>The stages follow each other along edges of the graph, out of states that are not terminal.\<close>

fun stage_chain :: "pl_state \<Rightarrow> pipeline_stage list \<Rightarrow> bool" where
  "stage_chain s [] = True"
| "stage_chain s (stg # stgs) =
     (st_from stg = s \<and> \<not> pl_is_terminal s \<and> pl_can_transition s (st_to stg) \<and> stage_chain (st_to stg) stgs)"

lemma stage_chain_PIPELINE_STAGES: "stage_chain PlDraft PIPELINE_STAGES"
  by (simp add: PIPELINE_STAGES_def pl_is_terminal_def TERMINAL_STATES_def pl_can_transition_def)

text \<open>
  The validator accepts, or rejects, a stage of a transaction that is in the state the stage starts
  from; \<open>r\<close> is the result the executor reports for it.
\<close>

definition accepted :: "('v, 'json) validator \<Rightarrow> pipeline_stage \<Rightarrow> stage_result \<Rightarrow> bool" where
  "accepted validator stg r \<longleftrightarrow>
     (\<exists>v t w e. validator v (st_name stg) t = (w, Inr e) \<and> pl_state t = st_from stg \<and>
        r = \<lparr>sr_stage = st_name stg, sr_success = True, sr_evidence = Some e, sr_error = None\<rparr>)"

definition rejected :: "('v, 'json) validator \<Rightarrow> pipeline_stage \<Rightarrow> stage_result \<Rightarrow> string \<Rightarrow> bool" where
  "rejected validator stg r reason \<longleftrightarrow>
     (\<exists>v t w. validator v (st_name stg) t = (w, Inl reason) \<and> pl_state t = st_from stg \<and>
        r = \<lparr>sr_stage = st_name stg, sr_success = False, sr_evidence = None, sr_error = Some reason\<rparr>)"

definition walk :: "pipeline_stage list \<Rightarrow> stage_result list \<Rightarrow> (pl_state \<times> pl_state \<times> string option) list" where
  "walk stgs rs = map2 (\<lambda>stg r. (st_from stg, st_to stg, sr_evidence r)) stgs rs"

lemma run_stages_outcome:
  "stage_chain (pl_state tx) stgs \<Longrightarrow>
   \<exists>k oks mid n' w. k \<le> length stgs \<and> list_all2 (accepted validator) (take k stgs) oks \<and>
     records (pl_ledger mid) = records (pl_ledger tx) @ walk (take k stgs) oks \<and>
     pl_state mid = last (pl_state tx # map st_to (take k stgs)) \<and>
     (if k = length stgs
      then run_stages env fresh actor validator v n tx rs stgs =
             (w, \<lparr>pr_transaction = transition_or_keep env fresh n' mid PlClosed actor ''pipeline-complete'',
                  pr_stages = rs @ oks, pr_failed_at = None\<rparr>)
      else \<exists>bad reason. rejected validator (stgs ! k) bad reason \<and>
             run_stages env fresh actor validator v n tx rs stgs =
               (w, \<lparr>pr_transaction = transition_or_keep env fresh n' mid PlDenied actor reason,
                    pr_stages = rs @ oks @ [bad], pr_failed_at = Some (st_name (stgs ! k))\<rparr>))"
proof (induction stgs arbitrary: v n tx rs)
  case Nil
  show ?case
    by (intro exI [of _ 0] exI [of _ "[]"] exI [of _ tx] exI [of _ n] exI [of _ v]) (simp add: walk_def)
next
  case (Cons stg stgs)
  obtain w r where call: "validator v (st_name stg) tx = (w, r)" by fastforce
  show ?case
  proof (cases r)
    case (Inl reason)
    with call Cons.prems show ?thesis
      by (intro exI [of _ 0] exI [of _ "[]"] exI [of _ tx] exI [of _ n] exI [of _ w])
        (auto simp: walk_def rejected_def)
  next
    case (Inr e)
    let ?ok = "\<lparr>sr_stage = st_name stg, sr_success = True, sr_evidence = Some e, sr_error = None\<rparr>"
    from Cons.prems obtain tx' where step:
      "pl_transition env (fst (fresh n)) (snd (fresh n)) tx (st_to stg) actor (Some e) = Inr tx'"
      by (simp add: pl_transition_def Let_def)
    then have tx': "pl_state tx' = st_to stg"
      "records (pl_ledger tx') = records (pl_ledger tx) @ [(pl_state tx, st_to stg, Some e)]"
      by (auto simp: pl_transition_Ok_iff records_def)
    with Cons.prems have "stage_chain (pl_state tx') stgs" by simp
    from Cons.IH [OF this, of w "n + 1" "rs @ [?ok]"] obtain k oks mid n' w' where ih:
      "k \<le> length stgs" "list_all2 (accepted validator) (take k stgs) oks"
      "records (pl_ledger mid) = records (pl_ledger tx') @ walk (take k stgs) oks"
      "pl_state mid = last (pl_state tx' # map st_to (take k stgs))"
      "if k = length stgs
       then run_stages env fresh actor validator w (n + 1) tx' (rs @ [?ok]) stgs =
             (w', \<lparr>pr_transaction = transition_or_keep env fresh n' mid PlClosed actor ''pipeline-complete'',
                  pr_stages = (rs @ [?ok]) @ oks, pr_failed_at = None\<rparr>)
       else \<exists>bad reason. rejected validator (stgs ! k) bad reason \<and>
             run_stages env fresh actor validator w (n + 1) tx' (rs @ [?ok]) stgs =
               (w', \<lparr>pr_transaction = transition_or_keep env fresh n' mid PlDenied actor reason,
                    pr_stages = (rs @ [?ok]) @ oks @ [bad], pr_failed_at = Some (st_name (stgs ! k))\<rparr>)"
      by blast
    have "accepted validator stg ?ok"
      using call Inr Cons.prems unfolding accepted_def by auto
    with ih call Inr step tx' Cons.prems show ?thesis
      by (intro exI [of _ "Suc k"] exI [of _ "?ok # oks"] exI [of _ mid] exI [of _ n'] exI [of _ w'])
        (auto simp: walk_def)
  qed
qed

lemma less_9_cases:
  "k < 9 \<Longrightarrow> k = 0 \<or> k = 1 \<or> k = 2 \<or> k = 3 \<or> k = 4 \<or> k = 5 \<or> k = 6 \<or> k = 7 \<or> k = 8" for k :: nat
  by linarith

lemma PIPELINE_STAGES_last:
  assumes "k \<le> 9"
  shows "last (PlDraft # map st_to (take k PIPELINE_STAGES)) =
           (if k = 9 then PlRecorded else st_from (PIPELINE_STAGES ! k))"
proof (cases "k = 9")
  case False
  with assms have "k < 9" by simp
  then show ?thesis
    by (rule less_9_cases [THEN disjE]) (auto simp: PIPELINE_STAGES_def)
qed (simp add: PIPELINE_STAGES_def)

lemma transition_or_keep_cases:
  "if \<not> pl_is_terminal (pl_state tx) \<and> pl_can_transition (pl_state tx) to
   then pl_state (transition_or_keep env fresh n tx to actor e) = to \<and>
        records (pl_ledger (transition_or_keep env fresh n tx to actor e)) =
          records (pl_ledger tx) @ [(pl_state tx, to, Some e)]
   else transition_or_keep env fresh n tx to actor e = tx"
  by (auto simp: transition_or_keep_def pl_transition_def Let_def records_def)

lemma stage_denial:
  assumes "k < 9"
  shows "(\<not> pl_is_terminal (st_from (PIPELINE_STAGES ! k)) \<and> pl_can_transition (st_from (PIPELINE_STAGES ! k)) PlDenied)
           \<longleftrightarrow> k \<noteq> 0 \<and> k \<noteq> 8"
  using less_9_cases [OF assms]
  by (auto simp: PIPELINE_STAGES_def pl_is_terminal_def TERMINAL_STATES_def pl_can_transition_def)

text \<open>
  The run of the pipeline on a new transaction, stage by stage. A rejection of the first or of the last stage
  leaves the transaction where it was: \<open>Draft\<close> and \<open>Executed\<close> have no edge to \<open>Denied\<close>, although the
  documentation of the module says that failed transactions become \<open>Denied\<close>.
\<close>

lemma pipeline_run:
  "let tx = create_transaction env uuid uuid' now author action payload signer parents;
       res = snd (run_pipeline env fresh validator v tx actor);
       final = pr_transaction res
   in verify_ledger final \<and>
      (\<exists>k oks. k \<le> 9 \<and> list_all2 (accepted validator) (take k PIPELINE_STAGES) oks \<and>
        (if k = 9
         then pr_failed_at res = None \<and> pr_stages res = oks \<and> pl_state final = PlClosed \<and>
              records (pl_ledger final) =
                walk PIPELINE_STAGES oks @ [(PlRecorded, PlClosed, Some ''pipeline-complete'')]
         else \<exists>bad reason. rejected validator (PIPELINE_STAGES ! k) bad reason \<and>
              pr_failed_at res = Some (st_name (PIPELINE_STAGES ! k)) \<and> pr_stages res = oks @ [bad] \<and>
              (if k = 0 \<or> k = 8
               then pl_state final = st_from (PIPELINE_STAGES ! k) \<and>
                    records (pl_ledger final) = walk (take k PIPELINE_STAGES) oks
               else pl_state final = PlDenied \<and>
                    records (pl_ledger final) = walk (take k PIPELINE_STAGES) oks @
                      [(st_from (PIPELINE_STAGES ! k), PlDenied, Some reason)])))"
proof -
  let ?tx = "create_transaction env uuid uuid' now author action payload signer parents"
  have tx: "pl_state ?tx = PlDraft" "records (pl_ledger ?tx) = []" "verify_ledger ?tx"
    by (simp_all add: create_transaction_def records_def verify_ledger_def)
  have len: "length PIPELINE_STAGES = 9" by (simp add: PIPELINE_STAGES_def)
  from run_stages_outcome [of ?tx PIPELINE_STAGES validator env fresh actor v 0 "[]"] tx
  obtain k oks mid n w where k: "k \<le> 9" and oks: "list_all2 (accepted validator) (take k PIPELINE_STAGES) oks"
    and mid: "records (pl_ledger mid) = walk (take k PIPELINE_STAGES) oks"
      "pl_state mid = last (PlDraft # map st_to (take k PIPELINE_STAGES))"
    and run: "if k = 9
      then run_pipeline env fresh validator v ?tx actor =
             (w, \<lparr>pr_transaction = transition_or_keep env fresh n mid PlClosed actor ''pipeline-complete'',
                  pr_stages = oks, pr_failed_at = None\<rparr>)
      else \<exists>bad reason. rejected validator (PIPELINE_STAGES ! k) bad reason \<and>
             run_pipeline env fresh validator v ?tx actor =
               (w, \<lparr>pr_transaction = transition_or_keep env fresh n mid PlDenied actor reason,
                    pr_stages = oks @ [bad], pr_failed_at = Some (st_name (PIPELINE_STAGES ! k))\<rparr>)"
    by (simp only: stage_chain_PIPELINE_STAGES run_pipeline_def len append_Nil) blast
  have verifies: "verify_ledger (pr_transaction (snd (run_pipeline env fresh validator v ?tx actor)))"
    unfolding run_pipeline_def by (rule verify_ledger_run_stages) (rule tx(3))
  show ?thesis
  proof (cases "k = 9")
    case True
    moreover have "pl_state mid = PlRecorded"
      using True mid(2) PIPELINE_STAGES_last [of 9] by simp
    moreover have "take 9 PIPELINE_STAGES = PIPELINE_STAGES" using len by simp
    ultimately show ?thesis
      using k oks mid run verifies
        transition_or_keep_cases [of mid PlClosed env fresh n actor "''pipeline-complete''"]
      by (auto simp: pl_is_terminal_def TERMINAL_STATES_def pl_can_transition_def Let_def
          intro!: exI [of _ 9] exI [of _ oks])
  next
    case False
    then have k9: "k < 9" using k by simp
    with mid(2) have st: "pl_state mid = st_from (PIPELINE_STAGES ! k)"
      using PIPELINE_STAGES_last [OF k] by simp
    from run False obtain bad reason where bad: "rejected validator (PIPELINE_STAGES ! k) bad reason"
      and res: "run_pipeline env fresh validator v ?tx actor =
               (w, \<lparr>pr_transaction = transition_or_keep env fresh n mid PlDenied actor reason,
                    pr_stages = oks @ [bad], pr_failed_at = Some (st_name (PIPELINE_STAGES ! k))\<rparr>)"
      by auto
    have final: "if k = 0 \<or> k = 8
      then transition_or_keep env fresh n mid PlDenied actor reason = mid
      else pl_state (transition_or_keep env fresh n mid PlDenied actor reason) = PlDenied \<and>
           records (pl_ledger (transition_or_keep env fresh n mid PlDenied actor reason)) =
             records (pl_ledger mid) @ [(pl_state mid, PlDenied, Some reason)]"
      using transition_or_keep_cases [of mid PlDenied env fresh n actor reason] stage_denial [OF k9]
      unfolding st by (auto split: if_splits)
    show ?thesis
      unfolding Let_def
      using verifies
      by (intro conjI exI [of _ k] exI [of _ oks])
        (use k oks mid(1) st bad res final False in \<open>auto split: if_splits\<close>)
  qed
qed

text \<open>
  C14: the outcome of the pipeline on a new transaction, whatever the validator. Some number \<open>k\<close> of
  stages is accepted, in order, each on a transaction in the state the stage starts from. If all nine
  are, the transaction is closed, nothing is reported as failed, and the ledger records the ten
  transitions with the evidence of the validator. Otherwise the validator rejected stage \<open>k\<close>, which is
  reported with its reason after \<open>k\<close> successes, no later stage runs, and the transaction is not closed; when
  the state of the stage has an edge to \<open>Denied\<close> it is denied, with that reason as evidence. The ledger
  always verifies.
\<close>

theorem pipeline_outcome:
  "let tx = create_transaction env uuid uuid' now author action payload signer parents;
       res = snd (run_pipeline env fresh validator v tx actor);
       final = pr_transaction res
   in verify_ledger final \<and>
      (\<exists>k oks. k \<le> 9 \<and> list_all2 (accepted validator) (take k PIPELINE_STAGES) oks \<and>
        (if k = 9
         then pr_failed_at res = None \<and> pr_stages res = oks \<and> pl_state final = PlClosed \<and>
              records (pl_ledger final) =
                walk PIPELINE_STAGES oks @ [(PlRecorded, PlClosed, Some ''pipeline-complete'')]
         else \<exists>bad reason. rejected validator (PIPELINE_STAGES ! k) bad reason \<and>
              pr_failed_at res = Some (st_name (PIPELINE_STAGES ! k)) \<and> pr_stages res = oks @ [bad] \<and>
              (if pl_can_transition (st_from (PIPELINE_STAGES ! k)) PlDenied
               then pl_state final = PlDenied \<and>
                    records (pl_ledger final) = walk (take k PIPELINE_STAGES) oks @
                      [(st_from (PIPELINE_STAGES ! k), PlDenied, Some reason)]
               else pl_state final \<noteq> PlClosed)))"
proof -
  have deny: "pl_can_transition (st_from (PIPELINE_STAGES ! k)) PlDenied \<longleftrightarrow> \<not> (k = 0 \<or> k = 8)"
    and open_state: "st_from (PIPELINE_STAGES ! k) \<noteq> PlClosed" if "k \<le> 9" "k \<noteq> 9" for k
    using that less_9_cases [of k] by (auto simp: PIPELINE_STAGES_def pl_can_transition_def)
  define res where "res = snd (run_pipeline env fresh validator v
    (create_transaction env uuid uuid' now author action payload signer parents) actor)"
  note run = pipeline_run [of env uuid uuid' now author action payload signer parents fresh validator v actor,
      unfolded Let_def, folded res_def]
  then obtain k oks where k: "k \<le> 9" "list_all2 (accepted validator) (take k PIPELINE_STAGES) oks"
    and ends: "if k = 9
       then pr_failed_at res = None \<and> pr_stages res = oks \<and> pl_state (pr_transaction res) = PlClosed \<and>
            records (pl_ledger (pr_transaction res)) =
              walk PIPELINE_STAGES oks @ [(PlRecorded, PlClosed, Some ''pipeline-complete'')]
       else \<exists>bad reason. rejected validator (PIPELINE_STAGES ! k) bad reason \<and>
            pr_failed_at res = Some (st_name (PIPELINE_STAGES ! k)) \<and> pr_stages res = oks @ [bad] \<and>
            (if k = 0 \<or> k = 8
             then pl_state (pr_transaction res) = st_from (PIPELINE_STAGES ! k) \<and>
                  records (pl_ledger (pr_transaction res)) = walk (take k PIPELINE_STAGES) oks
             else pl_state (pr_transaction res) = PlDenied \<and>
                  records (pl_ledger (pr_transaction res)) = walk (take k PIPELINE_STAGES) oks @
                    [(st_from (PIPELINE_STAGES ! k), PlDenied, Some reason)])" by blast
  have "if k = 9
       then pr_failed_at res = None \<and> pr_stages res = oks \<and> pl_state (pr_transaction res) = PlClosed \<and>
            records (pl_ledger (pr_transaction res)) =
              walk PIPELINE_STAGES oks @ [(PlRecorded, PlClosed, Some ''pipeline-complete'')]
       else \<exists>bad reason. rejected validator (PIPELINE_STAGES ! k) bad reason \<and>
            pr_failed_at res = Some (st_name (PIPELINE_STAGES ! k)) \<and> pr_stages res = oks @ [bad] \<and>
            (if pl_can_transition (st_from (PIPELINE_STAGES ! k)) PlDenied
             then pl_state (pr_transaction res) = PlDenied \<and>
                  records (pl_ledger (pr_transaction res)) = walk (take k PIPELINE_STAGES) oks @
                    [(st_from (PIPELINE_STAGES ! k), PlDenied, Some reason)]
             else pl_state (pr_transaction res) \<noteq> PlClosed)"
    using ends deny [OF k(1)] open_state [OF k(1)] by (simp only: split: if_splits) metis+
  with run k show ?thesis unfolding Let_def res_def [symmetric] by blast
qed

section \<open>Two tables of states\<close>

text \<open>The state of \<open>exo-core\<close> with the same name.\<close>

fun core_state :: "pl_state \<Rightarrow> bcts_state" where
  "core_state PlDraft = Draft"
| "core_state PlSubmitted = Submitted"
| "core_state PlIdentityResolved = IdentityResolved"
| "core_state PlConsentValidated = ConsentValidated"
| "core_state PlDeliberated = Deliberated"
| "core_state PlVerified = Verified"
| "core_state PlGoverned = Governed"
| "core_state PlApproved = Approved"
| "core_state PlExecuted = Executed"
| "core_state PlRecorded = Recorded"
| "core_state PlClosed = Closed"
| "core_state PlDenied = Denied"
| "core_state PlEscalated = Escalated"
| "core_state PlRemediated = Remediated"

text \<open>
  The two crates disagree on the graph. The pipeline may escalate after consent validation, where
  \<open>exo-core\<close> may not; \<open>exo-core\<close> may escalate verified, executed and recorded transactions, and may
  remediate an escalated one, where the pipeline may not. On every other pair they agree.
\<close>

lemma state_graphs_differ:
  "pl_can_transition s t \<noteq> can_transition_to (core_state s) (core_state t) \<longleftrightarrow>
     (s, t) \<in> {(PlConsentValidated, PlEscalated), (PlVerified, PlEscalated), (PlExecuted, PlEscalated),
               (PlRecorded, PlEscalated), (PlEscalated, PlRemediated)}"
  by (cases s; cases t) (simp_all add: pl_can_transition_def can_transition_to_def)

text \<open>
  A denied transaction cannot be resubmitted: \<open>Denied\<close> counts as terminal, so \<open>transition\<close> refuses
  the edge to \<open>Remediated\<close> that the table has.
\<close>

lemma denied_not_remediable:
  "pl_can_transition PlDenied PlRemediated \<and>
   (pl_state tx = PlDenied \<longrightarrow> (\<exists>m. pl_transition env uuid now tx PlRemediated actor evidence = Inl m))"
  by (simp add: pl_transition_def pl_can_transition_def pl_is_terminal_def TERMINAL_STATES_def)

end
