(* ===== verification/Forum_Decision.thy ===== *)
theory Forum_Decision
  imports Bcts Hash_Log
begin

text \<open>
  The decision object of \<open>src/crates/decision-forum\<close> (\<open>decision_object.rs\<close>) with the rules that judge it:
  quorum (\<open>quorum.rs\<close>), human oversight (\<open>human_gate.rs\<close>), the ten trust-critical controls
  (\<open>tnc_enforcer.rs\<close>) and the standard workflow (\<open>workflow.rs\<close>). The life cycle is the one of \<open>Bcts\<close>, to
  which a decision is related by a refinement. Fresh identifiers are arguments.
\<close>

section \<open>Errors and data\<close>

datatype forum_error =
    FAuthorityInvalid string
  | FDelegationExpired
  | FDelegationScopeExceeded string
  | FSubDelegationNotPermitted
  | FNotRatified string
  | FAmendmentFailed string
  | FConstitutionalConflict string
  | FQuorumNotMet nat nat
  | FQuorumPolicyMissing
  | FDecisionNotFound string
  | FEnactmentFailed string
  | FDecisionImmutable
  | FInvalidTransition string string
  | FHumanGateRequired
  | FAiCeilingExceeded string
  | FTncViolation u32 string
  | FChallengeError string
  | FExecutionPaused
  | FEmergencyInvalid string
  | FEmergencyCapExceeded string
  | FAccountabilityFailed string
  | FTermsNotAccepted string
  | FCore string
  | FGovernance string

definition forum_of_exo :: "exo_error \<Rightarrow> forum_error" where
  "forum_of_exo e = FCore (exo_error_display e)"

datatype forum_class = Routine | Operational | Strategic | Constitutional

fun class_rank :: "forum_class \<Rightarrow> nat" where
  "class_rank Routine = 0"
| "class_rank Operational = 1"
| "class_rank Strategic = 2"
| "class_rank Constitutional = 3"

lemma class_rank_inject: "class_rank a = class_rank b \<longleftrightarrow> a = b"
  by (cases a; cases b) simp_all

text \<open>The derived order: the order of the variants.\<close>

instantiation forum_class :: linorder
begin

definition less_eq_forum_class :: "forum_class \<Rightarrow> forum_class \<Rightarrow> bool" where
  "less_eq_forum_class a b = (class_rank a \<le> class_rank b)"

definition less_forum_class :: "forum_class \<Rightarrow> forum_class \<Rightarrow> bool" where
  "less_forum_class a b = (class_rank a < class_rank b)"

instance
  by standard (auto simp: less_eq_forum_class_def less_forum_class_def class_rank_inject)

end

fun class_name :: "forum_class \<Rightarrow> string" where
  "class_name Routine = ''Routine''"
| "class_name Operational = ''Operational''"
| "class_name Strategic = ''Strategic''"
| "class_name Constitutional = ''Constitutional''"

datatype actor_kind = HumanActor | AiAgent string forum_class

datatype vote_choice = VApprove | VReject | VAbstain

record forum_vote =
  fv_voter_did :: did
  fv_choice :: vote_choice
  fv_actor_kind :: actor_kind
  fv_timestamp :: timestamp
  fv_signature_hash :: hash256

record forum_authority_link =
  fl_actor_did :: did
  fl_actor_kind :: actor_kind
  fl_delegation_hash :: hash256
  fl_timestamp :: timestamp

record evidence_item =
  ev_hash :: hash256
  ev_description :: string
  ev_attached_at :: timestamp

record lifecycle_receipt =
  lr_from_state :: bcts_state
  lr_to_state :: bcts_state
  lr_actor_did :: did
  lr_timestamp :: timestamp
  lr_receipt_hash :: hash256

record decision_object =
  do_id :: uuid
  do_title :: string
  do_class :: forum_class
  do_constitutional_hash :: hash256
  do_state :: bcts_state
  do_authority_chain :: "forum_authority_link list"
  do_votes :: "forum_vote list"
  do_evidence_bundle :: "evidence_item list"
  do_receipt_chain :: "lifecycle_receipt list"
  do_created_at :: timestamp
  do_metadata :: "(string, string) deterministic_map"

section \<open>Operations\<close>

definition do_new ::
  "uuid \<Rightarrow> u64 \<Rightarrow> string \<Rightarrow> forum_class \<Rightarrow> hash256 \<Rightarrow> hybrid_clock \<Rightarrow> decision_object \<times> hybrid_clock" where
  "do_new u wall title class chash clock =
     (let (clock', ts) = hc_now wall clock
      in (\<lparr>do_id = u, do_title = title, do_class = class, do_constitutional_hash = chash, do_state = Draft,
           do_authority_chain = [], do_votes = [], do_evidence_bundle = [], do_receipt_chain = [],
           do_created_at = ts, do_metadata = det_new\<rparr>, clock'))"

definition do_is_terminal :: "decision_object \<Rightarrow> bool" where
  "do_is_terminal d = (do_state d = Closed)"

text \<open>The structure hashed into a receipt has the fields of \<open>receipt_input\<close> and the same encoding.\<close>

definition compute_receipt_hash ::
  "blake3 \<Rightarrow> receipt_cbor \<Rightarrow> decision_object \<Rightarrow> bcts_state \<Rightarrow> bcts_state \<Rightarrow> timestamp \<Rightarrow> did \<Rightarrow>
     (hash256, forum_error) result" where
  "compute_receipt_hash blake3 cbor d from to ts actor =
     (let prev = (if do_receipt_chain d = [] then HASH_ZERO else lr_receipt_hash (last (do_receipt_chain d)))
      in map_sum forum_of_exo id (hash_structured blake3 cbor
           \<lparr>ri_from = from, ri_to = to, ri_timestamp = ts, ri_actor = did_str actor, ri_prev_hash = prev\<rparr>))"

definition do_transition ::
  "blake3 \<Rightarrow> receipt_cbor \<Rightarrow> u64 \<Rightarrow> decision_object \<Rightarrow> bcts_state \<Rightarrow> did \<Rightarrow> hybrid_clock \<Rightarrow>
     decision_object \<times> hybrid_clock \<times> (unit, forum_error) result" where
  "do_transition blake3 cbor wall d to actor clock =
     (if do_is_terminal d then (d, clock, Err FDecisionImmutable)
      else if \<not> can_transition_to (do_state d) to
      then (d, clock, Err (FInvalidTransition (bcts_state_name (do_state d)) (bcts_state_name to)))
      else
        let (clock', ts) = hc_now wall clock
        in case compute_receipt_hash blake3 cbor d (do_state d) to ts actor of
             Inl e \<Rightarrow> (d, clock', Err e)
           | Inr h \<Rightarrow>
               (d\<lparr>do_receipt_chain := do_receipt_chain d @
                    [\<lparr>lr_from_state = do_state d, lr_to_state = to, lr_actor_did = actor,
                      lr_timestamp = ts, lr_receipt_hash = h\<rparr>],
                  do_state := to\<rparr>, clock', Ok ()))"

definition add_vote :: "decision_object \<Rightarrow> forum_vote \<Rightarrow> (decision_object, forum_error) result" where
  "add_vote d v =
     (if do_is_terminal d then Err FDecisionImmutable
      else if list_ex (\<lambda>w. fv_voter_did w = fv_voter_did v) (do_votes d)
      then Err (FEnactmentFailed (''duplicate vote from '' @ did_str (fv_voter_did v)))
      else Ok (d\<lparr>do_votes := do_votes d @ [v]\<rparr>))"

definition add_evidence :: "decision_object \<Rightarrow> evidence_item \<Rightarrow> (decision_object, forum_error) result" where
  "add_evidence d item =
     (if do_is_terminal d then Err FDecisionImmutable
      else Ok (d\<lparr>do_evidence_bundle := do_evidence_bundle d @ [item]\<rparr>))"

definition add_authority_link ::
  "decision_object \<Rightarrow> forum_authority_link \<Rightarrow> (decision_object, forum_error) result" where
  "add_authority_link d link =
     (if do_is_terminal d then Err FDecisionImmutable
      else Ok (d\<lparr>do_authority_chain := do_authority_chain d @ [link]\<rparr>))"

record content_input =
  ci_id :: uuid
  ci_title :: string
  ci_class :: forum_class
  ci_constitutional_hash :: hash256
  ci_state :: bcts_state
  ci_vote_count :: nat
  ci_evidence_count :: nat
  ci_receipt_count :: nat

definition content_input_of :: "decision_object \<Rightarrow> content_input" where
  "content_input_of d =
     \<lparr>ci_id = do_id d, ci_title = do_title d, ci_class = do_class d,
      ci_constitutional_hash = do_constitutional_hash d, ci_state = do_state d,
      ci_vote_count = length (do_votes d), ci_evidence_count = length (do_evidence_bundle d),
      ci_receipt_count = length (do_receipt_chain d)\<rparr>"

definition content_hash ::
  "blake3 \<Rightarrow> (content_input \<Rightarrow> (bytes, string) result) \<Rightarrow> decision_object \<Rightarrow> (hash256, forum_error) result" where
  "content_hash blake3 cbor d = map_sum forum_of_exo id (hash_structured blake3 cbor (content_input_of d))"

section \<open>Quorum\<close>

record quorum_requirement =
  min_votes :: nat
  min_approve_pct :: nat
  min_human_votes :: nat

record quorum_registry =
  qr_policies :: "(string, quorum_requirement) deterministic_map"

abbreviation requirement :: "nat \<Rightarrow> nat \<Rightarrow> nat \<Rightarrow> quorum_requirement" where
  "requirement v p h \<equiv> \<lparr>min_votes = v, min_approve_pct = p, min_human_votes = h\<rparr>"

definition qr_with_defaults :: quorum_registry where
  "qr_with_defaults =
     (let policies = det_new;
          policies = fst (det_insert policies ''Routine'' (requirement 1 51 0));
          policies = fst (det_insert policies ''Operational'' (requirement 3 51 1));
          policies = fst (det_insert policies ''Strategic'' (requirement 5 67 3));
          policies = fst (det_insert policies ''Constitutional'' (requirement 7 75 5))
      in \<lparr>qr_policies = policies\<rparr>)"

definition requirement_for :: "quorum_registry \<Rightarrow> forum_class \<Rightarrow> quorum_requirement option" where
  "requirement_for r class = det_get (qr_policies r) (class_name class)"

datatype quorum_check_result =
    QMet nat nat nat
  | QNotMet string
  | QDegraded string nat nat

definition check_quorum :: "quorum_registry \<Rightarrow> decision_object \<Rightarrow> (quorum_check_result, forum_error) result" where
  "check_quorum r d =
     and_then (ok_or (requirement_for r (do_class d)) FQuorumPolicyMissing) (\<lambda>req.
       let total_votes = length (do_votes d);
           approve_count = length (filter (\<lambda>v. fv_choice v = VApprove) (do_votes d));
           human_count = length (filter (\<lambda>v. fv_actor_kind v = HumanActor) (do_votes d));
           approve_pct = (if total_votes > 0 then approve_count * 100 div total_votes else 0)
       in if total_votes < min_votes req
          then Ok (QDegraded (''insufficient votes: '' @ show_nat total_votes @ '' < '' @ show_nat (min_votes req))
                     total_votes (min_votes req))
          else if human_count < min_human_votes req
          then Ok (QNotMet (''insufficient human votes: '' @ show_nat human_count @ '' < '' @
                            show_nat (min_human_votes req)))
          else if approve_pct < min_approve_pct req
          then Ok (QNotMet (''approval percentage '' @ show_nat approve_pct @ ''% < required '' @
                            show_nat (min_approve_pct req) @ ''%''))
          else Ok (QMet total_votes approve_count approve_pct))"

definition verify_quorum_precondition ::
  "quorum_registry \<Rightarrow> forum_class \<Rightarrow> nat \<Rightarrow> (bool, forum_error) result" where
  "verify_quorum_precondition r class eligible_voters =
     and_then (ok_or (requirement_for r class) FQuorumPolicyMissing)
       (\<lambda>req. Ok (eligible_voters \<ge> min_votes req))"

section \<open>Human oversight\<close>

record human_gate_policy =
  human_required_classes :: "forum_class list"
  ai_ceiling :: forum_class

definition default_gate_policy :: human_gate_policy where
  "default_gate_policy = \<lparr>human_required_classes = [Strategic, Constitutional], ai_ceiling = Operational\<rparr>"

definition requires_human_approval :: "human_gate_policy \<Rightarrow> forum_class \<Rightarrow> bool" where
  "requires_human_approval policy class = List.member (human_required_classes policy) class"

definition ai_within_ceiling :: "human_gate_policy \<Rightarrow> forum_class \<Rightarrow> bool" where
  "ai_within_ceiling policy class = (class \<le> ai_ceiling policy)"

definition is_human_vote :: "forum_vote \<Rightarrow> bool" where
  "is_human_vote v = (case fv_actor_kind v of HumanActor \<Rightarrow> True | _ \<Rightarrow> False)"

definition is_ai_vote :: "forum_vote \<Rightarrow> bool" where
  "is_ai_vote v = (case fv_actor_kind v of AiAgent _ _ \<Rightarrow> True | _ \<Rightarrow> False)"

definition enforce_human_gate :: "human_gate_policy \<Rightarrow> decision_object \<Rightarrow> (unit, forum_error) result" where
  "enforce_human_gate policy d =
     (if do_class d > ai_ceiling policy \<and> \<not> list_ex is_human_vote (do_votes d) \<and> do_votes d \<noteq> []
      then Err (FAiCeilingExceeded (class_name (do_class d) @ '' exceeds AI ceiling '' @ class_name (ai_ceiling policy)))
      else if requires_human_approval policy (do_class d) \<and> length (filter is_human_vote (do_votes d)) = 0
      then Err FHumanGateRequired
      else Ok ())"

section \<open>The trust-critical controls\<close>

record tnc_context =
  tnc_decision :: decision_object
  constitutional_hash_valid :: bool
  consent_verified :: bool
  identity_verified :: bool
  evidence_complete :: bool
  quorum_met :: bool
  human_gate_satisfied :: bool
  authority_chain_verified :: bool
  ai_ceilings_externally_verified :: bool

definition enforce_tnc_01 :: "tnc_context \<Rightarrow> (unit, forum_error) result" where
  "enforce_tnc_01 ctx =
     (if \<not> authority_chain_verified ctx then Err (FTncViolation 1 ''authority chain not verified'')
      else if do_authority_chain (tnc_decision ctx) = [] then Err (FTncViolation 1 ''empty authority chain'')
      else Ok ())"

definition enforce_tnc_02 :: "tnc_context \<Rightarrow> (unit, forum_error) result" where
  "enforce_tnc_02 ctx =
     (if \<not> human_gate_satisfied ctx then Err (FTncViolation 2 ''human gate not satisfied'') else Ok ())"

definition enforce_tnc_03 :: "tnc_context \<Rightarrow> (unit, forum_error) result" where
  "enforce_tnc_03 ctx = (if \<not> consent_verified ctx then Err (FTncViolation 3 ''consent not verified'') else Ok ())"

definition enforce_tnc_04 :: "tnc_context \<Rightarrow> (unit, forum_error) result" where
  "enforce_tnc_04 ctx = (if \<not> identity_verified ctx then Err (FTncViolation 4 ''identity not verified'') else Ok ())"

definition enforce_tnc_05 :: "tnc_context \<Rightarrow> (unit, forum_error) result" where
  "enforce_tnc_05 ctx =
     (if \<not> authority_chain_verified ctx
      then Err (FTncViolation 5 ''delegation expiry not enforced (authority chain unverified)'') else Ok ())"

definition enforce_tnc_06 :: "tnc_context \<Rightarrow> (unit, forum_error) result" where
  "enforce_tnc_06 ctx =
     (if \<not> constitutional_hash_valid ctx
      then Err (FTncViolation 6 ''decision not bound to valid constitution'') else Ok ())"

definition enforce_tnc_07 :: "tnc_context \<Rightarrow> (unit, forum_error) result" where
  "enforce_tnc_07 ctx = (if \<not> quorum_met ctx then Err (FTncViolation 7 ''quorum not met'') else Ok ())"

definition enforce_tnc_08 :: "tnc_context \<Rightarrow> (unit, forum_error) result" where
  "enforce_tnc_08 ctx =
     (if do_is_terminal (tnc_decision ctx)
      then Err (FTncViolation 8 (''decision is in terminal state '' @ em_dash @ '' immutable'')) else Ok ())"

definition check_ceiling :: "tnc_context \<Rightarrow> forum_vote \<Rightarrow> (unit, forum_error) result" where
  "check_ceiling ctx v =
     (case fv_actor_kind v of
        AiAgent deleg ceiling_class \<Rightarrow>
          (let effective_ceiling = (if ai_ceilings_externally_verified ctx then ceiling_class else Routine)
           in if do_class (tnc_decision ctx) > effective_ceiling
              then Err (FTncViolation 9
                (if ai_ceilings_externally_verified ctx
                 then ''AI agent '' @ quoted deleg @ '' vote on '' @ class_name (do_class (tnc_decision ctx)) @
                      '' exceeds delegation-registry ceiling '' @ class_name ceiling_class
                 else ''AI agent '' @ quoted deleg @ '' ceiling unverified '' @ em_dash @
                      '' restricted to Routine, got '' @ class_name (do_class (tnc_decision ctx))))
              else Ok ())
      | HumanActor \<Rightarrow> Ok ())"

definition enforce_tnc_09 :: "tnc_context \<Rightarrow> (unit, forum_error) result" where
  "enforce_tnc_09 ctx = for_check (check_ceiling ctx) (do_votes (tnc_decision ctx))"

definition enforce_tnc_10 :: "tnc_context \<Rightarrow> (unit, forum_error) result" where
  "enforce_tnc_10 ctx = (if \<not> evidence_complete ctx then Err (FTncViolation 10 ''evidence bundle incomplete'') else Ok ())"

definition tnc_enforce_all :: "tnc_context \<Rightarrow> (unit, forum_error) result" where
  "tnc_enforce_all ctx =
     and_then (enforce_tnc_01 ctx) (\<lambda>_. and_then (enforce_tnc_02 ctx) (\<lambda>_. and_then (enforce_tnc_03 ctx) (\<lambda>_.
     and_then (enforce_tnc_04 ctx) (\<lambda>_. and_then (enforce_tnc_05 ctx) (\<lambda>_. and_then (enforce_tnc_06 ctx) (\<lambda>_.
     and_then (enforce_tnc_07 ctx) (\<lambda>_. and_then (enforce_tnc_08 ctx) (\<lambda>_. and_then (enforce_tnc_09 ctx) (\<lambda>_.
     and_then (enforce_tnc_10 ctx) (\<lambda>_. Ok ()))))))))))"

definition tnc_checks :: "(tnc_context \<Rightarrow> (unit, forum_error) result) list" where
  "tnc_checks =
     [enforce_tnc_01, enforce_tnc_02, enforce_tnc_03, enforce_tnc_04, enforce_tnc_05,
      enforce_tnc_06, enforce_tnc_07, enforce_tnc_08, enforce_tnc_09, enforce_tnc_10]"

definition err :: "('a, 'e) result \<Rightarrow> 'e option" where
  "err r = (case r of Inl e \<Rightarrow> Some e | Inr _ \<Rightarrow> None)"

definition collect_violations :: "tnc_context \<Rightarrow> forum_error list" where
  "collect_violations ctx = List.map_filter (\<lambda>check. err (check ctx)) tnc_checks"

section \<open>The standard workflow\<close>

record workflow_stage =
  ws_state :: bcts_state
  ws_name :: string
  ws_description :: string
  ws_requires_receipt :: bool

record workflow_definition =
  wd_id :: uuid
  wd_name :: string
  wd_stages :: "workflow_stage list"

abbreviation wstage :: "bcts_state \<Rightarrow> string \<Rightarrow> string \<Rightarrow> bool \<Rightarrow> workflow_stage" where
  "wstage s nm d r \<equiv> \<lparr>ws_state = s, ws_name = nm, ws_description = d, ws_requires_receipt = r\<rparr>"

definition standard_governance :: "uuid \<Rightarrow> workflow_definition" where
  "standard_governance u =
     \<lparr>wd_id = u, wd_name = ''Standard Governance Workflow'',
      wd_stages =
        [wstage Draft ''Draft'' ''Initial proposal creation'' False,
         wstage Submitted ''Submitted'' ''Proposal submitted for review'' True,
         wstage IdentityResolved ''Identity Resolved'' ''Actor identities verified'' True,
         wstage ConsentValidated ''Consent Validated'' ''All required consents collected'' True,
         wstage Deliberated ''Deliberated'' ''Discussion and debate completed'' True,
         wstage Verified ''Verified'' ''Evidence and authority verified'' True,
         wstage Governed ''Governed'' ''Constitutional compliance confirmed'' True,
         wstage Approved ''Approved'' ''Decision approved by quorum'' True,
         wstage Executed ''Executed'' ''Decision enacted'' True,
         wstage Recorded ''Recorded'' ''Decision recorded in permanent ledger'' True,
         wstage Closed ''Closed'' ''Decision lifecycle complete'' True]\<rparr>"

definition stage_for :: "workflow_definition \<Rightarrow> bcts_state \<Rightarrow> workflow_stage option" where
  "stage_for w s = List.find (\<lambda>st. ws_state st = s) (wd_stages w)"

fun find_position :: "('a \<Rightarrow> bool) \<Rightarrow> 'a list \<Rightarrow> nat option" where
  "find_position P [] = None"
| "find_position P (x # xs) = (if P x then Some 0 else map_option Suc (find_position P xs))"

definition next_stage :: "workflow_definition \<Rightarrow> bcts_state \<Rightarrow> workflow_stage option" where
  "next_stage w current =
     (case find_position (\<lambda>st. ws_state st = current) (wd_stages w) of
        None \<Rightarrow> None
      | Some pos \<Rightarrow> if pos + 1 < length (wd_stages w) then Some (wd_stages w ! (pos + 1)) else None)"

definition wf_requires_receipt :: "workflow_definition \<Rightarrow> bcts_state \<Rightarrow> bool" where
  "wf_requires_receipt w s = (case stage_for w s of None \<Rightarrow> False | Some st \<Rightarrow> ws_requires_receipt st)"

definition stage_count :: "workflow_definition \<Rightarrow> nat" where
  "stage_count w = length (wd_stages w)"

record workflow_receipt =
  wr_workflow_id :: uuid
  wr_stage :: bcts_state
  wr_decision_id :: uuid
  wr_timestamp :: timestamp
  wr_receipt_hash :: hash256

definition workflow_preimage :: "uuid \<Rightarrow> bcts_state \<Rightarrow> uuid \<Rightarrow> timestamp \<Rightarrow> bytes" where
  "workflow_preimage wid s did ts =
     uuid_bytes wid @ uuid_bytes did @ to_le_bytes 8 (physical_ms ts) @
     to_le_bytes 8 (ucast (logical ts) :: u64) @ str_bytes (bcts_state_name s)"

definition generate_receipt :: "blake3 \<Rightarrow> uuid \<Rightarrow> bcts_state \<Rightarrow> uuid \<Rightarrow> timestamp \<Rightarrow> workflow_receipt" where
  "generate_receipt blake3 wid s did ts =
     \<lparr>wr_workflow_id = wid, wr_stage = s, wr_decision_id = did, wr_timestamp = ts,
      wr_receipt_hash = Hash256 (blake3 (workflow_preimage wid s did ts))\<rparr>"

section \<open>A decision is a transaction\<close>

text \<open>The transaction of \<open>exo-core\<close> that a decision stands for.\<close>

definition tr_of_receipt :: "lifecycle_receipt \<Rightarrow> bcts_transition" where
  "tr_of_receipt r =
     \<lparr>from_state = lr_from_state r, to_state = lr_to_state r, tr_timestamp = lr_timestamp r,
      receipt_hash = lr_receipt_hash r, actor_did = lr_actor_did r\<rparr>"

definition tx_of_decision :: "correlation_id \<Rightarrow> decision_object \<Rightarrow> transaction" where
  "tx_of_decision cid d =
     \<lparr>tx_correlation_id = cid, current_state = do_state d,
      receipt_chain = map lr_receipt_hash (do_receipt_chain d),
      tx_transitions = map tr_of_receipt (do_receipt_chain d)\<rparr>"

lemma compute_receipt_hash_tx:
  "compute_receipt_hash blake3 cbor d from to ts actor =
     map_sum forum_of_exo id (compute_receipt blake3 cbor (tx_of_decision cid d) from to ts actor)"
  by (simp add: compute_receipt_hash_def compute_receipt_def tx_of_decision_def last_receipt_def last_map Let_def)

text \<open>
  C11: a decision object implements the transaction of \<open>exo-core\<close>. Reading a decision as a transaction,
  a transition of the decision is the transition of the transaction: the same successor, the same
  clock, refused exactly when it is refused there. The other operations do not move the transaction.
\<close>

theorem decision_refines_transaction:
  "(case do_transition blake3 cbor wall d to actor clock of (d', clock', r) \<Rightarrow>
      (case tx_transition blake3 cbor wall to actor (tx_of_decision cid d) clock of (tx', clock'', r') \<Rightarrow>
         tx' = tx_of_decision cid d' \<and> clock'' = clock' \<and> isl r' = isl r)) \<and>
   (case add_vote d v of Inl _ \<Rightarrow> True | Inr d' \<Rightarrow> tx_of_decision cid d' = tx_of_decision cid d) \<and>
   (case add_evidence d item of Inl _ \<Rightarrow> True | Inr d' \<Rightarrow> tx_of_decision cid d' = tx_of_decision cid d) \<and>
   (case add_authority_link d link of Inl _ \<Rightarrow> True | Inr d' \<Rightarrow> tx_of_decision cid d' = tx_of_decision cid d)"
proof (intro conjI)
  show "case do_transition blake3 cbor wall d to actor clock of (d', clock', r) \<Rightarrow>
      (case tx_transition blake3 cbor wall to actor (tx_of_decision cid d) clock of (tx', clock'', r') \<Rightarrow>
         tx' = tx_of_decision cid d' \<and> clock'' = clock' \<and> isl r' = isl r)"
    unfolding do_transition_def tx_transition_def compute_receipt_hash_tx [of blake3 cbor d _ _ _ _ cid]
    by (auto simp: do_is_terminal_def can_transition_to_def tx_of_decision_def tr_of_receipt_def Let_def
        split: prod.splits sum.splits if_splits)
qed (auto simp: add_vote_def add_evidence_def add_authority_link_def tx_of_decision_def split: sum.splits)

section \<open>Reachable decisions\<close>

text \<open>
  The decisions that the operations build. Each call is given a clock of its own, as the JavaScript
  bindings do, which make a new one for every call; nothing is assumed of these clocks.
\<close>

inductive do_reach :: "blake3 \<Rightarrow> receipt_cbor \<Rightarrow> decision_object \<Rightarrow> bool"
  for blake3 :: blake3 and cbor :: receipt_cbor where
  do_start: "do_new u wall title class chash clock = (d, clock') \<Longrightarrow> do_reach blake3 cbor d"
| do_step: "do_reach blake3 cbor d \<Longrightarrow>
     do_transition blake3 cbor wall d to actor clock = (d', clock', r) \<Longrightarrow> do_reach blake3 cbor d'"
| do_vote: "do_reach blake3 cbor d \<Longrightarrow> add_vote d v = Inr d' \<Longrightarrow> do_reach blake3 cbor d'"
| do_evidence: "do_reach blake3 cbor d \<Longrightarrow> add_evidence d item = Inr d' \<Longrightarrow> do_reach blake3 cbor d'"
| do_link: "do_reach blake3 cbor d \<Longrightarrow> add_authority_link d link = Inr d' \<Longrightarrow> do_reach blake3 cbor d'"

text \<open>The decisions built with one clock, which is passed on from call to call and may tick in between.\<close>

inductive do_reach_clock :: "blake3 \<Rightarrow> receipt_cbor \<Rightarrow> decision_object \<Rightarrow> hybrid_clock \<Rightarrow> bool"
  for blake3 :: blake3 and cbor :: receipt_cbor where
  one_start: "do_new u wall title class chash clock = (d, clock') \<Longrightarrow> do_reach_clock blake3 cbor d clock'"
| one_step: "do_reach_clock blake3 cbor d clock \<Longrightarrow>
     do_transition blake3 cbor wall d to actor clock = (d', clock', r) \<Longrightarrow> do_reach_clock blake3 cbor d' clock'"
| one_vote: "do_reach_clock blake3 cbor d clock \<Longrightarrow> add_vote d v = Inr d' \<Longrightarrow> do_reach_clock blake3 cbor d' clock"
| one_evidence: "do_reach_clock blake3 cbor d clock \<Longrightarrow> add_evidence d item = Inr d' \<Longrightarrow> do_reach_clock blake3 cbor d' clock"
| one_link: "do_reach_clock blake3 cbor d clock \<Longrightarrow> add_authority_link d link = Inr d' \<Longrightarrow> do_reach_clock blake3 cbor d' clock"
| one_tick: "do_reach_clock blake3 cbor d clock \<Longrightarrow> do_reach_clock blake3 cbor d (fst (hc_now wall clock))"

lemma do_transition_tx:
  assumes "do_transition blake3 cbor wall d to actor clock = (d', clock', r)"
  shows "\<exists>r'. tx_transition blake3 cbor wall to actor (tx_of_decision cid d) clock =
               (tx_of_decision cid d', clock', r')"
  using assms
  unfolding do_transition_def tx_transition_def compute_receipt_hash_tx [of blake3 cbor d _ _ _ _ cid]
  by (auto simp: do_is_terminal_def can_transition_to_def tx_of_decision_def tr_of_receipt_def Let_def
      split: prod.splits sum.splits if_splits)

lemma do_transition_votes:
  "do_transition blake3 cbor wall d to actor clock = (d', clock', r) \<Longrightarrow> do_votes d' = do_votes d"
  by (auto simp: do_transition_def Let_def split: prod.splits sum.splits if_splits)

lemma do_new_tx: "do_new u wall title class chash clock = (d, clock') \<Longrightarrow> tx_of_decision cid d = tx_new cid"
  by (auto simp: do_new_def tx_of_decision_def tx_new_def Let_def split: prod.splits)

lemma same_tx:
  "add_vote d v = Inr d' \<Longrightarrow> tx_of_decision cid d' = tx_of_decision cid d"
  "add_evidence d item = Inr d' \<Longrightarrow> tx_of_decision cid d' = tx_of_decision cid d"
  "add_authority_link d link = Inr d' \<Longrightarrow> tx_of_decision cid d' = tx_of_decision cid d"
  by (auto simp: add_vote_def add_evidence_def add_authority_link_def tx_of_decision_def split: if_splits)

lemma do_reach_clock_tx: "do_reach_clock blake3 cbor d clock \<Longrightarrow> tx_reach blake3 cbor (tx_of_decision cid d) clock"
proof (induction rule: do_reach_clock.induct)
  case (one_start u wall title cl chash clock d clock')
  then show ?case using do_new_tx [of u wall title cl chash clock d clock' cid] by (simp add: tx_start)
next
  case (one_step d clock wall to actor d' clock' r)
  with do_transition_tx [of blake3 cbor wall d to actor clock d' clock' r cid] show ?case
    by (auto intro: tx_request)
next
  case (one_tick d clock wall)
  then show ?case by (auto intro: clock_now)
qed (simp_all add: same_tx)

lemma do_reach_shape: "do_reach blake3 cbor d \<Longrightarrow> tx_shape blake3 cbor (tx_of_decision cid d)"
proof (induction rule: do_reach.induct)
  case (do_start u wall title cl chash clock d clock')
  then show ?case using do_new_tx [of u wall title cl chash clock d clock' cid] by (simp add: tx_shape_new)
next
  case (do_step d wall to actor clock d' clock' r)
  with do_transition_tx [of blake3 cbor wall d to actor clock d' clock' r cid] show ?case
    by (auto intro: tx_shape_transition)
qed (simp_all add: same_tx)

lemma do_reach_voters: "do_reach blake3 cbor d \<Longrightarrow> distinct (map fv_voter_did (do_votes d))"
proof (induction rule: do_reach.induct)
  case (do_vote d v d')
  then show ?case by (fastforce simp: add_vote_def list_ex_iff split: if_splits)
qed (auto simp: do_new_def add_evidence_def add_authority_link_def do_transition_votes Let_def
      split: if_splits prod.splits)

text \<open>
  C12: every decision that the operations build, each with whatever clock, has a consistent record. Its
  receipts form a path of the state graph from \<open>Draft\<close> to its state, they chain up as the verifier of
  \<open>exo-core\<close> demands, and nobody has voted twice. Once it is closed every operation fails and leaves
  it as it is. When one clock is passed on from call to call, the timestamps of the receipts advance too
  (with a new clock for each call they need not).
\<close>

theorem reachable_decision_consistent:
  assumes "do_reach blake3 cbor d"
  shows "path_ok Draft (map tr_of_receipt (do_receipt_chain d)) (do_state d) \<and>
         verify_receipt_chain blake3 cbor (tx_of_decision cid d) = Ok () \<and>
         distinct (map fv_voter_did (do_votes d)) \<and>
         (do_state d = Closed \<longrightarrow>
            do_transition blake3 cbor wall d to actor clock = (d, clock, Err FDecisionImmutable) \<and>
            add_vote d v = Err FDecisionImmutable \<and> add_evidence d item = Err FDecisionImmutable \<and>
            add_authority_link d link = Err FDecisionImmutable) \<and>
         (do_reach_clock blake3 cbor d now_clock \<longrightarrow> sorted_wrt ts_advance (map lr_timestamp (do_receipt_chain d)))"
proof -
  have "path_ok Draft (map tr_of_receipt (do_receipt_chain d)) (do_state d)"
    and "verify_receipt_chain blake3 cbor (tx_of_decision cid d) = Ok ()"
    using do_reach_shape [OF assms, of cid]
    by (auto simp: tx_shape_def verify_receipt_chain_def verify_receipts_Ok tx_of_decision_def)
  moreover have "sorted_wrt ts_advance (map lr_timestamp (do_receipt_chain d))" if "do_reach_clock blake3 cbor d now_clock"
  proof -
    have "map lr_timestamp (do_receipt_chain d) = map tr_timestamp (tx_transitions (tx_of_decision cid d))"
      by (simp add: tx_of_decision_def tr_of_receipt_def)
    with tx_reach_inv [OF do_reach_clock_tx [OF that, of cid]] show ?thesis by (simp only: tx_inv_def)
  qed
  ultimately show ?thesis
    using do_reach_voters [OF assms]
    by (simp add: do_transition_def add_vote_def add_evidence_def add_authority_link_def do_is_terminal_def)
qed

text \<open>A decision with one human vote in state \<open>Submitted\<close>.\<close>

definition sample_forum_vote :: forum_vote where
  "sample_forum_vote = \<lparr>fv_voter_did = Did ''did:exo:a'', fv_choice = VApprove, fv_actor_kind = HumanActor,
                  fv_timestamp = TS_ZERO, fv_signature_hash = HASH_ZERO\<rparr>"

definition sample_decision :: "decision_object \<times> hybrid_clock" where
  "sample_decision =
     (let (d, clock) = do_new 1 5 ''t'' Routine HASH_ZERO hc_new;
          (d, clock, r) = do_transition (\<lambda>bs. arr32_of bs) (\<lambda>r. Ok (str_bytes (ri_actor r))) 7 d Submitted
                            (Did ''did:exo:a'') clock
      in (case add_vote d sample_forum_vote of Inl _ \<Rightarrow> d | Inr d' \<Rightarrow> d', clock))"

lemma sample_decision_reach:
  "do_reach (\<lambda>bs. arr32_of bs) (\<lambda>r. Ok (str_bytes (ri_actor r))) (fst sample_decision)"
  "do_reach_clock (\<lambda>bs. arr32_of bs) (\<lambda>r. Ok (str_bytes (ri_actor r))) (fst sample_decision) (snd sample_decision)"
proof -
  let ?b = "\<lambda>bs. arr32_of bs" and ?c = "\<lambda>r. Ok (str_bytes (ri_actor r))"
  obtain d clock where new: "do_new 1 5 ''t'' Routine HASH_ZERO hc_new = (d, clock)" by fastforce
  obtain d' clock' r where step:
    "do_transition ?b ?c 7 d Submitted (Did ''did:exo:a'') clock = (d', clock', r)"
    using prod_cases3 by blast
  note reach = do_step [OF do_start [OF new] step] and one = one_step [OF one_start [OF new] step]
  have def: "sample_decision = (case add_vote d' sample_forum_vote of Inl _ \<Rightarrow> d' | Inr d \<Rightarrow> d, clock')"
    by (simp add: sample_decision_def new step)
  show "do_reach ?b ?c (fst sample_decision)"
    using reach do_vote [OF reach] by (simp add: def split: sum.splits)
  show "do_reach_clock ?b ?c (fst sample_decision) (snd sample_decision)"
    using one one_vote [OF one] by (simp add: def split: sum.splits)
qed

lemma sample_decision_simps:
  "do_state (fst sample_decision) = Submitted" "do_votes (fst sample_decision) = [sample_forum_vote]"
  "length (do_receipt_chain (fst sample_decision)) = 1" "do_class (fst sample_decision) = Routine"
  by (simp_all add: sample_decision_def do_new_def do_transition_def add_vote_def do_is_terminal_def
      can_transition_to_def compute_receipt_hash_def hash_structured_def canonical_hash_def Let_def split_def)

theorem reachable_decision_consistent_witness:
  "path_ok Draft (map tr_of_receipt (do_receipt_chain (fst sample_decision))) (do_state (fst sample_decision)) \<and>
   do_state (fst sample_decision) = Submitted \<and> do_votes (fst sample_decision) = [sample_forum_vote] \<and>
   sorted_wrt ts_advance (map lr_timestamp (do_receipt_chain (fst sample_decision)))"
  using reachable_decision_consistent [OF sample_decision_reach(1)] sample_decision_reach(2) sample_decision_simps by blast

section \<open>Quorum and oversight\<close>

fun default_requirement :: "forum_class \<Rightarrow> quorum_requirement" where
  "default_requirement Routine = requirement 1 51 0"
| "default_requirement Operational = requirement 3 51 1"
| "default_requirement Strategic = requirement 5 67 3"
| "default_requirement Constitutional = requirement 7 75 5"

lemma requirement_for_defaults: "requirement_for qr_with_defaults cl = Some (default_requirement cl)"
  by (cases cl) (simp_all add: requirement_for_def qr_with_defaults_def Let_def det_get_def det_insert_def det_new_def)

lemma pct_le:
  fixes a n p :: nat
  assumes "p \<le> (if n > 0 then a * 100 div n else 0)"
  shows "p * n \<le> a * 100"
  using assms by (cases "n = 0") (auto intro: order_trans [OF mult_le_mono1])

lemma check_quorum_Met:
  assumes "check_quorum qr_with_defaults d = Ok (QMet n a p)"
  shows "n = length (do_votes d)" "a = length (filter (\<lambda>v. fv_choice v = VApprove) (do_votes d))"
    "min_votes (default_requirement (do_class d)) \<le> n"
    "min_human_votes (default_requirement (do_class d)) \<le> length (filter is_human_vote (do_votes d))"
    "min_approve_pct (default_requirement (do_class d)) * n \<le> a * 100"
proof -
  have human: "is_human_vote = (\<lambda>v. fv_actor_kind v = HumanActor)"
    by (auto simp: is_human_vote_def fun_eq_iff split: actor_kind.splits)
  show "n = length (do_votes d)" "a = length (filter (\<lambda>v. fv_choice v = VApprove) (do_votes d))"
    "min_votes (default_requirement (do_class d)) \<le> n"
    "min_human_votes (default_requirement (do_class d)) \<le> length (filter is_human_vote (do_votes d))"
    using assms by (simp_all add: check_quorum_def requirement_for_defaults Let_def human split: if_splits)
  have "min_approve_pct (default_requirement (do_class d)) \<le> (if n > 0 then a * 100 div n else 0)"
    using assms by (auto simp: check_quorum_def requirement_for_defaults Let_def split: if_splits)
  then show "min_approve_pct (default_requirement (do_class d)) * n \<le> a * 100" by (rule pct_le)
qed

lemma card_voters:
  assumes "distinct (map fv_voter_did vs)"
  shows "card {fv_voter_did v |v. v \<in> set vs \<and> P v} = length (filter P vs)"
proof -
  have "{fv_voter_did v |v. v \<in> set vs \<and> P v} = set (map fv_voter_did (filter P vs))" by auto
  moreover have "distinct (map fv_voter_did (filter P vs))"
    using assms by (simp add: distinct_map_filter)
  ultimately show ?thesis by (metis distinct_card length_map)
qed

text \<open>
  What a met quorum means. When the quorum check of a reachable decision succeeds under the default
  policies, at least the number of different people that its class demands voted (1, 3, 5 or 7), at
  least the demanded number of them human (0, 1, 3 or 5), the demanded share of them (51, 51, 67 or
  75 per cent) approved, and the human gate of the default policy is satisfied as well.
\<close>

theorem quorum_met_means:
  assumes "do_reach blake3 cbor d" and "check_quorum qr_with_defaults d = Ok (QMet n a p)"
  shows "let req = default_requirement (do_class d);
             voters = {fv_voter_did v |v. v \<in> set (do_votes d)};
             humans = {fv_voter_did v |v. v \<in> set (do_votes d) \<and> fv_actor_kind v = HumanActor};
             approving = {fv_voter_did v |v. v \<in> set (do_votes d) \<and> fv_choice v = VApprove}
         in min_votes req \<le> card voters \<and> min_human_votes req \<le> card humans \<and>
            min_approve_pct req * card voters \<le> 100 * card approving \<and>
            enforce_human_gate default_gate_policy d = Ok ()"
proof -
  note met = check_quorum_Met [OF assms(2)] and cards = card_voters [OF do_reach_voters [OF assms(1)]]
  have human: "(\<lambda>v. fv_actor_kind v = HumanActor) = is_human_vote"
    by (auto simp: is_human_vote_def fun_eq_iff split: actor_kind.splits)
  have gate: "enforce_human_gate default_gate_policy d = Ok ()"
  proof (cases "do_class d \<le> Operational")
    case True
    then show ?thesis
      by (cases "do_class d") (auto simp: enforce_human_gate_def default_gate_policy_def requires_human_approval_def
          less_eq_forum_class_def less_forum_class_def)
  next
    case False
    then have "0 < min_human_votes (default_requirement (do_class d))"
      by (cases "do_class d") (simp_all add: less_eq_forum_class_def)
    with met(4) have "filter is_human_vote (do_votes d) \<noteq> []" by auto
    then have "list_ex is_human_vote (do_votes d)"
      by (auto simp: list_ex_iff filter_empty_conv)
    with \<open>filter is_human_vote (do_votes d) \<noteq> []\<close> show ?thesis by (simp add: enforce_human_gate_def)
  qed
  show ?thesis
    using met gate cards [of "\<lambda>_. True"] cards [of "\<lambda>v. fv_actor_kind v = HumanActor"]
      cards [of "\<lambda>v. fv_choice v = VApprove"]
    by (simp add: Let_def human mult.commute)
qed

theorem quorum_met_means_witness:
  "check_quorum qr_with_defaults (fst sample_decision) = Ok (QMet 1 1 100) \<and>
   enforce_human_gate default_gate_policy (fst sample_decision) = Ok ()"
proof -
  have "check_quorum qr_with_defaults (fst sample_decision) = Ok (QMet 1 1 100)"
    by (simp add: check_quorum_def requirement_for_defaults sample_decision_simps sample_forum_vote_def Let_def)
  with quorum_met_means [OF sample_decision_reach(1) this] show ?thesis by (simp add: Let_def)
qed

section \<open>The controls\<close>

text \<open>
  C27: the trust-critical controls. Enforcing them reports the first entry of the list of all
  violations, so it succeeds exactly when that list is empty; and that is exactly when every flag of
  the context is set, the authority chain is not empty, the decision is not closed, and no AI agent
  voted on a decision above its ceiling, which is \<open>Routine\<close> unless the ceilings were verified.
\<close>

theorem tnc_controls_exact:
  "tnc_enforce_all ctx = (case collect_violations ctx of [] \<Rightarrow> Ok () | e # _ \<Rightarrow> Err e) \<and>
   (collect_violations ctx = [] \<longleftrightarrow>
      authority_chain_verified ctx \<and> do_authority_chain (tnc_decision ctx) \<noteq> [] \<and> human_gate_satisfied ctx \<and>
      consent_verified ctx \<and> identity_verified ctx \<and> constitutional_hash_valid ctx \<and> quorum_met ctx \<and>
      do_state (tnc_decision ctx) \<noteq> Closed \<and> evidence_complete ctx \<and>
      list_all (\<lambda>v. case fv_actor_kind v of
                      HumanActor \<Rightarrow> True
                    | AiAgent _ ceiling \<Rightarrow>
                        do_class (tnc_decision ctx) \<le> (if ai_ceilings_externally_verified ctx then ceiling else Routine))
        (do_votes (tnc_decision ctx)))"
  (is "_ \<and> ?controls")
proof
  show "tnc_enforce_all ctx = (case collect_violations ctx of [] \<Rightarrow> Ok () | e # _ \<Rightarrow> Err e)"
    by (simp add: tnc_enforce_all_def collect_violations_def tnc_checks_def map_filter_simps err_def and_then_def
        split: sum.splits)
  have ceiling: "check_ceiling ctx v = Inr () \<longleftrightarrow>
      (case fv_actor_kind v of HumanActor \<Rightarrow> True
       | AiAgent _ c \<Rightarrow> do_class (tnc_decision ctx) \<le> (if ai_ceilings_externally_verified ctx then c else Routine))" for v
    by (auto simp: check_ceiling_def Let_def not_less split: actor_kind.splits)
  have "err r = None \<longleftrightarrow> r = Inr ()" for r :: "(unit, forum_error) result"
    by (cases r) (simp_all add: err_def)
  then have "collect_violations ctx = [] \<longleftrightarrow> list_all (\<lambda>check. check ctx = Inr ()) tnc_checks"
    by (simp add: collect_violations_def map_filter_def filter_empty_conv list_all_iff)
  also have "\<dots> \<longleftrightarrow>
      authority_chain_verified ctx \<and> do_authority_chain (tnc_decision ctx) \<noteq> [] \<and> human_gate_satisfied ctx \<and>
      consent_verified ctx \<and> identity_verified ctx \<and> constitutional_hash_valid ctx \<and> quorum_met ctx \<and>
      do_state (tnc_decision ctx) \<noteq> Closed \<and> evidence_complete ctx \<and>
      list_all (\<lambda>v. check_ceiling ctx v = Inr ()) (do_votes (tnc_decision ctx))"
    by (auto simp: tnc_checks_def enforce_tnc_01_def enforce_tnc_02_def enforce_tnc_03_def enforce_tnc_04_def
        enforce_tnc_05_def enforce_tnc_06_def enforce_tnc_07_def enforce_tnc_08_def enforce_tnc_09_def
        enforce_tnc_10_def do_is_terminal_def for_check_Ok list_all_iff)
  finally show ?controls unfolding ceiling .
qed

section \<open>The workflow\<close>

text \<open>Every step of the standard workflow is an edge of the state graph, up to \<open>Closed\<close>.\<close>

lemma next_stage_edge:
  "case next_stage (standard_governance u) s of
     None \<Rightarrow> s \<in> {Closed, Denied, Escalated, Remediated}
   | Some st \<Rightarrow> can_transition_to s (ws_state st) \<and> ws_requires_receipt st"
  by (cases s) (simp_all add: next_stage_def standard_governance_def can_transition_to_def)

lemma workflow_preimage_binding:
  assumes "workflow_preimage wid s did ts = workflow_preimage wid' s' did' ts'"
  shows "wid = wid' \<and> s = s' \<and> did = did' \<and> ts = ts'"
proof -
  have "uuid_bytes wid = uuid_bytes wid'" "uuid_bytes did = uuid_bytes did'"
    "to_le_bytes 8 (physical_ms ts) = to_le_bytes 8 (physical_ms ts')"
    "to_le_bytes 8 (ucast (logical ts) :: u64) = to_le_bytes 8 (ucast (logical ts') :: u64)"
    "bcts_state_name s = bcts_state_name s'"
    using assms by (auto simp: workflow_preimage_def)
  then have "wid = wid'" "did = did'" "physical_ms ts = physical_ms ts'"
    "(ucast (logical ts) :: u64) = ucast (logical ts')"
    by (auto simp: uuid_bytes_def intro: to_le_bytes_inject)
  moreover from this(4) have "logical ts = logical ts'"
    by (simp add: ucast_u32_u64_inject)
  moreover have "s = s'"
    using \<open>bcts_state_name s = bcts_state_name s'\<close> by (cases s; cases s') simp_all
  ultimately show ?thesis by (cases ts; cases ts') simp
qed

end
