(* ===== verification/Forum_Authority.thy ===== *)
theory Forum_Authority
  imports Forum_Decision
begin

text \<open>
  The delegated authority matrix of \<open>src/crates/decision-forum/src/authority_matrix.rs\<close>: grants, revocation,
  expiry, purging, warnings and sub-delegation, and the structural check of \<open>authority.rs\<close>.
\<close>

section \<open>Delegations\<close>

record delegation_scope =
  ds_decision_classes :: "forum_class list"
  ds_description :: string

record delegated_authority =
  da_id :: string
  da_delegator :: did
  da_delegate :: did
  da_scope :: delegation_scope
  da_granted_at :: timestamp
  da_expires_at :: timestamp
  da_revoked :: bool
  da_allows_sub_delegation :: bool
  da_signature_hash :: hash256

definition da_is_active :: "delegated_authority \<Rightarrow> timestamp \<Rightarrow> bool" where
  "da_is_active d now = (\<not> da_revoked d \<and> \<not> is_expired (da_expires_at d) now)"

definition covers_class :: "delegated_authority \<Rightarrow> forum_class \<Rightarrow> bool" where
  "covers_class d cl = List.member (ds_decision_classes (da_scope d)) cl"

definition days_until_expiry :: "delegated_authority \<Rightarrow> timestamp \<Rightarrow> u64" where
  "days_until_expiry d now =
     (if physical_ms (da_expires_at d) \<le> physical_ms now then 0
      else (physical_ms (da_expires_at d) - physical_ms now) div (24 * 60 * 60 * 1000))"

definition EXPIRY_WARNING_DAYS :: "u64 list" where
  "EXPIRY_WARNING_DAYS = [90, 60, 30, 14, 7]"

section \<open>The matrix\<close>

record authority_matrix =
  am_delegations :: "(string, delegated_authority list) deterministic_map"

definition am_new :: authority_matrix where
  "am_new = \<lparr>am_delegations = det_new\<rparr>"

definition am_put :: "authority_matrix \<Rightarrow> string \<Rightarrow> delegated_authority list \<Rightarrow> authority_matrix" where
  "am_put m k es = m\<lparr>am_delegations := fst (det_insert (am_delegations m) k es)\<rparr>"

definition unwrap_or_default :: "'a list option \<Rightarrow> 'a list" where
  "unwrap_or_default x = (case x of None \<Rightarrow> [] | Some xs \<Rightarrow> xs)"

definition am_grant :: "authority_matrix \<Rightarrow> delegated_authority \<Rightarrow> (authority_matrix, forum_error) result" where
  "am_grant m d =
     (let k = did_str (da_delegate d);
          es = unwrap_or_default (det_get (am_delegations m) k)
      in Ok (am_put m k (es @ [d])))"


definition active_delegations :: "authority_matrix \<Rightarrow> did \<Rightarrow> timestamp \<Rightarrow> delegated_authority list" where
  "active_delegations m who now =
     unwrap_or_default (map_option (filter (\<lambda>d. da_is_active d now)) (det_get (am_delegations m) (did_str who)))"

definition has_authority :: "authority_matrix \<Rightarrow> did \<Rightarrow> forum_class \<Rightarrow> timestamp \<Rightarrow> bool" where
  "has_authority m actor cl now = list_ex (\<lambda>d. covers_class d cl) (active_delegations m actor now)"



definition warning_for :: "timestamp \<Rightarrow> delegated_authority \<Rightarrow> (delegated_authority \<times> u64) list" where
  "warning_for now d =
     (if \<not> da_is_active d now then []
      else let days = days_until_expiry d now
           in if list_ex (\<lambda>threshold. days \<le> threshold) EXPIRY_WARNING_DAYS then [(d, days)] else [])"

definition expiry_warnings :: "authority_matrix \<Rightarrow> timestamp \<Rightarrow> (delegated_authority \<times> u64) list" where
  "expiry_warnings m now =
     concat (map (\<lambda>(_, es). concat (map (warning_for now) es)) (det_iter (am_delegations m)))"

definition sub_delegate ::
  "authority_matrix \<Rightarrow> did \<Rightarrow> string \<Rightarrow> delegated_authority \<Rightarrow> timestamp \<Rightarrow> (authority_matrix, forum_error) result" where
  "sub_delegate m parent_delegate parent_id d now =
     and_then (ok_or (Option.bind (det_get (am_delegations m) (did_str parent_delegate))
                        (List.find (\<lambda>e. da_id e = parent_id)))
                (FAuthorityInvalid ''parent delegation not found'')) (\<lambda>parent.
       if \<not> da_is_active parent now then Err FDelegationExpired
       else if \<not> da_allows_sub_delegation parent then Err FSubDelegationNotPermitted
       else and_then (for_check (\<lambda>cl. if \<not> covers_class parent cl
                                  then Err (FDelegationScopeExceeded (class_name cl @ '' not in parent scope''))
                                  else Ok ()) (ds_decision_classes (da_scope d))) (\<lambda>_.
              am_grant m d))"

section \<open>Forum authority\<close>

record forum_rule =
  fr_name :: string
  fr_hash :: hash256

record forum_authority =
  fa_root_did :: did
  fa_constitution_hash :: hash256
  fa_rules :: "forum_rule list"
  fa_signature :: signature

definition verify_forum_authority :: "forum_authority \<Rightarrow> (unit, forum_error) result" where
  "verify_forum_authority a =
     (if sig_is_empty (fa_signature a) then Err (FAuthorityInvalid ''empty signature'')
      else if fa_constitution_hash a = HASH_ZERO then Err (FAuthorityInvalid ''zero constitution hash'')
      else if fa_rules a = [] then Err (FAuthorityInvalid ''no rules defined'')
      else Ok ())"

section \<open>What the operations do to authority\<close>

text \<open>The delegations recorded for a delegate.\<close>

definition held :: "authority_matrix \<Rightarrow> string \<Rightarrow> delegated_authority list" where
  "held m k = unwrap_or_default (det_get (am_delegations m) k)"

lemma unwrap_or_default_simps [simp]:
  "unwrap_or_default None = []" "unwrap_or_default (Some xs) = xs"
  by (simp_all add: unwrap_or_default_def)

lemma held_put [simp]: "held (am_put m k es) k' = (if k' = k then es else held m k')"
  by (simp add: held_def am_put_def det_insert_def det_get_def)

lemma has_authority_held:
  "has_authority m a cl t \<longleftrightarrow> (\<exists>d \<in> set (held m (did_str a)). da_is_active d t \<and> covers_class d cl)"
  by (cases "det_get (am_delegations m) (did_str a)")
    (auto simp: has_authority_def active_delegations_def held_def list_ex_iff)

lemma held_grant: "am_grant m d = Inr m' \<Longrightarrow>
  held m' k = (if k = did_str (da_delegate d) then held m k @ [d] else held m k)"
  by (auto simp: am_grant_def Let_def held_def [symmetric])


lemma sub_delegate_Ok:
  "sub_delegate m p i d now = Inr m' \<longleftrightarrow>
     (\<exists>parent. List.find (\<lambda>e. da_id e = i) (held m (did_str p)) = Some parent \<and>
        da_is_active parent now \<and> da_allows_sub_delegation parent \<and>
        (\<forall>cl \<in> set (ds_decision_classes (da_scope d)). covers_class parent cl) \<and> am_grant m d = Inr m')"
  by (cases "det_get (am_delegations m) (did_str p)")
    (auto simp: sub_delegate_def held_def and_then_eq_Ok for_check_Ok split: if_splits)









section \<open>Sub-delegation confines authority\<close>











definition sample_delegation :: "string \<Rightarrow> string \<Rightarrow> u64 \<Rightarrow> delegated_authority" where
  "sample_delegation nm who expiry =
     \<lparr>da_id = nm, da_delegator = Did ''did:exo:root'', da_delegate = Did who,
      da_scope = \<lparr>ds_decision_classes = [Routine], ds_description = ''all''\<rparr>, da_granted_at = TS_ZERO,
      da_expires_at = Timestamp expiry 0, da_revoked = False, da_allows_sub_delegation = True,
      da_signature_hash = HASH_ZERO\<rparr>"

definition sample_matrix :: authority_matrix where
  "sample_matrix = am_put am_new ''did:exo:a'' [sample_delegation ''d1'' ''did:exo:a'' 5]"

lemma sample_matrix_held: "held sample_matrix k = (if k = ''did:exo:a'' then [sample_delegation ''d1'' ''did:exo:a'' 5] else [])"
  unfolding sample_matrix_def held_put by (simp add: held_def am_new_def det_new_def det_get_def)


text \<open>
  The lifetime is not confined: a sub-delegation may outlive the delegation it was made from, since
  only the decision classes are compared.
\<close>

lemma sub_delegation_outlives_parent:
  "\<exists>m'. sub_delegate sample_matrix (Did ''did:exo:a'') ''d1'' (sample_delegation ''d2'' ''did:exo:b'' 100) (Timestamp 1 0)
          = Inr m' \<and>
        has_authority m' (Did ''did:exo:b'') Routine (Timestamp 99 0) \<and>
        \<not> has_authority m' (Did ''did:exo:a'') Routine (Timestamp 99 0)"
proof -
  let ?d = "sample_delegation ''d2'' ''did:exo:b'' 100"
  obtain m' where grant: "am_grant sample_matrix ?d = Inr m'" by (simp add: am_grant_def Let_def)
  have "sub_delegate sample_matrix (Did ''did:exo:a'') ''d1'' ?d (Timestamp 1 0) = Inr m'"
    unfolding sub_delegate_Ok
    by (rule exI [of _ "sample_delegation ''d1'' ''did:exo:a'' 5"])
      (simp add: sample_matrix_held grant, simp add: sample_delegation_def da_is_active_def covers_class_def
        is_expired_def less_eq_timestamp_def)
  moreover have "held m' ''did:exo:b'' = [?d]" "held m' ''did:exo:a'' = [sample_delegation ''d1'' ''did:exo:a'' 5]"
    using held_grant [OF grant] by (simp_all add: sample_matrix_held sample_delegation_def)
  ultimately show ?thesis
    by (intro exI [of _ m'])
      (simp add: has_authority_held sample_delegation_def da_is_active_def covers_class_def is_expired_def
        less_eq_timestamp_def)
qed

end
