(* ===== verification/Forum_Metrics.thy ===== *)
theory Forum_Metrics
  imports Forum_Decision
begin

text \<open>
  The monitoring metrics (\<open>metrics.rs\<close>) and the fiduciary defence package (\<open>fiduciary_package.rs\<close>) of
  \<open>src/crates/decision-forum\<close>. Counters are \<open>u64\<close> and wrap; counts of members and votes are \<open>usize\<close>, which
  is 64 bits wide where it is hashed or multiplied.
\<close>

section \<open>Metrics\<close>

record metrics_collector =
  authority_verification_total :: u64
  authority_verification_passed :: u64
  revocation_latencies_ms :: "u64 list"
  evidence_checks_total :: u64
  evidence_checks_complete :: u64
  quorum_checks_total :: u64
  quorum_checks_met :: u64
  human_gate_checks_total :: u64
  human_gate_checks_satisfied :: u64
  constitutional_binding_total :: u64
  constitutional_binding_valid :: u64
  challenge_resolution_times_ms :: "u64 list"
  emergency_total :: u64
  emergency_ratified :: u64
  accountability_total :: u64
  accountability_completed :: u64
  consent_checks_total :: u64
  consent_checks_verified :: u64
  identity_checks_total :: u64
  identity_checks_verified :: u64
  self_mod_total :: u64
  self_mod_compliant :: u64

definition metrics_new :: metrics_collector where
  "metrics_new =
     \<lparr>authority_verification_total = 0, authority_verification_passed = 0, revocation_latencies_ms = [],
      evidence_checks_total = 0, evidence_checks_complete = 0, quorum_checks_total = 0, quorum_checks_met = 0,
      human_gate_checks_total = 0, human_gate_checks_satisfied = 0,
      constitutional_binding_total = 0, constitutional_binding_valid = 0, challenge_resolution_times_ms = [],
      emergency_total = 0, emergency_ratified = 0, accountability_total = 0, accountability_completed = 0,
      consent_checks_total = 0, consent_checks_verified = 0, identity_checks_total = 0,
      identity_checks_verified = 0, self_mod_total = 0, self_mod_compliant = 0\<rparr>"

definition pct :: "u64 \<Rightarrow> u64 \<Rightarrow> u64" where
  "pct numerator denominator = (if denominator = 0 then 100 else numerator * 100 div denominator)"

definition div_ceil :: "nat \<Rightarrow> nat \<Rightarrow> nat" where
  "div_ceil a b = (if a mod b > 0 then a div b + 1 else a div b)"

definition percentile_95 :: "u64 list \<Rightarrow> u64" where
  "percentile_95 values =
     (if values = [] then 0
      else let sorted = sort values;
               idx = min (div_ceil (length sorted * 95) 100) (length sorted) - 1
           in sorted ! idx)"

definition m1_authority_pct :: "metrics_collector \<Rightarrow> u64" where
  "m1_authority_pct m = pct (authority_verification_passed m) (authority_verification_total m)"

definition m2_revocation_p95_ms :: "metrics_collector \<Rightarrow> u64" where
  "m2_revocation_p95_ms m = percentile_95 (revocation_latencies_ms m)"

definition m3_evidence_pct :: "metrics_collector \<Rightarrow> u64" where
  "m3_evidence_pct m = pct (evidence_checks_complete m) (evidence_checks_total m)"

definition m4_quorum_pct :: "metrics_collector \<Rightarrow> u64" where
  "m4_quorum_pct m = pct (quorum_checks_met m) (quorum_checks_total m)"

definition m5_human_gate_pct :: "metrics_collector \<Rightarrow> u64" where
  "m5_human_gate_pct m = pct (human_gate_checks_satisfied m) (human_gate_checks_total m)"

definition m6_constitutional_pct :: "metrics_collector \<Rightarrow> u64" where
  "m6_constitutional_pct m = pct (constitutional_binding_valid m) (constitutional_binding_total m)"

definition m7_challenge_p95_ms :: "metrics_collector \<Rightarrow> u64" where
  "m7_challenge_p95_ms m = percentile_95 (challenge_resolution_times_ms m)"

definition m8_emergency_pct :: "metrics_collector \<Rightarrow> u64" where
  "m8_emergency_pct m = pct (emergency_ratified m) (emergency_total m)"

definition m9_accountability_pct :: "metrics_collector \<Rightarrow> u64" where
  "m9_accountability_pct m = pct (accountability_completed m) (accountability_total m)"

definition m10_consent_pct :: "metrics_collector \<Rightarrow> u64" where
  "m10_consent_pct m = pct (consent_checks_verified m) (consent_checks_total m)"

definition m11_identity_pct :: "metrics_collector \<Rightarrow> u64" where
  "m11_identity_pct m = pct (identity_checks_verified m) (identity_checks_total m)"

definition m12_self_mod_pct :: "metrics_collector \<Rightarrow> u64" where
  "m12_self_mod_pct m = pct (self_mod_compliant m) (self_mod_total m)"

definition count_if :: "bool \<Rightarrow> u64 \<Rightarrow> u64" where
  "count_if b n = (if b then n + 1 else n)"

definition record_authority_check :: "bool \<Rightarrow> metrics_collector \<Rightarrow> metrics_collector" where
  "record_authority_check b m =
     m\<lparr>authority_verification_total := authority_verification_total m + 1,
       authority_verification_passed := count_if b (authority_verification_passed m)\<rparr>"

definition record_revocation_latency :: "u64 \<Rightarrow> metrics_collector \<Rightarrow> metrics_collector" where
  "record_revocation_latency ms m = m\<lparr>revocation_latencies_ms := revocation_latencies_ms m @ [ms]\<rparr>"

definition record_evidence_check :: "bool \<Rightarrow> metrics_collector \<Rightarrow> metrics_collector" where
  "record_evidence_check b m =
     m\<lparr>evidence_checks_total := evidence_checks_total m + 1,
       evidence_checks_complete := count_if b (evidence_checks_complete m)\<rparr>"

definition record_quorum_check :: "bool \<Rightarrow> metrics_collector \<Rightarrow> metrics_collector" where
  "record_quorum_check b m =
     m\<lparr>quorum_checks_total := quorum_checks_total m + 1, quorum_checks_met := count_if b (quorum_checks_met m)\<rparr>"

definition record_human_gate_check :: "bool \<Rightarrow> metrics_collector \<Rightarrow> metrics_collector" where
  "record_human_gate_check b m =
     m\<lparr>human_gate_checks_total := human_gate_checks_total m + 1,
       human_gate_checks_satisfied := count_if b (human_gate_checks_satisfied m)\<rparr>"

definition record_constitutional_check :: "bool \<Rightarrow> metrics_collector \<Rightarrow> metrics_collector" where
  "record_constitutional_check b m =
     m\<lparr>constitutional_binding_total := constitutional_binding_total m + 1,
       constitutional_binding_valid := count_if b (constitutional_binding_valid m)\<rparr>"

definition record_challenge_resolution :: "u64 \<Rightarrow> metrics_collector \<Rightarrow> metrics_collector" where
  "record_challenge_resolution ms m =
     m\<lparr>challenge_resolution_times_ms := challenge_resolution_times_ms m @ [ms]\<rparr>"

definition record_emergency :: "bool \<Rightarrow> metrics_collector \<Rightarrow> metrics_collector" where
  "record_emergency b m =
     m\<lparr>emergency_total := emergency_total m + 1, emergency_ratified := count_if b (emergency_ratified m)\<rparr>"

definition record_accountability :: "bool \<Rightarrow> metrics_collector \<Rightarrow> metrics_collector" where
  "record_accountability b m =
     m\<lparr>accountability_total := accountability_total m + 1,
       accountability_completed := count_if b (accountability_completed m)\<rparr>"

definition record_consent_check :: "bool \<Rightarrow> metrics_collector \<Rightarrow> metrics_collector" where
  "record_consent_check b m =
     m\<lparr>consent_checks_total := consent_checks_total m + 1,
       consent_checks_verified := count_if b (consent_checks_verified m)\<rparr>"

definition record_identity_check :: "bool \<Rightarrow> metrics_collector \<Rightarrow> metrics_collector" where
  "record_identity_check b m =
     m\<lparr>identity_checks_total := identity_checks_total m + 1,
       identity_checks_verified := count_if b (identity_checks_verified m)\<rparr>"

definition record_self_mod :: "bool \<Rightarrow> metrics_collector \<Rightarrow> metrics_collector" where
  "record_self_mod b m =
     m\<lparr>self_mod_total := self_mod_total m + 1, self_mod_compliant := count_if b (self_mod_compliant m)\<rparr>"

section \<open>The defence package\<close>

text \<open>\<open>usize\<close> fields are 64-bit words here, so that \<open>u64::try_from\<close> always succeeds on them.\<close>

record prong_disinterestedness =
  p1_total_members :: u64
  p1_recused_count :: u64
  p1_disinterested_voters :: u64
  p1_majority_disinterested :: bool
  p1_disclosure_record_hashes :: "hash256 list"

record prong_informed_basis =
  p2_voters_who_reviewed :: u64
  p2_total_voters :: u64
  p2_evidence_manifest_hashes :: "hash256 list"
  p2_materials_complete_before_vote :: bool

record prong_good_faith =
  p3_alternatives_count :: u64
  p3_dissent_records :: u64
  p3_deliberation_hashes :: "hash256 list"
  p3_process_compliant :: bool

record prong_rational_basis =
  p4_selected_rationale_hash :: "hash256 option"
  p4_risk_assessment_hash :: "hash256 option"
  p4_supporting_evidence_hashes :: "hash256 list"

definition p1_score_bps :: "prong_disinterestedness \<Rightarrow> u64" where
  "p1_score_bps p =
     (let eligible = saturating_sub (p1_total_members p) (p1_recused_count p)
      in if eligible = 0 then 0 else min (p1_disinterested_voters p * 10000 div eligible) 10000)"

definition p2_score_bps :: "prong_informed_basis \<Rightarrow> u64" where
  "p2_score_bps p =
     (if p2_total_voters p = 0 then 0 else min (p2_voters_who_reviewed p * 10000 div p2_total_voters p) 10000)"

definition p3_score_bps :: "prong_good_faith \<Rightarrow> u64" where
  "p3_score_bps p =
     (let alt_bps = (if p3_alternatives_count p \<ge> 2 then 10000 else p3_alternatives_count p * 5000);
          process_bps = (if p3_process_compliant p then 10000 else 0);
          dissent_bps = (if p3_dissent_records p > 0 \<or> length (p3_deliberation_hashes p) > 1 then 10000 else 5000)
      in min ((alt_bps + process_bps + dissent_bps) div 3) 10000)"

definition p4_score_bps :: "prong_rational_basis \<Rightarrow> u64" where
  "p4_score_bps p =
     (case (p4_selected_rationale_hash p \<noteq> None, p4_risk_assessment_hash p \<noteq> None) of
        (True, True) \<Rightarrow> 10000
      | (True, False) \<Rightarrow> 5000
      | (False, True) \<Rightarrow> 5000
      | (False, False) \<Rightarrow> 0)"

record fiduciary_package =
  fp_decision_hash :: hash256
  fp_disinterestedness :: prong_disinterestedness
  fp_informed_basis :: prong_informed_basis
  fp_good_faith :: prong_good_faith
  fp_rational_basis :: prong_rational_basis
  fp_package_hash :: hash256
  fp_disclaimer :: string

definition DISCLAIMER :: string where
  "DISCLAIMER = ''This package is a structured evidentiary aid, not a legal opinion. '' @
     ''Review by qualified counsel is required before use in litigation.''"

definition bool_byte :: "bool \<Rightarrow> bytes" where
  "bool_byte b = [if b then 1 else 0]"

definition option_bytes :: "hash256 option \<Rightarrow> bytes" where
  "option_bytes x = (case x of None \<Rightarrow> [] | Some h \<Rightarrow> hash_bytes h)"

definition hashes_bytes :: "hash256 list \<Rightarrow> bytes" where
  "hashes_bytes hs = concat (map hash_bytes hs)"

definition package_preimage ::
  "hash256 \<Rightarrow> prong_disinterestedness \<Rightarrow> prong_informed_basis \<Rightarrow> prong_good_faith \<Rightarrow> prong_rational_basis \<Rightarrow> bytes" where
  "package_preimage decision p1 p2 p3 p4 =
     str_bytes ''fjp:v1:'' @ hash_bytes decision @
     to_le_bytes 8 (p1_total_members p1) @ to_le_bytes 8 (p1_recused_count p1) @
     to_le_bytes 8 (p1_disinterested_voters p1) @ bool_byte (p1_majority_disinterested p1) @
     hashes_bytes (p1_disclosure_record_hashes p1) @
     to_le_bytes 8 (p2_voters_who_reviewed p2) @ to_le_bytes 8 (p2_total_voters p2) @
     bool_byte (p2_materials_complete_before_vote p2) @ hashes_bytes (p2_evidence_manifest_hashes p2) @
     to_le_bytes 8 (p3_alternatives_count p3) @ to_le_bytes 8 (p3_dissent_records p3) @
     bool_byte (p3_process_compliant p3) @ hashes_bytes (p3_deliberation_hashes p3) @
     option_bytes (p4_selected_rationale_hash p4) @ option_bytes (p4_risk_assessment_hash p4) @
     hashes_bytes (p4_supporting_evidence_hashes p4)"

definition compute_package_hash ::
  "blake3 \<Rightarrow> hash256 \<Rightarrow> prong_disinterestedness \<Rightarrow> prong_informed_basis \<Rightarrow> prong_good_faith \<Rightarrow> prong_rational_basis \<Rightarrow>
     hash256" where
  "compute_package_hash blake3 decision p1 p2 p3 p4 = Hash256 (blake3 (package_preimage decision p1 p2 p3 p4))"

definition fp_generate ::
  "blake3 \<Rightarrow> hash256 \<Rightarrow> prong_disinterestedness \<Rightarrow> prong_informed_basis \<Rightarrow> prong_good_faith \<Rightarrow> prong_rational_basis \<Rightarrow>
     fiduciary_package" where
  "fp_generate blake3 decision p1 p2 p3 p4 =
     \<lparr>fp_decision_hash = decision, fp_disinterestedness = p1, fp_informed_basis = p2, fp_good_faith = p3,
      fp_rational_basis = p4, fp_package_hash = compute_package_hash blake3 decision p1 p2 p3 p4,
      fp_disclaimer = DISCLAIMER\<rparr>"

definition bjr_defensibility_score_bps :: "fiduciary_package \<Rightarrow> u64" where
  "bjr_defensibility_score_bps p =
     (let total = p1_score_bps (fp_disinterestedness p) + p2_score_bps (fp_informed_basis p) +
                  p3_score_bps (fp_good_faith p) + p4_score_bps (fp_rational_basis p)
      in min (total div 4) 10000)"

definition fp_verify :: "blake3 \<Rightarrow> fiduciary_package \<Rightarrow> bool" where
  "fp_verify blake3 p =
     (compute_package_hash blake3 (fp_decision_hash p) (fp_disinterestedness p) (fp_informed_basis p)
        (fp_good_faith p) (fp_rational_basis p) = fp_package_hash p)"

section \<open>The percentile\<close>

lemma div_ceil_bounds:
  assumes "0 < b"
  shows "a \<le> div_ceil a b * b" "0 < a \<Longrightarrow> (div_ceil a b - 1) * b < a"
proof -
  have a: "a = a div b * b + a mod b" by simp
  have m: "a mod b < b" using assms by simp
  have c: "div_ceil a b * b = (if a mod b > 0 then a div b * b + b else a div b * b)"
    by (simp add: div_ceil_def)
  show "a \<le> div_ceil a b * b"
    unfolding c using a m by (metis add_left_mono less_imp_le_nat add.right_neutral gr0I order_refl)
  show "(div_ceil a b - 1) * b < a" if "0 < a"
  proof (cases "a mod b = 0")
    case True
    then have "a = a div b * b" "0 < a div b" using a that by (auto intro: gr0I)
    from \<open>0 < a div b\<close> have "(a div b - 1) * b < a div b * b"
      by (intro mult_strict_right_mono) (use assms in auto)
    with True \<open>a = a div b * b\<close> show ?thesis by (simp add: div_ceil_def)
  next
    case False
    then have "div_ceil a b - 1 = a div b" by (simp add: div_ceil_def)
    with False a show ?thesis by (metis less_add_same_cancel1 gr0I)
  qed
qed

lemma sorted_count_le:
  assumes "sorted xs" and "i < length xs"
  shows "i + 1 \<le> length (filter (\<lambda>x. x \<le> xs ! i) xs)"
proof -
  have "{0..i} \<subseteq> {j. j < length xs \<and> xs ! j \<le> xs ! i}"
    using assms by (auto intro: sorted_nth_mono)
  then have "card {0..i} \<le> card {j. j < length xs \<and> xs ! j \<le> xs ! i}"
    by (intro card_mono) auto
  then show ?thesis by (simp add: length_filter_conv_card)
qed

lemma sorted_count_less:
  assumes "sorted xs" and "i < length xs" and "y < xs ! i"
  shows "length (filter (\<lambda>x. x \<le> y) xs) \<le> i"
proof -
  have "{j. j < length xs \<and> xs ! j \<le> y} \<subseteq> {..<i}"
  proof
    fix j assume "j \<in> {j. j < length xs \<and> xs ! j \<le> y}"
    then have j: "j < length xs" "xs ! j \<le> y" by auto
    show "j \<in> {..<i}"
    proof (rule ccontr)
      assume "j \<notin> {..<i}"
      then have "xs ! i \<le> xs ! j" using assms(1) j(1) by (auto intro: sorted_nth_mono)
      with j(2) assms(3) show False by (meson leD order_trans)
    qed
  qed
  then have "card {j. j < length xs \<and> xs ! j \<le> y} \<le> card {..<i}" by (intro card_mono) auto
  then show ?thesis by (simp add: length_filter_conv_card)
qed

lemma filter_sort_length: "length (filter P (sort xs)) = length (filter P xs)"
  by (metis filter_sort length_sort)

text \<open>
  The reported latency is the 95th percentile by nearest rank. For a non-empty list of
  measurements it is one of them, at least 95 per cent of them are at most that value, and for every
  smaller value fewer than 95 per cent are.
\<close>

theorem percentile_95_nearest_rank:
  assumes "values \<noteq> []"
  shows "percentile_95 values \<in> set values \<and>
         95 * length values \<le> 100 * length (filter (\<lambda>x. x \<le> percentile_95 values) values) \<and>
         (\<forall>y < percentile_95 values. 100 * length (filter (\<lambda>x. x \<le> y) values) < 95 * length values)"
proof -
  let ?n = "length values" and ?c = "div_ceil (length values * 95) 100"
  have n: "0 < ?n" using assms by simp
  have c: "?n * 95 \<le> ?c * 100" "(?c - 1) * 100 < ?n * 95"
    using div_ceil_bounds [of 100 "?n * 95"] n by simp_all
  then have "?c \<le> ?n" "0 < ?c" using n by linarith+
  then have i: "min ?c ?n - 1 = ?c - 1" "?c - 1 < ?n" by simp_all
  have p: "percentile_95 values = sort values ! (?c - 1)"
    using assms i by (simp add: percentile_95_def Let_def)
  have "percentile_95 values \<in> set values"
    using nth_mem [of "?c - 1" "sort values"] i by (simp add: p)
  moreover have "?c \<le> length (filter (\<lambda>x. x \<le> percentile_95 values) values)"
    using sorted_count_le [of "sort values" "?c - 1"] i \<open>0 < ?c\<close>
    by (simp add: p filter_sort_length)
  moreover have "length (filter (\<lambda>x. x \<le> y) values) \<le> ?c - 1" if "y < percentile_95 values" for y
    using sorted_count_less [of "sort values" "?c - 1" y] i that by (simp add: p filter_sort_length)
  ultimately show ?thesis using c by fastforce
qed

theorem percentile_95_nearest_rank_witness:
  "percentile_95 [30, 10, 20] = 30 \<and> percentile_95 [30, 10, 20] \<in> set [30, 10, 20]"
proof -
  have "percentile_95 [30, 10, 20] = 30"
    by (simp add: percentile_95_def div_ceil_def Let_def)
  with percentile_95_nearest_rank [of "[30, 10, 20]"] show ?thesis by simp
qed

section \<open>Scores and the seal\<close>

lemma p_scores_bounded:
  "p1_score_bps p1 \<le> 10000" "p2_score_bps p2 \<le> 10000" "p3_score_bps p3 \<le> 10000" "p4_score_bps p4 \<le> 10000"
  by (auto simp: p1_score_bps_def p2_score_bps_def p3_score_bps_def p4_score_bps_def Let_def split: bool.splits)

lemma fp_generate_verifies: "fp_verify blake3 (fp_generate blake3 decision p1 p2 p3 p4)"
  by (simp add: fp_verify_def fp_generate_def)

text \<open>
  The seal does not say which hash fills which role: moving two supporting hashes into the roles of
  rationale and risk assessment keeps the package verifying and raises the fourth score from 0 to its
  maximum.
\<close>

lemma package_seal_malleable:
  assumes "fp_verify blake3 p" and "fp_rational_basis p =
     \<lparr>p4_selected_rationale_hash = None, p4_risk_assessment_hash = None,
      p4_supporting_evidence_hashes = a # b # hs\<rparr>"
  shows "let q = p\<lparr>fp_rational_basis :=
            \<lparr>p4_selected_rationale_hash = Some a, p4_risk_assessment_hash = Some b,
             p4_supporting_evidence_hashes = hs\<rparr>\<rparr>
         in fp_verify blake3 q \<and> p4_score_bps (fp_rational_basis p) = 0 \<and> p4_score_bps (fp_rational_basis q) = 10000"
  using assms
  by (simp add: fp_verify_def compute_package_hash_def package_preimage_def option_bytes_def hashes_bytes_def
      p4_score_bps_def)

end
