(* ===== verification/Forum_Process.thy ===== *)
theory Forum_Process
  imports Forum_Decision Gov_Process
begin

text \<open>
  Procedures of \<open>src/crates/decision-forum\<close>: contestation (\<open>contestation.rs\<close>), accountability
  (\<open>accountability.rs\<close>), the emergency protocol (\<open>emergency.rs\<close>), the constitutional corpus
  (\<open>constitution.rs\<close>), terms (\<open>terms.rs\<close>) and self-governance (\<open>self_governance.rs\<close>). Fresh identifiers
  are arguments; an operation on a mutable reference returns its new value with the result.
\<close>

section \<open>Contestation\<close>

record challenge_object =
  co_id :: uuid
  co_decision_id :: uuid
  co_challenger_did :: did
  co_ground :: challenge_ground
  co_evidence_hash :: hash256
  co_status :: challenge_status
  co_created_at :: timestamp
  co_resolved_at :: "timestamp option"
  co_resolution_decision_id :: "uuid option"

record reversal_link =
  rl_original_decision_id :: uuid
  rl_reversal_decision_id :: uuid
  rl_challenge_id :: uuid
  rl_reversed_at :: timestamp

definition forum_file_challenge ::
  "uuid \<Rightarrow> uuid \<Rightarrow> did \<Rightarrow> challenge_ground \<Rightarrow> hash256 \<Rightarrow> timestamp \<Rightarrow> challenge_object" where
  "forum_file_challenge u decision challenger ground evidence ts =
     \<lparr>co_id = u, co_decision_id = decision, co_challenger_did = challenger, co_ground = ground,
      co_evidence_hash = evidence, co_status = Filed, co_created_at = ts, co_resolved_at = None,
      co_resolution_decision_id = None\<rparr>"

definition forum_adjudicate ::
  "challenge_object \<Rightarrow> challenge_verdict \<Rightarrow> timestamp \<Rightarrow> (challenge_object, forum_error) result" where
  "forum_adjudicate c verdict ts =
     (if co_status c = Filed \<or> co_status c = UnderReview
      then Ok (c\<lparr>co_status := (case verdict of Sustain \<Rightarrow> Sustained | Overrule \<Rightarrow> Overruled),
                 co_resolved_at := Some ts\<rparr>)
      else Err (FChallengeError (''cannot adjudicate from status '' @ challenge_status_name (co_status c))))"

definition forum_begin_review :: "challenge_object \<Rightarrow> (challenge_object, forum_error) result" where
  "forum_begin_review c =
     (if co_status c \<noteq> Filed then Err (FChallengeError ''can only begin review from Filed status'')
      else Ok (c\<lparr>co_status := UnderReview\<rparr>))"

definition forum_withdraw :: "challenge_object \<Rightarrow> (challenge_object, forum_error) result" where
  "forum_withdraw c =
     (if co_status c = Filed \<or> co_status c = UnderReview then Ok (c\<lparr>co_status := Withdrawn\<rparr>)
      else Err (FChallengeError (''cannot withdraw from '' @ challenge_status_name (co_status c))))"

definition create_reversal :: "challenge_object \<Rightarrow> uuid \<Rightarrow> timestamp \<Rightarrow> (reversal_link, forum_error) result" where
  "create_reversal c reversal ts =
     (if co_status c \<noteq> Sustained then Err (FChallengeError ''reversal requires sustained challenge'')
      else Ok \<lparr>rl_original_decision_id = co_decision_id c, rl_reversal_decision_id = reversal,
               rl_challenge_id = co_id c, rl_reversed_at = ts\<rparr>)"

definition is_contested :: "challenge_object list \<Rightarrow> uuid \<Rightarrow> bool" where
  "is_contested cs decision =
     list_ex (\<lambda>c. co_decision_id c = decision \<and> (co_status c = Filed \<or> co_status c = UnderReview)) cs"

section \<open>Accountability\<close>

datatype accountability_type = Censure | Suspension | Revocation | Recall

datatype accountability_status = AcProposed | AcDueProcess | AcEnacted | AcReversed

fun accountability_status_name :: "accountability_status \<Rightarrow> string" where
  "accountability_status_name AcProposed = ''Proposed''"
| "accountability_status_name AcDueProcess = ''DueProcess''"
| "accountability_status_name AcEnacted = ''Enacted''"
| "accountability_status_name AcReversed = ''Reversed''"

record accountability_action =
  ac_id :: uuid
  ac_action_type :: accountability_type
  ac_target_did :: did
  ac_proposer_did :: did
  ac_reason :: string
  ac_evidence_hash :: hash256
  ac_status :: accountability_status
  ac_decision_id :: "uuid option"
  ac_proposed_at :: timestamp
  ac_enacted_at :: "timestamp option"
  ac_due_process_deadline :: timestamp

definition SUSPENSION_ENACT_LIMIT_MS :: u64 where
  "SUSPENSION_ENACT_LIMIT_MS = 60000"

definition DUE_PROCESS_WINDOW_MS :: u64 where
  "DUE_PROCESS_WINDOW_MS = 7 * 24 * 60 * 60 * 1000"

definition ac_propose ::
  "uuid \<Rightarrow> accountability_type \<Rightarrow> did \<Rightarrow> did \<Rightarrow> string \<Rightarrow> hash256 \<Rightarrow> timestamp \<Rightarrow> accountability_action" where
  "ac_propose u ty target proposer reason evidence ts =
     \<lparr>ac_id = u, ac_action_type = ty, ac_target_did = target, ac_proposer_did = proposer, ac_reason = reason,
      ac_evidence_hash = evidence, ac_status = AcProposed, ac_decision_id = None, ac_proposed_at = ts,
      ac_enacted_at = None,
      ac_due_process_deadline = Timestamp (saturating_add (physical_ms ts) DUE_PROCESS_WINDOW_MS) 0\<rparr>"

definition begin_due_process :: "accountability_action \<Rightarrow> (accountability_action, forum_error) result" where
  "begin_due_process a =
     (if ac_status a \<noteq> AcProposed
      then Err (FAccountabilityFailed (''cannot begin due process from '' @ accountability_status_name (ac_status a)))
      else Ok (a\<lparr>ac_status := AcDueProcess\<rparr>))"

definition ac_enact ::
  "accountability_action \<Rightarrow> uuid \<Rightarrow> timestamp \<Rightarrow> (accountability_action, forum_error) result" where
  "ac_enact a decision ts =
     (if \<not> (ac_status a = AcProposed \<or> ac_status a = AcDueProcess)
      then Err (FAccountabilityFailed (''cannot enact from '' @ accountability_status_name (ac_status a)))
      else
        let elapsed_ms = saturating_sub (physical_ms ts) (physical_ms (ac_proposed_at a))
        in if ac_action_type a = Suspension \<and> elapsed_ms > SUSPENSION_ENACT_LIMIT_MS
           then Err (FAccountabilityFailed (''suspension enactment exceeded 60s limit: '' @
                       show_nat (unat elapsed_ms) @ ''ms elapsed''))
           else Ok (a\<lparr>ac_status := AcEnacted, ac_decision_id := Some decision, ac_enacted_at := Some ts\<rparr>))"

definition ac_reverse :: "accountability_action \<Rightarrow> (accountability_action, forum_error) result" where
  "ac_reverse a =
     (if ac_status a \<noteq> AcEnacted then Err (FAccountabilityFailed ''can only reverse enacted actions'')
      else Ok (a\<lparr>ac_status := AcReversed\<rparr>))"

definition is_due_process_expired :: "accountability_action \<Rightarrow> timestamp \<Rightarrow> bool" where
  "is_due_process_expired a now = (ac_status a = AcDueProcess \<and> now > ac_due_process_deadline a)"

section \<open>Emergency actions\<close>

datatype emergency_action_type = SystemHalt | AccessRevocation | DataFreeze | EmergencyPatch | RoleEscalation

fun emergency_type_name :: "emergency_action_type \<Rightarrow> string" where
  "emergency_type_name SystemHalt = ''SystemHalt''"
| "emergency_type_name AccessRevocation = ''AccessRevocation''"
| "emergency_type_name DataFreeze = ''DataFreeze''"
| "emergency_type_name EmergencyPatch = ''EmergencyPatch''"
| "emergency_type_name RoleEscalation = ''RoleEscalation''"

datatype ratification_status = RatRequired | Ratified | RatExpired

fun ratification_status_name :: "ratification_status \<Rightarrow> string" where
  "ratification_status_name RatRequired = ''Required''"
| "ratification_status_name Ratified = ''Ratified''"
| "ratification_status_name RatExpired = ''Expired''"

record emergency_action =
  em_id :: uuid
  em_action_type :: emergency_action_type
  em_actor_did :: did
  em_justification :: string
  em_monetary_cap_cents :: u64
  em_actual_cost_cents :: u64
  em_created_at :: timestamp
  em_status :: ratification_status
  em_deadline :: timestamp
  em_decision_id :: "uuid option"
  em_evidence_hash :: hash256

record emergency_policy =
  max_monetary_cap_cents :: u64
  allowed_actions :: "emergency_action_type list"
  ratification_window_ms :: u64
  max_per_quarter :: nat
  max_per_quarter_per_actor :: nat

definition default_emergency_policy :: emergency_policy where
  "default_emergency_policy =
     \<lparr>max_monetary_cap_cents = 10000000,
      allowed_actions = [SystemHalt, AccessRevocation, DataFreeze, EmergencyPatch, RoleEscalation],
      ratification_window_ms = 72 * 60 * 60 * 1000, max_per_quarter = 3, max_per_quarter_per_actor = 1\<rparr>"

definition create_emergency_action ::
  "uuid \<Rightarrow> emergency_action_type \<Rightarrow> did \<Rightarrow> string \<Rightarrow> u64 \<Rightarrow> hash256 \<Rightarrow> emergency_policy \<Rightarrow> timestamp \<Rightarrow>
     (emergency_action, forum_error) result" where
  "create_emergency_action u ty actor justification cap evidence policy ts =
     (if \<not> List.member (allowed_actions policy) ty
      then Err (FEmergencyInvalid (emergency_type_name ty @ '' not in allowed actions''))
      else if cap > max_monetary_cap_cents policy
      then Err (FEmergencyCapExceeded (''cap '' @ show_nat (unat cap) @ '' exceeds policy max '' @
                  show_nat (unat (max_monetary_cap_cents policy))))
      else Ok \<lparr>em_id = u, em_action_type = ty, em_actor_did = actor, em_justification = justification,
               em_monetary_cap_cents = cap, em_actual_cost_cents = 0, em_created_at = ts,
               em_status = RatRequired,
               em_deadline = Timestamp (saturating_add (physical_ms ts) (ratification_window_ms policy)) 0,
               em_decision_id = None, em_evidence_hash = evidence\<rparr>)"

definition check_per_actor_limit ::
  "emergency_action list \<Rightarrow> did \<Rightarrow> emergency_policy \<Rightarrow> (unit, forum_error) result" where
  "check_per_actor_limit prior actor policy =
     (if max_per_quarter_per_actor policy = 0 then Ok ()
      else
        let actor_count = length (filter (\<lambda>a. em_actor_did a = actor \<and> em_status a \<noteq> RatExpired) prior)
        in if actor_count \<ge> max_per_quarter_per_actor policy
           then Err (FEmergencyInvalid (''per-actor emergency limit reached: '' @ show_nat actor_count @ ''/'' @
                       show_nat (max_per_quarter_per_actor policy) @ '' this quarter''))
           else Ok ())"

definition ratify_emergency ::
  "emergency_action \<Rightarrow> uuid \<Rightarrow> timestamp \<Rightarrow> emergency_action \<times> (unit, forum_error) result" where
  "ratify_emergency a decision ts =
     (if em_status a \<noteq> RatRequired
      then (a, Err (FEmergencyInvalid (''cannot ratify from status '' @ ratification_status_name (em_status a))))
      else if ts > em_deadline a
      then (a\<lparr>em_status := RatExpired\<rparr>, Err (FEmergencyInvalid ''ratification deadline passed''))
      else (a\<lparr>em_status := Ratified, em_decision_id := Some decision\<rparr>, Ok ()))"

definition em_check_expiry :: "emergency_action \<Rightarrow> timestamp \<Rightarrow> emergency_action \<times> bool" where
  "em_check_expiry a now =
     (if em_status a = RatRequired \<and> now > em_deadline a then (a\<lparr>em_status := RatExpired\<rparr>, True) else (a, False))"

definition needs_governance_review :: "emergency_action list \<Rightarrow> emergency_policy \<Rightarrow> bool" where
  "needs_governance_review actions policy =
     (length (filter (\<lambda>a. em_status a \<noteq> RatExpired) actions) > max_per_quarter policy)"

section \<open>The constitutional corpus\<close>

datatype document_tier = TArticles | TBylaws | TResolutions | TCharters | TPolicies

fun tier_rank :: "document_tier \<Rightarrow> nat" where
  "tier_rank TArticles = 0"
| "tier_rank TBylaws = 1"
| "tier_rank TResolutions = 2"
| "tier_rank TCharters = 3"
| "tier_rank TPolicies = 4"

fun tier_name :: "document_tier \<Rightarrow> string" where
  "tier_name TArticles = ''Articles''"
| "tier_name TBylaws = ''Bylaws''"
| "tier_name TResolutions = ''Resolutions''"
| "tier_name TCharters = ''Charters''"
| "tier_name TPolicies = ''Policies''"

datatype article_status = ArtActive | ArtAmended | ArtRepealed

record article =
  art_id :: string
  art_title :: string
  art_tier :: document_tier
  art_text_hash :: hash256
  art_status :: article_status

record constitution_quorum =
  required_signatures :: nat
  required_fraction_pct :: u32

record constitution_corpus =
  cc_version :: version
  cc_hash :: hash256
  cc_articles :: "article list"
  cc_ratified_at :: "timestamp option"
  cc_amendment_count :: u32

definition corpus_preimage :: "article list \<Rightarrow> bytes" where
  "corpus_preimage as = concat (map (\<lambda>a. hash_bytes (art_text_hash a) @ str_bytes (art_id a)) as)"

definition compute_corpus_hash :: "blake3 \<Rightarrow> article list \<Rightarrow> hash256" where
  "compute_corpus_hash blake3 as = Hash256 (blake3 (corpus_preimage as))"

definition cc_new :: "blake3 \<Rightarrow> article list \<Rightarrow> constitution_corpus" where
  "cc_new blake3 as =
     \<lparr>cc_version = version_next VERSION_ZERO, cc_hash = compute_corpus_hash blake3 as, cc_articles = as,
      cc_ratified_at = None, cc_amendment_count = 0\<rparr>"

definition is_ratified :: "constitution_corpus \<Rightarrow> bool" where
  "is_ratified c = (cc_ratified_at c \<noteq> None)"

definition find_article :: "constitution_corpus \<Rightarrow> string \<Rightarrow> article option" where
  "find_article c i = List.find (\<lambda>a. art_id a = i) (cc_articles c)"

definition active_article_count :: "constitution_corpus \<Rightarrow> nat" where
  "active_article_count c = length (filter (\<lambda>a. art_status a = ArtActive) (cc_articles c))"

definition resolve_conflict :: "constitution_corpus \<Rightarrow> article \<Rightarrow> article \<Rightarrow> article" where
  "resolve_conflict c a b = (if tier_rank (art_tier a) \<le> tier_rank (art_tier b) then a else b)"

definition valid_signatures :: "(did \<times> signature) list \<Rightarrow> nat" where
  "valid_signatures sigs = length (filter (\<lambda>(_, s). \<not> sig_is_empty s) sigs)"

definition ratify ::
  "constitution_corpus \<Rightarrow> (did \<times> signature) list \<Rightarrow> constitution_quorum \<Rightarrow> timestamp \<Rightarrow>
     (constitution_corpus, forum_error) result" where
  "ratify c sigs q ts =
     (if is_ratified c then Err (FNotRatified ''already ratified'')
      else if valid_signatures sigs < required_signatures q
      then Err (FQuorumNotMet (required_signatures q) (valid_signatures sigs))
      else Ok (c\<lparr>cc_ratified_at := Some ts\<rparr>))"

definition amend ::
  "blake3 \<Rightarrow> constitution_corpus \<Rightarrow> article \<Rightarrow> (did \<times> signature) list \<Rightarrow> (constitution_corpus, forum_error) result" where
  "amend blake3 c a sigs =
     (if \<not> is_ratified c then Err (FAmendmentFailed ''not ratified'')
      else if valid_signatures sigs = 0 then Err (FAmendmentFailed ''no valid signatures'')
      else let as = cc_articles c @ [a]
           in Ok (c\<lparr>cc_articles := as, cc_version := version_next (cc_version c),
                    cc_hash := compute_corpus_hash blake3 as,
                    cc_amendment_count := cc_amendment_count c + 1\<rparr>))"

definition dry_run_amendment :: "constitution_corpus \<Rightarrow> article \<Rightarrow> (string list, forum_error) result" where
  "dry_run_amendment c proposed =
     Ok (map (\<lambda>e. ''Article '' @ quoted (art_id e) @ '' already exists at tier '' @ tier_name (art_tier e))
          (filter (\<lambda>e. art_status e = ArtActive \<and> art_id e = art_id proposed) (cc_articles c)))"

section \<open>Terms\<close>

record terms_document =
  td_id :: string
  td_version :: u64
  td_text_hash :: hash256
  td_effective_at :: timestamp

record terms_acceptance =
  ta_terms_id :: string
  ta_terms_version :: u64
  ta_accepted_by :: did
  ta_accepted_at :: timestamp
  ta_signature_hash :: hash256

record terms_registry =
  tr_acceptances :: "terms_acceptance list"

definition terms_new :: terms_registry where
  "terms_new = \<lparr>tr_acceptances = []\<rparr>"

definition terms_accept :: "terms_registry \<Rightarrow> terms_acceptance \<Rightarrow> terms_registry" where
  "terms_accept r a = r\<lparr>tr_acceptances := tr_acceptances r @ [a]\<rparr>"

definition has_accepted :: "terms_registry \<Rightarrow> did \<Rightarrow> string \<Rightarrow> u64 \<Rightarrow> bool" where
  "has_accepted r who i v =
     list_ex (\<lambda>a. ta_accepted_by a = who \<and> ta_terms_id a = i \<and> ta_terms_version a = v) (tr_acceptances r)"

definition require_acceptance :: "terms_registry \<Rightarrow> did \<Rightarrow> string \<Rightarrow> u64 \<Rightarrow> (unit, forum_error) result" where
  "require_acceptance r who i v =
     (if has_accepted r who i v then Ok () else Err (FTermsNotAccepted (did_str who)))"

section \<open>Self-governance\<close>

datatype governance_change_type =
    ConstitutionalAmendment | QuorumPolicyChange | AuthorityMatrixUpdate | HumanGatePolicyChange
  | EmergencyPolicyChange | MetricsThresholdChange

record simulation_result =
  sim_passed :: bool
  sim_issues :: "string list"
  sim_simulated_at :: timestamp
  sim_input_hash :: hash256

record governance_proposal =
  gp_id :: uuid
  gp_title :: string
  gp_description :: string
  gp_change_type :: governance_change_type
  gp_decision_id :: "uuid option"
  gp_simulation_result :: "simulation_result option"
  gp_proposed_at :: timestamp

definition gov_simulate :: "blake3 \<Rightarrow> governance_proposal \<Rightarrow> hash256 \<Rightarrow> timestamp \<Rightarrow> simulation_result" where
  "gov_simulate blake3 p current_hash ts =
     (let issues =
        (if gp_change_type p = ConstitutionalAmendment \<and> gp_decision_id p = None
         then [''constitutional amendment requires backing decision''] else []) @
        (if gp_title p = [] then [''proposal title is empty''] else [])
      in \<lparr>sim_passed = (issues = []), sim_issues = issues, sim_simulated_at = ts,
          sim_input_hash = digest blake3 (str_bytes (gp_title p))\<rparr>)"

record compliance_tracker =
  total_modifications :: u64
  compliant_modifications :: u64

definition ct_new :: compliance_tracker where
  "ct_new = \<lparr>total_modifications = 0, compliant_modifications = 0\<rparr>"

definition ct_record :: "compliance_tracker \<Rightarrow> bool \<Rightarrow> compliance_tracker" where
  "ct_record t compliant =
     \<lparr>total_modifications = total_modifications t + 1,
      compliant_modifications = (if compliant then compliant_modifications t + 1 else compliant_modifications t)\<rparr>"

definition compliance_rate_pct :: "compliance_tracker \<Rightarrow> u64" where
  "compliance_rate_pct t =
     (if total_modifications t = 0 then 100 else compliant_modifications t * 100 div total_modifications t)"

definition create_proposal ::
  "uuid \<Rightarrow> string \<Rightarrow> string \<Rightarrow> governance_change_type \<Rightarrow> timestamp \<Rightarrow> governance_proposal" where
  "create_proposal u title description ty ts =
     \<lparr>gp_id = u, gp_title = title, gp_description = description, gp_change_type = ty, gp_decision_id = None,
      gp_simulation_result = None, gp_proposed_at = ts\<rparr>"

section \<open>The emergency protocol\<close>

text \<open>
  The actions of a quarter: they are created, ratified or expire, in any order. \<open>create_emergency_action\<close>
  does not call \<open>check_per_actor_limit\<close>; the documentation leaves that to the caller. The flag records
  whether every creation so far came right after a check that passed on the actions there were.
\<close>

inductive em_reach :: "emergency_policy \<Rightarrow> bool \<Rightarrow> emergency_action list \<Rightarrow> bool" for policy :: emergency_policy where
  em_start: "em_reach policy True []"
| em_invoke: "em_reach policy gated acts \<Longrightarrow>
     create_emergency_action u ty actor justification cap evidence policy ts = Inr a \<Longrightarrow>
     em_reach policy (gated \<and> check_per_actor_limit acts actor policy = Inr ()) (acts @ [a])"
| em_ratify: "em_reach policy gated acts \<Longrightarrow> i < length acts \<Longrightarrow>
     ratify_emergency (acts ! i) decision ts = (a, r) \<Longrightarrow> em_reach policy gated (acts[i := a])"
| em_expire: "em_reach policy gated acts \<Longrightarrow> i < length acts \<Longrightarrow>
     em_check_expiry (acts ! i) ts = (a, b) \<Longrightarrow> em_reach policy gated (acts[i := a])"

definition standing :: "did \<Rightarrow> emergency_action list \<Rightarrow> nat" where
  "standing actor acts = length (filter (\<lambda>a. em_actor_did a = actor \<and> em_status a \<noteq> RatExpired) acts)"






lemma check_per_actor_limit_iff:
  "check_per_actor_limit acts actor policy = Inr () \<longleftrightarrow>
     max_per_quarter_per_actor policy = 0 \<or> standing actor acts < max_per_quarter_per_actor policy"
  by (auto simp: check_per_actor_limit_def standing_def Let_def)





definition sample_emergency :: "uuid \<Rightarrow> emergency_action" where
  "sample_emergency u =
     \<lparr>em_id = u, em_action_type = DataFreeze, em_actor_did = Did ''did:exo:a'', em_justification = ''breach'',
      em_monetary_cap_cents = 500, em_actual_cost_cents = 0, em_created_at = Timestamp 9 0,
      em_status = RatRequired, em_deadline = Timestamp 259200009 0, em_decision_id = None,
      em_evidence_hash = HASH_ZERO\<rparr>"

lemma sample_emergency_created:
  "create_emergency_action u DataFreeze (Did ''did:exo:a'') ''breach'' 500 HASH_ZERO
     default_emergency_policy (Timestamp 9 0) = Inr (sample_emergency u)"
  by (simp add: create_emergency_action_def default_emergency_policy_def sample_emergency_def saturating_add_def)

lemma sample_emergency_reach: "em_reach default_emergency_policy True [sample_emergency 1]"
  using em_invoke [OF em_start sample_emergency_created]
  by (simp add: check_per_actor_limit_iff standing_def default_emergency_policy_def)


text \<open>
  No function composes the check with the creation, and the one caller in the repository,
  \<open>wasm_create_emergency_action\<close>, does not make it: an actor at the limit can create another action.
\<close>

lemma unchecked_creation_exceeds_limit:
  "em_reach default_emergency_policy False [sample_emergency 1, sample_emergency 2] \<and>
   standing (Did ''did:exo:a'') [sample_emergency 1, sample_emergency 2] >
     max_per_quarter_per_actor default_emergency_policy"
  using em_invoke [OF sample_emergency_reach sample_emergency_created [of 2]]
  by (simp add: check_per_actor_limit_iff standing_def default_emergency_policy_def sample_emergency_def)

text \<open>
  The limit counts standing actions only, so an actor who lets an action expire unratified may invoke
  another one in the same quarter.
\<close>

lemma expiry_frees_quota:
  assumes "\<forall>a \<in> set acts. em_status a = RatExpired"
  shows "check_per_actor_limit acts actor policy = Inr ()"
proof -
  have "filter (\<lambda>a. em_actor_did a = actor \<and> em_status a \<noteq> RatExpired) acts = []"
    using assms by (simp add: filter_empty_conv)
  then show ?thesis by (simp add: check_per_actor_limit_def Let_def)
qed

section \<open>Accountability, challenges and the corpus\<close>

text \<open>Any proposed action can be enacted at once: only a suspension is timed, and none needs due process.\<close>

lemma enact_skips_due_process:
  "ac_action_type a \<noteq> Suspension \<Longrightarrow> ac_status a = AcProposed \<Longrightarrow>
     \<exists>a'. ac_enact a decision ts = Inr a' \<and> ac_status a' = AcEnacted"
  by (simp add: ac_enact_def Let_def)

lemma suspension_prompt:
  "ac_enact a decision ts = Inr a' \<Longrightarrow> ac_action_type a = Suspension \<Longrightarrow>
     unat (physical_ms ts) \<le> unat (physical_ms (ac_proposed_at a)) + 60000"
  by (auto simp: ac_enact_def Let_def saturating_sub_def SUSPENSION_ENACT_LIMIT_MS_def word_less_nat_alt
      word_le_nat_alt not_less unat_sub split: if_splits)

text \<open>A reversal needs a sustained challenge, and that needs a verdict on an open one.\<close>

lemma reversal_needs_verdict:
  assumes "create_reversal c reversal ts = Inr l" and "c = forum_file_challenge u d who g e t \<or>
      forum_adjudicate c0 v t = Inr c \<or> forum_begin_review c0 = Inr c \<or> forum_withdraw c0 = Inr c"
  shows "forum_adjudicate c0 v t = Inr c \<and> v = Sustain \<and> rl_challenge_id l = co_id c0"
  using assms
  by (auto simp: create_reversal_def forum_file_challenge_def forum_adjudicate_def forum_begin_review_def
      forum_withdraw_def split: if_splits challenge_verdict.splits)

lemma amend_hash:
  "amend blake3 c a sigs = Inr c' \<Longrightarrow>
     cc_hash c' = compute_corpus_hash blake3 (cc_articles c') \<and> cc_articles c' = cc_articles c @ [a] \<and>
     cc_ratified_at c' = cc_ratified_at c \<and> cc_ratified_at c \<noteq> None"
  by (auto simp: amend_def is_ratified_def Let_def split: if_splits)

text \<open>
  The corpus hash does not delimit identifiers: an article whose identifier spells out a hash and a
  second identifier has the bytes of two articles.
\<close>

lemma corpus_preimage_ambiguous:
  "hash_bytes h = str_bytes x \<Longrightarrow>
   corpus_preimage [a\<lparr>art_id := s @ x @ t\<rparr>] = corpus_preimage [a\<lparr>art_id := s\<rparr>, b\<lparr>art_text_hash := h, art_id := t\<rparr>]"
  by (simp add: corpus_preimage_def str_bytes_def)

text \<open>Tiers and statuses of the articles are not hashed either.\<close>

lemma corpus_hash_ignores_tier:
  "compute_corpus_hash blake3 (map (\<lambda>a. a\<lparr>art_tier := f a, art_status := g a\<rparr>) as) = compute_corpus_hash blake3 as"
  by (simp add: compute_corpus_hash_def corpus_preimage_def comp_def)

lemma terms_accept_iff:
  "require_acceptance (terms_accept r a) who i v = Inr () \<longleftrightarrow>
     require_acceptance r who i v = Inr () \<or> ta_accepted_by a = who \<and> ta_terms_id a = i \<and> ta_terms_version a = v"
  by (auto simp: require_acceptance_def terms_accept_def has_accepted_def)

end
