(* ===== verification/Identity.thy ===== *)
theory Identity
  imports Crypto Shamir
begin

text \<open>
  Identities of \<open>src/crates/exo-identity\<close>: the DID registry (\<open>did.rs\<close>), verification methods and their
  rotation (\<open>did_verification.rs\<close>), key records (\<open>key_management.rs\<close>), operator continuity (\<open>pace.rs\<close>), risk
  attestations (\<open>risk.rs\<close>) and the vault (\<open>vault.rs\<close>). The signature primitives, the Base58 codec, key
  generation, the key derivation function, the AEAD cipher and random nonces are parameters.
\<close>

section \<open>DID documents and the registry\<close>

record authentication_method =
  auth_id :: string
  auth_method_type :: string
  auth_public_key :: public_key

record service_endpoint =
  se_id :: string
  se_service_type :: string
  se_endpoint :: string

record verification_method =
  vm_id :: string
  vm_key_type :: string
  vm_controller :: did
  vm_public_key_multibase :: string
  vm_version :: u64
  vm_active :: bool
  vm_valid_from :: u64
  vm_revoked_at :: "u64 option"

record revocation_proof =
  rp_did :: did
  rp_signature :: signature

record did_document =
  dd_id :: did
  dd_public_keys :: "public_key list"
  dd_authentication :: "authentication_method list"
  dd_verification_methods :: "verification_method list"
  dd_service_endpoints :: "service_endpoint list"
  dd_created :: timestamp
  dd_updated :: timestamp
  dd_revoked :: bool

record did_registry =
  dr_documents :: "(string, did_document) btree_map"

definition dr_new :: did_registry where
  "dr_new = \<lparr>dr_documents = bm_empty\<rparr>"

definition dr_resolve :: "did_registry \<Rightarrow> did \<Rightarrow> did_document option" where
  "dr_resolve r d =
     (case bm_get (dr_documents r) (did_str d) of
        None \<Rightarrow> None | Some doc \<Rightarrow> if \<not> dd_revoked doc then Some doc else None)"

definition dr_put :: "did_registry \<Rightarrow> string \<Rightarrow> did_document \<Rightarrow> did_registry" where
  "dr_put r k doc = r\<lparr>dr_documents := bm_insert k doc (dr_documents r)\<rparr>"

definition dr_register :: "did_registry \<Rightarrow> did_document \<Rightarrow> (did_registry, identity_error) result" where
  "dr_register r doc =
     (if bm_contains (dr_documents r) (did_str (dd_id doc)) then Err (DuplicateDid (dd_id doc))
      else Ok (dr_put r (did_str (dd_id doc)) doc))"

definition dr_revoke ::
  "crypto_prims \<Rightarrow> did_registry \<Rightarrow> did \<Rightarrow> revocation_proof \<Rightarrow> (did_registry, identity_error) result" where
  "dr_revoke prims r d proof_arg =
     and_then (ok_or (bm_get (dr_documents r) (did_str d)) (DidNotFound d)) (\<lambda>doc.
       if \<not> list_ex (verify prims (str_bytes (did_str d)) (rp_signature proof_arg)) (dd_public_keys doc)
       then Err (InvalidRevocationProof d)
       else Ok (dr_put r (did_str d) (doc\<lparr>dd_revoked := True\<rparr>)))"

abbreviation pk_bytes :: "public_key \<Rightarrow> bytes" where
  "pk_bytes k \<equiv> bytes32 (pk_arr k)"

definition dr_rotate_key ::
  "crypto_prims \<Rightarrow> did_registry \<Rightarrow> did \<Rightarrow> public_key \<Rightarrow> signature \<Rightarrow> (did_registry, identity_error) result" where
  "dr_rotate_key prims r d new_key proof_arg =
     and_then (ok_or (bm_get (dr_documents r) (did_str d)) (DidNotFound d)) (\<lambda>doc.
       if dd_revoked doc then Err (DidRevoked d)
       else if \<not> list_ex (verify prims (pk_bytes new_key) proof_arg) (dd_public_keys doc)
       then Err IdInvalidSignature
       else Ok (dr_put r (did_str d)
                  (doc\<lparr>dd_public_keys := dd_public_keys doc @ [new_key],
                       dd_updated := Timestamp (physical_ms (dd_updated doc) + 1) 0\<rparr>)))"

definition dr_len :: "did_registry \<Rightarrow> nat" where
  "dr_len r = bm_len (dr_documents r)"

definition dr_is_empty :: "did_registry \<Rightarrow> bool" where
  "dr_is_empty r = bm_is_empty (dr_documents r)"

section \<open>Verification methods\<close>

datatype did_verification_error =
    MethodNotFound string
  | MethodRevoked string
  | DvCryptoError string
  | DvInvalidSignature

text \<open>The crate \<open>bs58\<close>: decoding may fail with a message.\<close>

record base58 =
  b58_encode :: "bytes \<Rightarrow> string"
  b58_decode :: "string \<Rightarrow> (bytes, string) result"

definition verify_did_signature ::
  "crypto_prims \<Rightarrow> base58 \<Rightarrow> did_document \<Rightarrow> string \<Rightarrow> bytes \<Rightarrow> signature \<Rightarrow> (unit, did_verification_error) result" where
  "verify_did_signature prims b58 doc key_id message sig =
     and_then (ok_or (List.find (\<lambda>m. vm_id m = key_id) (dd_verification_methods doc)) (MethodNotFound key_id)) (\<lambda>m.
       if \<not> vm_active m then Err (MethodRevoked key_id)
       else and_then
         (if starts_with (vm_public_key_multibase m) ''z''
          then (case b58_decode b58 (drop 1 (vm_public_key_multibase m)) of
                  Inl e \<Rightarrow> Err (DvCryptoError (''base58 decode: '' @ e)) | Inr b \<Rightarrow> Ok b)
          else Err (DvCryptoError (''unsupported multibase prefix (expected '' @ quoted ''z'' @ '' for base58btc)'')))
         (\<lambda>pub_key_bytes.
            and_then (ok_or (try_arr32 pub_key_bytes) (DvCryptoError ''public key must be 32 bytes'')) (\<lambda>k.
              if verify prims message sig (PublicKey k) then Ok () else Err DvInvalidSignature)))"

fun first_index :: "('a \<Rightarrow> bool) \<Rightarrow> 'a list \<Rightarrow> nat option" where
  "first_index P [] = None"
| "first_index P (x # xs) = (if P x then Some 0 else map_option Suc (first_index P xs))"

definition rotated_method :: "base58 \<Rightarrow> did_document \<Rightarrow> u64 \<Rightarrow> arr32 \<Rightarrow> did \<Rightarrow> u64 \<Rightarrow> verification_method" where
  "rotated_method b58 doc new_version new_key controller now =
     \<lparr>vm_id = did_str (dd_id doc) @ ''#key-'' @ show_nat (unat new_version),
      vm_key_type = ''Ed25519VerificationKey2020'', vm_controller = controller,
      vm_public_key_multibase = ''z'' @ b58_encode b58 (bytes32 new_key), vm_version = new_version,
      vm_active = True, vm_valid_from = now, vm_revoked_at = None\<rparr>"

definition rotate_verification_key ::
  "base58 \<Rightarrow> did_document \<Rightarrow> string \<Rightarrow> arr32 \<Rightarrow> did \<Rightarrow> u64 \<Rightarrow>
     (did_document \<times> verification_method, did_verification_error) result" where
  "rotate_verification_key b58 doc old_key_id new_key controller now =
     and_then (ok_or (first_index (\<lambda>m. vm_id m = old_key_id) (dd_verification_methods doc))
                (MethodNotFound old_key_id)) (\<lambda>i.
       let old = dd_verification_methods doc ! i;
           ms = (dd_verification_methods doc)[i := old\<lparr>vm_active := False, vm_revoked_at := Some now\<rparr>];
           new_method = rotated_method b58 doc (vm_version old + 1) new_key controller now
       in Ok (doc\<lparr>dd_verification_methods := ms @ [new_method], dd_updated := Timestamp now 0\<rparr>, new_method))"

section \<open>Key records\<close>

datatype key_status = KsActive | KsRotated | KsRevoked | KsExpired

record key_record =
  kr_public_key :: public_key
  kr_status :: key_status
  kr_created :: timestamp
  kr_rotated_to :: "public_key option"
  kr_revocation_reason :: "string option"

record key_store =
  ks_records :: "(string, key_record list) btree_map"
  ks_clock :: u64

definition ks_new :: key_store where
  "ks_new = \<lparr>ks_records = bm_empty, ks_clock = 0\<rparr>"

definition fresh_record :: "public_key \<Rightarrow> u64 \<Rightarrow> key_record" where
  "fresh_record pk clock =
     \<lparr>kr_public_key = pk, kr_status = KsActive, kr_created = Timestamp clock 0, kr_rotated_to = None,
      kr_revocation_reason = None\<rparr>"

text \<open>\<open>generate_keypair()\<close> is the argument \<open>kp\<close>.\<close>

definition ks_create_key ::
  "public_key \<times> secret_key \<Rightarrow> key_store \<Rightarrow> did \<Rightarrow> key_store \<times> (public_key \<times> secret_key)" where
  "ks_create_key kp s d =
     (let clock = ks_clock s + 1
      in (s\<lparr>ks_clock := clock,
            ks_records := bm_upd_default [] (\<lambda>rs. rs @ [fresh_record (fst kp) clock]) (did_str d) (ks_records s)\<rparr>, kp))"

definition ks_rotate_key ::
  "public_key \<times> secret_key \<Rightarrow> key_store \<Rightarrow> did \<Rightarrow> public_key \<Rightarrow>
     (key_store \<times> (public_key \<times> secret_key), identity_error) result" where
  "ks_rotate_key kp s d old =
     and_then (ok_or (bm_get (ks_records s) (did_str d)) (DidNotFound d)) (\<lambda>rs.
       and_then (ok_or (first_index (\<lambda>r. kr_public_key r = old) rs) (KeyNotFound d)) (\<lambda>i.
         case kr_status (rs ! i) of
           KsRotated \<Rightarrow> Err KeyAlreadyRotated
         | KsRevoked \<Rightarrow> Err KeyAlreadyRevoked
         | KsExpired \<Rightarrow> Err KeyAlreadyRevoked
         | KsActive \<Rightarrow>
             (let clock = ks_clock s + 1;
                  rs' = rs[i := (rs ! i)\<lparr>kr_status := KsRotated, kr_rotated_to := Some (fst kp)\<rparr>]
              in Ok (s\<lparr>ks_clock := clock,
                       ks_records := bm_insert (did_str d) (rs' @ [fresh_record (fst kp) clock]) (ks_records s)\<rparr>, kp))))"

definition ks_revoke_key ::
  "key_store \<Rightarrow> did \<Rightarrow> public_key \<Rightarrow> string \<Rightarrow> (key_store, identity_error) result" where
  "ks_revoke_key s d key reason =
     and_then (ok_or (bm_get (ks_records s) (did_str d)) (DidNotFound d)) (\<lambda>rs.
       and_then (ok_or (first_index (\<lambda>r. kr_public_key r = key) rs) (KeyNotFound d)) (\<lambda>i.
         if kr_status (rs ! i) = KsRevoked then Err KeyAlreadyRevoked
         else Ok (s\<lparr>ks_records := bm_insert (did_str d)
                      (rs[i := (rs ! i)\<lparr>kr_status := KsRevoked, kr_revocation_reason := Some reason\<rparr>])
                      (ks_records s)\<rparr>)))"

definition ks_get_keys :: "key_store \<Rightarrow> did \<Rightarrow> key_record list option" where
  "ks_get_keys s d = bm_get (ks_records s) (did_str d)"

definition ks_active_key :: "key_store \<Rightarrow> did \<Rightarrow> public_key option" where
  "ks_active_key s d =
     Option.bind (bm_get (ks_records s) (did_str d))
       (\<lambda>rs. map_option kr_public_key (List.find (\<lambda>r. kr_status r = KsActive) (rev rs)))"

section \<open>Operator continuity\<close>

record pace_config =
  pace_primary :: did
  pace_alternates :: "did list"
  pace_contingency :: "did list"
  pace_emergency :: "did list"

fun insert_all_dids :: "string btree_set \<Rightarrow> did list \<Rightarrow> (unit, identity_error) result" where
  "insert_all_dids seen [] = Ok ()"
| "insert_all_dids seen (d # ds) =
     (if bs_contains seen (did_str d) then Err (DuplicatePaceDid d)
      else insert_all_dids (bs_insert (did_str d) seen) ds)"

definition pace_validate :: "pace_config \<Rightarrow> (unit, identity_error) result" where
  "pace_validate c =
     (if pace_alternates c = [] then Err (InvalidPaceConfig ''alternates must not be empty'')
      else if pace_contingency c = [] then Err (InvalidPaceConfig ''contingency must not be empty'')
      else if pace_emergency c = [] then Err (InvalidPaceConfig ''emergency must not be empty'')
      else insert_all_dids bs_empty ([pace_primary c] @ pace_alternates c @ pace_contingency c @ pace_emergency c))"

datatype pace_state = PaceNormal | AlternateActive | ContingencyActive | EmergencyActive

text \<open>The element at index 0, whose absence panics: \<open>None\<close>.\<close>

definition index0 :: "'a list \<Rightarrow> 'a option" where
  "index0 xs = (case xs of [] \<Rightarrow> None | x # _ \<Rightarrow> Some x)"

fun resolve_operator :: "pace_config \<Rightarrow> pace_state \<Rightarrow> did option" where
  "resolve_operator c PaceNormal = Some (pace_primary c)"
| "resolve_operator c AlternateActive = index0 (pace_alternates c)"
| "resolve_operator c ContingencyActive = index0 (pace_contingency c)"
| "resolve_operator c EmergencyActive = index0 (pace_emergency c)"

fun pace_escalate :: "pace_state \<Rightarrow> (pace_state, identity_error) result" where
  "pace_escalate PaceNormal = Ok AlternateActive"
| "pace_escalate AlternateActive = Ok ContingencyActive"
| "pace_escalate ContingencyActive = Ok EmergencyActive"
| "pace_escalate EmergencyActive = Err CannotEscalate"

fun pace_deescalate :: "pace_state \<Rightarrow> (pace_state, identity_error) result" where
  "pace_deescalate EmergencyActive = Ok ContingencyActive"
| "pace_deescalate ContingencyActive = Ok AlternateActive"
| "pace_deescalate AlternateActive = Ok PaceNormal"
| "pace_deescalate PaceNormal = Err CannotDeescalate"

section \<open>Risk attestations\<close>

datatype risk_level = RMinimal | RLow | RMedium | RHigh | RCritical | RUnassessed

fun risk_u8 :: "risk_level \<Rightarrow> u8" where
  "risk_u8 RMinimal = 0"
| "risk_u8 RLow = 1"
| "risk_u8 RMedium = 2"
| "risk_u8 RHigh = 3"
| "risk_u8 RCritical = 4"
| "risk_u8 RUnassessed = 5"

record risk_attestation =
  ra_subject_did :: did
  ra_attester_did :: did
  ra_level :: risk_level
  ra_evidence_hash :: arr32
  ra_timestamp :: timestamp
  ra_expiry :: timestamp
  ra_signature :: signature

definition signing_payload :: "did \<Rightarrow> did \<Rightarrow> risk_level \<Rightarrow> arr32 \<Rightarrow> timestamp \<Rightarrow> timestamp \<Rightarrow> bytes" where
  "signing_payload subject attester level evidence ts expiry =
     str_bytes (did_str subject) @ str_bytes (did_str attester) @ [risk_u8 level] @ bytes32 evidence @
     to_le_bytes 8 (physical_ms ts) @ to_le_bytes 8 (physical_ms expiry)"

record risk_context =
  rc_attester_did :: did
  rc_evidence :: bytes
  rc_now :: timestamp
  rc_validity_ms :: u64
  rc_level :: risk_level

record risk_policy =
  rk_thresholds :: "(string, risk_level) btree_map"

definition rk_new :: risk_policy where
  "rk_new = \<lparr>rk_thresholds = bm_empty\<rparr>"

definition set_threshold :: "risk_policy \<Rightarrow> string \<Rightarrow> risk_level \<Rightarrow> risk_policy" where
  "set_threshold p operation max_level = p\<lparr>rk_thresholds := bm_insert operation max_level (rk_thresholds p)\<rparr>"

text \<open>The derived order of \<open>RiskLevel\<close> is the order of the variants, which \<open>risk_u8\<close> numbers.\<close>

definition is_acceptable :: "risk_policy \<Rightarrow> string \<Rightarrow> risk_level \<Rightarrow> bool" where
  "is_acceptable p operation level =
     (case bm_get (rk_thresholds p) operation of Some m \<Rightarrow> risk_u8 level \<le> risk_u8 m | None \<Rightarrow> False)"

definition assess_risk ::
  "crypto_prims \<Rightarrow> blake3 \<Rightarrow> did \<Rightarrow> risk_context \<Rightarrow> secret_key \<Rightarrow> risk_attestation" where
  "assess_risk prims blake3 subject ctx key =
     (let evidence = blake3 (rc_evidence ctx);
          expiry = Timestamp (physical_ms (rc_now ctx) + rc_validity_ms ctx) 0;
          payload = signing_payload subject (rc_attester_did ctx) (rc_level ctx) evidence (rc_now ctx) expiry
      in \<lparr>ra_subject_did = subject, ra_attester_did = rc_attester_did ctx, ra_level = rc_level ctx,
          ra_evidence_hash = evidence, ra_timestamp = rc_now ctx, ra_expiry = expiry,
          ra_signature = sign prims payload key\<rparr>)"

definition risk_verify_attestation :: "crypto_prims \<Rightarrow> risk_attestation \<Rightarrow> public_key \<Rightarrow> bool" where
  "risk_verify_attestation prims a key =
     verify prims (signing_payload (ra_subject_did a) (ra_attester_did a) (ra_level a) (ra_evidence_hash a)
       (ra_timestamp a) (ra_expiry a)) (ra_signature a) key"

definition risk_is_expired :: "risk_attestation \<Rightarrow> timestamp \<Rightarrow> bool" where
  "risk_is_expired a now = (physical_ms now \<ge> physical_ms (ra_expiry a))"

section \<open>The vault\<close>

definition NONCE_SIZE :: nat where "NONCE_SIZE = 24"
definition TAG_SIZE :: nat where "TAG_SIZE = 16"
definition MIN_CIPHERTEXT_LEN :: nat where "MIN_CIPHERTEXT_LEN = NONCE_SIZE + TAG_SIZE"

text \<open>HKDF-SHA256 and XChaCha20-Poly1305: key, nonce, associated data, text.\<close>

record vault_prims =
  hkdf :: "arr32 \<Rightarrow> bytes \<Rightarrow> (arr32, string) result"
  aead_encrypt :: "arr32 \<Rightarrow> bytes \<Rightarrow> bytes \<Rightarrow> bytes \<Rightarrow> (bytes, string) result"
  aead_decrypt :: "arr32 \<Rightarrow> bytes \<Rightarrow> bytes \<Rightarrow> bytes \<Rightarrow> bytes option"

record vault_encryptor =
  ve_key :: arr32

definition ve_from_key :: "arr32 \<Rightarrow> vault_encryptor" where
  "ve_from_key k = \<lparr>ve_key = k\<rparr>"

definition derive_key :: "vault_prims \<Rightarrow> secret_key \<Rightarrow> bytes \<Rightarrow> (vault_encryptor, identity_error) result" where
  "derive_key V secret info =
     (case hkdf V (sk_arr secret) info of
        Inl e \<Rightarrow> Err (VaultKeyDerivationFailed e) | Inr okm \<Rightarrow> Ok \<lparr>ve_key = okm\<rparr>)"

definition encrypt_with_nonce ::
  "vault_prims \<Rightarrow> vault_encryptor \<Rightarrow> bytes \<Rightarrow> bytes \<Rightarrow> bytes \<Rightarrow> (bytes, identity_error) result" where
  "encrypt_with_nonce V e plaintext aad nonce =
     (case aead_encrypt V (ve_key e) nonce aad plaintext of
        Inl m \<Rightarrow> Err (VaultEncryptionFailed m) | Inr encrypted \<Rightarrow> Ok (nonce @ encrypted))"

text \<open>\<open>encrypt\<close>; the random nonce is the argument.\<close>

definition ve_encrypt ::
  "vault_prims \<Rightarrow> bytes \<Rightarrow> vault_encryptor \<Rightarrow> bytes \<Rightarrow> bytes \<Rightarrow> (bytes, identity_error) result" where
  "ve_encrypt V random_nonce e plaintext aad = encrypt_with_nonce V e plaintext aad random_nonce"

definition ve_decrypt :: "vault_prims \<Rightarrow> vault_encryptor \<Rightarrow> bytes \<Rightarrow> bytes \<Rightarrow> (bytes, identity_error) result" where
  "ve_decrypt V e ciphertext aad =
     (if length ciphertext < MIN_CIPHERTEXT_LEN then Err VaultCiphertextTooShort
      else (case aead_decrypt V (ve_key e) (take NONCE_SIZE ciphertext) aad (drop NONCE_SIZE ciphertext) of
              None \<Rightarrow> Err VaultDecryptionFailed | Some m \<Rightarrow> Ok m))"

section \<open>The registry is authenticated\<close>

inductive dr_reach :: "crypto_prims \<Rightarrow> did_registry \<Rightarrow> bool" for prims :: crypto_prims where
  dr_start: "dr_reach prims dr_new"
| dr_reg: "dr_reach prims r \<Longrightarrow> dr_register r doc = Inr r' \<Longrightarrow> dr_reach prims r'"
| dr_rev: "dr_reach prims r \<Longrightarrow> dr_revoke prims r d p = Inr r' \<Longrightarrow> dr_reach prims r'"
| dr_rot: "dr_reach prims r \<Longrightarrow> dr_rotate_key prims r d k s = Inr r' \<Longrightarrow> dr_reach prims r'"

text \<open>Every key after the first \<open>n\<close> was signed by a key before it.\<close>

definition endorsed :: "crypto_prims \<Rightarrow> nat \<Rightarrow> public_key list \<Rightarrow> bool" where
  "endorsed prims n keys \<longleftrightarrow>
     (\<forall>i. n \<le> i \<and> i < length keys \<longrightarrow> (\<exists>j < i. \<exists>s. verify prims (pk_bytes (keys ! i)) s (keys ! j)))"

lemma endorsed_snoc:
  assumes "endorsed prims n keys" and "list_ex (verify prims (pk_bytes k) s) keys"
  shows "endorsed prims n (keys @ [k])"
proof -
  from assms(2) obtain j where "j < length keys" "verify prims (pk_bytes k) s (keys ! j)"
    by (auto simp: list_ex_length)
  moreover have "\<exists>j < i. \<exists>s. verify prims (pk_bytes ((keys @ [k]) ! i)) s ((keys @ [k]) ! j)"
    if "n \<le> i" "i < length keys" for i
  proof -
    from assms(1) that obtain j s where "j < i" "verify prims (pk_bytes (keys ! i)) s (keys ! j)"
      by (auto simp: endorsed_def)
    with that show ?thesis by (auto simp: nth_append intro!: exI [of _ j])
  qed
  ultimately show ?thesis
    by (auto simp: endorsed_def nth_append less_Suc_eq intro!: exI [of _ j])
qed

lemma dr_get_put [simp]: "bm_get (dr_documents (dr_put r k doc)) k' = (if k' = k then Some doc else bm_get (dr_documents r) k')"
  by (simp add: dr_put_def)

text \<open>
  What one operation does to a stored document: it stays, keeps its identifier and its keys, and the
  keys added are endorsed; a revoked document stays revoked.
\<close>

definition doc_grows :: "crypto_prims \<Rightarrow> did_document \<Rightarrow> did_document \<Rightarrow> bool" where
  "doc_grows prims doc doc' \<longleftrightarrow>
     dd_id doc' = dd_id doc \<and> (\<exists>ks. dd_public_keys doc' = dd_public_keys doc @ ks) \<and>
     endorsed prims (length (dd_public_keys doc)) (dd_public_keys doc') \<and>
     (dd_revoked doc \<longrightarrow> dd_revoked doc' \<and> dd_public_keys doc' = dd_public_keys doc)"

lemma doc_grows_refl: "doc_grows prims doc doc"
  by (auto simp: doc_grows_def endorsed_def)

lemma doc_grows_trans:
  assumes "doc_grows prims a b" and "doc_grows prims b c"
  shows "doc_grows prims a c"
proof -
  from assms obtain ks ks' where k: "dd_public_keys b = dd_public_keys a @ ks" "dd_public_keys c = dd_public_keys b @ ks'"
    by (auto simp: doc_grows_def)
  have "\<exists>j < i. \<exists>s. verify prims (pk_bytes (dd_public_keys c ! i)) s (dd_public_keys c ! j)"
    if "length (dd_public_keys a) \<le> i" "i < length (dd_public_keys c)" for i
  proof (cases "i < length (dd_public_keys b)")
    case True
    with assms(1) that obtain j s where "j < i" "verify prims (pk_bytes (dd_public_keys b ! i)) s (dd_public_keys b ! j)"
      by (auto simp: doc_grows_def endorsed_def)
    with True k(2) show ?thesis by (auto simp: nth_append intro!: exI [of _ j])
  next
    case False
    with assms(2) that show ?thesis by (auto simp: doc_grows_def endorsed_def)
  qed
  with assms k show ?thesis by (auto simp: doc_grows_def endorsed_def)
qed

lemma dr_register_get:
  "dr_register r doc0 = Inr r' \<Longrightarrow> bm_get (dr_documents r) k = Some doc \<Longrightarrow> bm_get (dr_documents r') k = Some doc"
  by (auto simp: dr_register_def bm_contains_def split: if_splits)

lemma dr_revoke_get:
  assumes "dr_revoke prims r d p = Inr r'" and "bm_get (dr_documents r) k = Some doc"
  shows "\<exists>doc'. bm_get (dr_documents r') k = Some doc' \<and> doc_grows prims doc doc' \<and>
           (k = did_str d \<longrightarrow> dd_revoked doc')"
  using assms doc_grows_refl [of prims doc]
  by (auto simp: dr_revoke_def and_then_eq_Ok doc_grows_def endorsed_def split: if_splits)

lemma dr_rotate_get:
  assumes "dr_rotate_key prims r d key s = Inr r'" and "bm_get (dr_documents r) k = Some doc"
  shows "\<exists>doc'. bm_get (dr_documents r') k = Some doc' \<and> doc_grows prims doc doc'"
proof (cases "k = did_str d")
  case True
  have "endorsed prims (length (dd_public_keys doc)) (dd_public_keys doc)" by (auto simp: endorsed_def)
  with True assms endorsed_snoc show ?thesis
    by (fastforce simp: dr_rotate_key_def and_then_eq_Ok doc_grows_def split: if_splits)
next
  case False
  with assms doc_grows_refl [of prims doc] show ?thesis
    by (auto simp: dr_rotate_key_def and_then_eq_Ok split: if_splits)
qed

inductive dr_later :: "crypto_prims \<Rightarrow> did_registry \<Rightarrow> did_registry \<Rightarrow> bool" for prims :: crypto_prims where
  later_refl: "dr_later prims r r"
| later_reg: "dr_later prims r0 r \<Longrightarrow> dr_register r doc = Inr r' \<Longrightarrow> dr_later prims r0 r'"
| later_rev: "dr_later prims r0 r \<Longrightarrow> dr_revoke prims r d p = Inr r' \<Longrightarrow> dr_later prims r0 r'"
| later_rot: "dr_later prims r0 r \<Longrightarrow> dr_rotate_key prims r d k s = Inr r' \<Longrightarrow> dr_later prims r0 r'"

lemma dr_later_grows:
  "dr_later prims r0 r \<Longrightarrow> bm_get (dr_documents r0) k = Some doc \<Longrightarrow>
     \<exists>doc'. bm_get (dr_documents r) k = Some doc' \<and> doc_grows prims doc doc'"
proof (induction rule: dr_later.induct)
  case (later_refl r)
  then show ?case using doc_grows_refl by blast
next
  case (later_reg r0 r doc r')
  then show ?case using dr_register_get by blast
next
  case (later_rev r0 r d p r')
  then show ?case using dr_revoke_get doc_grows_trans by blast
next
  case (later_rot r0 r d ka s r')
  then show ?case using dr_rotate_get doc_grows_trans by blast
qed

lemma dr_reach_id: "dr_reach prims r \<Longrightarrow> bm_get (dr_documents r) k = Some doc \<Longrightarrow> did_str (dd_id doc) = k"
proof (induction arbitrary: k doc rule: dr_reach.induct)
  case dr_start
  then show ?case by (simp add: dr_new_def)
qed (auto simp: dr_register_def dr_revoke_def dr_rotate_key_def and_then_eq_Ok split: if_splits)

text \<open>
  C13: the registry is authenticated. Take any registry that can arise and any later one. A document
  that resolves is stored under its own identifier. Later its first keys are the same, every key added
  since was signed by a key before it in the list, and a revoked identity never resolves again. A
  revocation that succeeds was signed by a key of the document and makes it stop resolving.
\<close>

theorem registry_authenticated:
  assumes "dr_reach prims r" and "dr_later prims r r'" and "bm_get (dr_documents r) (did_str d) = Some doc"
  shows "dd_id doc = d \<and>
         (\<exists>doc'. bm_get (dr_documents r') (did_str d) = Some doc' \<and>
            take (length (dd_public_keys doc)) (dd_public_keys doc') = dd_public_keys doc \<and>
            endorsed prims (length (dd_public_keys doc)) (dd_public_keys doc')) \<and>
         (dd_revoked doc \<longrightarrow> dr_resolve r' d = None) \<and>
         (case dr_revoke prims r d p of
            Inl _ \<Rightarrow> True
          | Inr r'' \<Rightarrow> dr_resolve r'' d = None \<and>
                      list_ex (verify prims (str_bytes (did_str d)) (rp_signature p)) (dd_public_keys doc))"
proof -
  obtain doc' where doc': "bm_get (dr_documents r') (did_str d) = Some doc'" "doc_grows prims doc doc'"
    using dr_later_grows [OF assms(2,3)] by blast
  have "dd_id doc = d" using dr_reach_id [OF assms(1,3)] by (cases d; cases "dd_id doc") simp
  moreover have "case dr_revoke prims r d p of Inl _ \<Rightarrow> True
      | Inr r'' \<Rightarrow> dr_resolve r'' d = None \<and>
          list_ex (verify prims (str_bytes (did_str d)) (rp_signature p)) (dd_public_keys doc)"
    using assms(3) by (auto simp: dr_revoke_def dr_resolve_def split: sum.splits)
  ultimately show ?thesis
    using doc' by (auto simp: doc_grows_def dr_resolve_def)
qed

text \<open>Toy primitives under which every signature verifies, and a registry with one document.\<close>

definition open_prims :: crypto_prims where
  "open_prims =
     \<lparr>ed_public = (\<lambda>k. k), ed_sign = (\<lambda>_ _. zeros64), ed_key_ok = (\<lambda>_. True), ed_verify = (\<lambda>_ _ _. True),
      ml_public = (\<lambda>k. bytes32 k), ml_sign = (\<lambda>_ _. Ok []), ml_key_ok = (\<lambda>_. True), ml_sig_ok = (\<lambda>_. True),
      ml_verify = (\<lambda>_ _ _. True)\<rparr>"

definition sample_doc :: did_document where
  "sample_doc =
     \<lparr>dd_id = Did ''did:exo:a'', dd_public_keys = [PublicKey (arr32_of [])], dd_authentication = [],
      dd_verification_methods =
        [\<lparr>vm_id = ''did:exo:a#key-1'', vm_key_type = ''Ed25519VerificationKey2020'', vm_controller = Did ''did:exo:a'',
          vm_public_key_multibase = ''z'', vm_version = 1, vm_active = True, vm_valid_from = 0,
          vm_revoked_at = None\<rparr>],
      dd_service_endpoints = [], dd_created = TS_ZERO, dd_updated = TS_ZERO, dd_revoked = False\<rparr>"

definition sample_registry :: did_registry where
  "sample_registry = dr_put dr_new ''did:exo:a'' sample_doc"

lemma sample_registry_reach: "dr_reach open_prims sample_registry"
proof (rule dr_reg [OF dr_start])
  show "dr_register dr_new sample_doc = Inr sample_registry"
    by (simp add: dr_register_def dr_new_def sample_doc_def sample_registry_def)
qed

theorem registry_authenticated_witness:
  "\<exists>r'. dr_rotate_key open_prims sample_registry (Did ''did:exo:a'') (PublicKey (arr32_of [7])) (Ed25519 zeros64) = Ok r' \<and>
        (\<exists>doc'. bm_get (dr_documents r') ''did:exo:a'' = Some doc' \<and> length (dd_public_keys doc') = 2 \<and>
           endorsed open_prims 1 (dd_public_keys doc'))"
proof -
  have get: "bm_get (dr_documents sample_registry) (did_str (Did ''did:exo:a'')) = Some sample_doc"
    by (simp add: sample_registry_def)
  obtain r' where rot: "dr_rotate_key open_prims sample_registry (Did ''did:exo:a'') (PublicKey (arr32_of [7]))
      (Ed25519 zeros64) = Inr r'"
    and new: "bm_get (dr_documents r') ''did:exo:a'' =
      Some (sample_doc\<lparr>dd_public_keys := [PublicKey (arr32_of []), PublicKey (arr32_of [7])],
                       dd_updated := Timestamp 1 0\<rparr>)"
    using get by (simp add: dr_rotate_key_def sample_doc_def verify_def open_prims_def TS_ZERO_def)
  have "length (dd_public_keys sample_doc) = 1" by (simp add: sample_doc_def)
  with registry_authenticated [OF sample_registry_reach later_rot [OF later_refl rot] get] new rot
  show ?thesis by auto
qed

section \<open>Rotation of verification methods\<close>

lemma first_index_Some:
  "first_index P xs = Some i \<longleftrightarrow> i < length xs \<and> P (xs ! i) \<and> (\<forall>j < i. \<not> P (xs ! j))"
proof (induction xs arbitrary: i)
  case (Cons x xs)
  show ?case
  proof (cases i)
    case 0
    then show ?thesis by auto
  next
    case (Suc k)
    have "(\<forall>j < Suc k. \<not> P ((x # xs) ! j)) \<longleftrightarrow> \<not> P x \<and> (\<forall>j < k. \<not> P (xs ! j))"
      by (auto simp: less_Suc_eq_0_disj)
    with Cons.IH [of k] Suc show ?thesis by auto
  qed
qed simp

lemma first_index_None: "first_index P xs = None \<longleftrightarrow> (\<forall>x \<in> set xs. \<not> P x)"
  by (induction xs) auto

lemma find_first_index:
  "List.find P xs = map_option (\<lambda>i. xs ! i) (first_index P xs)"
  by (induction xs) (auto simp: option.map_comp comp_def)

lemma find_append: "List.find P (xs @ ys) = (case List.find P xs of None \<Rightarrow> List.find P ys | Some x \<Rightarrow> Some x)"
  by (induction xs) auto

lemma find_update:
  assumes "first_index P xs = Some i" and "P y"
  shows "List.find P (xs[i := y]) = Some y"
proof -
  have "first_index P (xs[i := y]) = Some i" and "i < length xs"
    using assms by (auto simp: first_index_Some)
  then show ?thesis by (simp add: find_first_index)
qed

lemma find_update_other:
  "\<not> P (xs ! i) \<Longrightarrow> \<not> P y \<Longrightarrow> List.find P (xs[i := y]) = List.find P xs"
  by (induction xs arbitrary: i) (auto split: nat.splits)

text \<open>
  Key rotation. When the old method exists and the name of the new one is not taken, rotation
  succeeds; afterwards the old name is refused as revoked whatever the signature, every signature made
  with the new secret key verifies under the new name, and every other name verifies exactly what it
  did before. Signing and Base58 decoding are assumed to be correct.
\<close>

theorem rotation_switches_keys:
  assumes "ed_correct prims" and "\<forall>bs. b58_decode b58 (b58_encode b58 bs) = Ok bs"
    and "first_index (\<lambda>m. vm_id m = old) (dd_verification_methods doc) = Some i"
    and "new_id = did_str (dd_id doc) @ ''#key-'' @ show_nat (unat (vm_version (dd_verification_methods doc ! i) + 1))"
    and "new_id \<notin> vm_id ` set (dd_verification_methods doc)"
  shows "\<exists>doc' m. rotate_verification_key b58 doc old (ed_public prims (sk_arr sk)) controller now = Ok (doc', m) \<and>
           vm_id m = new_id \<and> vm_version m = vm_version (dd_verification_methods doc ! i) + 1 \<and>
           verify_did_signature prims b58 doc' old msg s = Err (MethodRevoked old) \<and>
           verify_did_signature prims b58 doc' new_id msg (sign prims msg sk) = Ok () \<and>
           (\<forall>k. k \<noteq> old \<and> k \<noteq> new_id \<longrightarrow>
              verify_did_signature prims b58 doc' k msg s = verify_did_signature prims b58 doc k msg s)"
proof -
  let ?ms = "dd_verification_methods doc"
  let ?old = "(?ms ! i)\<lparr>vm_active := False, vm_revoked_at := Some now\<rparr>"
  let ?m = "rotated_method b58 doc (vm_version (?ms ! i) + 1) (ed_public prims (sk_arr sk)) controller now"
  let ?doc = "doc\<lparr>dd_verification_methods := ?ms[i := ?old] @ [?m], dd_updated := Timestamp now 0\<rparr>"
  have m: "vm_id ?m = new_id" by (simp add: rotated_method_def assms(4))
  have i: "i < length ?ms" "vm_id (?ms ! i) = old" using assms(3) by (simp_all add: first_index_Some)
  then have ne: "new_id \<noteq> old" using assms(5) by (metis image_eqI nth_mem)
  have find: "List.find (\<lambda>x. vm_id x = k) (dd_verification_methods ?doc) =
      (if k = old then Some ?old else if k = new_id then Some ?m else List.find (\<lambda>x. vm_id x = k) ?ms)" for k
  proof -
    consider "k = old" | "k = new_id" | "k \<noteq> old" "k \<noteq> new_id" by blast
    then show ?thesis
    proof cases
      case 1
      then show ?thesis using find_update [OF assms(3), of ?old] i(2) by (simp add: find_append)
    next
      case 2
      then have "List.find (\<lambda>x. vm_id x = k) ?ms = None"
        using assms(5) by (auto simp: find_None_iff)
      moreover have "List.find (\<lambda>x. vm_id x = k) (?ms[i := ?old]) = List.find (\<lambda>x. vm_id x = k) ?ms"
        using 2 ne i(2) by (intro find_update_other) auto
      ultimately show ?thesis using 2 ne m by (simp add: find_append)
    next
      case 3
      have "List.find (\<lambda>x. vm_id x = k) (?ms[i := ?old]) = List.find (\<lambda>x. vm_id x = k) ?ms"
        using 3 i(2) by (intro find_update_other) auto
      then show ?thesis using 3 m by (simp add: find_append split: option.splits)
    qed
  qed
  have "verify prims msg (sign prims msg sk) (PublicKey (ed_public prims (sk_arr sk)))"
    using assms(1) by (simp add: verify_def sign_def ed_correct_def)
  then have "verify_did_signature prims b58 ?doc new_id msg (sign prims msg sk) = Ok ()"
    using find [of new_id] ne assms(2) by (simp add: verify_did_signature_def rotated_method_def starts_with_def)
  moreover have "verify_did_signature prims b58 ?doc old msg s = Err (MethodRevoked old)"
    using find [of old] by (simp add: verify_did_signature_def)
  moreover have "verify_did_signature prims b58 ?doc k msg s = verify_did_signature prims b58 doc k msg s"
    if "k \<noteq> old" "k \<noteq> new_id" for k
    using find [of k] that by (simp add: verify_did_signature_def)
  moreover have "rotate_verification_key b58 doc old (ed_public prims (sk_arr sk)) controller now = Ok (?doc, ?m)"
    by (simp add: rotate_verification_key_def assms(3) Let_def)
  ultimately show ?thesis using m by (auto simp: rotated_method_def)
qed

definition toy_b58 :: base58 where
  "toy_b58 = \<lparr>b58_encode = map (\<lambda>b. char_of (unat b)), b58_decode = (\<lambda>s. Ok (str_bytes s))\<rparr>"

lemma toy_b58_inverse: "\<forall>bs. b58_decode toy_b58 (b58_encode toy_b58 bs) = Ok bs"
proof
  fix bs :: bytes
  have "(of_nat (of_char (char_of (unat b) :: char)) :: u8) = b" for b :: u8
  proof -
    have "unat b < 256" using unsigned_less [of b] by simp
    then show ?thesis by (simp add: of_char_of)
  qed
  then show "b58_decode toy_b58 (b58_encode toy_b58 bs) = Ok bs"
    by (simp add: toy_b58_def str_bytes_def comp_def)
qed

theorem rotation_switches_keys_witness:
  "\<exists>doc' m. rotate_verification_key toy_b58 sample_doc ''did:exo:a#key-1'' (arr32_of [9]) (Did ''did:exo:a'') 5 = Ok (doc', m) \<and>
     verify_did_signature open_prims toy_b58 doc' ''did:exo:a#key-1'' [] SigEmpty = Err (MethodRevoked ''did:exo:a#key-1'') \<and>
     verify_did_signature open_prims toy_b58 doc' ''did:exo:a#key-2'' [] (sign open_prims [] (SecretKey (arr32_of [9]))) = Ok ()"
proof -
  have "ed_correct open_prims" by (simp add: ed_correct_def open_prims_def)
  moreover have "first_index (\<lambda>m. vm_id m = ''did:exo:a#key-1'') (dd_verification_methods sample_doc) = Some 0"
    by (simp add: sample_doc_def)
  moreover have "''did:exo:a#key-2'' = did_str (dd_id sample_doc) @ ''#key-'' @
      show_nat (unat (vm_version (dd_verification_methods sample_doc ! 0) + 1))"
  proof -
    have "show_nat 2 = ''2''" by code_simp
    then show ?thesis by (simp add: sample_doc_def)
  qed
  moreover have "''did:exo:a#key-2'' \<notin> vm_id ` set (dd_verification_methods sample_doc)"
    by (simp add: sample_doc_def)
  moreover have "ed_public open_prims (sk_arr (SecretKey (arr32_of [9]))) = arr32_of [9]"
    by (simp add: open_prims_def)
  ultimately show ?thesis
    using rotation_switches_keys [OF _ toy_b58_inverse, of open_prims "''did:exo:a#key-1''" sample_doc 0
        "''did:exo:a#key-2''" "SecretKey (arr32_of [9])" "Did ''did:exo:a''" 5 "[]" SigEmpty]
    by auto
qed

text \<open>
  The condition on the name is needed: rotating the same old key twice gives the second new key the name
  of the first, which shadows it, since the lookup takes the first method of that name.
\<close>

lemma second_rotation_shadowed:
  assumes "first_index (\<lambda>m. vm_id m = old) (dd_verification_methods doc) = Some i"
    and "rotate_verification_key b58 doc old k1 c t1 = Inr (doc1, m1)"
    and "rotate_verification_key b58 doc1 old k2 c t2 = Inr (doc2, m2)"
    and "vm_id m1 \<notin> vm_id ` set (dd_verification_methods doc)"
  shows "vm_id m2 = vm_id m1 \<and> List.find (\<lambda>m. vm_id m = vm_id m2) (dd_verification_methods doc2) = Some m1"
proof -
  let ?ms = "dd_verification_methods doc"
  let ?old = "\<lambda>t. (?ms ! i)\<lparr>vm_active := False, vm_revoked_at := Some t\<rparr>"
  have i: "i < length ?ms" "vm_id (?ms ! i) = old" "\<forall>j < i. vm_id (?ms ! j) \<noteq> old"
    using assms(1) by (simp_all add: first_index_Some)
  have m1: "m1 = rotated_method b58 doc (vm_version (?ms ! i) + 1) k1 c t1"
    and doc1: "doc1 = doc\<lparr>dd_verification_methods := ?ms[i := ?old t1] @ [m1], dd_updated := Timestamp t1 0\<rparr>"
    using assms(2) by (auto simp: rotate_verification_key_def assms(1) Let_def)
  have "first_index (\<lambda>m. vm_id m = old) (dd_verification_methods doc1) = Some i"
    using i by (auto simp: first_index_Some doc1 nth_append nth_list_update)
  with assms(3) i(1) have m2: "m2 = rotated_method b58 doc1 (vm_version (?ms ! i) + 1) k2 c t2"
    and ms2: "dd_verification_methods doc2 = ?ms[i := ?old t2] @ [m1, m2]"
    by (auto simp: rotate_verification_key_def Let_def doc1 nth_append list_update_append)
  have ids: "vm_id m2 = vm_id m1" by (simp add: m1 m2 doc1 rotated_method_def)
  have "map vm_id (?ms[i := ?old t2]) = map vm_id ?ms"
    using list_update_id [of "map vm_id ?ms" i] i(1) by (simp add: map_update)
  then have "vm_id ` set (?ms[i := ?old t2]) = vm_id ` set ?ms" by (metis list.set_map)
  then have "List.find (\<lambda>m. vm_id m = vm_id m2) (?ms[i := ?old t2]) = None"
    unfolding find_None_iff ids using assms(4) by (metis imageI)
  then show ?thesis using ids by (simp add: ms2 find_append)
qed

section \<open>Key records only move forward\<close>

fun status_rank :: "key_status \<Rightarrow> nat" where
  "status_rank KsActive = 0"
| "status_rank KsRotated = 1"
| "status_rank KsExpired = 1"
| "status_rank KsRevoked = 2"

definition record_ok :: "key_record list \<Rightarrow> key_record \<Rightarrow> bool" where
  "record_ok rs r \<longleftrightarrow>
     (kr_status r = KsActive \<longrightarrow> kr_rotated_to r = None \<and> kr_revocation_reason r = None) \<and>
     (kr_status r = KsRotated \<longrightarrow> kr_rotated_to r \<noteq> None) \<and>
     (kr_status r = KsRevoked \<longleftrightarrow> kr_revocation_reason r \<noteq> None) \<and>
     (case kr_rotated_to r of None \<Rightarrow> True | Some k \<Rightarrow> k \<in> kr_public_key ` set rs)"

definition keys_of :: "key_store \<Rightarrow> string \<Rightarrow> key_record list" where
  "keys_of s d = (case bm_get (ks_records s) d of None \<Rightarrow> [] | Some rs \<Rightarrow> rs)"

text \<open>The records of an identity before and after an operation.\<close>

definition records_advance :: "key_record list \<Rightarrow> key_record list \<Rightarrow> bool" where
  "records_advance rs rs' \<longleftrightarrow>
     length rs \<le> length rs' \<and>
     (\<forall>i < length rs. kr_public_key (rs' ! i) = kr_public_key (rs ! i) \<and>
        status_rank (kr_status (rs ! i)) \<le> status_rank (kr_status (rs' ! i)))"

inductive ks_step :: "key_store \<Rightarrow> key_store \<Rightarrow> bool" where
  ks_create: "ks_create_key kp s d = (s', kp') \<Longrightarrow> ks_step s s'"
| ks_rotate: "ks_rotate_key kp s d old = Inr (s', kp') \<Longrightarrow> ks_step s s'"
| ks_revoke: "ks_revoke_key s d key reason = Inr s' \<Longrightarrow> ks_step s s'"

definition ks_inv :: "key_store \<Rightarrow> bool" where
  "ks_inv s \<longleftrightarrow> (\<forall>d. \<forall>r \<in> set (keys_of s d). record_ok (keys_of s d) r)"

lemma records_advance_refl: "records_advance rs rs"
  by (simp add: records_advance_def)

lemma records_advance_trans:
  assumes "records_advance a b" and "records_advance b c"
  shows "records_advance a c"
proof -
  have "kr_public_key (c ! i) = kr_public_key (a ! i) \<and>
      status_rank (kr_status (a ! i)) \<le> status_rank (kr_status (c ! i))" if "i < length a" for i
  proof -
    from that assms(1) have "i < length b" by (simp add: records_advance_def)
    with that assms show ?thesis unfolding records_advance_def by (metis order_trans)
  qed
  with assms show ?thesis by (simp add: records_advance_def)
qed

lemma record_ok_mono: "record_ok rs r \<Longrightarrow> kr_public_key ` set rs \<subseteq> kr_public_key ` set rs' \<Longrightarrow> record_ok rs' r"
  by (auto simp: record_ok_def split: option.splits)

lemma map_pk_update:
  "i < length rs \<Longrightarrow> kr_public_key r = kr_public_key (rs ! i) \<Longrightarrow> kr_public_key ` set (rs[i := r]) = kr_public_key ` set rs"
  by (metis list.set_map list_update_id map_update nth_map length_map)

lemma records_ok_update:
  assumes "\<forall>r \<in> set rs. record_ok rs r" and "i < length rs" and "kr_public_key r' = kr_public_key (rs ! i)"
    and "record_ok (rs @ xs) r'" and "\<forall>x \<in> set xs. record_ok (rs @ xs) x"
  shows "\<forall>r \<in> set (rs[i := r'] @ xs). record_ok (rs[i := r'] @ xs) r"
proof -
  have keys: "kr_public_key ` set (rs[i := r'] @ xs) = kr_public_key ` set (rs @ xs)"
    using map_pk_update [OF assms(2,3)] by (simp add: image_Un)
  show ?thesis
  proof
    fix r assume "r \<in> set (rs[i := r'] @ xs)"
    then consider "r = r'" | "r \<in> set rs" | "r \<in> set xs"
      using set_update_subset_insert [of rs i r'] by auto
    then have "record_ok (rs @ xs) r"
      using assms(1,4,5) record_ok_mono [of rs r "rs @ xs"] by cases auto
    then show "record_ok (rs[i := r'] @ xs) r"
      by (rule record_ok_mono) (simp only: keys order_refl)
  qed
qed

lemma fresh_record_ok: "record_ok rs (fresh_record pk clock)"
  by (simp add: record_ok_def fresh_record_def)

lemma ks_rotate_key_Ok:
  "ks_rotate_key kp s d old = Inr (s', kp') \<longleftrightarrow>
     kp' = kp \<and>
     (\<exists>rs i. bm_get (ks_records s) (did_str d) = Some rs \<and> first_index (\<lambda>r. kr_public_key r = old) rs = Some i \<and>
        kr_status (rs ! i) = KsActive \<and>
        s' = s\<lparr>ks_clock := ks_clock s + 1,
               ks_records := bm_insert (did_str d)
                 (rs[i := (rs ! i)\<lparr>kr_status := KsRotated, kr_rotated_to := Some (fst kp)\<rparr>] @
                  [fresh_record (fst kp) (ks_clock s + 1)]) (ks_records s)\<rparr>)"
proof (cases "bm_get (ks_records s) (did_str d)")
  case (Some rs)
  then show ?thesis
  proof (cases "first_index (\<lambda>r. kr_public_key r = old) rs")
    case index: (Some i)
    show ?thesis
      by (cases "kr_status (rs ! i)") (auto simp: ks_rotate_key_def Some index Let_def)
  qed (auto simp: ks_rotate_key_def)
qed (auto simp: ks_rotate_key_def)

lemma ks_step_keys:
  assumes "ks_step s s'" and "ks_inv s"
  shows "records_advance (keys_of s d) (keys_of s' d) \<and> (\<forall>r \<in> set (keys_of s' d). record_ok (keys_of s' d) r)"
  using assms(1)
proof cases
  case (ks_create kp e kp')
  let ?new = "fresh_record (fst kp) (ks_clock s + 1)"
  have "keys_of s' d = (if d = did_str e then keys_of s d @ [?new] else keys_of s d)"
    using ks_create by (auto simp: ks_create_key_def keys_of_def Let_def split: option.splits)
  moreover have "\<forall>r \<in> set (keys_of s d). record_ok (keys_of s d) r" using assms(2) by (simp add: ks_inv_def)
  moreover from this have "\<forall>r \<in> set (keys_of s d @ [?new]). record_ok (keys_of s d @ [?new]) r"
    using fresh_record_ok by (auto intro: record_ok_mono)
  ultimately show ?thesis by (auto simp: records_advance_def nth_append)
next
  case (ks_rotate kp e old kp')
  then obtain rs i where rs: "bm_get (ks_records s) (did_str e) = Some rs"
    "first_index (\<lambda>r. kr_public_key r = old) rs = Some i" "kr_status (rs ! i) = KsActive"
    and s': "bm_get (ks_records s') k = (if k = did_str e then Some (rs[i := (rs ! i)\<lparr>kr_status := KsRotated,
        kr_rotated_to := Some (fst kp)\<rparr>] @ [fresh_record (fst kp) (ks_clock s + 1)])
        else bm_get (ks_records s) k)" for k
    by (auto simp: ks_rotate_key_Ok)
  let ?r = "(rs ! i)\<lparr>kr_status := KsRotated, kr_rotated_to := Some (fst kp)\<rparr>"
  let ?new = "fresh_record (fst kp) (ks_clock s + 1)"
  have i: "i < length rs" using rs(2) by (simp add: first_index_Some)
  have ok: "\<forall>r \<in> set (keys_of s k). record_ok (keys_of s k) r" for k using assms(2) by (simp add: ks_inv_def)
  show ?thesis
  proof (cases "d = did_str e")
    case True
    have old_ok: "\<forall>r \<in> set rs. record_ok rs r" using ok [of "did_str e"] rs(1) by (simp add: keys_of_def)
    then have "record_ok rs (rs ! i)" using i by simp
    then have "record_ok (rs @ [?new]) ?r" using rs(3) by (simp add: record_ok_def fresh_record_def)
    with old_ok i have "\<forall>r \<in> set (rs[i := ?r] @ [?new]). record_ok (rs[i := ?r] @ [?new]) r"
      by (intro records_ok_update) (simp_all add: fresh_record_ok)
    moreover have "keys_of s' d = rs[i := ?r] @ [?new]" "keys_of s d = rs"
      using True rs(1) by (simp_all add: keys_of_def s')
    ultimately show ?thesis using i rs(3)
      by (auto simp: records_advance_def nth_append nth_list_update)
  next
    case False
    then have "keys_of s' d = keys_of s d" by (simp add: keys_of_def s')
    with ok [of d] records_advance_refl show ?thesis by simp
  qed
next
  case (ks_revoke e key reason)
  then obtain rs i where rs: "bm_get (ks_records s) (did_str e) = Some rs"
    "first_index (\<lambda>r. kr_public_key r = key) rs = Some i" "kr_status (rs ! i) \<noteq> KsRevoked"
    and s': "bm_get (ks_records s') k = (if k = did_str e then Some (rs[i := (rs ! i)\<lparr>kr_status := KsRevoked,
        kr_revocation_reason := Some reason\<rparr>]) else bm_get (ks_records s) k)" for k
    by (auto simp: ks_revoke_key_def and_then_eq_Ok split: if_splits)
  let ?r = "(rs ! i)\<lparr>kr_status := KsRevoked, kr_revocation_reason := Some reason\<rparr>"
  have i: "i < length rs" using rs(2) by (simp add: first_index_Some)
  have ok: "\<forall>r \<in> set (keys_of s k). record_ok (keys_of s k) r" for k using assms(2) by (simp add: ks_inv_def)
  show ?thesis
  proof (cases "d = did_str e")
    case True
    have old_ok: "\<forall>r \<in> set rs. record_ok rs r" using ok [of "did_str e"] rs(1) by (simp add: keys_of_def)
    then have "record_ok rs (rs ! i)" using i by simp
    then have "record_ok (rs @ []) ?r" by (simp add: record_ok_def)
    with old_ok i have "\<forall>r \<in> set (rs[i := ?r] @ []). record_ok (rs[i := ?r] @ []) r"
      by (intro records_ok_update) simp_all
    moreover have "keys_of s' d = rs[i := ?r]" "keys_of s d = rs"
      using True rs(1) by (simp_all add: keys_of_def s')
    moreover have "status_rank k \<le> 2" for k by (cases k) simp_all
    ultimately show ?thesis using i
      by (auto simp: records_advance_def nth_list_update)
  next
    case False
    then have "keys_of s' d = keys_of s d" by (simp add: keys_of_def s')
    with ok [of d] records_advance_refl show ?thesis by simp
  qed
qed

text \<open>
  In every store that creation, rotation and revocation lead to, an active record has no successor and
  no reason, a rotated one names a key of the same identity, exactly the revoked ones have a reason; and
  no operation removes a record, changes its key or takes its status back.
\<close>

lemma key_lifecycle:
  assumes "ks_step\<^sup>*\<^sup>* ks_new s" and "ks_step\<^sup>*\<^sup>* s s'"
  shows "ks_inv s \<and> records_advance (keys_of s d) (keys_of s' d)"
proof -
  have step': "ks_inv t'" if "ks_step t t'" "ks_inv t" for t t'
    using ks_step_keys [OF that] by (simp add: ks_inv_def)
  have inv: "ks_inv s"
    using assms(1)
  proof (induction rule: rtranclp_induct)
    case base
    show ?case by (simp add: ks_inv_def keys_of_def ks_new_def)
  next
    case (step t t')
    show ?case by (rule step' [OF step.hyps(2) step.IH])
  qed
  have "ks_inv s' \<and> records_advance (keys_of s d) (keys_of s' d)"
    using assms(2)
  proof (induction rule: rtranclp_induct)
    case base
    then show ?case using inv records_advance_refl by blast
  next
    case (step t t')
    then show ?case
      using ks_step_keys [OF step.hyps(2)] records_advance_trans by (auto simp: ks_inv_def)
  qed
  with inv show ?thesis by blast
qed

section \<open>Operator continuity\<close>

lemma insert_all_dids_Ok:
  "insert_all_dids seen ds = Inr () \<longleftrightarrow> distinct ds \<and> (\<forall>d \<in> set ds. \<not> bs_contains seen (did_str d))"
proof (induction ds arbitrary: seen)
  case (Cons d ds)
  have "did_str e \<noteq> did_str d \<longleftrightarrow> e \<noteq> d" for e by (cases e; cases d) simp
  with Cons.IH [of "bs_insert (did_str d) seen"] show ?case by auto
qed simp

text \<open>
  A valid configuration resolves to an operator at every level, never panics, and to a different one at
  each; escalation and de-escalation undo each other.
\<close>

lemma pace_operators:
  assumes "pace_validate c = Inr ()"
  shows "resolve_operator c s \<noteq> None \<and> (s \<noteq> t \<longrightarrow> resolve_operator c s \<noteq> resolve_operator c t)"
  using assms
  by (cases s; cases t)
    (auto simp: pace_validate_def insert_all_dids_Ok index0_def split: if_splits list.splits)

lemma pace_escalate_inverse: "pace_escalate s = Inr t \<longleftrightarrow> pace_deescalate t = Inr s"
  by (cases s; cases t) simp_all

section \<open>Risk attestations\<close>

lemma assess_risk_verifies:
  "ed_correct prims \<Longrightarrow>
     risk_verify_attestation prims (assess_risk prims blake3 subject ctx sk) (PublicKey (ed_public prims (sk_arr sk)))"
  by (simp add: assess_risk_def risk_verify_attestation_def sign_def verify_def ed_correct_def Let_def)

text \<open>
  The two identifiers are signed without a separator, and a colon may occur in an identifier, so one
  signature covers two different pairs of subject and attester.
\<close>

lemma risk_payload_ambiguous:
  "signing_payload (Did ''did:exo:a'') (Did ''did:exo:bdid:exo:c'') level evidence ts expiry =
   signing_payload (Did ''did:exo:adid:exo:b'') (Did ''did:exo:c'') level evidence ts expiry \<and>
   did_new ''did:exo:bdid:exo:c'' = Ok (Did ''did:exo:bdid:exo:c'') \<and>
   did_new ''did:exo:adid:exo:b'' = Ok (Did ''did:exo:adid:exo:b'')"
proof (intro conjI)
  show "signing_payload (Did ''did:exo:a'') (Did ''did:exo:bdid:exo:c'') level evidence ts expiry =
      signing_payload (Did ''did:exo:adid:exo:b'') (Did ''did:exo:c'') level evidence ts expiry"
    by (simp add: signing_payload_def str_bytes_def)
qed code_simp+

text \<open>The expiry is an unchecked sum: a long validity wraps around and the attestation is born expired.\<close>

lemma assess_risk_wraps:
  "risk_is_expired (assess_risk prims blake3 subject (ctx\<lparr>rc_now := Timestamp 1 0, rc_validity_ms := - 1\<rparr>) sk) (Timestamp 1 0)"
  by (simp add: risk_is_expired_def assess_risk_def Let_def)

section \<open>The vault\<close>

text \<open>The documented contract of the cipher: decryption inverts encryption, and the tag adds its length.\<close>

definition aead_correct :: "vault_prims \<Rightarrow> bool" where
  "aead_correct V \<longleftrightarrow>
     (\<forall>k nonce aad m c. aead_encrypt V k nonce aad m = Ok c \<longrightarrow>
        aead_decrypt V k nonce aad c = Some m \<and> length c = length m + TAG_SIZE)"

lemma vault_roundtrip:
  assumes "aead_correct V" and "length nonce = NONCE_SIZE" and "ve_encrypt V nonce e plaintext aad = Inr c"
  shows "ve_decrypt V e c aad = Inr plaintext \<and> length c = length plaintext + MIN_CIPHERTEXT_LEN"
  using assms
  by (auto simp: ve_encrypt_def encrypt_with_nonce_def ve_decrypt_def aead_correct_def MIN_CIPHERTEXT_LEN_def
      split: sum.splits)

end
