(* ===== verification/Tenant.thy ===== *)
theory Tenant
  imports Hash_Log
begin

unbundle bit_operations_syntax

text \<open>
  The crate \<open>src/crates/exo-tenant\<close>: tenants and their life cycle (\<open>tenant.rs\<close>), the tenant-scoped
  store (\<open>store.rs\<close>), shard assignment (\<open>shard.rs\<close>) and storage tiers (\<open>cold_storage.rs\<close>). The text of
  an identifier in a message and fresh identifiers are arguments. A remainder by zero panics, which is
  the result \<open>None\<close>.
\<close>

datatype tenant_error =
    TenantNotFound uuid
  | TenantAlreadyExists uuid
  | TnInvalidStateTransition string
  | ShardError string
  | TnStorageError string
  | MigrationError string

section \<open>Tenants\<close>

datatype tenant_status = TnActive | TnSuspended | TnArchived

fun tenant_status_name :: "tenant_status \<Rightarrow> string" where
  "tenant_status_name TnActive = ''Active''"
| "tenant_status_name TnSuspended = ''Suspended''"
| "tenant_status_name TnArchived = ''Archived''"

record tenant_config =
  max_storage_bytes :: u64
  max_users :: u32

definition default_tenant_config :: tenant_config where
  "default_tenant_config = \<lparr>max_storage_bytes = 1073741824, max_users = 100\<rparr>"

record tenant =
  tn_id :: uuid
  tn_name :: string
  tn_config :: tenant_config
  tn_created :: timestamp
  tn_status :: tenant_status

record tenant_registry =
  tenants :: "(uuid, tenant) btree_map"

definition tr_new :: tenant_registry where
  "tr_new = \<lparr>tenants = bm_empty\<rparr>"

definition tr_create ::
  "uuid \<Rightarrow> tenant_registry \<Rightarrow> string \<Rightarrow> tenant_config \<Rightarrow> tenant_registry \<times> (uuid, tenant_error) result" where
  "tr_create i r name config =
     (let t = \<lparr>tn_id = i, tn_name = name, tn_config = config, tn_created = TS_ZERO, tn_status = TnActive\<rparr> in
      (r\<lparr>tenants := bm_insert i t (tenants r)\<rparr>, Ok i))"

definition tr_get :: "tenant_registry \<Rightarrow> uuid \<Rightarrow> tenant option" where
  "tr_get r i = bm_get (tenants r) i"

text \<open>\<open>get_mut\<close> hands out a mutable reference: the caller's change of the tenant is written back.\<close>

definition tr_get_mut :: "tenant_registry \<Rightarrow> uuid \<Rightarrow> (tenant \<Rightarrow> tenant) \<Rightarrow> tenant_registry" where
  "tr_get_mut r i change =
     (case bm_get (tenants r) i of
        None \<Rightarrow> r
      | Some t \<Rightarrow> r\<lparr>tenants := bm_insert i (change t) (tenants r)\<rparr>)"

fun status_change_allowed :: "tenant_status \<Rightarrow> tenant_status \<Rightarrow> bool" where
  "status_change_allowed TnActive TnSuspended = True"
| "status_change_allowed TnActive TnArchived = True"
| "status_change_allowed TnSuspended TnActive = True"
| "status_change_allowed TnSuspended TnArchived = True"
| "status_change_allowed _ _ = False"

definition tr_update_status ::
  "tenant_registry \<Rightarrow> uuid \<Rightarrow> tenant_status \<Rightarrow> (tenant_registry, tenant_error) result" where
  "tr_update_status r i status =
     and_then (ok_or (bm_get (tenants r) i) (TenantNotFound i)) (\<lambda>t.
       if status_change_allowed (tn_status t) status
       then Ok (r\<lparr>tenants := bm_insert i (t\<lparr>tn_status := status\<rparr>) (tenants r)\<rparr>)
       else Err (TnInvalidStateTransition
              (tenant_status_name (tn_status t) @ '' -> '' @ tenant_status_name status)))"

definition tr_delete :: "tenant_registry \<Rightarrow> uuid \<Rightarrow> tenant_registry \<times> (tenant, tenant_error) result" where
  "tr_delete r i =
     (r\<lparr>tenants := bm_remove i (tenants r)\<rparr>, ok_or (bm_get (tenants r) i) (TenantNotFound i))"

definition tr_len :: "tenant_registry \<Rightarrow> nat" where
  "tr_len r = bm_len (tenants r)"

definition tr_is_empty :: "tenant_registry \<Rightarrow> bool" where
  "tr_is_empty r = bm_is_empty (tenants r)"

definition tr_list :: "tenant_registry \<Rightarrow> tenant list" where
  "tr_list r = bm_values (tenants r)"

section \<open>The tenant store\<close>

record tenant_data =
  td_id :: uuid
  td_tenant_id :: uuid
  td_owner :: did
  td_content_hash :: hash256

record tenant_store =
  ts_data :: "(uuid, (uuid, tenant_data) btree_map) btree_map"

definition ts_new :: tenant_store where
  "ts_new = \<lparr>ts_data = bm_empty\<rparr>"

definition ts_put :: "tenant_store \<Rightarrow> uuid \<Rightarrow> tenant_data \<Rightarrow> (tenant_store, tenant_error) result" where
  "ts_put s t item =
     (if td_tenant_id item \<noteq> t then Err (TnStorageError ''tenant_id mismatch'')
      else Ok (s\<lparr>ts_data := bm_upd_default bm_empty (bm_insert (td_id item) item) t (ts_data s)\<rparr>))"

definition ts_get :: "tenant_store \<Rightarrow> uuid \<Rightarrow> uuid \<Rightarrow> tenant_data option" where
  "ts_get s t i = Option.bind (bm_get (ts_data s) t) (\<lambda>m. bm_get m i)"

definition ts_delete ::
  "(uuid \<Rightarrow> string) \<Rightarrow> tenant_store \<Rightarrow> uuid \<Rightarrow> uuid \<Rightarrow> tenant_store \<times> (tenant_data, tenant_error) result" where
  "ts_delete show_uuid s t i =
     (let missing = TnStorageError (''item '' @ show_uuid i @ '' not found in tenant '' @ show_uuid t) in
      case bm_get (ts_data s) t of
        None \<Rightarrow> (s, Err missing)
      | Some m \<Rightarrow> (s\<lparr>ts_data := bm_insert t (bm_remove i m) (ts_data s)\<rparr>, ok_or (bm_get m i) missing))"

definition ts_get_isolated :: "tenant_store \<Rightarrow> uuid \<Rightarrow> uuid \<Rightarrow> tenant_data option" where
  "ts_get_isolated s t i =
     Option.bind (ts_get s t i) (\<lambda>item. if td_tenant_id item = t then Some item else None)"

definition ts_count :: "tenant_store \<Rightarrow> uuid \<Rightarrow> nat" where
  "ts_count s t = (case bm_get (ts_data s) t of None \<Rightarrow> 0 | Some m \<Rightarrow> bm_len m)"

section \<open>Shards\<close>

text \<open>\<open>usize\<close> on the 64-bit targets of the server, kept at its width.\<close>

record shard_config =
  num_shards :: u64
  replication_factor :: u64

definition default_shard_config :: shard_config where
  "default_shard_config = \<lparr>num_shards = 16, replication_factor = 3\<rparr>"

definition rem_usize :: "u64 \<Rightarrow> u64 \<Rightarrow> u64 option" where
  "rem_usize a b = (if b = 0 then None else Some (a mod b))"

definition shard_val :: "hash256 \<Rightarrow> u64" where
  "shard_val key =
     (let bytes = hash_bytes key in
      ucast (bytes ! 0) OR push_bit 8 (ucast (bytes ! 1)) OR push_bit 16 (ucast (bytes ! 2))
        OR push_bit 24 (ucast (bytes ! 3)))"

definition assign_shard :: "hash256 \<Rightarrow> shard_config \<Rightarrow> u64 option" where
  "assign_shard key config = rem_usize (shard_val key) (num_shards config)"

definition replica_shards :: "u64 \<Rightarrow> shard_config \<Rightarrow> u64 list option" where
  "replica_shards primary config =
     those (map (\<lambda>i. rem_usize (primary + of_nat i) (num_shards config)) [0..<unat (replication_factor config)])"

definition migration_plan :: "hash256 \<Rightarrow> shard_config \<Rightarrow> shard_config \<Rightarrow> (u64 \<times> u64) option" where
  "migration_plan key old new =
     Option.bind (assign_shard key old) (\<lambda>a. map_option (Pair a) (assign_shard key new))"

section \<open>Storage tiers\<close>

datatype storage_tier = Hot | Warm | Cold | Archive

fun storage_tier_rank :: "storage_tier \<Rightarrow> nat" where
  "storage_tier_rank Hot = 0"
| "storage_tier_rank Warm = 1"
| "storage_tier_rank Cold = 2"
| "storage_tier_rank Archive = 3"

lemma storage_tier_rank_inject: "storage_tier_rank a = storage_tier_rank b \<longleftrightarrow> a = b"
  by (cases a; cases b) simp_all

instantiation storage_tier :: linorder
begin

definition less_eq_storage_tier :: "storage_tier \<Rightarrow> storage_tier \<Rightarrow> bool" where
  "less_eq_storage_tier a b = (storage_tier_rank a \<le> storage_tier_rank b)"

definition less_storage_tier :: "storage_tier \<Rightarrow> storage_tier \<Rightarrow> bool" where
  "less_storage_tier a b = (storage_tier_rank a < storage_tier_rank b)"

instance
  by standard (auto simp: less_eq_storage_tier_def less_storage_tier_def storage_tier_rank_inject)

end

fun storage_tier_name :: "storage_tier \<Rightarrow> string" where
  "storage_tier_name Hot = ''Hot''"
| "storage_tier_name Warm = ''Warm''"
| "storage_tier_name Cold = ''Cold''"
| "storage_tier_name Archive = ''Archive''"

record storage_record =
  sr_id :: uuid
  sr_tier :: storage_tier

record storage_manager =
  sm_records :: "(uuid, storage_tier) btree_map"

definition sm_new :: storage_manager where
  "sm_new = \<lparr>sm_records = bm_empty\<rparr>"

definition sm_register :: "storage_manager \<Rightarrow> uuid \<Rightarrow> storage_tier \<Rightarrow> storage_manager" where
  "sm_register m i tier = m\<lparr>sm_records := bm_insert i tier (sm_records m)\<rparr>"

definition sm_migrate ::
  "(uuid \<Rightarrow> string) \<Rightarrow> storage_manager \<Rightarrow> uuid \<Rightarrow> storage_tier \<Rightarrow> storage_tier \<Rightarrow> (storage_manager, tenant_error) result" where
  "sm_migrate show_uuid m i from to =
     and_then (ok_or (bm_get (sm_records m) i) (TnStorageError (''record '' @ show_uuid i @ '' not found''))) (\<lambda>current.
       if current \<noteq> from
       then Err (MigrationError (''expected '' @ storage_tier_name from @ '', found '' @ storage_tier_name current))
       else if to < from
       then Err (MigrationError (''cannot promote from '' @ storage_tier_name from @ '' to '' @ storage_tier_name to))
       else Ok (m\<lparr>sm_records := bm_insert i to (sm_records m)\<rparr>))"

definition get_tier :: "storage_manager \<Rightarrow> uuid \<Rightarrow> storage_tier option" where
  "get_tier m i = bm_get (sm_records m) i"

definition count_by_tier :: "storage_manager \<Rightarrow> storage_tier \<Rightarrow> nat" where
  "count_by_tier m tier = length (filter (\<lambda>t. t = tier) (bm_values (sm_records m)))"

section \<open>Isolation of tenants\<close>

text \<open>The abstract store: one partial map from pairs of a tenant and an item.\<close>

definition ts_abs :: "tenant_store \<Rightarrow> uuid \<times> uuid \<rightharpoonup> tenant_data" where
  "ts_abs s = (\<lambda>(t, i). ts_get s t i)"

lemma ts_get_put:
  "ts_put s t item = Inr s' \<Longrightarrow> ts_get s' t' i =
     (if t' = t \<and> i = td_id item then Some item else ts_get s t' i)"
  by (auto simp: ts_put_def ts_get_def split: if_splits option.splits)

lemma ts_get_delete:
  "ts_get (fst (ts_delete show_uuid s t i)) t' i' = (if t' = t \<and> i' = i then None else ts_get s t' i')"
  by (auto simp: ts_delete_def ts_get_def Let_def split: option.splits)

text \<open>
  C30: the tenant store implements one partial map from tenant and item to data. A store that
  accepts an item updates exactly the entry of that tenant and item, and it refuses exactly the items
  that name another tenant; a deletion clears exactly its entry and returns what was there, or fails
  when nothing was; counting counts the entries of the tenant.
\<close>

theorem tenant_store_refines:
  "ts_abs ts_new = Map.empty \<and>
   ts_get s t i = ts_abs s (t, i) \<and>
   ts_count s t = card {i. ts_abs s (t, i) \<noteq> None} \<and>
   (case ts_put s t item of
      Inl _ \<Rightarrow> td_tenant_id item \<noteq> t
    | Inr s' \<Rightarrow> td_tenant_id item = t \<and> ts_abs s' = (ts_abs s)((t, td_id item) \<mapsto> item)) \<and>
   (case ts_delete show_uuid s t i of
      (s', r) \<Rightarrow> ts_abs s' = (ts_abs s)((t, i) := None) \<and>
        (case r of Inl _ \<Rightarrow> ts_abs s (t, i) = None | Inr item \<Rightarrow> ts_abs s (t, i) = Some item))"
proof (intro conjI)
  show "ts_abs ts_new = Map.empty"
    by (simp add: ts_abs_def ts_get_def ts_new_def fun_eq_iff)
  show "ts_get s t i = ts_abs s (t, i)" by (simp add: ts_abs_def)
  show "ts_count s t = card {i. ts_abs s (t, i) \<noteq> None}"
    by (auto simp: ts_abs_def ts_count_def ts_get_def bm_len_card bm_contains_def split: option.splits)
  show "case ts_put s t item of
      Inl _ \<Rightarrow> td_tenant_id item \<noteq> t
    | Inr s' \<Rightarrow> td_tenant_id item = t \<and> ts_abs s' = (ts_abs s)((t, td_id item) \<mapsto> item)"
  proof (cases "td_tenant_id item = t")
    case True
    then obtain s' where s': "ts_put s t item = Inr s'" by (simp add: ts_put_def)
    then have "ts_abs s' = (ts_abs s)((t, td_id item) \<mapsto> item)"
      by (auto simp: ts_abs_def fun_eq_iff ts_get_put [OF s'])
    with True s' show ?thesis by simp
  qed (simp add: ts_put_def)
  obtain s' r where d: "ts_delete show_uuid s t i = (s', r)" by force
  then have "ts_abs s' = (ts_abs s)((t, i) := None)"
    using ts_get_delete [of show_uuid s t i] by (auto simp: ts_abs_def fun_eq_iff)
  moreover have "case r of Inl _ \<Rightarrow> ts_abs s (t, i) = None | Inr item \<Rightarrow> ts_abs s (t, i) = Some item"
    using d by (auto simp: ts_delete_def ts_abs_def ts_get_def Let_def ok_or_def split: option.splits)
  ultimately show "case ts_delete show_uuid s t i of
      (s', r) \<Rightarrow> ts_abs s' = (ts_abs s)((t, i) := None) \<and>
        (case r of Inl _ \<Rightarrow> ts_abs s (t, i) = None | Inr item \<Rightarrow> ts_abs s (t, i) = Some item)"
    using d by simp
qed

text \<open>
  Requests to the store, each made for one tenant, and what the tenant observes of it: whether an item
  was accepted, the item deleted, the item found, the number of items.
\<close>

datatype ts_request =
    TsPut (rq_tenant: uuid) tenant_data
  | TsDelete (rq_tenant: uuid) uuid
  | TsGet (rq_tenant: uuid) uuid
  | TsCount (rq_tenant: uuid)

datatype ts_answer =
    TsAccepted "(unit, tenant_error) result"
  | TsDeleted "(tenant_data, tenant_error) result"
  | TsFound "tenant_data option"
  | TsCounted nat

fun ts_serve :: "(uuid \<Rightarrow> string) \<Rightarrow> ts_request \<Rightarrow> tenant_store \<Rightarrow> tenant_store \<times> ts_answer" where
  "ts_serve show_uuid (TsPut t item) s =
     (case ts_put s t item of Inl e \<Rightarrow> (s, TsAccepted (Err e)) | Inr s' \<Rightarrow> (s', TsAccepted (Ok ())))"
| "ts_serve show_uuid (TsDelete t i) s = map_prod id TsDeleted (ts_delete show_uuid s t i)"
| "ts_serve show_uuid (TsGet t i) s = (s, TsFound (ts_get_isolated s t i))"
| "ts_serve show_uuid (TsCount t) s = (s, TsCounted (ts_count s t))"

fun ts_run :: "(uuid \<Rightarrow> string) \<Rightarrow> tenant_store \<Rightarrow> ts_request list \<Rightarrow> (uuid \<times> ts_answer) list" where
  "ts_run show_uuid s [] = []"
| "ts_run show_uuid s (rq # rqs) =
     (case ts_serve show_uuid rq s of (s', a) \<Rightarrow> (rq_tenant rq, a) # ts_run show_uuid s' rqs)"

text \<open>Two stores look the same to a tenant.\<close>

definition same_view :: "uuid \<Rightarrow> tenant_store \<Rightarrow> tenant_store \<Rightarrow> bool" where
  "same_view t s s' = (\<forall>i. ts_get s t i = ts_get s' t i)"

lemma ts_count_view: "same_view t s s' \<Longrightarrow> ts_count s t = ts_count s' t"
proof -
  have "ts_count s t = card {i. ts_get s t i \<noteq> None}" for s
    by (auto simp: ts_count_def ts_get_def bm_len_card bm_contains_def split: option.splits)
  then show "same_view t s s' \<Longrightarrow> ts_count s t = ts_count s' t" by (simp add: same_view_def)
qed

lemma ts_delete_answer:
  "snd (ts_delete show_uuid s t i) =
     ok_or (ts_get s t i) (TnStorageError (''item '' @ show_uuid i @ '' not found in tenant '' @ show_uuid t))"
  by (auto simp: ts_delete_def ts_get_def Let_def split: option.splits)

lemma ts_serve_other: "rq_tenant rq \<noteq> t \<Longrightarrow> same_view t (fst (ts_serve show_uuid rq s)) s"
  by (cases rq) (auto simp: same_view_def ts_get_delete ts_get_put split: sum.splits)

lemma ts_serve_same:
  assumes "same_view (rq_tenant rq) s s'"
  shows "same_view (rq_tenant rq) (fst (ts_serve show_uuid rq s)) (fst (ts_serve show_uuid rq s')) \<and>
         snd (ts_serve show_uuid rq s) = snd (ts_serve show_uuid rq s')"
proof (cases rq)
  case (TsPut t item)
  with assms show ?thesis
    by (auto simp: same_view_def ts_put_def ts_get_def split: option.splits)
next
  case (TsDelete t i)
  with assms show ?thesis by (simp add: same_view_def ts_get_delete ts_delete_answer)
next
  case (TsGet t i)
  with assms show ?thesis by (simp add: same_view_def ts_get_isolated_def)
next
  case (TsCount t)
  with assms show ?thesis by (simp add: ts_count_view)
qed

lemma ts_run_view:
  "same_view t s s' \<Longrightarrow>
     filter (\<lambda>(u, _). u = t) (ts_run show_uuid s rqs) =
     ts_run show_uuid s' (filter (\<lambda>rq. rq_tenant rq = t) rqs)"
proof (induction rqs arbitrary: s s')
  case (Cons rq rqs)
  show ?case
  proof (cases "rq_tenant rq = t")
    case True
    then show ?thesis
      using ts_serve_same [of rq s s' show_uuid] Cons by (auto split: prod.splits)
  next
    case False
    then have "same_view t (fst (ts_serve show_uuid rq s)) s'"
      using ts_serve_other [of rq t show_uuid s] Cons.prems by (simp add: same_view_def)
    with False show ?thesis using Cons.IH by (auto split: prod.splits)
  qed
qed simp

text \<open>
  C31: tenants do not interfere. What a tenant observes of a run of requests by any tenants is what it
  observes when only its own requests are made: the answers to its requests do not depend on the
  requests of the others.
\<close>

theorem tenant_noninterference:
  "filter (\<lambda>(u, _). u = t) (ts_run show_uuid s rqs) = ts_run show_uuid s (filter (\<lambda>rq. rq_tenant rq = t) rqs)"
  by (rule ts_run_view) (simp add: same_view_def)

section \<open>Life cycle, tiers and shards\<close>

text \<open>
  An archived tenant stays archived: no change of status succeeds on it, and in every other status a
  change succeeds exactly to a different status. Other tenants are untouched.
\<close>

lemma tenant_status_changes:
  "(\<exists>r'. tr_update_status r i status = Inr r') \<longleftrightarrow>
     (\<exists>t. tr_get r i = Some t \<and> tn_status t \<noteq> TnArchived \<and> status \<noteq> tn_status t)"
  "tr_update_status r i status = Inr r' \<Longrightarrow>
     tr_get r' j = (if j = i then map_option (tn_status_update (\<lambda>_. status)) (tr_get r i) else tr_get r j)"
proof -
  have "status_change_allowed a b \<longleftrightarrow> a \<noteq> TnArchived \<and> b \<noteq> a" for a b
    by (cases a; cases b) simp_all
  then show "(\<exists>r'. tr_update_status r i status = Inr r') \<longleftrightarrow>
     (\<exists>t. tr_get r i = Some t \<and> tn_status t \<noteq> TnArchived \<and> status \<noteq> tn_status t)"
    by (auto simp: tr_update_status_def tr_get_def ok_or_def split: option.splits)
qed (auto simp: tr_update_status_def tr_get_def ok_or_def and_then_def split: option.splits if_splits)

text \<open>However records migrate, none becomes warmer.\<close>

inductive sm_later :: "(uuid \<Rightarrow> string) \<Rightarrow> storage_manager \<Rightarrow> storage_manager \<Rightarrow> bool"
  for show_uuid :: "uuid \<Rightarrow> string" and m :: storage_manager where
  sm_start: "sm_later show_uuid m m"
| sm_move: "sm_later show_uuid m m' \<Longrightarrow> sm_migrate show_uuid m' i from to = Inr m'' \<Longrightarrow> sm_later show_uuid m m''"

lemma migration_cools:
  assumes "sm_later show_uuid m m'" and "get_tier m i = Some a"
  shows "\<exists>b. get_tier m' i = Some b \<and> a \<le> b"
  using assms
proof (induction rule: sm_later.induct)
  case (sm_move m' j a1 a2 m'')
  then obtain b where "get_tier m' i = Some b" "a \<le> b" by blast
  with sm_move.hyps(2) show ?case
    by (auto simp: sm_migrate_def get_tier_def and_then_eq_Ok split: if_splits)
qed simp

text \<open>The four bytes are read as a little-endian number.\<close>

lemma unat_shard_val:
  "unat (shard_val key) =
     unat (hash_bytes key ! 0) + 256 * unat (hash_bytes key ! 1) + 65536 * unat (hash_bytes key ! 2)
       + 16777216 * unat (hash_bytes key ! 3)"
proof -
  let ?b = "\<lambda>i. hash_bytes key ! i" and ?c = "\<lambda>i. ucast (hash_bytes key ! i) :: u64"
  have le: "unat (?b i) < 256" for i
    using unsigned_less [of "?b i"] by simp
  have c: "unat (?c i) = unat (?b i)" for i
    using le [of i] by (simp add: unsigned_ucast_eq take_bit_nat_eq_self)
  have p: "unat (push_bit k (?c i)) = 2 ^ k * unat (?b i)" if "k \<le> 24" for k i
  proof -
    have "2 ^ k \<le> (2 ^ 24 :: nat)" using that by (intro power_increasing) auto
    then have "2 ^ k * unat (?b i) \<le> 2 ^ 24 * 255" using le [of i] by (intro mult_mono) auto
    then have "2 ^ k * unat (?b i) < 2 ^ 64" by simp
    then show ?thesis by (simp add: unsigned_push_bit_eq c push_bit_nat_def mult.commute take_bit_nat_eq_self)
  qed
  have bits: "bit (?c i) n \<Longrightarrow> n < 8" for i n
    by (auto simp: bit_ucast_iff dest: bit_imp_le_length)
  have "shard_val key = ?c 0 + push_bit 8 (?c 1) + push_bit 16 (?c 2) + push_bit 24 (?c 3)"
    unfolding shard_val_def Let_def
    by (subst disjunctive_add, force simp: bit_push_bit_iff bit_or_iff dest: bits)+ (simp add: or.assoc)
  moreover have "unat (?c 0 + push_bit 8 (?c 1) + push_bit 16 (?c 2) + push_bit 24 (?c 3)) =
      unat (?b 0) + 256 * unat (?b 1) + 65536 * unat (?b 2) + 16777216 * unat (?b 3)"
    using le [of 0] le [of 1] le [of 2] le [of 3]
    by (simp add: unat_add_lem [THEN iffD1] p c)
  ultimately show ?thesis by simp
qed

lemma mod_add_left_inject:
  fixes a i j n :: nat
  assumes "(a + i) mod n = (a + j) mod n" and "i < n" and "j < n"
  shows "i = j"
proof -
  have "n dvd y - x" if "(a + x) mod n = (a + y) mod n" "x \<le> y" for x y
    using that mod_eq_dvd_iff_nat [of "a + x" "a + y" n] by simp
  with assms(1) have "n dvd i - j \<and> j \<le> i \<or> n dvd j - i \<and> i \<le> j" by (metis nat_le_linear)
  moreover have "x = 0" if "n dvd x" "x < n" for x using that by (auto simp: dvd_def)
  ultimately show ?thesis using assms(2,3) by fastforce
qed

lemma those_map_Some: "those (map (\<lambda>x. Some (f x)) xs) = Some (map f xs)"
  by (induction xs) simp_all

text \<open>
  Shards. With at least one shard every key is assigned to an existing one, the remainder of the
  number its first four bytes are. When no more replicas are asked for than there are shards, and the
  index arithmetic has room, the replicas of a shard are that many different existing shards, the shard itself
  first. When the number of shards is multiplied, a key stays, or moves to one of the shards that its
  old shard was split into.
\<close>

theorem shards_spread:
  assumes "0 < num_shards c" and "replication_factor c \<le> num_shards c" and "0 < replication_factor c"
    and "p < num_shards c" and "unat p + unat (replication_factor c) \<le> 2 ^ 64"
    and "unat (num_shards c') = m * unat (num_shards c)" and "0 < m"
  shows "(\<exists>xs. replica_shards p c = Some xs \<and> length xs = unat (replication_factor c) \<and> distinct xs \<and>
            hd xs = p \<and> list_all (\<lambda>x. x < num_shards c) xs) \<and>
         (\<exists>a b. migration_plan key c c' = Some (a, b) \<and> a < num_shards c \<and> b < num_shards c' \<and>
            unat a = (unat (hash_bytes key ! 0) + 256 * unat (hash_bytes key ! 1)
               + 65536 * unat (hash_bytes key ! 2) + 16777216 * unat (hash_bytes key ! 3)) mod unat (num_shards c) \<and>
            unat b mod unat (num_shards c) = unat a)"
proof
  let ?n = "unat (num_shards c)" and ?r = "unat (replication_factor c)"
  have n: "0 < ?n" "num_shards c \<noteq> 0" "?r \<le> ?n" "0 < ?r" "unat p < ?n"
    using assms(1-4) by (auto simp: word_less_nat_alt word_le_nat_alt)
  let ?xs = "map (\<lambda>i. (p + of_nat i) mod num_shards c) [0..<?r]"
  have val: "unat ((p + of_nat i) mod num_shards c) = (unat p + i) mod ?n" if "i < ?r" for i
  proof -
    from that assms(5) have "unat p + i < 2 ^ 64" by simp
    then have "unat (p + of_nat i) = unat p + i"
      by (simp add: unat_word_ariths unat_of_nat)
    then show ?thesis by (simp add: unat_mod)
  qed
  have "replica_shards p c = Some ?xs"
    using n(2) by (simp add: replica_shards_def rem_usize_def those_map_Some)
  moreover have "distinct ?xs"
  proof (simp add: distinct_map, rule inj_onI)
    fix i j assume "i \<in> {0..<?r}" "j \<in> {0..<?r}"
      and eq: "(p + of_nat i) mod num_shards c = (p + of_nat j) mod num_shards c"
    then have "(unat p + i) mod ?n = (unat p + j) mod ?n" "i < ?n" "j < ?n"
      using val [of i] val [of j] n(3) by auto
    then show "i = j" by (rule mod_add_left_inject)
  qed
  moreover have "hd ?xs = p"
  proof -
    have "hd ?xs = p mod num_shards c" using n(4) by (simp add: hd_map)
    also have "\<dots> = p" using n(5) by (simp add: word_unat_eq_iff unat_mod)
    finally show ?thesis .
  qed
  moreover have "list_all (\<lambda>x. x < num_shards c) ?xs"
    using n(1) by (auto simp: list_all_iff word_less_nat_alt val)
  ultimately show "\<exists>xs. replica_shards p c = Some xs \<and> length xs = ?r \<and> distinct xs \<and>
      hd xs = p \<and> list_all (\<lambda>x. x < num_shards c) xs" by auto
  have n': "num_shards c' \<noteq> 0" using assms(6,7) n(1) by (metis mult_eq_0_iff neq0_conv unat_0)
  then have "0 < unat (num_shards c')" by (simp add: unat_gt_0)
  then show "\<exists>a b. migration_plan key c c' = Some (a, b) \<and> a < num_shards c \<and> b < num_shards c' \<and>
      unat a = (unat (hash_bytes key ! 0) + 256 * unat (hash_bytes key ! 1)
         + 65536 * unat (hash_bytes key ! 2) + 16777216 * unat (hash_bytes key ! 3)) mod ?n \<and>
      unat b mod ?n = unat a"
    using n(1,2) n' assms(6)
    by (simp add: migration_plan_def assign_shard_def rem_usize_def word_less_nat_alt unat_mod
        unat_shard_val mod_mod_cancel)
qed

theorem shards_spread_witness:
  "\<exists>xs. replica_shards 15 default_shard_config = Some xs \<and> length xs = 3 \<and> distinct xs \<and> hd xs = 15"
proof -
  have "unat (32 :: u64) = 2 * unat (16 :: u64)" by simp
  with shards_spread [of default_shard_config 15 "\<lparr>num_shards = 32, replication_factor = 3\<rparr>" 2 HASH_ZERO]
  show ?thesis by (auto simp: default_shard_config_def)
qed

end
