(* ===== verification/Escalation.thy ===== *)
theory Escalation
  imports Hash_Log "HOL-Library.Multiset"
begin

text \<open>
  The crate \<open>src/crates/exo-escalation\<close>: detection signals and their assessment (\<open>detector.rs\<close>), triage
  (\<open>triage.rs\<close>), escalation cases and Sybil adjudication (\<open>escalation.rs\<close>), the kanban board
  (\<open>kanban.rs\<close>), completeness checks (\<open>completeness.rs\<close>) and feedback (\<open>feedback.rs\<close>). Fresh identifiers, the
  clock reading and the text of an identifier are arguments.
\<close>

datatype escalation_error =
    CaseNotFound string
  | EsInvalidStateTransition string string
  | IncompleteCase string
  | InvalidSignal string
  | ColumnNotFound string

section \<open>Detection\<close>

datatype signal_type =
    SybilSuspicion
  | UnauthorizedAccess
  | SigConsentViolation
  | InvariantBreach
  | AnomalousPattern
  | EmergencyCondition

record detection_signal =
  sg_source :: string
  sg_type :: signal_type
  sg_confidence :: u8
  sg_evidence_hash :: arr32
  sg_timestamp :: timestamp

datatype threat_severity = SevLow | SevMedium | SevHigh | SevCritical

datatype recommended_action = Monitor | Investigate | RecQuarantine | EmergencyShutdown

record threat_assessment =
  overall_severity :: threat_severity
  recommended_action :: recommended_action
  ta_signals :: "detection_signal list"

definition max_confidence :: "detection_signal list \<Rightarrow> u8" where
  "max_confidence signals = fold max (map sg_confidence signals) 0"

definition evaluate_signals :: "detection_signal list \<Rightarrow> threat_assessment" where
  "evaluate_signals signals =
     (if signals = []
      then \<lparr>overall_severity = SevLow, recommended_action = Monitor, ta_signals = []\<rparr>
      else
        let confidence = max_confidence signals;
            has_emergency = list_ex (\<lambda>s. sg_type s = EmergencyCondition) signals;
            has_sybil = list_ex (\<lambda>s. sg_type s = SybilSuspicion) signals;
            signal_count = length signals;
            (severity, action) =
              (if has_emergency \<or> 90 \<le> confidence then (SevCritical, EmergencyShutdown)
               else if has_sybil \<and> 70 \<le> confidence \<or> 80 \<le> confidence then (SevHigh, RecQuarantine)
               else if 3 \<le> signal_count \<or> 50 \<le> confidence then (SevMedium, Investigate)
               else (SevLow, Monitor))
        in \<lparr>overall_severity = severity, recommended_action = action, ta_signals = signals\<rparr>)"

section \<open>Triage\<close>

datatype triage_level = Automatic | Supervised | ManualRequired | EmergencyHuman

datatype triage_action = TrLog | TrAlert | TrQuarantine | TrSuspend | TrEscalate | TrShutdown

record escalation_path_spec =
  ep_name :: string

record triage_decision =
  tg_level :: triage_level
  tg_actions :: "triage_action list"
  tg_timeout :: timestamp
  tg_escalation_path :: "escalation_path_spec option"

definition triage :: "threat_assessment \<Rightarrow> triage_decision" where
  "triage a =
     (case overall_severity a of
        SevLow \<Rightarrow>
          \<lparr>tg_level = Automatic, tg_actions = [TrLog], tg_timeout = Timestamp 3600000 0,
           tg_escalation_path = None\<rparr>
      | SevMedium \<Rightarrow>
          \<lparr>tg_level = Supervised, tg_actions = [TrLog, TrAlert], tg_timeout = Timestamp 1800000 0,
           tg_escalation_path = Some \<lparr>ep_name = ''standard''\<rparr>\<rparr>
      | SevHigh \<Rightarrow>
          \<lparr>tg_level = ManualRequired, tg_actions = [TrAlert, TrQuarantine], tg_timeout = Timestamp 900000 0,
           tg_escalation_path = Some \<lparr>ep_name = ''sybil_adjudication''\<rparr>\<rparr>
      | SevCritical \<Rightarrow>
          \<lparr>tg_level = EmergencyHuman, tg_actions = [TrSuspend, TrEscalate, TrShutdown],
           tg_timeout = Timestamp 300000 0, tg_escalation_path = Some \<lparr>ep_name = ''emergency''\<rparr>\<rparr>)"

section \<open>Escalation cases\<close>

datatype escalation_path = StandardPath | SybilAdjudication | EmergencyPath | ConstitutionalPath

fun escalation_path_name :: "escalation_path \<Rightarrow> string" where
  "escalation_path_name StandardPath = ''Standard''"
| "escalation_path_name SybilAdjudication = ''SybilAdjudication''"
| "escalation_path_name EmergencyPath = ''Emergency''"
| "escalation_path_name ConstitutionalPath = ''Constitutional''"

datatype sybil_stage =
    SyDetection
  | SyTriage
  | SyQuarantine
  | SyEvidentaryReview
  | SyClearanceDowngrade
  | SyReinstatement
  | SyAuditLog

fun sybil_stage_name :: "sybil_stage \<Rightarrow> string" where
  "sybil_stage_name SyDetection = ''Detection''"
| "sybil_stage_name SyTriage = ''Triage''"
| "sybil_stage_name SyQuarantine = ''Quarantine''"
| "sybil_stage_name SyEvidentaryReview = ''EvidentaryReview''"
| "sybil_stage_name SyClearanceDowngrade = ''ClearanceDowngrade''"
| "sybil_stage_name SyReinstatement = ''Reinstatement''"
| "sybil_stage_name SyAuditLog = ''AuditLog''"

datatype case_status = CsOpen | CsInProgress | CsPendingReview | CsResolved | CsClosed

datatype case_priority = PrLow | PrMedium | PrHigh | PrCritical

fun priority_rank :: "case_priority \<Rightarrow> nat" where
  "priority_rank PrLow = 0"
| "priority_rank PrMedium = 1"
| "priority_rank PrHigh = 2"
| "priority_rank PrCritical = 3"

lemma priority_rank_inject: "priority_rank a = priority_rank b \<longleftrightarrow> a = b"
  by (cases a; cases b) simp_all

instantiation case_priority :: linorder
begin

definition less_eq_case_priority :: "case_priority \<Rightarrow> case_priority \<Rightarrow> bool" where
  "less_eq_case_priority a b = (priority_rank a \<le> priority_rank b)"

definition less_case_priority :: "case_priority \<Rightarrow> case_priority \<Rightarrow> bool" where
  "less_case_priority a b = (priority_rank a < priority_rank b)"

instance
  by standard (auto simp: less_eq_case_priority_def less_case_priority_def priority_rank_inject)

end

record escalation_case =
  ec_id :: uuid
  ec_path :: escalation_path
  ec_status :: case_status
  ec_priority :: case_priority
  ec_stages_completed :: "string list"
  ec_evidence :: "arr32 list"
  ec_assignee :: "did option"
  ec_created :: timestamp

definition priority_of :: "u8 \<Rightarrow> case_priority" where
  "priority_of confidence =
     (if confidence \<le> 30 then PrLow
      else if confidence \<le> 60 then PrMedium
      else if confidence \<le> 85 then PrHigh
      else PrCritical)"

fun initial_stage :: "escalation_path \<Rightarrow> string" where
  "initial_stage SybilAdjudication = sybil_stage_name SyDetection"
| "initial_stage EmergencyPath = ''emergency_activated''"
| "initial_stage ConstitutionalPath = ''constitutional_review''"
| "initial_stage StandardPath = ''intake''"

definition escalate_signal :: "uuid \<Rightarrow> u64 \<Rightarrow> detection_signal \<Rightarrow> escalation_path \<Rightarrow> escalation_case" where
  "escalate_signal u wall signal path =
     \<lparr>ec_id = u, ec_path = path, ec_status = CsOpen, ec_priority = priority_of (sg_confidence signal),
      ec_stages_completed = [initial_stage path], ec_evidence = [sg_evidence_hash signal],
      ec_assignee = None, ec_created = now_utc wall\<rparr>"

definition advance_sybil_stage ::
  "escalation_case \<Rightarrow> sybil_stage \<Rightarrow> (escalation_case, escalation_error) result" where
  "advance_sybil_stage c stage =
     (if ec_path c \<noteq> SybilAdjudication
      then Err (EsInvalidStateTransition (escalation_path_name (ec_path c)) (sybil_stage_name stage))
      else Ok (c\<lparr>ec_stages_completed := ec_stages_completed c @ [sybil_stage_name stage],
                 ec_status := (if stage = SyAuditLog then CsResolved else CsInProgress)\<rparr>))"

section \<open>The kanban board\<close>

datatype kanban_column = Backlog | KbInProgress | Review | KbResolved | KbArchived

fun column_rank :: "kanban_column \<Rightarrow> nat" where
  "column_rank Backlog = 0"
| "column_rank KbInProgress = 1"
| "column_rank Review = 2"
| "column_rank KbResolved = 3"
| "column_rank KbArchived = 4"

lemma column_rank_inject: "column_rank a = column_rank b \<longleftrightarrow> a = b"
  by (cases a; cases b) simp_all

instantiation kanban_column :: linorder
begin

definition less_eq_kanban_column :: "kanban_column \<Rightarrow> kanban_column \<Rightarrow> bool" where
  "less_eq_kanban_column a b = (column_rank a \<le> column_rank b)"

definition less_kanban_column :: "kanban_column \<Rightarrow> kanban_column \<Rightarrow> bool" where
  "less_kanban_column a b = (column_rank a < column_rank b)"

instance
  by standard (auto simp: less_eq_kanban_column_def less_kanban_column_def column_rank_inject)

end

fun kanban_column_name :: "kanban_column \<Rightarrow> string" where
  "kanban_column_name Backlog = ''Backlog''"
| "kanban_column_name KbInProgress = ''InProgress''"
| "kanban_column_name Review = ''Review''"
| "kanban_column_name KbResolved = ''Resolved''"
| "kanban_column_name KbArchived = ''Archived''"

record kanban_board =
  kb_columns :: "(kanban_column, escalation_case list) btree_map"

definition kb_new :: kanban_board where
  "kb_new =
     \<lparr>kb_columns = bm_insert KbArchived [] (bm_insert KbResolved [] (bm_insert Review []
        (bm_insert KbInProgress [] (bm_insert Backlog [] bm_empty))))\<rparr>"

definition kb_add_case :: "kanban_board \<Rightarrow> escalation_case \<Rightarrow> kanban_board" where
  "kb_add_case b c = b\<lparr>kb_columns := bm_upd_default [] (\<lambda>cs. cs @ [c]) Backlog (kb_columns b)\<rparr>"

definition total_cases :: "kanban_board \<Rightarrow> nat" where
  "total_cases b = sum_list (map length (bm_values (kb_columns b)))"

text \<open>The loop over the columns removes the first case with the identifier, from the first column that has one.\<close>

fun remove_case :: "uuid \<Rightarrow> escalation_case list \<Rightarrow> (escalation_case \<times> escalation_case list) option" where
  "remove_case u [] = None"
| "remove_case u (c # cs) =
     (if ec_id c = u then Some (c, cs) else map_option (\<lambda>(d, ds). (d, c # ds)) (remove_case u cs))"

fun take_case ::
  "uuid \<Rightarrow> (kanban_column \<times> escalation_case list) list \<Rightarrow> (kanban_column \<times> escalation_case \<times> escalation_case list) option" where
  "take_case u [] = None"
| "take_case u ((col, cs) # rest) =
     (case remove_case u cs of
        Some (c, cs') \<Rightarrow> Some (col, c, cs')
      | None \<Rightarrow> take_case u rest)"

definition move_case ::
  "(uuid \<Rightarrow> string) \<Rightarrow> kanban_board \<Rightarrow> uuid \<Rightarrow> kanban_column \<Rightarrow> (kanban_board, escalation_error) result" where
  "move_case show_uuid b u to =
     (case take_case u (entries (kb_columns b)) of
        None \<Rightarrow> Err (CaseNotFound (show_uuid u))
      | Some (col, c, cs') \<Rightarrow>
          Ok (b\<lparr>kb_columns := bm_upd_default [] (\<lambda>cs. cs @ [c]) to (bm_insert col cs' (kb_columns b))\<rparr>))"

text \<open>\<open>sort_by\<close> is stable, as \<open>sort_key\<close> is; the comparison is reversed.\<close>

definition cases_by_priority :: "kanban_board \<Rightarrow> escalation_case list" where
  "cases_by_priority b =
     sort_key (\<lambda>c. - int (priority_rank (ec_priority c))) (concat (bm_values (kb_columns b)))"

section \<open>Completeness\<close>

datatype completeness_result = Complete | Incomplete "string list"

definition sybil_required :: "sybil_stage list" where
  "sybil_required =
     [SyDetection, SyTriage, SyQuarantine, SyEvidentaryReview, SyClearanceDowngrade, SyReinstatement, SyAuditLog]"

definition missing_stages :: "escalation_case \<Rightarrow> string list" where
  "missing_stages c =
     (case ec_path c of
        SybilAdjudication \<Rightarrow>
          map (\<lambda>n. ''missing stage: '' @ n)
            (filter (\<lambda>n. n \<notin> set (ec_stages_completed c)) (map sybil_stage_name sybil_required))
      | StandardPath \<Rightarrow> (if ''intake'' \<in> set (ec_stages_completed c) then [] else [''missing stage: intake''])
      | EmergencyPath \<Rightarrow>
          (if ''emergency_activated'' \<in> set (ec_stages_completed c) then []
           else [''missing stage: emergency_activated''])
      | ConstitutionalPath \<Rightarrow>
          (if ''constitutional_review'' \<in> set (ec_stages_completed c) then []
           else [''missing stage: constitutional_review'']))"

definition check_completeness :: "escalation_case \<Rightarrow> completeness_result" where
  "check_completeness c =
     (let missing =
        (if ec_evidence c = [] then [''no evidence collected''] else []) @
        missing_stages c @
        (if (ec_status c = CsResolved \<or> ec_status c = CsClosed) \<and> ec_assignee c = None
         then [''resolved case has no assignee''] else [])
      in if missing = [] then Complete else Incomplete missing)"

section \<open>Feedback\<close>

record policy_recommendation =
  rec_description :: string
  rec_source_case_count :: nat
  rec_confidence :: u8

datatype feedback_outcome = TruePositive | FalsePositive | TrueNegative | FalseNegative | Inconclusive

record feedback_entry =
  fb_case_id :: uuid
  fb_outcome :: feedback_outcome
  fb_lessons_learned :: string
  fb_policy_recommendations :: "string list"

record feedback_log =
  fb_entries :: "feedback_entry list"

definition record_feedback :: "feedback_log \<Rightarrow> feedback_entry \<Rightarrow> feedback_log" where
  "record_feedback l e = l\<lparr>fb_entries := fb_entries l @ [e]\<rparr>"

text \<open>The loops over the entries and their recommendations, with the set of those already seen.\<close>

fun unseen :: "string set \<Rightarrow> string list \<Rightarrow> string list" where
  "unseen seen [] = []"
| "unseen seen (r # rs) = (if r \<in> seen then unseen seen rs else r # unseen (insert r seen) rs)"

definition apply_learnings :: "feedback_entry list \<Rightarrow> policy_recommendation list" where
  "apply_learnings feedbacks =
     (if feedbacks = [] then []
      else
        let false_positives = length (filter (\<lambda>f. fb_outcome f = FalsePositive) feedbacks);
            fp_rate = false_positives * 100 div length feedbacks;
            false_negatives = length (filter (\<lambda>f. fb_outcome f = FalseNegative) feedbacks)
        in (if 0 < false_positives \<and> 30 \<le> fp_rate
            then [\<lparr>rec_description =
                     ''High false positive rate '' @ em_dash @ '' consider raising confidence thresholds'',
                   rec_source_case_count = false_positives, rec_confidence = 80\<rparr>]
            else []) @
           (if 0 < false_negatives
            then [\<lparr>rec_description =
                     ''False negatives detected '' @ em_dash @ '' consider lowering detection thresholds'',
                   rec_source_case_count = false_negatives, rec_confidence = 70\<rparr>]
            else []) @
           map (\<lambda>r. \<lparr>rec_description = r, rec_source_case_count = 1, rec_confidence = 50\<rparr>)
             (unseen {} (concat (map fb_policy_recommendations feedbacks))))"

section \<open>More signals never lower the alarm\<close>

fun severity_rank :: "threat_severity \<Rightarrow> nat" where
  "severity_rank SevLow = 0"
| "severity_rank SevMedium = 1"
| "severity_rank SevHigh = 2"
| "severity_rank SevCritical = 3"

lemma le_fold_max: "k \<le> fold max ys a \<longleftrightarrow> k \<le> a \<or> (\<exists>y \<in> set ys. k \<le> y)" for k :: "'a::linorder"
  by (induction ys arbitrary: a) (auto simp: le_max_iff_disj)

lemma le_max_confidence: "0 < k \<Longrightarrow> k \<le> max_confidence xs \<longleftrightarrow> (\<exists>s \<in> set xs. k \<le> sg_confidence s)"
  by (auto simp: max_confidence_def le_fold_max)

lemma evaluate_signals_severity:
  "overall_severity (evaluate_signals xs) =
     (if list_ex (\<lambda>s. sg_type s = EmergencyCondition) xs \<or> 90 \<le> max_confidence xs then SevCritical
      else if list_ex (\<lambda>s. sg_type s = SybilSuspicion) xs \<and> 70 \<le> max_confidence xs \<or> 80 \<le> max_confidence xs
      then SevHigh
      else if 3 \<le> length xs \<or> 50 \<le> max_confidence xs then SevMedium
      else SevLow)"
proof (cases "xs = []")
  case False
  then show ?thesis by (simp only: evaluate_signals_def Let_def if_False) (simp split: prod.split)
qed (simp add: evaluate_signals_def max_confidence_def)

lemma severity_at_least:
  "1 \<le> severity_rank (overall_severity (evaluate_signals xs)) \<longleftrightarrow>
     3 \<le> length xs \<or> (\<exists>s \<in> set xs. 50 \<le> sg_confidence s \<or> sg_type s = EmergencyCondition)"
  "2 \<le> severity_rank (overall_severity (evaluate_signals xs)) \<longleftrightarrow>
     (\<exists>s \<in> set xs. 80 \<le> sg_confidence s \<or> sg_type s = EmergencyCondition) \<or>
     (\<exists>s \<in> set xs. 70 \<le> sg_confidence s) \<and> (\<exists>s \<in> set xs. sg_type s = SybilSuspicion)"
  "3 \<le> severity_rank (overall_severity (evaluate_signals xs)) \<longleftrightarrow>
     (\<exists>s \<in> set xs. 90 \<le> sg_confidence s \<or> sg_type s = EmergencyCondition)"
proof -
  have le: "\<exists>s \<in> set xs. l \<le> sg_confidence s"
    if "\<exists>s \<in> set xs. k \<le> sg_confidence s" "l \<le> k" for k l
    using that by (meson order_trans)
  have 5: "(\<exists>s \<in> set xs. 50 \<le> sg_confidence s)" if "(\<exists>s \<in> set xs. 70 \<le> sg_confidence s)"
    by (rule le [OF that]) simp
  have 7: "(\<exists>s \<in> set xs. 70 \<le> sg_confidence s)" if "(\<exists>s \<in> set xs. 80 \<le> sg_confidence s)"
    by (rule le [OF that]) simp
  have 8: "(\<exists>s \<in> set xs. 80 \<le> sg_confidence s)" if "(\<exists>s \<in> set xs. 90 \<le> sg_confidence s)"
    by (rule le [OF that]) simp
  have pos: "0 < (90 :: u8)" "0 < (80 :: u8)" "0 < (70 :: u8)" "0 < (50 :: u8)" by simp_all
  let ?r = "severity_rank (overall_severity (evaluate_signals xs))"
  let ?c = "\<lambda>k. \<exists>s \<in> set xs. k \<le> sg_confidence s" and ?t = "\<lambda>ty. \<exists>s \<in> set xs. sg_type s = ty"
  have r: "?r = (if ?t EmergencyCondition \<or> ?c 90 then 3
      else if ?t SybilSuspicion \<and> ?c 70 \<or> ?c 80 then 2
      else if 3 \<le> length xs \<or> ?c 50 then 1 else 0)"
    unfolding evaluate_signals_severity by (simp only: if_distrib [of severity_rank] severity_rank.simps
        list_ex_iff le_max_confidence pos)
  have rank: "1 \<le> (if e \<or> c9 then 3 else if y \<and> c7 \<or> c8 then 2 else if l \<or> c5 then 1 else (0 :: nat)) \<longleftrightarrow> l \<or> c5 \<or> e"
    "2 \<le> (if e \<or> c9 then 3 else if y \<and> c7 \<or> c8 then 2 else if l \<or> c5 then 1 else (0 :: nat)) \<longleftrightarrow> (c8 \<or> e) \<or> c7 \<and> y"
    "3 \<le> (if e \<or> c9 then 3 else if y \<and> c7 \<or> c8 then 2 else if l \<or> c5 then 1 else (0 :: nat)) \<longleftrightarrow> c9 \<or> e"
    if "c9 \<Longrightarrow> c8" "c8 \<Longrightarrow> c7" "c7 \<Longrightarrow> c5" for e c9 y c7 c8 l c5
    using that by auto
  show "1 \<le> ?r \<longleftrightarrow> 3 \<le> length xs \<or> (\<exists>s \<in> set xs. 50 \<le> sg_confidence s \<or> sg_type s = EmergencyCondition)"
    unfolding r bex_disj_distrib by (rule rank(1) [OF 8 7 5])
  show "2 \<le> ?r \<longleftrightarrow> (\<exists>s \<in> set xs. 80 \<le> sg_confidence s \<or> sg_type s = EmergencyCondition) \<or>
     (\<exists>s \<in> set xs. 70 \<le> sg_confidence s) \<and> (\<exists>s \<in> set xs. sg_type s = SybilSuspicion)"
    unfolding r bex_disj_distrib by (rule rank(2) [OF 8 7 5])
  show "3 \<le> ?r \<longleftrightarrow> (\<exists>s \<in> set xs. 90 \<le> sg_confidence s \<or> sg_type s = EmergencyCondition)"
    unfolding r bex_disj_distrib by (rule rank(3) [OF 8 7 5])
qed

text \<open>
  Detection and triage. The assessment depends on the signals as a multiset and only grows with
  them: with more signals, in whatever order, the severity is at least as high and the time to react at
  most as long. A human is called out and a shutdown ordered exactly when some signal is an emergency
  or has a confidence of 90 or more; nothing is left to the automatic level exactly when there are
  three signals or more, or an emergency, or a confidence of 50 or more.
\<close>

theorem detection_monotone:
  assumes "mset xs \<subseteq># mset ys"
  shows "severity_rank (overall_severity (evaluate_signals xs)) \<le> severity_rank (overall_severity (evaluate_signals ys)) \<and>
         tg_timeout (triage (evaluate_signals ys)) \<le> tg_timeout (triage (evaluate_signals xs)) \<and>
         (tg_level (triage (evaluate_signals xs)) = EmergencyHuman \<longleftrightarrow>
            (\<exists>s \<in> set xs. 90 \<le> sg_confidence s \<or> sg_type s = EmergencyCondition)) \<and>
         (TrShutdown \<in> set (tg_actions (triage (evaluate_signals xs))) \<longleftrightarrow>
            tg_level (triage (evaluate_signals xs)) = EmergencyHuman) \<and>
         (tg_level (triage (evaluate_signals xs)) \<noteq> Automatic \<longleftrightarrow>
            3 \<le> length xs \<or> (\<exists>s \<in> set xs. 50 \<le> sg_confidence s \<or> sg_type s = EmergencyCondition))"
proof -
  let ?x = "overall_severity (evaluate_signals xs)" and ?y = "overall_severity (evaluate_signals ys)"
  have sub: "set xs \<subseteq> set ys" "length xs \<le> length ys"
    using assms by (auto dest: mset_subset_eqD size_mset_mono simp flip: set_mset_mset size_mset)
  have up: "1 \<le> severity_rank ?x \<Longrightarrow> 1 \<le> severity_rank ?y" "2 \<le> severity_rank ?x \<Longrightarrow> 2 \<le> severity_rank ?y"
    "3 \<le> severity_rank ?x \<Longrightarrow> 3 \<le> severity_rank ?y"
    unfolding severity_at_least using sub by (meson le_trans subsetD)+
  then have mono: "severity_rank ?x \<le> severity_rank ?y" by (cases ?x) simp_all
  moreover have "tg_timeout (triage (evaluate_signals ys)) \<le> tg_timeout (triage (evaluate_signals xs))"
    using mono by (cases ?x; cases ?y) (simp_all add: triage_def less_eq_timestamp_def)
  moreover have "tg_level (triage (evaluate_signals xs)) = EmergencyHuman \<longleftrightarrow> 3 \<le> severity_rank ?x"
    and "TrShutdown \<in> set (tg_actions (triage (evaluate_signals xs))) \<longleftrightarrow> 3 \<le> severity_rank ?x"
    and "tg_level (triage (evaluate_signals xs)) \<noteq> Automatic \<longleftrightarrow> 1 \<le> severity_rank ?x"
    by (cases ?x; simp add: triage_def)+
  ultimately show ?thesis using severity_at_least [of xs] by simp
qed

definition sample_signal :: "signal_type \<Rightarrow> u8 \<Rightarrow> detection_signal" where
  "sample_signal ty c =
     \<lparr>sg_source = ''s'', sg_type = ty, sg_confidence = c, sg_evidence_hash = arr32_of [], sg_timestamp = TS_ZERO\<rparr>"

theorem detection_monotone_witness:
  "tg_level (triage (evaluate_signals [sample_signal EmergencyCondition 1])) = EmergencyHuman \<and>
   severity_rank (overall_severity (evaluate_signals [sample_signal EmergencyCondition 1])) \<le>
   severity_rank (overall_severity (evaluate_signals
     [sample_signal SybilSuspicion 10, sample_signal EmergencyCondition 1]))"
  using detection_monotone [of "[sample_signal EmergencyCondition 1]"
      "[sample_signal SybilSuspicion 10, sample_signal EmergencyCondition 1]"]
  by (simp add: sample_signal_def)

section \<open>The board keeps every case\<close>

definition kb_column :: "kanban_board \<Rightarrow> kanban_column \<Rightarrow> escalation_case list" where
  "kb_column b col = (case bm_get (kb_columns b) col of None \<Rightarrow> [] | Some cs \<Rightarrow> cs)"

definition kb_all :: "kanban_board \<Rightarrow> escalation_case list" where
  "kb_all b = concat (bm_values (kb_columns b))"

lemma mset_es_insert:
  assumes "ssorted (map fst es)"
  shows "mset (concat (map snd (es_insert k v es))) + mset (case map_of es k of None \<Rightarrow> [] | Some w \<Rightarrow> w) =
     mset (concat (map snd es)) + mset v"
  using assms
proof (induction k v es rule: es_insert.induct)
  case (2 k v k' v' es)
  have "k < k' \<Longrightarrow> map_of es k = None"
    using 2(2) by (auto simp: map_of_eq_None_iff dest: order.strict_trans)
  with 2 show ?case by (auto split: option.splits)
qed simp

lemma mset_kb_insert:
  "mset (concat (bm_values (bm_insert k v m))) + mset (case bm_get m k of None \<Rightarrow> [] | Some w \<Rightarrow> w) =
   mset (concat (bm_values m)) + mset v"
  unfolding bm_values_def by transfer (rule mset_es_insert)

lemma mset_kb_push:
  "mset (concat (bm_values (bm_upd_default [] (\<lambda>cs. cs @ [c]) k m))) = add_mset c (mset (concat (bm_values m)))"
  using mset_kb_insert [of k "(case bm_get m k of None \<Rightarrow> [] | Some w \<Rightarrow> w) @ [c]" m]
  by (simp add: bm_upd_default_def)

lemma remove_case_Some:
  "remove_case u cs = Some (c, cs') \<Longrightarrow> ec_id c = u \<and> mset cs = add_mset c (mset cs')"
  by (induction cs arbitrary: cs') (auto split: if_splits)

lemma remove_case_None: "remove_case u cs = None \<longleftrightarrow> u \<notin> ec_id ` set cs"
  by (induction cs) auto

lemma take_case_Some:
  "take_case u es = Some (col, c, cs') \<Longrightarrow> \<exists>cs. (col, cs) \<in> set es \<and> remove_case u cs = Some (c, cs')"
  by (induction es rule: take_case.induct) (auto split: option.splits)

lemma take_case_None: "take_case u es = None \<longleftrightarrow> u \<notin> ec_id ` set (concat (map snd es))"
proof (induction u es rule: take_case.induct)
  case (2 u col cs rest)
  then show ?case
    using remove_case_None [of u cs] by (cases "remove_case u cs") (auto simp: image_Un)
qed simp

lemma move_case_Ok:
  assumes "move_case show_uuid b u to = Inr b'"
  shows "\<exists>c. ec_id c = u \<and> c \<in> set (kb_column b' to) \<and> mset (kb_all b') = mset (kb_all b)"
proof -
  obtain col c cs' where t: "take_case u (entries (kb_columns b)) = Some (col, c, cs')"
    and b': "kb_columns b' = bm_upd_default [] (\<lambda>cs. cs @ [c]) to (bm_insert col cs' (kb_columns b))"
    using assms by (auto simp: move_case_def split: option.splits)
  from take_case_Some [OF t] obtain cs where cs: "bm_get (kb_columns b) col = Some cs" "remove_case u cs = Some (c, cs')"
    by (auto simp: set_entries)
  note rm = remove_case_Some [OF cs(2)]
  have "mset (kb_all b') = mset (kb_all b)"
    using mset_kb_insert [of col cs' "kb_columns b"] rm by (simp add: kb_all_def b' mset_kb_push cs(1))
  then show ?thesis using rm by (auto simp: kb_column_def b')
qed

lemma move_case_Err:
  "move_case show_uuid b u to = Inl e \<longleftrightarrow> e = CaseNotFound (show_uuid u) \<and> u \<notin> ec_id ` set (kb_all b)"
proof -
  have "take_case u (entries (kb_columns b)) = None \<longleftrightarrow> u \<notin> ec_id ` set (kb_all b)"
    unfolding take_case_None by (simp add: kb_all_def bm_values_def)
  then show ?thesis unfolding move_case_def by (auto split: option.splits)
qed

text \<open>The boards that can arise, with the cases added so far.\<close>

inductive kb_reach :: "(uuid \<Rightarrow> string) \<Rightarrow> escalation_case list \<Rightarrow> kanban_board \<Rightarrow> bool"
  for show_uuid :: "uuid \<Rightarrow> string" where
  kb_start: "kb_reach show_uuid [] kb_new"
| kb_add: "kb_reach show_uuid cs b \<Longrightarrow> kb_reach show_uuid (cs @ [c]) (kb_add_case b c)"
| kb_move: "kb_reach show_uuid cs b \<Longrightarrow> move_case show_uuid b u to = Inr b' \<Longrightarrow> kb_reach show_uuid cs b'"

lemma kb_reach_mset: "kb_reach show_uuid cs b \<Longrightarrow> mset (kb_all b) = mset cs"
proof (induction rule: kb_reach.induct)
  case kb_start
  have "mset (concat (bm_values (bm_insert k [] m))) = mset (concat (bm_values m))"
    if "bm_get m k = None" for k :: kanban_column and m :: "(kanban_column, escalation_case list) btree_map"
    using mset_kb_insert [of k "[]" m] that by simp
  moreover have "bm_values (bm_empty :: (kanban_column, escalation_case list) btree_map) = []"
    unfolding bm_values_def by transfer simp
  ultimately show ?case by (simp add: kb_all_def kb_new_def)
next
  case (kb_add cs b c)
  then show ?case by (simp add: kb_all_def kb_add_case_def mset_kb_push)
next
  case (kb_move cs b u to b')
  then show ?case using move_case_Ok by metis
qed

lemma distinct_concat_disjoint:
  "distinct (concat xss) \<Longrightarrow> i < length xss \<Longrightarrow> j < length xss \<Longrightarrow> x \<in> set (xss ! i) \<Longrightarrow> x \<in> set (xss ! j) \<Longrightarrow> i = j"
proof (induction xss arbitrary: i j)
  case (Cons xs xss)
  have "xss ! k \<in> set xss" if "k < length xss" for k using that by simp
  with Cons show ?case by (cases i; cases j) (auto simp: disjoint_iff)
qed simp

lemma kb_one_column:
  assumes "distinct (map ec_id (kb_all b))" and "c \<in> set (kb_column b col)" and "d \<in> set (kb_column b col')"
    and "ec_id c = ec_id d"
  shows "col = col'"
proof -
  let ?es = "entries (kb_columns b)"
  have "\<exists>i < length ?es. fst (?es ! i) = k \<and> x \<in> set (snd (?es ! i))" if "x \<in> set (kb_column b k)" for x k
  proof -
    from that obtain cs where "bm_get (kb_columns b) k = Some cs" "x \<in> set cs"
      by (cases "bm_get (kb_columns b) k") (auto simp: kb_column_def)
    then show ?thesis by (metis fst_conv in_set_conv_nth set_entries snd_conv)
  qed
  then obtain i j where ij: "i < length ?es" "fst (?es ! i) = col" "c \<in> set (snd (?es ! i))"
    "j < length ?es" "fst (?es ! j) = col'" "d \<in> set (snd (?es ! j))"
    using assms(2,3) by meson
  have "distinct (concat (map (\<lambda>e. map ec_id (snd e)) ?es))"
    using assms(1) by (simp add: kb_all_def bm_values_def map_concat comp_def)
  moreover have "ec_id c \<in> ec_id ` set (snd (?es ! i))" "ec_id c \<in> ec_id ` set (snd (?es ! j))"
    using ij(3,6) by (blast, metis assms(4) image_eqI)
  ultimately have "i = j"
    using distinct_concat_disjoint [of "map (\<lambda>e. map ec_id (snd e)) ?es" i j "ec_id c"] ij(1,4) by simp
  with ij show ?thesis by simp
qed

text \<open>
  C32: the board loses and invents no case. The cases on a board that can arise are those that were
  added, whatever the moves. A move fails exactly for an identifier that no added case has; otherwise,
  when identifiers are unique, the case is afterwards in the target column and in no other. The list by
  priority has the same cases, most urgent first, and keeps the order of the board among equals.
\<close>

theorem kanban_conserves_cases:
  assumes "kb_reach show_uuid cs b"
  shows "mset (concat (bm_values (kb_columns b))) = mset cs \<and> total_cases b = length cs \<and>
         (case move_case show_uuid b u to of
            Inl e \<Rightarrow> e = CaseNotFound (show_uuid u) \<and> u \<notin> ec_id ` set cs
          | Inr b' \<Rightarrow> mset (concat (bm_values (kb_columns b'))) = mset cs \<and> u \<in> ec_id ` set cs \<and>
              (distinct (map ec_id cs) \<longrightarrow> {col. u \<in> ec_id ` set (kb_column b' col)} = {to})) \<and>
         mset (cases_by_priority b) = mset cs \<and>
         sorted_wrt (\<lambda>c d. ec_priority d \<le> ec_priority c) (cases_by_priority b) \<and>
         filter (\<lambda>c. ec_priority c = p) (cases_by_priority b) =
           filter (\<lambda>c. ec_priority c = p) (concat (bm_values (kb_columns b)))"
proof (intro conjI)
  have all: "mset (kb_all b) = mset cs" by (rule kb_reach_mset [OF assms])
  then show 1: "mset (concat (bm_values (kb_columns b))) = mset cs" by (simp add: kb_all_def)
  have "total_cases b = length (concat (bm_values (kb_columns b)))"
    by (simp add: total_cases_def length_concat)
  then show "total_cases b = length cs" using 1 by (metis size_mset)
  have set: "set (kb_all b) = set cs" using all by (metis set_mset_mset)
  show "case move_case show_uuid b u to of
            Inl e \<Rightarrow> e = CaseNotFound (show_uuid u) \<and> u \<notin> ec_id ` set cs
          | Inr b' \<Rightarrow> mset (concat (bm_values (kb_columns b'))) = mset cs \<and> u \<in> ec_id ` set cs \<and>
              (distinct (map ec_id cs) \<longrightarrow> {col. u \<in> ec_id ` set (kb_column b' col)} = {to})"
  proof (cases "move_case show_uuid b u to")
    case (Inl e)
    then show ?thesis using move_case_Err [of show_uuid b u to e] set by simp
  next
    case (Inr b')
    from move_case_Ok [OF this] obtain c where c: "ec_id c = u" "c \<in> set (kb_column b' to)"
      and b': "mset (kb_all b') = mset cs" by (auto simp: all)
    have "u \<in> ec_id ` set cs"
      using move_case_Err [of show_uuid b u to "CaseNotFound (show_uuid u)"] Inr set by auto
    moreover have "{col. u \<in> ec_id ` set (kb_column b' col)} = {to}" if "distinct (map ec_id cs)"
    proof -
      have "distinct (map ec_id (kb_all b'))"
        using that b' by (metis mset_eq_imp_distinct_iff mset_map)
      with c show ?thesis by (auto dest: kb_one_column)
    qed
    ultimately show ?thesis using Inr b' by (simp add: kb_all_def)
  qed
  show "mset (cases_by_priority b) = mset cs" using 1 by (simp add: cases_by_priority_def)
  have "sorted (map (\<lambda>c. - int (priority_rank (ec_priority c))) (cases_by_priority b))"
    by (simp add: cases_by_priority_def)
  then show "sorted_wrt (\<lambda>c d. ec_priority d \<le> ec_priority c) (cases_by_priority b)"
    by (simp add: sorted_wrt_map less_eq_case_priority_def)
  show "filter (\<lambda>c. ec_priority c = p) (cases_by_priority b) =
      filter (\<lambda>c. ec_priority c = p) (concat (bm_values (kb_columns b)))"
    using sort_key_stable [of "\<lambda>c. - int (priority_rank (ec_priority c))" "- int (priority_rank p)"
        "concat (bm_values (kb_columns b))"]
    by (simp add: cases_by_priority_def priority_rank_inject)
qed

theorem kanban_conserves_cases_witness:
  "let c = escalate_signal 7 0 (sample_signal SybilSuspicion 90) SybilAdjudication
   in total_cases (kb_add_case kb_new c) = 1 \<and> cases_by_priority (kb_add_case kb_new c) = [c]"
proof -
  let ?c = "escalate_signal 7 0 (sample_signal SybilSuspicion 90) SybilAdjudication"
  have "kb_reach (\<lambda>_. ''u'') ([] @ [?c]) (kb_add_case kb_new ?c)" by (intro kb_reach.intros)
  from kanban_conserves_cases [OF this] show ?thesis by (simp add: Let_def)
qed

section \<open>Adjudication, completeness and feedback\<close>

text \<open>
  What a complete case is. For a Sybil case that means evidence, all seven stages, and an assignee once
  it is resolved or closed.
\<close>

lemma sybil_case_complete_iff:
  assumes "ec_path c = SybilAdjudication"
  shows "check_completeness c = Complete \<longleftrightarrow>
     ec_evidence c \<noteq> [] \<and> sybil_stage_name ` UNIV \<subseteq> set (ec_stages_completed c) \<and>
     (ec_status c = CsResolved \<or> ec_status c = CsClosed \<longrightarrow> ec_assignee c \<noteq> None)"
proof -
  have "set sybil_required = UNIV"
    using sybil_stage.exhaust by (auto simp: sybil_required_def)
  then have "missing_stages c = [] \<longleftrightarrow> sybil_stage_name ` UNIV \<subseteq> set (ec_stages_completed c)"
    using assms by (auto simp: missing_stages_def filter_empty_conv simp flip: \<open>set sybil_required = UNIV\<close>)
  then show ?thesis by (auto simp: check_completeness_def Let_def)
qed

text \<open>
  The order of the stages is not checked: a fresh Sybil case can be resolved by entering the audit log
  at once. The completeness check still reports the stages that were skipped.
\<close>

lemma sybil_stages_unordered:
  "\<exists>c'. advance_sybil_stage (escalate_signal u wall signal SybilAdjudication) SyAuditLog = Inr c' \<and>
        ec_status c' = CsResolved \<and> check_completeness c' \<noteq> Complete"
proof -
  let ?c = "escalate_signal u wall signal SybilAdjudication"
  obtain c' where c': "advance_sybil_stage ?c SyAuditLog = Inr c'" "ec_status c' = CsResolved"
    "ec_path c' = SybilAdjudication" "ec_stages_completed c' = [''Detection'', ''AuditLog'']"
    by (simp add: advance_sybil_stage_def escalate_signal_def)
  have "sybil_stage_name SyTriage \<notin> set (ec_stages_completed c')" using c'(4) by simp
  then have "check_completeness c' \<noteq> Complete"
    using sybil_case_complete_iff [OF c'(3)] by blast
  with c' show ?thesis by blast
qed

lemma unseen_correct:
  "distinct (unseen seen rs) \<and> set (unseen seen rs) = set rs - seen"
  by (induction rs arbitrary: seen) auto

text \<open>Each recommendation of the entries is reported exactly once.\<close>

lemma learnings_unique:
  assumes "feedbacks \<noteq> []"
  shows "\<exists>general specific. apply_learnings feedbacks = general @ specific \<and> length general \<le> 2 \<and>
           distinct (map rec_description specific) \<and>
           set (map rec_description specific) = \<Union> (set ` fb_policy_recommendations ` set feedbacks)"
proof -
  let ?rs = "unseen {} (concat (map fb_policy_recommendations feedbacks))"
  let ?mk = "\<lambda>r. \<lparr>rec_description = r, rec_source_case_count = 1, rec_confidence = (50 :: u8)\<rparr>"
  obtain general where g: "apply_learnings feedbacks = general @ map ?mk ?rs" "length general \<le> 2"
    using assms by (simp add: apply_learnings_def Let_def)
  have "map rec_description (map ?mk ?rs) = ?rs" by (simp add: comp_def)
  with g unseen_correct [of "{}" "concat (map fb_policy_recommendations feedbacks)"] show ?thesis
    by (intro exI [of _ general] exI [of _ "map ?mk ?rs"]) simp
qed

end
