(* ===== verification/Monitor.thy ===== *)
theory Monitor
  imports Combinator Crypto
begin

text \<open>
  Attestation and monitoring of \<open>src/crates/exo-gatekeeper\<close>: attestations of trusted execution
  environments under a policy (\<open>tee.rs\<close>), and the defences of the governance monitor, signed
  attestations, the circuit breaker and the human approval gate (\<open>governance_monitor.rs\<close>). The build
  feature \<open>allow-simulated-tee\<close> is an argument.
\<close>

section \<open>Attestation of execution environments\<close>

datatype tee_platform = Sgx | TrustZone | Sev | Simulated

fun tee_platform_name :: "tee_platform \<Rightarrow> string" where
  "tee_platform_name Sgx = ''Sgx''"
| "tee_platform_name TrustZone = ''TrustZone''"
| "tee_platform_name Sev = ''Sev''"
| "tee_platform_name Simulated = ''Simulated''"

datatype tee_environment = TeeProduction | TeeTesting

record tee_attestation =
  tee_att_platform :: tee_platform
  tee_att_measurement_hash :: arr32
  tee_att_timestamp :: u64
  tee_att_signature :: bytes

record tee_policy =
  accepted_platforms :: "tee_platform list"
  required_measurements :: "arr32 list"
  max_age_ms :: u64
  current_time_ms :: u64
  tee_env :: tee_environment

definition tee_production :: tee_policy where
  "tee_production =
     \<lparr>accepted_platforms = [Sgx, TrustZone, Sev], required_measurements = [], max_age_ms = 0,
      current_time_ms = 0, tee_env = TeeProduction\<rparr>"

definition tee_testing :: tee_policy where
  "tee_testing =
     \<lparr>accepted_platforms = [Sgx, TrustZone, Sev, Simulated], required_measurements = [], max_age_ms = 0,
      current_time_ms = 0, tee_env = TeeTesting\<rparr>"

definition default_tee_policy :: tee_policy where
  "default_tee_policy = tee_production"

definition is_platform_allowed :: "bool \<Rightarrow> tee_platform \<Rightarrow> tee_policy \<Rightarrow> bool" where
  "is_platform_allowed allow_simulated platform policy =
     (if platform = Simulated \<and> \<not> allow_simulated \<and> tee_env policy = TeeProduction then False
      else platform \<in> set (accepted_platforms policy))"

definition tee_sig_input :: "arr32 \<Rightarrow> u64 \<Rightarrow> tee_platform \<Rightarrow> bytes" where
  "tee_sig_input measurement_hash timestamp platform =
     bytes32 measurement_hash @ to_le_bytes 8 timestamp @ str_bytes (tee_platform_name platform)"

definition generate_attestation :: "blake3 \<Rightarrow> tee_platform \<Rightarrow> bytes \<Rightarrow> u64 \<Rightarrow> tee_attestation" where
  "generate_attestation blake3 platform measurement timestamp =
     (let measurement_hash = blake3 measurement in
      \<lparr>tee_att_platform = platform, tee_att_measurement_hash = measurement_hash,
       tee_att_timestamp = timestamp,
       tee_att_signature = bytes32 (blake3 (tee_sig_input measurement_hash timestamp platform))\<rparr>)"

definition tee_verify_attestation ::
  "blake3 \<Rightarrow> bool \<Rightarrow> tee_attestation \<Rightarrow> tee_policy \<Rightarrow> (unit, gatekeeper_error) result" where
  "tee_verify_attestation blake3 allow_simulated a policy =
     (let age = saturating_sub (current_time_ms policy) (tee_att_timestamp a);
          expected = bytes32 (blake3 (tee_sig_input (tee_att_measurement_hash a) (tee_att_timestamp a) (tee_att_platform a)))
      in
      if \<not> is_platform_allowed allow_simulated (tee_att_platform a) policy
      then Err (TeeError (''Platform '' @ tee_platform_name (tee_att_platform a) @ '' is not accepted by policy''))
      else if required_measurements policy \<noteq> [] \<and> tee_att_measurement_hash a \<notin> set (required_measurements policy)
      then Err (TeeError ''Measurement hash does not match any required measurement'')
      else if tee_att_signature a = []
      then Err (TeeError ''Attestation signature is empty'')
      else if 0 < max_age_ms policy \<and> max_age_ms policy < age
      then Err (TeeError (''Attestation is too old: '' @ show_nat (unat age) @ '' ms (max: '' @
                  show_nat (unat (max_age_ms policy)) @ '' ms)''))
      else if tee_att_signature a \<noteq> expected
      then Err (TeeError ''Attestation signature verification failed'')
      else Ok ())"

section \<open>The governance monitor\<close>

record governance_attestation =
  ga_signer_did :: did
  ga_findings_digest :: hash256
  ga_signature :: signature

datatype governance_monitor_error =
    MissingAttestation
  | InvalidAttestation did
  | CircuitBreakerTripped u64 u64
  | HumanApprovalRequired string
  | ApproverNotHuman

definition gov_verify_attestation ::
  "crypto_prims \<Rightarrow> governance_attestation \<Rightarrow> public_key \<Rightarrow> (unit, governance_monitor_error) result" where
  "gov_verify_attestation prims a key =
     (if verify prims (hash_bytes (ga_findings_digest a)) (ga_signature a) key then Ok ()
      else Err (InvalidAttestation (ga_signer_did a)))"

definition CIRCUIT_BREAKER_THRESHOLD :: u64 where "CIRCUIT_BREAKER_THRESHOLD = 3"
definition CIRCUIT_BREAKER_WINDOW_MS :: u64 where "CIRCUIT_BREAKER_WINDOW_MS = 86400000"

record circuit_breaker =
  critical_timestamps :: "u64 list"
  cb_threshold :: u64
  cb_window_ms :: u64

definition cb_new :: circuit_breaker where
  "cb_new =
     \<lparr>critical_timestamps = [], cb_threshold = CIRCUIT_BREAKER_THRESHOLD, cb_window_ms = CIRCUIT_BREAKER_WINDOW_MS\<rparr>"

definition cb_with_thresholds :: "u64 \<Rightarrow> u64 \<Rightarrow> circuit_breaker" where
  "cb_with_thresholds th window =
     \<lparr>critical_timestamps = [], cb_threshold = th, cb_window_ms = window\<rparr>"

definition record_critical_findings :: "circuit_breaker \<Rightarrow> u64 \<Rightarrow> u64 \<Rightarrow> circuit_breaker" where
  "record_critical_findings cb ts n =
     cb\<lparr>critical_timestamps := critical_timestamps cb @ replicate (unat n) ts\<rparr>"

definition cb_check :: "circuit_breaker \<Rightarrow> u64 \<Rightarrow> (u64, governance_monitor_error) result" where
  "cb_check cb now =
     (let window_start = saturating_sub now (cb_window_ms cb);
          n = u64_of_count (length (filter (\<lambda>ts. window_start \<le> ts) (critical_timestamps cb)))
      in if cb_threshold cb < n then Err (CircuitBreakerTripped n (cb_threshold cb)) else Ok n)"

definition cb_evict_expired :: "circuit_breaker \<Rightarrow> u64 \<Rightarrow> circuit_breaker" where
  "cb_evict_expired cb now =
     (let window_start = saturating_sub now (cb_window_ms cb)
      in cb\<lparr>critical_timestamps := filter (\<lambda>ts. window_start \<le> ts) (critical_timestamps cb)\<rparr>)"

datatype approval_status = ApPending | ApApproved did timestamp | ApRejected did timestamp

record approval_gate =
  ag_run_id :: string
  ag_status :: approval_status

definition ag_new :: "string \<Rightarrow> approval_gate" where
  "ag_new run = \<lparr>ag_run_id = run, ag_status = ApPending\<rparr>"

definition ag_approve ::
  "approval_gate \<Rightarrow> did \<Rightarrow> signer_type \<Rightarrow> timestamp \<Rightarrow> (approval_gate, governance_monitor_error) result" where
  "ag_approve g who signer ts =
     (if signer \<noteq> Human then Err ApproverNotHuman else Ok (g\<lparr>ag_status := ApApproved who ts\<rparr>))"

definition ag_reject ::
  "approval_gate \<Rightarrow> did \<Rightarrow> signer_type \<Rightarrow> timestamp \<Rightarrow> (approval_gate, governance_monitor_error) result" where
  "ag_reject g who signer ts =
     (if signer \<noteq> Human then Err ApproverNotHuman else Ok (g\<lparr>ag_status := ApRejected who ts\<rparr>))"

definition ag_is_approved :: "approval_gate \<Rightarrow> bool" where
  "ag_is_approved g = (case ag_status g of ApApproved _ _ \<Rightarrow> True | _ \<Rightarrow> False)"

definition ag_is_pending :: "approval_gate \<Rightarrow> bool" where
  "ag_is_pending g = (case ag_status g of ApPending \<Rightarrow> True | _ \<Rightarrow> False)"

definition requires_approval_gate :: "u64 \<Rightarrow> u64 \<Rightarrow> bool" where
  "requires_approval_gate critical high = (0 < critical \<or> 0 < high)"

section \<open>What attestation establishes\<close>

lemma if_Err_eq_Ok: "(if P then Inl e else r) = Inr a \<longleftrightarrow> \<not> P \<and> r = Inr a"
  by simp

lemma age_within:
  "\<not> 0 < m \<or> \<not> m < saturating_sub c t \<longleftrightarrow> m = 0 \<or> unat c \<le> unat t + unat m" for m c t :: u64
proof -
  have "m = 0 \<longleftrightarrow> unat m = 0" by (simp add: word_unat_eq_iff)
  then show ?thesis by (auto simp: word_less_nat_alt unat_saturating_sub linorder_not_less)
qed

text \<open>
  An attestation is accepted exactly when its platform is allowed, its measurement is one of the
  required ones if there are any, its age is within the limit if there is one, and its signature is the
  hash of its fields. In production a simulated platform passes only with the build feature.
\<close>

lemma tee_verify_iff:
  "tee_verify_attestation blake3 allow a policy = Ok () \<longleftrightarrow>
     tee_att_platform a \<in> set (accepted_platforms policy) \<and>
     (tee_att_platform a = Simulated \<and> tee_env policy = TeeProduction \<longrightarrow> allow) \<and>
     (required_measurements policy = [] \<or> tee_att_measurement_hash a \<in> set (required_measurements policy)) \<and>
     (max_age_ms policy = 0 \<or>
        unat (current_time_ms policy) \<le> unat (tee_att_timestamp a) + unat (max_age_ms policy)) \<and>
     tee_att_signature a =
       bytes32 (blake3 (tee_sig_input (tee_att_measurement_hash a) (tee_att_timestamp a) (tee_att_platform a)))"
proof -
  let ?sig = "bytes32 (blake3 (tee_sig_input (tee_att_measurement_hash a) (tee_att_timestamp a) (tee_att_platform a)))"
  have ne: "[] \<noteq> bytes32 x" for x by (metis length_bytes32 list.size(3) zero_neq_numeral)
  have plat: "is_platform_allowed allow (tee_att_platform a) policy \<longleftrightarrow>
      tee_att_platform a \<in> set (accepted_platforms policy) \<and>
      (tee_att_platform a = Simulated \<and> tee_env policy = TeeProduction \<longrightarrow> allow)"
    by (auto simp: is_platform_allowed_def)
  have sig: "tee_att_signature a \<noteq> [] \<and> R \<and> tee_att_signature a = ?sig \<longleftrightarrow> R \<and> tee_att_signature a = ?sig" for R
    by (metis ne)
  show ?thesis
    unfolding tee_verify_attestation_def Let_def if_Err_eq_Ok de_Morgan_conj not_not age_within
    unfolding plat using sig by (simp only: conj_assoc simp_thms)
qed

text \<open>
  The signature is a public hash of the attested fields and of nothing else, so whoever can compute it
  can claim any measurement: for every measurement hash there is an accepted attestation, and it may be
  dated in the future.
\<close>

lemma tee_attestation_forgeable:
  assumes "p \<in> set (accepted_platforms policy)" and "p \<noteq> Simulated"
    and "required_measurements policy = [] \<or> h \<in> set (required_measurements policy)"
    and "current_time_ms policy \<le> t"
  shows "\<exists>a. tee_att_measurement_hash a = h \<and> tee_att_timestamp a = t \<and> tee_att_platform a = p \<and>
             tee_verify_attestation blake3 allow a policy = Ok ()"
  using assms
  by (intro exI [of _ "\<lparr>tee_att_platform = p, tee_att_measurement_hash = h, tee_att_timestamp = t,
        tee_att_signature = bytes32 (blake3 (tee_sig_input h t p))\<rparr>"])
    (simp add: tee_verify_iff word_le_nat_alt)

lemma generated_attestation_verifies:
  "tee_verify_attestation blake3 allow (generate_attestation blake3 p measurement t) policy = Ok () \<longleftrightarrow>
     is_platform_allowed allow p policy \<and>
     (required_measurements policy = [] \<or> blake3 measurement \<in> set (required_measurements policy)) \<and>
     (max_age_ms policy = 0 \<or> unat (current_time_ms policy) \<le> unat t + unat (max_age_ms policy))"
  by (auto simp: tee_verify_iff generate_attestation_def is_platform_allowed_def Let_def)

section \<open>The circuit breaker\<close>

text \<open>
  The breakers that can arise: scans are recorded as they come (the list of their times and numbers of
  critical findings), and expired entries are evicted from time to time; \<open>e\<close> is the latest such time.
\<close>

inductive cb_reach :: "u64 \<Rightarrow> u64 \<Rightarrow> (u64 \<times> u64) list \<Rightarrow> u64 \<Rightarrow> circuit_breaker \<Rightarrow> bool"
  for th :: u64 and window :: u64 where
  cb_start: "cb_reach th window [] 0 (cb_with_thresholds th window)"
| cb_record: "cb_reach th window scans e cb \<Longrightarrow>
     cb_reach th window (scans @ [(ts, n)]) e (record_critical_findings cb ts n)"
| cb_evict: "cb_reach th window scans e cb \<Longrightarrow> e \<le> now \<Longrightarrow> cb_reach th window scans now (cb_evict_expired cb now)"

text \<open>The specification: the critical findings of the scans that lie in the window.\<close>

definition findings_in_window :: "u64 \<Rightarrow> (u64 \<times> u64) list \<Rightarrow> u64 \<Rightarrow> nat" where
  "findings_in_window window scans now =
     (\<Sum>(ts, n) \<leftarrow> scans. if unat now \<le> unat ts + unat window then unat n else 0)"

lemma window_start_le: "saturating_sub now w \<le> ts \<longleftrightarrow> unat now \<le> unat ts + unat w" for now w ts :: "'a::len word"
  by (auto simp: word_le_nat_alt unat_saturating_sub)

lemma length_filter_replicate: "length (filter P (replicate n x)) = (if P x then n else 0)"
  by (induction n) auto

lemma cb_reach_counts:
  "cb_reach th window scans e cb \<Longrightarrow>
     cb_threshold cb = th \<and> cb_window_ms cb = window \<and>
     (\<forall>now \<ge> e. length (filter (\<lambda>ts. unat now \<le> unat ts + unat window) (critical_timestamps cb)) =
        findings_in_window window scans now)"
proof (induction rule: cb_reach.induct)
  case cb_start
  then show ?case by (simp add: cb_with_thresholds_def findings_in_window_def)
next
  case (cb_record scans e cb ts n)
  then show ?case
    by (simp add: record_critical_findings_def findings_in_window_def length_filter_replicate)
next
  case (cb_evict scans e cb now)
  have "filter (\<lambda>ts. unat later \<le> unat ts + unat window) (filter (\<lambda>ts. unat now \<le> unat ts + unat window) xs) =
      filter (\<lambda>ts. unat later \<le> unat ts + unat window) xs" if "now \<le> later" for later and xs :: "u64 list"
    using that by (auto simp: word_le_nat_alt intro!: filter_cong)
  with cb_evict show ?case
    by (auto simp: cb_evict_expired_def window_start_le Let_def)
qed

text \<open>
  The circuit breaker. Whatever scans were recorded, in whatever order, and whenever expired
  entries were evicted, a check from the last eviction on trips exactly when the scans inside the window
  that ends at the time of the check had more critical findings than the threshold, and reports their
  number. Eviction is never visible. Numbers beyond the range of the counter are reported as its maximum.
\<close>

theorem circuit_breaker_exact:
  assumes "cb_reach th window scans e cb" and "e \<le> now"
  shows "cb_check cb now =
     (let n = min (findings_in_window window scans now) (2 ^ 64 - 1)
      in if unat th < n then Err (CircuitBreakerTripped (of_nat n) th) else Ok (of_nat n))"
proof -
  let ?n = "findings_in_window window scans now"
  have "length (filter (\<lambda>ts. saturating_sub now (cb_window_ms cb) \<le> ts) (critical_timestamps cb)) = ?n"
    and th: "cb_threshold cb = th"
    using cb_reach_counts [OF assms(1)] assms(2) by (simp_all add: window_start_le)
  then have check: "cb_check cb now =
      (if th < u64_of_count ?n then Err (CircuitBreakerTripped (u64_of_count ?n) th) else Ok (u64_of_count ?n))"
    by (simp add: cb_check_def)
  have count: "u64_of_count ?n = of_nat (min ?n (2 ^ 64 - 1))"
    by (auto simp: u64_of_count_def min_def)
  then have "unat (u64_of_count ?n) = min ?n (2 ^ 64 - 1)"
    by (simp add: unat_of_nat)
  then show ?thesis unfolding check Let_def word_less_nat_alt by (simp only: count)
qed

theorem circuit_breaker_exact_witness:
  "cb_check (cb_evict_expired (record_critical_findings (record_critical_findings
     (cb_with_thresholds 3 86400000) 1000 2) 90000000 4) 90000000) 90000000 = Err (CircuitBreakerTripped 4 3)"
proof -
  let ?cb = "record_critical_findings (record_critical_findings (cb_with_thresholds 3 86400000) 1000 2) 90000000 4"
  have "cb_reach 3 86400000 (([] @ [(1000, 2)]) @ [(90000000, 4)]) 90000000 (cb_evict_expired ?cb 90000000)"
    by (rule cb_evict [OF cb_record [OF cb_record [OF cb_start]]]) simp
  from circuit_breaker_exact [OF this, of 90000000] show ?thesis
    by (simp add: findings_in_window_def)
qed

text \<open>
  A decision at the approval gate is not final: a later call replaces it, so a rejected run can be
  approved afterwards. Only calls with the human signer type change the gate.
\<close>

lemma approval_not_final:
  "ag_reject g who Human ts = Ok g' \<Longrightarrow> \<exists>g''. ag_approve g' other Human ts' = Ok g'' \<and> ag_is_approved g''"
  "ag_approve g who (Ai d) ts = Err ApproverNotHuman" "ag_reject g who (Ai d) ts = Err ApproverNotHuman"
  by (auto simp: ag_approve_def ag_reject_def ag_is_approved_def)

end
