(* ===== verification/Legal.thy ===== *)
theory Legal
  imports Hash_Log
begin

text \<open>
  Legal rules of \<open>src/crates/exo-legal\<close>: evidence and its chain of custody (\<open>evidence.rs\<close>), privilege
  (\<open>privilege.rs\<close>), records and retention (\<open>records.rs\<close>), disclosure (\<open>conflict_disclosure.rs\<close>), discovery
  (\<open>ediscovery.rs\<close>), fiduciary duties (\<open>fiduciary.rs\<close>) and the safe-harbour workflow (\<open>dgcl144.rs\<close>). Fresh
  identifiers are arguments, and so is the Unicode lower-case mapping of the standard library.
\<close>

datatype legal_error =
    EvidenceNotFound uuid
  | LgCustodyChainBroken nat
  | CustodyTransferFailed string
  | NotAdmissible string
  | PrivilegeInvalid string
  | PrivilegeAlreadyAsserted uuid
  | FiduciaryViolation string
  | DiscoveryScopeTooBoard string
  | RetentionViolation string
  | DisclosureRequired string
  | LgConflictOfInterest string
  | RecordNotFound uuid
  | LgInvalidStateTransition string

section \<open>Evidence\<close>

datatype admissibility_status = Admissible | Challenged | Excluded | AdmPending

record custody_transfer =
  ct_from :: did
  ct_to :: did
  ct_timestamp :: timestamp
  ct_reason :: string

record evidence =
  ev_uuid :: uuid
  ev_type_tag :: string
  ev_hash :: hash256
  ev_creator :: did
  ev_time :: timestamp
  chain_of_custody :: "custody_transfer list"
  admissibility_status :: admissibility_status

definition create_evidence ::
  "blake3 \<Rightarrow> uuid \<Rightarrow> bytes \<Rightarrow> did \<Rightarrow> string \<Rightarrow> timestamp \<Rightarrow> (evidence, legal_error) result" where
  "create_evidence blake3 u data creator tag ts =
     (if ts = TS_ZERO
      then Err (LgInvalidStateTransition
             ''evidence timestamp must not be Timestamp::ZERO; provide a real HLC timestamp'')
      else Ok \<lparr>ev_uuid = u, ev_type_tag = tag, ev_hash = digest blake3 data, ev_creator = creator,
               ev_time = ts, chain_of_custody = [], admissibility_status = AdmPending\<rparr>)"

definition custodian :: "evidence \<Rightarrow> did" where
  "custodian e = (if chain_of_custody e = [] then ev_creator e else ct_to (last (chain_of_custody e)))"

definition next_custody_ms :: "evidence \<Rightarrow> u64" where
  "next_custody_ms e =
     (if chain_of_custody e = [] then physical_ms (ev_time e) + 1
      else physical_ms (ct_timestamp (last (chain_of_custody e))) + 1)"

definition transfer_custody :: "evidence \<Rightarrow> did \<Rightarrow> did \<Rightarrow> (evidence, legal_error) result" where
  "transfer_custody e from to =
     (if custodian e \<noteq> from
      then Err (CustodyTransferFailed
             (''current custodian is '' @ did_str (custodian e) @ '', not '' @ did_str from))
      else Ok (e\<lparr>chain_of_custody := chain_of_custody e @
                   [\<lparr>ct_from = from, ct_to = to, ct_timestamp = Timestamp (next_custody_ms e) 0,
                     ct_reason = ''custody transfer''\<rparr>]\<rparr>))"

fun verify_custody_loop :: "nat \<Rightarrow> did \<Rightarrow> custody_transfer list \<Rightarrow> (unit, legal_error) result" where
  "verify_custody_loop i expected [] = Ok ()"
| "verify_custody_loop i expected (t # ts) =
     (if ct_from t \<noteq> expected then Err (LgCustodyChainBroken i) else verify_custody_loop (i + 1) (ct_to t) ts)"

definition verify_chain_of_custody :: "evidence \<Rightarrow> (unit, legal_error) result" where
  "verify_chain_of_custody e = verify_custody_loop 0 (ev_creator e) (chain_of_custody e)"

section \<open>Privilege\<close>

datatype privilege_type = AttorneyClient | WorkProduct | Deliberative | TradeSecret

record privilege_assertion =
  pv_evidence_id :: uuid
  pv_type :: privilege_type
  pv_asserter :: did
  pv_basis :: string
  pv_timestamp :: timestamp

datatype privilege_challenge_status = PcPending | PcUpheld | PcOverruled

record privilege_challenge =
  pc_assertion_evidence_id :: uuid
  pc_challenger :: did
  pc_grounds :: string
  pc_status :: privilege_challenge_status
  pc_timestamp :: timestamp

definition assert_privilege :: "uuid \<Rightarrow> privilege_type \<Rightarrow> did \<Rightarrow> string \<Rightarrow> privilege_assertion" where
  "assert_privilege u ty asserter basis =
     \<lparr>pv_evidence_id = u, pv_type = ty, pv_asserter = asserter, pv_basis = basis, pv_timestamp = TS_ZERO\<rparr>"

definition challenge_privilege :: "privilege_assertion \<Rightarrow> did \<Rightarrow> string \<Rightarrow> privilege_challenge" where
  "challenge_privilege a challenger grounds =
     \<lparr>pc_assertion_evidence_id = pv_evidence_id a, pc_challenger = challenger, pc_grounds = grounds,
      pc_status = PcPending, pc_timestamp = TS_ZERO\<rparr>"

section \<open>Records\<close>

datatype disposition = DispActive | RetentionHold | PendingDestruction | Destroyed

text \<open>A \<open>Classification\<close> wraps a string and is ordered as it.\<close>

type_synonym classification = string

record legal_record =
  lr_uuid :: uuid
  lr_content_hash :: hash256
  lr_classification :: classification
  lr_retention_period_days :: u64
  lr_created :: timestamp
  lr_disposition :: disposition

record retention_policy =
  rp_rules :: "(classification, u64) btree_map"

definition rp_new :: retention_policy where
  "rp_new = \<lparr>rp_rules = bm_empty\<rparr>"

definition rp_add_rule :: "retention_policy \<Rightarrow> classification \<Rightarrow> u64 \<Rightarrow> retention_policy" where
  "rp_add_rule p c days = p\<lparr>rp_rules := bm_insert c days (rp_rules p)\<rparr>"

definition MS_PER_DAY :: u64 where "MS_PER_DAY = 86400000"

definition retain_record :: "retention_policy \<Rightarrow> timestamp \<Rightarrow> legal_record \<Rightarrow> legal_record" where
  "retain_record policy now r =
     (if lr_disposition r = Destroyed \<or> lr_disposition r = RetentionHold then r
      else
        let days = (case bm_get (rp_rules policy) (lr_classification r) of
                      Some d \<Rightarrow> d | None \<Rightarrow> lr_retention_period_days r);
            age = saturating_sub (physical_ms now) (physical_ms (lr_created r))
        in if saturating_mul days MS_PER_DAY \<le> age then r\<lparr>lr_disposition := PendingDestruction\<rparr> else r)"

definition apply_retention :: "legal_record list \<Rightarrow> retention_policy \<Rightarrow> timestamp \<Rightarrow> legal_record list" where
  "apply_retention records policy now = map (retain_record policy now) records"

definition create_legal_record :: "blake3 \<Rightarrow> uuid \<Rightarrow> bytes \<Rightarrow> string \<Rightarrow> u64 \<Rightarrow> legal_record" where
  "create_legal_record blake3 u data c days =
     \<lparr>lr_uuid = u, lr_content_hash = digest blake3 data, lr_classification = c,
      lr_retention_period_days = days, lr_created = TS_ZERO, lr_disposition = DispActive\<rparr>"

section \<open>Disclosure of conflicts\<close>

record conflict_disclosure =
  ds_declarant :: did
  ds_nature :: string
  ds_related_parties :: "did list"
  ds_timestamp :: timestamp
  ds_verified :: bool

definition REQUIRED_ACTIONS :: "string list" where
  "REQUIRED_ACTIONS = [''vote'', ''approve'', ''fund'', ''transfer'', ''delegate'', ''adjudicate'']"

definition require_disclosure :: "(string \<Rightarrow> string) \<Rightarrow> did \<Rightarrow> string \<Rightarrow> bool" where
  "require_disclosure to_lowercase actor action =
     (let lower = to_lowercase action in list_ex (\<lambda>k. str_contains lower k) REQUIRED_ACTIONS)"

definition file_disclosure :: "did \<Rightarrow> string \<Rightarrow> did list \<Rightarrow> conflict_disclosure" where
  "file_disclosure actor nat_str related =
     \<lparr>ds_declarant = actor, ds_nature = nat_str, ds_related_parties = related, ds_timestamp = TS_ZERO,
      ds_verified = False\<rparr>"

definition verify_disclosure :: "conflict_disclosure \<Rightarrow> conflict_disclosure" where
  "verify_disclosure d = d\<lparr>ds_verified := True\<rparr>"

section \<open>Discovery\<close>

record discovery_request =
  dq_requester :: did
  dq_scope :: string
  dq_date_range :: "timestamp \<times> timestamp"
  dq_custodians :: "did list"
  dq_search_terms :: "string list"

record discovery_response =
  dp_documents :: "evidence list"
  dp_privilege_log :: "privilege_assertion list"
  dp_production_hash :: hash256

definition discovery_matches :: "discovery_request \<Rightarrow> evidence \<Rightarrow> bool" where
  "discovery_matches rq ev =
     (let cust = dq_custodians rq = [] \<or> ev_creator ev \<in> set (dq_custodians rq);
          date = fst (dq_date_range rq) \<le> ev_time ev \<and> ev_time ev \<le> snd (dq_date_range rq);
          term = dq_search_terms rq = [] \<or> list_ex (\<lambda>t. str_contains (ev_type_tag ev) t) (dq_search_terms rq)
      in cust \<and> date \<and> term)"

definition discovery_search :: "blake3 \<Rightarrow> discovery_request \<Rightarrow> evidence list \<Rightarrow> discovery_response" where
  "discovery_search blake3 rq corpus =
     (let documents = filter (discovery_matches rq) corpus in
      \<lparr>dp_documents = documents, dp_privilege_log = [],
       dp_production_hash = Hash256 (blake3 (concat (map (\<lambda>d. hash_bytes (ev_hash d)) documents)))\<rparr>)"

section \<open>Fiduciary duties\<close>

datatype duty_type = DutyCare | DutyLoyalty | DutyGoodFaith | DutyDisclosure | DutyConfidentiality

record fiduciary_duty =
  fd_principal_did :: did
  fd_fiduciary_did :: did
  fd_type :: duty_type
  fd_scope :: string
  fd_created :: timestamp

record duty_entry =
  du_actor :: did
  du_action :: string
  du_timestamp :: timestamp
  du_beneficiary :: "did option"

datatype duty_compliance = DutyCompliant | DutyViolation "string list"

definition duty_reasons :: "fiduciary_duty \<Rightarrow> duty_entry list \<Rightarrow> string list" where
  "duty_reasons duty actions =
     (case fd_type duty of
        DutyCare \<Rightarrow>
          (if actions = [] then [''no actions '' @ em_dash @ '' duty of care requires diligence''] else [])
      | DutyLoyalty \<Rightarrow>
          concat (map (\<lambda>e. case du_beneficiary e of
              None \<Rightarrow> []
            | Some b \<Rightarrow> if b \<noteq> fd_principal_did duty \<and> du_actor e = fd_fiduciary_did duty
                       then [quoted (du_action e) @ '' benefits '' @ did_str b @ '' not principal''] else []) actions)
      | DutyGoodFaith \<Rightarrow>
          concat (map (\<lambda>e. if du_actor e \<noteq> fd_fiduciary_did duty
              then [quoted (du_action e) @ '' by '' @ did_str (du_actor e) @ '' not fiduciary''] else []) actions)
      | DutyDisclosure \<Rightarrow>
          (if \<not> list_ex (\<lambda>e. str_contains (du_action e) ''disclose'') actions then [''no disclosure found''] else [])
      | DutyConfidentiality \<Rightarrow>
          concat (map (\<lambda>e. if str_contains (du_action e) ''share'' \<or> str_contains (du_action e) ''publish''
              then [quoted (du_action e) @ '' violates confidentiality''] else []) actions))"

definition check_duty_compliance :: "fiduciary_duty \<Rightarrow> duty_entry list \<Rightarrow> duty_compliance" where
  "check_duty_compliance duty actions =
     (let reasons = duty_reasons duty actions in if reasons = [] then DutyCompliant else DutyViolation reasons)"

definition create_duty :: "did \<Rightarrow> did \<Rightarrow> duty_type \<Rightarrow> string \<Rightarrow> (fiduciary_duty, legal_error) result" where
  "create_duty owner fiduciary ty scope =
     (if owner = fiduciary then Err (FiduciaryViolation ''principal and fiduciary cannot be same'')
      else Ok \<lparr>fd_principal_did = owner, fd_fiduciary_did = fiduciary, fd_type = ty, fd_scope = scope,
               fd_created = TS_ZERO\<rparr>)"

section \<open>Safe harbour\<close>

datatype safe_harbor_path = BoardApproval | ShareholderApproval | FairnessProof

datatype safe_harbor_status =
    PendingDisclosure
  | DisclosureMade
  | VotingInProgress
  | ShVerified
  | ShFailed string

fun safe_harbor_status_debug :: "safe_harbor_status \<Rightarrow> string" where
  "safe_harbor_status_debug PendingDisclosure = ''PendingDisclosure''"
| "safe_harbor_status_debug DisclosureMade = ''DisclosureMade''"
| "safe_harbor_status_debug VotingInProgress = ''VotingInProgress''"
| "safe_harbor_status_debug ShVerified = ''Verified''"
| "safe_harbor_status_debug (ShFailed r) = ''Failed { reason: '' @ debug_string r @ '' }''"

record safe_harbor_disclosure =
  sd_disclosed_by :: did
  sd_material_facts :: string
  sd_disclosed_at :: timestamp
  sd_facts_hash :: hash256

record disinterested_vote =
  dv_voter :: did
  dv_approved :: bool
  dv_timestamp :: timestamp
  dv_independence_attestation :: bool

record fairness_evidence =
  fe_evaluator :: did
  fe_methodology :: string
  fe_conclusion :: string
  fe_evidence_hash :: hash256
  fe_evaluated_at :: timestamp

record interested_transaction =
  it_id :: uuid
  it_interested_party :: did
  it_interest_description :: string
  it_counterparty :: did
  it_terms_hash :: hash256
  it_initiated_at :: timestamp
  it_status :: safe_harbor_status
  it_path :: "safe_harbor_path option"
  it_disclosure :: "safe_harbor_disclosure option"
  it_votes :: "disinterested_vote list"
  it_fairness :: "fairness_evidence option"

definition initiate_safe_harbor ::
  "uuid \<Rightarrow> did \<Rightarrow> did \<Rightarrow> string \<Rightarrow> hash256 \<Rightarrow> safe_harbor_path \<Rightarrow> timestamp \<Rightarrow> (interested_transaction, legal_error) result" where
  "initiate_safe_harbor u party counterparty description terms path now =
     (if now = TS_ZERO
      then Err (LgInvalidStateTransition ''safe-harbor initiation requires a real timestamp'')
      else Ok \<lparr>it_id = u, it_interested_party = party, it_interest_description = description,
               it_counterparty = counterparty, it_terms_hash = terms, it_initiated_at = now,
               it_status = PendingDisclosure, it_path = Some path, it_disclosure = None, it_votes = [],
               it_fairness = None\<rparr>)"

definition complete_disclosure ::
  "blake3 \<Rightarrow> interested_transaction \<Rightarrow> did \<Rightarrow> string \<Rightarrow> timestamp \<Rightarrow> (interested_transaction, legal_error) result" where
  "complete_disclosure blake3 txn who facts now =
     (if it_status txn \<noteq> PendingDisclosure
      then Err (LgInvalidStateTransition
             (''expected PendingDisclosure, got '' @ safe_harbor_status_debug (it_status txn)))
      else Ok (txn\<lparr>it_disclosure := Some \<lparr>sd_disclosed_by = who, sd_material_facts = facts, sd_disclosed_at = now,
                                          sd_facts_hash = digest blake3 (str_bytes facts)\<rparr>,
                   it_status := DisclosureMade\<rparr>))"

definition record_disinterested_vote ::
  "interested_transaction \<Rightarrow> did \<Rightarrow> bool \<Rightarrow> timestamp \<Rightarrow> (interested_transaction, legal_error) result" where
  "record_disinterested_vote txn voter approved now =
     (if \<not> (it_status txn = DisclosureMade \<or> it_status txn = VotingInProgress)
      then Err (LgInvalidStateTransition
             (''expected DisclosureMade or VotingInProgress, got '' @ safe_harbor_status_debug (it_status txn)))
      else if voter = it_interested_party txn
      then Err (LgConflictOfInterest (did_str voter @ '' is the interested party and cannot vote''))
      else Ok (txn\<lparr>it_votes := it_votes txn @ [\<lparr>dv_voter = voter, dv_approved = approved, dv_timestamp = now,
                                              dv_independence_attestation = True\<rparr>],
                   it_status := VotingInProgress\<rparr>))"

definition verify_safe_harbor ::
  "interested_transaction \<Rightarrow> interested_transaction \<times> (unit, legal_error) result" where
  "verify_safe_harbor txn =
     (if it_disclosure txn = None
      then (txn, Err (DisclosureRequired ''safe-harbor verification requires prior disclosure''))
      else case it_path txn of
        None \<Rightarrow> (txn, Err (LgInvalidStateTransition ''no safe-harbor path specified''))
      | Some FairnessProof \<Rightarrow>
          (if it_fairness txn = None
           then (txn, Err (LgInvalidStateTransition ''FairnessProof path requires fairness evidence''))
           else (txn\<lparr>it_status := ShVerified\<rparr>, Ok ()))
      | Some _ \<Rightarrow>
          (if it_votes txn = []
           then (txn, Err (LgInvalidStateTransition ''no disinterested votes recorded''))
           else
             let approvals = length (filter dv_approved (it_votes txn));
                 total_votes = length (it_votes txn)
             in if approvals * 2 \<le> total_votes
                then (txn\<lparr>it_status := ShFailed (''insufficient approval: '' @ show_nat approvals @ ''/'' @ show_nat total_votes)\<rparr>,
                      Err (FiduciaryViolation (''safe-harbor failed: only '' @ show_nat approvals @ '' of '' @
                             show_nat total_votes @ '' disinterested votes approved'')))
                else (txn\<lparr>it_status := ShVerified\<rparr>, Ok ())))"

section \<open>The safe harbour is sound\<close>

text \<open>
  The workflow: the calls of the module in any order, and the public field for fairness evidence, which
  the caller fills in.
\<close>

inductive sh_reach :: "blake3 \<Rightarrow> interested_transaction \<Rightarrow> bool" for blake3 :: blake3 where
  sh_start: "initiate_safe_harbor u party other description terms path now = Inr txn \<Longrightarrow> sh_reach blake3 txn"
| sh_disclose: "sh_reach blake3 txn \<Longrightarrow> complete_disclosure blake3 txn who facts now = Inr txn' \<Longrightarrow> sh_reach blake3 txn'"
| sh_vote: "sh_reach blake3 txn \<Longrightarrow> record_disinterested_vote txn voter approved now = Inr txn' \<Longrightarrow> sh_reach blake3 txn'"
| sh_evidence: "sh_reach blake3 txn \<Longrightarrow> sh_reach blake3 (txn\<lparr>it_fairness := Some fe\<rparr>)"
| sh_verify: "sh_reach blake3 txn \<Longrightarrow> sh_reach blake3 (fst (verify_safe_harbor txn))"

definition approvals :: "interested_transaction \<Rightarrow> nat" where
  "approvals txn = length (filter dv_approved (it_votes txn))"

definition sh_inv :: "blake3 \<Rightarrow> interested_transaction \<Rightarrow> bool" where
  "sh_inv blake3 txn \<longleftrightarrow>
     it_path txn \<noteq> None \<and>
     (it_status txn = PendingDisclosure \<longleftrightarrow> it_disclosure txn = None) \<and>
     (\<forall>d. it_disclosure txn = Some d \<longrightarrow> sd_facts_hash d = digest blake3 (str_bytes (sd_material_facts d))) \<and>
     (it_disclosure txn = None \<longrightarrow> it_votes txn = []) \<and>
     (\<forall>v \<in> set (it_votes txn). dv_voter v \<noteq> it_interested_party txn) \<and>
     (it_status txn = ShVerified \<longrightarrow>
        (if it_path txn = Some FairnessProof then it_fairness txn \<noteq> None
         else length (it_votes txn) < 2 * approvals txn)) \<and>
     (\<forall>r. it_status txn = ShFailed r \<longrightarrow>
        it_path txn \<noteq> Some FairnessProof \<and> 2 * approvals txn \<le> length (it_votes txn))"

lemma verify_safe_harbor_cases:
  obtains (keep) e where "verify_safe_harbor txn = (txn, Inl e)"
  | (fails) r e where "verify_safe_harbor txn = (txn\<lparr>it_status := ShFailed r\<rparr>, Inl e)"
      "it_disclosure txn \<noteq> None" "it_path txn \<noteq> Some FairnessProof" "2 * approvals txn \<le> length (it_votes txn)"
  | (fair) "verify_safe_harbor txn = (txn\<lparr>it_status := ShVerified\<rparr>, Inr ())"
      "it_disclosure txn \<noteq> None" "it_path txn = Some FairnessProof" "it_fairness txn \<noteq> None"
  | (voted) "verify_safe_harbor txn = (txn\<lparr>it_status := ShVerified\<rparr>, Inr ())"
      "it_disclosure txn \<noteq> None" "it_path txn \<noteq> Some FairnessProof" "length (it_votes txn) < 2 * approvals txn"
proof (cases "it_disclosure txn = None \<or> it_path txn = None")
  case True
  then have "\<exists>e. verify_safe_harbor txn = (txn, Inl e)" by (auto simp: verify_safe_harbor_def)
  then show ?thesis using keep by blast
next
  case False
  then obtain d path where d: "it_disclosure txn = Some d" "it_path txn = Some path" by auto
  show ?thesis
  proof (cases "path = FairnessProof")
    case True
    show ?thesis
    proof (cases "it_fairness txn")
      case None
      show ?thesis by (rule keep) (simp add: verify_safe_harbor_def d True None)
    next
      case (Some f)
      show ?thesis by (rule fair) (simp_all add: verify_safe_harbor_def d True Some)
    qed
  next
    case False
    then have v: "verify_safe_harbor txn =
       (if it_votes txn = []
        then (txn, Err (LgInvalidStateTransition ''no disinterested votes recorded''))
        else if 2 * approvals txn \<le> length (it_votes txn)
        then (txn\<lparr>it_status := ShFailed (''insufficient approval: '' @ show_nat (approvals txn) @ ''/'' @
                                   show_nat (length (it_votes txn)))\<rparr>,
              Err (FiduciaryViolation (''safe-harbor failed: only '' @ show_nat (approvals txn) @ '' of '' @
                     show_nat (length (it_votes txn)) @ '' disinterested votes approved'')))
        else (txn\<lparr>it_status := ShVerified\<rparr>, Ok ()))"
      using d by (cases path) (simp_all add: verify_safe_harbor_def approvals_def Let_def mult.commute)
    consider "it_votes txn = []" | "it_votes txn \<noteq> []" "2 * approvals txn \<le> length (it_votes txn)"
      | "it_votes txn \<noteq> []" "length (it_votes txn) < 2 * approvals txn" by linarith
    then show ?thesis
    proof cases
      case 1
      show ?thesis by (rule keep) (simp add: v 1)
    next
      case 2
      show ?thesis by (rule fails) (simp_all add: v 2 d False)
    next
      case 3
      show ?thesis by (rule voted) (use 3 in \<open>simp_all add: v d False not_le\<close>)
    qed
  qed
qed

lemma sh_reach_inv: "sh_reach blake3 txn \<Longrightarrow> sh_inv blake3 txn"
proof (induction rule: sh_reach.induct)
  case (sh_start u party other description terms path now txn)
  then show ?case by (auto simp: initiate_safe_harbor_def sh_inv_def split: if_splits)
next
  case (sh_disclose txn who facts now txn')
  then show ?case by (auto simp: complete_disclosure_def sh_inv_def split: if_splits)
next
  case (sh_vote txn voter approved now txn')
  have "voter \<noteq> it_interested_party txn" "it_status txn \<noteq> PendingDisclosure"
    "txn' = txn\<lparr>it_votes := it_votes txn @ [\<lparr>dv_voter = voter, dv_approved = approved, dv_timestamp = now,
                                             dv_independence_attestation = True\<rparr>],
               it_status := VotingInProgress\<rparr>"
    using sh_vote.hyps(2) by (auto simp: record_disinterested_vote_def split: if_splits)
  with sh_vote.IH show ?case by (simp add: sh_inv_def)
next
  case (sh_evidence txn fe)
  then show ?case by (auto simp: sh_inv_def approvals_def)
next
  case (sh_verify txn)
  show ?case
  proof (cases rule: verify_safe_harbor_cases [of txn])
    case (keep e)
    then show ?thesis using sh_verify.IH by simp
  next
    case (fails r e)
    then show ?thesis using sh_verify.IH by (simp add: sh_inv_def approvals_def)
  next
    case fair
    then show ?thesis using sh_verify.IH by (simp add: sh_inv_def)
  next
    case voted
    then show ?thesis using sh_verify.IH by (simp add: sh_inv_def approvals_def)
  qed
qed

text \<open>
  C33: a verified safe harbour is earned. In every transaction that can arise, whenever the status is
  verified, the material facts have been disclosed and are bound by their hash, nobody voting was the
  interested party, and either strictly more than half of the recorded votes approved or, on the
  fairness path, there is fairness evidence. From then on disclosure and votes are refused and checking
  again confirms it. A failed one never becomes verified.
\<close>

theorem safe_harbor_sound:
  assumes "sh_reach blake3 txn"
  shows "list_all (\<lambda>v. dv_voter v \<noteq> it_interested_party txn) (it_votes txn) \<and>
         (case it_status txn of
            ShVerified \<Rightarrow>
              (\<exists>d. it_disclosure txn = Some d \<and> sd_facts_hash d = digest blake3 (str_bytes (sd_material_facts d))) \<and>
              (if it_path txn = Some FairnessProof then it_fairness txn \<noteq> None
               else length (it_votes txn) < 2 * length (filter dv_approved (it_votes txn))) \<and>
              isl (complete_disclosure blake3 txn who facts now) \<and>
              isl (record_disinterested_vote txn voter approved now) \<and>
              verify_safe_harbor txn = (txn, Ok ())
          | ShFailed _ \<Rightarrow>
              isl (complete_disclosure blake3 txn who facts now) \<and>
              isl (record_disinterested_vote txn voter approved now) \<and>
              it_status (fst (verify_safe_harbor txn)) \<noteq> ShVerified
          | _ \<Rightarrow> True)"
proof -
  note inv = sh_reach_inv [OF assms, unfolded sh_inv_def]
  have votes: "list_all (\<lambda>v. dv_voter v \<noteq> it_interested_party txn) (it_votes txn)"
    using inv by (simp add: list_all_iff)
  show ?thesis
  proof (cases "it_status txn")
    case ShVerified
    then have upd: "txn\<lparr>it_status := ShVerified\<rparr> = txn" by simp
    obtain d where d: "it_disclosure txn = Some d" using inv ShVerified by (cases "it_disclosure txn") auto
    have "verify_safe_harbor txn = (txn, Ok ())"
    proof (cases rule: verify_safe_harbor_cases [of txn])
      case (keep e)
      then show ?thesis
        using inv d ShVerified
        by (auto simp: verify_safe_harbor_def approvals_def Let_def split: safe_harbor_path.splits if_splits)
    next
      case (fails r e)
      then show ?thesis using inv ShVerified by simp
    qed (use upd in simp_all)
    then show ?thesis
      using inv votes d ShVerified
      by (auto simp: complete_disclosure_def record_disinterested_vote_def approvals_def)
  next
    case (ShFailed r)
    have "it_status (fst (verify_safe_harbor txn)) \<noteq> ShVerified"
      by (cases rule: verify_safe_harbor_cases [of txn]) (use inv ShFailed in auto)
    with ShFailed votes show ?thesis by (simp add: complete_disclosure_def record_disinterested_vote_def)
  qed (use votes in simp_all)
qed

definition sample_harbor :: interested_transaction where
  "sample_harbor =
     \<lparr>it_id = 1, it_interested_party = Did ''did:exo:p'', it_interest_description = ''stock'',
      it_counterparty = Did ''did:exo:c'', it_terms_hash = HASH_ZERO, it_initiated_at = Timestamp 5 0,
      it_status = ShVerified, it_path = Some BoardApproval,
      it_disclosure = Some \<lparr>sd_disclosed_by = Did ''did:exo:p'', sd_material_facts = ''holds stock'',
        sd_disclosed_at = Timestamp 6 0, sd_facts_hash = digest (\<lambda>_. arr32_of []) (str_bytes ''holds stock'')\<rparr>,
      it_votes = [\<lparr>dv_voter = Did ''did:exo:v'', dv_approved = True, dv_timestamp = Timestamp 7 0,
                   dv_independence_attestation = True\<rparr>],
      it_fairness = None\<rparr>"

lemma sample_harbor_reach: "sh_reach (\<lambda>_. arr32_of []) sample_harbor"
proof -
  let ?p = "Did ''did:exo:p''" and ?h = "\<lambda>_ :: bytes. arr32_of []"
  obtain t0 where t0: "initiate_safe_harbor 1 ?p (Did ''did:exo:c'') ''stock'' HASH_ZERO BoardApproval (Timestamp 5 0) = Inr t0"
    by (simp add: initiate_safe_harbor_def TS_ZERO_def)
  obtain t1 where t1: "complete_disclosure ?h t0 ?p ''holds stock'' (Timestamp 6 0) = Inr t1"
    using t0 by (auto simp: complete_disclosure_def initiate_safe_harbor_def TS_ZERO_def)
  obtain t2 where t2: "record_disinterested_vote t1 (Did ''did:exo:v'') True (Timestamp 7 0) = Inr t2"
    using t0 t1 by (auto simp: record_disinterested_vote_def complete_disclosure_def initiate_safe_harbor_def TS_ZERO_def)
  have "fst (verify_safe_harbor t2) = sample_harbor"
    using t0 t1 t2
    by (auto simp: verify_safe_harbor_def record_disinterested_vote_def complete_disclosure_def
        initiate_safe_harbor_def TS_ZERO_def sample_harbor_def)
  then show ?thesis by (metis sh_start [OF t0] sh_disclose [OF _ t1] sh_vote [OF _ t2] sh_verify)
qed

theorem safe_harbor_sound_witness:
  "it_status sample_harbor = ShVerified \<and> verify_safe_harbor sample_harbor = (sample_harbor, Ok ())"
  using safe_harbor_sound [OF sample_harbor_reach] by (simp add: sample_harbor_def)

text \<open>The same person may vote again and again, and each vote counts.\<close>

lemma repeated_votes_count:
  assumes "it_status txn = DisclosureMade" and "voter \<noteq> it_interested_party txn"
  shows "\<exists>t1 t2. record_disinterested_vote txn voter True now = Inr t1 \<and>
                 record_disinterested_vote t1 voter True now = Inr t2 \<and>
                 approvals t2 = approvals txn + 2"
  using assms by (auto simp: record_disinterested_vote_def approvals_def)

section \<open>Custody, retention and discovery\<close>

inductive ev_reach :: "blake3 \<Rightarrow> evidence \<Rightarrow> bool" for blake3 :: blake3 where
  ev_start: "create_evidence blake3 u data creator tag ts = Inr e \<Longrightarrow> ev_reach blake3 e"
| ev_transfer: "ev_reach blake3 e \<Longrightarrow> transfer_custody e from to = Inr e' \<Longrightarrow> ev_reach blake3 e'"

lemma verify_custody_append:
  "verify_custody_loop i d (ts @ [t]) = Ok () \<longleftrightarrow>
     verify_custody_loop i d ts = Ok () \<and> ct_from t = (if ts = [] then d else ct_to (last ts))"
  by (induction i d ts rule: verify_custody_loop.induct) auto

lemma verify_custody_broken:
  "verify_custody_loop i d ts = Err (LgCustodyChainBroken j) \<longleftrightarrow>
     i \<le> j \<and> j - i < length ts \<and> verify_custody_loop i d (take (j - i) ts) = Ok () \<and>
     verify_custody_loop i d (take (Suc (j - i)) ts) \<noteq> Ok ()"
proof (induction i d ts rule: verify_custody_loop.induct)
  case (2 i expected t ts)
  show ?case
  proof (cases "ct_from t = expected")
    case True
    show ?thesis
    proof (cases "j = i \<or> j < i")
      case True
      have "verify_custody_loop (Suc i) (ct_to t) ts \<noteq> Err (LgCustodyChainBroken j)"
        using 2 \<open>ct_from t = expected\<close> True by auto
      with \<open>ct_from t = expected\<close> True show ?thesis by auto
    next
      case False
      then obtain k where "j = Suc (i + k)" by (metis less_imp_Suc_add linorder_neqE_nat)
      with 2 \<open>ct_from t = expected\<close> show ?thesis by simp
    qed
  next
    case False
    then show ?thesis by (cases "j - i") auto
  qed
qed simp

text \<open>
  The chain of custody. Evidence that can arise through the calls always has a chain that
  verifies, from its creator to the current custodian; a transfer succeeds exactly when it is made by
  the current custodian, and then the receiver is the custodian and nothing else of the evidence
  changes. For any evidence whatever, a failing verification names the first transfer that was not made
  by the custodian of that time.
\<close>

theorem custody_of_evidence:
  assumes "ev_reach blake3 e"
  shows "verify_chain_of_custody e = Ok () \<and>
         (case transfer_custody e giver receiver of
            Inl err \<Rightarrow> custodian e \<noteq> giver \<and>
              err = CustodyTransferFailed (''current custodian is '' @ did_str (custodian e) @ '', not '' @ did_str giver)
          | Inr e' \<Rightarrow> custodian e = giver \<and> custodian e' = receiver \<and> verify_chain_of_custody e' = Ok () \<and>
              butlast (chain_of_custody e') = chain_of_custody e \<and> ev_hash e' = ev_hash e \<and> ev_creator e' = ev_creator e) \<and>
         (verify_chain_of_custody x = Err (LgCustodyChainBroken j) \<longleftrightarrow>
            j < length (chain_of_custody x) \<and>
            verify_chain_of_custody (x\<lparr>chain_of_custody := take j (chain_of_custody x)\<rparr>) = Ok () \<and>
            verify_chain_of_custody (x\<lparr>chain_of_custody := take (Suc j) (chain_of_custody x)\<rparr>) \<noteq> Ok ())"
proof (intro conjI)
  have step: "verify_chain_of_custody e' = Ok ()"
    if "verify_chain_of_custody e = Ok ()" "transfer_custody e a b = Inr e'" for e e' a b
    using that
    by (auto simp: transfer_custody_def verify_chain_of_custody_def custodian_def verify_custody_append
        split: if_splits)
  show ok: "verify_chain_of_custody e = Ok ()"
    using assms
  proof (induction rule: ev_reach.induct)
    case (ev_start u data creator tag ts e)
    then show ?case by (auto simp: create_evidence_def verify_chain_of_custody_def split: if_splits)
  next
    case (ev_transfer e a b e')
    then show ?case using step by blast
  qed
  show "case transfer_custody e giver receiver of
      Inl err \<Rightarrow> custodian e \<noteq> giver \<and>
        err = CustodyTransferFailed (''current custodian is '' @ did_str (custodian e) @ '', not '' @ did_str giver)
    | Inr e' \<Rightarrow> custodian e = giver \<and> custodian e' = receiver \<and> verify_chain_of_custody e' = Ok () \<and>
        butlast (chain_of_custody e') = chain_of_custody e \<and> ev_hash e' = ev_hash e \<and> ev_creator e' = ev_creator e"
    using step [OF ok, of giver receiver] by (auto simp: transfer_custody_def custodian_def)
  show "verify_chain_of_custody x = Err (LgCustodyChainBroken j) \<longleftrightarrow>
      j < length (chain_of_custody x) \<and>
      verify_chain_of_custody (x\<lparr>chain_of_custody := take j (chain_of_custody x)\<rparr>) = Ok () \<and>
      verify_chain_of_custody (x\<lparr>chain_of_custody := take (Suc j) (chain_of_custody x)\<rparr>) \<noteq> Ok ()"
    using verify_custody_broken [of 0 "ev_creator x" "chain_of_custody x" j]
    by (simp add: verify_chain_of_custody_def)
qed

theorem custody_of_evidence_witness:
  "\<exists>e. create_evidence (\<lambda>_. arr32_of []) 1 [] (Did ''did:exo:a'') ''log'' (Timestamp 9 0) = Ok e \<and>
       verify_chain_of_custody e = Ok () \<and>
       (case transfer_custody e (Did ''did:exo:a'') (Did ''did:exo:b'') of
          Inl _ \<Rightarrow> False | Inr e' \<Rightarrow> custodian e' = Did ''did:exo:b'')"
proof -
  obtain e where e: "create_evidence (\<lambda>_. arr32_of []) 1 [] (Did ''did:exo:a'') ''log'' (Timestamp 9 0) = Inr e"
    "custodian e = Did ''did:exo:a''"
    by (simp add: create_evidence_def TS_ZERO_def custodian_def)
  from custody_of_evidence [OF ev_start [OF e(1)], of "Did ''did:exo:a''" "Did ''did:exo:b''"] e
  show ?thesis by (auto split: sum.splits)
qed

text \<open>
  Retention: a record is marked for destruction exactly when it is neither destroyed nor on hold and
  its age has reached its period in milliseconds, the period of its class if the policy has one; the product
  saturates, so that a period beyond the range is never reached early. Records on hold are never touched,
  and applying a policy again at the same time changes nothing.
\<close>

lemma retention_exact:
  fixes policy r
  defines "days \<equiv> (case bm_get (rp_rules policy) (lr_classification r) of Some d \<Rightarrow> d | None \<Rightarrow> lr_retention_period_days r)"
  shows "retain_record policy now r =
     (if lr_disposition r \<notin> {Destroyed, RetentionHold} \<and>
         min (unat days * 86400000) (2 ^ 64 - 1) \<le> unat (physical_ms now) - unat (physical_ms (lr_created r))
      then r\<lparr>lr_disposition := PendingDestruction\<rparr> else r)"
    and "apply_retention (apply_retention rs policy now) policy now = apply_retention rs policy now"
proof -
  show "retain_record policy now r =
     (if lr_disposition r \<notin> {Destroyed, RetentionHold} \<and>
         min (unat days * 86400000) (2 ^ 64 - 1) \<le> unat (physical_ms now) - unat (physical_ms (lr_created r))
      then r\<lparr>lr_disposition := PendingDestruction\<rparr> else r)"
    by (simp add: retain_record_def days_def Let_def word_le_nat_alt unat_saturating_mul unat_saturating_sub
        MS_PER_DAY_def)
  have "retain_record policy now (retain_record policy now r) = retain_record policy now r" for r
    unfolding retain_record_def Let_def by (simp split: option.splits)
  then show "apply_retention (apply_retention rs policy now) policy now = apply_retention rs policy now"
    by (simp add: apply_retention_def)
qed

text \<open>The production hash fixes the hashes of the documents produced and their order.\<close>

lemma production_hash_binds:
  assumes "inj_on blake3 {concat (map (\<lambda>d. hash_bytes (ev_hash d)) (dp_documents (discovery_search blake3 rq c))),
                          concat (map (\<lambda>d. hash_bytes (ev_hash d)) (dp_documents (discovery_search blake3 rq' c')))}"
    and "dp_production_hash (discovery_search blake3 rq c) = dp_production_hash (discovery_search blake3 rq' c')"
  shows "map ev_hash (dp_documents (discovery_search blake3 rq c)) =
         map ev_hash (dp_documents (discovery_search blake3 rq' c'))"
proof -
  have "concat (map (\<lambda>d. hash_bytes (ev_hash d)) (dp_documents (discovery_search blake3 rq c))) =
      concat (map (\<lambda>d. hash_bytes (ev_hash d)) (dp_documents (discovery_search blake3 rq' c')))"
    by (rule inj_onD [OF assms(1)]) (use assms(2) in \<open>simp_all add: discovery_search_def Let_def\<close>)
  then have "concat (map hash_bytes (map ev_hash (dp_documents (discovery_search blake3 rq c)))) =
      concat (map hash_bytes (map ev_hash (dp_documents (discovery_search blake3 rq' c'))))"
    by (simp add: comp_def)
  then show ?thesis by (simp only: concat_hash_bytes_inject)
qed

text \<open>When an actor complies with each kind of duty.\<close>

lemma duty_compliance_iff:
  "check_duty_compliance duty actions = DutyCompliant \<longleftrightarrow>
     (case fd_type duty of
        DutyCare \<Rightarrow> actions \<noteq> []
      | DutyLoyalty \<Rightarrow> \<forall>e \<in> set actions. du_actor e = fd_fiduciary_did duty \<longrightarrow>
                        (case du_beneficiary e of None \<Rightarrow> True | Some b \<Rightarrow> b = fd_principal_did duty)
      | DutyGoodFaith \<Rightarrow> \<forall>e \<in> set actions. du_actor e = fd_fiduciary_did duty
      | DutyDisclosure \<Rightarrow> \<exists>e \<in> set actions. str_contains (du_action e) ''disclose''
      | DutyConfidentiality \<Rightarrow>
          \<forall>e \<in> set actions. \<not> str_contains (du_action e) ''share'' \<and> \<not> str_contains (du_action e) ''publish'')"
  by (auto simp: check_duty_compliance_def duty_reasons_def Let_def list_ex_iff
      split: duty_type.splits option.splits if_splits)

end
