(* ===== verification/Legal_Report.thy ===== *)
theory Legal_Report
  imports Legal Mcp Authority
begin

text \<open>
  Reporting of \<open>src/crates/exo-legal\<close>: the transparency report over the enforcement log
  (\<open>ai_transparency.rs\<close>), the mapping of the constitutional invariants to the NIST framework
  (\<open>nist_mapping.rs\<close>) and the compliance report (\<open>compliance_report.rs\<close>).
\<close>

section \<open>The transparency report\<close>

record ai_delegation_event =
  ad_delegator :: did
  ad_delegatee :: did
  ad_model_id :: string
  ad_granted_at :: timestamp
  ad_expires_at :: "timestamp option"
  ad_depth :: nat

record mcp_outcome_summary =
  mo_rule :: string
  mo_allowed :: u64
  mo_blocked :: u64
  mo_escalated :: u64

record ai_transparency_report =
  ar_tenant_id :: did
  ar_period_start :: timestamp
  ar_period_end :: timestamp
  ar_legal_jurisdiction :: string
  ar_ai_agent_action_count :: u64
  ar_ai_delegation_grants :: "ai_delegation_event list"
  ar_ai_delegation_revocations :: u64
  ar_mcp_rule_outcomes :: "mcp_outcome_summary list"

record report_params =
  rpa_tenant_id :: did
  rpa_period_start :: timestamp
  rpa_period_end :: timestamp
  rpa_legal_jurisdiction :: string
  rpa_mcp_log :: mcp_audit_log
  rpa_ai_delegation_grants :: "ai_delegation_event list"
  rpa_ai_delegation_revocations :: u64
  rpa_clearance_verified :: bool

definition in_period :: "timestamp \<Rightarrow> timestamp \<Rightarrow> mcp_audit_record \<Rightarrow> bool" where
  "in_period from to r = (from \<le> mr_timestamp r \<and> mr_timestamp r \<le> to)"

definition count_outcome :: "enforcement_outcome \<Rightarrow> u64 \<times> u64 \<times> u64 \<Rightarrow> u64 \<times> u64 \<times> u64" where
  "count_outcome oc = (\<lambda>(a, b, e). case oc of
      McpAllowed \<Rightarrow> (a + 1, b, e) | McpBlocked \<Rightarrow> (a, b + 1, e) | McpEscalated \<Rightarrow> (a, b, e + 1))"

definition count_record ::
  "mcp_audit_record \<Rightarrow> (string, u64 \<times> u64 \<times> u64) btree_map \<Rightarrow> (string, u64 \<times> u64 \<times> u64) btree_map" where
  "count_record r counts =
     bm_upd_default (0, 0, 0) (count_outcome (mr_outcome r)) (mcp_rule_name (mr_rule r)) counts"

definition aggregate_mcp_outcomes :: "mcp_audit_log \<Rightarrow> timestamp \<Rightarrow> timestamp \<Rightarrow> mcp_outcome_summary list" where
  "aggregate_mcp_outcomes log from to =
     (let counts = fold count_record (filter (in_period from to) log) bm_empty
      in map (\<lambda>(rule, (a, b, e)). \<lparr>mo_rule = rule, mo_allowed = a, mo_blocked = b, mo_escalated = e\<rparr>) (entries counts))"

definition generate_report :: "report_params \<Rightarrow> (ai_transparency_report, legal_error) result" where
  "generate_report p =
     (if \<not> rpa_clearance_verified p
      then Err (LgInvalidStateTransition
             (''AiTransparencyReport requires verified authority chain clearance; '' @
              ''call exo_authority::chain::verify_chain before generate_report''))
      else Ok
        \<lparr>ar_tenant_id = rpa_tenant_id p, ar_period_start = rpa_period_start p, ar_period_end = rpa_period_end p,
         ar_legal_jurisdiction = rpa_legal_jurisdiction p,
         ar_ai_agent_action_count =
           u64_of_count (length (filter (in_period (rpa_period_start p) (rpa_period_end p)) (rpa_mcp_log p))),
         ar_ai_delegation_grants = rpa_ai_delegation_grants p,
         ar_ai_delegation_revocations = rpa_ai_delegation_revocations p,
         ar_mcp_rule_outcomes = aggregate_mcp_outcomes (rpa_mcp_log p) (rpa_period_start p) (rpa_period_end p)\<rparr>)"

definition ai_delegation_event_from_link ::
  "did \<Rightarrow> did \<Rightarrow> delegatee_kind \<Rightarrow> timestamp \<Rightarrow> timestamp option \<Rightarrow> nat \<Rightarrow> ai_delegation_event option" where
  "ai_delegation_event_from_link delegator delegatee kind granted expires depth =
     (case kind of
        AiAgent m \<Rightarrow> Some \<lparr>ad_delegator = delegator, ad_delegatee = delegatee, ad_model_id = m,
                         ad_granted_at = granted, ad_expires_at = expires, ad_depth = depth\<rparr>
      | KindHuman \<Rightarrow> None
      | KindUnknown \<Rightarrow> None)"

section \<open>The NIST mapping\<close>

datatype nist_function = NistGovern | NistMap | NistMeasure | NistManage

fun nist_as_str :: "nist_function \<Rightarrow> string" where
  "nist_as_str NistGovern = ''Govern''"
| "nist_as_str NistMap = ''Map''"
| "nist_as_str NistMeasure = ''Measure''"
| "nist_as_str NistManage = ''Manage''"

record nist_mapping_entry =
  ne_invariant :: constitutional_invariant
  ne_exochain_label :: string
  ne_nist_functions :: "nist_function list"
  ne_nist_subcategories :: "string list"
  ne_regulatory_refs :: "string list"

record nist_mapping =
  nm_schema_version :: string
  nm_entries :: "nist_mapping_entry list"

definition nist_canonical :: nist_mapping where
  "nist_canonical =
     \<lparr>nm_schema_version = ''1.0.0'', nm_entries = [
        \<lparr>ne_invariant = HumanOverride, ne_exochain_label = ''HumanOversight'',
         ne_nist_functions = [NistGovern, NistManage], ne_nist_subcategories = [''GV.1'', ''GV.6'', ''MG.2''],
         ne_regulatory_refs =
           [''EU AI Act Art. 14 (Human oversight)'',
            ''GDPR Art. 22 (Automated decision-making)'',
            ''GDPR Art. 22(3) (Human intervention safeguards)'']\<rparr>,
        \<lparr>ne_invariant = ProvenanceVerifiable, ne_exochain_label = ''TransparencyAccountability'',
         ne_nist_functions = [NistGovern, NistMeasure], ne_nist_subcategories = [''GV.1'', ''MS.2'', ''MS.4''],
         ne_regulatory_refs =
           [''EU AI Act Art. 13 (Transparency '' @ em_dash @ '' high-risk AI)'',
            ''EU AI Act Art. 12 (Record-keeping)'',
            ''GDPR Art. 5(1)(f) (Integrity and confidentiality)'',
            ''GDPR Art. 30 (Records of processing activities)'']\<rparr>,
        \<lparr>ne_invariant = AuthorityChainValid, ne_exochain_label = ''DelegationGovernance'',
         ne_nist_functions = [NistGovern, NistMap], ne_nist_subcategories = [''GV.6'', ''MP.2'', ''MP.5''],
         ne_regulatory_refs =
           [''EU AI Act Art. 16 (Obligations of providers)'',
            ''EU AI Act Art. 26 (Obligations of deployers)'',
            ''GDPR Art. 5(2) (Accountability)'',
            ''GDPR Art. 28 (Processor obligations)'']\<rparr>,
        \<lparr>ne_invariant = SeparationOfPowers, ne_exochain_label = ''DemocraticLegitimacy'',
         ne_nist_functions = [NistGovern], ne_nist_subcategories = [''GV.1'', ''GV.4''],
         ne_regulatory_refs =
           [''EU AI Act Art. 9 (Risk management '' @ em_dash @ '' separation of roles)'',
            ''EU AI Act Art. 17 (Quality management system)'']\<rparr>,
        \<lparr>ne_invariant = ConsentRequiredInv, ne_exochain_label = ''DataSovereignty'',
         ne_nist_functions = [NistMap, NistManage], ne_nist_subcategories = [''MP.5'', ''MG.3''],
         ne_regulatory_refs =
           [''GDPR Art. 6 (Lawfulness of processing)'',
            ''GDPR Art. 7 (Conditions for consent)'',
            ''GDPR Art. 22 (Automated decision-making '' @ em_dash @ '' explicit consent)'']\<rparr>,
        \<lparr>ne_invariant = NoSelfGrant, ne_exochain_label = ''PrivilegeEscalationPrevention'',
         ne_nist_functions = [NistGovern, NistManage], ne_nist_subcategories = [''GV.1'', ''MG.2''],
         ne_regulatory_refs =
           [''EU AI Act Art. 9(7) (Risk management '' @ em_dash @ '' containment)'',
            ''EU AI Act Art. 14(4) (Human oversight '' @ em_dash @ '' stop capability)'']\<rparr>,
        \<lparr>ne_invariant = KernelImmutability, ne_exochain_label = ''ExistentialSafeguard'',
         ne_nist_functions = [NistGovern, NistManage], ne_nist_subcategories = [''GV.1'', ''MG.4''],
         ne_regulatory_refs =
           [''EU AI Act Art. 9 (Risk management '' @ em_dash @ '' systemic integrity)'',
            ''EU AI Act Annex IV (Technical documentation)'']\<rparr>,
        \<lparr>ne_invariant = QuorumLegitimate, ne_exochain_label = ''DualControl'',
         ne_nist_functions = [NistGovern, NistMeasure], ne_nist_subcategories = [''GV.1'', ''GV.4'', ''MS.2''],
         ne_regulatory_refs =
           [''EU AI Act Art. 17 (Quality management '' @ em_dash @ '' governance processes)'',
            ''EU AI Act Art. 9 (Risk management '' @ em_dash @ '' multi-actor verification)'']\<rparr>]\<rparr>"

definition entry_for :: "nist_mapping \<Rightarrow> constitutional_invariant \<Rightarrow> nist_mapping_entry option" where
  "entry_for m i = List.find (\<lambda>e. ne_invariant e = i) (nm_entries m)"

definition coverage_gaps :: "nist_mapping \<Rightarrow> constitutional_invariant list \<Rightarrow> constitutional_invariant list" where
  "coverage_gaps m invariants = filter (\<lambda>i. entry_for m i = None) invariants"

section \<open>The compliance report\<close>

datatype compliance_report_mode = FullMode | RedactedMode (redaction_salt: arr32)

datatype attestation_status = AsCompliant | AsGap | AsNotApplicable

fun attestation_status_name :: "attestation_status \<Rightarrow> string" where
  "attestation_status_name AsCompliant = ''Compliant''"
| "attestation_status_name AsGap = ''Gap''"
| "attestation_status_name AsNotApplicable = ''NotApplicable''"

fun invariant_debug :: "constitutional_invariant \<Rightarrow> string" where
  "invariant_debug SeparationOfPowers = ''SeparationOfPowers''"
| "invariant_debug ConsentRequiredInv = ''ConsentRequired''"
| "invariant_debug NoSelfGrant = ''NoSelfGrant''"
| "invariant_debug HumanOverride = ''HumanOverride''"
| "invariant_debug KernelImmutability = ''KernelImmutability''"
| "invariant_debug AuthorityChainValid = ''AuthorityChainValid''"
| "invariant_debug QuorumLegitimate = ''QuorumLegitimate''"
| "invariant_debug ProvenanceVerifiable = ''ProvenanceVerifiable''"

record invariant_attestation =
  ia_invariant :: string
  ia_exochain_label :: string
  ia_nist_functions :: "nist_function list"
  ia_nist_subcategories :: "string list"
  ia_status :: attestation_status
  ia_evidence_summary :: string
  ia_regulatory_refs :: "string list"

record compliance_report =
  cr_schema_version :: string
  cr_tenant_id :: did
  cr_generated_at :: timestamp
  cr_period_start :: timestamp
  cr_period_end :: timestamp
  cr_legal_jurisdiction :: string
  cr_report_mode :: string
  cr_attestations :: "invariant_attestation list"
  cr_report_hash :: arr32

definition redact_delegation_count :: "ai_transparency_report \<Rightarrow> compliance_report_mode \<Rightarrow> nat" where
  "redact_delegation_count r mode =
     (case mode of FullMode \<Rightarrow> length (ar_ai_delegation_grants r) | RedactedMode _ \<Rightarrow> length (ar_ai_delegation_grants r))"

fun derive_status_and_evidence ::
  "constitutional_invariant \<Rightarrow> ai_transparency_report \<Rightarrow> compliance_report_mode \<Rightarrow> attestation_status \<times> string" where
  "derive_status_and_evidence HumanOverride r mode =
     (AsCompliant,
      ''HumanOverride invariant enforced at kernel level (exo-gatekeeper). '' @
      ''Strategic/Constitutional DecisionClass requires human gate. '' @
      ''GDPR Art. 22 safeguard active.'')"
| "derive_status_and_evidence ProvenanceVerifiable r mode =
     (let n = (\<Sum>x \<leftarrow> ar_mcp_rule_outcomes r. mo_allowed x + mo_blocked x + mo_escalated x) in
      (AsCompliant,
       ''Hash-chained AuditLog provides tamper-evident provenance. '' @ show_nat (unat n) @
       '' MCP enforcement events recorded this period. BLAKE3 chain verified. GDPR Art. 5(1)(f) satisfied.''))"
| "derive_status_and_evidence AuthorityChainValid r mode =
     (AsCompliant,
      ''Authority chain verified for all actions. '' @ show_nat (redact_delegation_count r mode) @
      '' AI agent delegation grants recorded (DelegateeKind::AiAgent tagged). '' @
      show_nat (unat (ar_ai_delegation_revocations r)) @
      '' revocations. GDPR Art. 5(2) accountability chain intact.'')"
| "derive_status_and_evidence i r mode =
     (AsCompliant,
      invariant_debug i @ '' enforced synchronously by InvariantEngine::enforce_all(). '' @
      ''No violations recorded this period.'')"

definition build_attestation ::
  "constitutional_invariant \<Rightarrow> nist_mapping \<Rightarrow> ai_transparency_report \<Rightarrow> compliance_report_mode \<Rightarrow> invariant_attestation" where
  "build_attestation i m r mode =
     (let (label, functions, subs, refs) =
        (case entry_for m i of
           Some e \<Rightarrow> (ne_exochain_label e, ne_nist_functions e, ne_nist_subcategories e, ne_regulatory_refs e)
         | None \<Rightarrow> (invariant_debug i, [], [], []));
        (status, summary) = derive_status_and_evidence i r mode
      in \<lparr>ia_invariant = invariant_debug i, ia_exochain_label = label, ia_nist_functions = functions,
          ia_nist_subcategories = subs, ia_status = status, ia_evidence_summary = summary,
          ia_regulatory_refs = refs\<rparr>)"

definition ts_report_bytes :: "timestamp \<Rightarrow> bytes" where
  "ts_report_bytes t = to_le_bytes 8 (physical_ms t) @ to_le_bytes 4 (logical t)"

definition attestation_bytes :: "invariant_attestation \<Rightarrow> bytes" where
  "attestation_bytes a =
     str_bytes (ia_invariant a) @ str_bytes (ia_exochain_label a) @ str_bytes (ia_evidence_summary a) @
     str_bytes (attestation_status_name (ia_status a))"

definition hash_report_content ::
  "blake3 \<Rightarrow> did \<Rightarrow> timestamp \<Rightarrow> timestamp \<Rightarrow> timestamp \<Rightarrow> string \<Rightarrow> string \<Rightarrow> invariant_attestation list \<Rightarrow> arr32" where
  "hash_report_content blake3 tenant generated from to jurisdiction mode atts =
     blake3 (str_bytes (did_str tenant) @ ts_report_bytes generated @ ts_report_bytes from @ ts_report_bytes to @
       str_bytes jurisdiction @ str_bytes mode @ concat (map attestation_bytes atts))"

definition build_report ::
  "blake3 \<Rightarrow> ai_transparency_report \<Rightarrow> compliance_report_mode \<Rightarrow> timestamp \<Rightarrow> compliance_report" where
  "build_report blake3 r mode generated =
     (let atts = map (\<lambda>i. build_attestation i nist_canonical r mode) gate_invariants_all;
          report_mode = (case mode of FullMode \<Rightarrow> ''Full'' | RedactedMode _ \<Rightarrow> ''Redacted'')
      in \<lparr>cr_schema_version = ''1.0.0'', cr_tenant_id = ar_tenant_id r, cr_generated_at = generated,
          cr_period_start = ar_period_start r, cr_period_end = ar_period_end r,
          cr_legal_jurisdiction = ar_legal_jurisdiction r, cr_report_mode = report_mode,
          cr_attestations = atts,
          cr_report_hash = hash_report_content blake3 (ar_tenant_id r) generated (ar_period_start r)
            (ar_period_end r) (ar_legal_jurisdiction r) report_mode atts\<rparr>)"

definition hex_encode :: "bytes \<Rightarrow> string" where
  "hex_encode bs = concat (map (\<lambda>b. [hex_digit (unat b div 16), hex_digit (unat b mod 16)]) bs)"

definition redact_model_id :: "blake3 \<Rightarrow> did \<Rightarrow> string \<Rightarrow> compliance_report_mode \<Rightarrow> string" where
  "redact_model_id blake3 tenant m mode =
     (case mode of
        FullMode \<Rightarrow> m
      | RedactedMode salt \<Rightarrow> hex_encode (bytes32 (blake3 (str_bytes (did_str tenant) @ str_bytes m @ bytes32 salt))))"

section \<open>The reports say what was recorded\<close>

definition rule_count :: "mcp_audit_record list \<Rightarrow> string \<Rightarrow> enforcement_outcome \<Rightarrow> nat" where
  "rule_count rs rule oc = length (filter (\<lambda>r. mcp_rule_name (mr_rule r) = rule \<and> mr_outcome r = oc) rs)"

lemma count_records:
  "bm_get (fold count_record rs bm_empty) rule =
     (if rule \<in> mcp_rule_name ` mr_rule ` set rs
      then Some (of_nat (rule_count rs rule McpAllowed), of_nat (rule_count rs rule McpBlocked),
                 of_nat (rule_count rs rule McpEscalated))
      else None)"
proof (induction rs rule: rev_induct)
  case (snoc r rs)
  have zero: "rule_count rs rule oc = 0" if "rule \<notin> mcp_rule_name ` mr_rule ` set rs" for oc
    using that by (auto simp: rule_count_def filter_empty_conv)
  show ?case
  proof (cases "mcp_rule_name (mr_rule r) = rule")
    case True
    then show ?thesis
      using snoc zero by (cases "mr_outcome r") (auto simp: count_record_def count_outcome_def rule_count_def)
  next
    case False
    then show ?thesis using snoc by (auto simp: count_record_def rule_count_def)
  qed
qed simp

text \<open>
  The transparency report. It is refused exactly without clearance. Otherwise it lists the rules
  that were enforced in the period, each once and in order, each with the exact numbers of allowed,
  blocked and escalated enforcements in the period (modulo the range of the counter), and the number of
  all of them.
\<close>

theorem transparency_report_exact:
  "case generate_report p of
     Inl _ \<Rightarrow> \<not> rpa_clearance_verified p
   | Inr rep \<Rightarrow>
       let rs = filter (in_period (rpa_period_start p) (rpa_period_end p)) (rpa_mcp_log p)
       in rpa_clearance_verified p \<and>
          map mo_rule (ar_mcp_rule_outcomes rep) = sort_dedup (map (mcp_rule_name \<circ> mr_rule) rs) \<and>
          list_all (\<lambda>s. mo_allowed s = of_nat (rule_count rs (mo_rule s) McpAllowed) \<and>
                        mo_blocked s = of_nat (rule_count rs (mo_rule s) McpBlocked) \<and>
                        mo_escalated s = of_nat (rule_count rs (mo_rule s) McpEscalated)) (ar_mcp_rule_outcomes rep) \<and>
          unat (ar_ai_agent_action_count rep) = min (length rs) (2 ^ 64 - 1)"
proof (cases "rpa_clearance_verified p")
  case True
  let ?rs = "filter (in_period (rpa_period_start p) (rpa_period_end p)) (rpa_mcp_log p)"
  let ?counts = "fold count_record ?rs bm_empty"
  let ?sum = "\<lambda>(rule, (a, b, e)). \<lparr>mo_rule = rule, mo_allowed = a, mo_blocked = b, mo_escalated = e\<rparr>"
  have keys: "map mo_rule (map ?sum (entries ?counts)) = bm_keys ?counts"
    by (simp add: bm_keys_def comp_def case_prod_beta)
  have "bm_keys ?counts = sort_dedup (map (mcp_rule_name \<circ> mr_rule) ?rs)"
    by (rule ssorted_unique) (auto simp: set_bm_keys bm_contains_def count_records)
  moreover have "list_all (\<lambda>s. mo_allowed s = of_nat (rule_count ?rs (mo_rule s) McpAllowed) \<and>
      mo_blocked s = of_nat (rule_count ?rs (mo_rule s) McpBlocked) \<and>
      mo_escalated s = of_nat (rule_count ?rs (mo_rule s) McpEscalated)) (map ?sum (entries ?counts))"
    by (auto simp: list_all_iff set_entries count_records split: if_splits)
  moreover have "unat (u64_of_count (length ?rs)) = min (length ?rs) (2 ^ 64 - 1)"
    by (rule unat_u64_of_count)
  ultimately show ?thesis
    using True keys by (simp add: generate_report_def aggregate_mcp_outcomes_def Let_def)
qed (simp add: generate_report_def)

text \<open>Every invariant has exactly one entry of the mapping, so nothing is missing from a report.\<close>

lemma nist_mapping_covers:
  "coverage_gaps nist_canonical gate_invariants_all = []"
  "distinct (map ne_invariant (nm_entries nist_canonical))"
  "set (map ne_invariant (nm_entries nist_canonical)) = set gate_invariants_all"
  by (simp_all add: coverage_gaps_def entry_for_def nist_canonical_def gate_invariants_all_def insert_commute)

text \<open>
  A compliance report attests every invariant as compliant, whatever the period recorded, and nothing of
  it depends on which models were delegated to, in either mode.
\<close>

lemma compliance_unconditional:
  "ia_status a = AsCompliant" if "a \<in> set (cr_attestations (build_report blake3 r mode generated))"
proof -
  have "fst (derive_status_and_evidence i r mode) = AsCompliant" for i by (cases i) simp_all
  then have "ia_status (build_attestation i m r mode) = AsCompliant" for i m
    by (simp add: build_attestation_def split: prod.split) (metis fst_conv)
  with that show ?thesis by (auto simp: build_report_def Let_def)
qed

lemma report_hides_models:
  assumes "length grants = length (ar_ai_delegation_grants r)"
  shows "build_report blake3 (r\<lparr>ar_ai_delegation_grants := grants\<rparr>) mode generated = build_report blake3 r mode generated"
proof -
  have "redact_delegation_count (r\<lparr>ar_ai_delegation_grants := grants\<rparr>) mode = redact_delegation_count r mode"
    using assms by (simp add: redact_delegation_count_def split: compliance_report_mode.splits)
  then have "derive_status_and_evidence i (r\<lparr>ar_ai_delegation_grants := grants\<rparr>) mode = derive_status_and_evidence i r mode" for i
    by (cases i) simp_all
  then show ?thesis by (simp add: build_report_def build_attestation_def)
qed

text \<open>The hash of a report does not cover the functions, subcategories and references of its attestations.\<close>

lemma report_hash_partial:
  "hash_report_content blake3 tenant generated from to jurisdiction mode
     (map (\<lambda>a. a\<lparr>ia_nist_functions := f a, ia_nist_subcategories := g a, ia_regulatory_refs := h a\<rparr>) atts) =
   hash_report_content blake3 tenant generated from to jurisdiction mode atts"
proof -
  have "attestation_bytes (a\<lparr>ia_nist_functions := x, ia_nist_subcategories := y, ia_regulatory_refs := z\<rparr>) =
      attestation_bytes a" for a x y z
    by (simp add: attestation_bytes_def)
  then show ?thesis by (simp add: hash_report_content_def comp_def)
qed

end
