(* ===== verification/Proofs.thy ===== *)
theory Proofs
  imports Crypto
begin

text \<open>
  The crate \<open>src/crates/exo-proofs\<close>: constraint systems (\<open>circuit.rs\<close>), the hash-based stand-ins for SNARK
  and STARK proofs (\<open>snark.rs\<close>, \<open>stark.rs\<close>), inference proofs (\<open>zkml.rs\<close>) and the dispatcher
  (\<open>verifier.rs\<close>). A \<open>Circuit\<close> is its \<open>synthesize\<close> method. Stored indexes are \<open>usize\<close> at 64 bits, with the
  maximum as the index of the constant one; lengths are natural numbers. A panic is the result \<open>None\<close>.
\<close>

section \<open>Errors\<close>

datatype proof_error =
    ConstraintError string
  | ProofGenerationFailed string
  | VerificationFailed string
  | InvalidProofFormat string
  | SetupError string
  | InvalidWitness string
  | DeserializationError string

fun proof_error_display :: "proof_error \<Rightarrow> string" where
  "proof_error_display (ConstraintError s) = ''constraint system error: '' @ s"
| "proof_error_display (ProofGenerationFailed s) = ''proof generation failed: '' @ s"
| "proof_error_display (VerificationFailed s) = ''proof verification failed: '' @ s"
| "proof_error_display (InvalidProofFormat s) = ''invalid proof format: '' @ s"
| "proof_error_display (SetupError s) = ''setup error: '' @ s"
| "proof_error_display (InvalidWitness s) = ''invalid witness: '' @ s"
| "proof_error_display (DeserializationError s) = ''deserialization error: '' @ s"

definition map_err :: "('e \<Rightarrow> 'f) \<Rightarrow> ('a, 'e) result \<Rightarrow> ('a, 'f) result" where
  "map_err f r = map_sum f id r"

lemma map_err_simps [simp]: "map_err f (Inl e) = Inl (f e)" "map_err f (Inr a) = Inr a"
  by (simp_all add: map_err_def)

lemma map_err_eq_Ok [simp]: "map_err f r = Inr a \<longleftrightarrow> r = Inr a"
  by (cases r) simp_all

section \<open>Constraint systems\<close>

record cs_variable =
  var_index :: u64
  var_value :: "u64 option"

record linear_combination =
  lc_terms :: "(u64 \<times> u64) list"

definition lc_zero :: linear_combination where
  "lc_zero = \<lparr>lc_terms = []\<rparr>"

definition lc_from_variable :: "cs_variable \<Rightarrow> linear_combination" where
  "lc_from_variable v = \<lparr>lc_terms = [(1, var_index v)]\<rparr>"

definition lc_constant :: "u64 \<Rightarrow> linear_combination" where
  "lc_constant c = \<lparr>lc_terms = [(c, - 1)]\<rparr>"

definition lc_add_term :: "linear_combination \<Rightarrow> u64 \<Rightarrow> u64 \<Rightarrow> linear_combination" where
  "lc_add_term l coeff idx = l\<lparr>lc_terms := lc_terms l @ [(coeff, idx)]\<rparr>"

definition lc_value :: "u64 list \<Rightarrow> u64 \<Rightarrow> u64" where
  "lc_value vars idx =
     (if idx = - 1 then 1 else if unat idx < length vars then vars ! unat idx else 0)"

definition lc_evaluate :: "linear_combination \<Rightarrow> u64 list \<Rightarrow> u64" where
  "lc_evaluate l vars = foldl (\<lambda>acc (coeff, idx). acc + coeff * lc_value vars idx) 0 (lc_terms l)"

record r1cs_constraint =
  a_terms :: linear_combination
  b_terms :: linear_combination
  c_terms :: linear_combination

record constraint_system =
  cs_variables :: "cs_variable list"
  cs_constraints :: "r1cs_constraint list"
  cs_num_public_inputs :: nat
  cs_public_input_indices :: "u64 list"

definition r1cs_new :: constraint_system where
  "r1cs_new = \<lparr>cs_variables = [], cs_constraints = [], cs_num_public_inputs = 0, cs_public_input_indices = []\<rparr>"

definition cs_num_variables :: "constraint_system \<Rightarrow> nat" where
  "cs_num_variables cs = length (cs_variables cs)"

definition cs_num_constraints :: "constraint_system \<Rightarrow> nat" where
  "cs_num_constraints cs = length (cs_constraints cs)"

definition is_satisfied :: "constraint_system \<Rightarrow> bool" where
  "is_satisfied cs =
     (let vals = map (\<lambda>v. case var_value v of Some x \<Rightarrow> x | None \<Rightarrow> 0) (cs_variables cs)
      in list_all (\<lambda>c. lc_evaluate (a_terms c) vals * lc_evaluate (b_terms c) vals = lc_evaluate (c_terms c) vals)
           (cs_constraints cs))"

definition cs_allocate :: "constraint_system \<Rightarrow> u64 option \<Rightarrow> constraint_system \<times> cs_variable" where
  "cs_allocate cs val =
     (let v = \<lparr>var_index = of_nat (length (cs_variables cs)), var_value = val\<rparr>
      in (cs\<lparr>cs_variables := cs_variables cs @ [v]\<rparr>, v))"

definition cs_allocate_public :: "constraint_system \<Rightarrow> u64 option \<Rightarrow> constraint_system \<times> cs_variable" where
  "cs_allocate_public cs val =
     (let (cs', v) = cs_allocate cs val
      in (cs'\<lparr>cs_public_input_indices := cs_public_input_indices cs' @ [var_index v],
              cs_num_public_inputs := cs_num_public_inputs cs' + 1\<rparr>, v))"

definition cs_enforce ::
  "constraint_system \<Rightarrow> linear_combination \<Rightarrow> linear_combination \<Rightarrow> linear_combination \<Rightarrow> constraint_system" where
  "cs_enforce cs a b c =
     cs\<lparr>cs_constraints := cs_constraints cs @ [\<lparr>a_terms = a, b_terms = b, c_terms = c\<rparr>]\<rparr>"

type_synonym circuit = "constraint_system \<Rightarrow> (constraint_system, proof_error) result"

section \<open>SNARK\<close>

record proving_key =
  pk_num_variables :: nat
  pk_num_constraints :: nat
  pk_num_public_inputs :: nat
  pk_circuit_hash :: hash256

record verifying_key =
  vk_num_public_inputs :: nat
  vk_circuit_hash :: hash256

record snark_proof =
  sp_a :: arr32
  sp_b :: arr32
  sp_c :: arr32

definition usize_to_u64 :: "nat \<Rightarrow> (u64, proof_error) result" where
  "usize_to_u64 n =
     (if n < 2 ^ 64 then Ok (of_nat n) else Err (SetupError (''value '' @ show_nat n @ '' overflows u64'')))"

definition terms_bytes :: "linear_combination \<Rightarrow> bytes" where
  "terms_bytes l = concat (map (\<lambda>(coeff, idx). to_le_bytes 8 coeff @ to_le_bytes 8 idx) (lc_terms l))"

definition constraint_bytes :: "r1cs_constraint \<Rightarrow> bytes" where
  "constraint_bytes c =
     terms_bytes (a_terms c) @ str_bytes ''|'' @ terms_bytes (b_terms c) @ str_bytes ''|'' @
     terms_bytes (c_terms c) @ str_bytes ''#''"

definition compute_circuit_hash :: "blake3 \<Rightarrow> constraint_system \<Rightarrow> (hash256, proof_error) result" where
  "compute_circuit_hash blake3 cs =
     and_then (usize_to_u64 (cs_num_variables cs)) (\<lambda>nv.
     and_then (usize_to_u64 (cs_num_constraints cs)) (\<lambda>nc.
     and_then (usize_to_u64 (cs_num_public_inputs cs)) (\<lambda>np.
       Ok (Hash256 (blake3 (str_bytes ''snark:circuit:'' @ to_le_bytes 8 nv @ to_le_bytes 8 nc @ to_le_bytes 8 np @
             concat (map constraint_bytes (cs_constraints cs))))))))"

definition compute_proof_component :: "blake3 \<Rightarrow> string \<Rightarrow> hash256 \<Rightarrow> u64 list \<Rightarrow> arr32" where
  "compute_proof_component blake3 pre h witness =
     blake3 (str_bytes pre @ hash_bytes h @ concat (map (to_le_bytes 8) witness))"

definition compute_c_component :: "blake3 \<Rightarrow> hash256 \<Rightarrow> u64 list \<Rightarrow> arr32 \<Rightarrow> arr32 \<Rightarrow> arr32" where
  "compute_c_component blake3 h inputs a b =
     blake3 (str_bytes ''snark:c:verify:'' @ hash_bytes h @ concat (map (to_le_bytes 8) inputs) @ bytes32 a @ bytes32 b)"

definition snark_setup :: "blake3 \<Rightarrow> circuit \<Rightarrow> (proving_key \<times> verifying_key, proof_error) result" where
  "snark_setup blake3 circuit =
     and_then (map_err (\<lambda>e. SetupError (proof_error_display e)) (circuit r1cs_new)) (\<lambda>cs.
       if cs_num_constraints cs = 0 then Err (SetupError ''circuit has no constraints'')
       else and_then (map_err (\<lambda>e. SetupError (proof_error_display e)) (compute_circuit_hash blake3 cs)) (\<lambda>h.
         Ok (\<lparr>pk_num_variables = cs_num_variables cs, pk_num_constraints = cs_num_constraints cs,
              pk_num_public_inputs = cs_num_public_inputs cs, pk_circuit_hash = h\<rparr>,
             \<lparr>vk_num_public_inputs = cs_num_public_inputs cs, vk_circuit_hash = h\<rparr>)))"

definition with_witness :: "constraint_system \<Rightarrow> u64 list \<Rightarrow> constraint_system" where
  "with_witness cs witness =
     cs\<lparr>cs_variables := map2 (\<lambda>v w. v\<lparr>var_value := Some w\<rparr>) (cs_variables cs) witness\<rparr>"

text \<open>Reading the public inputs indexes the witness, which panics out of range.\<close>

definition public_values :: "constraint_system \<Rightarrow> u64 list \<Rightarrow> u64 list option" where
  "public_values cs witness =
     those (map (\<lambda>idx. if unat idx < length witness then Some (witness ! unat idx) else None)
       (cs_public_input_indices cs))"

definition snark_prove ::
  "blake3 \<Rightarrow> proving_key \<Rightarrow> circuit \<Rightarrow> u64 list \<Rightarrow> (snark_proof, proof_error) result option" where
  "snark_prove blake3 pk circuit witness =
     (case map_err (\<lambda>e. ProofGenerationFailed (proof_error_display e)) (circuit r1cs_new) of
        Inl e \<Rightarrow> Some (Err e)
      | Inr cs0 \<Rightarrow>
          if length witness \<noteq> cs_num_variables cs0
          then Some (Err (InvalidWitness (''expected '' @ show_nat (cs_num_variables cs0) @
                 '' witness values, got '' @ show_nat (length witness))))
          else
            let cs = with_witness cs0 witness in
            case map_err (\<lambda>e. ProofGenerationFailed (proof_error_display e)) (compute_circuit_hash blake3 cs) of
              Inl e \<Rightarrow> Some (Err e)
            | Inr h \<Rightarrow>
                if h \<noteq> pk_circuit_hash pk
                then Some (Err (ProofGenerationFailed ''circuit structure does not match proving key''))
                else if \<not> is_satisfied cs
                then Some (Err (ProofGenerationFailed ''witness does not satisfy constraints''))
                else
                  let a = compute_proof_component blake3 ''snark:a:'' h witness;
                      b = compute_proof_component blake3 ''snark:b:'' h witness
                  in map_option (\<lambda>inputs. Ok \<lparr>sp_a = a, sp_b = b, sp_c = compute_c_component blake3 h inputs a b\<rparr>)
                       (public_values cs witness))"

definition snark_verify :: "blake3 \<Rightarrow> verifying_key \<Rightarrow> snark_proof \<Rightarrow> u64 list \<Rightarrow> bool" where
  "snark_verify blake3 vk proof inputs =
     (if length inputs \<noteq> vk_num_public_inputs vk then False
      else sp_c proof = compute_c_component blake3 (vk_circuit_hash vk) inputs (sp_a proof) (sp_b proof))"

section \<open>STARK\<close>

record stark_config =
  field_size :: u64
  expansion_factor :: nat
  num_queries :: nat

definition stark_default_config :: stark_config where
  "stark_default_config = \<lparr>field_size = push_bit 31 1 - 1, expansion_factor = 4, num_queries = 8\<rparr>"

record stark_constraint =
  sc_name :: string
  sc_column_indices :: "nat list"
  sc_coefficients :: "(u64 \<times> u64) list"

record fri_proof =
  layer_commitments :: "hash256 list"
  query_values :: "u64 list list"

record stark_proof =
  st_trace_commitment :: hash256
  st_constraint_commitment :: hash256
  st_query_indices :: "nat list"
  st_fri_proof :: fri_proof
  st_config :: stark_config
  st_trace_length :: nat
  st_public_input_hash :: hash256

definition cell :: "u64 list \<Rightarrow> nat \<Rightarrow> u64" where
  "cell row i = (if i < length row then row ! i else 0)"

text \<open>
  The products wrap explicitly, the two additions are plain: they panic when overflow checks are on
  (the default of a debug build) and wrap when they are off (the release profile of the workspace).
  \<open>overflow_checks\<close> says which. A field of size zero panics at the first reduction.
\<close>

definition plain_add :: "bool \<Rightarrow> u64 \<Rightarrow> u64 \<Rightarrow> u64 option" where
  "plain_add overflow_checks a b =
     (if overflow_checks \<and> unat a + unat b \<ge> 2 ^ 64 then None else Some (a + b))"

fun evaluate_columns ::
  "bool \<Rightarrow> u64 list \<Rightarrow> u64 list \<Rightarrow> u64 \<Rightarrow> u64 \<Rightarrow> (nat \<times> u64 \<times> u64) list \<Rightarrow> u64 option" where
  "evaluate_columns oc cur nxt field acc [] = Some acc"
| "evaluate_columns oc cur nxt field acc ((col, (cc, nc)) # rest) =
     (case Option.bind (plain_add oc acc (cc * cell cur col)) (\<lambda>s. plain_add oc s (nc * cell nxt col)) of
        None \<Rightarrow> None
      | Some s \<Rightarrow> if field = 0 then None else evaluate_columns oc cur nxt field (s mod field) rest)"

definition evaluate_constraint :: "bool \<Rightarrow> stark_constraint \<Rightarrow> u64 list \<Rightarrow> u64 list \<Rightarrow> u64 \<Rightarrow> u64 option" where
  "evaluate_constraint oc c cur nxt field =
     evaluate_columns oc cur nxt field 0 (zip (sc_column_indices c) (sc_coefficients c))"

definition hash_row :: "blake3 \<Rightarrow> u64 list \<Rightarrow> hash256" where
  "hash_row blake3 row = Hash256 (blake3 (str_bytes ''stark:row:'' @ concat (map (to_le_bytes 8) row)))"

definition commit_trace :: "blake3 \<Rightarrow> u64 list list \<Rightarrow> hash256" where
  "commit_trace blake3 trace =
     Hash256 (blake3 (str_bytes ''stark:trace:'' @ concat (map (\<lambda>row. hash_bytes (hash_row blake3 row)) trace)))"

definition windows2 :: "'a list \<Rightarrow> ('a \<times> 'a) list" where
  "windows2 xs = zip xs (tl xs)"

definition constraint_values ::
  "bool \<Rightarrow> u64 list list \<Rightarrow> stark_constraint list \<Rightarrow> u64 \<Rightarrow> u64 list option" where
  "constraint_values oc trace constraints field =
     those (concat (map (\<lambda>(cur, nxt). map (\<lambda>c. evaluate_constraint oc c cur nxt field) constraints) (windows2 trace)))"

definition commit_constraints ::
  "bool \<Rightarrow> blake3 \<Rightarrow> u64 list list \<Rightarrow> stark_constraint list \<Rightarrow> u64 \<Rightarrow> hash256 option" where
  "commit_constraints oc blake3 trace constraints field =
     map_option (\<lambda>vs. Hash256 (blake3 (str_bytes ''stark:constraints:'' @ concat (map (to_le_bytes 8) vs))))
       (constraint_values oc trace constraints field)"

text \<open>\<open>u32::from_le_bytes\<close> of four bytes of the seed.\<close>

definition seed_index :: "bytes \<Rightarrow> nat \<Rightarrow> nat" where
  "seed_index seed i =
     (let b = (\<lambda>j. unat (seed ! (((i * 4) mod 32 + j) mod 32)))
      in b 0 + 256 * b 1 + 65536 * b 2 + 16777216 * b 3)"

text \<open>
  \<open>Vec::with_capacity\<close> panics when the requested bytes exceed \<open>isize::MAX\<close> (64-bit targets): an index
  takes 8 bytes and a hash 32. Running out of memory below that is outside the model.
\<close>

definition capacity_ok :: "nat \<Rightarrow> nat \<Rightarrow> bool" where
  "capacity_ok elem_size n \<longleftrightarrow> elem_size * n < 2 ^ 63"

definition derive_queries :: "blake3 \<Rightarrow> hash256 \<Rightarrow> hash256 \<Rightarrow> nat \<Rightarrow> nat \<Rightarrow> nat list option" where
  "derive_queries blake3 tc cc n trace_len =
     (if trace_len = 0 then Some []
      else
        let seed = bytes32 (blake3 (str_bytes ''stark:queries:'' @ hash_bytes tc @ hash_bytes cc))
        in if \<not> capacity_ok 8 n then None
           else Some (map (\<lambda>i. seed_index seed i mod trace_len) [0..<n]))"

definition compute_fri_base_commitment :: "blake3 \<Rightarrow> hash256 \<Rightarrow> hash256 \<Rightarrow> hash256" where
  "compute_fri_base_commitment blake3 tc cc =
     Hash256 (blake3 (str_bytes ''stark:fri:base:'' @ hash_bytes tc @ hash_bytes cc))"

definition fri_fold :: "blake3 \<Rightarrow> hash256 \<Rightarrow> hash256" where
  "fri_fold blake3 h = Hash256 (blake3 (str_bytes ''stark:fri:fold:'' @ hash_bytes h))"

fun fri_layers :: "blake3 \<Rightarrow> hash256 \<Rightarrow> nat \<Rightarrow> hash256 list" where
  "fri_layers blake3 current 0 = [current]"
| "fri_layers blake3 current (Suc n) = current # fri_layers blake3 (fri_fold blake3 current) n"

definition build_fri_proof ::
  "blake3 \<Rightarrow> u64 list list \<Rightarrow> nat list \<Rightarrow> stark_config \<Rightarrow> hash256 \<Rightarrow> hash256 \<Rightarrow> fri_proof option" where
  "build_fri_proof blake3 trace queries config tc cc =
     (if \<not> capacity_ok 32 (expansion_factor config) then None
      else Some
        \<lparr>layer_commitments =
           fri_layers blake3 (compute_fri_base_commitment blake3 tc cc) (expansion_factor config - 1),
         query_values = map (\<lambda>i. if i < length trace then trace ! i else []) queries\<rparr>)"

text \<open>The first violated constraint, window by window; a panic of the evaluation ends the loop.\<close>

fun check_constraints ::
  "bool \<Rightarrow> nat \<Rightarrow> u64 list \<Rightarrow> u64 list \<Rightarrow> u64 \<Rightarrow> stark_constraint list \<Rightarrow> (unit, proof_error) result option" where
  "check_constraints oc row cur nxt field [] = Some (Ok ())"
| "check_constraints oc row cur nxt field (c # cs) =
     (case evaluate_constraint oc c cur nxt field of
        None \<Rightarrow> None
      | Some v \<Rightarrow>
          if v \<noteq> 0
          then Some (Err (ProofGenerationFailed (''constraint '' @ quoted (sc_name c) @ '' not satisfied at row '' @ show_nat row)))
          else check_constraints oc row cur nxt field cs)"

fun check_windows ::
  "bool \<Rightarrow> nat \<Rightarrow> u64 \<Rightarrow> stark_constraint list \<Rightarrow> (u64 list \<times> u64 list) list \<Rightarrow> (unit, proof_error) result option" where
  "check_windows oc row field cs [] = Some (Ok ())"
| "check_windows oc row field cs ((cur, nxt) # ws) =
     (case check_constraints oc row cur nxt field cs of
        None \<Rightarrow> None
      | Some (Inl e) \<Rightarrow> Some (Inl e)
      | Some (Inr _) \<Rightarrow> check_windows oc (row + 1) field cs ws)"

definition prove_stark ::
  "bool \<Rightarrow> blake3 \<Rightarrow> u64 list list \<Rightarrow> stark_constraint list \<Rightarrow> stark_config \<Rightarrow>
     (stark_proof, proof_error) result option" where
  "prove_stark oc blake3 trace constraints config =
     (if trace = [] then Some (Err (ProofGenerationFailed ''empty trace''))
      else if length trace < 2 then Some (Err (ProofGenerationFailed ''trace must have at least 2 rows''))
      else if list_ex (\<lambda>row. length row \<noteq> length (hd trace)) trace
      then Some (Err (ProofGenerationFailed ''inconsistent column count''))
      else case check_windows oc 0 (field_size config) constraints (windows2 trace) of
        None \<Rightarrow> None
      | Some (Inl e) \<Rightarrow> Some (Inl e)
      | Some (Inr _) \<Rightarrow>
          (let tc = commit_trace blake3 trace in
           Option.bind (commit_constraints oc blake3 trace constraints (field_size config)) (\<lambda>cc.
           Option.bind (derive_queries blake3 tc cc (num_queries config) (length trace)) (\<lambda>queries.
           Option.bind (build_fri_proof blake3 trace queries config tc cc) (\<lambda>fri.
             Some (Ok \<lparr>st_trace_commitment = tc, st_constraint_commitment = cc, st_query_indices = queries,
                 st_fri_proof = fri, st_config = config,
                 st_trace_length = length trace, st_public_input_hash = hash_row blake3 (hd trace)\<rparr>))))))"

text \<open>The number of queries comes with the proof, so the verifier panics on a proof that asks for too many.\<close>

definition verify_stark :: "blake3 \<Rightarrow> stark_proof \<Rightarrow> u64 list \<Rightarrow> bool option" where
  "verify_stark blake3 proof inputs =
     map_option (\<lambda>expected.
       let layers = layer_commitments (st_fri_proof proof)
       in if expected \<noteq> st_query_indices proof then False
         else if layers = [] then False
         else if hash_row blake3 inputs \<noteq> st_public_input_hash proof then False
         else if hd layers \<noteq> compute_fri_base_commitment blake3 (st_trace_commitment proof) (st_constraint_commitment proof)
         then False
         else list_all (\<lambda>(h, h'). h' = fri_fold blake3 h) (windows2 layers))
       (derive_queries blake3 (st_trace_commitment proof) (st_constraint_commitment proof)
          (num_queries (st_config proof)) (st_trace_length proof))"

section \<open>Inference proofs\<close>

record model_commitment =
  mc_architecture_hash :: hash256
  mc_weights_hash :: hash256
  mc_version :: u64

definition mc_new :: "blake3 \<Rightarrow> bytes \<Rightarrow> bytes \<Rightarrow> u64 \<Rightarrow> model_commitment" where
  "mc_new blake3 architecture weights v =
     \<lparr>mc_architecture_hash = digest blake3 architecture, mc_weights_hash = digest blake3 weights, mc_version = v\<rparr>"

definition model_preimage :: "model_commitment \<Rightarrow> bytes" where
  "model_preimage m =
     str_bytes ''zkml:model:'' @ hash_bytes (mc_architecture_hash m) @ hash_bytes (mc_weights_hash m) @
     to_le_bytes 8 (mc_version m)"

definition commitment_hash :: "blake3 \<Rightarrow> model_commitment \<Rightarrow> hash256" where
  "commitment_hash blake3 m = Hash256 (blake3 (model_preimage m))"

datatype attestation_decision = ZkAdopted | ZkModified | ZkRejected

record human_attestation =
  ha_reviewer_did :: string
  ha_reviewer_public_key :: public_key
  ha_ai_recommendation_hash :: hash256
  ha_final_decision_hash :: hash256
  ha_decision :: attestation_decision
  ha_signature :: signature

fun decision_byte :: "attestation_decision \<Rightarrow> u8" where
  "decision_byte ZkAdopted = 0x01"
| "decision_byte ZkModified = 0x02"
| "decision_byte ZkRejected = 0x03"

definition signing_message :: "string \<Rightarrow> hash256 \<Rightarrow> hash256 \<Rightarrow> attestation_decision \<Rightarrow> bytes" where
  "signing_message reviewer ai final decision =
     str_bytes ''zkml:attestation:'' @ str_bytes reviewer @ hash_bytes ai @ hash_bytes final @ [decision_byte decision]"

definition ha_verify_signature :: "crypto_prims \<Rightarrow> human_attestation \<Rightarrow> bool" where
  "ha_verify_signature prims h =
     verify prims (signing_message (ha_reviewer_did h) (ha_ai_recommendation_hash h) (ha_final_decision_hash h)
       (ha_decision h)) (ha_signature h) (ha_reviewer_public_key h)"

record ai_delta =
  ai_output_hash :: hash256
  human_output_hash :: hash256
  divergence_detected :: bool

definition ai_delta_new :: "blake3 \<Rightarrow> bytes \<Rightarrow> bytes \<Rightarrow> ai_delta" where
  "ai_delta_new blake3 ai human =
     (let a = digest blake3 ai; h = digest blake3 human
      in \<lparr>ai_output_hash = a, human_output_hash = h, divergence_detected = (a \<noteq> h)\<rparr>)"

record daubert_checklist =
  methodology_documented :: bool
  peer_reviewable :: bool
  known_error_rate :: "string option"
  generally_accepted :: bool

definition daubert_is_complete :: "daubert_checklist \<Rightarrow> bool" where
  "daubert_is_complete c = (methodology_documented c \<and> peer_reviewable c \<and> generally_accepted c)"

record inference_proof =
  ip_model_commitment :: model_commitment
  ip_input_hash :: hash256
  ip_output_hash :: hash256
  ip_proof :: hash256
  ip_verification_tag :: hash256
  ip_prompt_hash :: "hash256 option"
  ip_human_attestation :: "human_attestation option"
  ip_ai_delta :: "ai_delta option"
  ip_daubert_checklist :: "daubert_checklist option"

definition proof_preimage :: "hash256 \<Rightarrow> hash256 \<Rightarrow> hash256 \<Rightarrow> bytes" where
  "proof_preimage m i out = str_bytes ''zkml:proof:'' @ hash_bytes m @ hash_bytes i @ hash_bytes out"

definition compute_inference_proof :: "blake3 \<Rightarrow> hash256 \<Rightarrow> hash256 \<Rightarrow> hash256 \<Rightarrow> hash256" where
  "compute_inference_proof blake3 m i out = Hash256 (blake3 (proof_preimage m i out))"

definition tag_preimage :: "hash256 \<Rightarrow> hash256 \<Rightarrow> hash256 \<Rightarrow> hash256 \<Rightarrow> bytes" where
  "tag_preimage m i out p =
     str_bytes ''zkml:verify:'' @ hash_bytes m @ hash_bytes i @ hash_bytes out @ hash_bytes p"

definition compute_verification_tag :: "blake3 \<Rightarrow> hash256 \<Rightarrow> hash256 \<Rightarrow> hash256 \<Rightarrow> hash256 \<Rightarrow> hash256" where
  "compute_verification_tag blake3 m i out p = Hash256 (blake3 (tag_preimage m i out p))"

definition prove_inference :: "blake3 \<Rightarrow> model_commitment \<Rightarrow> bytes \<Rightarrow> bytes \<Rightarrow> inference_proof" where
  "prove_inference blake3 model input out =
     (let input_hash = digest blake3 input;
          output_hash = digest blake3 out;
          model_hash = commitment_hash blake3 model;
          p = compute_inference_proof blake3 model_hash input_hash output_hash
      in \<lparr>ip_model_commitment = model, ip_input_hash = input_hash, ip_output_hash = output_hash, ip_proof = p,
          ip_verification_tag = compute_verification_tag blake3 model_hash input_hash output_hash p,
          ip_prompt_hash = None, ip_human_attestation = None, ip_ai_delta = None, ip_daubert_checklist = None\<rparr>)"

definition prove_inference_with_provenance ::
  "blake3 \<Rightarrow> model_commitment \<Rightarrow> bytes \<Rightarrow> bytes \<Rightarrow> bytes \<Rightarrow> inference_proof" where
  "prove_inference_with_provenance blake3 model prompt input out =
     (prove_inference blake3 model input out)\<lparr>ip_prompt_hash := Some (digest blake3 prompt)\<rparr>"

definition verify_inference :: "blake3 \<Rightarrow> inference_proof \<Rightarrow> bool" where
  "verify_inference blake3 p =
     (let model_hash = commitment_hash blake3 (ip_model_commitment p)
      in if compute_inference_proof blake3 model_hash (ip_input_hash p) (ip_output_hash p) \<noteq> ip_proof p then False
         else compute_verification_tag blake3 model_hash (ip_input_hash p) (ip_output_hash p) (ip_proof p) =
                ip_verification_tag p)"

section \<open>The dispatcher\<close>

datatype proof_type = PtSnark | PtStark | PtZkml

text \<open>The JSON decoders of the bundles and of the public inputs; an error is its message.\<close>

record bundle_decoders =
  dec_snark :: "bytes \<Rightarrow> (verifying_key \<times> snark_proof, string) result"
  dec_stark :: "bytes \<Rightarrow> (stark_proof, string) result"
  dec_zkml :: "bytes \<Rightarrow> (inference_proof, string) result"
  dec_inputs :: "bytes \<Rightarrow> (u64 list, string) result"

definition verify_snark_bytes :: "blake3 \<Rightarrow> bundle_decoders \<Rightarrow> bytes \<Rightarrow> bytes \<Rightarrow> (bool, proof_error) result" where
  "verify_snark_bytes blake3 dec pb ib =
     and_then (map_err DeserializationError (dec_snark dec pb)) (\<lambda>(vk, p).
     and_then (map_err DeserializationError (dec_inputs dec ib)) (\<lambda>inputs.
       Ok (snark_verify blake3 vk p inputs)))"

text \<open>None is the panic of the STARK verifier.\<close>

definition verify_stark_bytes ::
  "blake3 \<Rightarrow> bundle_decoders \<Rightarrow> bytes \<Rightarrow> bytes \<Rightarrow> (bool, proof_error) result option" where
  "verify_stark_bytes blake3 dec pb ib =
     (case and_then (map_err DeserializationError (dec_stark dec pb)) (\<lambda>p.
           and_then (map_err DeserializationError (dec_inputs dec ib)) (\<lambda>inputs. Ok (p, inputs))) of
        Inl e \<Rightarrow> Some (Inl e)
      | Inr (p, inputs) \<Rightarrow> map_option Ok (verify_stark blake3 p inputs))"

definition verify_zkml_bytes :: "blake3 \<Rightarrow> bundle_decoders \<Rightarrow> bytes \<Rightarrow> (bool, proof_error) result" where
  "verify_zkml_bytes blake3 dec pb =
     and_then (map_err DeserializationError (dec_zkml dec pb)) (\<lambda>p. Ok (verify_inference blake3 p))"

fun verify_any ::
  "blake3 \<Rightarrow> bundle_decoders \<Rightarrow> proof_type \<Rightarrow> bytes \<Rightarrow> bytes \<Rightarrow> (bool, proof_error) result option" where
  "verify_any blake3 dec PtSnark pb ib = Some (verify_snark_bytes blake3 dec pb ib)"
| "verify_any blake3 dec PtStark pb ib = verify_stark_bytes blake3 dec pb ib"
| "verify_any blake3 dec PtZkml pb ib = Some (verify_zkml_bytes blake3 dec pb)"

section \<open>What proving checks, and that proofs verify\<close>

text \<open>
  A constraint over the values of the variables, read as equations modulo \<open>2^64\<close>: the value of a linear
  combination is the sum of its terms.
\<close>

lemma lc_evaluate_sum: "lc_evaluate l vars = (\<Sum>(coeff, idx) \<leftarrow> lc_terms l. coeff * lc_value vars idx)"
proof -
  have "foldl (\<lambda>acc (coeff, idx). acc + coeff * lc_value vars idx) x ts =
      x + (\<Sum>(coeff, idx) \<leftarrow> ts. coeff * lc_value vars idx)" for x ts
    by (induction ts arbitrary: x) (auto simp: add.assoc)
  then show ?thesis by (simp add: lc_evaluate_def)
qed

definition r1cs_satisfies :: "r1cs_constraint list \<Rightarrow> u64 list \<Rightarrow> bool" where
  "r1cs_satisfies cs w \<longleftrightarrow>
     (\<forall>c \<in> set cs. (\<Sum>(k, i) \<leftarrow> lc_terms (a_terms c). k * lc_value w i) * (\<Sum>(k, i) \<leftarrow> lc_terms (b_terms c). k * lc_value w i) =
        (\<Sum>(k, i) \<leftarrow> lc_terms (c_terms c). k * lc_value w i))"

lemma with_witness_simps [simp]:
  "cs_constraints (with_witness cs w) = cs_constraints cs"
  "cs_num_public_inputs (with_witness cs w) = cs_num_public_inputs cs"
  "cs_public_input_indices (with_witness cs w) = cs_public_input_indices cs"
  "cs_num_constraints (with_witness cs w) = cs_num_constraints cs"
  by (simp_all add: with_witness_def cs_num_constraints_def)

lemma is_satisfied_with_witness:
  assumes "length w = cs_num_variables cs"
  shows "is_satisfied (with_witness cs w) \<longleftrightarrow> r1cs_satisfies (cs_constraints cs) w"
proof -
  have "map (\<lambda>v. case var_value v of Some x \<Rightarrow> x | None \<Rightarrow> 0) (cs_variables (with_witness cs w)) = w"
    using assms by (intro nth_equalityI) (auto simp: with_witness_def cs_num_variables_def)
  then show ?thesis
    by (simp add: is_satisfied_def r1cs_satisfies_def lc_evaluate_sum list_all_iff)
qed

lemma compute_circuit_hash_witness:
  "length w = cs_num_variables cs \<Longrightarrow> compute_circuit_hash blake3 (with_witness cs w) = compute_circuit_hash blake3 cs"
  by (simp add: compute_circuit_hash_def) (simp add: with_witness_def cs_num_variables_def)

text \<open>
  The SNARK stand-in is complete and proves only satisfied circuits. When keys were set up for a
  circuit whose public inputs are in range and counted, the prover ends without a panic; it returns a
  proof exactly for a witness of the right length that satisfies every constraint modulo \<open>2^64\<close>, and
  the proof verifies for the public part of the witness.
\<close>

theorem snark_complete:
  assumes "circuit r1cs_new = Inr cs" and "snark_setup blake3 circuit = Inr (pk, vk)"
    and "cs_num_public_inputs cs = length (cs_public_input_indices cs)"
    and "\<forall>i \<in> set (cs_public_input_indices cs). unat i < cs_num_variables cs"
  shows "case snark_prove blake3 pk circuit w of
           None \<Rightarrow> False
         | Some (Inl _) \<Rightarrow> \<not> (length w = cs_num_variables cs \<and> r1cs_satisfies (cs_constraints cs) w)
         | Some (Inr p) \<Rightarrow> length w = cs_num_variables cs \<and> r1cs_satisfies (cs_constraints cs) w \<and>
                          snark_verify blake3 vk p (map (\<lambda>i. w ! unat i) (cs_public_input_indices cs))"
proof -
  from assms(1,2) obtain h where h: "compute_circuit_hash blake3 cs = Inr h"
    and pk: "pk_circuit_hash pk = h" and vk: "vk = \<lparr>vk_num_public_inputs = cs_num_public_inputs cs, vk_circuit_hash = h\<rparr>"
    by (auto simp: snark_setup_def and_then_eq_Ok split: if_splits)
  show ?thesis
  proof (cases "length w = cs_num_variables cs")
    case len: True
    have those: "those (map (\<lambda>idx. if unat idx < length w then Some (w ! unat idx) else None) is) =
        Some (map (\<lambda>i. w ! unat i) is)" if "\<forall>i \<in> set is. unat i < cs_num_variables cs" for "is" :: "u64 list"
      using that len by (induction "is") simp_all
    show ?thesis
      using len h pk those [OF assms(4)]
      by (simp add: snark_prove_def assms(1,3) compute_circuit_hash_witness is_satisfied_with_witness Let_def
          public_values_def snark_verify_def vk)
  next
    case False
    then show ?thesis by (simp add: snark_prove_def assms(1))
  qed
qed

text \<open>The circuit \<open>x * x = y\<close> with \<open>y\<close> public.\<close>

definition square_circuit :: circuit where
  "square_circuit cs =
     (let (cs1, y) = cs_allocate_public cs None;
          (cs2, x) = cs_allocate cs1 None
      in Ok (cs_enforce cs2 (lc_from_variable x) (lc_from_variable x) (lc_from_variable y)))"

lemma square_circuit_new:
  "square_circuit r1cs_new = Inr
     \<lparr>cs_variables = [\<lparr>var_index = 0, var_value = None\<rparr>, \<lparr>var_index = 1, var_value = None\<rparr>],
      cs_constraints = [\<lparr>a_terms = \<lparr>lc_terms = [(1, 1)]\<rparr>, b_terms = \<lparr>lc_terms = [(1, 1)]\<rparr>, c_terms = \<lparr>lc_terms = [(1, 0)]\<rparr>\<rparr>],
      cs_num_public_inputs = 1, cs_public_input_indices = [0]\<rparr>"
  by (simp add: square_circuit_def cs_allocate_public_def cs_allocate_def r1cs_new_def cs_enforce_def
      lc_from_variable_def Let_def)

lemma square_satisfied:
  "r1cs_satisfies [\<lparr>a_terms = \<lparr>lc_terms = [(1, 1)]\<rparr>, b_terms = \<lparr>lc_terms = [(1, 1)]\<rparr>, c_terms = \<lparr>lc_terms = [(1, 0)]\<rparr>\<rparr>] [9, 3]"
  by (simp add: r1cs_satisfies_def lc_value_def)

theorem snark_complete_witness:
  "\<exists>pk vk p. snark_setup (\<lambda>_. arr32_of []) square_circuit = Inr (pk, vk) \<and>
     snark_prove (\<lambda>_. arr32_of []) pk square_circuit [9, 3] = Some (Inr p) \<and>
     snark_verify (\<lambda>_. arr32_of []) vk p [9]"
proof -
  let ?h = "\<lambda>_ :: bytes. arr32_of []"
  have "\<exists>pk vk. snark_setup ?h square_circuit = Inr (pk, vk)"
    by (simp add: snark_setup_def square_circuit_new compute_circuit_hash_def usize_to_u64_def
        cs_num_variables_def cs_num_constraints_def)
  then obtain pk vk where keys: "snark_setup ?h square_circuit = Inr (pk, vk)" by blast
  have "case snark_prove ?h pk square_circuit [9, 3] of
      None \<Rightarrow> False | Some (Inl _) \<Rightarrow> False | Some (Inr p) \<Rightarrow> snark_verify ?h vk p [9]"
    using snark_complete [OF square_circuit_new keys, of "[9, 3]"] square_satisfied
    by (simp add: cs_num_variables_def split: option.split_asm sum.split_asm)
  with keys show ?thesis by (simp split: option.split_asm sum.split_asm)
qed

text \<open>
  The verifier recomputes the third component from public data alone, so a proof can be made up for any
  public inputs, whether or not a witness exists.
\<close>

lemma snark_forgeable:
  "length inputs = vk_num_public_inputs vk \<Longrightarrow> \<exists>p. snark_verify blake3 vk p inputs"
  by (intro exI [of _ "\<lparr>sp_a = a, sp_b = b, sp_c = compute_c_component blake3 (vk_circuit_hash vk) inputs a b\<rparr>" for a b])
    (simp add: snark_verify_def)

text \<open>
  A trace satisfies its constraints: every transition evaluates to zero in the field, with additions
  that wrap. They do not wrap when, for every coefficient pair, the size of the field and the two
  products together fit in 64 bits.
\<close>

definition trace_ok :: "u64 list list \<Rightarrow> stark_constraint list \<Rightarrow> u64 \<Rightarrow> bool" where
  "trace_ok trace constraints field \<longleftrightarrow>
     2 \<le> length trace \<and> (\<forall>row \<in> set trace. length row = length (hd trace)) \<and>
     (\<forall>i. Suc i < length trace \<longrightarrow>
        (\<forall>c \<in> set constraints. evaluate_constraint False c (trace ! i) (trace ! Suc i) field = Some 0))"

definition column_fits :: "u64 list \<Rightarrow> u64 list \<Rightarrow> u64 \<Rightarrow> nat \<times> u64 \<times> u64 \<Rightarrow> bool" where
  "column_fits cur nxt field = (\<lambda>(col, cc, nc).
     unat field + unat (cc * cell cur col) + unat (nc * cell nxt col) \<le> 2 ^ 64)"

definition sums_fit :: "u64 list list \<Rightarrow> stark_constraint list \<Rightarrow> u64 \<Rightarrow> bool" where
  "sums_fit trace constraints field \<longleftrightarrow>
     (\<forall>i. Suc i < length trace \<longrightarrow> (\<forall>c \<in> set constraints.
        \<forall>x \<in> set (zip (sc_column_indices c) (sc_coefficients c)).
          column_fits (trace ! i) (trace ! Suc i) field x))"

lemma set_windows2: "set (windows2 xs) = {(xs ! i, xs ! Suc i) |i. Suc i < length xs}"
proof -
  have "windows2 xs ! i = (xs ! i, xs ! Suc i)" if "Suc i < length xs" for i
    using that by (simp add: windows2_def nth_tl)
  moreover have "length (windows2 xs) = length xs - 1" by (simp add: windows2_def)
  ultimately have "set (windows2 xs) = {(xs ! i, xs ! Suc i) |i. i < length xs - 1}"
    unfolding set_conv_nth by (metis (no_types, lifting) less_diff_conv plus_1_eq_Suc add.commute)
  then show ?thesis by (simp add: less_diff_conv)
qed

lemma plain_add_wraps [simp]: "plain_add False a b = Some (a + b)"
  by (simp add: plain_add_def)

lemma evaluate_columns_total:
  "field \<noteq> 0 \<Longrightarrow> \<exists>v. evaluate_columns False cur nxt field acc cols = Some v"
proof (induction cols arbitrary: acc)
  case (Cons x cols)
  then show ?case by (cases x) simp
qed simp

lemma plain_add_fits:
  assumes "unat acc + unat a + unat b < 2 ^ 64"
  shows "Option.bind (plain_add oc acc a) (\<lambda>s. plain_add oc s b) = Some (acc + a + b)"
proof -
  have "unat (acc + a) = unat acc + unat a"
    using assms by (intro unat_add_lem [THEN iffD1]) simp
  with assms show ?thesis by (simp add: plain_add_def)
qed

lemma evaluate_columns_fits:
  assumes "field \<noteq> 0"
  shows "acc < field \<Longrightarrow> \<forall>x \<in> set cols. column_fits cur nxt field x \<Longrightarrow>
     evaluate_columns oc cur nxt field acc cols = evaluate_columns False cur nxt field acc cols"
proof (induction cols arbitrary: acc)
  case (Cons x cols)
  obtain col cc nc where x: "x = (col, cc, nc)" by (cases x)
  define a b where "a = cc * cell cur col" and "b = nc * cell nxt col"
  have "unat field + unat a + unat b \<le> 2 ^ 64"
    using Cons.prems(2) by (simp add: x column_fits_def a_def b_def)
  then have fits: "unat acc + unat a + unat b < 2 ^ 64"
    using Cons.prems(1) by (simp add: word_less_nat_alt)
  have less: "(acc + a + b) mod field < field" using assms by (simp add: word_mod_less_divisor word_gt_0)
  have "\<forall>x \<in> set cols. column_fits cur nxt field x" using Cons.prems(2) by simp
  from Cons.IH [OF less this] show ?case
    unfolding x evaluate_columns.simps a_def [symmetric] b_def [symmetric] plain_add_fits [OF fits]
    by simp
qed simp

lemma evaluate_constraint_fits:
  assumes "field \<noteq> 0"
    and "oc \<longrightarrow> (\<forall>x \<in> set (zip (sc_column_indices c) (sc_coefficients c)). column_fits cur nxt field x)"
  shows "evaluate_constraint oc c cur nxt field = evaluate_constraint False c cur nxt field"
proof (cases oc)
  case True
  have "0 < field" using assms(1) by (simp add: word_gt_0)
  from evaluate_columns_fits [OF assms(1) this, of _ cur nxt oc] assms(2) True show ?thesis
    unfolding evaluate_constraint_def by blast
qed simp

lemma evaluate_constraint_total:
  "field \<noteq> 0 \<Longrightarrow> \<exists>v. evaluate_constraint False c cur nxt field = Some v"
  by (simp add: evaluate_constraint_def evaluate_columns_total)

lemma check_constraints_Ok:
  "check_constraints oc row cur nxt field cs = Some (Inr ()) \<longleftrightarrow>
     (\<forall>c \<in> set cs. evaluate_constraint oc c cur nxt field = Some 0)"
  by (induction cs) (auto split: option.splits)

lemma check_windows_Ok:
  "check_windows oc row field cs ws = Some (Inr ()) \<longleftrightarrow>
     (\<forall>(cur, nxt) \<in> set ws. \<forall>c \<in> set cs. evaluate_constraint oc c cur nxt field = Some 0)"
proof (induction ws arbitrary: row)
  case (Cons w ws)
  obtain cur nxt where w: "w = (cur, nxt)" by force
  show ?case
  proof (cases "check_constraints oc row cur nxt field cs = Some (Inr ())")
    case True
    then have "\<forall>c \<in> set cs. evaluate_constraint oc c cur nxt field = Some 0" by (simp only: check_constraints_Ok)
    with True Cons show ?thesis by (simp add: w)
  next
    case False
    then have "\<not> (\<forall>c \<in> set cs. evaluate_constraint oc c cur nxt field = Some 0)"
      using check_constraints_Ok [of oc row cur nxt field cs] by blast
    with False show ?thesis by (auto simp: w split: option.splits sum.splits)
  qed
qed simp

lemma check_total:
  assumes "\<forall>(cur, nxt) \<in> set ws. \<forall>c \<in> set cs. evaluate_constraint oc c cur nxt field \<noteq> None"
  shows "check_windows oc row field cs ws \<noteq> None"
  using assms
proof (induction ws arbitrary: row)
  case (Cons w ws)
  obtain cur nxt where w: "w = (cur, nxt)" by force
  have "\<forall>c \<in> set ds. evaluate_constraint oc c cur nxt field \<noteq> None \<Longrightarrow>
      check_constraints oc row cur nxt field ds \<noteq> None" for ds
    by (induction ds) auto
  moreover have "\<forall>c \<in> set cs. evaluate_constraint oc c cur nxt field \<noteq> None"
    "\<forall>(cur, nxt) \<in> set ws. \<forall>c \<in> set cs. evaluate_constraint oc c cur nxt field \<noteq> None"
    using Cons.prems by (simp_all add: w)
  ultimately have "check_constraints oc row cur nxt field cs \<noteq> None" "check_windows oc (row + 1) field cs ws \<noteq> None"
    using Cons.IH by blast+
  then show ?case by (auto simp: w split: sum.splits)
qed simp

lemma those_not_None: "None \<notin> set xs \<Longrightarrow> \<exists>ys. those xs = Some ys"
proof (induction xs)
  case (Cons x xs)
  then show ?case by (cases x) auto
qed simp

lemma fri_layers_Cons: "\<exists>hs. fri_layers blake3 h n = h # hs"
  by (cases n) simp_all

lemma fri_layers_fold: "list_all (\<lambda>(a, b). b = fri_fold blake3 a) (windows2 (fri_layers blake3 h n))"
proof (induction n arbitrary: h)
  case (Suc n)
  obtain hs where "fri_layers blake3 (fri_fold blake3 h) n = fri_fold blake3 h # hs"
    using fri_layers_Cons by blast
  with Suc [of "fri_fold blake3 h"] show ?case by (simp add: windows2_def)
qed (simp add: windows2_def)

lemma commit_constraints_total:
  assumes "\<forall>(cur, nxt) \<in> set (windows2 trace). \<forall>c \<in> set constraints. evaluate_constraint oc c cur nxt field \<noteq> None"
  shows "\<exists>cc. commit_constraints oc blake3 trace constraints field = Some cc"
proof -
  have "None \<notin> set (concat (map (\<lambda>(cur, nxt). map (\<lambda>c. evaluate_constraint oc c cur nxt field) constraints) (windows2 trace)))"
  proof
    assume "None \<in> set (concat (map (\<lambda>(cur, nxt). map (\<lambda>c. evaluate_constraint oc c cur nxt field) constraints) (windows2 trace)))"
    then obtain cur nxt c where "(cur, nxt) \<in> set (windows2 trace)" "c \<in> set constraints"
      "evaluate_constraint oc c cur nxt field = None" by auto
    with assms show False by blast
  qed
  from those_not_None [OF this] show ?thesis by (auto simp: commit_constraints_def constraint_values_def)
qed

lemma fri_built_verifies:
  assumes "derive_queries blake3 (st_trace_commitment p) (st_constraint_commitment p)
             (num_queries (st_config p)) (st_trace_length p) = Some (st_query_indices p)"
    and "build_fri_proof blake3 trace q config (st_trace_commitment p) (st_constraint_commitment p) =
           Some (st_fri_proof p)"
    and "st_public_input_hash p = hash_row blake3 inputs"
  shows "verify_stark blake3 p inputs = Some True"
proof -
  let ?base = "compute_fri_base_commitment blake3 (st_trace_commitment p) (st_constraint_commitment p)"
  let ?layers = "fri_layers blake3 ?base (expansion_factor config - 1)"
  have layers: "layer_commitments (st_fri_proof p) = ?layers"
  proof -
    from assms(2) have "st_fri_proof p =
        \<lparr>layer_commitments = ?layers, query_values = map (\<lambda>i. if i < length trace then trace ! i else []) q\<rparr>"
      by (simp add: build_fri_proof_def split: if_splits)
    then show ?thesis by simp
  qed
  have "?layers \<noteq> [] \<and> hd ?layers = ?base"
    using fri_layers_Cons [of blake3 ?base "expansion_factor config - 1"] by auto
  then show ?thesis
    unfolding verify_stark_def Let_def layers
    using fri_layers_fold [of blake3 ?base "expansion_factor config - 1"] assms(1,3) by simp
qed

lemma windows_fit:
  assumes "field \<noteq> 0" and "oc \<longrightarrow> sums_fit trace constraints field"
    and "(cur, nxt) \<in> set (windows2 trace)" and "c \<in> set constraints"
  shows "evaluate_constraint oc c cur nxt field = evaluate_constraint False c cur nxt field"
proof (rule evaluate_constraint_fits [OF assms(1)])
  from assms(3) obtain i where "Suc i < length trace" "cur = trace ! i" "nxt = trace ! Suc i"
    by (auto simp: set_windows2)
  with assms(2,4)
  show "oc \<longrightarrow> (\<forall>x \<in> set (zip (sc_column_indices c) (sc_coefficients c)). column_fits cur nxt field x)"
    by (simp add: sums_fit_def)
qed

lemma prove_stark_well_shaped:
  assumes "field_size config \<noteq> 0" and "capacity_ok 8 (num_queries config)"
    and "capacity_ok 32 (expansion_factor config)"
    and fit: "oc \<longrightarrow> sums_fit trace constraints (field_size config)"
    and shape: "2 \<le> length trace" "\<forall>row \<in> set trace. length row = length (hd trace)"
  shows "case prove_stark oc blake3 trace constraints config of
           None \<Rightarrow> False
         | Some (Inl _) \<Rightarrow> \<not> trace_ok trace constraints (field_size config)
         | Some (Inr p) \<Rightarrow> trace_ok trace constraints (field_size config) \<and> verify_stark blake3 p (hd trace) = Some True"
proof -
  let ?f = "field_size config" and ?tc = "commit_trace blake3 trace"
  have ne: "trace \<noteq> []" "\<not> length trace < 2" "\<not> list_ex (\<lambda>row. length row \<noteq> length (hd trace)) trace"
    using shape by (auto simp: list_ex_iff)
  note same = windows_fit [OF assms(1) fit]
  have total: "\<forall>(cur, nxt) \<in> set (windows2 trace). \<forall>c \<in> set constraints. evaluate_constraint oc c cur nxt ?f \<noteq> None"
    using same evaluate_constraint_total [OF assms(1)] by fastforce
  have ok: "check_windows oc 0 ?f constraints (windows2 trace) = Some (Inr ()) \<longleftrightarrow> trace_ok trace constraints ?f"
    unfolding check_windows_Ok trace_ok_def using same shape by (auto simp: set_windows2) metis+
  from check_total [OF total] obtain r where r: "check_windows oc 0 ?f constraints (windows2 trace) = Some r"
    by blast
  show ?thesis
  proof (cases r)
    case (Inl e)
    with r ok show ?thesis by (simp add: prove_stark_def ne)
  next
    case (Inr u)
    obtain cc where cc: "commit_constraints oc blake3 trace constraints ?f = Some cc"
      using commit_constraints_total [OF total] by blast
    obtain q where q: "derive_queries blake3 ?tc cc (num_queries config) (length trace) = Some q"
      using assms(2) by (cases "length trace = 0") (simp_all add: derive_queries_def Let_def)
    obtain fri where fri: "build_fri_proof blake3 trace q config ?tc cc = Some fri"
      using assms(3) by (simp add: build_fri_proof_def)
    let ?p = "\<lparr>st_trace_commitment = ?tc, st_constraint_commitment = cc, st_query_indices = q,
               st_fri_proof = fri, st_config = config,
               st_trace_length = length trace, st_public_input_hash = hash_row blake3 (hd trace)\<rparr>"
    have "prove_stark oc blake3 trace constraints config = Some (Inr ?p)"
      by (simp add: prove_stark_def ne r Inr cc q fri Let_def)
    moreover have "verify_stark blake3 ?p (hd trace) = Some True"
      by (rule fri_built_verifies [of _ _ trace q config]) (simp_all add: q fri)
    ultimately show ?thesis using r Inr ok by simp
  qed
qed

text \<open>
  C34: the STARK stand-in is complete and proves only traces that satisfy their constraints. Take a
  field of positive size and a configuration whose number of queries and of layers a vector can hold.
  In a build whose additions wrap, and in a build with overflow checks when no sum of the trace
  overflows, the prover ends without a panic; it returns a proof exactly for a trace of at least two
  rows of equal width in which every transition satisfies every constraint, and the proof verifies for
  the first row.
\<close>

theorem stark_complete:
  assumes "field_size config \<noteq> 0" and "capacity_ok 8 (num_queries config)"
    and "capacity_ok 32 (expansion_factor config)"
    and "overflow_checks \<longrightarrow> sums_fit trace constraints (field_size config)"
  shows "case prove_stark overflow_checks blake3 trace constraints config of
           None \<Rightarrow> False
         | Some (Inl _) \<Rightarrow> \<not> trace_ok trace constraints (field_size config)
         | Some (Inr p) \<Rightarrow> trace_ok trace constraints (field_size config) \<and> verify_stark blake3 p (hd trace) = Some True"
proof (cases "2 \<le> length trace \<and> (\<forall>row \<in> set trace. length row = length (hd trace))")
  case True
  then show ?thesis using prove_stark_well_shaped [OF assms] by blast
next
  case False
  then have "\<not> trace_ok trace constraints (field_size config)" by (auto simp: trace_ok_def)
  moreover have "\<exists>e. prove_stark overflow_checks blake3 trace constraints config = Some (Inl e)"
    using False by (auto simp: prove_stark_def list_ex_iff)
  ultimately show ?thesis by auto
qed

theorem stark_complete_witness:
  "\<exists>p. prove_stark True (\<lambda>_. arr32_of []) [[1], [2], [4]] [\<lparr>sc_name = ''double'', sc_column_indices = [0],
          sc_coefficients = [(2, 6)]\<rparr>] \<lparr>field_size = 7, expansion_factor = 2, num_queries = 1\<rparr> = Some (Inr p) \<and>
       verify_stark (\<lambda>_. arr32_of []) p [1] = Some True"
proof -
  let ?c = "\<lparr>sc_name = ''double'', sc_column_indices = [0 :: nat], sc_coefficients = [(2 :: u64, 6 :: u64)]\<rparr>"
    and ?t = "[[1], [2], [4]] :: u64 list list"
    and ?cfg = "\<lparr>field_size = 7, expansion_factor = 2, num_queries = 1\<rparr>"
  have "trace_ok ?t [?c] 7"
    by (auto simp: trace_ok_def evaluate_constraint_def cell_def less_Suc_eq nth_Cons' split: if_splits)
  moreover have "sums_fit ?t [?c] 7"
    by (auto simp: sums_fit_def column_fits_def cell_def less_Suc_eq nth_Cons' split: if_splits)
  moreover have "field_size ?cfg \<noteq> 0" "capacity_ok 8 (num_queries ?cfg)" "capacity_ok 32 (expansion_factor ?cfg)"
    by (simp_all add: capacity_ok_def)
  ultimately have "case prove_stark True (\<lambda>_. arr32_of []) ?t [?c] ?cfg of
      None \<Rightarrow> False | Some (Inl _) \<Rightarrow> False | Some (Inr p) \<Rightarrow> verify_stark (\<lambda>_. arr32_of []) p [1] = Some True"
    using stark_complete [of ?cfg True ?t "[?c]" "\<lambda>_. arr32_of []"]
    by (simp split: option.split_asm sum.split_asm)
  then show ?thesis by (simp split: option.split_asm sum.split_asm)
qed

text \<open>
  With overflow checks a constraint over large values panics instead of wrapping; and a proof that
  asks for too many queries makes the verifier panic.
\<close>

lemma checked_sum_panics:
  "evaluate_constraint True \<lparr>sc_name = n, sc_column_indices = [0], sc_coefficients = [(1, 1)]\<rparr> [18446744073709551615] [1] 7 = None"
  by (simp add: evaluate_constraint_def plain_add_def cell_def)

lemma verifier_panics:
  "st_trace_length p \<noteq> 0 \<Longrightarrow> 2 ^ 60 \<le> num_queries (st_config p) \<Longrightarrow> verify_stark blake3 p inputs = None"
  by (simp add: verify_stark_def derive_queries_def capacity_ok_def)

text \<open>The verifier does not look at the query values, so they can be anything.\<close>

lemma stark_ignores_query_values:
  "verify_stark blake3 (p\<lparr>st_fri_proof := (st_fri_proof p)\<lparr>query_values := vs\<rparr>\<rparr>) inputs = verify_stark blake3 p inputs"
  by (simp add: verify_stark_def)

section \<open>Inference proofs bind hashes\<close>

lemma model_preimage_inject: "model_preimage m = model_preimage m' \<longleftrightarrow> m = m'"
proof
  assume "model_preimage m = model_preimage m'"
  then have "hash_bytes (mc_architecture_hash m) = hash_bytes (mc_architecture_hash m') \<and>
      hash_bytes (mc_weights_hash m) = hash_bytes (mc_weights_hash m') \<and>
      to_le_bytes 8 (mc_version m) = to_le_bytes 8 (mc_version m')"
    by (simp add: model_preimage_def)
  then show "m = m'"
    using to_le_bytes_inject [of 8 "mc_version m" "mc_version m'"] by simp
qed simp

lemma tag_preimage_inject:
  "tag_preimage m i out p = tag_preimage m' i' out' p' \<longleftrightarrow> m = m' \<and> i = i' \<and> out = out' \<and> p = p'"
  by (auto simp: tag_preimage_def)

text \<open>The strings hashed when a proof is verified.\<close>

definition hashed_by_verify :: "blake3 \<Rightarrow> inference_proof \<Rightarrow> bytes set" where
  "hashed_by_verify blake3 p =
     (let mh = commitment_hash blake3 (ip_model_commitment p) in
      {model_preimage (ip_model_commitment p), proof_preimage mh (ip_input_hash p) (ip_output_hash p),
       tag_preimage mh (ip_input_hash p) (ip_output_hash p) (ip_proof p)})"

text \<open>
  C35: inference proofs. What is generated verifies, with or without a prompt. And the verification tag
  binds: two proofs that verify and have the same tag agree on the model commitment, on the hashes of
  the input and of the output and on the proof, unless the hash collides on strings hashed for them.
\<close>

theorem inference_proof_binds:
  assumes "verify_inference blake3 p" and "verify_inference blake3 q"
    and "ip_verification_tag p = ip_verification_tag q"
    and "inj_on blake3 (hashed_by_verify blake3 p \<union> hashed_by_verify blake3 q)"
  shows "ip_model_commitment p = ip_model_commitment q \<and> ip_input_hash p = ip_input_hash q \<and>
         ip_output_hash p = ip_output_hash q \<and> ip_proof p = ip_proof q \<and>
         verify_inference blake3 (prove_inference blake3 model input out) \<and>
         verify_inference blake3 (prove_inference_with_provenance blake3 model prompt input out)"
proof -
  let ?m = "\<lambda>p. commitment_hash blake3 (ip_model_commitment p)"
  let ?tag = "\<lambda>p. tag_preimage (?m p) (ip_input_hash p) (ip_output_hash p) (ip_proof p)"
  have tag: "ip_verification_tag r = Hash256 (blake3 (?tag r))" if "verify_inference blake3 r" for r
    using that by (simp add: verify_inference_def compute_verification_tag_def Let_def split: if_splits)
  have "blake3 (?tag p) = blake3 (?tag q)" using assms(3) tag [OF assms(1)] tag [OF assms(2)] by simp
  then have "?tag p = ?tag q"
    by (rule inj_onD [OF assms(4)]) (simp_all add: hashed_by_verify_def Let_def)
  then have eq: "?m p = ?m q" "ip_input_hash p = ip_input_hash q" "ip_output_hash p = ip_output_hash q"
    "ip_proof p = ip_proof q"
    by (simp_all add: tag_preimage_inject)
  have "model_preimage (ip_model_commitment p) = model_preimage (ip_model_commitment q)"
    by (rule inj_onD [OF assms(4)]) (use eq(1) in \<open>simp_all add: hashed_by_verify_def commitment_hash_def Let_def\<close>)
  then have "ip_model_commitment p = ip_model_commitment q" by (simp add: model_preimage_inject)
  with eq show ?thesis
    by (simp add: verify_inference_def prove_inference_def prove_inference_with_provenance_def Let_def)
qed

lemma hashed_by_verify_prompt:
  "hashed_by_verify blake3 (p\<lparr>ip_prompt_hash := x\<rparr>) = hashed_by_verify blake3 p"
  by (simp add: hashed_by_verify_def)

theorem inference_proof_binds_witness:
  "let h = (\<lambda>bs. if take 6 bs = str_bytes ''zkml:m'' then arr32_of [1]
              else if take 6 bs = str_bytes ''zkml:p'' then arr32_of [2] else arr32_of [3]);
       p = prove_inference h (mc_new h [1] [2] 3) [4] [5];
       q = prove_inference_with_provenance h (mc_new h [1] [2] 3) [6] [4] [5]
   in verify_inference h q \<and> ip_model_commitment p = ip_model_commitment q \<and> ip_proof p = ip_proof q"
proof -
  let ?h = "\<lambda>bs. if take 6 bs = str_bytes ''zkml:m'' then arr32_of [1]
              else if take 6 bs = str_bytes ''zkml:p'' then arr32_of [2] else arr32_of [3]"
  let ?p = "prove_inference ?h (mc_new ?h [1] [2] 3) [4] [5]"
    and ?q = "prove_inference_with_provenance ?h (mc_new ?h [1] [2] 3) [6] [4] [5]"
  have ok: "verify_inference ?h ?p" "verify_inference ?h ?q" "ip_verification_tag ?p = ip_verification_tag ?q"
    by (simp_all only: verify_inference_def prove_inference_with_provenance_def prove_inference_def Let_def
        inference_proof.simps if_False simp_thms)
  have "take 6 (model_preimage m) = str_bytes ''zkml:m''" "take 6 (proof_preimage a b c) = str_bytes ''zkml:p''"
    "take 6 (tag_preimage a b c d) = str_bytes ''zkml:v''" for m a b c d
    by (simp_all add: model_preimage_def proof_preimage_def tag_preimage_def str_bytes_def)
  moreover have "arr32_of [1] \<noteq> arr32_of [2]" "arr32_of [1] \<noteq> arr32_of [3]" "arr32_of [2] \<noteq> arr32_of [3]"
    by (rule arr32_of_Cons_neq, simp)+
  moreover have "hashed_by_verify ?h ?q = hashed_by_verify ?h ?p"
    unfolding prove_inference_with_provenance_def by (rule hashed_by_verify_prompt)
  ultimately have inj: "inj_on ?h (hashed_by_verify ?h ?p \<union> hashed_by_verify ?h ?q)"
    by (auto simp: inj_on_def hashed_by_verify_def Let_def)
  from inference_proof_binds [OF ok inj] ok(2) show ?thesis unfolding Let_def by blast
qed

text \<open>
  A proof can be computed for any model, input and output, whether or not the model produces the output
  on the input, and none of the provenance fields is covered by the verification.
\<close>

lemma inference_claim_unchecked: "verify_inference blake3 (prove_inference blake3 model input out)"
  by (simp add: verify_inference_def prove_inference_def Let_def)

lemma provenance_not_bound:
  "verify_inference blake3 (p\<lparr>ip_prompt_hash := a, ip_human_attestation := b, ip_ai_delta := c, ip_daubert_checklist := d\<rparr>)
     = verify_inference blake3 p"
  by (simp add: verify_inference_def)

text \<open>The message a reviewer signs determines the reviewer, both hashes and the decision.\<close>

lemma signing_message_inject:
  assumes "signing_message r a f d = signing_message r' a' f' d'"
  shows "r = r' \<and> a = a' \<and> f = f' \<and> d = d'"
proof -
  let ?tail = "\<lambda>a f d. hash_bytes a @ hash_bytes f @ [decision_byte d]"
  have "str_bytes r @ ?tail a f d = str_bytes r' @ ?tail a' f' d'"
    using assms by (simp add: signing_message_def)
  then have "str_bytes r = str_bytes r' \<and> ?tail a f d = ?tail a' f' d'"
    by (subst (asm) append_eq_append_conv) simp_all
  moreover have "decision_byte d = decision_byte d' \<longleftrightarrow> d = d'" by (cases d; cases d') simp_all
  ultimately show ?thesis by simp
qed

end
