(* ===== verification/Peers.thy ===== *)
theory Peers
  imports Hash_Log "HOL-Library.Sublist"
begin

text \<open>
  The crate \<open>src/crates/exo-api\<close>: peers, messages and rate limits (\<open>p2p.rs\<close>), the selection of peers
  from many networks against eclipse attacks (same file), and the request envelope (\<open>schema.rs\<close>,
  \<open>types.rs\<close>). A \<open>PeerId\<close> wraps an identifier and an \<open>Asn\<close> a number, both ordered as what they wrap.
\<close>

datatype api_error =
    PeerNotFound string
  | ApiVerificationFailed string
  | RateLimited string
  | InvalidSchema string
  | ApiSerializationError string

section \<open>Peers and messages\<close>

type_synonym peer_id = did

definition debug_peer_id :: "peer_id \<Rightarrow> string" where
  "debug_peer_id p = ''PeerId('' @ debug_did p @ '')''"

record peer_info =
  pi_id :: peer_id
  pi_addresses :: "string list"
  pi_public_key_hash :: hash256
  pi_last_seen :: timestamp
  pi_reputation_score :: u32

record peer_registry =
  peers :: "(peer_id, peer_info) btree_map"

definition pr_new :: peer_registry where
  "pr_new = \<lparr>peers = bm_empty\<rparr>"

definition pr_register :: "peer_registry \<Rightarrow> peer_info \<Rightarrow> peer_registry" where
  "pr_register r info = r\<lparr>peers := bm_insert (pi_id info) info (peers r)\<rparr>"

definition pr_get :: "peer_registry \<Rightarrow> peer_id \<Rightarrow> peer_info option" where
  "pr_get r p = bm_get (peers r) p"

definition pr_len :: "peer_registry \<Rightarrow> nat" where
  "pr_len r = bm_len (peers r)"

definition pr_is_empty :: "peer_registry \<Rightarrow> bool" where
  "pr_is_empty r = bm_is_empty (peers r)"

record peer_message =
  pm_from :: peer_id
  pm_to :: "peer_id option"
  pm_payload :: bytes
  pm_signature :: signature
  pm_nonce :: u64

record rate_limiter =
  rl_counts :: "(peer_id, u32) btree_map"

definition MAX_PER_WINDOW :: u32 where "MAX_PER_WINDOW = 100"

definition rl_new :: rate_limiter where
  "rl_new = \<lparr>rl_counts = bm_empty\<rparr>"

definition check_and_increment :: "rate_limiter \<Rightarrow> peer_id \<Rightarrow> rate_limiter \<times> (unit, api_error) result" where
  "check_and_increment l p =
     (let c = (case bm_get (rl_counts l) p of Some n \<Rightarrow> n | None \<Rightarrow> 0) in
      if MAX_PER_WINDOW \<le> c
      then (l\<lparr>rl_counts := bm_insert p c (rl_counts l)\<rparr>, Err (RateLimited (debug_peer_id p)))
      else (l\<lparr>rl_counts := bm_insert p (c + 1) (rl_counts l)\<rparr>, Ok ()))"

definition rl_reset :: "rate_limiter \<Rightarrow> rate_limiter" where
  "rl_reset l = l\<lparr>rl_counts := bm_empty\<rparr>"

definition peer_send :: "peer_registry \<Rightarrow> peer_message \<Rightarrow> (unit, api_error) result" where
  "peer_send r msg =
     (case pm_to msg of
        Some to \<Rightarrow> if \<not> bm_contains (peers r) to then Err (PeerNotFound (debug_peer_id to)) else Ok ()
      | None \<Rightarrow> Ok ())"

definition verify_message :: "peer_message \<Rightarrow> (unit, api_error) result" where
  "verify_message msg =
     (if sig_as_bytes (pm_signature msg) = zeros64 then Err (ApiVerificationFailed ''empty signature'') else Ok ())"

text \<open>
  The loop over the bootstrap addresses; the name of a peer is the hexadecimal hash of its address. What
  was registered before an error stays.
\<close>

definition bootstrap_did :: "blake3 \<Rightarrow> string \<Rightarrow> (did, exo_error) result" where
  "bootstrap_did blake3 addr = did_new (''did:exo:peer-'' @ hash_display (Hash256 (blake3 (str_bytes addr))))"

fun discover_loop ::
  "blake3 \<Rightarrow> peer_registry \<Rightarrow> peer_id list \<Rightarrow> string list \<Rightarrow> peer_registry \<times> (peer_id list, api_error) result" where
  "discover_loop blake3 r found [] = (r, Ok found)"
| "discover_loop blake3 r found (addr # addrs) =
     (case bootstrap_did blake3 addr of
        Inl e \<Rightarrow> (r, Err (InvalidSchema (exo_error_display e)))
      | Inr p \<Rightarrow>
          if \<not> bm_contains (peers r) p
          then discover_loop blake3
                 (pr_register r \<lparr>pi_id = p, pi_addresses = [addr], pi_public_key_hash = digest blake3 (str_bytes addr),
                                 pi_last_seen = TS_ZERO, pi_reputation_score = 50\<rparr>) (found @ [p]) addrs
          else discover_loop blake3 r found addrs)"

definition discover_peers ::
  "blake3 \<Rightarrow> peer_registry \<Rightarrow> string list \<Rightarrow> peer_registry \<times> (peer_id list, api_error) result" where
  "discover_peers blake3 r bootstrap = discover_loop blake3 r [] bootstrap"

section \<open>Network diversity\<close>

type_synonym asn = u32

record peer_metadata =
  md_info :: peer_info
  md_asn :: "asn option"
  md_first_seen :: timestamp
  md_last_seen :: timestamp

record asn_policy =
  min_unique_asns :: nat
  max_peers_per_asn :: nat
  rotation_interval_ms :: u64

definition default_asn_policy :: asn_policy where
  "default_asn_policy = \<lparr>min_unique_asns = 3, max_peers_per_asn = 5, rotation_interval_ms = 3600000\<rparr>"

datatype diversity_result = DivSufficient | DivInsufficient nat nat

definition UNKNOWN_ASN :: asn where "UNKNOWN_ASN = 0"

definition effective_asn :: "peer_metadata \<Rightarrow> asn" where
  "effective_asn p = (case md_asn p of Some a \<Rightarrow> a | None \<Rightarrow> UNKNOWN_ASN)"

definition check_asn_diversity :: "peer_metadata list \<Rightarrow> asn_policy \<Rightarrow> diversity_result" where
  "check_asn_diversity ps policy =
     (let unique = bs_from_list (map effective_asn ps) in
      if min_unique_asns policy \<le> bm_len unique then DivSufficient
      else DivInsufficient (bm_len unique) (min_unique_asns policy))"

definition group_by_asn :: "peer_metadata list \<Rightarrow> (asn, peer_metadata list) btree_map" where
  "group_by_asn candidates =
     fold (\<lambda>c m. bm_upd_default [] (\<lambda>b. b @ [c]) (effective_asn c) m) candidates bm_empty"

text \<open>One round of the loop: the \<open>round\<close>-th peer of every group, until enough are selected.\<close>

fun round_fill ::
  "nat \<Rightarrow> nat \<Rightarrow> nat \<Rightarrow> peer_metadata list list \<Rightarrow> peer_metadata list \<Rightarrow> bool \<Rightarrow> peer_metadata list \<times> bool" where
  "round_fill max_peers per_asn r [] sel added = (sel, added)"
| "round_fill max_peers per_asn r (b # bs) sel added =
     (if max_peers \<le> length sel then (sel, added)
      else if per_asn \<le> r then round_fill max_peers per_asn r bs sel added
      else if r < length b then round_fill max_peers per_asn r bs (sel @ [b ! r]) True
      else round_fill max_peers per_asn r bs sel added)"

definition round_items :: "nat \<Rightarrow> nat \<Rightarrow> 'a list list \<Rightarrow> 'a list" where
  "round_items k r bs = concat (map (\<lambda>b. if r < k \<and> r < length b then [b ! r] else []) bs)"

lemma round_items_simps [simp]:
  "round_items k r [] = []"
  "round_items k r (b # bs) = (if r < k \<and> r < length b then b ! r # round_items k r bs else round_items k r bs)"
  by (simp_all add: round_items_def)

lemma round_fill_eq:
  "length sel \<le> m \<Longrightarrow>
     round_fill m k r bs sel added =
       (take m (sel @ round_items k r bs), added \<or> (length sel < m \<and> round_items k r bs \<noteq> []))"
proof (induction m k r bs sel added rule: round_fill.induct)
  case (2 m k r b bs sel added)
  show ?case
  proof (cases "m \<le> length sel")
    case False
    then show ?thesis using 2 by (cases "k \<le> r"; cases "r < length b") auto
  qed (use "2.prems" in auto)
qed simp

function select_loop ::
  "nat \<Rightarrow> nat \<Rightarrow> peer_metadata list list \<Rightarrow> nat \<Rightarrow> peer_metadata list \<Rightarrow> peer_metadata list" where
  "select_loop m k buckets r sel =
     (if m \<le> length sel then sel
      else case round_fill m k r buckets sel False of
        (sel', added) \<Rightarrow> if \<not> added then sel' else select_loop m k buckets (r + 1) sel')"
  by pat_completeness auto
termination
proof (relation "measure (\<lambda>(m, k, buckets, r, sel). m - length sel)", goal_cases)
  case (2 m k buckets r sel sel' added)
  then have "round_items k r buckets \<noteq> []" "sel' = take m (sel @ round_items k r buckets)"
    using round_fill_eq [of sel m k r buckets False] by auto
  with 2(1) show ?case by (cases "round_items k r buckets") auto
qed simp

declare select_loop.simps [simp del]

definition select_diverse_peers :: "peer_metadata list \<Rightarrow> asn_policy \<Rightarrow> nat \<Rightarrow> peer_metadata list" where
  "select_diverse_peers candidates policy max_peers =
     (if candidates = [] \<or> max_peers = 0 then []
      else select_loop max_peers (max_peers_per_asn policy) (bm_values (group_by_asn candidates)) 0 [])"

definition identify_stale_peers :: "peer_metadata list \<Rightarrow> timestamp \<Rightarrow> u64 \<Rightarrow> peer_id list" where
  "identify_stale_peers ps now max_age =
     map (\<lambda>p. pi_id (md_info p))
       (filter (\<lambda>p. max_age < saturating_sub (physical_ms now) (physical_ms (md_last_seen p))) ps)"

definition rotate_peers ::
  "peer_metadata list \<Rightarrow> peer_metadata list \<Rightarrow> asn_policy \<Rightarrow> timestamp \<Rightarrow> peer_metadata list \<times> peer_id list" where
  "rotate_peers current candidates policy now =
     (let stale = bs_from_list (identify_stale_peers current now (rotation_interval_ms policy));
          evicted = bs_elems stale;
          kept = filter (\<lambda>p. \<not> bs_contains stale (pi_id (md_info p))) current;
          current_ids = bs_from_list (map (\<lambda>p. pi_id (md_info p)) kept);
          fresh = filter (\<lambda>c. \<not> bs_contains current_ids (pi_id (md_info c))) candidates;
          replacements = select_diverse_peers fresh policy (length evicted)
      in (kept @ replacements, evicted))"

section \<open>Requests\<close>

datatype api_version = ApiVersion string

definition default_api_version :: api_version where
  "default_api_version = ApiVersion ''v1''"

datatype api_request =
    CreateTransaction did string
  | TransitionState uuid string did
  | QueryTransaction uuid
  | ResolveIdentity did
  | RegisterIdentity did hash256
  | Deliberate hash256 did
  | ApiVote uuid bool did
  | ApiChallenge uuid string did

datatype api_response =
    ApiSuccess uuid timestamp
  | ApiErrorResponse u32 string
  | ApiTransactionState uuid string
  | ApiIdentity did bool
  | ApiReceipt hash256 timestamp

text \<open>\<open>cbor\<close> gives the bytes that the encoder has written into the buffer, whether or not it succeeded.\<close>

definition canonical_request_hash :: "blake3 \<Rightarrow> (api_request \<Rightarrow> bytes) \<Rightarrow> api_request \<Rightarrow> hash256" where
  "canonical_request_hash blake3 cbor request = digest blake3 (cbor request)"

section \<open>The selection is diverse\<close>

abbreviation in_asn :: "asn \<Rightarrow> peer_metadata \<Rightarrow> bool" where
  "in_asn a \<equiv> \<lambda>c. effective_asn c = a"

lemma group_by_asn_get:
  "bm_get (group_by_asn cs) a = (if a \<in> effective_asn ` set cs then Some (filter (in_asn a) cs) else None)"
proof (induction cs rule: rev_induct)
  case (snoc c cs)
  have "group_by_asn (cs @ [c]) = bm_upd_default [] (\<lambda>b. b @ [c]) (effective_asn c) (group_by_asn cs)"
    by (simp add: group_by_asn_def)
  moreover have "filter (in_asn a) cs = []" if "a \<notin> effective_asn ` set cs"
    using that by (auto simp: filter_empty_conv)
  ultimately show ?case using snoc by (cases "effective_asn c = a") auto
qed (simp add: group_by_asn_def)

lemma bm_values_keys: "bm_values m = map (\<lambda>k. the (bm_get m k)) (bm_keys m)"
proof -
  have "snd e = the (bm_get m (fst e))" if "e \<in> set (entries m)" for e
    using that set_entries [of "fst e" "snd e" m] by simp
  then show ?thesis by (simp add: bm_values_def bm_keys_def)
qed

text \<open>The networks in increasing order, and the group of each.\<close>

definition asns_of :: "peer_metadata list \<Rightarrow> asn list" where
  "asns_of cs = sort_dedup (map effective_asn cs)"

lemma asns_of: "set (asns_of cs) = effective_asn ` set cs" "distinct (asns_of cs)"
  by (simp_all add: asns_of_def ssorted_imp_distinct)

lemma groups: "bm_values (group_by_asn cs) = map (\<lambda>a. filter (in_asn a) cs) (asns_of cs)"
proof -
  have "bm_keys (group_by_asn cs) = asns_of cs"
    by (rule ssorted_unique) (auto simp: asns_of_def set_bm_keys bm_contains_def group_by_asn_get)
  then show ?thesis by (simp add: bm_values_keys group_by_asn_get asns_of cong: map_cong)
qed

lemma round_items_mono: "round_items k r bs = [] \<Longrightarrow> r \<le> j \<Longrightarrow> round_items k j bs = []"
  by (induction bs) (auto split: if_splits)

lemma take_take_append: "take m (take m xs @ ys) = take m (xs @ ys)"
  by (cases "m \<le> length xs") (simp_all add: min_def)

text \<open>The loop computes the first peers of all rounds laid end to end.\<close>

lemma select_loop_eq:
  "length sel \<le> m \<Longrightarrow> \<forall>j \<ge> r + K. round_items k j bs = [] \<Longrightarrow>
     select_loop m k bs r sel = take m (sel @ concat (map (\<lambda>j. round_items k j bs) [r..<r + K]))"
proof (induction K arbitrary: r sel)
  case 0
  then show ?case by (subst select_loop.simps) (simp add: round_fill_eq)
next
  case (Suc K)
  show ?case
  proof (cases "m \<le> length sel \<or> round_items k r bs = []")
    case True
    have "\<not> m \<le> length sel \<longrightarrow> concat (map (\<lambda>j. round_items k j bs) [r..<r + Suc K]) = []"
    proof
      assume "\<not> m \<le> length sel"
      then have "\<forall>j \<in> set [r..<r + Suc K]. round_items k j bs = []"
        using True round_items_mono [of k r bs] by (metis atLeastLessThan_iff set_upt)
      then show "concat (map (\<lambda>j. round_items k j bs) [r..<r + Suc K]) = []" by (simp only: concat_eq_Nil_conv set_map) blast
    qed
    moreover have "select_loop m k bs r sel = sel"
      using True Suc.prems(1) by (subst select_loop.simps) (auto simp: round_fill_eq)
    ultimately show ?thesis using Suc.prems(1) by (cases "m \<le> length sel") (simp_all del: upt_Suc)
  next
    case False
    let ?sel = "take m (sel @ round_items k r bs)"
    have upt: "[r..<r + Suc K] = r # [Suc r..<Suc r + K]" by (subst upt_conv_Cons) simp_all
    have "select_loop m k bs r sel = select_loop m k bs (Suc r) ?sel"
      using False Suc.prems(1) by (subst select_loop.simps) (simp add: round_fill_eq)
    also have "\<dots> = take m (?sel @ concat (map (\<lambda>j. round_items k j bs) [Suc r..<Suc r + K]))"
      by (rule Suc.IH) (use Suc.prems(2) in auto)
    also have "\<dots> = take m (sel @ concat (map (\<lambda>j. round_items k j bs) [r..<r + Suc K]))"
      unfolding upt by (simp only: take_take_append list.map concat.simps append_assoc)
    finally show ?thesis .
  qed
qed

definition all_rounds :: "nat \<Rightarrow> peer_metadata list \<Rightarrow> peer_metadata list" where
  "all_rounds k cs = concat (map (\<lambda>r. round_items k r (map (\<lambda>a. filter (in_asn a) cs) (asns_of cs))) [0..<length cs])"

lemma select_diverse_peers_eq:
  "select_diverse_peers cs policy m = take m (all_rounds (max_peers_per_asn policy) cs)"
proof -
  let ?bs = "map (\<lambda>a. filter (in_asn a) cs) (asns_of cs)" and ?k = "max_peers_per_asn policy"
  have "round_items ?k j ?bs = []" if "length cs \<le> j" for j
  proof -
    have "\<not> j < length (filter P cs)" for P using that length_filter_le [of P cs] by linarith
    then show ?thesis by (simp add: round_items_def)
  qed
  then have "select_loop m ?k ?bs 0 [] = take m (all_rounds ?k cs)"
    using select_loop_eq [of "[]" m 0 "length cs" ?k ?bs] by (simp add: all_rounds_def)
  then show ?thesis by (simp add: select_diverse_peers_def groups) (auto simp: all_rounds_def)
qed

lemma filter_round_items:
  assumes "distinct as"
  shows "filter (in_asn a) (round_items k r (map (\<lambda>a. filter (in_asn a) cs) as)) =
    (if a \<in> set as \<and> r < k \<and> r < length (filter (in_asn a) cs) then [filter (in_asn a) cs ! r] else [])"
  using assms
proof (induction as)
  case (Cons b as)
  have "effective_asn (filter (in_asn b) cs ! r) = b" if "r < length (filter (in_asn b) cs)"
    using nth_mem [OF that] by simp
  with Cons show ?case by auto
qed simp

lemma concat_nth_take:
  "concat (map (\<lambda>r. if r < k \<and> r < length xs then [xs ! r] else []) [0..<n]) = take (min k n) xs"
proof (induction n)
  case (Suc n)
  then show ?case
    by (cases "n < k") (simp_all add: min_absorb1 min_absorb2 take_Suc_conv_app_nth not_less)
qed simp

text \<open>Of each network all rounds together hold the first peers, up to the limit.\<close>

lemma filter_all_rounds: "filter (in_asn a) (all_rounds k cs) = take k (filter (in_asn a) cs)"
proof (cases "a \<in> set (asns_of cs)")
  case True
  have "filter (in_asn a) (all_rounds k cs) =
      concat (map (\<lambda>r. if r < k \<and> r < length (filter (in_asn a) cs) then [filter (in_asn a) cs ! r] else []) [0..<length cs])"
    using True by (simp add: all_rounds_def filter_concat comp_def filter_round_items asns_of(2))
  also have "\<dots> = take (min k (length cs)) (filter (in_asn a) cs)" by (rule concat_nth_take)
  also have "\<dots> = take k (filter (in_asn a) cs)"
  proof (cases "k \<le> length cs")
    case False
    then have "length (filter (in_asn a) cs) \<le> min k (length cs)" "length (filter (in_asn a) cs) \<le> k"
      using length_filter_le [of "in_asn a" cs] by linarith+
    then show ?thesis by (simp only: take_all)
  qed (simp add: min_absorb1)
  finally show ?thesis .
next
  case False
  then have "filter (in_asn a) cs = []" by (auto simp: asns_of filter_empty_conv)
  moreover have "filter (in_asn a) (all_rounds k cs) = []"
    using False by (simp add: all_rounds_def filter_concat comp_def filter_round_items asns_of(2))
  ultimately show ?thesis by simp
qed

lemma length_by_class:
  "finite A \<Longrightarrow> f ` set xs \<subseteq> A \<Longrightarrow> length xs = (\<Sum>a \<in> A. length (filter (\<lambda>x. f x = a) xs))"
proof (induction xs)
  case (Cons x xs)
  have "(\<Sum>a \<in> A. length (filter (\<lambda>y. f y = a) (x # xs))) =
      (\<Sum>a \<in> A. (if f x = a then 1 else 0) + length (filter (\<lambda>y. f y = a) xs))"
    by (rule sum.cong) auto
  also have "\<dots> = 1 + (\<Sum>a \<in> A. length (filter (\<lambda>y. f y = a) xs))"
    using Cons.prems by (simp add: sum.distrib)
  finally show ?case using Cons by simp
qed simp

lemma set_all_rounds: "set (all_rounds k cs) \<subseteq> set cs"
proof
  fix x assume "x \<in> set (all_rounds k cs)"
  then have "x \<in> set (filter (in_asn (effective_asn x)) (all_rounds k cs))" by simp
  then show "x \<in> set cs" unfolding filter_all_rounds by (auto dest: in_set_takeD)
qed

lemma first_round:
  assumes "0 < k"
  shows "\<exists>rest. all_rounds k cs = round_items k 0 (map (\<lambda>a. filter (in_asn a) cs) (asns_of cs)) @ rest"
    and "map effective_asn (round_items k 0 (map (\<lambda>a. filter (in_asn a) cs) (asns_of cs))) = asns_of cs"
proof -
  let ?bs = "map (\<lambda>a. filter (in_asn a) cs) (asns_of cs)"
  show "\<exists>rest. all_rounds k cs = round_items k 0 ?bs @ rest"
  proof (cases "cs = []")
    case True
    then show ?thesis by (simp add: all_rounds_def asns_of_def sort_dedup_def)
  next
    case False
    then have "[0..<length cs] = 0 # [1..<length cs]" by (simp add: upt_conv_Cons)
    then show ?thesis by (simp add: all_rounds_def)
  qed
  have "map effective_asn (round_items k 0 (map (\<lambda>a. filter (in_asn a) cs) as)) = as"
    if "set as \<subseteq> effective_asn ` set cs" for as
    using that
  proof (induction as)
    case (Cons a as)
    then have "filter (in_asn a) cs \<noteq> []" by (auto simp: filter_empty_conv)
    then have "0 < length (filter (in_asn a) cs)" "effective_asn (filter (in_asn a) cs ! 0) = a"
      using nth_mem [of 0 "filter (in_asn a) cs"] by (simp, fastforce)
    with Cons assms show ?case by simp
  qed simp
  then show "map effective_asn (round_items k 0 ?bs) = asns_of cs" by (simp add: asns_of)
qed

lemma card_asns_taken:
  assumes "0 < k"
  shows "card (effective_asn ` set (take m (all_rounds k cs))) = min m (card (effective_asn ` set cs))"
proof -
  let ?first = "round_items k 0 (map (\<lambda>a. filter (in_asn a) cs) (asns_of cs))"
  obtain rest where rest: "all_rounds k cs = ?first @ rest" using first_round(1) [OF assms] by blast
  note first = first_round(2) [OF assms, of cs]
  have n: "card (effective_asn ` set cs) = length (asns_of cs)"
    by (metis asns_of distinct_card)
  have len: "length ?first = length (asns_of cs)" using first by (metis length_map)
  show ?thesis
  proof (cases "m \<le> length (asns_of cs)")
    case True
    then have "map effective_asn (take m (all_rounds k cs)) = take m (asns_of cs)"
      by (simp add: rest len) (metis first take_map)
    then have "effective_asn ` set (take m (all_rounds k cs)) = set (take m (asns_of cs))"
      by (metis list.set_map)
    then show ?thesis using True n by (simp add: distinct_card asns_of)
  next
    case False
    have "effective_asn ` set cs = effective_asn ` set ?first"
      using first asns_of(1) [of cs] by (metis list.set_map)
    also have "\<dots> \<subseteq> effective_asn ` set (take m (all_rounds k cs))"
      using False by (simp add: rest len) blast
    finally have "effective_asn ` set (take m (all_rounds k cs)) = effective_asn ` set cs"
      using set_all_rounds [of k cs] set_take_subset [of m "all_rounds k cs"] by blast
    then show ?thesis using False n by simp
  qed
qed

text \<open>
  C36: the selection of peers. Of each network it takes the first candidates in their order and no
  more than the limit; it takes as many peers in all as these limits and the number asked for allow;
  and it covers as many different networks as possible, all of them when enough peers are asked for.
\<close>

theorem select_diverse_peers_correct:
  "let sel = select_diverse_peers cs policy m; k = max_peers_per_asn policy
   in (\<forall>a. prefix (filter (\<lambda>c. effective_asn c = a) sel) (take k (filter (\<lambda>c. effective_asn c = a) cs))) \<and>
      length sel = min m (\<Sum>a \<in> effective_asn ` set cs. min k (length (filter (\<lambda>c. effective_asn c = a) cs))) \<and>
      card (effective_asn ` set sel) = (if k = 0 then 0 else min m (card (effective_asn ` set cs)))"
proof -
  let ?k = "max_peers_per_asn policy"
  let ?sel = "take m (all_rounds ?k cs)"
  have "prefix (filter (in_asn a) ?sel) (take ?k (filter (in_asn a) cs))" for a
  proof -
    have "filter (in_asn a) (all_rounds ?k cs) = filter (in_asn a) ?sel @ filter (in_asn a) (drop m (all_rounds ?k cs))"
      by (metis append_take_drop_id filter_append)
    then show ?thesis by (simp flip: filter_all_rounds)
  qed
  moreover have "length ?sel = min m (\<Sum>a \<in> effective_asn ` set cs. min ?k (length (filter (in_asn a) cs)))"
  proof -
    have "length (all_rounds ?k cs) = (\<Sum>a \<in> effective_asn ` set cs. length (filter (in_asn a) (all_rounds ?k cs)))"
      by (rule length_by_class) (use set_all_rounds [of ?k cs] in auto)
    then show ?thesis by (simp add: filter_all_rounds min.commute)
  qed
  moreover have "card (effective_asn ` set ?sel) = (if ?k = 0 then 0 else min m (card (effective_asn ` set cs)))"
  proof (cases "?k = 0")
    case True
    then have "all_rounds ?k cs = []" by (simp add: all_rounds_def round_items_def)
    with True show ?thesis by simp
  qed (simp add: card_asns_taken)
  ultimately show ?thesis by (simp add: select_diverse_peers_eq)
qed

section \<open>Rotation, discovery and rate limits\<close>

lemma kept_and_evicted:
  fixes ident :: "'a \<Rightarrow> 'b::linorder"
  shows "length (filter (\<lambda>p. \<not> bs_contains (bs_from_list (map ident (filter P xs))) (ident p)) xs)
     + length (bs_elems (bs_from_list (map ident (filter P xs)))) \<le> length xs"
proof -
  let ?stale = "ident ` set (filter P xs)"
  have "length (bs_elems (bs_from_list (map ident (filter P xs)))) = card ?stale"
    by (simp add: bs_elems_from_list flip: distinct_card [OF ssorted_imp_distinct [OF ssorted_sort_dedup]])
  also have "\<dots> \<le> length (filter (\<lambda>p. ident p \<in> ?stale) xs)"
  proof -
    have "?stale \<subseteq> set (map ident (filter (\<lambda>p. ident p \<in> ?stale) xs))" by auto
    then have "card ?stale \<le> card (set (map ident (filter (\<lambda>p. ident p \<in> ?stale) xs)))"
      by (intro card_mono) auto
    then show ?thesis using card_length [of "map ident (filter (\<lambda>p. ident p \<in> ?stale) xs)"] by simp
  qed
  finally show ?thesis
    using sum_length_filter_compl [of "\<lambda>p. ident p \<in> ?stale" xs] by simp
qed

text \<open>A rotation never makes the set of peers larger, and every peer that is kept was seen recently.\<close>

lemma rotation_bounded:
  "length (fst (rotate_peers current candidates policy now)) \<le> length current"
proof -
  have "length (select_diverse_peers cs policy m) \<le> m" for cs m
    by (simp add: select_diverse_peers_eq)
  then show ?thesis
    using kept_and_evicted [of "\<lambda>p. pi_id (md_info p)"
        "\<lambda>p. rotation_interval_ms policy < saturating_sub (physical_ms now) (physical_ms (md_last_seen p))" current]
    by (simp add: rotate_peers_def identify_stale_peers_def Let_def) (meson add_left_mono order_trans)
qed

text \<open>
  Candidates are not checked for their age, and only the peers that remain are excluded: a peer that has
  just been evicted is taken back when it is among the candidates.
\<close>

lemma rotation_readmits:
  assumes "rotation_interval_ms policy < saturating_sub (physical_ms now) (physical_ms (md_last_seen p))"
    and "0 < max_peers_per_asn policy"
  shows "rotate_peers [p] [p] policy now = ([p], [pi_id (md_info p)])"
proof -
  have one: "bs_elems (bs_from_list [x]) = [x]" for x :: peer_id
    by (simp add: bs_elems_from_list sort_dedup_def)
  then have "bm_len (bs_from_list [x]) = Suc 0" for x :: peer_id
    by (metis length_bm_keys length_Cons list.size(3))
  moreover have "select_diverse_peers [p] policy (Suc 0) = [p]"
    using assms(2) by (simp add: select_diverse_peers_eq all_rounds_def asns_of_def sort_dedup_def round_items_def)
  ultimately show ?thesis
    using assms(1) one by (simp add: rotate_peers_def identify_stale_peers_def Let_def)
qed

text \<open>The name made for a bootstrap address is always a valid identifier, so discovery never fails.\<close>

lemma did_char_hex: "n < 16 \<Longrightarrow> did_char (hex_digit n)"
  by (auto simp: hex_digit_def did_char_def is_ascii_alphanumeric_def Let_def)

lemma bootstrap_did_ok: "\<exists>d. bootstrap_did blake3 addr = Inr d"
proof -
  have "unat b div 16 < 16 \<and> unat b mod 16 < 16" for b :: u8
  proof -
    have "unat b < 2 ^ 8" using unsigned_less [of b] by simp
    then show ?thesis by (simp add: less_mult_imp_div_less)
  qed
  then have hex: "list_all did_char (hash_display h)" for h
    by (auto simp: hash_display_def list_all_iff did_char_hex)
  have "strip_prefix ''did:exo:'' (''did:exo:'' @ r) = Some r" for r by (simp add: strip_prefix_eq_Some)
  from this [of "''peer-'' @ hash_display (Hash256 (blake3 (str_bytes addr)))"] hex show ?thesis
    by (simp add: bootstrap_did_def did_new_def did_validate_def did_char_def is_ascii_alphanumeric_def)
qed

lemma discovery_total:
  "\<exists>r' ps. discover_peers blake3 r bootstrap = (r', Ok ps) \<and>
     (\<forall>p. bm_contains (peers r') p \<longleftrightarrow> bm_contains (peers r) p \<or> p \<in> set ps) \<and>
     (\<forall>p. bm_contains (peers r) p \<longrightarrow> pr_get r' p = pr_get r p) \<and>
     distinct ps \<and> (\<forall>p \<in> set ps. \<not> bm_contains (peers r) p)"
proof -
  have "\<exists>r' ps. discover_loop blake3 r found bootstrap = (r', Ok (found @ ps)) \<and>
     (\<forall>p. bm_contains (peers r') p \<longleftrightarrow> bm_contains (peers r) p \<or> p \<in> set ps) \<and>
     (\<forall>p. bm_contains (peers r) p \<longrightarrow> pr_get r' p = pr_get r p) \<and>
     distinct ps \<and> (\<forall>p \<in> set ps. \<not> bm_contains (peers r) p)" for r found
  proof (induction bootstrap arbitrary: r found)
    case (Cons addr bootstrap)
    obtain p where p: "bootstrap_did blake3 addr = Inr p" using bootstrap_did_ok by blast
    show ?case
    proof (cases "bm_contains (peers r) p")
      case True
      then show ?thesis using Cons [of r found] p by simp
    next
      case False
      let ?r = "pr_register r \<lparr>pi_id = p, pi_addresses = [addr], pi_public_key_hash = digest blake3 (str_bytes addr),
                               pi_last_seen = TS_ZERO, pi_reputation_score = 50\<rparr>"
      have r: "bm_contains (peers ?r) q \<longleftrightarrow> q = p \<or> bm_contains (peers r) q"
        "q \<noteq> p \<Longrightarrow> pr_get ?r q = pr_get r q" for q
        by (simp_all add: pr_register_def pr_get_def)
      from Cons [of ?r "found @ [p]"] obtain r' ps where
        run: "discover_loop blake3 ?r (found @ [p]) bootstrap = (r', Ok (found @ [p] @ ps))"
        and ps: "\<forall>q. bm_contains (peers r') q \<longleftrightarrow> bm_contains (peers ?r) q \<or> q \<in> set ps"
          "\<forall>q. bm_contains (peers ?r) q \<longrightarrow> pr_get r' q = pr_get ?r q"
          "distinct ps" "\<forall>q \<in> set ps. \<not> bm_contains (peers ?r) q" by auto
      have "discover_loop blake3 r found (addr # bootstrap) = (r', Ok (found @ (p # ps)))"
        using False p run by simp
      moreover have "\<forall>q. bm_contains (peers r') q \<longleftrightarrow> bm_contains (peers r) q \<or> q \<in> set (p # ps)"
        using ps(1) r(1) by auto
      moreover have "\<forall>q. bm_contains (peers r) q \<longrightarrow> pr_get r' q = pr_get r q"
        using ps(2) r False by metis
      moreover have "distinct (p # ps)" "\<forall>q \<in> set (p # ps). \<not> bm_contains (peers r) q"
        using ps(3,4) r(1) False by auto
      ultimately show ?thesis by blast
    qed
  qed auto
  from this [of r "[]"] show ?thesis by (simp add: discover_peers_def)
qed

text \<open>
  Rate limits: of the calls in one window each peer has exactly its first hundred accepted, whatever the
  calls of the other peers.
\<close>

fun rl_run :: "rate_limiter \<Rightarrow> peer_id list \<Rightarrow> bool list" where
  "rl_run l [] = []"
| "rl_run l (p # ps) = (case check_and_increment l p of (l', r) \<Rightarrow> (r = Ok ()) # rl_run l' ps)"

definition rl_count :: "rate_limiter \<Rightarrow> peer_id \<Rightarrow> nat" where
  "rl_count l p = (case bm_get (rl_counts l) p of Some n \<Rightarrow> unat n | None \<Rightarrow> 0)"

lemma check_and_increment_count:
  assumes "rl_count l p \<le> 100"
  shows "(snd (check_and_increment l p) = Ok ()) \<longleftrightarrow> rl_count l p < 100"
    and "rl_count (fst (check_and_increment l p)) q = (if q = p then min 100 (rl_count l p + 1) else rl_count l q)"
proof -
  have inc: "unat (n + 1) = unat n + 1" if "unat n < 100" for n :: u32
    using that by (simp add: unat_word_ariths)
  show "(snd (check_and_increment l p) = Ok ()) \<longleftrightarrow> rl_count l p < 100"
    by (auto simp: check_and_increment_def rl_count_def MAX_PER_WINDOW_def word_le_nat_alt Let_def split: option.splits)
  show "rl_count (fst (check_and_increment l p)) q = (if q = p then min 100 (rl_count l p + 1) else rl_count l q)"
    using assms inc
    by (auto simp: check_and_increment_def rl_count_def MAX_PER_WINDOW_def word_le_nat_alt Let_def min_def
        split: option.splits)
qed

lemma rate_limit_exact:
  "\<forall>p. rl_count l p \<le> 100 \<Longrightarrow>
     length (filter (\<lambda>(q, ok). q = p \<and> ok) (zip ps (rl_run l ps))) = min (100 - rl_count l p) (count_list ps p)"
proof (induction ps arbitrary: l)
  case (Cons q ps)
  let ?l = "fst (check_and_increment l q)"
  note c = check_and_increment_count [OF Cons.prems [THEN spec], of q]
  have "\<forall>p. rl_count ?l p \<le> 100" using Cons.prems by (auto simp: c(2))
  note IH = Cons.IH [OF this]
  have run: "rl_run l (q # ps) = (rl_count l q < 100) # rl_run ?l ps"
    by (cases "check_and_increment l q") (use c(1) in simp)
  have le: "rl_count l q \<le> 100" using Cons.prems by blast
  have step: "length (filter (\<lambda>(q, ok). q = p \<and> ok) (zip (q # ps) (rl_run l (q # ps)))) =
      (if q = p \<and> rl_count l q < 100 then 1 else 0) + min (100 - rl_count ?l p) (count_list ps p)"
    unfolding run IH [symmetric] by auto
  have "rl_count ?l p = (if p = q then min 100 (rl_count l q + 1) else rl_count l p)" by (rule c(2))
  then show ?case unfolding step using le by (cases "q = p") auto
qed simp

text \<open>A message with a post-quantum signature only is refused as if it had none.\<close>

lemma pq_message_refused: "verify_message (m\<lparr>pm_signature := PostQuantum s\<rparr>) = Err (ApiVerificationFailed ''empty signature'')"
  by (simp add: verify_message_def sig_as_bytes_def)

end
