(* ===== verification/Core_Display.thy ===== *)
theory Core_Display
  imports Core_Types
begin

text \<open>
  The textual forms of the value types of \<open>src/crates/exo-core/src/types.rs\<close> (\<open>Display\<close> and \<open>Debug\<close>).
  Other crates store them and hash them, so what matters is which of them determine the value: the
  displayed hash, timestamp, version and public key do; a displayed signature does together with its
  algorithm; the debug forms of keys and signatures show a prefix only, those of secrets nothing.
\<close>

section \<open>Printing\<close>

definition hex_byte :: "u8 \<Rightarrow> string" where
  "hex_byte b = [hex_digit (unat b div 16), hex_digit (unat b mod 16)]"

definition hex_bytes :: "bytes \<Rightarrow> string" where
  "hex_bytes bs = concat (map hex_byte bs)"

definition hex_prefix :: "bytes \<Rightarrow> string" where
  "hex_prefix bs = concat (map hex_byte (take 4 bs))"

fun sig_debug :: "signature \<Rightarrow> string" where
  "sig_debug (Ed25519 b) = ''Signature::Ed25519('' @ hex_prefix (bytes64 b) @ ''..)''"
| "sig_debug (PostQuantum b) =
     ''Signature::PostQuantum('' @ hex_prefix b @ ''..'' @ show_nat (length b) @ ''B)''"
| "sig_debug (Hybrid classical pq) =
     ''Signature::Hybrid('' @ hex_prefix (bytes64 classical) @ ''..+'' @ show_nat (length pq) @ ''B)''"
| "sig_debug SigEmpty = ''Signature::Empty''"

fun sig_display :: "signature \<Rightarrow> string" where
  "sig_display (Ed25519 b) = hex_bytes (bytes64 b)"
| "sig_display (PostQuantum b) = hex_bytes b"
| "sig_display (Hybrid classical pq) = hex_bytes (bytes64 classical) @ '':'' @ hex_bytes pq"
| "sig_display SigEmpty = ''empty''"

definition pk_debug :: "public_key \<Rightarrow> string" where
  "pk_debug k = ''PublicKey('' @ hex_prefix (bytes32 (pk_arr k)) @ ''..)''"

definition pk_display :: "public_key \<Rightarrow> string" where
  "pk_display k = hex_bytes (bytes32 (pk_arr k))"

definition sk_debug :: "secret_key \<Rightarrow> string" where
  "sk_debug k = ''SecretKey(***)''"

definition pq_pk_debug :: "pq_public_key \<Rightarrow> string" where
  "pq_pk_debug k =
     ''PqPublicKey('' @ hex_prefix (pq_pk_bytes k) @ ''..'' @ show_nat (length (pq_pk_bytes k)) @ ''B)''"

definition pq_pk_display :: "pq_public_key \<Rightarrow> string" where
  "pq_pk_display k = ''PqPublicKey('' @ hex_prefix (pq_pk_bytes k) @ ''..)''"

definition pq_sk_debug :: "pq_secret_key \<Rightarrow> string" where
  "pq_sk_debug k = ''PqSecretKey(***)''"

definition did_display :: "did \<Rightarrow> string" where
  "did_display d = did_str d"

text \<open>The text of a UUID comes from the crate \<open>uuid\<close>.\<close>

fun correlation_debug :: "(128 word \<Rightarrow> string) \<Rightarrow> correlation_id \<Rightarrow> string" where
  "correlation_debug show_uuid (CorrelationId u) = ''CorrelationId('' @ show_uuid u @ '')''"

fun correlation_display :: "(128 word \<Rightarrow> string) \<Rightarrow> correlation_id \<Rightarrow> string" where
  "correlation_display show_uuid (CorrelationId u) = show_uuid u"

definition ts_display :: "timestamp \<Rightarrow> string" where
  "ts_display t = show_nat (unat (physical_ms t)) @ '':'' @ show_nat (unat (logical t))"

definition version_display :: "version \<Rightarrow> string" where
  "version_display v = ''v'' @ show_nat (unat (version_value v))"

section \<open>Digits\<close>

lemma of_char_hex_digit: "n < 16 \<Longrightarrow> of_char (hex_digit n) = (if n < 10 then 48 + n else 87 + n)"
  by (simp add: hex_digit_def)

lemma hex_digit_inject:
  assumes "m < 16" "n < 16"
  shows "hex_digit m = hex_digit n \<longleftrightarrow> m = n"
proof
  assume "hex_digit m = hex_digit n"
  then have "(of_char (hex_digit m) :: nat) = of_char (hex_digit n)" by simp
  then show "m = n" unfolding of_char_hex_digit [OF assms(1)] of_char_hex_digit [OF assms(2)]
    by (auto split: if_splits)
qed simp

lemma hex_digit_neq: "n < 16 \<Longrightarrow> hex_digit n \<noteq> CHR '':'' \<and> hex_digit n \<noteq> CHR ''|''"
  using of_char_hex_digit [of n] by (auto split: if_splits)

lemma u8_div_16: "unat b div 16 < 16" for b :: u8
  using unsigned_less [of b] by (simp add: div_less_iff_less_mult)

lemma hex_byte_inject [simp]: "hex_byte a = hex_byte b \<longleftrightarrow> a = b"
proof -
  have "unat a = unat b" if "unat a div 16 = unat b div 16" "unat a mod 16 = unat b mod 16"
    using that by (metis mult_div_mod_eq)
  then show ?thesis by (auto simp: hex_byte_def hex_digit_inject u8_div_16 word_unat_eq_iff)
qed

lemma length_hex_byte [simp]: "length (hex_byte b) = 2"
  by (simp add: hex_byte_def)

lemma hex_bytes_inject [simp]: "hex_bytes bs = hex_bytes cs \<longleftrightarrow> bs = cs"
proof (induction bs arbitrary: cs)
  case Nil
  then show ?case by (cases cs) (auto simp: hex_bytes_def hex_byte_def)
next
  case (Cons b bs)
  then show ?case by (cases cs) (auto simp: hex_bytes_def dest: arg_cong [of _ _ length])
qed

lemma length_hex_bytes [simp]: "length (hex_bytes bs) = 2 * length bs"
  by (induction bs) (simp_all add: hex_bytes_def)

lemma set_hex_bytes: "CHR '':'' \<notin> set (hex_bytes bs)" "CHR ''|'' \<notin> set (hex_bytes bs)"
proof -
  show "CHR '':'' \<notin> set (hex_bytes bs)" "CHR ''|'' \<notin> set (hex_bytes bs)"
    using hex_digit_neq [OF u8_div_16] hex_digit_neq [of "unat x mod 16" for x :: u8]
    by (auto simp: hex_bytes_def hex_byte_def) (metis mod_less_divisor zero_less_numeral)+
qed

lemma hash_display_hex: "hash_display h = hex_bytes (hash_bytes h)"
  by (simp add: hash_display_def hex_bytes_def hex_byte_def [abs_def])

lemma hash_display_inject [simp]: "hash_display g = hash_display h \<longleftrightarrow> g = h"
  by (simp add: hash_display_hex)

lemma length_hash_display [simp]: "length (hash_display h) = 64"
  by (simp add: hash_display_hex)

lemma digit_hex_digit: "d < 10 \<Longrightarrow> char_of (48 + d) = hex_digit d" for d :: nat
  by (simp add: hex_digit_def)

lemma char_digit_inject: "m < 10 \<Longrightarrow> n < 10 \<Longrightarrow> (char_of (48 + m) :: char) = char_of (48 + n) \<longleftrightarrow> m = n" for m n :: nat
  by (simp add: digit_hex_digit hex_digit_inject)

lemma show_nat_not_Nil [simp]: "show_nat n \<noteq> []"
  by (simp add: show_nat.simps [of n])

lemma show_nat_inject [simp]: "show_nat m = show_nat n \<longleftrightarrow> m = n"
proof
  show "m = n" if "show_nat m = show_nat n"
    using that
  proof (induction m arbitrary: n rule: show_nat.induct)
    case (1 m)
    have 10: "length (show_nat k) = 1 \<longleftrightarrow> k < 10" for k
      by (simp add: show_nat.simps [of k])
    then have lt: "m < 10 \<longleftrightarrow> n < 10" using 1(2) by metis
    show ?case
    proof (cases "m < 10")
      case True
      with 1(2) lt show ?thesis
        by (simp add: show_nat.simps [of m] show_nat.simps [of n] char_digit_inject)
    next
      case False
      with 1(2) lt have eq: "show_nat (m div 10) = show_nat (n div 10)" "m mod 10 = n mod 10"
        by (simp_all add: show_nat.simps [of m] show_nat.simps [of n] char_digit_inject)
      with 1(1) False have "m div 10 = n div 10" by blast
      with eq(2) show ?thesis by (metis mult_div_mod_eq)
    qed
  qed
qed simp

lemma show_nat_digits: "c \<in> set (show_nat n) \<Longrightarrow> \<exists>d::nat < 10. c = hex_digit d"
proof (induction n rule: show_nat.induct)
  case (1 n)
  show ?case
  proof (cases "n < 10 \<or> c \<in> set (show_nat (n div 10))")
    case True
    then show ?thesis
    proof (cases "n < 10")
      case False
      with True 1(1) show ?thesis by simp
    qed (use 1(2) in \<open>auto simp: show_nat.simps [of n] digit_hex_digit\<close>)
  next
    case False
    with 1(2) have "c = hex_digit (n mod 10)" by (simp add: show_nat.simps [of n] digit_hex_digit)
    then show ?thesis by (intro exI [of _ "n mod 10"]) simp
  qed
qed

lemma digit_chars: "d < 10 \<Longrightarrow> hex_digit d \<notin> {CHR '':'', CHR ''|'', CHR ''.'', CHR ''+'', CHR ''-''}" for d :: nat
  using of_char_hex_digit [of d] by auto

lemma set_show_nat: "CHR '':'' \<notin> set (show_nat n)" "CHR ''|'' \<notin> set (show_nat n)" "CHR ''.'' \<notin> set (show_nat n)"
  "CHR ''+'' \<notin> set (show_nat n)" "CHR ''-'' \<notin> set (show_nat n)"
  using show_nat_digits [of _ n] digit_chars by (metis insertCI)+

text \<open>A separator that the first part does not contain splits a string in one way only.\<close>

lemma split_at_separator:
  "c \<notin> set a \<Longrightarrow> c \<notin> set a' \<Longrightarrow> a @ c # b = a' @ c # b' \<longleftrightarrow> a = a' \<and> b = b'"
proof (induction a arbitrary: a')
  case Nil
  then show ?case by (cases a') auto
next
  case (Cons x a)
  then show ?case by (cases a') auto
qed

section \<open>What the printed forms determine\<close>

lemma ts_display_inject [simp]: "ts_display s = ts_display t \<longleftrightarrow> s = t"
  by (auto simp: ts_display_def split_at_separator set_show_nat word_unat_eq_iff intro: timestamp.expand)

lemma version_display_inject: "version_display v = version_display w \<longleftrightarrow> v = w"
  by (auto simp: version_display_def word_unat_eq_iff intro: version.expand)

lemma pk_display_inject: "pk_display k = pk_display k' \<longleftrightarrow> k = k'"
  by (auto simp: pk_display_def bytes32_inject intro: public_key.expand)

lemma sig_display_inject:
  "sig_algorithm s = sig_algorithm t \<Longrightarrow> sig_display s = sig_display t \<longleftrightarrow> s = t"
  by (cases s; cases t) (auto simp: sig_algorithm_def bytes64_inject split_at_separator set_hex_bytes)

text \<open>
  Without the algorithm it does not: an Ed25519 signature is displayed as a post-quantum signature of
  the same bytes. And secrets are never printed.
\<close>

lemma sig_display_ambiguous: "sig_display (Ed25519 b) = sig_display (PostQuantum (bytes64 b))"
  by simp

lemma secrets_not_printed: "sk_debug k = sk_debug k'" "pq_sk_debug q = pq_sk_debug q'"
  by (simp_all add: sk_debug_def pq_sk_debug_def)

end
