(* ===== verification/Gateway.thy ===== *)
theory Gateway
  imports Core_Display "HOL-Library.Multiset"
begin

text \<open>
  The request pipeline of the HTTP gateway (\<open>src/crates/exo-gateway/src\<close>: \<open>error.rs\<close>, \<open>auth.rs\<close>,
  \<open>middleware.rs\<close>, \<open>routes.rs\<close>, \<open>rest.rs\<close>, \<open>server.rs\<close>). The clock readings, the fresh identifiers, the
  package version and the answer of the database to the readiness query are arguments; sockets, the
  asynchronous runtime and the dispatch of the web framework are not modelled, the route table is.
\<close>

section \<open>Errors\<close>

datatype gateway_error =
    AuthenticationFailed string
  | GwConsentDenied string
  | GovernanceDenied string
  | GwNotFound string
  | GwInternal string
  | GwBadRequest string

fun gateway_error_display :: "gateway_error \<Rightarrow> string" where
  "gateway_error_display (AuthenticationFailed r) = ''authentication failed: '' @ r"
| "gateway_error_display (GwConsentDenied r) = ''consent denied: '' @ r"
| "gateway_error_display (GovernanceDenied r) = ''governance denied: '' @ r"
| "gateway_error_display (GwNotFound r) = ''not found: '' @ r"
| "gateway_error_display (GwInternal r) = ''internal error: '' @ r"
| "gateway_error_display (GwBadRequest r) = ''bad request: '' @ r"

section \<open>Authentication\<close>

definition FRESHNESS_WINDOW_MS :: u64 where
  "FRESHNESS_WINDOW_MS = 300000"

record gw_request =
  gr_actor_did :: string
  gr_action :: string
  gr_body_hash :: hash256
  gr_signature :: signature
  gr_timestamp :: timestamp

record authenticated_actor =
  aa_did :: did
  aa_authenticated_at :: timestamp

text \<open>\<open>check_freshness\<close>, with the reading of the system clock as its first argument.\<close>

definition check_freshness :: "u64 \<Rightarrow> timestamp \<Rightarrow> (unit, gateway_error) result" where
  "check_freshness now_ms ts =
     (let skew_ms = abs_diff now_ms (physical_ms ts) in
      if skew_ms > FRESHNESS_WINDOW_MS
      then Err (AuthenticationFailed (''request timestamp outside freshness window: skew '' @
             show_nat (unat skew_ms) @ ''ms (max '' @ show_nat (unat FRESHNESS_WINDOW_MS) @ ''ms)''))
      else Ok ())"

definition authenticate :: "u64 \<Rightarrow> gw_request \<Rightarrow> (authenticated_actor, gateway_error) result" where
  "authenticate now_ms request =
     (case did_new (gr_actor_did request) of
        Inl _ \<Rightarrow> Err (AuthenticationFailed (''invalid DID: '' @ gr_actor_did request))
      | Inr d \<Rightarrow>
          if sig_is_empty (gr_signature request)
          then Err (AuthenticationFailed ''empty signature'')
          else and_then (check_freshness now_ms (gr_timestamp request)) (\<lambda>_.
            Ok \<lparr>aa_did = d, aa_authenticated_at = gr_timestamp request\<rparr>))"

section \<open>Middleware\<close>

datatype gw_verdict = GwAllow | GwDeny string | GwEscalate string

record gw_audit_entry =
  ga_actor :: did
  ga_action :: string
  ga_timestamp :: timestamp
  ga_outcome :: string

type_synonym gw_audit_log = "gw_audit_entry list"

definition gw_log_new :: gw_audit_log where
  "gw_log_new = []"

definition gw_log_record :: "gw_audit_log \<Rightarrow> gw_audit_entry \<Rightarrow> gw_audit_log" where
  "gw_log_record log entry = log @ [entry]"

definition consent_middleware :: "did \<Rightarrow> string \<Rightarrow> bool \<Rightarrow> (unit, gateway_error) result" where
  "consent_middleware actor action consent_granted =
     (if consent_granted then Ok () else Err (GwConsentDenied (''no consent for '' @ did_display actor)))"

fun governance_middleware :: "did \<Rightarrow> string \<Rightarrow> gw_verdict \<Rightarrow> (unit, gateway_error) result" where
  "governance_middleware actor action GwAllow = Ok ()"
| "governance_middleware actor action (GwDeny reason) = Err (GovernanceDenied reason)"
| "governance_middleware actor action (GwEscalate reason) = Err (GovernanceDenied (''escalated: '' @ reason))"

definition audit_middleware ::
    "did \<Rightarrow> string \<Rightarrow> string \<Rightarrow> timestamp \<Rightarrow> gw_audit_log \<Rightarrow> gw_audit_log \<times> (unit, gateway_error) result" where
  "audit_middleware actor action outcome ts log =
     (if ts = TS_ZERO
      then (log, Err (GwBadRequest ''audit timestamp must not be Timestamp::ZERO; provide a real HLC timestamp''))
      else (gw_log_record log
              \<lparr>ga_actor = actor, ga_action = action, ga_timestamp = ts, ga_outcome = outcome\<rparr>, Ok ()))"

section \<open>Routes\<close>

datatype gw_route =
    CreateTransaction | TransitionState | QueryTransaction | GetReceipt | ResolveIdentity
  | RegisterIdentity | Deliberate | GwVote | GwChallenge

record route_result =
  rr_route :: gw_route
  rr_status :: string
  rr_correlation_id :: "128 word"

text \<open>
  \<open>process_request\<close>: the arguments after the request data are the two readings of the clock, in the
  freshness check and before the audit entry, and the random correlation identifier.
\<close>

definition process_request ::
    "gw_request \<Rightarrow> gw_route \<Rightarrow> bool \<Rightarrow> gw_verdict \<Rightarrow> u64 \<Rightarrow> u64 \<Rightarrow> 128 word \<Rightarrow> gw_audit_log \<Rightarrow>
       gw_audit_log \<times> (route_result, gateway_error) result" where
  "process_request request route consent verdict now_ms audit_ms uuid log =
     (case authenticate now_ms request of
        Inl e \<Rightarrow> (log, Err e)
      | Inr actor \<Rightarrow>
          (case consent_middleware (aa_did actor) (gr_action request) consent of
             Inl e \<Rightarrow> (log, Err e)
           | Inr _ \<Rightarrow>
               (case governance_middleware (aa_did actor) (gr_action request) verdict of
                  Inl e \<Rightarrow> (log, Err e)
                | Inr _ \<Rightarrow>
                    (case audit_middleware (aa_did actor) (gr_action request) ''success'' (now_utc audit_ms) log of
                       (log', Inl e) \<Rightarrow> (log', Err e)
                     | (log', Inr _) \<Rightarrow>
                         (log', Ok \<lparr>rr_route = route, rr_status = ''ok'', rr_correlation_id = uuid\<rparr>)))))"

definition default_deny_check :: "did \<Rightarrow> string \<Rightarrow> (unit, gateway_error) result" where
  "default_deny_check actor action =
     Err (GwConsentDenied (''default-deny: '' @ did_display actor @ '' cannot '' @ action @
       '' without explicit consent''))"

section \<open>REST routes\<close>

datatype rest_route =
    RHealth | GetDecision | CreateDecision | AuthToken | SamlCallback | GetConstitution
  | EDiscoveryExport | AuditTrail | AuthRegister | AuthLogin | AuthRefresh | AuthMe | AuthLogout
  | AgentEnroll | ListAgents | GetAgent | AdvanceAgentPace | GetIdentityScore | ListUsers
  | AdvanceUserPace

record health_response =
  hr_status :: string
  hr_version :: string
  hr_uptime_seconds :: u64

definition rest_method :: "rest_route \<Rightarrow> string" where
  "rest_method r =
     (case r of
        RHealth \<Rightarrow> ''GET'' | GetDecision \<Rightarrow> ''GET'' | GetConstitution \<Rightarrow> ''GET'' | AuditTrail \<Rightarrow> ''GET''
      | AuthMe \<Rightarrow> ''GET'' | ListAgents \<Rightarrow> ''GET'' | GetAgent \<Rightarrow> ''GET'' | GetIdentityScore \<Rightarrow> ''GET''
      | ListUsers \<Rightarrow> ''GET''
      | CreateDecision \<Rightarrow> ''POST'' | AuthToken \<Rightarrow> ''POST'' | SamlCallback \<Rightarrow> ''POST''
      | EDiscoveryExport \<Rightarrow> ''POST'' | AuthRegister \<Rightarrow> ''POST'' | AuthLogin \<Rightarrow> ''POST''
      | AuthRefresh \<Rightarrow> ''POST'' | AuthLogout \<Rightarrow> ''POST'' | AgentEnroll \<Rightarrow> ''POST''
      | AdvanceAgentPace \<Rightarrow> ''POST'' | AdvanceUserPace \<Rightarrow> ''POST'')"

definition rest_path :: "rest_route \<Rightarrow> string" where
  "rest_path r =
     (case r of
        RHealth \<Rightarrow> ''/health''
      | GetDecision \<Rightarrow> ''/api/v1/decisions/:id''
      | CreateDecision \<Rightarrow> ''/api/v1/decisions''
      | AuthToken \<Rightarrow> ''/api/v1/auth/token''
      | SamlCallback \<Rightarrow> ''/api/v1/auth/saml/callback''
      | GetConstitution \<Rightarrow> ''/api/v1/tenants/:id/constitution''
      | EDiscoveryExport \<Rightarrow> ''/api/v1/ediscovery/export''
      | AuditTrail \<Rightarrow> ''/api/v1/audit/:decision_id''
      | AuthRegister \<Rightarrow> ''/api/v1/auth/register''
      | AuthLogin \<Rightarrow> ''/api/v1/auth/login''
      | AuthRefresh \<Rightarrow> ''/api/v1/auth/refresh''
      | AuthMe \<Rightarrow> ''/api/v1/auth/me''
      | AuthLogout \<Rightarrow> ''/api/v1/auth/logout''
      | AgentEnroll \<Rightarrow> ''/api/v1/agents/enroll''
      | ListAgents \<Rightarrow> ''/api/v1/agents''
      | GetAgent \<Rightarrow> ''/api/v1/agents/:did''
      | AdvanceAgentPace \<Rightarrow> ''/api/v1/agents/:did/advance-pace''
      | GetIdentityScore \<Rightarrow> ''/api/v1/identity/:did/score''
      | ListUsers \<Rightarrow> ''/api/v1/users''
      | AdvanceUserPace \<Rightarrow> ''/api/v1/users/:did/advance-pace'')"

definition rest_all :: "rest_route list" where
  "rest_all =
     [RHealth, GetDecision, CreateDecision, AuthToken, SamlCallback, GetConstitution, EDiscoveryExport,
      AuditTrail, AuthRegister, AuthLogin, AuthRefresh, AuthMe, AuthLogout, AgentEnroll, ListAgents,
      GetAgent, AdvanceAgentPace, GetIdentityScore, ListUsers, AdvanceUserPace]"

section \<open>Server\<close>

record tls_config =
  tls_cert_path :: string
  tls_key_path :: string

record gateway_config =
  gc_bind_address :: string
  gc_tls_config :: "tls_config option"
  gc_max_connections :: u32

definition gateway_config_default :: gateway_config where
  "gateway_config_default = \<lparr>gc_bind_address = ''127.0.0.1:8443'', gc_tls_config = None, gc_max_connections = 1024\<rparr>"

record gateway_handle =
  gh_config :: gateway_config
  gh_running :: bool

definition gateway_start :: "gateway_config \<Rightarrow> (gateway_handle, gateway_error) result" where
  "gateway_start config =
     (if gc_bind_address config = [] then Err (GwBadRequest ''bind_address cannot be empty'')
      else if gc_max_connections config = 0 then Err (GwBadRequest ''max_connections must be > 0'')
      else Ok \<lparr>gh_config = config, gh_running = True\<rparr>)"

text \<open>
  The state of the server: the pool, if one is configured, stands for its answer to the readiness
  query, and the time of the start. The current time is an argument of the handlers.
\<close>

record server_state =
  ss_pool :: "(unit, unit) result option"
  ss_start_ms :: u64

definition uptime_seconds :: "u64 \<Rightarrow> server_state \<Rightarrow> u64" where
  "uptime_seconds now s = saturating_sub now (ss_start_ms s) div 1000"

definition handle_health :: "string \<Rightarrow> u64 \<Rightarrow> server_state \<Rightarrow> health_response" where
  "handle_health pkg_version now s =
     \<lparr>hr_status = ''ok'', hr_version = pkg_version, hr_uptime_seconds = uptime_seconds now s\<rparr>"

definition handle_ready :: "string \<Rightarrow> u64 \<Rightarrow> server_state \<Rightarrow> nat \<times> health_response" where
  "handle_ready pkg_version now s =
     (let (status_str, http_status) =
        (case ss_pool s of
           Some (Inr _) \<Rightarrow> (''ok'', 200)
         | Some (Inl _) \<Rightarrow> (''db_unavailable'', 503)
         | None \<Rightarrow> (''no_db_configured'', 503))
      in (http_status,
          \<lparr>hr_status = status_str, hr_version = pkg_version, hr_uptime_seconds = uptime_seconds now s\<rparr>))"

definition handle_not_implemented :: "nat \<times> (string \<times> string) list" where
  "handle_not_implemented =
     (501, [(''error'', ''not_implemented''),
            (''message'', ''This endpoint is defined but not yet fully implemented. See EXOCHAIN-REM-001.'')])"

datatype gw_handler = HandleHealth | HandleReady | HandleNotImplemented

text \<open>\<open>build_router\<close>: the registered routes with their methods and handlers, in order.\<close>

definition build_router :: "(string \<times> string \<times> gw_handler) list" where
  "build_router =
     [(''/health'', ''GET'', HandleHealth),
      (''/ready'', ''GET'', HandleReady),
      (''/api/v1/decisions/:id'', ''GET'', HandleNotImplemented),
      (''/api/v1/decisions'', ''POST'', HandleNotImplemented),
      (''/api/v1/auth/token'', ''POST'', HandleNotImplemented),
      (''/api/v1/auth/saml/callback'', ''POST'', HandleNotImplemented),
      (''/api/v1/auth/register'', ''POST'', HandleNotImplemented),
      (''/api/v1/auth/login'', ''POST'', HandleNotImplemented),
      (''/api/v1/auth/refresh'', ''POST'', HandleNotImplemented),
      (''/api/v1/auth/me'', ''GET'', HandleNotImplemented),
      (''/api/v1/auth/logout'', ''POST'', HandleNotImplemented),
      (''/api/v1/agents/enroll'', ''POST'', HandleNotImplemented),
      (''/api/v1/agents'', ''GET'', HandleNotImplemented),
      (''/api/v1/agents/:did'', ''GET'', HandleNotImplemented),
      (''/api/v1/agents/:did/advance-pace'', ''POST'', HandleNotImplemented),
      (''/api/v1/identity/:did/score'', ''GET'', HandleNotImplemented),
      (''/api/v1/tenants/:id/constitution'', ''GET'', HandleNotImplemented),
      (''/api/v1/ediscovery/export'', ''POST'', HandleNotImplemented),
      (''/api/v1/audit/:decision_id'', ''GET'', HandleNotImplemented),
      (''/api/v1/users'', ''GET'', HandleNotImplemented),
      (''/api/v1/users/:did/advance-pace'', ''POST'', HandleNotImplemented)]"

section \<open>What a request needs to pass\<close>

lemma check_freshness_iff:
  "check_freshness now ts = Ok () \<longleftrightarrow> \<bar>uint now - uint (physical_ms ts)\<bar> \<le> 300000"
proof -
  have "abs_diff now (physical_ms ts) \<le> FRESHNESS_WINDOW_MS \<longleftrightarrow> \<bar>uint now - uint (physical_ms ts)\<bar> \<le> 300000"
    by (simp add: word_le_def FRESHNESS_WINDOW_MS_def uint_abs_diff)
  then show ?thesis by (auto simp: check_freshness_def Let_def not_less)
qed

text \<open>The conditions on the caller, and all conditions.\<close>

definition authentic :: "gw_request \<Rightarrow> u64 \<Rightarrow> bool" where
  "authentic request now_ms \<longleftrightarrow>
     did_validate (gr_actor_did request) = Ok () \<and> \<not> sig_is_empty (gr_signature request) \<and>
     \<bar>uint now_ms - uint (physical_ms (gr_timestamp request))\<bar> \<le> 300000"

definition passes :: "gw_request \<Rightarrow> bool \<Rightarrow> gw_verdict \<Rightarrow> u64 \<Rightarrow> u64 \<Rightarrow> bool" where
  "passes request consent verdict now_ms audit_ms \<longleftrightarrow>
     authentic request now_ms \<and> consent \<and> verdict = GwAllow \<and> audit_ms \<noteq> 0"

definition request_entry :: "gw_request \<Rightarrow> u64 \<Rightarrow> gw_audit_entry" where
  "request_entry request audit_ms =
     \<lparr>ga_actor = Did (gr_actor_did request), ga_action = gr_action request,
      ga_timestamp = Timestamp audit_ms 0, ga_outcome = ''success''\<rparr>"

lemma authenticate_cases:
  obtains (ok) "authentic request now"
      "authenticate now request = Ok \<lparr>aa_did = Did (gr_actor_did request), aa_authenticated_at = gr_timestamp request\<rparr>"
    | (failed) msg where "\<not> authentic request now" "authenticate now request = Err (AuthenticationFailed msg)"
proof (cases "did_validate (gr_actor_did request) = Ok () \<and> \<not> sig_is_empty (gr_signature request)")
  case True
  then have auth: "authenticate now request = and_then (check_freshness now (gr_timestamp request)) (\<lambda>_.
      Ok \<lparr>aa_did = Did (gr_actor_did request), aa_authenticated_at = gr_timestamp request\<rparr>)"
    by (simp add: authenticate_def did_new_def)
  show thesis
  proof (cases "check_freshness now (gr_timestamp request) = Ok ()")
    case fresh: True
    with True auth show ?thesis by (intro ok) (simp_all add: authentic_def check_freshness_iff)
  next
    case False
    then obtain msg where "check_freshness now (gr_timestamp request) = Err (AuthenticationFailed msg)"
      by (auto simp: check_freshness_def Let_def split: if_splits)
    with False auth show ?thesis by (intro failed [of msg]) (simp_all add: authentic_def flip: check_freshness_iff)
  qed
next
  case False
  then have "\<not> authentic request now" by (auto simp: authentic_def)
  moreover have "\<exists>msg. authenticate now request = Err (AuthenticationFailed msg)"
    using False by (cases "did_validate (gr_actor_did request)") (auto simp: authenticate_def did_new_def)
  ultimately show thesis using failed by blast
qed

lemma process_request_log:
  "process_request request route consent verdict now_ms audit_ms uuid log = (log', r) \<Longrightarrow>
     log' = (if isl r then log else log @ [request_entry request audit_ms])"
  by (cases rule: authenticate_cases [of request now_ms]; cases verdict)
    (auto simp: process_request_def consent_middleware_def audit_middleware_def TS_ZERO_def now_utc_def
      gw_log_record_def request_entry_def split: if_splits)

text \<open>
  C37: the gateway denies by default. A request passes exactly when its identifier is well formed, its
  signature is not empty, its timestamp is within five minutes of the clock, consent is granted, the
  verdict is to allow and the clock reads a time other than zero for the audit entry; then exactly one
  entry with its actor and action is added to the audit log. In every other case the error is that of
  the first stage that fails. No request removes or changes an entry of the log.
\<close>

theorem process_request_exact:
  "case process_request request route consent verdict now_ms audit_ms uuid log of
     (log', Inr res) \<Rightarrow>
       passes request consent verdict now_ms audit_ms \<and> log' = log @ [request_entry request audit_ms] \<and>
       rr_route res = route \<and> rr_correlation_id res = uuid
   | (log', Inl e) \<Rightarrow>
       \<not> passes request consent verdict now_ms audit_ms \<and> (\<exists>es. log' = log @ es) \<and>
       (case e of
          AuthenticationFailed _ \<Rightarrow> \<not> authentic request now_ms
        | GwConsentDenied _ \<Rightarrow> authentic request now_ms \<and> \<not> consent
        | GovernanceDenied _ \<Rightarrow> authentic request now_ms \<and> consent \<and> verdict \<noteq> GwAllow
        | GwBadRequest _ \<Rightarrow> authentic request now_ms \<and> consent \<and> verdict = GwAllow \<and> audit_ms = 0
        | _ \<Rightarrow> False)"
proof (cases rule: authenticate_cases [of request now_ms])
  case ok
  then show ?thesis
    by (cases verdict)
      (auto simp: process_request_def consent_middleware_def audit_middleware_def TS_ZERO_def now_utc_def
        gw_log_record_def passes_def request_entry_def)
next
  case (failed msg)
  then show ?thesis by (simp add: process_request_def passes_def)
qed

text \<open>
  The signature itself is not looked at: any two signatures that are not empty are treated alike.
\<close>

lemma signature_not_verified:
  assumes "\<not> sig_is_empty s" "\<not> sig_is_empty s'"
  shows "process_request (request\<lparr>gr_signature := s\<rparr>) = process_request (request\<lparr>gr_signature := s'\<rparr>)"
  using assms by (simp add: process_request_def authenticate_def fun_eq_iff cong: sum.case_cong)

section \<open>The audit log of a run\<close>

record gw_input =
  gi_request :: gw_request
  gi_route :: gw_route
  gi_consent :: bool
  gi_verdict :: gw_verdict
  gi_now_ms :: u64
  gi_audit_ms :: u64
  gi_uuid :: "128 word"

fun gw_run :: "gw_input list \<Rightarrow> gw_audit_log \<Rightarrow> gw_audit_log \<times> (route_result, gateway_error) result list" where
  "gw_run [] log = (log, [])"
| "gw_run (i # is) log =
     (let (log', r) = process_request (gi_request i) (gi_route i) (gi_consent i) (gi_verdict i) (gi_now_ms i)
                        (gi_audit_ms i) (gi_uuid i) log;
          (log'', rs) = gw_run is log'
      in (log'', r # rs))"

text \<open>
  The log of a run of requests has one entry for each request that was answered, in their order, and
  nothing of the requests that were refused.
\<close>

lemma gw_run_log:
  "gw_run is log = (log', rs) \<Longrightarrow>
     length rs = length is \<and>
     log' = log @ map (\<lambda>(i, _). request_entry (gi_request i) (gi_audit_ms i)) (filter (\<lambda>(_, r). \<not> isl r) (zip is rs))"
proof (induction "is" arbitrary: log log' rs)
  case (Cons i "is")
  obtain l r where step: "process_request (gi_request i) (gi_route i) (gi_consent i) (gi_verdict i) (gi_now_ms i)
      (gi_audit_ms i) (gi_uuid i) log = (l, r)" by force
  obtain rs' where rest: "gw_run is l = (log', rs')" "rs = r # rs'"
    using Cons.prems step by (auto split: prod.splits)
  have "l = (if isl r then log else log @ [request_entry (gi_request i) (gi_audit_ms i)])"
    using process_request_log [OF step] by simp
  with Cons.IH [OF rest(1)] rest(2) show ?case by simp
qed simp

section \<open>The route table\<close>

text \<open>
  Every route of the interface is registered with its method, only the readiness probe is registered
  beside them, no two entries overlap, and every route but the health probe answers 501.
\<close>

lemma rest_all_complete: "set rest_all = UNIV" "distinct rest_all"
proof -
  have "r \<in> set rest_all" for r by (cases r) (simp_all add: rest_all_def)
  then show "set rest_all = UNIV" by blast
qed (simp add: rest_all_def)

lemma router_matches_routes:
  "mset build_router =
     add_mset (''/ready'', ''GET'', HandleReady)
       (mset (map (\<lambda>r. (rest_path r, rest_method r, if r = RHealth then HandleHealth else HandleNotImplemented)) rest_all))"
  by (simp add: build_router_def rest_all_def rest_path_def rest_method_def)

lemma router_distinct: "distinct (map (\<lambda>(p, m, _). (p, m)) build_router)"
  by (simp add: build_router_def)

text \<open>The readiness probe reports 200 exactly when a database is configured and answers.\<close>

lemma ready_iff: "fst (handle_ready v now s) = 200 \<longleftrightarrow> (\<exists>u. ss_pool s = Some (Inr u))"
  by (auto simp: handle_ready_def Let_def split: option.splits sum.splits)

lemma uptime_bound: "unat (uptime_seconds now s) = (unat now - unat (ss_start_ms s)) div 1000"
  by (simp add: uptime_seconds_def unat_div unat_saturating_sub)

end
