(* ===== verification/Graphql.thy ===== *)
theory Graphql
  imports Core_Display Hash_Log
begin

text \<open>
  The GraphQL service of \<open>src/crates/exo-gateway/src/graphql.rs\<close> over its in-memory state: seven
  queries, nine mutations and three subscriptions. All requests take one lock, so each mutation is one
  step on the state. What a mutation sends on the broadcast channel is appended to the list
  \<open>gs_events\<close>; clock readings and random identifiers are arguments. The parsing of requests and the
  transport are those of the library and are not modelled.
\<close>

section \<open>Data\<close>

record gql_vote =
  gv_voter :: string
  gv_choice :: string
  gv_rationale :: "string option"
  gv_timestamp :: string

record gql_challenge =
  gch_id :: string
  gch_grounds :: string
  gch_status :: string

record gql_decision =
  gd_id :: string
  gd_tenant_id :: string
  gd_status :: string
  gd_title :: string
  gd_decision_class :: string
  gd_author :: string
  gd_created_at :: string
  gd_votes :: "gql_vote list"
  gd_challenges :: "gql_challenge list"
  gd_content_hash :: string

record gql_delegation =
  gdl_id :: string
  gdl_delegator :: string
  gdl_delegatee :: string
  gdl_scope :: string
  gdl_expires_at :: string
  gdl_active :: bool

record gql_constitution =
  gcn_tenant_id :: string
  gcn_version :: string
  gcn_hash :: string

record gql_emergency_action =
  gea_id :: string
  gea_decision_id :: string
  gea_ratification_deadline :: string
  gea_justification :: string
  gea_tenant_id :: string

record gql_conflict_disclosure =
  gcd_discloser :: string
  gcd_description :: string
  gcd_nature :: string
  gcd_timestamp :: string

record gql_authority_chain =
  gac_actor_did :: string
  gac_chain_length :: "32 word"
  gac_valid :: bool

record gql_audit_entry =
  gae_sequence :: "32 word"
  gae_event_type :: string
  gae_actor :: string
  gae_timestamp :: string
  gae_receipt_hash :: string

record gql_verification_result =
  gvr_proof_type :: string
  gvr_valid :: bool
  gvr_message :: string

record create_decision_input =
  cdi_tenant_id :: string
  cdi_title :: string
  cdi_body :: string
  cdi_decision_class :: string

record grant_delegation_input =
  gdi_delegatee_did :: string
  gdi_scope :: string
  gdi_expires_in_hours :: "32 word"

datatype gov_event =
    DecisionUpdated gql_decision
  | DelegationExpiring gql_delegation
  | EmergencyActionCreated gql_emergency_action

record decision_record =
  dr_decision :: gql_decision
  dr_audit_trail :: "gql_audit_entry list"

record gql_state =
  gs_decisions :: "(string, decision_record) btree_map"
  gs_delegations :: "(string, gql_delegation) btree_map"
  gs_emergency_actions :: "(string, gql_emergency_action) btree_map"
  gs_constitution :: gql_constitution
  gs_next_audit_seq :: "32 word"
  gs_events :: "gov_event list"

section \<open>State\<close>

definition gql_new :: "blake3 \<Rightarrow> gql_state" where
  "gql_new blake3 =
     \<lparr>gs_decisions = bm_empty, gs_delegations = bm_empty, gs_emergency_actions = bm_empty,
      gs_constitution = \<lparr>gcn_tenant_id = ''default'', gcn_version = ''1.0.0'',
                         gcn_hash = hash_display (digest blake3 (str_bytes ''constitution-v1''))\<rparr>,
      gs_next_audit_seq = 1, gs_events = []\<rparr>"

text \<open>An \<open>i32\<close> in decimal.\<close>

definition show_i32 :: "32 word \<Rightarrow> string" where
  "show_i32 w = (if sint w < 0 then ''-'' @ show_nat (nat (- sint w)) else show_nat (nat (sint w)))"

definition now_str :: "u64 \<Rightarrow> string" where
  "now_str now = ts_display (now_utc now)"

text \<open>What the receipt hash of an audit entry is taken of.\<close>

definition receipt_text :: "string \<Rightarrow> string \<Rightarrow> string \<Rightarrow> 32 word \<Rightarrow> string" where
  "receipt_text prev_hash event_type actor seq =
     prev_hash @ ''|'' @ event_type @ ''|'' @ actor @ ''|'' @ show_i32 seq"

definition append_audit :: "blake3 \<Rightarrow> u64 \<Rightarrow> string \<Rightarrow> string \<Rightarrow> string \<Rightarrow> gql_state \<Rightarrow> gql_state" where
  "append_audit blake3 now decision_id event_type actor s =
     (case bm_get (gs_decisions s) decision_id of
        None \<Rightarrow> s
      | Some rcd \<Rightarrow>
          let seq = gs_next_audit_seq s;
              prev_hash = (if dr_audit_trail rcd = [] then hash_display HASH_ZERO
                           else gae_receipt_hash (last (dr_audit_trail rcd)));
              receipt = hash_display (digest blake3 (str_bytes (receipt_text prev_hash event_type actor seq)));
              entry = \<lparr>gae_sequence = seq, gae_event_type = event_type, gae_actor = actor,
                       gae_timestamp = now_str now, gae_receipt_hash = receipt\<rparr>
          in s\<lparr>gs_decisions := bm_insert decision_id (rcd\<lparr>dr_audit_trail := dr_audit_trail rcd @ [entry]\<rparr>) (gs_decisions s),
               gs_next_audit_seq := seq + 1\<rparr>)"

definition compute_decision_hash :: "blake3 \<Rightarrow> gql_decision \<Rightarrow> string" where
  "compute_decision_hash blake3 d =
     hash_display (digest blake3 (str_bytes (gd_id d @ ''|'' @ gd_status d @ ''|'' @ show_nat (length (gd_votes d)))))"

text \<open>\<open>event_tx.send\<close>: its error, when nobody subscribes, is ignored.\<close>

definition send_event :: "gov_event \<Rightarrow> gql_state \<Rightarrow> gql_state" where
  "send_event e s = s\<lparr>gs_events := gs_events s @ [e]\<rparr>"

text \<open>The change of a decision in place, with its content hash computed again.\<close>

definition put_decision :: "blake3 \<Rightarrow> string \<Rightarrow> decision_record \<Rightarrow> gql_decision \<Rightarrow> gql_state \<Rightarrow> gql_decision \<times> gql_state" where
  "put_decision blake3 i rcd d s =
     (let d' = d\<lparr>gd_content_hash := compute_decision_hash blake3 d\<rparr>
      in (d', s\<lparr>gs_decisions := bm_insert i (rcd\<lparr>dr_decision := d'\<rparr>) (gs_decisions s)\<rparr>))"

section \<open>Queries\<close>

definition q_decision :: "gql_state \<Rightarrow> string \<Rightarrow> gql_decision option" where
  "q_decision s i = map_option dr_decision (bm_get (gs_decisions s) i)"

definition q_decisions ::
    "gql_state \<Rightarrow> string \<Rightarrow> string option \<Rightarrow> 32 word option \<Rightarrow> 32 word option \<Rightarrow> gql_decision list" where
  "q_decisions s tenant_id status limit offset =
     (let off = nat (max (case offset of None \<Rightarrow> 0 | Some w \<Rightarrow> sint w) 0);
          lim = nat (min (max (case limit of None \<Rightarrow> 50 | Some w \<Rightarrow> sint w) 1) 200)
      in take lim (drop off (map dr_decision
           (filter (\<lambda>r. case status of None \<Rightarrow> True | Some st \<Rightarrow> st = gd_status (dr_decision r))
             (filter (\<lambda>r. gd_tenant_id (dr_decision r) = tenant_id) (bm_values (gs_decisions s)))))))"

definition q_authority_chain :: "gql_state \<Rightarrow> string \<Rightarrow> gql_authority_chain" where
  "q_authority_chain s actor_did =
     (let n = length (filter (\<lambda>d. gdl_delegatee d = actor_did \<and> gdl_active d) (bm_values (gs_delegations s)));
          chain_length = (if n < 2 ^ 31 then of_nat n else 0) :: 32 word
      in \<lparr>gac_actor_did = actor_did, gac_chain_length = chain_length, gac_valid = sint chain_length > 0\<rparr>)"

definition q_constitution :: "blake3 \<Rightarrow> gql_state \<Rightarrow> string \<Rightarrow> string option \<Rightarrow> gql_constitution" where
  "q_constitution blake3 s tenant_id version =
     (if gcn_tenant_id (gs_constitution s) = tenant_id then gs_constitution s
      else \<lparr>gcn_tenant_id = tenant_id, gcn_version = ''1.0.0'',
            gcn_hash = hash_display (digest blake3 (str_bytes tenant_id))\<rparr>)"

definition q_delegations :: "gql_state \<Rightarrow> string \<Rightarrow> gql_delegation list" where
  "q_delegations s actor_did =
     filter (\<lambda>d. gdl_delegatee d = actor_did \<or> gdl_delegator d = actor_did) (bm_values (gs_delegations s))"

definition q_audit_trail :: "gql_state \<Rightarrow> string \<Rightarrow> gql_audit_entry list" where
  "q_audit_trail s decision_id =
     (case bm_get (gs_decisions s) decision_id of None \<Rightarrow> [] | Some r \<Rightarrow> dr_audit_trail r)"

definition q_verify_proof :: "blake3 \<Rightarrow> string \<Rightarrow> gql_verification_result" where
  "q_verify_proof blake3 proof_id =
     (let valid = even (unat (hd (hash_bytes (digest blake3 (str_bytes proof_id)))))
      in \<lparr>gvr_proof_type = ''Blake3Commitment'', gvr_valid = valid,
          gvr_message = (if valid then ''Proof verified''
                         else ''Proof not found '' @ em_dash @ '' full verification requires exo-proofs integration'')\<rparr>)"

section \<open>Mutations\<close>

type_synonym gql_error = string

definition decision_not_found :: "string \<Rightarrow> gql_error" where
  "decision_not_found i = ''decision '' @ i @ '' not found''"

abbreviation caller :: string where
  "caller \<equiv> ''did:exo:caller''"

definition create_decision ::
    "blake3 \<Rightarrow> string \<Rightarrow> u64 \<Rightarrow> u64 \<Rightarrow> create_decision_input \<Rightarrow> gql_state \<Rightarrow> gql_state \<times> (gql_decision, gql_error) result" where
  "create_decision blake3 uuid now now' input s =
     (let decision = \<lparr>gd_id = uuid, gd_tenant_id = cdi_tenant_id input, gd_status = ''CREATED'',
            gd_title = cdi_title input, gd_decision_class = cdi_decision_class input, gd_author = ''system'',
            gd_created_at = now_str now, gd_votes = [], gd_challenges = [],
            gd_content_hash = hash_display (digest blake3 (str_bytes (cdi_body input)))\<rparr>;
          s1 = send_event (DecisionUpdated decision) s;
          s2 = s1\<lparr>gs_decisions := bm_insert uuid \<lparr>dr_decision = decision, dr_audit_trail = []\<rparr> (gs_decisions s1)\<rparr>
      in (append_audit blake3 now' uuid ''DecisionCreated'' ''system'' s2, Ok decision))"

definition advance_decision ::
    "blake3 \<Rightarrow> u64 \<Rightarrow> string \<Rightarrow> string \<Rightarrow> string option \<Rightarrow> gql_state \<Rightarrow> gql_state \<times> (gql_decision, gql_error) result" where
  "advance_decision blake3 now i new_status reason s =
     (case bm_get (gs_decisions s) i of
        None \<Rightarrow> (s, Err (decision_not_found i))
      | Some rcd \<Rightarrow>
          let (decision, s1) = put_decision blake3 i rcd ((dr_decision rcd)\<lparr>gd_status := new_status\<rparr>) s;
              actor = (case reason of None \<Rightarrow> ''system'' | Some r \<Rightarrow> r);
              s2 = append_audit blake3 now i (''StatusAdvanced:'' @ new_status) actor s1
          in (send_event (DecisionUpdated decision) s2, Ok decision))"

definition gql_cast_vote ::
    "blake3 \<Rightarrow> u64 \<Rightarrow> u64 \<Rightarrow> string \<Rightarrow> string \<Rightarrow> string option \<Rightarrow> gql_state \<Rightarrow> gql_state \<times> (gql_vote, gql_error) result" where
  "gql_cast_vote blake3 now now' i choice rationale s =
     (if choice \<notin> set [''APPROVE'', ''REJECT'', ''ABSTAIN'']
      then (s, Err (''invalid choice '' @ quoted choice @ ''; must be one of APPROVE, REJECT, ABSTAIN''))
      else
        case bm_get (gs_decisions s) i of
          None \<Rightarrow> (s, Err (decision_not_found i))
        | Some rcd \<Rightarrow>
            if list_ex (\<lambda>v. gv_voter v = caller) (gd_votes (dr_decision rcd))
            then (s, Err ''duplicate vote from this DID'')
            else
              let vote = \<lparr>gv_voter = caller, gv_choice = choice, gv_rationale = rationale, gv_timestamp = now_str now\<rparr>;
                  (decision, s1) = put_decision blake3 i rcd
                    ((dr_decision rcd)\<lparr>gd_votes := gd_votes (dr_decision rcd) @ [vote]\<rparr>) s;
                  s2 = append_audit blake3 now' i ''VoteCast'' caller s1
              in (send_event (DecisionUpdated decision) s2, Ok vote))"

definition grant_delegation ::
    "string \<Rightarrow> u64 \<Rightarrow> grant_delegation_input \<Rightarrow> gql_state \<Rightarrow> gql_state \<times> (gql_delegation, gql_error) result" where
  "grant_delegation uuid now input s =
     (if sint (gdi_expires_in_hours input) \<le> 0 then (s, Err ''expires_in_hours must be > 0'')
      else
        let expires_ms = saturating_add now
              (saturating_mul (if sint (gdi_expires_in_hours input) < 0 then 0 else ucast (gdi_expires_in_hours input)) 3600000);
            delegation = \<lparr>gdl_id = uuid, gdl_delegator = caller, gdl_delegatee = gdi_delegatee_did input,
              gdl_scope = gdi_scope input, gdl_expires_at = ts_display (Timestamp expires_ms 0), gdl_active = True\<rparr>
        in (s\<lparr>gs_delegations := bm_insert uuid delegation (gs_delegations s)\<rparr>, Ok delegation))"

definition gql_revoke_delegation ::
    "string \<Rightarrow> gql_state \<Rightarrow> gql_state \<times> (gql_delegation, gql_error) result" where
  "gql_revoke_delegation i s =
     (case bm_get (gs_delegations s) i of
        None \<Rightarrow> (s, Err (''delegation '' @ i @ '' not found''))
      | Some d \<Rightarrow>
          let d' = d\<lparr>gdl_active := False\<rparr>
          in (s\<lparr>gs_delegations := bm_insert i d' (gs_delegations s)\<rparr>, Ok d'))"

definition raise_challenge ::
    "blake3 \<Rightarrow> string \<Rightarrow> u64 \<Rightarrow> string \<Rightarrow> string \<Rightarrow> gql_state \<Rightarrow> gql_state \<times> (gql_challenge, gql_error) result" where
  "raise_challenge blake3 uuid now i grounds s =
     (case bm_get (gs_decisions s) i of
        None \<Rightarrow> (s, Err (decision_not_found i))
      | Some rcd \<Rightarrow>
          let challenge = \<lparr>gch_id = uuid, gch_grounds = grounds, gch_status = ''OPEN''\<rparr>;
              (decision, s1) = put_decision blake3 i rcd
                ((dr_decision rcd)\<lparr>gd_challenges := gd_challenges (dr_decision rcd) @ [challenge],
                                   gd_status := ''CONTESTED''\<rparr>) s;
              s2 = append_audit blake3 now i (''ChallengeRaised:'' @ grounds) caller s1
          in (send_event (DecisionUpdated decision) s2, Ok challenge))"

definition take_emergency_action ::
    "blake3 \<Rightarrow> string \<Rightarrow> u64 \<Rightarrow> u64 \<Rightarrow> string \<Rightarrow> string \<Rightarrow> gql_state \<Rightarrow> gql_state \<times> (gql_emergency_action, gql_error) result" where
  "take_emergency_action blake3 uuid now now' i justification s =
     (case bm_get (gs_decisions s) i of
        None \<Rightarrow> (s, Err (decision_not_found i))
      | Some rcd \<Rightarrow>
          let action = \<lparr>gea_id = uuid, gea_decision_id = i,
                gea_ratification_deadline = ts_display (Timestamp (saturating_add now 86400000) 0),
                gea_justification = justification, gea_tenant_id = gd_tenant_id (dr_decision rcd)\<rparr>;
              s1 = s\<lparr>gs_emergency_actions := bm_insert uuid action (gs_emergency_actions s)\<rparr>;
              s2 = append_audit blake3 now' i (''EmergencyAction:'' @ justification) caller s1
          in (send_event (EmergencyActionCreated action) s2, Ok action))"

definition disclose_conflict ::
    "blake3 \<Rightarrow> u64 \<Rightarrow> u64 \<Rightarrow> string \<Rightarrow> string \<Rightarrow> string \<Rightarrow> gql_state \<Rightarrow>
       gql_state \<times> (gql_conflict_disclosure, gql_error) result" where
  "disclose_conflict blake3 now now' i description nature s =
     (append_audit blake3 now' i (''ConflictDisclosed:'' @ nature) caller s,
      Ok \<lparr>gcd_discloser = caller, gcd_description = description, gcd_nature = nature, gcd_timestamp = now_str now\<rparr>)"

text \<open>\<open>str::splitn\<close> at a character, and \<open>str::parse::<u32>\<close>.\<close>

fun splitn :: "nat \<Rightarrow> char \<Rightarrow> string \<Rightarrow> string list" where
  "splitn 0 c s = []"
| "splitn (Suc 0) c s = [s]"
| "splitn (Suc (Suc n)) c s =
     (case dropWhile (\<lambda>x. x \<noteq> c) s of
        [] \<Rightarrow> [s]
      | _ # rest \<Rightarrow> takeWhile (\<lambda>x. x \<noteq> c) s # splitn (Suc n) c rest)"

definition digit_value :: "char \<Rightarrow> nat option" where
  "digit_value c = (let n = of_char c in if 48 \<le> n \<and> n \<le> 57 then Some (n - 48) else None)"

definition decimal_value :: "string \<Rightarrow> nat option" where
  "decimal_value ds =
     (if ds = [] then None
      else foldl (\<lambda>acc c. Option.bind acc (\<lambda>n. map_option (\<lambda>d. 10 * n + d) (digit_value c))) (Some 0) ds)"

definition parse_u32 :: "string \<Rightarrow> u32 option" where
  "parse_u32 s =
     (let ds = (case s of c # r \<Rightarrow> if c = CHR ''+'' then r else s | [] \<Rightarrow> s)
      in case decimal_value ds of
           Some n \<Rightarrow> if n < 2 ^ 32 then Some (of_nat n) else None
         | None \<Rightarrow> None)"

definition bump_version :: "string \<Rightarrow> string" where
  "bump_version v =
     (let parts = splitn 3 (CHR ''.'') v
      in if length parts = 3 then
           (case parse_u32 (parts ! 2) of
              Some patch \<Rightarrow> parts ! 0 @ ''.'' @ parts ! 1 @ ''.'' @ show_nat (unat (patch + 1))
            | None \<Rightarrow> v @ ''.1'')
         else v @ ''.1'')"

definition amend_constitution ::
    "blake3 \<Rightarrow> string \<Rightarrow> string \<Rightarrow> gql_state \<Rightarrow> gql_state \<times> (gql_constitution, gql_error) result" where
  "amend_constitution blake3 tenant_id amendment s =
     (let new_hash = hash_display (digest blake3 (str_bytes (gcn_hash (gs_constitution s) @ '':'' @ amendment)));
          c = \<lparr>gcn_tenant_id = tenant_id, gcn_version = bump_version (gcn_version (gs_constitution s)), gcn_hash = new_hash\<rparr>
      in (s\<lparr>gs_constitution := c\<rparr>, Ok c))"

section \<open>Subscriptions\<close>

text \<open>
  A subscriber reads the channel until an error (it is closed, or the subscriber has fallen behind by
  more than the 256 buffered events) and yields the events it selects. The argument is what the channel
  delivers, \<open>None\<close> for an error.
\<close>

fun subscription :: "(gov_event \<Rightarrow> 'a option) \<Rightarrow> gov_event option list \<Rightarrow> 'a list" where
  "subscription sel [] = []"
| "subscription sel (None # rs) = []"
| "subscription sel (Some e # rs) =
     (case sel e of Some x \<Rightarrow> x # subscription sel rs | None \<Rightarrow> subscription sel rs)"

definition decision_updated :: "string \<Rightarrow> gov_event option list \<Rightarrow> gql_decision list" where
  "decision_updated i =
     subscription (\<lambda>e. case e of DecisionUpdated d \<Rightarrow> if gd_id d = i then Some d else None | _ \<Rightarrow> None)"

definition delegation_expiring :: "string \<Rightarrow> gov_event option list \<Rightarrow> gql_delegation list" where
  "delegation_expiring actor =
     subscription (\<lambda>e. case e of
         DelegationExpiring d \<Rightarrow> if gdl_delegatee d = actor \<or> gdl_delegator d = actor then Some d else None
       | _ \<Rightarrow> None)"

definition gql_emergency_stream :: "string \<Rightarrow> gov_event option list \<Rightarrow> gql_emergency_action list" where
  "gql_emergency_stream tid =
     subscription (\<lambda>e. case e of EmergencyActionCreated a \<Rightarrow> if gea_tenant_id a = tid then Some a else None | _ \<Rightarrow> None)"

section \<open>Runs\<close>

text \<open>A mutation with the clock readings and identifiers it draws.\<close>

datatype gql_request =
    RqCreate string u64 u64 create_decision_input
  | RqAdvance u64 string string "string option"
  | RqVote u64 u64 string string "string option"
  | RqGrant string u64 grant_delegation_input
  | RqRevoke string
  | RqChallenge string u64 string string
  | RqEmergency string u64 u64 string string
  | RqDisclose u64 u64 string string string
  | RqAmend string string

fun gql_apply :: "blake3 \<Rightarrow> gql_request \<Rightarrow> gql_state \<Rightarrow> gql_state" where
  "gql_apply blake3 (RqCreate u t t' input) s = fst (create_decision blake3 u t t' input s)"
| "gql_apply blake3 (RqAdvance t i st reason) s = fst (advance_decision blake3 t i st reason s)"
| "gql_apply blake3 (RqVote t t' i choice rationale) s = fst (gql_cast_vote blake3 t t' i choice rationale s)"
| "gql_apply blake3 (RqGrant u t input) s = fst (grant_delegation u t input s)"
| "gql_apply blake3 (RqRevoke i) s = fst (gql_revoke_delegation i s)"
| "gql_apply blake3 (RqChallenge u t i grounds) s = fst (raise_challenge blake3 u t i grounds s)"
| "gql_apply blake3 (RqEmergency u t t' i just) s = fst (take_emergency_action blake3 u t t' i just s)"
| "gql_apply blake3 (RqDisclose t t' i descr nature) s = fst (disclose_conflict blake3 t t' i descr nature s)"
| "gql_apply blake3 (RqAmend tid amendment) s = fst (amend_constitution blake3 tid amendment s)"

abbreviation gql_run :: "blake3 \<Rightarrow> gql_request list \<Rightarrow> gql_state \<Rightarrow> gql_state" where
  "gql_run blake3 \<equiv> fold (gql_apply blake3)"

lemmas gql_op_defs = create_decision_def advance_decision_def gql_cast_vote_def grant_delegation_def
  gql_revoke_delegation_def raise_challenge_def take_emergency_action_def disclose_conflict_def
  amend_constitution_def

lemma send_event_simps [simp]:
  "gs_decisions (send_event e s) = gs_decisions s"
  "gs_emergency_actions (send_event e s) = gs_emergency_actions s"
  "gs_next_audit_seq (send_event e s) = gs_next_audit_seq s"
  "gs_events (send_event e s) = gs_events s @ [e]"
  by (simp_all add: send_event_def)

lemma q_decision_send [simp]: "q_decision (send_event e s) = q_decision s"
  by (simp add: q_decision_def fun_eq_iff)

lemma append_audit_frame [simp]:
  "gs_events (append_audit blake3 now i ev actor s) = gs_events s"
  "gs_emergency_actions (append_audit blake3 now i ev actor s) = gs_emergency_actions s"
  "q_decision (append_audit blake3 now i ev actor s) = q_decision s"
  by (auto simp: append_audit_def Let_def q_decision_def fun_eq_iff split: option.splits)

section \<open>Events carry the state\<close>

definition replay_decisions :: "(string \<rightharpoonup> gql_decision) \<Rightarrow> gov_event list \<Rightarrow> (string \<rightharpoonup> gql_decision)" where
  "replay_decisions = foldl (\<lambda>m e. case e of DecisionUpdated d \<Rightarrow> m(gd_id d \<mapsto> d) | _ \<Rightarrow> m)"

definition replay_emergencies ::
    "(string \<rightharpoonup> gql_emergency_action) \<Rightarrow> gov_event list \<Rightarrow> (string \<rightharpoonup> gql_emergency_action)" where
  "replay_emergencies = foldl (\<lambda>m e. case e of EmergencyActionCreated a \<Rightarrow> m(gea_id a \<mapsto> a) | _ \<Rightarrow> m)"

lemma replay_simps [simp]:
  "replay_decisions m [] = m" "replay_emergencies em [] = em"
  "replay_decisions m (es @ es') = replay_decisions (replay_decisions m es) es'"
  "replay_emergencies em (es @ es') = replay_emergencies (replay_emergencies em es) es'"
  "replay_decisions m (DecisionUpdated d # es) = replay_decisions (m(gd_id d \<mapsto> d)) es"
  "replay_decisions m (EmergencyActionCreated a # es) = replay_decisions m es"
  "replay_emergencies em (EmergencyActionCreated a # es) = replay_emergencies (em(gea_id a \<mapsto> a)) es"
  "replay_emergencies em (DecisionUpdated d # es) = replay_emergencies em es"
  "replay_decisions m (DelegationExpiring dl # es) = replay_decisions m es"
  by (simp_all add: replay_decisions_def replay_emergencies_def)

text \<open>Decisions are stored under their identifiers.\<close>

definition keys_ok :: "gql_state \<Rightarrow> bool" where
  "keys_ok s \<longleftrightarrow> (\<forall>i d. q_decision s i = Some d \<longrightarrow> gd_id d = i)"

lemma put_decision_frame:
  assumes "put_decision blake3 i rcd d s = (d', s')"
  shows "gs_events s' = gs_events s" "gs_emergency_actions s' = gs_emergency_actions s"
    "gs_next_audit_seq s' = gs_next_audit_seq s" "gd_id d' = gd_id d"
    "q_decision s' = (q_decision s)(i \<mapsto> d')"
  using assms by (auto simp: put_decision_def Let_def q_decision_def fun_eq_iff)

text \<open>A decision changed in place, audited and announced: the common part of three mutations.\<close>

definition committed ::
    "blake3 \<Rightarrow> u64 \<Rightarrow> string \<Rightarrow> decision_record \<Rightarrow> gql_decision \<Rightarrow> string \<Rightarrow> string \<Rightarrow> gql_state \<Rightarrow> gql_state" where
  "committed blake3 t i rcd d ev actor s =
     (case put_decision blake3 i rcd d s of
        (d', s1) \<Rightarrow> send_event (DecisionUpdated d') (append_audit blake3 t i ev actor s1))"

text \<open>What each mutation does to the state.\<close>

inductive gql_step :: "blake3 \<Rightarrow> gql_state \<Rightarrow> gql_state \<Rightarrow> bool" for blake3 :: blake3 and s :: gql_state where
  gql_same: "gs_decisions s' = gs_decisions s \<Longrightarrow> gs_emergency_actions s' = gs_emergency_actions s \<Longrightarrow>
    gs_next_audit_seq s' = gs_next_audit_seq s \<Longrightarrow> gs_events s' = gs_events s \<Longrightarrow> gql_step blake3 s s'"
| gql_create: "gd_id d = u \<Longrightarrow> gd_votes d = [] \<Longrightarrow>
    gql_step blake3 s (append_audit blake3 t u ''DecisionCreated'' ''system''
      ((send_event (DecisionUpdated d) s)\<lparr>gs_decisions := bm_insert u \<lparr>dr_decision = d, dr_audit_trail = []\<rparr> (gs_decisions s)\<rparr>))"
| gql_commit: "bm_get (gs_decisions s) i = Some rcd \<Longrightarrow> gd_id d = gd_id (dr_decision rcd) \<Longrightarrow>
    gd_votes d = gd_votes (dr_decision rcd) \<or>
      (\<forall>v \<in> set (gd_votes (dr_decision rcd)). gv_voter v \<noteq> caller) \<and> (\<exists>v. gv_voter v = caller \<and> gd_votes d = gd_votes (dr_decision rcd) @ [v]) \<Longrightarrow>
    gql_step blake3 s (committed blake3 t i rcd d ev actor s)"
| gql_emergency: "bm_get (gs_decisions s) i = Some rcd \<Longrightarrow> gea_id a = u \<Longrightarrow>
    gql_step blake3 s (send_event (EmergencyActionCreated a) (append_audit blake3 t i ev actor
      (s\<lparr>gs_emergency_actions := bm_insert u a (gs_emergency_actions s)\<rparr>)))"
| gql_disclose: "gql_step blake3 s (append_audit blake3 t i ev actor s)"

lemma step_create: "gql_step blake3 s (gql_apply blake3 (RqCreate u t t' input) s)"
proof -
  have upd: "(send_event e s)\<lparr>gs_decisions := bm_insert u r (gs_decisions (send_event e s))\<rparr> =
      (send_event e s)\<lparr>gs_decisions := bm_insert u r (gs_decisions s)\<rparr>" for e r by simp
  show ?thesis unfolding gql_apply.simps create_decision_def Let_def fst_conv upd
    by (rule gql_create) simp_all
qed

lemma step_advance: "gql_step blake3 s (gql_apply blake3 (RqAdvance t i st reason) s)"
proof (cases "bm_get (gs_decisions s) i")
  case (Some rcd)
  then have "gql_apply blake3 (RqAdvance t i st reason) s =
      committed blake3 t i rcd ((dr_decision rcd)\<lparr>gd_status := st\<rparr>) (''StatusAdvanced:'' @ st)
        (case reason of None \<Rightarrow> ''system'' | Some r \<Rightarrow> r) s"
    by (simp add: advance_decision_def committed_def case_prod_unfold Let_def)
  with Some show ?thesis by (simp add: gql_commit del: gql_apply.simps)
qed (auto intro: gql_same simp: advance_decision_def)

lemma step_challenge: "gql_step blake3 s (gql_apply blake3 (RqChallenge u t i grounds) s)"
proof (cases "bm_get (gs_decisions s) i")
  case (Some rcd)
  then have "gql_apply blake3 (RqChallenge u t i grounds) s =
      committed blake3 t i rcd ((dr_decision rcd)\<lparr>gd_challenges := gd_challenges (dr_decision rcd) @
        [\<lparr>gch_id = u, gch_grounds = grounds, gch_status = ''OPEN''\<rparr>], gd_status := ''CONTESTED''\<rparr>)
        (''ChallengeRaised:'' @ grounds) caller s"
    by (simp add: raise_challenge_def committed_def case_prod_unfold Let_def)
  with Some show ?thesis by (simp add: gql_commit del: gql_apply.simps)
qed (auto intro: gql_same simp: raise_challenge_def)

lemma step_vote: "gql_step blake3 s (gql_apply blake3 (RqVote t t' i choice rationale) s)"
proof (cases "bm_get (gs_decisions s) i")
  case (Some rcd)
  let ?vs = "gd_votes (dr_decision rcd)"
  let ?v = "\<lparr>gv_voter = caller, gv_choice = choice, gv_rationale = rationale, gv_timestamp = now_str t\<rparr>"
  show ?thesis
  proof (cases "choice \<in> set [''APPROVE'', ''REJECT'', ''ABSTAIN''] \<and> \<not> list_ex (\<lambda>v. gv_voter v = caller) ?vs")
    case True
    with Some have "gql_apply blake3 (RqVote t t' i choice rationale) s =
        committed blake3 t' i rcd ((dr_decision rcd)\<lparr>gd_votes := ?vs @ [?v]\<rparr>) ''VoteCast'' caller s"
      unfolding gql_apply.simps gql_cast_vote_def committed_def case_prod_unfold Let_def by (simp only: if_False
        option.case fst_conv not_not simp_thms)
    moreover have "\<forall>v \<in> set ?vs. gv_voter v \<noteq> caller" using True unfolding list_ex_iff by blast
    then have "gql_step blake3 s (committed blake3 t' i rcd ((dr_decision rcd)\<lparr>gd_votes := ?vs @ [?v]\<rparr>) ''VoteCast'' caller s)"
      by (intro gql_commit [OF Some] disjI2 conjI) auto
    ultimately show ?thesis by (simp only:)
  next
    case False
    with Some have "gql_apply blake3 (RqVote t t' i choice rationale) s = s"
      by (auto simp: gql_cast_vote_def)
    then show ?thesis by (simp only: gql_same)
  qed
qed (auto intro: gql_same simp: gql_cast_vote_def)

lemma step_emergency: "gql_step blake3 s (gql_apply blake3 (RqEmergency u t t' i just) s)"
proof (cases "bm_get (gs_decisions s) i")
  case (Some rcd)
  then show ?thesis
    unfolding gql_apply.simps take_emergency_action_def Let_def
    by (simp only: option.case fst_conv) (rule gql_emergency, simp_all)
qed (auto intro: gql_same simp: take_emergency_action_def)

lemma gql_apply_step: "gql_step blake3 s (gql_apply blake3 rq s)"
proof (cases rq)
  case (RqDisclose t t' i descr nature)
  then show ?thesis by (simp add: disclose_conflict_def gql_disclose)
qed (simp_all only: step_create step_advance step_challenge step_vote step_emergency,
    (auto intro!: gql_same simp: grant_delegation_def gql_revoke_delegation_def amend_constitution_def Let_def
      split: option.splits)+)

text \<open>The events of a step account for what it changes.\<close>

definition accounted :: "gql_state \<Rightarrow> gql_state \<Rightarrow> bool" where
  "accounted s s' \<longleftrightarrow>
     (\<exists>new. gs_events s' = gs_events s @ new \<and> q_decision s' = replay_decisions (q_decision s) new \<and>
            bm_get (gs_emergency_actions s') = replay_emergencies (bm_get (gs_emergency_actions s)) new)"

lemma committed_frame:
  assumes "gd_id d = i"
  shows "\<exists>d'. gd_id d' = i \<and> gd_votes d' = gd_votes d \<and> gs_events (committed blake3 t i rcd d ev actor s) = gs_events s @ [DecisionUpdated d'] \<and>
           q_decision (committed blake3 t i rcd d ev actor s) = (q_decision s)(i \<mapsto> d') \<and>
           gs_emergency_actions (committed blake3 t i rcd d ev actor s) = gs_emergency_actions s"
proof -
  obtain d' s1 where pd: "put_decision blake3 i rcd d s = (d', s1)" by force
  then have "gd_votes d' = gd_votes d" by (auto simp: put_decision_def Let_def)
  with put_decision_frame [OF pd] assms show ?thesis by (simp add: committed_def pd)
qed

lemma q_decision_insert:
  "q_decision (s\<lparr>gs_decisions := bm_insert i r (gs_decisions s)\<rparr>) = (q_decision s)(i \<mapsto> dr_decision r)"
  by (simp add: q_decision_def fun_eq_iff)

lemma q_decision_emergency: "q_decision (s\<lparr>gs_emergency_actions := m\<rparr>) = q_decision s"
  by (simp add: q_decision_def fun_eq_iff)

lemma accounted_none:
  "gs_events s' = gs_events s \<Longrightarrow> q_decision s' = q_decision s \<Longrightarrow>
     gs_emergency_actions s' = gs_emergency_actions s \<Longrightarrow> accounted s s'"
  by (simp add: accounted_def)

lemma accounted_update:
  "gs_events s' = gs_events s @ [DecisionUpdated d] \<Longrightarrow> gd_id d = i \<Longrightarrow> q_decision s' = (q_decision s)(i \<mapsto> d) \<Longrightarrow>
     gs_emergency_actions s' = gs_emergency_actions s \<Longrightarrow> keys_ok s \<Longrightarrow> accounted s s' \<and> keys_ok s'"
  by (simp add: accounted_def keys_ok_def)

lemma created_accounted:
  assumes "gd_id d = u" "keys_ok s"
  shows "accounted s (append_audit blake3 t u ev actor
      ((send_event (DecisionUpdated d) s)\<lparr>gs_decisions := bm_insert u \<lparr>dr_decision = d, dr_audit_trail = []\<rparr> (gs_decisions s)\<rparr>)) \<and>
    keys_ok (append_audit blake3 t u ev actor
      ((send_event (DecisionUpdated d) s)\<lparr>gs_decisions := bm_insert u \<lparr>dr_decision = d, dr_audit_trail = []\<rparr> (gs_decisions s)\<rparr>))"
proof -
  let ?s = "(send_event (DecisionUpdated d) s)\<lparr>gs_decisions := bm_insert u \<lparr>dr_decision = d, dr_audit_trail = []\<rparr> (gs_decisions s)\<rparr>"
  have "q_decision ?s = (q_decision s)(u \<mapsto> d)" by (simp add: q_decision_def fun_eq_iff)
  moreover have "gs_events ?s = gs_events s @ [DecisionUpdated d]" "gs_emergency_actions ?s = gs_emergency_actions s"
    by simp_all
  ultimately show ?thesis by (intro accounted_update [OF _ assms(1) _ _ assms(2)]) (simp_all only: append_audit_frame)
qed

lemma gql_step_accounted:
  assumes "gql_step blake3 s s'" "keys_ok s"
  shows "accounted s s' \<and> keys_ok s'"
  using assms(1)
proof cases
  case gql_same
  then have "q_decision s' = q_decision s" by (simp add: q_decision_def fun_eq_iff)
  with gql_same show ?thesis using assms(2) by (simp add: accounted_none keys_ok_def)
next
  case (gql_create d u t)
  show ?thesis unfolding gql_create(1) by (rule created_accounted) (use gql_create assms(2) in simp_all)
next
  case (gql_commit i rcd d t ev actor)
  have "q_decision s i = Some (dr_decision rcd)" by (simp add: q_decision_def gql_commit(2))
  then have "gd_id d = i" using assms(2) unfolding keys_ok_def gql_commit(3) by blast
  then obtain d' where "gd_id d' = i \<and> gd_votes d' = gd_votes d \<and> gs_events s' = gs_events s @ [DecisionUpdated d'] \<and>
      q_decision s' = (q_decision s)(i \<mapsto> d') \<and> gs_emergency_actions s' = gs_emergency_actions s"
    unfolding gql_commit(1) by (rule exE [OF committed_frame])
  then show ?thesis by (intro accounted_update [where d = d' and i = i] assms(2)) simp_all
next
  case (gql_emergency i rcd a u t ev actor)
  have q: "q_decision s' = q_decision s" unfolding gql_emergency(1) by (simp add: q_decision_emergency)
  have "gs_events s' = gs_events s @ [EmergencyActionCreated a]"
    "bm_get (gs_emergency_actions s') = (bm_get (gs_emergency_actions s))(u \<mapsto> a)"
    unfolding gql_emergency(1) by (simp_all add: fun_eq_iff)
  with q have "accounted s s'"
    unfolding accounted_def by (simp add: gql_emergency(3))
  with q show ?thesis using assms(2) by (simp add: keys_ok_def)
next
  case (gql_disclose t i ev actor)
  have "q_decision s' = q_decision s" unfolding gql_disclose by simp
  then show ?thesis using assms(2) by (simp add: accounted_none keys_ok_def gql_disclose)
qed

lemma accounted_trans: "accounted a b \<Longrightarrow> accounted b c \<Longrightarrow> accounted a c"
  by (fastforce simp: accounted_def)

lemma gql_run_accounted: "keys_ok s \<Longrightarrow> accounted s (gql_run blake3 rqs s) \<and> keys_ok (gql_run blake3 rqs s)"
proof (induction rqs arbitrary: s)
  case Nil
  then show ?case by (auto simp: accounted_def intro!: exI [of _ "[]"])
next
  case (Cons rq rqs)
  with gql_step_accounted [OF gql_apply_step Cons.prems, of blake3 rq] show ?case
    by (auto intro: accounted_trans)
qed

lemma keys_ok_new: "keys_ok (gql_new blake3)"
  by (simp add: keys_ok_def q_decision_def gql_new_def)

text \<open>A subscriber to a decision sees its updates in order, and the last one it sees is the stored one.\<close>

lemma replay_subscription:
  "replay_decisions m es i =
     (case decision_updated i (map Some es) of [] \<Rightarrow> m i | d # ds \<Rightarrow> Some (last (d # ds)))"
proof (induction es arbitrary: m)
  case (Cons e es)
  have IH: "replay_decisions m' es i =
      (case decision_updated i (map Some es) of [] \<Rightarrow> m' i | d # ds \<Rightarrow> Some (last (d # ds)))" for m'
    by (rule Cons.IH)
  show ?case
  proof (cases e)
    case (DecisionUpdated d)
    then show ?thesis by (auto simp: IH decision_updated_def split: list.splits)
  qed (simp_all add: IH decision_updated_def)
qed (simp add: decision_updated_def)

fun emergencies_of :: "gov_event list \<Rightarrow> gql_emergency_action list" where
  "emergencies_of [] = []"
| "emergencies_of (EmergencyActionCreated a # es) = a # emergencies_of es"
| "emergencies_of (_ # es) = emergencies_of es"

lemma gql_emergency_stream_eq:
  "gql_emergency_stream tid (map Some es) = filter (\<lambda>a. gea_tenant_id a = tid) (emergencies_of es)"
  by (induction es rule: emergencies_of.induct) (simp_all add: gql_emergency_stream_def)

lemma replay_emergencies_eq: "replay_emergencies m es = foldl (\<lambda>m a. m(gea_id a \<mapsto> a)) m (emergencies_of es)"
  by (induction es arbitrary: m rule: emergencies_of.induct) (simp_all add: replay_emergencies_def)

text \<open>Each mutation announces at most one event, so every prefix of the events is that of some prefix of the run.\<close>

lemma gql_step_events:
  assumes "gql_step blake3 s s'" "keys_ok s"
  shows "\<exists>es. gs_events s' = gs_events s @ es \<and> length es \<le> 1"
  using assms(1)
proof cases
  case (gql_commit i rcd d t ev actor)
  have "q_decision s i = Some (dr_decision rcd)" by (simp add: q_decision_def gql_commit(2))
  then have "gd_id d = i" using assms(2) unfolding keys_ok_def gql_commit(3) by blast
  from committed_frame [OF this] show ?thesis unfolding gql_commit(1) by fastforce
qed simp_all

lemma gql_run_prefix:
  assumes "keys_ok s" and "gs_events (gql_run blake3 rqs s) = gs_events s @ new"
  shows "\<exists>k. k \<le> length rqs \<and> gs_events (gql_run blake3 (take k rqs) s) = gs_events s @ take n new"
  using assms(2)
proof (induction rqs arbitrary: new rule: rev_induct)
  case (snoc rq rqs)
  let ?t = "gql_run blake3 rqs s"
  have t: "keys_ok ?t" "accounted s ?t" using gql_run_accounted [OF assms(1)] by blast+
  from t(2) obtain old where old: "gs_events ?t = gs_events s @ old" unfolding accounted_def by blast
  from gql_step_events [OF gql_apply_step t(1), of blake3 rq] obtain es where
    es: "gs_events (gql_apply blake3 rq ?t) = gs_events ?t @ es" "length es \<le> 1" by blast
  with snoc.prems old have new: "new = old @ es" by simp
  show ?case
  proof (cases "n \<le> length old")
    case True
    from snoc.IH [OF old] obtain k where "k \<le> length rqs"
      "gs_events (gql_run blake3 (take k rqs) s) = gs_events s @ take n old" by blast
    with True show ?thesis by (intro exI [of _ k]) (simp add: new)
  next
    case False
    with es(2) have "take n new = new" by (simp add: new)
    with snoc.prems show ?thesis by (intro exI [of _ "Suc (length rqs)"]) simp
  qed
qed simp

text \<open>A subscription ends at the first error of its channel; what would come after is not read.\<close>

lemma subscription_lagged: "subscription sel (map Some es @ None # rest) = subscription sel (map Some es)"
  by (induction es) (auto split: option.split)

text \<open>What a subscriber reads of the events it has been sent: a prefix, and possibly an error after it.\<close>

definition channel_reads :: "bool \<Rightarrow> gov_event option list \<Rightarrow> gov_event list \<Rightarrow> gov_event option list" where
  "channel_reads lagged rest seen = map Some seen @ (if lagged then None # rest else [])"

lemma subscription_reads:
  "decision_updated i (channel_reads lagged rest seen) = decision_updated i (map Some seen)"
  "gql_emergency_stream tid (channel_reads lagged rest seen) = gql_emergency_stream tid (map Some seen)"
  by (simp_all add: channel_reads_def decision_updated_def gql_emergency_stream_def subscription_lagged)

text \<open>
  C38: subscribers can follow the state as far as they have read. Take any run of mutations and any
  continuation of it, and a subscriber that starts in between. It has read some prefix of the events
  announced since, and possibly the error that ends its stream: it lagged behind the 256 buffered
  events, or the channel closed, and whatever the channel would still deliver is not seen. Then there
  is a moment of the continuation at which exactly those events had been announced, and the last update
  received for a decision is the decision as stored at that moment, unchanged when none was received;
  the emergency actions in what was read, over all tenants, are exactly those added to the store by
  then, and the subscription of a tenant yields exactly the tenant's among them, in order. A subscriber
  that has read everything is in this sense at the end of the run.
\<close>

theorem subscribers_follow_state:
  "let s = gql_run blake3 before (gql_new blake3); s' = gql_run blake3 later s;
       new = drop (length (gs_events s)) (gs_events s');
       seen = take n new; rs = channel_reads lagged rest seen
   in gs_events s' = gs_events s @ new \<and>
      (\<exists>k. k \<le> length later \<and>
        (let t = gql_run blake3 (take k later) s
         in gs_events t = gs_events s @ seen \<and>
            q_decision t i =
              (case decision_updated i rs of [] \<Rightarrow> q_decision s i | d # ds \<Rightarrow> Some (last (d # ds))) \<and>
            bm_get (gs_emergency_actions t) =
              foldl (\<lambda>m a. m(gea_id a \<mapsto> a)) (bm_get (gs_emergency_actions s)) (emergencies_of seen))) \<and>
      gql_emergency_stream tid rs = filter (\<lambda>a. gea_tenant_id a = tid) (emergencies_of seen) \<and>
      q_decision s' i =
        (case decision_updated i (map Some new) of [] \<Rightarrow> q_decision s i | d # ds \<Rightarrow> Some (last (d # ds))) \<and>
      bm_get (gs_emergency_actions s') =
        foldl (\<lambda>m a. m(gea_id a \<mapsto> a)) (bm_get (gs_emergency_actions s)) (emergencies_of new)"
proof -
  define s where "s = gql_run blake3 before (gql_new blake3)"
  have ok: "keys_ok s" using gql_run_accounted [OF keys_ok_new] by (simp add: s_def)
  have acc: "\<exists>new. gs_events (gql_run blake3 rqs s) = gs_events s @ new \<and>
      q_decision (gql_run blake3 rqs s) = replay_decisions (q_decision s) new \<and>
      bm_get (gs_emergency_actions (gql_run blake3 rqs s)) = replay_emergencies (bm_get (gs_emergency_actions s)) new"
    for rqs
    using gql_run_accounted [OF ok] unfolding accounted_def by blast
  from acc obtain new where new: "gs_events (gql_run blake3 later s) = gs_events s @ new"
    "q_decision (gql_run blake3 later s) = replay_decisions (q_decision s) new"
    "bm_get (gs_emergency_actions (gql_run blake3 later s)) = replay_emergencies (bm_get (gs_emergency_actions s)) new"
    by blast
  from gql_run_prefix [OF ok new(1), of n] obtain k where k: "k \<le> length later"
    "gs_events (gql_run blake3 (take k later) s) = gs_events s @ take n new" by blast
  with acc [of "take k later"] have
    "q_decision (gql_run blake3 (take k later) s) = replay_decisions (q_decision s) (take n new)"
    "bm_get (gs_emergency_actions (gql_run blake3 (take k later) s)) =
       replay_emergencies (bm_get (gs_emergency_actions s)) (take n new)"
    by auto
  with k have "\<exists>k. k \<le> length later \<and>
      gs_events (gql_run blake3 (take k later) s) = gs_events s @ take n new \<and>
      q_decision (gql_run blake3 (take k later) s) i =
        (case decision_updated i (map Some (take n new)) of [] \<Rightarrow> q_decision s i | d # ds \<Rightarrow> Some (last (d # ds))) \<and>
      bm_get (gs_emergency_actions (gql_run blake3 (take k later) s)) =
        foldl (\<lambda>m a. m(gea_id a \<mapsto> a)) (bm_get (gs_emergency_actions s)) (emergencies_of (take n new))"
    by (intro exI [of _ k]) (simp only: replay_subscription replay_emergencies_eq simp_thms)
  moreover have "drop (length (gs_events s)) (gs_events s @ new) = new" by simp
  ultimately show ?thesis
    unfolding Let_def s_def [symmetric] new subscription_reads gql_emergency_stream_eq
    by (simp only: replay_subscription replay_emergencies_eq simp_thms)
qed

definition demo_input :: "string \<Rightarrow> create_decision_input" where
  "demo_input tenant = \<lparr>cdi_tenant_id = tenant, cdi_title = ''T'', cdi_body = ''B'', cdi_decision_class = ''C''\<rparr>"

definition demo_state :: gql_state where
  "demo_state = gql_run (\<lambda>_. arr32_of []) [RqCreate ''b'' 1 1 (demo_input ''t''), RqCreate ''a'' 2 2 (demo_input ''t''),
     RqCreate ''c'' 3 3 (demo_input ''u'')] (gql_new (\<lambda>_. arr32_of []))"

section \<open>Audit trails\<close>

lemma show_i32_inject [simp]: "show_i32 v = show_i32 w \<longleftrightarrow> v = w"
proof
  assume eq: "show_i32 v = show_i32 w"
  have minus: "show_nat m \<noteq> CHR ''-'' # show_nat n" for m n
    using set_show_nat(5) [of m] by auto
  from eq minus minus [symmetric] have "sint v = sint w"
    by (auto simp: show_i32_def split: if_splits)
  then show "v = w" by (rule signed_word_eqI)
qed simp

lemma show_i32_bar: "CHR ''|'' \<notin> set (show_i32 w)"
  by (simp add: show_i32_def set_show_nat)

lemma split_at_last_separator:
  assumes "c \<notin> set b" "c \<notin> set b'"
  shows "a @ c # b = a' @ c # b' \<longleftrightarrow> a = a' \<and> b = b'"
proof -
  have "a @ c # b = a' @ c # b' \<longleftrightarrow> rev b @ c # rev a = rev b' @ c # rev a'"
    by (metis append.assoc append_Cons append_Nil rev.simps(2) rev_append rev_rev_ident)
  then show ?thesis using split_at_separator [of c "rev b" "rev b'" "rev a" "rev a'"] assms by auto
qed

text \<open>What the hashed text of an entry determines: the parts before and after, and the middle as a whole.\<close>

lemma receipt_text_eq:
  assumes "length p = length p'"
  shows "receipt_text p ev a q = receipt_text p' ev' a' q' \<longleftrightarrow>
    p = p' \<and> ev @ ''|'' @ a = ev' @ ''|'' @ a' \<and> q = q'"
proof -
  have "receipt_text p ev a q = receipt_text p' ev' a' q' \<longleftrightarrow>
      p = p' \<and> (ev @ ''|'' @ a) @ CHR ''|'' # show_i32 q = (ev' @ ''|'' @ a') @ CHR ''|'' # show_i32 q'"
    using assms by (simp add: receipt_text_def)
  then show ?thesis unfolding split_at_last_separator [OF show_i32_bar show_i32_bar] by simp
qed

text \<open>An entry with the hash before it, and the entries of a trail with the hashes they continue.\<close>

definition link_pre :: "arr32 \<times> gql_audit_entry \<Rightarrow> bytes" where
  "link_pre l = str_bytes (receipt_text (hash_display (Hash256 (fst l))) (gae_event_type (snd l)) (gae_actor (snd l)) (gae_sequence (snd l)))"

fun trail_links :: "blake3 \<Rightarrow> arr32 \<Rightarrow> gql_audit_entry list \<Rightarrow> (arr32 \<times> gql_audit_entry) list" where
  "trail_links blake3 h [] = []"
| "trail_links blake3 h (e # es) = (h, e) # trail_links blake3 (blake3 (link_pre (h, e))) es"

definition trail_verifies :: "blake3 \<Rightarrow> gql_audit_entry list \<Rightarrow> bool" where
  "trail_verifies blake3 es \<longleftrightarrow>
     list_all (\<lambda>l. gae_receipt_hash (snd l) = hash_display (Hash256 (blake3 (link_pre l)))) (trail_links blake3 (arr32_of []) es)"

lemma link_pre_eq:
  "link_pre l = link_pre l' \<longleftrightarrow>
     fst l = fst l' \<and> gae_sequence (snd l) = gae_sequence (snd l') \<and>
     gae_event_type (snd l) @ ''|'' @ gae_actor (snd l) = gae_event_type (snd l') @ ''|'' @ gae_actor (snd l')"
  by (auto simp: link_pre_def str_bytes_inject receipt_text_eq)

interpretation gql_trail: hash_log blake3 link_pre fst
  "\<lambda>ls l. if fst l = log_head (\<lambda>l. blake3 (link_pre l)) ls then Some (ls @ [l]) else None"
  "linked fst (\<lambda>l. blake3 (link_pre l))"
  for blake3
  by unfold_locales (auto simp: link_pre_eq)

lemma trail_links_linked: "linked_from fst (\<lambda>l. blake3 (link_pre l)) h (trail_links blake3 h es)"
  by (induction es arbitrary: h) auto

lemma trail_links_snoc:
  "trail_links blake3 h (es @ [e]) =
     trail_links blake3 h es @
       [(if es = [] then h else blake3 (link_pre (last (trail_links blake3 h es))), e)]"
proof (induction es arbitrary: h)
  case (Cons x es)
  then show ?case by (cases es) simp_all
qed simp

lemma snd_trail_links [simp]: "map snd (trail_links blake3 h es) = es"
  by (induction es arbitrary: h) simp_all

lemma trail_links_Nil [simp]: "trail_links blake3 h es = [] \<longleftrightarrow> es = []"
  by (cases es) simp_all

text \<open>The hash that \<open>append_audit\<close> continues is the recomputed one.\<close>

lemma trail_verifies_snoc:
  assumes "trail_verifies blake3 es"
    and "gae_receipt_hash e = hash_display (digest blake3 (str_bytes (receipt_text
           (if es = [] then hash_display HASH_ZERO else gae_receipt_hash (last es)) (gae_event_type e) (gae_actor e) (gae_sequence e))))"
  shows "trail_verifies blake3 (es @ [e])"
proof -
  let ?ls = "trail_links blake3 (arr32_of []) es"
  have "gae_receipt_hash (last es) = hash_display (Hash256 (blake3 (link_pre (last ?ls))))" if "es \<noteq> []"
  proof -
    have "last ?ls \<in> set ?ls" using that by simp
    moreover have "snd (last ?ls) = last es"
      using last_map [of ?ls snd] that by simp
    ultimately have "last ?ls \<in> set ?ls" "snd (last ?ls) = last es" by simp_all
    then show ?thesis using assms(1) unfolding trail_verifies_def list_all_iff by metis
  qed
  with assms show ?thesis
    by (auto simp: trail_verifies_def trail_links_snoc link_pre_def HASH_ZERO_def digest_def)
qed

text \<open>The entry that is appended to a trail.\<close>

definition next_entry :: "blake3 \<Rightarrow> gql_audit_entry list \<Rightarrow> string \<Rightarrow> string \<Rightarrow> 32 word \<Rightarrow> u64 \<Rightarrow> gql_audit_entry" where
  "next_entry blake3 es ev actor seq t =
     \<lparr>gae_sequence = seq, gae_event_type = ev, gae_actor = actor, gae_timestamp = now_str t,
      gae_receipt_hash = hash_display (digest blake3 (str_bytes (receipt_text
        (if es = [] then hash_display HASH_ZERO else gae_receipt_hash (last es)) ev actor seq)))\<rparr>"

lemma next_entry_verifies: "trail_verifies blake3 es \<Longrightarrow> trail_verifies blake3 (es @ [next_entry blake3 es ev actor seq t])"
  by (erule trail_verifies_snoc) (simp add: next_entry_def)

lemma append_audit_trail:
  "q_audit_trail (append_audit blake3 t i ev actor s) =
     (if q_decision s i = None then q_audit_trail s
      else (q_audit_trail s)(i := q_audit_trail s i @ [next_entry blake3 (q_audit_trail s i) ev actor (gs_next_audit_seq s) t]))"
  "gs_next_audit_seq (append_audit blake3 t i ev actor s) =
     (if q_decision s i = None then gs_next_audit_seq s else gs_next_audit_seq s + 1)"
  by (auto simp: append_audit_def q_audit_trail_def q_decision_def next_entry_def Let_def fun_eq_iff split: option.splits)

lemma q_audit_trail_cong: "gs_decisions s' = gs_decisions s \<Longrightarrow> q_audit_trail s' = q_audit_trail s"
  by (simp add: q_audit_trail_def fun_eq_iff)

lemma put_decision_trail:
  assumes "put_decision blake3 i rcd d s = (d', s')" "bm_get (gs_decisions s) i = Some rcd"
  shows "q_audit_trail s' = q_audit_trail s" "q_decision s' i \<noteq> None"
  using assms by (auto simp: put_decision_def Let_def q_audit_trail_def q_decision_def fun_eq_iff)

text \<open>A step appends at most one entry, with the next sequence number, to the trail of a stored or new decision.\<close>

definition trail_step :: "blake3 \<Rightarrow> gql_state \<Rightarrow> gql_state \<Rightarrow> bool" where
  "trail_step blake3 s s' \<longleftrightarrow>
     q_audit_trail s' = q_audit_trail s \<and> gs_next_audit_seq s' = gs_next_audit_seq s \<and> dom (q_decision s') = dom (q_decision s) \<or>
     gs_next_audit_seq s' = gs_next_audit_seq s + 1 \<and>
     (\<exists>i t ev actor es. (es = q_audit_trail s i \<and> i \<in> dom (q_decision s) \<or> es = [] \<and> ev = ''DecisionCreated'' \<and> actor = ''system'') \<and>
        dom (q_decision s') = insert i (dom (q_decision s)) \<and>
        q_audit_trail s' = (q_audit_trail s)(i := es @ [next_entry blake3 es ev actor (gs_next_audit_seq s) t]))"

lemma q_decision_cong: "gs_decisions s' = gs_decisions s \<Longrightarrow> q_decision s' = q_decision s"
  by (simp add: q_decision_def fun_eq_iff)

lemma trail_step_append:
  assumes "q_audit_trail s1 = q_audit_trail s" "gs_next_audit_seq s1 = gs_next_audit_seq s"
    and "dom (q_decision s1) = dom (q_decision s)"
    and "gs_decisions s' = gs_decisions (append_audit blake3 t i ev actor s1)"
    and "gs_next_audit_seq s' = gs_next_audit_seq (append_audit blake3 t i ev actor s1)"
  shows "trail_step blake3 s s'"
proof -
  have q: "dom (q_decision s') = dom (q_decision s)"
    using q_decision_cong [OF assms(4)] assms(3) by simp
  show ?thesis
  proof (cases "q_decision s1 i")
    case None
    then show ?thesis
      using assms q q_audit_trail_cong [OF assms(4)] by (simp add: trail_step_def append_audit_trail)
  next
    case (Some d)
    then have "q_audit_trail s' = (q_audit_trail s)(i := q_audit_trail s i @ [next_entry blake3 (q_audit_trail s i) ev actor (gs_next_audit_seq s) t])"
      "gs_next_audit_seq s' = gs_next_audit_seq s + 1"
      using assms q_audit_trail_cong [OF assms(4)] by (simp_all add: append_audit_trail)
    moreover have "i \<in> dom (q_decision s)" using Some assms(3) by blast
    ultimately show ?thesis using q unfolding trail_step_def by (metis insert_absorb)
  qed
qed

lemma trail_step_create:
  "trail_step blake3 s (append_audit blake3 t u ''DecisionCreated'' ''system''
      ((send_event (DecisionUpdated d) s)\<lparr>gs_decisions := bm_insert u \<lparr>dr_decision = d, dr_audit_trail = []\<rparr> (gs_decisions s)\<rparr>))"
    (is "trail_step blake3 s (append_audit blake3 t u ?ev ?actor ?s)")
proof -
  have s: "q_audit_trail ?s = (q_audit_trail s)(u := [])" "q_decision ?s = (q_decision s)(u \<mapsto> d)"
    "gs_next_audit_seq ?s = gs_next_audit_seq s"
    by (simp_all add: q_audit_trail_def q_decision_def fun_eq_iff)
  then have "q_audit_trail (append_audit blake3 t u ?ev ?actor ?s) =
      (q_audit_trail s)(u := [] @ [next_entry blake3 [] ?ev ?actor (gs_next_audit_seq s) t])"
    "gs_next_audit_seq (append_audit blake3 t u ?ev ?actor ?s) = gs_next_audit_seq s + 1"
    "dom (q_decision (append_audit blake3 t u ?ev ?actor ?s)) = insert u (dom (q_decision s))"
    unfolding append_audit_trail append_audit_frame by simp_all
  then show ?thesis unfolding trail_step_def by blast
qed

lemma trail_step_commit:
  assumes rcd: "bm_get (gs_decisions s) i = Some rcd"
  shows "trail_step blake3 s (committed blake3 t i rcd d ev actor s)"
proof -
  obtain d' s1 where pd: "put_decision blake3 i rcd d s = (d', s1)" by force
  have c: "committed blake3 t i rcd d ev actor s = send_event (DecisionUpdated d') (append_audit blake3 t i ev actor s1)"
    by (simp only: committed_def pd prod.case)
  have "i \<in> dom (q_decision s)" by (simp add: q_decision_def rcd dom_def)
  then have "dom (q_decision s1) = dom (q_decision s)"
    by (simp only: put_decision_frame(5) [OF pd] dom_fun_upd option.simps if_False insert_absorb)
  then show ?thesis unfolding c
    by (rule trail_step_append [OF put_decision_trail(1) [OF pd rcd] put_decision_frame(3) [OF pd]])
      (simp_all only: send_event_simps)
qed

lemma trail_step_emergency:
  "trail_step blake3 s (send_event e (append_audit blake3 t i ev actor (s\<lparr>gs_emergency_actions := m\<rparr>)))"
  by (rule trail_step_append [of "s\<lparr>gs_emergency_actions := m\<rparr>" s _ blake3 t i ev actor])
    (simp_all add: q_decision_emergency q_audit_trail_def fun_eq_iff)

lemma gql_step_trail:
  assumes "gql_step blake3 s s'"
  shows "trail_step blake3 s s'"
  using assms
proof cases
  case gql_same
  show ?thesis unfolding trail_step_def q_audit_trail_cong [OF gql_same(1)] q_decision_cong [OF gql_same(1)] gql_same(3)
    by (intro disjI1 conjI refl)
next
  case (gql_create d u t)
  show ?thesis unfolding gql_create(1) by (rule trail_step_create)
next
  case (gql_commit i rcd d t ev actor)
  show ?thesis unfolding gql_commit(1) by (rule trail_step_commit) (rule gql_commit(2))
next
  case (gql_emergency i rcd a u t ev actor)
  show ?thesis unfolding gql_emergency(1) by (rule trail_step_emergency)
next
  case (gql_disclose t i ev actor)
  show ?thesis unfolding gql_disclose by (rule trail_step_append [of s s _ blake3 t i ev actor]) simp_all
qed

text \<open>
  The trails of a state: a decision has a trail that starts with its creation, verifies, and has
  increasing sequence numbers below the next one; no number is used twice.
\<close>

definition trails_ok :: "blake3 \<Rightarrow> gql_state \<Rightarrow> bool" where
  "trails_ok blake3 s \<longleftrightarrow>
     (\<forall>i. (q_audit_trail s i \<noteq> [] \<longleftrightarrow> i \<in> dom (q_decision s)) \<and> trail_verifies blake3 (q_audit_trail s i) \<and>
          sorted_wrt (\<lambda>d e. gae_sequence d < gae_sequence e) (q_audit_trail s i) \<and>
          (\<forall>e \<in> set (q_audit_trail s i). gae_sequence e < gs_next_audit_seq s) \<and>
          (q_audit_trail s i \<noteq> [] \<longrightarrow> gae_event_type (hd (q_audit_trail s i)) = ''DecisionCreated'')) \<and>
     (\<forall>i j. i \<noteq> j \<longrightarrow> gae_sequence ` set (q_audit_trail s i) \<inter> gae_sequence ` set (q_audit_trail s j) = {})"

lemma trails_ok_new: "trails_ok blake3 (gql_new blake3)"
  by (simp add: trails_ok_def q_audit_trail_def q_decision_def gql_new_def trail_verifies_def fun_eq_iff)

lemma unat_add_one: "w \<noteq> - 1 \<Longrightarrow> unat (w + 1) = unat w + 1" for w :: "'a::len word"
  using unatSuc [of w] by (simp add: add.commute eq_neg_iff_add_eq_0)

lemma disjoint_insert_sub: "A' \<subseteq> insert n A \<Longrightarrow> n \<notin> B \<Longrightarrow> A \<inter> B = {} \<Longrightarrow> A' \<inter> B = {}"
  by blast

lemma trails_ok_step:
  assumes "trail_step blake3 s s'" "trails_ok blake3 s" "gs_next_audit_seq s \<noteq> - 1"
  shows "trails_ok blake3 s'"
proof (cases "q_audit_trail s' = q_audit_trail s \<and> gs_next_audit_seq s' = gs_next_audit_seq s \<and> dom (q_decision s') = dom (q_decision s)")
  case True
  then show ?thesis using assms(2) unfolding trails_ok_def by simp
next
  case False
  with assms(1) obtain i t ev actor es where n: "gs_next_audit_seq s' = gs_next_audit_seq s + 1"
    and es: "es = q_audit_trail s i \<and> i \<in> dom (q_decision s) \<or> es = [] \<and> ev = ''DecisionCreated'' \<and> actor = ''system''"
    and d: "dom (q_decision s') = insert i (dom (q_decision s))"
    and tr: "q_audit_trail s' = (q_audit_trail s)(i := es @ [next_entry blake3 es ev actor (gs_next_audit_seq s) t])"
    unfolding trail_step_def by (simp only: simp_thms) (elim exE conjE, rule that)
  let ?e = "next_entry blake3 es ev actor (gs_next_audit_seq s) t"
  have seq: "gae_sequence ?e = gs_next_audit_seq s" "gae_event_type ?e = ev" by (simp_all add: next_entry_def)
  have lt: "x < gs_next_audit_seq s' \<longleftrightarrow> x < gs_next_audit_seq s \<or> x = gs_next_audit_seq s" for x
    using unat_add_one [OF assms(3)] unfolding n word_less_nat_alt word_unat_eq_iff by linarith
  have sub: "set es \<subseteq> set (q_audit_trail s i)" and ver: "trail_verifies blake3 es"
    and srt: "sorted_wrt (\<lambda>d e. gae_sequence d < gae_sequence e) es"
    and hd: "es \<noteq> [] \<Longrightarrow> gae_event_type (hd es) = ''DecisionCreated''" "es = [] \<Longrightarrow> ev = ''DecisionCreated''"
    using es assms(2) unfolding trails_ok_def by (auto simp: trail_verifies_def)
  have old: "gae_sequence x < gs_next_audit_seq s" if "x \<in> set (q_audit_trail s j)" for x j
    using assms(2) that unfolding trails_ok_def by blast
  have disj: "gae_sequence ` set (q_audit_trail s k) \<inter> gae_sequence ` set (q_audit_trail s j) = {}" if "k \<noteq> j" for j k
    using assms(2) that unfolding trails_ok_def by blast
  show ?thesis unfolding trails_ok_def
  proof (intro conjI allI impI)
    fix j
    show "(q_audit_trail s' j \<noteq> []) = (j \<in> dom (q_decision s'))"
      using assms(2) unfolding tr d trails_ok_def by auto
    show "trail_verifies blake3 (q_audit_trail s' j)"
      using assms(2) next_entry_verifies [OF ver] unfolding tr trails_ok_def by simp
    show "sorted_wrt (\<lambda>d e. gae_sequence d < gae_sequence e) (q_audit_trail s' j)"
      using assms(2) srt old sub unfolding tr trails_ok_def by (auto simp: sorted_wrt_append seq)
    show "\<forall>e \<in> set (q_audit_trail s' j). gae_sequence e < gs_next_audit_seq s'"
      using old sub unfolding tr lt by (auto simp: seq)
    show "gae_event_type (hd (q_audit_trail s' j)) = ''DecisionCreated''" if "q_audit_trail s' j \<noteq> []"
      using assms(2) that hd unfolding tr trails_ok_def by (cases "j = i"; cases es) (auto simp: next_entry_def)
  next
    fix k j :: string assume "k \<noteq> j"
    show "gae_sequence ` set (q_audit_trail s' k) \<inter> gae_sequence ` set (q_audit_trail s' j) = {}"
    proof -
      have fresh: "gs_next_audit_seq s \<notin> gae_sequence ` set (q_audit_trail s l)" for l
      proof
        assume "gs_next_audit_seq s \<in> gae_sequence ` set (q_audit_trail s l)"
        then obtain x where "x \<in> set (q_audit_trail s l)" "gae_sequence x = gs_next_audit_seq s" by fastforce
        with old [OF this(1)] show False by simp
      qed
      have one: "gae_sequence ` set (q_audit_trail s' i) \<subseteq> insert (gs_next_audit_seq s) (gae_sequence ` set (q_audit_trail s i))"
        using sub unfolding tr by (auto simp: seq)
      have rest: "q_audit_trail s' l = q_audit_trail s l" if "l \<noteq> i" for l using that by (simp add: tr)
      have i: "gae_sequence ` set (q_audit_trail s' i) \<inter> gae_sequence ` set (q_audit_trail s' l) = {}" if "l \<noteq> i" for l
        unfolding rest [OF that] by (rule disjoint_insert_sub [OF one fresh disj]) (use that in simp)
      show ?thesis
      proof (cases "k = i \<or> j = i")
        case True
        with i [of j] i [of k] \<open>k \<noteq> j\<close> show ?thesis by (metis inf_commute)
      next
        case False
        with disj [OF \<open>k \<noteq> j\<close>] show ?thesis by (simp add: rest)
      qed
    qed
  qed
qed

lemma trail_step_seq: "trail_step blake3 s s' \<Longrightarrow> gs_next_audit_seq s' = gs_next_audit_seq s \<or> gs_next_audit_seq s' = gs_next_audit_seq s + 1"
  unfolding trail_step_def by (elim disjE conjE) simp_all

lemma gql_run_trails:
  "length rqs < 2 ^ 32 - 2 \<Longrightarrow>
     trails_ok blake3 (gql_run blake3 rqs (gql_new blake3)) \<and>
     unat (gs_next_audit_seq (gql_run blake3 rqs (gql_new blake3))) \<le> length rqs + 1"
proof (induction rqs rule: rev_induct)
  case Nil
  then show ?case by (simp add: trails_ok_new) (simp add: gql_new_def)
next
  case (snoc rq rqs)
  let ?s = "gql_run blake3 rqs (gql_new blake3)"
  have IH: "trails_ok blake3 ?s" "unat (gs_next_audit_seq ?s) \<le> length rqs + 1" using snoc by simp_all
  have "unat (gs_next_audit_seq ?s) \<noteq> unat (- 1 :: 32 word)" using IH(2) snoc.prems by (simp add: unsigned_minus_1_eq_mask mask_eq_exp_minus_1)
  then have n: "gs_next_audit_seq ?s \<noteq> - 1" by metis
  have step: "trail_step blake3 ?s (gql_apply blake3 rq ?s)" by (rule gql_step_trail [OF gql_apply_step])
  have "unat (gs_next_audit_seq (gql_apply blake3 rq ?s)) \<le> unat (gs_next_audit_seq ?s) + 1"
    using trail_step_seq [OF step] unat_add_one [OF n] by (elim disjE) simp_all
  with IH(2) trails_ok_step [OF step IH(1) n] show ?case by simp
qed

lemma sint_small: "unat w < 2 ^ 31 \<Longrightarrow> sint w = uint w" for w :: "32 word"
proof -
  assume "unat w < 2 ^ 31"
  then have "int (unat w) < int (2 ^ 31)" unfolding of_nat_less_iff .
  then have "uint w < 2 ^ 31" by simp
  moreover have "- (2 ^ 31) \<le> uint w" by (rule order_trans [OF _ uint_ge_0]) simp
  ultimately have "signed_take_bit 31 (uint w) = uint w" by (intro signed_take_bit_int_eq_self)
  then show ?thesis by (simp add: sint_uint)
qed

text \<open>
  C39: audit trails. After fewer than 2^31 - 1 mutations every decision has an audit trail, which starts
  with its creation, verifies from the zero hash on, and has strictly increasing sequence numbers; what
  is not a decision has none, and the trails of different decisions share no sequence number.
\<close>

theorem audit_trails_chained:
  assumes "length rqs < 2 ^ 31 - 1"
  shows "let s = gql_run blake3 rqs (gql_new blake3)
         in (q_audit_trail s i \<noteq> [] \<longleftrightarrow> q_decision s i \<noteq> None) \<and>
            (q_audit_trail s i = [] \<or> gae_event_type (hd (q_audit_trail s i)) = ''DecisionCreated'') \<and>
            trail_verifies blake3 (q_audit_trail s i) \<and>
            sorted_wrt (<) (map (\<lambda>e. sint (gae_sequence e)) (q_audit_trail s i)) \<and>
            (i = j \<or> gae_sequence ` set (q_audit_trail s i) \<inter> gae_sequence ` set (q_audit_trail s j) = {})"
proof -
  define s where "s = gql_run blake3 rqs (gql_new blake3)"
  have ok: "trails_ok blake3 s" and n: "unat (gs_next_audit_seq s) < 2 ^ 31"
    using gql_run_trails [of rqs blake3] assms by (simp_all add: s_def)
  have small: "sint (gae_sequence e) = uint (gae_sequence e)" if "e \<in> set (q_audit_trail s i)" for e
  proof (rule sint_small)
    have "gae_sequence e < gs_next_audit_seq s" using ok that unfolding trails_ok_def by blast
    with n show "unat (gae_sequence e) < 2 ^ 31" unfolding word_less_nat_alt by linarith
  qed
  have "sorted_wrt (\<lambda>d e. gae_sequence d < gae_sequence e) (q_audit_trail s i)"
    using ok unfolding trails_ok_def by blast
  then have "sorted_wrt (<) (map (\<lambda>e. sint (gae_sequence e)) (q_audit_trail s i))"
    unfolding sorted_wrt_map by (rule sorted_wrt_mono_rel [rotated]) (simp add: small word_less_def)
  moreover have "q_audit_trail s i \<noteq> [] \<longleftrightarrow> q_decision s i \<noteq> None" "trail_verifies blake3 (q_audit_trail s i)"
    "q_audit_trail s i = [] \<or> gae_event_type (hd (q_audit_trail s i)) = ''DecisionCreated''"
    using ok unfolding trails_ok_def by blast+
  moreover have "i = j \<or> gae_sequence ` set (q_audit_trail s i) \<inter> gae_sequence ` set (q_audit_trail s j) = {}"
    using ok unfolding trails_ok_def by blast
  ultimately show ?thesis unfolding Let_def s_def by (intro conjI)
qed

theorem audit_trails_chained_witness:
  "let s = demo_state in q_audit_trail s ''a'' \<noteq> [] \<and> trail_verifies (\<lambda>_. arr32_of []) (q_audit_trail s ''a'') \<and>
     gae_sequence ` set (q_audit_trail s ''a'') \<inter> gae_sequence ` set (q_audit_trail s ''b'') = {}"
proof -
  have "q_decision demo_state ''a'' \<noteq> None" by code_simp
  with audit_trails_chained [of "[RqCreate ''b'' 1 1 (demo_input ''t''), RqCreate ''a'' 2 2 (demo_input ''t''),
      RqCreate ''c'' 3 3 (demo_input ''u'')]" "\<lambda>_. arr32_of []" "''a''" "''b''"]
  show ?thesis unfolding demo_state_def [symmetric] Let_def by simp
qed

text \<open>
  Tamper evidence: two trails that verify and end in the same receipt have the same sequence numbers and
  the same texts, when the hash does not collide on them and none hashes to zero. The text joins event
  type and actor, which the receipt does not separate.
\<close>

lemma audit_trail_tamper_evident:
  assumes "trail_verifies blake3 es" "trail_verifies blake3 es'" "es \<noteq> []" "es' \<noteq> []"
    and "gae_receipt_hash (last es) = gae_receipt_hash (last es')"
    and "inj_on blake3 (link_pre ` (set (trail_links blake3 (arr32_of []) es) \<union> set (trail_links blake3 (arr32_of []) es')))"
    and "arr32_of [] \<notin> blake3 ` link_pre ` (set (trail_links blake3 (arr32_of []) es) \<union> set (trail_links blake3 (arr32_of []) es'))"
  shows "map (\<lambda>e. (gae_sequence e, gae_event_type e @ ''|'' @ gae_actor e)) es =
         map (\<lambda>e. (gae_sequence e, gae_event_type e @ ''|'' @ gae_actor e)) es'"
proof -
  let ?ls = "trail_links blake3 (arr32_of [])"
  have last: "gae_receipt_hash (last xs) = hash_display (Hash256 (blake3 (link_pre (last (?ls xs)))))"
    if "trail_verifies blake3 xs" "xs \<noteq> []" for xs
  proof -
    have "last (?ls xs) \<in> set (?ls xs)" "snd (last (?ls xs)) = last xs"
      using that(2) last_map [of "?ls xs" snd] by simp_all
    then show ?thesis using that(1) unfolding trail_verifies_def list_all_iff by metis
  qed
  have "map link_pre (?ls es) = map link_pre (?ls es')"
  proof (rule gql_trail.same_head_same_log [of blake3])
    show "log_head (\<lambda>l. blake3 (link_pre l)) (?ls es) = log_head (\<lambda>l. blake3 (link_pre l)) (?ls es')"
      using assms(5) last [OF assms(1,3)] last [OF assms(2,4)] assms(3,4) by (simp add: log_head_def)
  qed (use assms(6,7) trail_links_linked in simp_all)
  moreover have "link_pre l = link_pre l' \<Longrightarrow> (gae_sequence (snd l), gae_event_type (snd l) @ ''|'' @ gae_actor (snd l)) =
      (gae_sequence (snd l'), gae_event_type (snd l') @ ''|'' @ gae_actor (snd l'))" for l l'
    by (simp only: link_pre_eq simp_thms)
  ultimately have "map (\<lambda>e. (gae_sequence e, gae_event_type e @ ''|'' @ gae_actor e)) (map snd (?ls es)) =
      map (\<lambda>e. (gae_sequence e, gae_event_type e @ ''|'' @ gae_actor e)) (map snd (?ls es'))"
    unfolding map_map comp_def by (simp only: list_all2_eq list_all2_map1 list_all2_map2) (erule list_all2_mono, blast)
  then show ?thesis by simp
qed

lemma receipt_text_ambiguous: "receipt_text p (a @ ''|'' @ b) c q = receipt_text p a (b @ ''|'' @ c) q"
  by (simp add: receipt_text_def)

section \<open>Pages and versions\<close>

text \<open>The decisions that a listing selects.\<close>

definition matching :: "gql_state \<Rightarrow> string \<Rightarrow> string option \<Rightarrow> gql_decision list" where
  "matching s tenant_id status =
     filter (\<lambda>d. gd_tenant_id d = tenant_id \<and> (case status of None \<Rightarrow> True | Some st \<Rightarrow> st = gd_status d))
       (map dr_decision (bm_values (gs_decisions s)))"

lemma q_decisions_page:
  assumes "1 \<le> l" "l \<le> 200" "off < 2 ^ 31"
  shows "q_decisions s tenant_id status (Some (of_nat l)) (Some (of_nat off)) = take l (drop off (matching s tenant_id status))"
proof -
  have small: "sint (of_nat n :: 32 word) = int n" if "n < 2 ^ 31" for n
    using that sint_small [of "of_nat n"] by (simp add: unsigned_of_nat take_bit_nat_eq_self take_bit_int_eq_self)
  have lim: "nat (min (max (sint (of_nat l :: 32 word)) 1) 200) = l" using small [of l] assms(1,2) by simp
  have off: "nat (max (sint (of_nat off :: 32 word)) 0) = off" using small [OF assms(3)] by simp
  show ?thesis unfolding q_decisions_def Let_def option.case lim off matching_def
    by (simp add: filter_map comp_def conj_commute)
qed

lemma concat_pages: "concat (map (\<lambda>k. take l (drop (k * l) xs)) [0..<n]) = take (n * l) xs"
proof (induction n)
  case (Suc n)
  then show ?case by (simp add: take_add add.commute [of l])
qed simp

text \<open>
  Pagination. For a page size between 1 and 200, the pages of the list of decisions of a tenant,
  optionally of one status, put together are the whole list, in the order of their identifiers, and each
  decision is on one page only.
\<close>

theorem decision_pages_complete:
  assumes "1 \<le> l" "l \<le> 200" "n * l \<le> 2 ^ 31" "length (matching s tenant_id status) \<le> n * l"
  shows "concat (map (\<lambda>k. q_decisions s tenant_id status (Some (of_nat l)) (Some (of_nat (k * l)))) [0..<n]) =
           matching s tenant_id status"
proof -
  have page: "q_decisions s tenant_id status (Some (of_nat l)) (Some (of_nat (k * l))) =
      take l (drop (k * l) (matching s tenant_id status))" if "k < n" for k
  proof (rule q_decisions_page [OF assms(1,2)])
    have "k * l < n * l" using that assms(1) by simp
    with assms(3) show "k * l < 2 ^ 31" by linarith
  qed
  have "map (\<lambda>k. q_decisions s tenant_id status (Some (of_nat l)) (Some (of_nat (k * l)))) [0..<n] =
      map (\<lambda>k. take l (drop (k * l) (matching s tenant_id status))) [0..<n]"
    by (rule map_cong [OF refl], rule page) simp
  then have "concat (map (\<lambda>k. q_decisions s tenant_id status (Some (of_nat l)) (Some (of_nat (k * l)))) [0..<n]) =
      take (n * l) (matching s tenant_id status)"
    by (simp only: concat_pages)
  then show ?thesis using assms(4) by (simp only: take_all)
qed

theorem decision_pages_complete_witness:
  "map gd_id (q_decisions demo_state ''t'' None (Some 1) (Some 0) @ q_decisions demo_state ''t'' None (Some 1) (Some 1)) =
     [''a'', ''b'']"
proof -
  have m: "map gd_id (matching demo_state ''t'' None) = [''a'', ''b'']" by code_simp
  then have "length (matching demo_state ''t'' None) = 2" by (metis length_map length_Cons list.size(3) numeral_2_eq_2)
  with decision_pages_complete [of 1 2 demo_state "''t''" None]
  have "q_decisions demo_state ''t'' None (Some 1) (Some 0) @ q_decisions demo_state ''t'' None (Some 1) (Some 1) =
      matching demo_state ''t'' None"
    by (simp add: upt_rec [of _ 2])
  with m show ?thesis by (simp only:)
qed

text \<open>Parsing what was printed.\<close>

lemma digit_value_hex [simp]: "d < 10 \<Longrightarrow> digit_value (hex_digit d) = Some d"
  by (simp add: digit_value_def of_char_hex_digit)

lemma decimal_value_snoc:
  "ds \<noteq> [] \<Longrightarrow> decimal_value (ds @ [c]) =
     Option.bind (decimal_value ds) (\<lambda>n. map_option (\<lambda>d. 10 * n + d) (digit_value c))"
  by (simp add: decimal_value_def)

lemma decimal_value_show: "decimal_value (show_nat n) = Some n"
proof (induction n rule: show_nat.induct)
  case (1 n)
  show ?case
  proof (cases "n < 10")
    case True
    then show ?thesis by (simp add: show_nat.simps [of n] digit_hex_digit decimal_value_def)
  next
    case False
    with 1 show ?thesis by (simp add: show_nat.simps [of n] decimal_value_snoc digit_hex_digit)
  qed
qed

lemma parse_u32_show: "n < 2 ^ 32 \<Longrightarrow> parse_u32 (show_nat n) = Some (of_nat n)"
proof -
  assume n: "n < 2 ^ 32"
  have "(case show_nat n of c # r \<Rightarrow> if c = CHR ''+'' then r else show_nat n | [] \<Rightarrow> show_nat n) = show_nat n"
    using set_show_nat(4) [of n] by (cases "show_nat n") auto
  with n show ?thesis by (simp add: parse_u32_def decimal_value_show)
qed

lemma splitn_version: "splitn 3 (CHR ''.'') (''1.0.'' @ s) = [''1'', ''0'', s]"
  by (simp add: numeral_3_eq_3)

lemma bump_version_next:
  assumes "Suc n < 2 ^ 32"
  shows "bump_version (''1.0.'' @ show_nat n) = ''1.0.'' @ show_nat (Suc n)"
proof -
  have "unat (of_nat (Suc n) :: u32) = Suc n"
    using assms by (simp only: unsigned_of_nat) (simp add: take_bit_nat_eq_self)
  then have "unat (of_nat n + 1 :: u32) = Suc n" by (simp only: of_nat_Suc add.commute)
  then show ?thesis
    unfolding bump_version_def Let_def splitn_version using assms by (simp add: parse_u32_show)
qed

lemma constitution_frame [simp]:
  "gs_constitution (send_event e s) = gs_constitution s"
  "gs_constitution (append_audit blake3 t i ev actor s) = gs_constitution s"
  "gs_constitution (snd (put_decision blake3 i rcd d s)) = gs_constitution s"
  by (auto simp: send_event_def append_audit_def put_decision_def Let_def split: option.splits)

lemma gql_apply_constitution:
  "gs_constitution (gql_apply blake3 rq s) =
     (case rq of RqAmend tid amendment \<Rightarrow>
        \<lparr>gcn_tenant_id = tid, gcn_version = bump_version (gcn_version (gs_constitution s)),
         gcn_hash = hash_display (digest blake3 (str_bytes (gcn_hash (gs_constitution s) @ '':'' @ amendment)))\<rparr>
      | _ \<Rightarrow> gs_constitution s)"
  by (cases rq) (auto simp: gql_op_defs Let_def case_prod_unfold split: option.splits)

text \<open>The version counts the amendments, whatever else happens.\<close>

lemma constitution_version:
  "length rqs < 2 ^ 32 \<Longrightarrow>
     gcn_version (gs_constitution (gql_run blake3 rqs (gql_new blake3))) =
       ''1.0.'' @ show_nat (length (filter (\<lambda>rq. case rq of RqAmend _ _ \<Rightarrow> True | _ \<Rightarrow> False) rqs))"
proof (induction rqs rule: rev_induct)
  case Nil
  then show ?case by (simp add: gql_new_def show_nat.simps char_of_def bit_iff_odd)
next
  case (snoc rq rqs)
  let ?n = "length (filter (\<lambda>rq. case rq of RqAmend _ _ \<Rightarrow> True | _ \<Rightarrow> False) rqs)"
  have "?n \<le> length rqs" by (rule length_filter_le)
  moreover have "Suc (length rqs) < 2 ^ 32" using snoc.prems by simp
  ultimately have "Suc ?n < 2 ^ 32" by linarith
  from bump_version_next [OF this] snoc show ?case
    by (cases rq) (simp_all add: gql_apply_constitution del: gql_apply.simps)
qed

section \<open>What the service does not enforce\<close>

text \<open>
  The caller is a fixed name, so the check for duplicate votes lets each decision have one vote at most.
\<close>

definition votes_ok :: "gql_state \<Rightarrow> bool" where
  "votes_ok s \<longleftrightarrow> (\<forall>i d. q_decision s i = Some d \<longrightarrow> length (gd_votes d) \<le> 1 \<and> list_all (\<lambda>v. gv_voter v = caller) (gd_votes d))"

lemma votes_ok_update:
  "votes_ok s \<Longrightarrow> q_decision s' = (q_decision s)(i \<mapsto> d) \<Longrightarrow> length (gd_votes d) \<le> 1 \<Longrightarrow>
     list_all (\<lambda>v. gv_voter v = caller) (gd_votes d) \<Longrightarrow> votes_ok s'"
  unfolding votes_ok_def by simp

lemma votes_ok_step:
  assumes "gql_step blake3 s s'" "votes_ok s" "keys_ok s"
  shows "votes_ok s'"
  using assms(1)
proof cases
  case gql_same
  show ?thesis using assms(2) unfolding votes_ok_def q_decision_cong [OF gql_same(1)] .
next
  case (gql_create d u t)
  have "q_decision s' = (q_decision s)(u \<mapsto> d)"
    unfolding gql_create(1) append_audit_frame by (simp add: q_decision_def fun_eq_iff)
  then show ?thesis by (rule votes_ok_update [OF assms(2)]) (simp_all add: gql_create(3))
next
  case (gql_commit i rcd d t ev actor)
  have q: "q_decision s i = Some (dr_decision rcd)" by (simp add: q_decision_def gql_commit(2))
  then have i: "gd_id d = i" using assms(3) unfolding keys_ok_def gql_commit(3) by blast
  have old: "length (gd_votes (dr_decision rcd)) \<le> 1" "list_all (\<lambda>v. gv_voter v = caller) (gd_votes (dr_decision rcd))"
    using assms(2) q unfolding votes_ok_def by simp_all
  have new: "length (gd_votes d) \<le> 1 \<and> list_all (\<lambda>v. gv_voter v = caller) (gd_votes d)"
    using gql_commit(4)
  proof
    assume "gd_votes d = gd_votes (dr_decision rcd)"
    with old show ?thesis by (simp only: simp_thms)
  next
    assume "(\<forall>v \<in> set (gd_votes (dr_decision rcd)). gv_voter v \<noteq> caller) \<and>
      (\<exists>v. gv_voter v = caller \<and> gd_votes d = gd_votes (dr_decision rcd) @ [v])"
    moreover from this old(2) have "gd_votes (dr_decision rcd) = []"
      unfolding list_all_iff by (metis list.set_intros(1) list.exhaust)
    ultimately show ?thesis by auto
  qed
  obtain d' where d': "gd_id d' = i \<and> gd_votes d' = gd_votes d \<and> gs_events s' = gs_events s @ [DecisionUpdated d'] \<and>
      q_decision s' = (q_decision s)(i \<mapsto> d') \<and> gs_emergency_actions s' = gs_emergency_actions s"
    unfolding gql_commit(1) using i by (rule exE [OF committed_frame])
  then show ?thesis using new by (intro votes_ok_update [OF assms(2), of s' i d']) simp_all
next
  case (gql_emergency i rcd a u t ev actor)
  show ?thesis using assms(2) unfolding votes_ok_def gql_emergency(1) by (simp add: q_decision_emergency)
next
  case (gql_disclose t i ev actor)
  show ?thesis using assms(2) unfolding votes_ok_def gql_disclose append_audit_frame .
qed

lemma one_vote_per_decision:
  assumes "q_decision (gql_run blake3 rqs (gql_new blake3)) i = Some d"
  shows "length (gd_votes d) \<le> 1"
proof -
  have "votes_ok (gql_run blake3 rqs s) \<and> keys_ok (gql_run blake3 rqs s)" if "votes_ok s" "keys_ok s" for s rqs
    using that
  proof (induction rqs arbitrary: s)
    case (Cons rq rqs)
    have "votes_ok (gql_apply blake3 rq s)" "keys_ok (gql_apply blake3 rq s)"
      using votes_ok_step [OF gql_apply_step Cons.prems] gql_step_accounted [OF gql_apply_step Cons.prems(2)] by blast+
    from Cons.IH [OF this] show ?case by simp
  qed simp
  moreover have "votes_ok (gql_new blake3)" by (simp add: votes_ok_def q_decision_def gql_new_def)
  ultimately have "votes_ok (gql_run blake3 rqs (gql_new blake3))" using keys_ok_new by blast
  then show ?thesis using assms unfolding votes_ok_def by blast
qed

text \<open>A conflict disclosed on an unknown decision is confirmed and recorded nowhere.\<close>

lemma disclosure_lost:
  "q_decision s i = None \<Longrightarrow>
     fst (disclose_conflict blake3 t t' i descr nature s) = s \<and> \<not> isl (snd (disclose_conflict blake3 t t' i descr nature s))"
  by (simp add: disclose_conflict_def append_audit_def q_decision_def split: option.splits)

text \<open>There is one constitution: an amendment for a tenant loses that of every other tenant.\<close>

lemma amendment_drops_others:
  assumes "a \<noteq> b"
  shows "q_constitution blake3 (fst (amend_constitution blake3 b amendment s)) a v =
    \<lparr>gcn_tenant_id = a, gcn_version = ''1.0.0'', gcn_hash = hash_display (digest blake3 (str_bytes a))\<rparr>"
  using assms by (simp add: q_constitution_def amend_constitution_def Let_def)

text \<open>A revoked delegation is still listed, and nothing ever announces an expiring one.\<close>

lemma revoked_still_listed:
  assumes "bm_get (gs_delegations s) i = Some d" "gdl_delegatee d = actor"
  shows "d\<lparr>gdl_active := False\<rparr> \<in> set (q_delegations (fst (gql_revoke_delegation i s)) actor)"
  using assms by (auto simp: q_delegations_def gql_revoke_delegation_def Let_def set_bm_values)

lemma any_status_accepted:
  assumes "q_decision s i = Some d"
  shows "\<exists>d'. q_decision (fst (advance_decision blake3 t i st reason s)) i = Some d' \<and> gd_status d' = st"
  using assms
  by (auto simp: advance_decision_def q_decision_def put_decision_def Let_def append_audit_def)

end
