(* ===== verification/Wasm_Bridge.thy ===== *)
theory Wasm_Bridge
  imports Core_Display Hash_Log
begin

text \<open>
  The bridge of \<open>src/crates/exochain-wasm/src/serde_bridge.rs\<close> and the conversions that the bindings
  share. The JSON decoder and encoder, the parser of the JavaScript engine, hexadecimal decoding and the
  parser of identifiers belong to libraries and are arguments; so is the type of JSON texts.
\<close>

section \<open>JSON\<close>

text \<open>Values built with the \<open>json!\<close> macro.\<close>

datatype json = JNull | JBool bool | JNum int | JStr string | JArr "json list" | JObj "(string \<times> json) list"

text \<open>The environment of a binding, for JSON texts \<open>'t\<close> and JavaScript values \<open>'js\<close>.\<close>

record ('t, 'js) wasm_env =
  we_str :: "string \<Rightarrow> 'js"
  we_parse :: "'t \<Rightarrow> ('js, 'js) result"
  we_json :: "json \<Rightarrow> ('t, string) result"
  we_hex :: "string \<Rightarrow> (bytes, string) result"
  we_uuid :: "string \<Rightarrow> (uuid, string) result"

text \<open>Decoder and encoder of a type, with the texts of their errors.\<close>

record ('t, 'a) codec =
  cd_de :: "'t \<Rightarrow> ('a, string) result"
  cd_ser :: "'a \<Rightarrow> ('t, string) result"

text \<open>\<open>map_err(|e| JsValue::from_str(&format!(\<dots>{e})))\<close>.\<close>

definition js_err :: "('t, 'js) wasm_env \<Rightarrow> ('e \<Rightarrow> string) \<Rightarrow> ('a, 'e) result \<Rightarrow> ('a, 'js) result" where
  "js_err env msg r = map_sum (\<lambda>e. we_str env (msg e)) id r"

definition from_json_str :: "('t, 'js) wasm_env \<Rightarrow> ('t \<Rightarrow> ('a, string) result) \<Rightarrow> 't \<Rightarrow> ('a, 'js) result" where
  "from_json_str env de json = js_err env (\<lambda>e. ''JSON parse error: '' @ e) (de json)"

definition to_js_value :: "('t, 'js) wasm_env \<Rightarrow> ('a \<Rightarrow> ('t, string) result) \<Rightarrow> 'a \<Rightarrow> ('js, 'js) result" where
  "to_js_value env ser val =
     and_then (js_err env (\<lambda>e. ''Serialization error: '' @ e) (ser val)) (we_parse env)"

section \<open>Shared conversions\<close>

definition js_did :: "('t, 'js) wasm_env \<Rightarrow> string \<Rightarrow> (did, 'js) result" where
  "js_did env s = js_err env (\<lambda>e. ''DID error: '' @ exo_error_display e) (did_new s)"

definition js_arr32 :: "('t, 'js) wasm_env \<Rightarrow> string \<Rightarrow> string \<Rightarrow> (arr32, 'js) result" where
  "js_arr32 env msg s =
     and_then (js_err env (\<lambda>e. ''hex: '' @ e) (we_hex env s)) (\<lambda>bs. ok_or (try_arr32 bs) (we_str env msg))"

definition js_hash :: "('t, 'js) wasm_env \<Rightarrow> string \<Rightarrow> string \<Rightarrow> (hash256, 'js) result" where
  "js_hash env msg s = and_then (js_arr32 env msg s) (\<lambda>a. Ok (Hash256 a))"

text \<open>A list of values, each decoded from its text: the first failure is returned.\<close>

fun js_all :: "('a \<Rightarrow> ('b, 'js) result) \<Rightarrow> 'a list \<Rightarrow> ('b list, 'js) result" where
  "js_all f [] = Ok []"
| "js_all f (x # xs) = and_then (f x) (\<lambda>y. and_then (js_all f xs) (\<lambda>ys. Ok (y # ys)))"

text \<open>Pairs of an identifier and a value, collected in a hash map: a later pair replaces an earlier one.\<close>

fun js_table :: "('t, 'js) wasm_env \<Rightarrow> ('v \<Rightarrow> ('b, 'js) result) \<Rightarrow> (string \<times> 'v) list \<Rightarrow> (did \<rightharpoonup> 'b) \<Rightarrow> (did \<rightharpoonup> 'b, 'js) result" where
  "js_table env f [] m = Ok m"
| "js_table env f ((d, x) # ps) m =
     and_then (js_did env d) (\<lambda>d'. and_then (f x) (\<lambda>y. js_table env f ps (m(d' \<mapsto> y))))"

text \<open>The object that reports a check: \<open>{"ok": true}\<close> or \<open>{"ok": false, "error": \<dots>}\<close>, under the given key.\<close>

definition json_status :: "string \<Rightarrow> ('e \<Rightarrow> string) \<Rightarrow> (unit, 'e) result \<Rightarrow> json" where
  "json_status key display r =
     (case r of
        Inr _ \<Rightarrow> JObj [(key, JBool True)]
      | Inl e \<Rightarrow> JObj [(key, JBool False), (''error'', JStr (display e))])"

text \<open>The pairs of identifiers and hexadecimal signatures: the loop stops at the first bad one.\<close>

fun js_signatures :: "('t, 'js) wasm_env \<Rightarrow> (string \<times> string) list \<Rightarrow> ((did \<times> signature) list, 'js) result" where
  "js_signatures env [] = Ok []"
| "js_signatures env ((d, s) # ps) =
     and_then (js_did env d) (\<lambda>d'.
     and_then (js_err env (\<lambda>e. ''hex: '' @ e) (we_hex env s)) (\<lambda>bs.
     and_then (ok_or (try_arr64 bs) (we_str env ''signature must be 64 bytes'')) (\<lambda>a.
     and_then (js_signatures env ps) (\<lambda>rest. Ok ((d', sig_from_bytes a) # rest)))))"

section \<open>Laws\<close>

lemma js_err_simps [simp]:
  "js_err env msg (Inr x) = Inr x" "js_err env msg (Inl e) = Inl (we_str env (msg e))"
  by (simp_all add: js_err_def)

lemma js_did_iff: "(\<exists>d. js_did env s = Ok d) \<longleftrightarrow> did_validate s = Ok ()"
  by (cases "did_validate s") (auto simp: js_did_def did_new_def)

lemma js_did_Ok: "js_did env s = Ok d \<Longrightarrow> d = Did s"
  by (cases "did_validate s") (auto simp: js_did_def did_new_def)

text \<open>A hash printed by the library and decoded again, given that decoding inverts the printing of bytes.\<close>

lemma js_hash_display:
  assumes "\<And>bs. we_hex env (hex_bytes bs) = Ok bs"
  shows "js_hash env msg (hash_display h) = Ok h"
proof -
  have "try_arr32 (hash_bytes h) = Some (hash_arr h)"
    by (simp add: try_arr32_def hash_bytes_def)
  then show ?thesis by (simp add: js_hash_def js_arr32_def hash_display_hex assms ok_or_def)
qed

lemma js_arr32_hex:
  assumes "\<And>bs. we_hex env (hex_bytes bs) = Ok bs"
  shows "js_arr32 env msg (hex_bytes (bytes32 a)) = Ok a"
  by (simp add: js_arr32_def assms ok_or_def)

lemma js_all_map: "(\<And>x. x \<in> set xs \<Longrightarrow> f (g x) = Ok x) \<Longrightarrow> js_all f (map g xs) = Ok xs"
  by (induction xs) auto

text \<open>The table answers with the last pair of an identifier.\<close>

lemma js_table_lookup:
  "js_table env f ps m = Ok m' \<Longrightarrow>
     m' d = (case map_of (rev ps) (did_str d) of
               None \<Rightarrow> m d | Some x \<Rightarrow> (case f x of Inr y \<Rightarrow> Some y | Inl _ \<Rightarrow> None))"
proof (induction ps arbitrary: m)
  case (Cons p ps)
  obtain e x where p: "p = (e, x)" by force
  from Cons.prems obtain y where y: "js_did env e = Ok (Did e)" "f x = Ok y" "js_table env f ps (m(Did e \<mapsto> y)) = Ok m'"
    by (auto simp: p and_then_eq_Ok dest: js_did_Ok)
  from Cons.IH [OF y(3)] y(2) show ?case
    by (cases d) (auto simp: p map_add_def split: option.splits)
qed simp

section \<open>Values between calls\<close>

text \<open>
  What a codec and the engine promise together, for the values of a type that JavaScript represents
  exactly: encoding succeeds, and the text of the parsed value decodes to what was encoded. The engine
  holds every number as a double, so a \<open>u64\<close> is exact below \<open>2^53\<close> only; \<open>exact\<close> says for which values
  the promise is made.
\<close>

definition js_roundtrip :: "('t, 'js) wasm_env \<Rightarrow> ('js \<Rightarrow> 't) \<Rightarrow> ('a \<Rightarrow> bool) \<Rightarrow> ('t, 'a) codec \<Rightarrow> bool" where
  "js_roundtrip env stringify exact cd \<longleftrightarrow>
     (\<forall>x. exact x \<longrightarrow> (\<exists>t v. cd_ser cd x = Ok t \<and> we_parse env t = Ok v \<and> cd_de cd (stringify v) = Ok x))"

definition js_exact_u64 :: "u64 \<Rightarrow> bool" where
  "js_exact_u64 n \<longleftrightarrow> n < 2 ^ 53"

lemma to_js_value_roundtrip:
  assumes "js_roundtrip env stringify exact cd" and "exact x"
  shows "\<exists>v. to_js_value env (cd_ser cd) x = Ok v \<and> cd_de cd (stringify v) = Ok x"
proof -
  obtain t v where "cd_ser cd x = Ok t" "we_parse env t = Ok v" "cd_de cd (stringify v) = Ok x"
    using assms unfolding js_roundtrip_def by blast
  then show ?thesis by (simp add: to_js_value_def)
qed

lemma js_signatures_all:
  "js_signatures env ps = Ok sigs \<Longrightarrow> length sigs = length ps \<and> map (did_str \<circ> fst) sigs = map fst ps"
proof (induction ps arbitrary: sigs)
  case (Cons p ps)
  obtain d s where p: "p = (d, s)" by force
  from Cons.prems obtain d' a rest where "js_did env d = Ok d'" "js_signatures env ps = Ok rest"
    "sigs = (d', sig_from_bytes a) # rest"
    by (auto simp: p and_then_def split: sum.splits)
  with Cons.IH p show ?case by (auto dest: js_did_Ok)
qed simp

end
