(* ===== verification/Wasm_Forum.thy ===== *)
theory Wasm_Forum
  imports Wasm_Bridge Forum_Process Forum_Authority
begin

text \<open>
  The JavaScript bindings of the decision forum
  (\<open>src/crates/exochain-wasm/src/decision_forum_bindings.rs\<close>). A binding decodes its arguments, calls
  the library and encodes the result; objects live in the JavaScript program as JSON between calls, and
  every call that needs a clock makes a new one. The readings of the wall clock and the fresh identifiers
  are arguments.
\<close>

section \<open>Error messages\<close>

definition show_02 :: "nat \<Rightarrow> string" where
  "show_02 n = (if n < 10 then ''0'' @ show_nat n else show_nat n)"

fun forum_error_display :: "forum_error \<Rightarrow> string" where
  "forum_error_display (FAuthorityInvalid r) = ''authority verification failed: '' @ r"
| "forum_error_display FDelegationExpired = ''delegation expired''"
| "forum_error_display (FDelegationScopeExceeded r) = ''delegation scope exceeded: '' @ r"
| "forum_error_display FSubDelegationNotPermitted = ''sub-delegation not permitted''"
| "forum_error_display (FNotRatified r) = ''constitution not ratified: '' @ r"
| "forum_error_display (FAmendmentFailed r) = ''amendment failed: '' @ r"
| "forum_error_display (FConstitutionalConflict r) = ''constitutional conflict: '' @ r"
| "forum_error_display (FQuorumNotMet required actual) =
     ''quorum not met: required '' @ show_nat required @ '', got '' @ show_nat actual"
| "forum_error_display FQuorumPolicyMissing = ''quorum policy missing for decision class''"
| "forum_error_display (FDecisionNotFound r) = ''decision not found: '' @ r"
| "forum_error_display (FEnactmentFailed r) = ''enactment failed: '' @ r"
| "forum_error_display FDecisionImmutable = ''decision immutable in terminal state''"
| "forum_error_display (FInvalidTransition a b) = ''invalid state transition: '' @ a @ '' -> '' @ b"
| "forum_error_display FHumanGateRequired = ''human gate required: AI cannot satisfy this approval''"
| "forum_error_display (FAiCeilingExceeded r) = ''AI delegation ceiling exceeded: '' @ r"
| "forum_error_display (FTncViolation n r) = ''TNC violation: TNC-'' @ show_02 (unat n) @ '': '' @ r"
| "forum_error_display (FChallengeError r) = ''challenge error: '' @ r"
| "forum_error_display FExecutionPaused = ''decision contested '' @ em_dash @ '' execution paused''"
| "forum_error_display (FEmergencyInvalid r) = ''emergency action invalid: '' @ r"
| "forum_error_display (FEmergencyCapExceeded r) = ''emergency cap exceeded: '' @ r"
| "forum_error_display (FAccountabilityFailed r) = ''accountability action failed: '' @ r"
| "forum_error_display (FTermsNotAccepted r) = ''terms not accepted by '' @ r"
| "forum_error_display (FCore r) = ''core error: '' @ r"
| "forum_error_display (FGovernance r) = ''governance error: '' @ r"

definition js_forum :: "('t, 'js) wasm_env \<Rightarrow> string \<Rightarrow> ('a, forum_error) result \<Rightarrow> ('a, 'js) result" where
  "js_forum env what r = js_err env (\<lambda>e. what @ '': '' @ forum_error_display e) r"

section \<open>Decisions\<close>

definition wasm_create_decision ::
    "('t, 'js) wasm_env \<Rightarrow> ('t \<Rightarrow> (forum_class, string) result) \<Rightarrow> (decision_object \<Rightarrow> ('t, string) result) \<Rightarrow>
       uuid \<Rightarrow> u64 \<Rightarrow> string \<Rightarrow> 't \<Rightarrow> string \<Rightarrow> ('js, 'js) result" where
  "wasm_create_decision env de_class ser_decision u wall title class_json constitution_hash_hex =
     and_then (from_json_str env de_class class_json) (\<lambda>class.
     and_then (js_hash env ''hash must be 32 bytes'' constitution_hash_hex) (\<lambda>hash.
     to_js_value env ser_decision (fst (do_new u wall title class hash hc_new))))"

definition wasm_transition_decision ::
    "('t, 'js) wasm_env \<Rightarrow> ('t, decision_object) codec \<Rightarrow> ('t \<Rightarrow> (bcts_state, string) result) \<Rightarrow> blake3 \<Rightarrow> receipt_cbor \<Rightarrow>
       u64 \<Rightarrow> 't \<Rightarrow> 't \<Rightarrow> string \<Rightarrow> ('js, 'js) result" where
  "wasm_transition_decision env cd de_state blake3 cbor wall decision_json to_state_json actor_str =
     and_then (from_json_str env (cd_de cd) decision_json) (\<lambda>decision.
     and_then (from_json_str env de_state to_state_json) (\<lambda>to_state.
     and_then (js_did env actor_str) (\<lambda>actor.
       let (decision', _, r) = do_transition blake3 cbor wall decision to_state actor hc_new
       in and_then (js_forum env ''Transition error'' r) (\<lambda>_. to_js_value env (cd_ser cd) decision'))))"

definition wasm_add_vote ::
    "('t, 'js) wasm_env \<Rightarrow> ('t, decision_object) codec \<Rightarrow> ('t \<Rightarrow> (forum_vote, string) result) \<Rightarrow> 't \<Rightarrow> 't \<Rightarrow> ('js, 'js) result" where
  "wasm_add_vote env cd de_vote decision_json vote_json =
     and_then (from_json_str env (cd_de cd) decision_json) (\<lambda>decision.
     and_then (from_json_str env de_vote vote_json) (\<lambda>vote.
     and_then (js_forum env ''Vote error'' (add_vote decision vote)) (\<lambda>decision'.
     to_js_value env (cd_ser cd) decision')))"

definition wasm_add_evidence ::
    "('t, 'js) wasm_env \<Rightarrow> ('t, decision_object) codec \<Rightarrow> ('t \<Rightarrow> (evidence_item, string) result) \<Rightarrow> 't \<Rightarrow> 't \<Rightarrow> ('js, 'js) result" where
  "wasm_add_evidence env cd de_evidence decision_json evidence_json =
     and_then (from_json_str env (cd_de cd) decision_json) (\<lambda>decision.
     and_then (from_json_str env de_evidence evidence_json) (\<lambda>evidence.
     and_then (js_forum env ''Evidence error'' (add_evidence decision evidence)) (\<lambda>decision'.
     to_js_value env (cd_ser cd) decision')))"

definition wasm_decision_is_terminal ::
    "('t, 'js) wasm_env \<Rightarrow> ('t \<Rightarrow> (decision_object, string) result) \<Rightarrow> 't \<Rightarrow> (bool, 'js) result" where
  "wasm_decision_is_terminal env de decision_json =
     and_then (from_json_str env de decision_json) (\<lambda>decision. Ok (do_is_terminal decision))"

definition wasm_decision_content_hash ::
    "('t, 'js) wasm_env \<Rightarrow> ('t \<Rightarrow> (decision_object, string) result) \<Rightarrow> blake3 \<Rightarrow> (content_input \<Rightarrow> (bytes, string) result) \<Rightarrow>
       't \<Rightarrow> (string, 'js) result" where
  "wasm_decision_content_hash env de blake3 cbor decision_json =
     and_then (from_json_str env de decision_json) (\<lambda>decision.
     and_then (js_forum env ''Hash error'' (content_hash blake3 cbor decision)) (\<lambda>hash.
     Ok (hex_bytes (hash_bytes hash))))"

section \<open>Challenges and accountability\<close>

definition wasm_file_challenge ::
    "('t, 'js) wasm_env \<Rightarrow> ('t \<Rightarrow> (challenge_ground, string) result) \<Rightarrow> (challenge_object \<Rightarrow> ('t, string) result) \<Rightarrow>
       uuid \<Rightarrow> u64 \<Rightarrow> string \<Rightarrow> string \<Rightarrow> 't \<Rightarrow> string \<Rightarrow> ('js, 'js) result" where
  "wasm_file_challenge env de_ground ser u wall challenger_str decision_str ground_json evidence_hash_hex =
     and_then (js_did env challenger_str) (\<lambda>challenger.
     and_then (js_err env (\<lambda>e. ''Invalid UUID: '' @ e) (we_uuid env decision_str)) (\<lambda>i.
     and_then (from_json_str env de_ground ground_json) (\<lambda>ground.
     and_then (js_hash env ''evidence hash must be 32 bytes'' evidence_hash_hex) (\<lambda>evidence_hash.
     to_js_value env ser (forum_file_challenge u i challenger ground evidence_hash (snd (hc_now wall hc_new)))))))"

definition wasm_propose_accountability ::
    "('t, 'js) wasm_env \<Rightarrow> ('t \<Rightarrow> (accountability_type, string) result) \<Rightarrow> (accountability_action \<Rightarrow> ('t, string) result) \<Rightarrow>
       uuid \<Rightarrow> u64 \<Rightarrow> string \<Rightarrow> string \<Rightarrow> 't \<Rightarrow> string \<Rightarrow> string \<Rightarrow> ('js, 'js) result" where
  "wasm_propose_accountability env de_type ser u wall target_str proposer_str action_type_json reason evidence_hash_hex =
     and_then (js_did env target_str) (\<lambda>target.
     and_then (js_did env proposer_str) (\<lambda>proposer.
     and_then (from_json_str env de_type action_type_json) (\<lambda>action_type.
     and_then (js_hash env ''evidence hash must be 32 bytes'' evidence_hash_hex) (\<lambda>evidence_hash.
     to_js_value env ser (ac_propose u action_type target proposer reason evidence_hash (snd (hc_now wall hc_new)))))))"

definition wasm_workflow_stages :: "('t, 'js) wasm_env \<Rightarrow> ('js, 'js) result" where
  "wasm_workflow_stages env =
     to_js_value env (we_json env) (JArr (map JStr
       [''Draft'', ''Submitted'', ''IdentityResolved'', ''ConsentValidated'', ''Deliberated'', ''Verified'',
        ''Governed'', ''Approved'', ''Executed'', ''Recorded'', ''Closed'', ''Denied'', ''Escalated'', ''Remediated'']))"

section \<open>Constitution\<close>

definition wasm_ratify_constitution ::
    "('t, 'js) wasm_env \<Rightarrow> ('t, constitution_corpus) codec \<Rightarrow> ('t \<Rightarrow> ((string \<times> string) list, string) result) \<Rightarrow>
       ('t \<Rightarrow> (constitution_quorum, string) result) \<Rightarrow> 't \<Rightarrow> 't \<Rightarrow> 't \<Rightarrow> u64 \<Rightarrow> ('js, 'js) result" where
  "wasm_ratify_constitution env cd de_pairs de_quorum corpus_json signatures_json quorum_json ts_ms =
     and_then (from_json_str env (cd_de cd) corpus_json) (\<lambda>corpus.
     and_then (from_json_str env de_quorum quorum_json) (\<lambda>quorum.
     and_then (from_json_str env de_pairs signatures_json) (\<lambda>pairs.
     and_then (js_signatures env pairs) (\<lambda>sigs.
     and_then (js_forum env ''Ratify error'' (ratify corpus sigs quorum (Timestamp ts_ms 0))) (\<lambda>corpus'.
     to_js_value env (cd_ser cd) corpus')))))"

definition wasm_amend_constitution ::
    "('t, 'js) wasm_env \<Rightarrow> ('t, constitution_corpus) codec \<Rightarrow> ('t \<Rightarrow> (article, string) result) \<Rightarrow>
       ('t \<Rightarrow> ((string \<times> string) list, string) result) \<Rightarrow> blake3 \<Rightarrow> 't \<Rightarrow> 't \<Rightarrow> 't \<Rightarrow> ('js, 'js) result" where
  "wasm_amend_constitution env cd de_article de_pairs blake3 corpus_json amendment_json signatures_json =
     and_then (from_json_str env (cd_de cd) corpus_json) (\<lambda>corpus.
     and_then (from_json_str env de_article amendment_json) (\<lambda>amendment.
     and_then (from_json_str env de_pairs signatures_json) (\<lambda>pairs.
     and_then (js_signatures env pairs) (\<lambda>sigs.
     and_then (js_forum env ''Amend error'' (amend blake3 corpus amendment sigs)) (\<lambda>corpus'.
     to_js_value env (cd_ser cd) corpus')))))"

definition wasm_dry_run_amendment ::
    "('t, 'js) wasm_env \<Rightarrow> ('t \<Rightarrow> (constitution_corpus, string) result) \<Rightarrow> ('t \<Rightarrow> (article, string) result) \<Rightarrow>
       't \<Rightarrow> 't \<Rightarrow> ('js, 'js) result" where
  "wasm_dry_run_amendment env de_corpus de_article corpus_json proposed_json =
     and_then (from_json_str env de_corpus corpus_json) (\<lambda>corpus.
     and_then (from_json_str env de_article proposed_json) (\<lambda>proposed.
     and_then (js_forum env ''Dry-run error'' (dry_run_amendment corpus proposed)) (\<lambda>conflicts.
     to_js_value env (we_json env) (JArr (map JStr conflicts)))))"

section \<open>Trust-critical controls\<close>

record tnc_flags =
  tf_constitutional_hash_valid :: bool
  tf_consent_verified :: bool
  tf_identity_verified :: bool
  tf_evidence_complete :: bool
  tf_quorum_met :: bool
  tf_human_gate_satisfied :: bool
  tf_authority_chain_verified :: bool
  tf_ai_ceilings_externally_verified :: bool

definition build_tnc_ctx :: "decision_object \<Rightarrow> tnc_flags \<Rightarrow> tnc_context" where
  "build_tnc_ctx decision flags =
     \<lparr>tnc_decision = decision,
      constitutional_hash_valid = tf_constitutional_hash_valid flags,
      consent_verified = tf_consent_verified flags,
      identity_verified = tf_identity_verified flags,
      evidence_complete = tf_evidence_complete flags,
      quorum_met = tf_quorum_met flags,
      human_gate_satisfied = tf_human_gate_satisfied flags,
      authority_chain_verified = tf_authority_chain_verified flags,
      ai_ceilings_externally_verified = tf_ai_ceilings_externally_verified flags\<rparr>"

abbreviation json_result :: "(unit, forum_error) result \<Rightarrow> json" where
  "json_result r \<equiv> json_status ''ok'' forum_error_display r"

definition tnc_result :: "('t, 'js) wasm_env \<Rightarrow> (unit, forum_error) result \<Rightarrow> ('js, 'js) result" where
  "tnc_result env r = to_js_value env (we_json env) (json_result r)"

text \<open>The ten bindings of the single controls have one body, over the control they enforce.\<close>

definition wasm_enforce_tnc ::
    "(tnc_context \<Rightarrow> (unit, forum_error) result) \<Rightarrow> ('t, 'js) wasm_env \<Rightarrow> ('t \<Rightarrow> (decision_object, string) result) \<Rightarrow>
       ('t \<Rightarrow> (tnc_flags, string) result) \<Rightarrow> 't \<Rightarrow> 't \<Rightarrow> ('js, 'js) result" where
  "wasm_enforce_tnc enforce env de de_flags decision_json flags_json =
     and_then (from_json_str env de decision_json) (\<lambda>decision.
     and_then (from_json_str env de_flags flags_json) (\<lambda>flags.
     tnc_result env (enforce (build_tnc_ctx decision flags))))"

definition wasm_enforce_tnc_01 ::
    "('t, 'js) wasm_env \<Rightarrow> ('t \<Rightarrow> (decision_object, string) result) \<Rightarrow> ('t \<Rightarrow> (tnc_flags, string) result) \<Rightarrow> 't \<Rightarrow> 't \<Rightarrow> ('js, 'js) result" where
  "wasm_enforce_tnc_01 env = wasm_enforce_tnc enforce_tnc_01 env"

definition wasm_enforce_tnc_02 ::
    "('t, 'js) wasm_env \<Rightarrow> ('t \<Rightarrow> (decision_object, string) result) \<Rightarrow> ('t \<Rightarrow> (tnc_flags, string) result) \<Rightarrow> 't \<Rightarrow> 't \<Rightarrow> ('js, 'js) result" where
  "wasm_enforce_tnc_02 env = wasm_enforce_tnc enforce_tnc_02 env"

definition wasm_enforce_tnc_03 ::
    "('t, 'js) wasm_env \<Rightarrow> ('t \<Rightarrow> (decision_object, string) result) \<Rightarrow> ('t \<Rightarrow> (tnc_flags, string) result) \<Rightarrow> 't \<Rightarrow> 't \<Rightarrow> ('js, 'js) result" where
  "wasm_enforce_tnc_03 env = wasm_enforce_tnc enforce_tnc_03 env"

definition wasm_enforce_tnc_04 ::
    "('t, 'js) wasm_env \<Rightarrow> ('t \<Rightarrow> (decision_object, string) result) \<Rightarrow> ('t \<Rightarrow> (tnc_flags, string) result) \<Rightarrow> 't \<Rightarrow> 't \<Rightarrow> ('js, 'js) result" where
  "wasm_enforce_tnc_04 env = wasm_enforce_tnc enforce_tnc_04 env"

definition wasm_enforce_tnc_05 ::
    "('t, 'js) wasm_env \<Rightarrow> ('t \<Rightarrow> (decision_object, string) result) \<Rightarrow> ('t \<Rightarrow> (tnc_flags, string) result) \<Rightarrow> 't \<Rightarrow> 't \<Rightarrow> ('js, 'js) result" where
  "wasm_enforce_tnc_05 env = wasm_enforce_tnc enforce_tnc_05 env"

definition wasm_enforce_tnc_06 ::
    "('t, 'js) wasm_env \<Rightarrow> ('t \<Rightarrow> (decision_object, string) result) \<Rightarrow> ('t \<Rightarrow> (tnc_flags, string) result) \<Rightarrow> 't \<Rightarrow> 't \<Rightarrow> ('js, 'js) result" where
  "wasm_enforce_tnc_06 env = wasm_enforce_tnc enforce_tnc_06 env"

definition wasm_enforce_tnc_07 ::
    "('t, 'js) wasm_env \<Rightarrow> ('t \<Rightarrow> (decision_object, string) result) \<Rightarrow> ('t \<Rightarrow> (tnc_flags, string) result) \<Rightarrow> 't \<Rightarrow> 't \<Rightarrow> ('js, 'js) result" where
  "wasm_enforce_tnc_07 env = wasm_enforce_tnc enforce_tnc_07 env"

definition wasm_enforce_tnc_08 ::
    "('t, 'js) wasm_env \<Rightarrow> ('t \<Rightarrow> (decision_object, string) result) \<Rightarrow> ('t \<Rightarrow> (tnc_flags, string) result) \<Rightarrow> 't \<Rightarrow> 't \<Rightarrow> ('js, 'js) result" where
  "wasm_enforce_tnc_08 env = wasm_enforce_tnc enforce_tnc_08 env"

definition wasm_enforce_tnc_09 ::
    "('t, 'js) wasm_env \<Rightarrow> ('t \<Rightarrow> (decision_object, string) result) \<Rightarrow> ('t \<Rightarrow> (tnc_flags, string) result) \<Rightarrow> 't \<Rightarrow> 't \<Rightarrow> ('js, 'js) result" where
  "wasm_enforce_tnc_09 env = wasm_enforce_tnc enforce_tnc_09 env"

definition wasm_enforce_tnc_10 ::
    "('t, 'js) wasm_env \<Rightarrow> ('t \<Rightarrow> (decision_object, string) result) \<Rightarrow> ('t \<Rightarrow> (tnc_flags, string) result) \<Rightarrow> 't \<Rightarrow> 't \<Rightarrow> ('js, 'js) result" where
  "wasm_enforce_tnc_10 env = wasm_enforce_tnc enforce_tnc_10 env"


definition wasm_enforce_all_tnc ::
    "('t, 'js) wasm_env \<Rightarrow> ('t \<Rightarrow> (decision_object, string) result) \<Rightarrow> ('t \<Rightarrow> (tnc_flags, string) result) \<Rightarrow>
       't \<Rightarrow> 't \<Rightarrow> ('js, 'js) result" where
  "wasm_enforce_all_tnc env de de_flags decision_json flags_json =
     and_then (from_json_str env de decision_json) (\<lambda>decision.
     and_then (from_json_str env de_flags flags_json) (\<lambda>flags.
     to_js_value env (we_json env)
       (case tnc_enforce_all (build_tnc_ctx decision flags) of
          Inr _ \<Rightarrow> JObj [(''ok'', JBool True), (''violations'', JArr [])]
        | Inl e \<Rightarrow> JObj [(''ok'', JBool False), (''error'', JStr (forum_error_display e))])))"

definition wasm_collect_tnc_violations ::
    "('t, 'js) wasm_env \<Rightarrow> ('t \<Rightarrow> (decision_object, string) result) \<Rightarrow> ('t \<Rightarrow> (tnc_flags, string) result) \<Rightarrow>
       't \<Rightarrow> 't \<Rightarrow> ('js, 'js) result" where
  "wasm_collect_tnc_violations env de de_flags decision_json flags_json =
     and_then (from_json_str env de decision_json) (\<lambda>decision.
     and_then (from_json_str env de_flags flags_json) (\<lambda>flags.
     to_js_value env (we_json env)
       (JObj [(''violations'', JArr (map (\<lambda>e. JStr (forum_error_display e))
          (collect_violations (build_tnc_ctx decision flags))))])))"

section \<open>Human gate and quorum\<close>

definition wasm_enforce_human_gate ::
    "('t, 'js) wasm_env \<Rightarrow> ('t \<Rightarrow> (human_gate_policy, string) result) \<Rightarrow> ('t \<Rightarrow> (decision_object, string) result) \<Rightarrow>
       't \<Rightarrow> 't \<Rightarrow> ('js, 'js) result" where
  "wasm_enforce_human_gate env de_policy de policy_json decision_json =
     and_then (from_json_str env de_policy policy_json) (\<lambda>policy.
     and_then (from_json_str env de decision_json) (\<lambda>decision.
     to_js_value env (we_json env) (json_result (enforce_human_gate policy decision))))"

definition wasm_requires_human_approval ::
    "('t, 'js) wasm_env \<Rightarrow> ('t \<Rightarrow> (human_gate_policy, string) result) \<Rightarrow> ('t \<Rightarrow> (forum_class, string) result) \<Rightarrow>
       't \<Rightarrow> 't \<Rightarrow> (bool, 'js) result" where
  "wasm_requires_human_approval env de_policy de_class policy_json class_json =
     and_then (from_json_str env de_policy policy_json) (\<lambda>policy.
     and_then (from_json_str env de_class class_json) (\<lambda>class. Ok (requires_human_approval policy class)))"

definition wasm_ai_within_ceiling ::
    "('t, 'js) wasm_env \<Rightarrow> ('t \<Rightarrow> (human_gate_policy, string) result) \<Rightarrow> ('t \<Rightarrow> (forum_class, string) result) \<Rightarrow>
       't \<Rightarrow> 't \<Rightarrow> (bool, 'js) result" where
  "wasm_ai_within_ceiling env de_policy de_class policy_json class_json =
     and_then (from_json_str env de_policy policy_json) (\<lambda>policy.
     and_then (from_json_str env de_class class_json) (\<lambda>class. Ok (ai_within_ceiling policy class)))"

definition wasm_is_human_vote ::
    "('t, 'js) wasm_env \<Rightarrow> ('t \<Rightarrow> (forum_vote, string) result) \<Rightarrow> 't \<Rightarrow> (bool, 'js) result" where
  "wasm_is_human_vote env de_vote vote_json =
     and_then (from_json_str env de_vote vote_json) (\<lambda>vote. Ok (is_human_vote vote))"

definition wasm_is_ai_vote ::
    "('t, 'js) wasm_env \<Rightarrow> ('t \<Rightarrow> (forum_vote, string) result) \<Rightarrow> 't \<Rightarrow> (bool, 'js) result" where
  "wasm_is_ai_vote env de_vote vote_json =
     and_then (from_json_str env de_vote vote_json) (\<lambda>vote. Ok (is_ai_vote vote))"

definition quorum_json :: "quorum_check_result \<Rightarrow> json" where
  "quorum_json result =
     (case result of
        QMet total_votes approve_count approve_pct \<Rightarrow>
          JObj [(''status'', JStr ''Met''), (''total_votes'', JNum (int total_votes)),
                (''approve_count'', JNum (int approve_count)), (''approve_pct'', JNum (int approve_pct))]
      | QNotMet reason \<Rightarrow> JObj [(''status'', JStr ''NotMet''), (''reason'', JStr reason)]
      | QDegraded reason available required \<Rightarrow>
          JObj [(''status'', JStr ''Degraded''), (''reason'', JStr reason),
                (''available'', JNum (int available)), (''required'', JNum (int required))])"

definition wasm_check_quorum ::
    "('t, 'js) wasm_env \<Rightarrow> ('t \<Rightarrow> (quorum_registry, string) result) \<Rightarrow> ('t \<Rightarrow> (decision_object, string) result) \<Rightarrow>
       't \<Rightarrow> 't \<Rightarrow> ('js, 'js) result" where
  "wasm_check_quorum env de_registry de registry_json decision_json =
     and_then (from_json_str env de_registry registry_json) (\<lambda>registry.
     and_then (from_json_str env de decision_json) (\<lambda>decision.
     and_then (js_forum env ''Quorum error'' (check_quorum registry decision)) (\<lambda>result.
     to_js_value env (we_json env) (quorum_json result))))"

definition wasm_verify_quorum_precondition ::
    "('t, 'js) wasm_env \<Rightarrow> ('t \<Rightarrow> (quorum_registry, string) result) \<Rightarrow> ('t \<Rightarrow> (forum_class, string) result) \<Rightarrow>
       't \<Rightarrow> 't \<Rightarrow> nat \<Rightarrow> (bool, 'js) result" where
  "wasm_verify_quorum_precondition env de_registry de_class registry_json class_json eligible_voters =
     and_then (from_json_str env de_registry registry_json) (\<lambda>registry.
     and_then (from_json_str env de_class class_json) (\<lambda>class.
     js_forum env ''Precondition error'' (verify_quorum_precondition registry class eligible_voters)))"

section \<open>Emergencies\<close>

definition wasm_create_emergency_action ::
    "('t, 'js) wasm_env \<Rightarrow> ('t \<Rightarrow> (emergency_action_type, string) result) \<Rightarrow> ('t \<Rightarrow> (emergency_policy, string) result) \<Rightarrow>
       (emergency_action \<Rightarrow> ('t, string) result) \<Rightarrow> uuid \<Rightarrow> 't \<Rightarrow> string \<Rightarrow> string \<Rightarrow> u64 \<Rightarrow> string \<Rightarrow> 't \<Rightarrow> u64 \<Rightarrow> ('js, 'js) result" where
  "wasm_create_emergency_action env de_type de_policy ser u action_type_json actor_str justification cap evidence_hash_hex policy_json ts_ms =
     and_then (from_json_str env de_type action_type_json) (\<lambda>action_type.
     and_then (js_did env actor_str) (\<lambda>actor.
     and_then (js_hash env ''evidence hash must be 32 bytes'' evidence_hash_hex) (\<lambda>evidence_hash.
     and_then (from_json_str env de_policy policy_json) (\<lambda>policy.
     and_then (js_forum env ''Emergency error''
       (create_emergency_action u action_type actor justification cap evidence_hash policy (Timestamp ts_ms 0))) (\<lambda>action.
     to_js_value env ser action)))))"

definition wasm_ratify_emergency ::
    "('t, 'js) wasm_env \<Rightarrow> ('t, emergency_action) codec \<Rightarrow> 't \<Rightarrow> string \<Rightarrow> u64 \<Rightarrow> ('js, 'js) result" where
  "wasm_ratify_emergency env cd action_json decision_str ts_ms =
     and_then (from_json_str env (cd_de cd) action_json) (\<lambda>action.
     and_then (js_err env (\<lambda>e. ''UUID error: '' @ e) (we_uuid env decision_str)) (\<lambda>i.
       let (action', r) = ratify_emergency action i (Timestamp ts_ms 0)
       in and_then (js_forum env ''Ratify error'' r) (\<lambda>_. to_js_value env (cd_ser cd) action')))"

text \<open>\<open>json!\<close> embeds the value of the action; its encoding into a value is the argument \<open>val\<close>.\<close>

definition wasm_check_expiry ::
    "('t, 'js) wasm_env \<Rightarrow> ('t \<Rightarrow> (emergency_action, string) result) \<Rightarrow> (emergency_action \<Rightarrow> json) \<Rightarrow> 't \<Rightarrow> u64 \<Rightarrow> ('js, 'js) result" where
  "wasm_check_expiry env de val action_json now_ms =
     and_then (from_json_str env de action_json) (\<lambda>action.
       let (action', expired) = em_check_expiry action (Timestamp now_ms 0)
       in to_js_value env (we_json env) (JObj [(''expired'', JBool expired), (''action'', val action')]))"

definition wasm_needs_governance_review ::
    "('t, 'js) wasm_env \<Rightarrow> ('t \<Rightarrow> (emergency_action list, string) result) \<Rightarrow> ('t \<Rightarrow> (emergency_policy, string) result) \<Rightarrow>
       't \<Rightarrow> 't \<Rightarrow> (bool, 'js) result" where
  "wasm_needs_governance_review env de_actions de_policy actions_json policy_json =
     and_then (from_json_str env de_actions actions_json) (\<lambda>actions.
     and_then (from_json_str env de_policy policy_json) (\<lambda>policy. Ok (needs_governance_review actions policy)))"

section \<open>Contestation\<close>

definition wasm_begin_review ::
    "('t, 'js) wasm_env \<Rightarrow> ('t, challenge_object) codec \<Rightarrow> 't \<Rightarrow> ('js, 'js) result" where
  "wasm_begin_review env cd challenge_json =
     and_then (from_json_str env (cd_de cd) challenge_json) (\<lambda>challenge.
     and_then (js_forum env ''Review error'' (forum_begin_review challenge)) (to_js_value env (cd_ser cd)))"

definition wasm_withdraw_challenge ::
    "('t, 'js) wasm_env \<Rightarrow> ('t, challenge_object) codec \<Rightarrow> 't \<Rightarrow> ('js, 'js) result" where
  "wasm_withdraw_challenge env cd challenge_json =
     and_then (from_json_str env (cd_de cd) challenge_json) (\<lambda>challenge.
     and_then (js_forum env ''Withdraw error'' (forum_withdraw challenge)) (to_js_value env (cd_ser cd)))"

definition wasm_is_contested ::
    "('t, 'js) wasm_env \<Rightarrow> ('t \<Rightarrow> (challenge_object list, string) result) \<Rightarrow> 't \<Rightarrow> string \<Rightarrow> (bool, 'js) result" where
  "wasm_is_contested env de challenges_json decision_str =
     and_then (from_json_str env de challenges_json) (\<lambda>challenges.
     and_then (js_err env (\<lambda>e. ''UUID error: '' @ e) (we_uuid env decision_str)) (\<lambda>i. Ok (is_contested challenges i)))"

section \<open>Accountability\<close>

definition wasm_begin_due_process ::
    "('t, 'js) wasm_env \<Rightarrow> ('t, accountability_action) codec \<Rightarrow> 't \<Rightarrow> ('js, 'js) result" where
  "wasm_begin_due_process env cd action_json =
     and_then (from_json_str env (cd_de cd) action_json) (\<lambda>action.
     and_then (js_forum env ''Due-process error'' (begin_due_process action)) (to_js_value env (cd_ser cd)))"

definition wasm_enact_accountability ::
    "('t, 'js) wasm_env \<Rightarrow> ('t, accountability_action) codec \<Rightarrow> 't \<Rightarrow> string \<Rightarrow> u64 \<Rightarrow> ('js, 'js) result" where
  "wasm_enact_accountability env cd action_json decision_str ts_ms =
     and_then (from_json_str env (cd_de cd) action_json) (\<lambda>action.
     and_then (js_err env (\<lambda>e. ''UUID error: '' @ e) (we_uuid env decision_str)) (\<lambda>i.
     and_then (js_forum env ''Enact error'' (ac_enact action i (Timestamp ts_ms 0))) (to_js_value env (cd_ser cd))))"

definition wasm_reverse_accountability ::
    "('t, 'js) wasm_env \<Rightarrow> ('t, accountability_action) codec \<Rightarrow> 't \<Rightarrow> ('js, 'js) result" where
  "wasm_reverse_accountability env cd action_json =
     and_then (from_json_str env (cd_de cd) action_json) (\<lambda>action.
     and_then (js_forum env ''Reverse error'' (ac_reverse action)) (to_js_value env (cd_ser cd)))"

definition wasm_is_due_process_expired ::
    "('t, 'js) wasm_env \<Rightarrow> ('t \<Rightarrow> (accountability_action, string) result) \<Rightarrow> 't \<Rightarrow> u64 \<Rightarrow> (bool, 'js) result" where
  "wasm_is_due_process_expired env de action_json now_ms =
     and_then (from_json_str env de action_json) (\<lambda>action. Ok (is_due_process_expired action (Timestamp now_ms 0)))"

definition wasm_verify_forum_authority ::
    "('t, 'js) wasm_env \<Rightarrow> ('t \<Rightarrow> (forum_authority, string) result) \<Rightarrow> 't \<Rightarrow> ('js, 'js) result" where
  "wasm_verify_forum_authority env de authority_json =
     and_then (from_json_str env de authority_json) (\<lambda>authority.
     to_js_value env (we_json env) (json_result (verify_forum_authority authority)))"

section \<open>Sessions\<close>

text \<open>
  A JavaScript program keeps a decision as the value the last call returned and passes its JSON text to
  the next call. A Rust program keeps the decision itself and calls the library. A call carries its wall
  reading and the clock it is made with; the errors are those of the library.
\<close>

datatype decision_call = CTransition u64 bcts_state string | CVote forum_vote | CEvidence evidence_item

datatype call_error = BadActor exo_error | Refused forum_error

fun native_call ::
    "blake3 \<Rightarrow> receipt_cbor \<Rightarrow> hybrid_clock \<Rightarrow> decision_call \<Rightarrow> decision_object \<Rightarrow> (decision_object, call_error) result" where
  "native_call blake3 cbor clock (CTransition wall to actor) d =
     and_then (map_sum BadActor id (did_new actor)) (\<lambda>a.
       case do_transition blake3 cbor wall d to a clock of (d', _, r) \<Rightarrow> map_sum Refused (\<lambda>_. d') r)"
| "native_call blake3 cbor clock (CVote v) d = map_sum Refused id (add_vote d v)"
| "native_call blake3 cbor clock (CEvidence ev) d = map_sum Refused id (add_evidence d ev)"

text \<open>The text under which a binding reports an error.\<close>

fun call_message :: "decision_call \<Rightarrow> call_error \<Rightarrow> string" where
  "call_message c (BadActor e) = ''DID error: '' @ exo_error_display e"
| "call_message (CTransition wall to actor) (Refused e) = ''Transition error: '' @ forum_error_display e"
| "call_message (CVote v) (Refused e) = ''Vote error: '' @ forum_error_display e"
| "call_message (CEvidence ev) (Refused e) = ''Evidence error: '' @ forum_error_display e"

record ('t, 'js) forum_codecs =
  fc_decision :: "('t, decision_object) codec"
  fc_state :: "('t, bcts_state) codec"
  fc_vote :: "('t, forum_vote) codec"
  fc_evidence :: "('t, evidence_item) codec"
  fc_stringify :: "'js \<Rightarrow> 't"

text \<open>The text of an argument, as the JavaScript program produces it.\<close>

definition arg_text :: "('t, 'a) codec \<Rightarrow> 'a \<Rightarrow> 't" where
  "arg_text cd x = projr (cd_ser cd x)"

fun wasm_call ::
    "('t, 'js) wasm_env \<Rightarrow> ('t, 'js) forum_codecs \<Rightarrow> blake3 \<Rightarrow> receipt_cbor \<Rightarrow> decision_call \<Rightarrow> 'js \<Rightarrow> ('js, 'js) result" where
  "wasm_call env fc blake3 cbor (CTransition wall to actor) v =
     wasm_transition_decision env (fc_decision fc) (cd_de (fc_state fc)) blake3 cbor wall (fc_stringify fc v)
       (arg_text (fc_state fc) to) actor"
| "wasm_call env fc blake3 cbor (CVote vt) v =
     wasm_add_vote env (fc_decision fc) (cd_de (fc_vote fc)) (fc_stringify fc v) (arg_text (fc_vote fc) vt)"
| "wasm_call env fc blake3 cbor (CEvidence ev) v =
     wasm_add_evidence env (fc_decision fc) (cd_de (fc_evidence fc)) (fc_stringify fc v) (arg_text (fc_evidence fc) ev)"

text \<open>
  A session stops at the first error. The bindings make a new clock for every call, so the session of
  library calls to compare with is the one in which every call is made with a new clock.
\<close>

fun native_session ::
    "blake3 \<Rightarrow> receipt_cbor \<Rightarrow> decision_call list \<Rightarrow> decision_object \<Rightarrow> (decision_object, decision_call \<times> call_error) result" where
  "native_session blake3 cbor [] d = Ok d"
| "native_session blake3 cbor (c # cs) d =
     and_then (map_sum (Pair c) id (native_call blake3 cbor hc_new c d)) (native_session blake3 cbor cs)"

fun wasm_session ::
    "('t, 'js) wasm_env \<Rightarrow> ('t, 'js) forum_codecs \<Rightarrow> blake3 \<Rightarrow> receipt_cbor \<Rightarrow> decision_call list \<Rightarrow> 'js \<Rightarrow> ('js, 'js) result" where
  "wasm_session env fc blake3 cbor [] v = Ok v"
| "wasm_session env fc blake3 cbor (c # cs) v = and_then (wasm_call env fc blake3 cbor c v) (wasm_session env fc blake3 cbor cs)"

text \<open>
  The decisions all of whose numbers JavaScript holds exactly. The 64-bit numbers of a decision are the
  milliseconds of its timestamps; \<open>2^53\<close> milliseconds end in the year 287396.
\<close>

abbreviation ts_exact :: "timestamp \<Rightarrow> bool" where
  "ts_exact t \<equiv> js_exact_u64 (physical_ms t)"

definition js_exact :: "decision_object \<Rightarrow> bool" where
  "js_exact d \<longleftrightarrow> ts_exact (do_created_at d) \<and>
     list_all (\<lambda>l. ts_exact (fl_timestamp l)) (do_authority_chain d) \<and>
     list_all (\<lambda>v. ts_exact (fv_timestamp v)) (do_votes d) \<and>
     list_all (\<lambda>e. ts_exact (ev_attached_at e)) (do_evidence_bundle d) \<and>
     list_all (\<lambda>r. ts_exact (lr_timestamp r)) (do_receipt_chain d)"

fun call_exact :: "decision_call \<Rightarrow> bool" where
  "call_exact (CTransition wall to actor) = js_exact_u64 wall"
| "call_exact (CVote v) = ts_exact (fv_timestamp v)"
| "call_exact (CEvidence ev) = ts_exact (ev_attached_at ev)"

lemma new_clock_exact: "js_exact_u64 wall \<Longrightarrow> ts_exact (snd (hc_now wall hc_new))"
  by (simp add: hc_now_def hc_new_def js_exact_u64_def Let_def)

lemma native_transition_Ok:
  assumes "native_call blake3 cbor clock (CTransition wall to actor) d = Ok d'"
  shows "\<exists>a cl. do_transition blake3 cbor wall d to a clock = (d', cl, Ok ())"
proof (cases "did_new actor")
  case (Inr a)
  obtain d1 cl r where tr: "do_transition blake3 cbor wall d to a clock = (d1, cl, r)" by (metis prod_cases3)
  with assms Inr have "map_sum Refused (\<lambda>_. d1) r = Ok d'" by simp
  then have "d1 = d'" "r = Ok ()" by (cases r; simp)+
  with tr show ?thesis by blast
qed (use assms in simp)

lemma native_call_exact:
  assumes "js_exact d" "call_exact c" "native_call blake3 cbor hc_new c d = Ok d'"
  shows "js_exact d'"
proof (cases c)
  case (CTransition wall to actor)
  then have "ts_exact (snd (hc_now wall hc_new))" using assms(2) by (simp add: new_clock_exact)
  moreover obtain a cl where "do_transition blake3 cbor wall d to a hc_new = (d', cl, Ok ())"
    using native_transition_Ok assms(3) unfolding CTransition by blast
  ultimately show ?thesis using assms(1)
    by (auto simp: do_transition_def js_exact_def case_prod_unfold Let_def split: sum.splits if_splits)
next
  case (CVote v)
  with assms show ?thesis by (auto simp: add_vote_def js_exact_def split: if_splits)
next
  case (CEvidence ev)
  with assms show ?thesis by (auto simp: add_evidence_def js_exact_def split: if_splits)
qed

lemma native_call_reach:
  assumes "do_reach blake3 cbor d" "native_call blake3 cbor clock c d = Ok d'"
  shows "do_reach blake3 cbor d'"
proof (cases c)
  case (CTransition wall to actor)
  then obtain a cl where "do_transition blake3 cbor wall d to a clock = (d', cl, Ok ())"
    using native_transition_Ok assms(2) by blast
  with assms(1) show ?thesis by (rule do_step)
next
  case (CVote v)
  with assms(2) have "add_vote d v = Ok d'" by (cases "add_vote d v") simp_all
  with assms(1) show ?thesis by (rule do_vote)
next
  case (CEvidence ev)
  with assms(2) have "add_evidence d ev = Ok d'" by (cases "add_evidence d ev") simp_all
  with assms(1) show ?thesis by (rule do_evidence)
qed

text \<open>
  What serde and the engine promise: encoding succeeds and decoding inverts it; and for a decision that
  JavaScript holds exactly, the text of the parsed value decodes as the text it came from.
\<close>

definition codec_ok :: "('t, 'a) codec \<Rightarrow> bool" where
  "codec_ok cd \<longleftrightarrow> (\<forall>x. \<exists>t. cd_ser cd x = Ok t \<and> cd_de cd t = Ok x)"

definition bridge_ok :: "('t, 'js) wasm_env \<Rightarrow> ('t, 'js) forum_codecs \<Rightarrow> bool" where
  "bridge_ok env fc \<longleftrightarrow>
     codec_ok (fc_state fc) \<and> codec_ok (fc_vote fc) \<and> codec_ok (fc_evidence fc) \<and>
     js_roundtrip env (fc_stringify fc) js_exact (fc_decision fc)"

text \<open>A JavaScript value that stands for a decision.\<close>

definition stands_for :: "('t, 'js) forum_codecs \<Rightarrow> 'js \<Rightarrow> decision_object \<Rightarrow> bool" where
  "stands_for fc v d \<longleftrightarrow> cd_de (fc_decision fc) (fc_stringify fc v) = Ok d"

lemma arg_text_de: "codec_ok cd \<Longrightarrow> cd_de cd (arg_text cd x) = Ok x"
  unfolding codec_ok_def arg_text_def by (metis sum.sel(2))

lemma to_js_value_stands:
  assumes "bridge_ok env fc" "js_exact d"
  shows "\<exists>v. to_js_value env (cd_ser (fc_decision fc)) d = Ok v \<and> stands_for fc v d"
  using assms to_js_value_roundtrip [of env "fc_stringify fc" js_exact "fc_decision fc" d]
  by (simp add: bridge_ok_def stands_for_def)

text \<open>A call is the library call in between decoding and encoding.\<close>

lemma wasm_call_native:
  assumes ok: "bridge_ok env fc" and v: "stands_for fc v d"
  shows "wasm_call env fc blake3 cbor c v =
           and_then (js_err env (call_message c) (native_call blake3 cbor hc_new c d))
             (to_js_value env (cd_ser (fc_decision fc)))"
proof -
  have args: "from_json_str env (cd_de (fc_state fc)) (arg_text (fc_state fc) st) = Ok st"
    "from_json_str env (cd_de (fc_vote fc)) (arg_text (fc_vote fc) vt) = Ok vt"
    "from_json_str env (cd_de (fc_evidence fc)) (arg_text (fc_evidence fc) ev) = Ok ev" for st vt ev
    using ok unfolding bridge_ok_def by (simp_all add: arg_text_de from_json_str_def)
  have dec: "from_json_str env (cd_de (fc_decision fc)) (fc_stringify fc v) = Ok d"
    using v by (simp add: from_json_str_def stands_for_def)
  show ?thesis
  proof (cases c)
    case (CTransition wall to actor)
    show ?thesis
    proof (cases "did_new actor")
      case (Inr a)
      obtain d' cl r where "do_transition blake3 cbor wall d to a hc_new = (d', cl, r)" by (metis prod_cases3)
      then show ?thesis using CTransition Inr dec args
        by (cases r) (simp_all add: wasm_transition_decision_def js_did_def js_forum_def)
    qed (use CTransition dec args in \<open>simp add: wasm_transition_decision_def js_did_def\<close>)
  next
    case (CVote vt)
    then show ?thesis using dec args
      by (cases "add_vote d vt") (simp_all add: wasm_add_vote_def js_forum_def)
  next
    case (CEvidence ev)
    then show ?thesis using dec args
      by (cases "add_evidence d ev") (simp_all add: wasm_add_evidence_def js_forum_def)
  qed
qed

text \<open>
  C40: the bindings are a faithful facade, as far as JavaScript holds the numbers exactly. Let the JSON
  encoding round trip through the engine for decisions whose timestamps are below \<open>2^53\<close>
  milliseconds, and let the decision, the arguments and the wall readings be in that range. Then every
  session of calls from JavaScript on a value that stands for a decision ends as the session of library
  calls in which each call is made with a new clock: with the message of the same error, or with a
  value that stands for the same decision, which is in that range again. And the decisions that such a
  session reaches are among those that the library's operations build.
\<close>

theorem wasm_session_refines:
  assumes "bridge_ok env fc" "stands_for fc v d" "js_exact d" "list_all call_exact cs"
  shows "case native_session blake3 cbor cs d of
           Inl (c, e) \<Rightarrow> wasm_session env fc blake3 cbor cs v = Err (we_str env (call_message c e))
         | Inr d' \<Rightarrow> (\<exists>v'. wasm_session env fc blake3 cbor cs v = Ok v' \<and> stands_for fc v' d') \<and>
                    js_exact d' \<and> (do_reach blake3 cbor d \<longrightarrow> do_reach blake3 cbor d')"
  using assms(2-4)
proof (induction cs arbitrary: v d)
  case (Cons c cs)
  note call = wasm_call_native [OF assms(1) Cons.prems(1), of blake3 cbor c]
  show ?case
  proof (cases "native_call blake3 cbor hc_new c d")
    case (Inl e)
    with call show ?thesis by simp
  next
    case (Inr d')
    have exact: "js_exact d'" using native_call_exact [OF Cons.prems(2) _ Inr] Cons.prems(3) by simp
    from to_js_value_stands [OF assms(1) this] obtain v' where
      v': "to_js_value env (cd_ser (fc_decision fc)) d' = Ok v'" "stands_for fc v' d'" by blast
    have "do_reach blake3 cbor d'" if "do_reach blake3 cbor d" using native_call_reach [OF that Inr] .
    with Cons.IH [OF v'(2) exact] Cons.prems(3) Inr call v'(1) show ?thesis
      by (auto split: sum.splits)
  qed
qed simp

text \<open>
  A bridge whose texts are the values themselves, with an engine that confuses the decisions it cannot
  hold exactly.
\<close>

datatype demo_text = TDecision decision_object | TState bcts_state | TVote forum_vote | TEvidence evidence_item | TMessage string

definition demo_parse :: "demo_text \<Rightarrow> (demo_text, demo_text) result" where
  "demo_parse t =
     (case t of
        TDecision d \<Rightarrow> Ok (TDecision (if js_exact d then d else d\<lparr>do_created_at := TS_ZERO\<rparr>))
      | _ \<Rightarrow> Ok t)"

definition demo_env :: "(demo_text, demo_text) wasm_env" where
  "demo_env = \<lparr>we_str = TMessage, we_parse = demo_parse, we_json = (\<lambda>_. Ok (TMessage [])), we_hex = (\<lambda>_. Err []), we_uuid = (\<lambda>_. Err [])\<rparr>"

definition demo_codecs :: "(demo_text, demo_text) forum_codecs" where
  "demo_codecs =
     \<lparr>fc_decision = \<lparr>cd_de = (\<lambda>t. case t of TDecision d \<Rightarrow> Ok d | _ \<Rightarrow> Err []), cd_ser = (\<lambda>d. Ok (TDecision d))\<rparr>,
      fc_state = \<lparr>cd_de = (\<lambda>t. case t of TState st \<Rightarrow> Ok st | _ \<Rightarrow> Err []), cd_ser = (\<lambda>st. Ok (TState st))\<rparr>,
      fc_vote = \<lparr>cd_de = (\<lambda>t. case t of TVote vt \<Rightarrow> Ok vt | _ \<Rightarrow> Err []), cd_ser = (\<lambda>vt. Ok (TVote vt))\<rparr>,
      fc_evidence = \<lparr>cd_de = (\<lambda>t. case t of TEvidence ev \<Rightarrow> Ok ev | _ \<Rightarrow> Err []), cd_ser = (\<lambda>ev. Ok (TEvidence ev))\<rparr>,
      fc_stringify = (\<lambda>v. v)\<rparr>"

lemma demo_bridge_ok: "bridge_ok demo_env demo_codecs"
  by (simp add: bridge_ok_def codec_ok_def js_roundtrip_def demo_env_def demo_codecs_def demo_parse_def)

theorem wasm_session_refines_witness:
  "\<exists>v'. wasm_session demo_env demo_codecs (\<lambda>_. arr32_of []) (\<lambda>_. Ok []) [CVote sample_forum_vote]
          (TDecision (fst (do_new 1 5 ''t'' Routine HASH_ZERO hc_new))) = Ok v' \<and>
        stands_for demo_codecs v' ((fst (do_new 1 5 ''t'' Routine HASH_ZERO hc_new))\<lparr>do_votes := [sample_forum_vote]\<rparr>)"
proof -
  let ?d = "fst (do_new 1 5 ''t'' Routine HASH_ZERO hc_new)"
  have "stands_for demo_codecs (TDecision ?d) ?d" by (simp add: stands_for_def demo_codecs_def)
  moreover have "js_exact ?d" "list_all call_exact [CVote sample_forum_vote]"
    by (simp_all add: js_exact_def js_exact_u64_def do_new_def hc_now_def hc_new_def Let_def
        sample_forum_vote_def TS_ZERO_def)
  moreover have "native_session (\<lambda>_. arr32_of []) (\<lambda>_. Ok []) [CVote sample_forum_vote] ?d =
      Ok (?d\<lparr>do_votes := [sample_forum_vote]\<rparr>)"
    by (simp add: add_vote_def do_is_terminal_def do_new_def split: prod.split)
  ultimately show ?thesis
    using wasm_session_refines [OF demo_bridge_ok, of "TDecision ?d" ?d "[CVote sample_forum_vote]" "\<lambda>_. arr32_of []" "\<lambda>_. Ok []"]
    by simp
qed

section \<open>What the facade loses\<close>

text \<open>
  The library marks an emergency action as expired when it is ratified too late; the binding returns only
  the error, so the JavaScript program keeps an action that still asks for ratification.
\<close>

lemma late_ratification_unmarked:
  assumes "cd_de cd action_json = Ok a" "we_uuid env dec = Ok i" "em_status a = RatRequired" "Timestamp ts 0 > em_deadline a"
  shows "em_status (fst (ratify_emergency a i (Timestamp ts 0))) = RatExpired \<and>
    wasm_ratify_emergency env cd action_json dec ts =
      Err (we_str env ''Ratify error: emergency action invalid: ratification deadline passed'')"
  using assms by (simp add: wasm_ratify_emergency_def from_json_str_def ratify_emergency_def js_forum_def)

text \<open>
  With a new clock for each call the receipts follow the wall clock, backwards too: the timestamp of a
  transition does not depend on the receipts before it.
\<close>

lemma receipt_time_is_wall:
  assumes "native_call blake3 cbor hc_new (CTransition wall to actor) d = Ok d'" "wall > 0"
  shows "do_receipt_chain d' \<noteq> [] \<and> lr_timestamp (last (do_receipt_chain d')) = Timestamp wall 0"
  using native_transition_Ok [OF assms(1)] assms(2)
  by (auto simp: do_transition_def hc_now_def hc_new_def Let_def split: sum.splits if_splits)

text \<open>The flags of the controls come from the caller: with all of them set only the decision itself is checked.\<close>

lemma quorum_control_trusts_caller:
  "tf_quorum_met flags \<Longrightarrow> enforce_tnc_07 (build_tnc_ctx d flags) = Ok ()"
  "tf_consent_verified flags \<Longrightarrow> enforce_tnc_03 (build_tnc_ctx d flags) = Ok ()"
  by (simp_all add: enforce_tnc_07_def enforce_tnc_03_def build_tnc_ctx_def)

end
