(* ===== verification/Wasm_Core.thy ===== *)
theory Wasm_Core
  imports Wasm_Bridge Bcts Authority Consent Identity Holon Mcp
begin

text \<open>
  The JavaScript bindings of hashing, signatures and events (\<open>core_bindings.rs\<close>), identities
  (\<open>identity_bindings.rs\<close>), consent (\<open>consent_bindings.rs\<close>), authority chains
  (\<open>authority_bindings.rs\<close>) and the gatekeeper (\<open>gatekeeper_bindings.rs\<close>), all under
  \<open>src/crates/exochain-wasm/src\<close>, with the messages of the errors they print. Random bytes, fresh
  identifiers and readings of the wall clock are arguments.
\<close>

section \<open>Error messages\<close>

fun authority_error_display :: "authority_error \<Rightarrow> string" where
  "authority_error_display (ChainBroken i reason) = ''chain broken at index '' @ show_nat i @ '': '' @ reason"
| "authority_error_display (DepthExceeded depth limit) =
     ''delegation depth '' @ show_nat depth @ '' exceeds maximum '' @ show_nat limit"
| "authority_error_display (ScopeWidening i) = ''scope widening detected at index '' @ show_nat i"
| "authority_error_display (ExpiredLink i) = ''expired link at index '' @ show_nat i"
| "authority_error_display (AuthInvalidSignature i) = ''invalid signature at index '' @ show_nat i"
| "authority_error_display (CircularDelegation r) = ''circular delegation detected: '' @ r"
| "authority_error_display (AuthNotFound r) = ''delegation not found: '' @ r"
| "authority_error_display EmptyChain = ''empty chain''"
| "authority_error_display (PermissionDenied r) = ''permission not granted: '' @ r"

fun consent_error_display :: "consent_error \<Rightarrow> string" where
  "consent_error_display (InvalidState expected actual) =
     ''invalid bailment state: expected '' @ expected @ '', got '' @ actual"
| "consent_error_display (ConsentUnauthorized r) = ''unauthorized: '' @ r"
| "consent_error_display (ConsentExpired r) = ''expired: '' @ r"
| "consent_error_display (NoConsent r) = ''no consent found for action: '' @ r"
| "consent_error_display ConsentInvalidSignature = ''invalid signature''"
| "consent_error_display (ConsentDenied r) = ''consent denied: '' @ r"

fun identity_error_display :: "identity_error \<Rightarrow> string" where
  "identity_error_display (DuplicateDid d) = ''DID already registered: '' @ did_display d"
| "identity_error_display (DidNotFound d) = ''DID not found: '' @ did_display d"
| "identity_error_display (DidRevoked d) = ''DID has been revoked: '' @ did_display d"
| "identity_error_display IdInvalidSignature = ''invalid signature''"
| "identity_error_display (InvalidRevocationProof d) = ''invalid revocation proof for DID: '' @ did_display d"
| "identity_error_display (KeyNotFound d) = ''public key not found on DID: '' @ did_display d"
| "identity_error_display KeyAlreadyRevoked = ''key already revoked''"
| "identity_error_display KeyAlreadyRotated = ''key already rotated''"
| "identity_error_display (InvalidShamirConfig k n) =
     ''invalid Shamir config: threshold='' @ show_nat (unat k) @ '', shares='' @ show_nat (unat n)"
| "identity_error_display (InsufficientShares need got) =
     ''insufficient shares: need '' @ show_nat (unat need) @ '', got '' @ show_nat (unat got)"
| "identity_error_display (InvalidShareIndex i) = ''invalid share index: '' @ show_nat (unat i)"
| "identity_error_display DuplicateShareIndices = ''duplicate share indices''"
| "identity_error_display (InvalidPaceConfig r) = ''invalid PACE config: '' @ r"
| "identity_error_display CannotEscalate = ''cannot escalate: already at maximum level''"
| "identity_error_display CannotDeescalate = ''cannot de-escalate: already at Normal''"
| "identity_error_display AttestationExpired = ''risk attestation expired''"
| "identity_error_display (DuplicatePaceDid d) = ''duplicate DID across PACE levels: '' @ did_display d"
| "identity_error_display (VaultKeyDerivationFailed r) = ''vault key derivation failed: '' @ r"
| "identity_error_display (VaultEncryptionFailed r) = ''vault encryption failed: '' @ r"
| "identity_error_display VaultDecryptionFailed = ''vault decryption failed: authentication or ciphertext invalid''"
| "identity_error_display VaultCiphertextTooShort = ''vault ciphertext too short''"

fun gatekeeper_error_display :: "gatekeeper_error \<Rightarrow> string" where
  "gatekeeper_error_display (KernelIntegrityFailure expected actual) =
     ''kernel integrity check failed: expected '' @ expected @ '', got '' @ actual"
| "gatekeeper_error_display (GateInvariantViolation r) = ''invariant violation: '' @ r"
| "gatekeeper_error_display (CombinatorError r) = ''combinator reduction failed: '' @ r"
| "gatekeeper_error_display (HolonError r) = ''holon error: '' @ r"
| "gatekeeper_error_display (McpViolationErr r) = ''MCP violation: '' @ r"
| "gatekeeper_error_display (TeeError r) = ''TEE attestation failed: '' @ r"
| "gatekeeper_error_display (CapabilityDenied r) = ''capability denied: '' @ r"
| "gatekeeper_error_display (TimeoutErr ms) = ''timeout after '' @ show_nat (unat ms) @ '' ms''"
| "gatekeeper_error_display (CheckpointError r) = ''checkpoint error: '' @ r"
| "gatekeeper_error_display (CoreErr r) = ''core error: '' @ r"
| "gatekeeper_error_display (McpAuditChainBroken i) = ''MCP audit chain broken at index '' @ show_nat i"

section \<open>Hashing and Merkle trees\<close>

definition wasm_hash_bytes :: "blake3 \<Rightarrow> bytes \<Rightarrow> string" where
  "wasm_hash_bytes blake3 data = hex_bytes (hash_bytes (canonical_hash blake3 data))"

definition wasm_hash_structured ::
    "('t, 'js) wasm_env \<Rightarrow> ('t \<Rightarrow> ('v, string) result) \<Rightarrow> blake3 \<Rightarrow> ('v \<Rightarrow> (bytes, string) result) \<Rightarrow> 't \<Rightarrow> (string, 'js) result" where
  "wasm_hash_structured env de blake3 cbor json =
     and_then (from_json_str env de json) (\<lambda>val.
     and_then (js_err env (\<lambda>e. ''Hash error: '' @ exo_error_display e) (hash_structured blake3 cbor val)) (\<lambda>hash.
     Ok (hex_bytes (hash_bytes hash))))"

definition js_hashes :: "('t, 'js) wasm_env \<Rightarrow> string list \<Rightarrow> (hash256 list, 'js) result" where
  "js_hashes env hs = js_all (js_hash env ''not 32 bytes'') hs"

definition wasm_merkle_root ::
    "('t, 'js) wasm_env \<Rightarrow> ('t \<Rightarrow> (string list, string) result) \<Rightarrow> blake3 \<Rightarrow> 't \<Rightarrow> (string, 'js) result" where
  "wasm_merkle_root env de blake3 leaves_json =
     and_then (from_json_str env de leaves_json) (\<lambda>hex_leaves.
     and_then (js_hashes env hex_leaves) (\<lambda>leaves.
     Ok (hex_bytes (hash_bytes (merkle_root blake3 leaves)))))"

definition wasm_merkle_proof ::
    "('t, 'js) wasm_env \<Rightarrow> ('t, string list) codec \<Rightarrow> blake3 \<Rightarrow> 't \<Rightarrow> nat \<Rightarrow> ('js, 'js) result" where
  "wasm_merkle_proof env cd blake3 leaves_json index =
     and_then (from_json_str env (cd_de cd) leaves_json) (\<lambda>hex_leaves.
     and_then (js_hashes env hex_leaves) (\<lambda>leaves.
     and_then (js_err env (\<lambda>e. ''Proof error: '' @ exo_error_display e) (merkle_proof blake3 leaves index)) (\<lambda>proof.
     to_js_value env (cd_ser cd) (map (\<lambda>h. hex_bytes (hash_bytes h)) proof))))"

definition wasm_verify_merkle_proof ::
    "('t, 'js) wasm_env \<Rightarrow> ('t \<Rightarrow> (string list, string) result) \<Rightarrow> blake3 \<Rightarrow> string \<Rightarrow> string \<Rightarrow> 't \<Rightarrow> nat \<Rightarrow> (bool, 'js) result" where
  "wasm_verify_merkle_proof env de blake3 root_hex leaf_hex proof_json index =
     and_then (js_hash env ''root must be 32 bytes'' root_hex) (\<lambda>root.
     and_then (js_hash env ''leaf must be 32 bytes'' leaf_hex) (\<lambda>leaf.
     and_then (from_json_str env de proof_json) (\<lambda>hex_proof.
     and_then (js_hashes env hex_proof) (\<lambda>proof.
     Ok (verify_merkle_proof blake3 root leaf proof index)))))"

section \<open>Signatures\<close>

text \<open>The bytes drawn for the key pair are the argument \<open>entropy\<close>.\<close>

definition wasm_generate_keypair :: "('t, 'js) wasm_env \<Rightarrow> crypto_prims \<Rightarrow> arr32 \<Rightarrow> ('js, 'js) result" where
  "wasm_generate_keypair env P entropy =
     (let kp = kp_generate P entropy
      in to_js_value env (we_json env) (JObj [(''public_key'', JStr (hex_bytes (bytes32 (pk_arr (kp_public kp)))))]))"

definition wasm_sign_with_ephemeral_key ::
    "('t, 'js) wasm_env \<Rightarrow> (signature \<Rightarrow> (json, string) result) \<Rightarrow> crypto_prims \<Rightarrow> arr32 \<Rightarrow> bytes \<Rightarrow> ('js, 'js) result" where
  "wasm_sign_with_ephemeral_key env val_sig P entropy message =
     (let (pk, sk) = generate_keypair P entropy
      in and_then (js_err env (\<lambda>e. ''serialize: '' @ e) (val_sig (sign P message sk))) (\<lambda>sv.
         to_js_value env (we_json env)
           (JObj [(''signature'', sv), (''public_key'', JStr (hex_bytes (bytes32 (pk_arr pk))))])))"

definition wasm_sign ::
    "('t, 'js) wasm_env \<Rightarrow> (signature \<Rightarrow> ('t, string) result) \<Rightarrow> crypto_prims \<Rightarrow> bytes \<Rightarrow> string \<Rightarrow> ('t, 'js) result" where
  "wasm_sign env ser_sig P message secret_hex =
     and_then (js_arr32 env ''secret key must be 32 bytes'' secret_hex) (\<lambda>arr.
     js_err env (\<lambda>e. ''serialize: '' @ e) (ser_sig (sign P message (SecretKey arr))))"

definition wasm_verify ::
    "('t, 'js) wasm_env \<Rightarrow> ('t \<Rightarrow> (signature, string) result) \<Rightarrow> crypto_prims \<Rightarrow> bytes \<Rightarrow> 't \<Rightarrow> string \<Rightarrow> (bool, 'js) result" where
  "wasm_verify env de_sig P message signature_json public_hex =
     and_then (from_json_str env de_sig signature_json) (\<lambda>sg.
     and_then (js_arr32 env ''public key must be 32 bytes'' public_hex) (\<lambda>arr.
     Ok (verify P message sg (PublicKey arr))))"

section \<open>Events\<close>

definition wasm_compute_event_id :: "(uuid \<Rightarrow> string) \<Rightarrow> uuid \<Rightarrow> string" where
  "wasm_compute_event_id show_uuid u = correlation_display show_uuid (CorrelationId u)"

definition wasm_verify_event ::
    "('t, 'js) wasm_env \<Rightarrow> ('t \<Rightarrow> (event, string) result) \<Rightarrow> crypto_prims \<Rightarrow> event_cbor \<Rightarrow> 't \<Rightarrow> string \<Rightarrow> (bool, 'js) result" where
  "wasm_verify_event env de P cbor event_json public_hex =
     and_then (from_json_str env de event_json) (\<lambda>ev.
     and_then (js_arr32 env ''public key must be 32 bytes'' public_hex) (\<lambda>arr.
     Ok (verify_event P cbor ev (PublicKey arr))))"

definition wasm_create_signed_event ::
    "('t, 'js) wasm_env \<Rightarrow> ('t \<Rightarrow> (event_type, string) result) \<Rightarrow> (event \<Rightarrow> ('t, string) result) \<Rightarrow> crypto_prims \<Rightarrow> event_cbor \<Rightarrow>
       uuid \<Rightarrow> u64 \<Rightarrow> 't \<Rightarrow> bytes \<Rightarrow> string \<Rightarrow> string \<Rightarrow> ('js, 'js) result" where
  "wasm_create_signed_event env de_type ser P cbor u wall event_type_json payload source_str secret_hex =
     and_then (from_json_str env de_type event_type_json) (\<lambda>ty.
     and_then (js_did env source_str) (\<lambda>source.
     and_then (js_arr32 env ''secret key must be 32 bytes'' secret_hex) (\<lambda>arr.
       let ts = snd (hc_now wall hc_new)
       in to_js_value env ser (create_signed_event P cbor (CorrelationId u) ts ty payload source (SecretKey arr)))))"

section \<open>Transaction states\<close>

definition wasm_bcts_valid_transitions ::
    "('t, 'js) wasm_env \<Rightarrow> ('t \<Rightarrow> (bcts_state, string) result) \<Rightarrow> (bcts_state list \<Rightarrow> ('t, string) result) \<Rightarrow> 't \<Rightarrow> ('js, 'js) result" where
  "wasm_bcts_valid_transitions env de ser state_json =
     and_then (from_json_str env de state_json) (\<lambda>st. to_js_value env ser (valid_transitions st))"

definition wasm_bcts_is_terminal ::
    "('t, 'js) wasm_env \<Rightarrow> ('t \<Rightarrow> (bcts_state, string) result) \<Rightarrow> 't \<Rightarrow> (bool, 'js) result" where
  "wasm_bcts_is_terminal env de state_json =
     and_then (from_json_str env de state_json) (\<lambda>st. Ok (case st of bcts_state.Closed \<Rightarrow> True | bcts_state.Denied \<Rightarrow> True | _ \<Rightarrow> False))"

section \<open>Identities\<close>

definition wasm_shamir_split ::
    "('t, 'js) wasm_env \<Rightarrow> (share list \<Rightarrow> ('t, string) result) \<Rightarrow> blake3 \<Rightarrow> (nat \<Rightarrow> nat \<Rightarrow> u8) \<Rightarrow> bytes \<Rightarrow> u8 \<Rightarrow> u8 \<Rightarrow> ('js, 'js) result" where
  "wasm_shamir_split env ser blake3 rng secret k n =
     and_then (js_err env (\<lambda>e. ''Shamir split error: '' @ identity_error_display e)
       (split_secret blake3 rng secret \<lparr>threshold = k, shares = n\<rparr>)) (to_js_value env ser)"

text \<open>\<open>None\<close>: the library panics, which traps the module.\<close>

definition wasm_shamir_reconstruct ::
    "('t, 'js) wasm_env \<Rightarrow> ('t \<Rightarrow> (share list, string) result) \<Rightarrow> 't \<Rightarrow> u8 \<Rightarrow> u8 \<Rightarrow> ('js, 'js) result option" where
  "wasm_shamir_reconstruct env de shares_json k n =
     (case from_json_str env de shares_json of
        Inl e \<Rightarrow> Some (Err e)
      | Inr ss \<Rightarrow>
          map_option (\<lambda>r.
            and_then (js_err env (\<lambda>e. ''Shamir reconstruct error: '' @ identity_error_display e) r) (\<lambda>secret.
            to_js_value env (we_json env) (JObj [(''secret'', JStr (hex_bytes secret))])))
            (reconstruct ss \<lparr>threshold = k, shares = n\<rparr>))"

text \<open>The state is echoed as a value: \<open>val\<close>.\<close>

definition wasm_pace_resolve ::
    "('t, 'js) wasm_env \<Rightarrow> ('t \<Rightarrow> (pace_config, string) result) \<Rightarrow> ('t \<Rightarrow> (pace_state, string) result) \<Rightarrow> (pace_state \<Rightarrow> json) \<Rightarrow>
       't \<Rightarrow> 't \<Rightarrow> ('js, 'js) result option" where
  "wasm_pace_resolve env de_config de_state val config_json state_json =
     (case and_then (from_json_str env de_config config_json) (\<lambda>config.
             and_then (from_json_str env de_state state_json) (\<lambda>st. Ok (config, st))) of
        Inl e \<Rightarrow> Some (Err e)
      | Inr (config, st) \<Rightarrow>
          map_option (\<lambda>operator. to_js_value env (we_json env) (JObj [(''operator'', JStr (did_str operator)), (''state'', val st)]))
            (resolve_operator config st))"

definition wasm_pace_escalate :: "('t, 'js) wasm_env \<Rightarrow> ('t, pace_state) codec \<Rightarrow> 't \<Rightarrow> ('js, 'js) result" where
  "wasm_pace_escalate env cd state_json =
     and_then (from_json_str env (cd_de cd) state_json) (\<lambda>st.
     and_then (js_err env (\<lambda>e. ''PACE escalation error: '' @ identity_error_display e) (pace_escalate st))
       (to_js_value env (cd_ser cd)))"

definition wasm_pace_deescalate :: "('t, 'js) wasm_env \<Rightarrow> ('t, pace_state) codec \<Rightarrow> 't \<Rightarrow> ('js, 'js) result" where
  "wasm_pace_deescalate env cd state_json =
     and_then (from_json_str env (cd_de cd) state_json) (\<lambda>st.
     and_then (js_err env (\<lambda>e. ''PACE de-escalation error: '' @ identity_error_display e) (pace_deescalate st))
       (to_js_value env (cd_ser cd)))"

definition wasm_is_expired ::
    "('t, 'js) wasm_env \<Rightarrow> ('t \<Rightarrow> (risk_attestation, string) result) \<Rightarrow> 't \<Rightarrow> u64 \<Rightarrow> (bool, 'js) result" where
  "wasm_is_expired env de attestation_json now_ms =
     and_then (from_json_str env de attestation_json) (\<lambda>a. Ok (risk_is_expired a (Timestamp now_ms 0)))"

definition wasm_assess_risk ::
    "('t, 'js) wasm_env \<Rightarrow> ('t \<Rightarrow> (risk_level, string) result) \<Rightarrow> (risk_attestation \<Rightarrow> ('t, string) result) \<Rightarrow> crypto_prims \<Rightarrow> blake3 \<Rightarrow>
       u64 \<Rightarrow> arr32 \<Rightarrow> string \<Rightarrow> string \<Rightarrow> bytes \<Rightarrow> 't \<Rightarrow> u64 \<Rightarrow> ('js, 'js) result" where
  "wasm_assess_risk env de_level ser P blake3 wall entropy subject_str attester_str evidence level_json validity =
     and_then (js_did env subject_str) (\<lambda>subject.
     and_then (js_did env attester_str) (\<lambda>attester.
     and_then (from_json_str env de_level level_json) (\<lambda>level.
       let ctx = \<lparr>rc_attester_did = attester, rc_evidence = evidence, rc_now = snd (hc_now wall hc_new),
                  rc_validity_ms = validity, rc_level = level\<rparr>;
           (_, secret_key) = generate_keypair P entropy
       in to_js_value env ser (assess_risk P blake3 subject ctx secret_key))))"

section \<open>Consent\<close>

text \<open>The identifier and the time that \<open>propose\<close> takes are arguments.\<close>

definition wasm_propose_bailment ::
    "('t, 'js) wasm_env \<Rightarrow> ('t \<Rightarrow> (bailment_type, string) result) \<Rightarrow> (bailment \<Rightarrow> ('t, string) result) \<Rightarrow> blake3 \<Rightarrow>
       string \<Rightarrow> timestamp \<Rightarrow> string \<Rightarrow> string \<Rightarrow> bytes \<Rightarrow> 't \<Rightarrow> ('js, 'js) result" where
  "wasm_propose_bailment env de_type ser blake3 u now bailor_str bailee_str terms type_json =
     and_then (js_did env bailor_str) (\<lambda>bailor.
     and_then (js_did env bailee_str) (\<lambda>bailee.
     and_then (from_json_str env de_type type_json) (\<lambda>ty.
     to_js_value env ser (bailment_propose blake3 u now bailor bailee terms ty))))"

definition wasm_bailment_is_active ::
    "('t, 'js) wasm_env \<Rightarrow> ('t \<Rightarrow> (bailment, string) result) \<Rightarrow> u64 \<Rightarrow> 't \<Rightarrow> (bool, 'js) result" where
  "wasm_bailment_is_active env de wall bailment_json =
     and_then (from_json_str env de bailment_json) (\<lambda>b. Ok (bailment_is_active b (snd (hc_now wall hc_new))))"

definition wasm_accept_bailment ::
    "('t, 'js) wasm_env \<Rightarrow> ('t, bailment) codec \<Rightarrow> ('t \<Rightarrow> (signature, string) result) \<Rightarrow> 't \<Rightarrow> 't \<Rightarrow> ('js, 'js) result" where
  "wasm_accept_bailment env cd de_sig bailment_json signature_json =
     and_then (from_json_str env (cd_de cd) bailment_json) (\<lambda>b.
     and_then (from_json_str env de_sig signature_json) (\<lambda>sg.
     and_then (js_err env (\<lambda>e. ''Accept error: '' @ consent_error_display e) (bailment_accept b sg))
       (to_js_value env (cd_ser cd))))"

definition wasm_terminate_bailment ::
    "('t, 'js) wasm_env \<Rightarrow> ('t, bailment) codec \<Rightarrow> 't \<Rightarrow> string \<Rightarrow> ('js, 'js) result" where
  "wasm_terminate_bailment env cd bailment_json actor_str =
     and_then (from_json_str env (cd_de cd) bailment_json) (\<lambda>b.
     and_then (js_did env actor_str) (\<lambda>actor.
     and_then (js_err env (\<lambda>e. ''Terminate error: '' @ consent_error_display e) (bailment_terminate b actor))
       (to_js_value env (cd_ser cd))))"

section \<open>Authority chains\<close>

definition wasm_build_authority_chain ::
    "('t, 'js) wasm_env \<Rightarrow> ('t \<Rightarrow> (authority_link list, string) result) \<Rightarrow> (authority_chain \<Rightarrow> ('t, string) result) \<Rightarrow> 't \<Rightarrow> ('js, 'js) result" where
  "wasm_build_authority_chain env de ser links_json =
     and_then (from_json_str env de links_json) (\<lambda>links.
     and_then (js_err env (\<lambda>e. ''Chain error: '' @ authority_error_display e) (build_chain links)) (to_js_value env ser))"

definition wasm_build_authority_chain_with_depth ::
    "('t, 'js) wasm_env \<Rightarrow> ('t \<Rightarrow> (authority_link list, string) result) \<Rightarrow> (authority_chain \<Rightarrow> ('t, string) result) \<Rightarrow>
       't \<Rightarrow> nat \<Rightarrow> ('js, 'js) result" where
  "wasm_build_authority_chain_with_depth env de ser links_json limit =
     and_then (from_json_str env de links_json) (\<lambda>links.
     and_then (js_err env (\<lambda>e. ''Chain error: '' @ authority_error_display e) (build_chain_with_depth links limit))
       (to_js_value env ser))"

definition wasm_has_permission ::
    "('t, 'js) wasm_env \<Rightarrow> ('t \<Rightarrow> (authority_chain, string) result) \<Rightarrow> ('t \<Rightarrow> (permission, string) result) \<Rightarrow> 't \<Rightarrow> 't \<Rightarrow> (bool, 'js) result" where
  "wasm_has_permission env de de_permission chain_json permission_json =
     and_then (from_json_str env de chain_json) (\<lambda>chain.
     and_then (from_json_str env de_permission permission_json) (\<lambda>p. Ok (has_permission chain p)))"

definition wasm_verify_authority_chain ::
    "('t, 'js) wasm_env \<Rightarrow> ('t \<Rightarrow> (authority_chain, string) result) \<Rightarrow> ('t \<Rightarrow> ((string \<times> string) list, string) result) \<Rightarrow> crypto_prims \<Rightarrow>
       't \<Rightarrow> u64 \<Rightarrow> 't \<Rightarrow> ('js, 'js) result" where
  "wasm_verify_authority_chain env de de_pairs P chain_json now_ms keys_json =
     and_then (from_json_str env de chain_json) (\<lambda>chain.
     and_then (from_json_str env de_pairs keys_json) (\<lambda>pairs.
     and_then (js_table env (\<lambda>k. and_then (js_arr32 env ''public key must be 32 bytes'' k) (\<lambda>a. Ok (PublicKey a))) pairs
       Map.empty) (\<lambda>lookup.
     to_js_value env (we_json env)
       (json_status ''ok'' authority_error_display (verify_chain P chain (Timestamp now_ms 0) lookup)))))"

section \<open>The gatekeeper\<close>

text \<open>
  The request of a JavaScript caller; the defaults of missing fields belong to its decoder. The context
  that the invariants judge is copied from it field by field, and the violations are embedded as a value.
\<close>

record wasm_invariant_request =
  wr_actor :: did
  wr_actor_roles :: "role list"
  wr_bailment_state :: bailment_state
  wr_consent_records :: "consent_record list"
  wr_authority_chain :: gate_chain
  wr_is_self_grant :: bool
  wr_human_override_preserved :: bool
  wr_kernel_modification_attempted :: bool
  wr_quorum_evidence :: "quorum_evidence option"
  wr_provenance :: "provenance option"
  wr_actor_permissions :: gate_permission_set
  wr_requested_permissions :: gate_permission_set

definition request_context :: "wasm_invariant_request \<Rightarrow> gate_context" where
  "request_context req =
     \<lparr>gx_actor = wr_actor req,
      gx_actor_roles = wr_actor_roles req,
      gx_bailment_state = wr_bailment_state req,
      gx_consent_records = wr_consent_records req,
      gx_authority_chain = wr_authority_chain req,
      gx_is_self_grant = wr_is_self_grant req,
      gx_human_override_preserved = wr_human_override_preserved req,
      gx_kernel_modification_attempted = wr_kernel_modification_attempted req,
      gx_quorum_evidence = wr_quorum_evidence req,
      gx_provenance = wr_provenance req,
      gx_actor_permissions = wr_actor_permissions req,
      gx_requested_permissions = wr_requested_permissions req\<rparr>"

definition wasm_enforce_invariants ::
    "('t, 'js) wasm_env \<Rightarrow> ('t \<Rightarrow> (wasm_invariant_request, string) result) \<Rightarrow> (gate_violation list \<Rightarrow> json) \<Rightarrow> crypto_prims \<Rightarrow> blake3 \<Rightarrow> branch_order \<Rightarrow>
       't \<Rightarrow> ('js, 'js) result" where
  "wasm_enforce_invariants env de val P blake3 order request_json =
     and_then (from_json_str env de request_json) (\<lambda>req.
     to_js_value env (we_json env)
       (case enforce_all P blake3 order gate_invariants_all (request_context req) of
          Inr _ \<Rightarrow> JObj [(''passed'', JBool True), (''violations'', JArr [])]
        | Inl vs \<Rightarrow> JObj [(''passed'', JBool False), (''violations'', val vs)]))"

definition wasm_reduce_combinator ::
    "('t, 'js) wasm_env \<Rightarrow> ('t \<Rightarrow> (combinator, string) result) \<Rightarrow> ('t \<Rightarrow> (combinator_input, string) result) \<Rightarrow>
       (combinator_output \<Rightarrow> ('t, string) result) \<Rightarrow> 't \<Rightarrow> 't \<Rightarrow> ('js, 'js) result" where
  "wasm_reduce_combinator env de de_input ser combinator_json input_json =
     and_then (from_json_str env de combinator_json) (\<lambda>c.
     and_then (from_json_str env de_input input_json) (\<lambda>input.
     and_then (js_err env (\<lambda>e. ''Reduction error: '' @ gatekeeper_error_display e) (reduce c input)) (to_js_value env ser)))"

definition wasm_step_combinator ::
    "('t, 'js) wasm_env \<Rightarrow> ('t \<Rightarrow> (combinator, string) result) \<Rightarrow> ('t \<Rightarrow> (combinator_input, string) result) \<Rightarrow>
       (combinator_output \<Rightarrow> ('t, string) result) \<Rightarrow> 't \<Rightarrow> 't \<Rightarrow> ('js, 'js) result" where
  "wasm_step_combinator env de de_input ser combinator_json input_json =
     and_then (from_json_str env de combinator_json) (\<lambda>c.
     and_then (from_json_str env de_input input_json) (\<lambda>input.
     and_then (js_err env (\<lambda>e. ''Step error: '' @ gatekeeper_error_display e) (reduce c input)) (to_js_value env ser)))"

fun holon_state_debug :: "holon_state \<Rightarrow> string" where
  "holon_state_debug HIdle = ''Idle''"
| "holon_state_debug HExecuting = ''Executing''"
| "holon_state_debug HSuspended = ''Suspended''"
| "holon_state_debug HTerminated = ''Terminated''"

definition wasm_spawn_holon ::
    "('t, 'js) wasm_env \<Rightarrow> ('t \<Rightarrow> (combinator, string) result) \<Rightarrow> string \<Rightarrow> 't \<Rightarrow> ('js, 'js) result" where
  "wasm_spawn_holon env de did_string program_json =
     and_then (from_json_str env de program_json) (\<lambda>program.
     and_then (js_did env did_string) (\<lambda>d.
       let h = spawn d \<lparr>gp_permissions = []\<rparr> program
       in to_js_value env (we_json env)
            (JObj [(''id'', JStr (did_str (holon_id h))), (''state'', JStr (holon_state_debug (holon_state h)))])))"

definition wasm_mcp_rules :: "('t, 'js) wasm_env \<Rightarrow> ('js, 'js) result" where
  "wasm_mcp_rules env =
     to_js_value env (we_json env)
       (JArr (map (\<lambda>r. JObj [(''rule'', JStr (mcp_rule_name r)), (''description'', JStr (mcp_description r))]) mcp_rules_all))"

section \<open>Round trips through JavaScript\<close>

text \<open>Hexadecimal decoding inverts the printing of bytes.\<close>

definition hex_ok :: "('t, 'js) wasm_env \<Rightarrow> bool" where
  "hex_ok env \<longleftrightarrow> (\<forall>bs. we_hex env (hex_bytes bs) = Ok bs)"

lemma hex_ok_simps:
  assumes "hex_ok env"
  shows "js_arr32 env msg (hex_bytes (bytes32 a)) = Ok a"
    and "js_hash env msg (hex_bytes (hash_bytes h)) = Ok h"
    and "js_hashes env (map (\<lambda>h. hex_bytes (hash_bytes h)) hs) = Ok hs"
proof -
  have hex: "\<And>bs. we_hex env (hex_bytes bs) = Ok bs" using assms by (simp add: hex_ok_def)
  show "js_arr32 env msg (hex_bytes (bytes32 a)) = Ok a" by (rule js_arr32_hex [OF hex])
  have hash: "js_hash env msg (hex_bytes (hash_bytes h)) = Ok h" for msg h
    using js_hash_display [OF hex] by (simp add: hash_display_hex)
  then show "js_hash env msg (hex_bytes (hash_bytes h)) = Ok h" .
  show "js_hashes env (map (\<lambda>h. hex_bytes (hash_bytes h)) hs) = Ok hs"
    unfolding js_hashes_def by (rule js_all_map) (rule hash)
qed

text \<open>
  A proof made for a leaf by one call, passed on as text, is accepted by another against the root that a
  third call computed; an index past the leaves is an error.
\<close>

lemma merkle_through_javascript:
  assumes "hex_ok env" "js_roundtrip env stringify (\<lambda>_. True) cd"
    and "cd_de cd leaves_json = Ok (map (\<lambda>h. hex_bytes (hash_bytes h)) leaves)"
  shows "if index < length leaves
    then \<exists>v root. wasm_merkle_proof env cd blake3 leaves_json index = Ok v \<and>
           wasm_merkle_root env (cd_de cd) blake3 leaves_json = Ok root \<and>
           wasm_verify_merkle_proof env (cd_de cd) blake3 root (hex_bytes (hash_bytes (leaves ! index))) (stringify v) index = Ok True
    else wasm_merkle_proof env cd blake3 leaves_json index = Err (we_str env ''Proof error: invalid merkle proof'')"
proof (cases "index < length leaves")
  case True
  with merkle_proof_complete [of index leaves blake3] obtain p where
    p: "merkle_proof blake3 leaves index = Ok p" "verify_merkle_proof blake3 (merkle_root blake3 leaves) (leaves ! index) p index"
    by auto
  obtain v where v: "to_js_value env (cd_ser cd) (map (\<lambda>h. hex_bytes (hash_bytes h)) p) = Ok v"
    "cd_de cd (stringify v) = Ok (map (\<lambda>h. hex_bytes (hash_bytes h)) p)"
    using to_js_value_roundtrip [OF assms(2) TrueI] by blast
  show ?thesis
    using True p v assms(3) hex_ok_simps [OF assms(1)]
    by (simp add: wasm_merkle_proof_def wasm_merkle_root_def wasm_verify_merkle_proof_def from_json_str_def)
next
  case False
  with merkle_proof_complete [of index leaves blake3] show ?thesis
    using assms(3) hex_ok_simps [OF assms(1)] by (simp add: wasm_merkle_proof_def from_json_str_def)
qed

text \<open>
  A secret split by one call is reconstructed by another from the text of any shares whose points are
  distinct, at least as many as the threshold.
\<close>

lemma shamir_through_javascript:
  assumes "split_secret blake3 rng secret \<lparr>threshold = k, shares = n\<rparr> = Ok ss"
    and "cd_de cd text = Ok sel" "set sel \<subseteq> set ss" "distinct (map sh_index sel)" "unat k \<le> length sel"
  shows "wasm_shamir_split env (cd_ser cd) blake3 rng secret k n = to_js_value env (cd_ser cd) ss \<and>
    wasm_shamir_reconstruct env (cd_de cd) text k n =
      Some (to_js_value env (we_json env) (JObj [(''secret'', JStr (hex_bytes secret))]))"
proof -
  let ?cfg = "\<lparr>threshold = k, shares = n\<rparr>"
  from assms(1) have valid: "shamir_validate ?cfg = Ok ()" by (simp add: split_secret_Ok)
  have "\<forall>s \<in> set sel. s = share_of blake3 rng secret (unat (threshold ?cfg)) (sh_index s) \<and> sh_index s \<noteq> 0"
    using split_secret_elem [OF assms(1)] assms(3) by blast
  from reconstruct_shares [OF valid this assms(4)] assms(5) have "reconstruct sel ?cfg = Some (Ok secret)" by simp
  with assms(1,2) show ?thesis
    by (simp add: wasm_shamir_split_def wasm_shamir_reconstruct_def from_json_str_def)
qed

text \<open>What is signed with a secret in hexadecimal verifies under its public key in hexadecimal.\<close>

lemma signature_through_javascript:
  assumes "hex_ok env" "ed_correct P" "\<And>x. \<exists>t. cd_ser cd x = Ok t \<and> cd_de cd t = Ok x"
  shows "\<exists>t. wasm_sign env (cd_ser cd) P m (hex_bytes (bytes32 sk)) = Ok t \<and>
    wasm_verify env (cd_de cd) P m t (hex_bytes (bytes32 (ed_public P sk))) = Ok True"
proof -
  obtain t where "cd_ser cd (sign P m (SecretKey sk)) = Ok t" "cd_de cd t = Ok (sign P m (SecretKey sk))"
    using assms(3) by blast
  then show ?thesis
    using sign_verify [OF assms(2), of m sk] hex_ok_simps [OF assms(1)]
    by (simp add: wasm_sign_def wasm_verify_def from_json_str_def)
qed

section \<open>Differences from the library\<close>

text \<open>The binding calls a denied transaction terminal, although the library lets it be remediated.\<close>

lemma denied_called_terminal:
  assumes "de text = Ok bcts_state.Denied"
  shows "wasm_bcts_is_terminal env de text = Ok True \<and> valid_transitions bcts_state.Denied \<noteq> []"
  using assms by (simp add: wasm_bcts_is_terminal_def from_json_str_def)

text \<open>
  A risk attestation names any attester the caller likes and is signed with a key drawn in the call: what
  it verifies under has nothing to do with the attester.
\<close>

lemma risk_signed_by_nobody:
  assumes "ed_correct P" "did_validate subject = Ok ()" "did_validate attester = Ok ()" "de level_json = Ok level"
  shows "\<exists>a. wasm_assess_risk env de ser P blake3 wall entropy subject attester evidence level_json validity =
      to_js_value env ser a \<and> ra_attester_did a = Did attester \<and>
      risk_verify_attestation P a (PublicKey (ed_public P entropy))"
proof -
  have did: "js_did env subject = Ok (Did subject)" "js_did env attester = Ok (Did attester)"
    using assms(2,3) by (simp_all add: js_did_def did_new_def)
  show ?thesis
    using did assms(4) sign_verify [OF assms(1)]
    by (auto simp: wasm_assess_risk_def from_json_str_def Let_def generate_keypair_def assess_risk_def
        risk_verify_attestation_def)
qed

text \<open>The chain bindings judge with the keys of the caller: a key outside the table fails the check.\<close>

lemma chain_keys_from_caller:
  assumes "js_table env (\<lambda>k. and_then (js_arr32 env ''public key must be 32 bytes'' k) (\<lambda>a. Ok (PublicKey a))) pairs Map.empty = Ok lookup"
    and "did_str d \<notin> fst ` set pairs"
  shows "lookup d = None"
proof -
  have "map_of (rev pairs) (did_str d) = None" using assms(2) by (simp add: map_of_eq_None_iff)
  with js_table_lookup [OF assms(1), of d] show ?thesis by simp
qed

end
