(* ===== verification/Wasm_Governance.thy ===== *)
theory Wasm_Governance
  imports Wasm_Bridge Hlc Conflict Legal Escalation
begin

text \<open>
  The JavaScript bindings of governance (\<open>governance_bindings.rs\<close>), escalation
  (\<open>escalation_bindings.rs\<close>) and legal operations (\<open>legal_bindings.rs\<close>) under
  \<open>src/crates/exochain-wasm/src\<close>, with the messages of the errors they print. Identifiers, times and
  the iteration orders of hash maps are arguments, as in the functions they call.
\<close>

section \<open>Error messages\<close>

fun governance_error_display :: "governance_error \<Rightarrow> string" where
  "governance_error_display (QuorumNotMet r) = ''quorum not met: '' @ r"
| "governance_error_display (InsufficientIndependence r) = ''insufficient independence: '' @ r"
| "governance_error_display (ClearanceDenied r) = ''clearance denied: actor lacks '' @ r @ '' level''"
| "governance_error_display (ChallengeError r) = ''challenge error: '' @ r"
| "governance_error_display (DeliberationError r) = ''deliberation error: '' @ r"
| "governance_error_display (AuditChainBroken i) = ''audit chain broken at index '' @ show_nat i"
| "governance_error_display (DuplicateVote r) = ''duplicate vote from '' @ r"
| "governance_error_display DeliberationNotOpen = ''deliberation not open''"
| "governance_error_display (ActionNotFound r) = ''action not found: '' @ r"
| "governance_error_display (governance_error.CaseNotFound r) = ''case not found: '' @ r"
| "governance_error_display (InvalidStateTransition a b) = ''invalid state transition: '' @ a @ '' -> '' @ b"

fun conflict_severity_debug :: "conflict_severity \<Rightarrow> string" where
  "conflict_severity_debug Advisory = ''Advisory''"
| "conflict_severity_debug Material = ''Material''"
| "conflict_severity_debug Disqualifying = ''Disqualifying''"

fun conflict_error_display :: "conflict_error \<Rightarrow> string" where
  "conflict_error_display (RecusalRequired actor severity) =
     ''recusal required: actor '' @ actor @ '' has '' @ conflict_severity_debug severity @ '' conflict '' @ em_dash @
     '' vote blocked''"

text \<open>The text of a UUID is the argument \<open>show_uuid\<close>.\<close>

fun legal_error_display :: "(uuid \<Rightarrow> string) \<Rightarrow> legal_error \<Rightarrow> string" where
  "legal_error_display show_uuid (EvidenceNotFound u) = ''evidence not found: '' @ show_uuid u"
| "legal_error_display show_uuid (LgCustodyChainBroken i) = ''chain of custody broken at transfer index '' @ show_nat i"
| "legal_error_display show_uuid (CustodyTransferFailed r) = ''custody transfer failed: '' @ r"
| "legal_error_display show_uuid (NotAdmissible r) = ''evidence is not admissible: '' @ r"
| "legal_error_display show_uuid (PrivilegeInvalid r) = ''privilege assertion invalid: '' @ r"
| "legal_error_display show_uuid (PrivilegeAlreadyAsserted u) = ''privilege already asserted for evidence '' @ show_uuid u"
| "legal_error_display show_uuid (FiduciaryViolation r) = ''fiduciary duty violation: '' @ r"
| "legal_error_display show_uuid (DiscoveryScopeTooBoard r) = ''discovery scope too broad: '' @ r"
| "legal_error_display show_uuid (RetentionViolation r) = ''retention policy violation: '' @ r"
| "legal_error_display show_uuid (DisclosureRequired r) = ''disclosure required for action: '' @ r"
| "legal_error_display show_uuid (LgConflictOfInterest r) = ''conflict of interest: '' @ r"
| "legal_error_display show_uuid (RecordNotFound u) = ''record not found: '' @ show_uuid u"
| "legal_error_display show_uuid (LgInvalidStateTransition r) = ''invalid state transition: '' @ r"

section \<open>Quorum, clearance and conflicts\<close>

definition quorum_result_json :: "quorum_result \<Rightarrow> json" where
  "quorum_result_json r =
     (case r of
        QuorumMet independent total_n \<Rightarrow>
          JObj [(''status'', JStr ''Met''), (''independent_count'', JNum (int independent)), (''total_count'', JNum (int total_n))]
      | QuorumUnmet reason \<Rightarrow> JObj [(''status'', JStr ''NotMet''), (''reason'', JStr reason)]
      | QuorumContested challenge \<Rightarrow> JObj [(''status'', JStr ''Contested''), (''challenge'', JStr challenge)])"

definition wasm_compute_quorum ::
    "('t, 'js) wasm_env \<Rightarrow> ('t \<Rightarrow> (approval list, string) result) \<Rightarrow> ('t \<Rightarrow> (quorum_policy, string) result) \<Rightarrow> 't \<Rightarrow> 't \<Rightarrow> ('js, 'js) result" where
  "wasm_compute_quorum env de_approvals de_policy approvals_json policy_json =
     and_then (from_json_str env de_approvals approvals_json) (\<lambda>approvals.
     and_then (from_json_str env de_policy policy_json) (\<lambda>policy.
     to_js_value env (we_json env) (quorum_result_json (compute_quorum approvals policy))))"

definition clearance_json :: "clearance_decision \<Rightarrow> json" where
  "clearance_json d =
     (case d of
        ClGranted \<Rightarrow> JObj [(''status'', JStr ''Granted'')]
      | ClDenied level \<Rightarrow> JObj [(''status'', JStr ''Denied''), (''missing_level'', JStr (level_name level))]
      | ClInsufficientIndependence details \<Rightarrow>
          JObj [(''status'', JStr ''InsufficientIndependence''), (''details'', JStr details)])"

text \<open>The registry is built in the call, with the actor as a governor.\<close>

definition wasm_check_clearance ::
    "('t, 'js) wasm_env \<Rightarrow> ('t \<Rightarrow> (clearance_policy, string) result) \<Rightarrow> string \<Rightarrow> string \<Rightarrow> 't \<Rightarrow> ('js, 'js) result" where
  "wasm_check_clearance env de_policy actor_str action policy_json =
     and_then (js_did env actor_str) (\<lambda>actor.
     and_then (from_json_str env de_policy policy_json) (\<lambda>policy.
       let registry = set_level Map.empty actor LevelGovernor
       in to_js_value env (we_json env) (clearance_json (check_clearance actor action policy registry))))"

text \<open>The conflicts are embedded as a value: \<open>val\<close>.\<close>

definition wasm_check_conflicts ::
    "('t, 'js) wasm_env \<Rightarrow> ('t \<Rightarrow> (conflict_request, string) result) \<Rightarrow> ('t \<Rightarrow> (conflict_declaration list, string) result) \<Rightarrow>
       (conflict list \<Rightarrow> json) \<Rightarrow> string \<Rightarrow> 't \<Rightarrow> 't \<Rightarrow> ('js, 'js) result" where
  "wasm_check_conflicts env de_action de_declarations val actor_str action_json declarations_json =
     and_then (js_did env actor_str) (\<lambda>actor.
     and_then (from_json_str env de_action action_json) (\<lambda>action.
     and_then (from_json_str env de_declarations declarations_json) (\<lambda>declarations.
       let conflicts = check_conflicts actor action declarations
       in to_js_value env (we_json env)
            (JObj [(''conflicts'', val conflicts), (''must_recuse'', JBool (must_recuse conflicts))]))))"

definition wasm_conflict_enforce ::
    "('t, 'js) wasm_env \<Rightarrow> ('t \<Rightarrow> (conflict_request, string) result) \<Rightarrow> ('t \<Rightarrow> (conflict_declaration list, string) result) \<Rightarrow>
       string \<Rightarrow> 't \<Rightarrow> 't \<Rightarrow> ('js, 'js) result" where
  "wasm_conflict_enforce env de_action de_declarations actor_str action_json declarations_json =
     and_then (js_did env actor_str) (\<lambda>actor.
     and_then (from_json_str env de_action action_json) (\<lambda>action.
     and_then (from_json_str env de_declarations declarations_json) (\<lambda>declarations.
     and_then (js_err env (\<lambda>e. ''ConflictBlocked: '' @ conflict_error_display e)
       (check_and_block actor (check_conflicts actor action declarations))) (\<lambda>_.
     to_js_value env (we_json env) (JObj [(''allowed'', JBool True)])))))"

section \<open>The audit log\<close>

definition wasm_audit_append ::
    "('t, 'js) wasm_env \<Rightarrow> blake3 \<Rightarrow> uuid \<Rightarrow> timestamp \<Rightarrow> string \<Rightarrow> string \<Rightarrow> string \<Rightarrow> string \<Rightarrow> ('js, 'js) result" where
  "wasm_audit_append env blake3 u now actor_str action res evidence_hash_hex =
     and_then (js_did env actor_str) (\<lambda>actor.
     and_then (js_arr32 env ''evidence hash must be 32 bytes'' evidence_hash_hex) (\<lambda>arr.
     and_then (js_err env (\<lambda>e. ''Audit error: '' @ governance_error_display e)
       (audit_append blake3 [] (create_entry blake3 u now [] actor action res arr))) (\<lambda>log.
     to_js_value env (we_json env)
       (JObj [(''entries'', JNum (int (length log))), (''head_hash'', JStr (hex_bytes (bytes32 (audit_head_hash blake3 log))))]))))"

text \<open>The loop that rebuilds the log from its entries.\<close>

fun audit_rebuild :: "blake3 \<Rightarrow> audit_log \<Rightarrow> audit_entry list \<Rightarrow> (audit_log, governance_error) result" where
  "audit_rebuild blake3 log [] = Ok log"
| "audit_rebuild blake3 log (e # es) = and_then (audit_append blake3 log e) (\<lambda>log'. audit_rebuild blake3 log' es)"

definition wasm_audit_verify ::
    "('t, 'js) wasm_env \<Rightarrow> ('t \<Rightarrow> (audit_entry list, string) result) \<Rightarrow> blake3 \<Rightarrow> 't \<Rightarrow> ('js, 'js) result" where
  "wasm_audit_verify env de blake3 entries_json =
     and_then (from_json_str env de entries_json) (\<lambda>es.
     to_js_value env (we_json env)
       (case audit_rebuild blake3 [] es of
          Inl e \<Rightarrow> JObj [(''valid'', JBool False), (''error'', JStr (governance_error_display e))]
        | Inr log \<Rightarrow> json_status ''valid'' governance_error_display (audit_verify_chain blake3 log)))"

section \<open>Deliberation and succession\<close>

definition wasm_open_deliberation ::
    "('t, 'js) wasm_env \<Rightarrow> ('t \<Rightarrow> (string list, string) result) \<Rightarrow> (deliberation \<Rightarrow> ('t, string) result) \<Rightarrow> blake3 \<Rightarrow> uuid \<Rightarrow> timestamp \<Rightarrow>
       string \<Rightarrow> 't \<Rightarrow> ('js, 'js) result" where
  "wasm_open_deliberation env de ser blake3 u now proposal_hex participants_json =
     and_then (js_err env (\<lambda>e. ''hex: '' @ e) (we_hex env proposal_hex)) (\<lambda>proposal.
     and_then (from_json_str env de participants_json) (\<lambda>did_strs.
     and_then (js_all (js_did env) did_strs) (\<lambda>participants.
     to_js_value env ser (open_deliberation blake3 u now proposal participants))))"

definition wasm_cast_vote ::
    "('t, 'js) wasm_env \<Rightarrow> ('t, deliberation) codec \<Rightarrow> ('t \<Rightarrow> (delib_vote, string) result) \<Rightarrow> 't \<Rightarrow> 't \<Rightarrow> ('js, 'js) result" where
  "wasm_cast_vote env cd de_vote deliberation_json vote_json =
     and_then (from_json_str env (cd_de cd) deliberation_json) (\<lambda>delib.
     and_then (from_json_str env de_vote vote_json) (\<lambda>vote.
     and_then (js_err env (\<lambda>e. ''Vote error: '' @ governance_error_display e) (delib_cast_vote delib vote))
       (to_js_value env (cd_ser cd))))"

definition deliberation_json :: "deliberation_result \<Rightarrow> json" where
  "deliberation_json r =
     (case r of
        deliberation_result.Approved f a b \<Rightarrow>
          JObj [(''result'', JStr ''Approved''), (''votes_for'', JNum (int f)), (''votes_against'', JNum (int a)), (''abstentions'', JNum (int b))]
      | deliberation_result.Rejected f a b \<Rightarrow>
          JObj [(''result'', JStr ''Rejected''), (''votes_for'', JNum (int f)), (''votes_against'', JNum (int a)), (''abstentions'', JNum (int b))]
      | NoQuorum reason \<Rightarrow> JObj [(''result'', JStr ''NoQuorum''), (''reason'', JStr reason)])"

definition wasm_close_deliberation ::
    "('t, 'js) wasm_env \<Rightarrow> ('t \<Rightarrow> (deliberation, string) result) \<Rightarrow> ('t \<Rightarrow> (quorum_policy, string) result) \<Rightarrow> 't \<Rightarrow> 't \<Rightarrow> ('js, 'js) result" where
  "wasm_close_deliberation env de de_policy delib_json policy_json =
     and_then (from_json_str env de delib_json) (\<lambda>delib.
     and_then (from_json_str env de_policy policy_json) (\<lambda>policy.
     to_js_value env (we_json env) (deliberation_json (snd (delib_close delib policy)))))"

definition wasm_activate_succession ::
    "('t, 'js) wasm_env \<Rightarrow> ('t \<Rightarrow> (succession_plan, string) result) \<Rightarrow> ('t \<Rightarrow> (succession_trigger, string) result) \<Rightarrow>
       (succession_result \<Rightarrow> ('t, string) result) \<Rightarrow> 't \<Rightarrow> 't \<Rightarrow> u64 \<Rightarrow> ('js, 'js) result" where
  "wasm_activate_succession env de_plan de_trigger ser plan_json trigger_json now_ms =
     and_then (from_json_str env de_plan plan_json) (\<lambda>plan.
     and_then (from_json_str env de_trigger trigger_json) (\<lambda>trigger.
     and_then (js_err env (\<lambda>e. ''Succession error: '' @ governance_error_display e)
       (activate_succession plan trigger (Timestamp now_ms 0))) (to_js_value env ser)))"

definition wasm_file_governance_challenge ::
    "('t, 'js) wasm_env \<Rightarrow> ('t \<Rightarrow> (challenge_ground, string) result) \<Rightarrow> (challenge \<Rightarrow> ('t, string) result) \<Rightarrow> uuid \<Rightarrow> timestamp \<Rightarrow>
       string \<Rightarrow> string \<Rightarrow> 't \<Rightarrow> bytes \<Rightarrow> ('js, 'js) result" where
  "wasm_file_governance_challenge env de_ground ser u now challenger_str target_hash_hex ground_json evidence =
     and_then (js_did env challenger_str) (\<lambda>challenger.
     and_then (js_arr32 env ''target must be 32 bytes'' target_hash_hex) (\<lambda>arr.
     and_then (from_json_str env de_ground ground_json) (\<lambda>ground.
     to_js_value env ser (file_challenge u now challenger arr ground evidence))))"

section \<open>Independence\<close>

record registry_input =
  ri_signing_keys :: "(string \<times> string) list"
  ri_attestation_roots :: "(string \<times> string) list"
  ri_control_metadata :: "(string \<times> string) list"

definition js_identity_registry :: "('t, 'js) wasm_env \<Rightarrow> registry_input \<Rightarrow> (identity_registry, 'js) result" where
  "js_identity_registry env input =
     and_then (js_table env Ok (ri_signing_keys input) Map.empty) (\<lambda>keys.
     and_then (js_table env (js_did env) (ri_attestation_roots input) Map.empty) (\<lambda>roots.
     and_then (js_table env Ok (ri_control_metadata input) Map.empty) (\<lambda>meta.
     Ok \<lparr>signing_keys = keys, attestation_roots = roots, control_metadata = meta\<rparr>)))"

definition independence_json :: "independence_result \<Rightarrow> json" where
  "independence_json r =
     JObj [(''independent_count'', JNum (int (independent_count r))),
           (''clusters'', JArr (map (\<lambda>c. JObj [(''reason'', JStr (cl_reason c)),
              (''members'', JArr (map (\<lambda>d. JStr (did_str d)) (cl_members c)))]) (clusters r))),
           (''suspicious_pairs'', JArr (map (\<lambda>(a, b). JArr [JStr (did_str a), JStr (did_str b)]) (suspicious_pairs r)))]"

text \<open>The iteration orders of the three maps of groups are arguments.\<close>

definition wasm_verify_independence ::
    "('t, 'js) wasm_env \<Rightarrow> ('t \<Rightarrow> (string list, string) result) \<Rightarrow> ('t \<Rightarrow> (registry_input, string) result) \<Rightarrow>
       (string list \<Rightarrow> string list) \<Rightarrow> (did list \<Rightarrow> did list) \<Rightarrow> (string list \<Rightarrow> string list) \<Rightarrow> 't \<Rightarrow> 't \<Rightarrow> ('js, 'js) result" where
  "wasm_verify_independence env de_actors de_registry ok1 ok2 ok3 actors_json registry_json =
     and_then (from_json_str env de_actors actors_json) (\<lambda>did_strs.
     and_then (js_all (js_did env) did_strs) (\<lambda>actors.
     and_then (from_json_str env de_registry registry_json) (\<lambda>input.
     and_then (js_identity_registry env input) (\<lambda>registry.
     to_js_value env (we_json env) (independence_json (verify_independence ok1 ok2 ok3 actors registry))))))"

definition wasm_detect_coordination ::
    "('t, 'js) wasm_env \<Rightarrow> ('t \<Rightarrow> (timestamped_action list, string) result) \<Rightarrow> 't \<Rightarrow> ('js, 'js) result" where
  "wasm_detect_coordination env de actions_json =
     and_then (from_json_str env de actions_json) (\<lambda>actions.
     to_js_value env (we_json env)
       (JArr (map (\<lambda>sg. JObj [(''actors'', JArr (map (\<lambda>d. JStr (did_str d)) (cs_actors sg))),
          (''reason'', JStr (cs_reason sg)), (''confidence'', JNum (uint (cs_confidence sg)))]) (detect_coordination actions))))"

section \<open>Escalation\<close>

definition wasm_evaluate_signals ::
    "('t, 'js) wasm_env \<Rightarrow> ('t \<Rightarrow> (detection_signal list, string) result) \<Rightarrow> (threat_assessment \<Rightarrow> ('t, string) result) \<Rightarrow> 't \<Rightarrow> ('js, 'js) result" where
  "wasm_evaluate_signals env de ser signals_json =
     and_then (from_json_str env de signals_json) (\<lambda>signals. to_js_value env ser (evaluate_signals signals))"

definition wasm_escalate ::
    "('t, 'js) wasm_env \<Rightarrow> ('t \<Rightarrow> (detection_signal, string) result) \<Rightarrow> ('t \<Rightarrow> (escalation_path, string) result) \<Rightarrow>
       (escalation_case \<Rightarrow> ('t, string) result) \<Rightarrow> uuid \<Rightarrow> u64 \<Rightarrow> 't \<Rightarrow> 't \<Rightarrow> ('js, 'js) result" where
  "wasm_escalate env de de_path ser u wall signal_json path_json =
     and_then (from_json_str env de signal_json) (\<lambda>signal.
     and_then (from_json_str env de_path path_json) (\<lambda>path. to_js_value env ser (escalate_signal u wall signal path)))"

definition wasm_record_feedback ::
    "('t, 'js) wasm_env \<Rightarrow> ('t, feedback_entry list) codec \<Rightarrow> ('t \<Rightarrow> (feedback_entry, string) result) \<Rightarrow> 't \<Rightarrow> 't \<Rightarrow> ('js, 'js) result" where
  "wasm_record_feedback env cd de_entry entries_json entry_json =
     and_then (from_json_str env (cd_de cd) entries_json) (\<lambda>existing.
     and_then (from_json_str env de_entry entry_json) (\<lambda>entry.
       let log = record_feedback (foldl record_feedback \<lparr>fb_entries = []\<rparr> existing) entry
       in to_js_value env (cd_ser cd) (fb_entries log)))"

definition wasm_apply_learnings ::
    "('t, 'js) wasm_env \<Rightarrow> ('t \<Rightarrow> (feedback_entry list, string) result) \<Rightarrow> (policy_recommendation list \<Rightarrow> ('t, string) result) \<Rightarrow>
       't \<Rightarrow> ('js, 'js) result" where
  "wasm_apply_learnings env de ser feedbacks_json =
     and_then (from_json_str env de feedbacks_json) (\<lambda>feedbacks. to_js_value env ser (apply_learnings feedbacks))"

fun comma_list :: "string list \<Rightarrow> string" where
  "comma_list [] = []"
| "comma_list [x] = x"
| "comma_list (x # y # xs) = x @ '', '' @ comma_list (y # xs)"

definition completeness_debug :: "completeness_result \<Rightarrow> string" where
  "completeness_debug r =
     (case r of
        Complete \<Rightarrow> ''Complete''
      | Incomplete missing \<Rightarrow> ''Incomplete { missing: ['' @ comma_list (map debug_string missing) @ ''] }'')"

definition wasm_check_completeness ::
    "('t, 'js) wasm_env \<Rightarrow> ('t \<Rightarrow> (escalation_case, string) result) \<Rightarrow> 't \<Rightarrow> ('js, 'js) result" where
  "wasm_check_completeness env de ecase_json =
     and_then (from_json_str env de ecase_json) (\<lambda>c.
       let r = check_completeness c
       in to_js_value env (we_json env)
            (JObj [(''complete'', JBool (case r of Complete \<Rightarrow> True | _ \<Rightarrow> False)), (''details'', JStr (completeness_debug r))]))"

fun triage_level_debug :: "triage_level \<Rightarrow> string" where
  "triage_level_debug Automatic = ''Automatic''"
| "triage_level_debug Supervised = ''Supervised''"
| "triage_level_debug ManualRequired = ''ManualRequired''"
| "triage_level_debug EmergencyHuman = ''EmergencyHuman''"

fun triage_action_debug :: "triage_action \<Rightarrow> string" where
  "triage_action_debug TrLog = ''Log''"
| "triage_action_debug TrAlert = ''Alert''"
| "triage_action_debug TrQuarantine = ''Quarantine''"
| "triage_action_debug TrSuspend = ''Suspend''"
| "triage_action_debug TrEscalate = ''Escalate''"
| "triage_action_debug TrShutdown = ''Shutdown''"

definition wasm_triage ::
    "('t, 'js) wasm_env \<Rightarrow> ('t \<Rightarrow> (threat_assessment, string) result) \<Rightarrow> 't \<Rightarrow> ('js, 'js) result" where
  "wasm_triage env de assessment_json =
     and_then (from_json_str env de assessment_json) (\<lambda>assessment.
       let d = triage assessment;
           path = (case tg_escalation_path d of Some p \<Rightarrow> ep_name p | None \<Rightarrow> [])
       in to_js_value env (we_json env)
            (JObj [(''level'', JStr (triage_level_debug (tg_level d))),
                   (''actions'', JArr (map (\<lambda>a. JStr (triage_action_debug a)) (tg_actions d))),
                   (''timeout_ms'', JNum (uint (physical_ms (tg_timeout d)))),
                   (''escalation_path'', JStr path)]))"

text \<open>The closure \<open>ord\<close>, and the stable sort by it with the order reversed.\<close>

fun wasm_priority_ord :: "case_priority \<Rightarrow> u8" where
  "wasm_priority_ord PrCritical = 3"
| "wasm_priority_ord PrHigh = 2"
| "wasm_priority_ord PrMedium = 1"
| "wasm_priority_ord PrLow = 0"

definition wasm_cases_by_priority ::
    "('t, 'js) wasm_env \<Rightarrow> ('t, escalation_case list) codec \<Rightarrow> 't \<Rightarrow> ('js, 'js) result" where
  "wasm_cases_by_priority env cd cases_json =
     and_then (from_json_str env (cd_de cd) cases_json) (\<lambda>cs.
     to_js_value env (cd_ser cd) (sort_key (\<lambda>c. - uint (wasm_priority_ord (ec_priority c))) cs))"

text \<open>This binding decodes by itself: its message has no prefix.\<close>

definition wasm_validate_kanban_column ::
    "('t, 'js) wasm_env \<Rightarrow> ('t \<Rightarrow> (kanban_column, string) result) \<Rightarrow> 't \<Rightarrow> ('js, 'js) result" where
  "wasm_validate_kanban_column env de column_json =
     to_js_value env (we_json env)
       (case de column_json of
          Inr col \<Rightarrow> JObj [(''valid'', JBool True), (''column'', JStr (kanban_column_name col))]
        | Inl e \<Rightarrow> JObj [(''valid'', JBool False), (''error'', JStr e)])"

section \<open>Legal operations\<close>

definition js_uuid :: "('t, 'js) wasm_env \<Rightarrow> string \<Rightarrow> (uuid, 'js) result" where
  "js_uuid env s = js_err env (\<lambda>e. ''UUID error: '' @ e) (we_uuid env s)"

definition wasm_create_evidence ::
    "('t, 'js) wasm_env \<Rightarrow> (evidence \<Rightarrow> ('t, string) result) \<Rightarrow> (uuid \<Rightarrow> string) \<Rightarrow> blake3 \<Rightarrow> uuid \<Rightarrow> u64 \<Rightarrow> bytes \<Rightarrow> string \<Rightarrow> string \<Rightarrow>
       ('js, 'js) result" where
  "wasm_create_evidence env ser show_uuid blake3 u wall content type_tag creator_str =
     and_then (js_did env creator_str) (\<lambda>creator.
     and_then (js_err env (\<lambda>e. ''Evidence error: '' @ legal_error_display show_uuid e)
       (create_evidence blake3 u content creator type_tag (snd (hc_now wall hc_new)))) (to_js_value env ser))"

definition wasm_verify_chain_of_custody ::
    "('t, 'js) wasm_env \<Rightarrow> ('t \<Rightarrow> (evidence, string) result) \<Rightarrow> (uuid \<Rightarrow> string) \<Rightarrow> 't \<Rightarrow> ('js, 'js) result" where
  "wasm_verify_chain_of_custody env de show_uuid evidence_json =
     and_then (from_json_str env de evidence_json) (\<lambda>ev.
     to_js_value env (we_json env) (json_status ''valid'' (legal_error_display show_uuid) (verify_chain_of_custody ev)))"

definition wasm_check_fiduciary_duty ::
    "('t, 'js) wasm_env \<Rightarrow> ('t \<Rightarrow> (fiduciary_duty, string) result) \<Rightarrow> ('t \<Rightarrow> (duty_entry list, string) result) \<Rightarrow>
       (duty_compliance \<Rightarrow> ('t, string) result) \<Rightarrow> 't \<Rightarrow> 't \<Rightarrow> ('js, 'js) result" where
  "wasm_check_fiduciary_duty env de_duty de_actions ser duty_json actions_json =
     and_then (from_json_str env de_duty duty_json) (\<lambda>duty.
     and_then (from_json_str env de_actions actions_json) (\<lambda>actions. to_js_value env ser (check_duty_compliance duty actions)))"

definition wasm_ediscovery_search ::
    "('t, 'js) wasm_env \<Rightarrow> ('t \<Rightarrow> (discovery_request, string) result) \<Rightarrow> ('t \<Rightarrow> (evidence list, string) result) \<Rightarrow>
       (discovery_response \<Rightarrow> ('t, string) result) \<Rightarrow> blake3 \<Rightarrow> 't \<Rightarrow> 't \<Rightarrow> ('js, 'js) result" where
  "wasm_ediscovery_search env de_request de_corpus ser blake3 request_json corpus_json =
     and_then (from_json_str env de_request request_json) (\<lambda>request.
     and_then (from_json_str env de_corpus corpus_json) (\<lambda>corpus. to_js_value env ser (discovery_search blake3 request corpus)))"

definition wasm_assert_privilege ::
    "('t, 'js) wasm_env \<Rightarrow> ('t \<Rightarrow> (privilege_type, string) result) \<Rightarrow> (privilege_assertion \<Rightarrow> ('t, string) result) \<Rightarrow>
       string \<Rightarrow> 't \<Rightarrow> string \<Rightarrow> string \<Rightarrow> ('js, 'js) result" where
  "wasm_assert_privilege env de_type ser evidence_str type_json asserter_str basis =
     and_then (js_uuid env evidence_str) (\<lambda>u.
     and_then (from_json_str env de_type type_json) (\<lambda>ty.
     and_then (js_did env asserter_str) (\<lambda>asserter. to_js_value env ser (assert_privilege u ty asserter basis))))"

definition wasm_challenge_privilege ::
    "('t, 'js) wasm_env \<Rightarrow> ('t \<Rightarrow> (privilege_assertion, string) result) \<Rightarrow> (privilege_challenge \<Rightarrow> ('t, string) result) \<Rightarrow>
       't \<Rightarrow> string \<Rightarrow> string \<Rightarrow> ('js, 'js) result" where
  "wasm_challenge_privilege env de ser assertion_json challenger_str grounds =
     and_then (from_json_str env de assertion_json) (\<lambda>assertion.
     and_then (js_did env challenger_str) (\<lambda>challenger. to_js_value env ser (challenge_privilege assertion challenger grounds)))"

definition wasm_create_record ::
    "('t, 'js) wasm_env \<Rightarrow> (legal_record \<Rightarrow> ('t, string) result) \<Rightarrow> blake3 \<Rightarrow> uuid \<Rightarrow> bytes \<Rightarrow> string \<Rightarrow> u64 \<Rightarrow> ('js, 'js) result" where
  "wasm_create_record env ser blake3 u data classification days =
     to_js_value env ser (create_legal_record blake3 u data classification days)"

definition wasm_apply_retention ::
    "('t, 'js) wasm_env \<Rightarrow> ('t, legal_record list) codec \<Rightarrow> ('t \<Rightarrow> (retention_policy, string) result) \<Rightarrow> 't \<Rightarrow> 't \<Rightarrow> u64 \<Rightarrow> ('js, 'js) result" where
  "wasm_apply_retention env cd de_policy records_json policy_json now_ms =
     and_then (from_json_str env (cd_de cd) records_json) (\<lambda>records.
     and_then (from_json_str env de_policy policy_json) (\<lambda>policy.
     to_js_value env (cd_ser cd) (apply_retention records policy (Timestamp now_ms 0))))"

definition wasm_initiate_safe_harbor ::
    "('t, 'js) wasm_env \<Rightarrow> ('t \<Rightarrow> (safe_harbor_path, string) result) \<Rightarrow> (interested_transaction \<Rightarrow> ('t, string) result) \<Rightarrow>
       (uuid \<Rightarrow> string) \<Rightarrow> uuid \<Rightarrow> string \<Rightarrow> string \<Rightarrow> string \<Rightarrow> string \<Rightarrow> 't \<Rightarrow> u64 \<Rightarrow> ('js, 'js) result" where
  "wasm_initiate_safe_harbor env de_path ser show_uuid u party_str counterparty_str description terms_hash_hex path_json now_ms =
     and_then (js_did env party_str) (\<lambda>party.
     and_then (js_did env counterparty_str) (\<lambda>counterparty.
     and_then (js_hash env ''terms hash must be 32 bytes'' terms_hash_hex) (\<lambda>terms.
     and_then (from_json_str env de_path path_json) (\<lambda>path.
     and_then (js_err env (\<lambda>e. ''Safe harbor error: '' @ legal_error_display show_uuid e)
       (initiate_safe_harbor u party counterparty description terms path (Timestamp now_ms 0))) (to_js_value env ser)))))"

definition wasm_complete_disclosure ::
    "('t, 'js) wasm_env \<Rightarrow> ('t, interested_transaction) codec \<Rightarrow> (uuid \<Rightarrow> string) \<Rightarrow> blake3 \<Rightarrow> 't \<Rightarrow> string \<Rightarrow> string \<Rightarrow> u64 \<Rightarrow> ('js, 'js) result" where
  "wasm_complete_disclosure env cd show_uuid blake3 txn_json by_str facts now_ms =
     and_then (from_json_str env (cd_de cd) txn_json) (\<lambda>txn.
     and_then (js_did env by_str) (\<lambda>d.
     and_then (js_err env (\<lambda>e. ''Disclosure error: '' @ legal_error_display show_uuid e)
       (complete_disclosure blake3 txn d facts (Timestamp now_ms 0))) (to_js_value env (cd_ser cd))))"

definition wasm_record_disinterested_vote ::
    "('t, 'js) wasm_env \<Rightarrow> ('t, interested_transaction) codec \<Rightarrow> (uuid \<Rightarrow> string) \<Rightarrow> 't \<Rightarrow> string \<Rightarrow> bool \<Rightarrow> u64 \<Rightarrow> ('js, 'js) result" where
  "wasm_record_disinterested_vote env cd show_uuid txn_json voter_str approved now_ms =
     and_then (from_json_str env (cd_de cd) txn_json) (\<lambda>txn.
     and_then (js_did env voter_str) (\<lambda>voter.
     and_then (js_err env (\<lambda>e. ''Vote error: '' @ legal_error_display show_uuid e)
       (record_disinterested_vote txn voter approved (Timestamp now_ms 0))) (to_js_value env (cd_ser cd))))"

definition wasm_verify_safe_harbor ::
    "('t, 'js) wasm_env \<Rightarrow> ('t \<Rightarrow> (interested_transaction, string) result) \<Rightarrow> (uuid \<Rightarrow> string) \<Rightarrow> 't \<Rightarrow> ('js, 'js) result" where
  "wasm_verify_safe_harbor env de show_uuid txn_json =
     and_then (from_json_str env de txn_json) (\<lambda>txn.
     to_js_value env (we_json env) (json_status ''ok'' (legal_error_display show_uuid) (snd (verify_safe_harbor txn))))"

section \<open>What the bindings do\<close>

text \<open>Rebuilding a log entry by entry fails at the entry where checking it at once would.\<close>

lemma audit_rebuild_loop:
  "audit_rebuild blake3 log es = map_sum id (\<lambda>_. log @ es) (audit_verify_loop blake3 (length log) (audit_head_hash blake3 log) es)"
  by (induction es arbitrary: log) (auto simp: audit_append_def audit_head_hash_def)

lemma audit_verify_exact:
  assumes "de text = Ok es"
  shows "wasm_audit_verify env de blake3 text =
    to_js_value env (we_json env) (json_status ''valid'' governance_error_display (audit_verify_chain blake3 es))"
proof -
  have "audit_rebuild blake3 [] es = map_sum id (\<lambda>_. es) (audit_verify_chain blake3 es)"
    by (simp add: audit_rebuild_loop audit_verify_chain_def audit_head_hash_def)
  then show ?thesis using assms
    by (cases "audit_verify_chain blake3 es") (auto simp: wasm_audit_verify_def from_json_str_def json_status_def)
qed

lemma blocked_error: "check_and_block (Did a) cs = Err e \<Longrightarrow> \<exists>sev. e = RecusalRequired a sev"
  unfolding check_and_block_def by (induction cs) (auto split: if_splits)

text \<open>An actor with a conflict that demands recusal is stopped, every other one is allowed.\<close>

lemma conflict_enforce_exact:
  assumes "did_validate a = Ok ()" "de text = Ok action" "de_ds texts = Ok ds"
  shows "if must_recuse (check_conflicts (Did a) action ds)
    then \<exists>sev. wasm_conflict_enforce env de de_ds a text texts =
           Err (we_str env (''ConflictBlocked: '' @ conflict_error_display (RecusalRequired a sev)))
    else wasm_conflict_enforce env de de_ds a text texts = to_js_value env (we_json env) (JObj [(''allowed'', JBool True)])"
proof -
  let ?cs = "check_conflicts (Did a) action ds"
  have did: "js_did env a = Ok (Did a)" using assms(1) by (simp add: js_did_def did_new_def)
  have run: "wasm_conflict_enforce env de de_ds a text texts =
      and_then (js_err env (\<lambda>e. ''ConflictBlocked: '' @ conflict_error_display e) (check_and_block (Did a) ?cs))
        (\<lambda>_. to_js_value env (we_json env) (JObj [(''allowed'', JBool True)]))"
    using did assms(2,3) by (simp add: wasm_conflict_enforce_def from_json_str_def)
  show ?thesis
  proof (cases "check_and_block (Did a) ?cs")
    case (Inl e)
    then obtain sev where e: "check_and_block (Did a) ?cs = Err (RecusalRequired a sev)" using blocked_error by blast
    then have "must_recuse ?cs" using check_and_block_ok [of "Did a" ?cs] by auto
    moreover have "\<exists>sev. wasm_conflict_enforce env de de_ds a text texts =
        Err (we_str env (''ConflictBlocked: '' @ conflict_error_display (RecusalRequired a sev)))"
      by (rule exI [of _ sev]) (simp only: run e js_err_simps and_then_simps)
    ultimately show ?thesis by (simp only: if_True)
  qed (use run check_and_block_ok [of "Did a" ?cs] in simp)
qed

text \<open>The cases come in the order of their priority, highest first, and those of equal priority keep theirs.\<close>

lemma cases_by_priority_sorted:
  assumes "cd_de cd text = Ok cs"
  shows "\<exists>cs'. wasm_cases_by_priority env cd text = to_js_value env (cd_ser cd) cs' \<and> mset cs' = mset cs \<and>
    sorted_wrt (\<lambda>a b. ec_priority b \<le> ec_priority a) cs' \<and>
    (\<forall>p. filter (\<lambda>c. ec_priority c = p) cs' = filter (\<lambda>c. ec_priority c = p) cs)"
proof -
  have rank: "- uint (wasm_priority_ord p) = - int (priority_rank p)" for p by (cases p) simp_all
  let ?k = "\<lambda>c. - int (priority_rank (ec_priority c))"
  have "sorted_wrt (\<lambda>a b. ec_priority b \<le> ec_priority a) (sort_key ?k cs)"
    using sorted_sort_key [of ?k cs] by (simp add: sorted_map less_eq_case_priority_def)
  moreover have "filter (\<lambda>c. ec_priority c = p) (sort_key ?k cs) = filter (\<lambda>c. ec_priority c = p) cs" for p
    using sort_key_stable [of ?k "- int (priority_rank p)" cs] by (simp add: priority_rank_inject)
  ultimately show ?thesis using assms
    by (intro exI [of _ "sort_key ?k cs"]) (simp add: wasm_cases_by_priority_def from_json_str_def rank)
qed

lemma feedback_appended:
  assumes "cd_de cd t = Ok es" "de u = Ok e"
  shows "wasm_record_feedback env cd de t u = to_js_value env (cd_ser cd) (es @ [e])"
proof -
  have "fb_entries (foldl record_feedback l xs) = fb_entries l @ xs" for l xs
    by (induction xs arbitrary: l) (simp_all add: record_feedback_def)
  with assms show ?thesis by (simp add: wasm_record_feedback_def from_json_str_def record_feedback_def)
qed

section \<open>What they lose\<close>

text \<open>Whoever the actor is, every action that the policy lists is granted.\<close>

lemma clearance_for_everyone:
  assumes "did_validate a = Ok ()" "de text = Ok policy" "policy action = Some ap"
  shows "wasm_check_clearance env de a action text = to_js_value env (we_json env) (JObj [(''status'', JStr ''Granted'')])"
proof -
  have "check_clearance (Did a) action policy (set_level Map.empty (Did a) LevelGovernor) = ClGranted"
    using assms(3) by (cases "required_level ap") (simp_all add: check_clearance_def get_level_def set_level_def less_clearance_level_def)
  with assms show ?thesis
    by (simp add: wasm_check_clearance_def js_did_def did_new_def from_json_str_def clearance_json_def)
qed

text \<open>An append starts from an empty log: the result always reports one entry.\<close>

lemma append_starts_anew:
  assumes "did_validate a = Ok ()" "js_arr32 env ''evidence hash must be 32 bytes'' h = Ok arr"
  shows "\<exists>head. wasm_audit_append env blake3 u now a action res h =
    to_js_value env (we_json env) (JObj [(''entries'', JNum 1), (''head_hash'', JStr head)])"
  using assms
  by (auto simp: wasm_audit_append_def js_did_def did_new_def audit_append_def create_entry_def)

text \<open>
  Closing returns the outcome but not the closed deliberation, so the text of the caller still takes
  votes; verifying a safe harbour returns the verdict but not the transaction that it marks.
\<close>

lemma votes_after_closing:
  assumes "cd_de cd text = Ok d" "dl_status d = DelibOpen" "de_policy ptext = Ok policy"
    and "\<forall>w \<in> set (dl_votes d). delib_vote.dv_voter w \<noteq> delib_vote.dv_voter v" "de_vote vtext = Ok v"
  shows "dl_status (fst (delib_close d policy)) = DelibClosed \<and>
    wasm_close_deliberation env (cd_de cd) de_policy text ptext =
      to_js_value env (we_json env) (deliberation_json (snd (delib_close d policy))) \<and>
    wasm_cast_vote env cd de_vote text vtext = to_js_value env (cd_ser cd) (d\<lparr>dl_votes := dl_votes d @ [v]\<rparr>)"
  using assms
  by (auto simp: wasm_close_deliberation_def wasm_cast_vote_def from_json_str_def delib_close_def Let_def
      delib_cast_vote_def list_ex_iff)

lemma safe_harbor_mark_lost:
  assumes "de text = Ok txn" "snd (verify_safe_harbor txn) = Ok ()"
  shows "it_status (fst (verify_safe_harbor txn)) = ShVerified \<and>
    wasm_verify_safe_harbor env de show_uuid text = to_js_value env (we_json env) (JObj [(''ok'', JBool True)])"
  using assms
  by (auto simp: wasm_verify_safe_harbor_def from_json_str_def json_status_def verify_safe_harbor_def Let_def
      split: option.splits safe_harbor_path.splits if_splits)

end
