(* ===== verification/Spec2Isabelle.thy ===== *)
theory Spec2Isabelle
  imports Bcts Core_Invariants Dag_Store Consensus Smt Mmr Checkpoint Shamir Delegation Chain_Cache
    Consent Holon Mcp Conflict Custody Bcts_Pipeline Forum_Authority Forum_Metrics Forum_Process Identity
    Tenant Escalation Monitor Legal_Report Proofs Peers Gateway Graphql
    Wasm_Forum Wasm_Core Wasm_Governance
begin

text \<open>
  A verification library for \<open>exochain\<close>, a Rust workspace of governance and provenance crates under
  \<open>src/crates\<close>. Its base crate \<open>exo-core\<close> has the value types, hashing, clocks, signatures and the
  transaction life cycle. Over it \<open>exo-dag\<close> keeps an append-only graph of hashed nodes with
  authenticated indexes and a voting protocol; \<open>exo-authority\<close> the delegation of permissions;
  \<open>exo-consent\<close> bailments and the consent gate; \<open>exo-gatekeeper\<close> the kernel that judges every action
  against constitutional invariants and the agents (holons) that run under it; \<open>exo-governance\<close>
  deliberation, quorum, conflicts and audit; \<open>exo-identity\<close> identities, keys, risk and secret sharing.
  \<open>exo-bcts\<close> runs transactions through stages, \<open>decision-forum\<close> builds decisions with their controls,
  authorities, emergencies and fiduciary records on top, and \<open>exo-escalation\<close>, \<open>exo-legal\<close>,
  \<open>exo-tenant\<close>, \<open>exo-proofs\<close> and \<open>exo-api\<close> add cases, legal rules, tenants, proof stand-ins and peers.
  The gateway serves requests over HTTP and GraphQL, and \<open>exochain-wasm\<close> exposes the crates to JavaScript.

  \<^bold>\<open>Theories.\<close> Each theory holds one component: its data, operations in the order of the code,
  invariant and theorems. State is passed explicitly, an operation returns its new state with its
  result, and every early return is a value of an error datatype with the constructors of the source.

  \<^item> \<open>Prelude\<close>: results and their combinators (\<open>?\<close>, \<open>ok_or\<close>, loops that stop at the first error),
    little-endian bytes, saturating arithmetic, debug printing, generic lemmas and lemma collections.
  \<^item> \<open>Btree\<close>: \<open>BTreeMap\<close> as a strictly sorted association list (\<open>DeterministicMap\<close> of \<open>types.rs\<close>);
    the locale of a finite map and its interpretation.
  \<^item> \<open>Core_Types\<close>, \<open>Core_Display\<close> (\<open>exo-core/types.rs\<close>): identifiers, hashes, timestamps and their
    order, signatures; their printed forms, and which of these determine the value.
  \<^item> \<open>Merkle\<close> (\<open>hash.rs\<close>): roots and inclusion proofs, complete and unforgeable. \<open>Hash_Tree\<close> has the
    lemmas on collision-free hash trees that \<open>Smt\<close> and \<open>Mmr\<close> share.
  \<^item> \<open>Hlc\<close> (\<open>hlc.rs\<close>): the hybrid clock, monotone up to the saturation of its counter, and within the
    tolerance of the highest wall-clock reading so far.
  \<^item> \<open>Bcts\<close> (\<open>bcts.rs\<close>): the transaction state machine and its receipt chain; reachable transactions
    are consistent, no stage is skipped, and a tampered history is detected.
  \<^item> \<open>Crypto\<close> (\<open>crypto.rs\<close>, \<open>events.rs\<close>): key pairs, the three signature schemes and signed events.
  \<^item> \<open>Core_Invariants\<close> (\<open>invariants.rs\<close>): invariant sets and their two evaluation modes.
  \<^item> \<open>Dag\<close>, \<open>Dag_Store\<close>, \<open>Consensus\<close>, \<open>Smt\<close>, \<open>Mmr\<close>, \<open>Checkpoint\<close> (\<open>exo-dag\<close>): graph append and
    ancestors with Kahn's sort; the storage interface as a locale with the in-memory store and
    validated append; votes, certificates and commits; the sparse Merkle tree; the mountain range;
    checkpoint preimages.
  \<^item> \<open>Gf256\<close>, \<open>Interpolation\<close>, \<open>Shamir\<close> (\<open>exo-identity/shamir.rs\<close>): the field by its own
    multiplication and inversion loops, polynomial interpolation over a field locale, secret sharing.
  \<^item> \<open>Authority\<close>, \<open>Delegation\<close>, \<open>Chain_Cache\<close> (\<open>exo-authority\<close>): permission sets and signed chains,
    the registry with its cycle check and depth-first search, the bounded cache. The identifiers of links
    can collide, so exactness of the indexes and of the search is proved for histories without a collision.
  \<^item> \<open>Consent\<close> (\<open>exo-consent\<close>): bailments, policies and the default-deny gate.
  \<^item> \<open>Gate_Invariants\<close>, \<open>Kernel\<close>, \<open>Combinator\<close>, \<open>Holon\<close>, \<open>Mcp\<close> (\<open>exo-gatekeeper\<close>): the eight
    invariants, adjudication, the combinator algebra with its reference semantics, the agents and the
    rules for AI actors with their audit log.
  \<^item> \<open>Hash_Log\<close>: the locale of a hash-chained log, interpreted by \<open>Mcp\<close> and \<open>Gov_Audit\<close>.
  \<^item> \<open>Gov_Audit\<close>, \<open>Deliberation\<close>, \<open>Gov_Process\<close>, \<open>Conflict\<close>, \<open>Custody\<close> (\<open>exo-governance\<close>): the audit
    trail, quorum and deliberation, clearance, challenges and succession, conflicts of interest and
    independence, custody chains.
  \<^item> \<open>Bcts_Pipeline\<close> (\<open>exo-bcts\<close>): the staged pipeline, its ledger and the outcome for every validator.
  \<^item> \<open>Forum_Decision\<close>, \<open>Forum_Authority\<close>, \<open>Forum_Process\<close>, \<open>Forum_Metrics\<close> (\<open>decision-forum\<close>):
    decision objects, which refine the transactions of \<open>Bcts\<close>, quorum, the human gate and the controls;
    the authority matrix; constitution, emergencies, contestation, accountability and self-governance;
    metrics, workflow receipts and the fiduciary package.
  \<^item> \<open>Identity\<close> (\<open>exo-identity\<close>): the registry of identities, key rotation, key management, the
    guardianship of accounts, risk attestations, the vault and signatures by identity.
  \<^item> \<open>Tenant\<close> (\<open>exo-tenant\<close>): the isolated store as a refinement of one partial map, with
    non-interference between tenants; the registry, storage tiers and shards.
  \<^item> \<open>Escalation\<close> (\<open>exo-escalation\<close>): detection, triage, cases, the board that conserves them, feedback.
  \<^item> \<open>Monitor\<close> (\<open>exo-gatekeeper/tee.rs\<close>, \<open>governance_monitor.rs\<close>): attestations, the circuit breaker
    over a sliding window and the approval queue.
  \<^item> \<open>Legal\<close>, \<open>Legal_Report\<close> (\<open>exo-legal\<close>): custody of evidence, privilege, retention, discovery,
    fiduciary duties and the safe harbour; transparency and compliance reports.
  \<^item> \<open>Proofs\<close> (\<open>exo-proofs\<close>): circuits, the SNARK and STARK stand-ins, inference proofs and the verifier;
    completeness (with and without overflow checks), what a tag binds, and which statements these
    stand-ins do not prove.
  \<^item> \<open>Peers\<close> (\<open>exo-api\<close>): the peer registry, message checks, rate limits and the selection of diverse peers.
  \<^item> \<open>Gateway\<close> (\<open>exo-gateway\<close>: \<open>auth\<close>, \<open>middleware\<close>, \<open>routes\<close>, \<open>rest\<close>, \<open>server\<close>): the request pipeline
    (authentication, consent, governance, audit), characterised exactly, the route table, the probes and
    the configuration check.
  \<^item> \<open>Graphql\<close> (\<open>exo-gateway/graphql.rs\<close>): the state, queries and mutations of the GraphQL schema with
    the events they broadcast; a subscriber that folds the events follows the state as far as it has
    read, also when it lags and its stream ends, and every decision has a hash-chained trail (a further interpretation of \<open>Hash_Log\<close>).
  \<^item> \<open>Wasm_Bridge\<close>, \<open>Wasm_Forum\<close>, \<open>Wasm_Core\<close>, \<open>Wasm_Governance\<close> (\<open>exochain-wasm\<close>): the JavaScript bindings,
    each as decoding, a call of the function modelled above and encoding. Sessions of calls refine
    sessions of the library with a new clock for each call, for timestamps that JavaScript holds exactly,
    and proofs, shares and signatures survive the way through JavaScript; the
    lemmas at the end of each theory say what the bindings lose of the library's state.

  \<^bold>\<open>Parameters.\<close> What the crates take from outside the repository is an argument: the BLAKE3 hash,
  the CBOR and JSON codecs, the JavaScript engine, the Ed25519 and ML-DSA primitives, random bytes and identifiers, the
  wall clock, and the iteration order of hash maps. Security theorems assume that the hash has no
  collision among the finitely many byte strings the two histories in question hash (\<open>inj_on\<close>), never
  that it is injective; signature theorems assume that verification accepts what signing produced.

  \<^bold>\<open>Histories.\<close> Reachability relations put no condition on the inputs that the code does not check.
  Where a property needs one (identifiers or hashes that do not repeat, a limit check before a creation,
  one clock for all calls, a wall clock that does not go back), the relation carries the history and the
  theorem states the condition.

  \<^bold>\<open>Bounds and fuel.\<close> Machine integers keep their width: \<open>u8\<close>, \<open>u32\<close> and \<open>u64\<close> are words, with
  wrap-around or saturation as the operator used has. Lengths and indexes of vectors (\<open>usize\<close>) are
  natural numbers, since a vector cannot outgrow memory. Loops are structural or come with a
  termination proof. Two carry fuel: the path search of the delegation registry, with one more than the
  number of delegators (\<open>has_path_correct\<close>: enough), and Kahn's loop, with the number of nodes and edges
  (\<open>topological_sort_fuel\<close>: enough). The eviction loop of the chain cache may run forever and is a
  partial function; that it ends for a positive capacity is a theorem. The mountain range is proved for
  fewer than 2^63 leaves.

  \<^bold>\<open>Not modelled.\<close> The SQL statements of \<open>exo-gateway/db.rs\<close>, sockets, signals and the start of the
  process, the command-line front end \<open>exoclaw-cli\<close>, serde encodings other than signatures (they are
  arguments where they matter), and the files that no module declaration names, which are not part of
  the program: \<open>exo-core/event.rs\<close>, \<open>exo-dag/proof.rs\<close>, \<open>exo-gatekeeper/proof.rs\<close>, \<open>handlers.rs\<close>, \<open>livesafe.rs\<close>
  and \<open>notifications.rs\<close> of the gateway, and \<open>anchor.rs\<close>, \<open>constitution.rs\<close>, \<open>decision.rs\<close>, \<open>delegation.rs\<close>,
  \<open>emergency.rs\<close> and \<open>errors.rs\<close> of \<open>exo-governance\<close>, among others. The variants of \<open>EventPayload\<close> are
  data without operations.
\<close>

end
